(* ===== verification/Prelude.thy ===== *)
theory Prelude
  imports Main "HOL-Library.Word" "HOL-Library.Multiset"
begin

text \<open>
  Shared vocabulary of the development.

  Time: a Go \<open>time.Time\<close> is read as the number of nanoseconds since Go's zero time, so
  \<open>IsZero\<close> is comparison with 0 and \<open>Before\<close>/\<open>After\<close> are \<open><\<close>/\<open>>\<close>; a \<open>time.Duration\<close> is
  a number of nanoseconds, and \<open>Time.Sub\<close> saturates at the 64-bit range as the library
  documents. Strings are Go strings: lists of bytes (\<open>char\<close>).

  The theory also holds the two locales every state machine of the development is an instance
  of: a machine with an invariant (\<open>invariant_machine\<close>), and one whose continuing steps
  decrease a potential (\<open>draining_machine\<close>), with the facts about whole runs proved once.
\<close>

named_theorems unit_defs \<open>definitions of constants and of one-line helpers of the code\<close>

section \<open>Instants and durations\<close>

type_synonym instant = int
type_synonym duration = int
type_synonym account_id = int

abbreviation is_zero_time :: "instant \<Rightarrow> bool" where
  "is_zero_time t \<equiv> t = 0"

abbreviation millisecond :: duration where "millisecond \<equiv> 1000000"
abbreviation second :: duration where "second \<equiv> 1000000000"
abbreviation minute :: duration where "minute \<equiv> 60000000000"
abbreviation hour :: duration where "hour \<equiv> 3600000000000"

definition max_duration :: duration where
  "max_duration = 9223372036854775807"

definition time_sub :: "instant \<Rightarrow> instant \<Rightarrow> duration" where
  "time_sub t u = max (- max_duration - 1) (min max_duration (t - u))"

lemma time_sub_exact [simp]:
  "\<bar>t - u\<bar> \<le> max_duration \<Longrightarrow> time_sub t u = t - u"
  by (auto simp: time_sub_def)

lemma time_sub_nonneg [simp]: "0 \<le> time_sub t u \<longleftrightarrow> u \<le> t"
  by (auto simp: time_sub_def max_duration_def)

lemma time_sub_greater:
  "0 \<le> d \<Longrightarrow> d < max_duration \<Longrightarrow> d < time_sub t u \<longleftrightarrow> d < t - u"
  by (auto simp: time_sub_def max_duration_def)

lemma time_sub_less:
  "0 \<le> d \<Longrightarrow> d \<le> max_duration \<Longrightarrow> time_sub t u < d \<longleftrightarrow> t - u < d"
  by (auto simp: time_sub_def max_duration_def)

text \<open>Integer division of Go, which truncates towards zero.\<close>

definition quot :: "int \<Rightarrow> int \<Rightarrow> int" where
  "quot a b = sgn a * sgn b * (\<bar>a\<bar> div \<bar>b\<bar>)"

section \<open>Lists\<close>

lemma find_append_cases:
  "find P (xs @ ys) = (case find P xs of None \<Rightarrow> find P ys | Some x \<Rightarrow> Some x)"
  by (induction xs) auto

lemma find_SomeD: "find P xs = Some x \<Longrightarrow> P x \<and> x \<in> set xs"
  by (induction xs) (auto split: if_splits)

section \<open>Runs of state machines\<close>

fun run_steps :: "('s \<Rightarrow> 'e \<Rightarrow> 's) \<Rightarrow> 's \<Rightarrow> 'e list \<Rightarrow> 's" where
  "run_steps f s [] = s"
| "run_steps f s (e # es) = run_steps f (f s e) es"

lemma run_steps_append: "run_steps f s (xs @ ys) = run_steps f (run_steps f s xs) ys"
  by (induction xs arbitrary: s) auto

text \<open>The events of a run that the environment may offer, each judged in the state it meets.\<close>

fun admissible :: "('s \<Rightarrow> 'e \<Rightarrow> bool) \<Rightarrow> ('s \<Rightarrow> 'e \<Rightarrow> 's) \<Rightarrow> 's \<Rightarrow> 'e list \<Rightarrow> bool" where
  "admissible ok f s [] \<longleftrightarrow> True"
| "admissible ok f s (e # es) \<longleftrightarrow> ok s e \<and> admissible ok f (f s e) es"

lemma admissible_append:
  "admissible ok f s (xs @ ys) \<longleftrightarrow> admissible ok f s xs \<and> admissible ok f (run_steps f s xs) ys"
  by (induction xs arbitrary: s) auto

lemma admissible_mono:
  "admissible ok f s es \<Longrightarrow> (\<And>s e. ok s e \<Longrightarrow> ok' s e) \<Longrightarrow> admissible ok' f s es"
  by (induction es arbitrary: s) auto

lemma admissible_True [simp]: "admissible (\<lambda>_ _. True) f s es"
  by (induction es arbitrary: s) auto

locale invariant_machine =
  fixes ok :: "'s \<Rightarrow> 'e \<Rightarrow> bool"
    and step :: "'s \<Rightarrow> 'e \<Rightarrow> 's"
    and inv :: "'s \<Rightarrow> bool"
  assumes inv_step: "inv s \<Longrightarrow> ok s e \<Longrightarrow> inv (step s e)"
begin

lemma inv_run: "inv s \<Longrightarrow> admissible ok step s es \<Longrightarrow> inv (run_steps step s es)"
  by (induction es arbitrary: s) (auto intro: inv_step)

lemma inv_prefix:
  "inv s \<Longrightarrow> admissible ok step s (xs @ ys) \<Longrightarrow> inv (run_steps step s xs)"
proof (induction xs arbitrary: s)
  case (Cons e xs)
  then show ?case by (auto intro: inv_step)
qed simp

end

text \<open>
  A machine that may stop: a step either stops (\<open>None\<close>) or continues in a new state. When every
  continuing step decreases a potential, a run cannot continue for longer than the potential
  of its first state.
\<close>

fun run_while :: "('s \<Rightarrow> 'e \<Rightarrow> 's option) \<Rightarrow> 's \<Rightarrow> 'e list \<Rightarrow> 's option" where
  "run_while f s [] = Some s"
| "run_while f s (e # es) = (case f s e of None \<Rightarrow> None | Some t \<Rightarrow> run_while f t es)"

lemma run_while_append:
  "run_while f s (xs @ ys) = (case run_while f s xs of None \<Rightarrow> None | Some t \<Rightarrow> run_while f t ys)"
  by (induction xs arbitrary: s) (auto split: option.splits)

locale stopping_machine =
  fixes ok :: "'e \<Rightarrow> bool"
    and step :: "'s \<Rightarrow> 'e \<Rightarrow> 's option"
    and inv :: "'s \<Rightarrow> bool"
  assumes keep_inv: "inv s \<Longrightarrow> ok e \<Longrightarrow> step s e = Some t \<Longrightarrow> inv t"
begin

lemma run_inv: "inv s \<Longrightarrow> list_all ok es \<Longrightarrow> run_while step s es = Some t \<Longrightarrow> inv t"
proof (induction es arbitrary: s)
  case (Cons e es)
  then show ?case by (auto split: option.splits intro: keep_inv)
qed simp

end

locale draining_machine = stopping_machine +
  fixes potential :: "'b \<Rightarrow> nat"
  assumes drain_less: "inv s \<Longrightarrow> ok e \<Longrightarrow> step s e = Some t \<Longrightarrow> potential t < potential s"
begin

lemma run_potential:
  "inv s \<Longrightarrow> list_all ok es \<Longrightarrow> run_while step s es = Some t \<Longrightarrow>
     potential t + length es \<le> potential s"
proof (induction es arbitrary: s)
  case (Cons e es)
  then obtain u where u: "step s e = Some u" "run_while step u es = Some t"
    by (auto split: option.splits)
  with Cons.prems have "inv u" "potential u < potential s"
    by (auto intro: keep_inv drain_less)
  with Cons.IH [of u] Cons.prems u show ?case by fastforce
qed simp

lemma run_bounded:
  "inv s \<Longrightarrow> list_all ok es \<Longrightarrow> run_while step s es = Some t \<Longrightarrow> length es \<le> potential s"
  using run_potential by fastforce

lemma run_must_stop:
  "inv s \<Longrightarrow> list_all ok es \<Longrightarrow> potential s < length es \<Longrightarrow> run_while step s es = None"
  using run_bounded [of s es] by (cases "run_while step s es") auto

end

text \<open>
  A machine that emits outputs, watched by an observer: the observer follows a view of the
  machine's state through the outputs alone, and refuses (\<open>None\<close>) an output that breaks its
  protocol.
\<close>

fun run_emit :: "('s \<Rightarrow> 'e \<Rightarrow> 's \<times> 'o list) \<Rightarrow> 's \<Rightarrow> 'e list \<Rightarrow> 's \<times> 'o list" where
  "run_emit f s [] = (s, [])"
| "run_emit f s (e # es) =
     (case f s e of (t, out) \<Rightarrow> (case run_emit f t es of (u, outs) \<Rightarrow> (u, out @ outs)))"

locale observed_machine =
  fixes ok :: "'s \<Rightarrow> 'e \<Rightarrow> bool"
    and step :: "'s \<Rightarrow> 'e \<Rightarrow> 's \<times> 'o list"
    and inv :: "'s \<Rightarrow> bool"
    and view :: "'s \<Rightarrow> 'v"
    and observe :: "'v \<Rightarrow> 'o \<Rightarrow> 'v option"
  assumes step_inv: "inv s \<Longrightarrow> ok s e \<Longrightarrow> step s e = (t, out) \<Longrightarrow> inv t"
    and step_observed: "inv s \<Longrightarrow> ok s e \<Longrightarrow> step s e = (t, out) \<Longrightarrow>
      run_while observe (view s) out = Some (view t)"
begin

lemma run_observed:
  "inv s \<Longrightarrow> admissible ok (\<lambda>s e. fst (step s e)) s es \<Longrightarrow> run_emit step s es = (t, outs) \<Longrightarrow>
     inv t \<and> run_while observe (view s) outs = Some (view t)"
proof (induction es arbitrary: s t outs)
  case (Cons e es)
  obtain u out where u: "step s e = (u, out)" by fastforce
  obtain outs' where outs': "run_emit step u es = (t, outs')" "outs = out @ outs'"
    using Cons.prems(3) u by (auto split: prod.splits)
  have "inv u" "run_while observe (view s) out = Some (view u)"
    using Cons.prems u by (auto intro: step_inv step_observed)
  with Cons.IH [of u t outs'] Cons.prems u outs' show ?case
    by (simp add: run_while_append)
qed simp

end

section \<open>Bytes and strings\<close>

abbreviation code :: "char \<Rightarrow> nat" where "code c \<equiv> of_char c"
abbreviation byte :: "nat \<Rightarrow> char" where "byte n \<equiv> char_of n"

definition ascii_lower_char :: "char \<Rightarrow> char" where
  "ascii_lower_char c =
     (if 65 \<le> (of_char c :: nat) \<and> (of_char c :: nat) \<le> 90 then char_of ((of_char c :: nat) + 32) else c)"

definition ascii_lower :: "string \<Rightarrow> string" where
  "ascii_lower s = map ascii_lower_char s"

text \<open>
  \<open>strings.TrimSpace\<close>: the encodings in UTF-8 of the code points with Unicode's
  \<open>White_Space\<close> property are removed at both ends.
\<close>

definition utf8_spaces :: "string list" where
  "utf8_spaces =
     map (map (char_of :: nat \<Rightarrow> char))
       ([[9], [10], [11], [12], [13], [32], [194, 133], [194, 160], [225, 154, 128]]
        @ map (\<lambda>b. [226, 128, b]) [128 ..< 139]
        @ [[226, 128, 168], [226, 128, 169], [226, 128, 175], [226, 129, 159], [227, 128, 128]])"

text \<open>The same list with the characters written out, for evaluation.\<close>

lemma utf8_spaces_code [code]:
  "utf8_spaces =
     [[CHR 0x09], [CHR 0x0A], [CHR 0x0B], [CHR 0x0C], [CHR 0x0D], [CHR 0x20],
      [CHR 0xC2, CHR 0x85], [CHR 0xC2, CHR 0xA0], [CHR 0xE1, CHR 0x9A, CHR 0x80],
      [CHR 0xE2, CHR 0x80, CHR 0x80], [CHR 0xE2, CHR 0x80, CHR 0x81],
      [CHR 0xE2, CHR 0x80, CHR 0x82], [CHR 0xE2, CHR 0x80, CHR 0x83],
      [CHR 0xE2, CHR 0x80, CHR 0x84], [CHR 0xE2, CHR 0x80, CHR 0x85],
      [CHR 0xE2, CHR 0x80, CHR 0x86], [CHR 0xE2, CHR 0x80, CHR 0x87],
      [CHR 0xE2, CHR 0x80, CHR 0x88], [CHR 0xE2, CHR 0x80, CHR 0x89],
      [CHR 0xE2, CHR 0x80, CHR 0x8A], [CHR 0xE2, CHR 0x80, CHR 0xA8],
      [CHR 0xE2, CHR 0x80, CHR 0xA9], [CHR 0xE2, CHR 0x80, CHR 0xAF],
      [CHR 0xE2, CHR 0x81, CHR 0x9F], [CHR 0xE3, CHR 0x80, CHR 0x80]]"
  by (simp add: utf8_spaces_def upt_rec char_of_def bit_simps)

definition strip_one :: "string list \<Rightarrow> string \<Rightarrow> string option" where
  "strip_one ws s =
     map_option (\<lambda>w. drop (length w) s) (find (\<lambda>w. w \<noteq> [] \<and> take (length w) s = w) ws)"

lemma strip_one_shorter: "strip_one ws s = Some t \<Longrightarrow> length t < length s"
proof -
  assume "strip_one ws s = Some t"
  then obtain w where w: "find (\<lambda>w. w \<noteq> [] \<and> take (length w) s = w) ws = Some w"
    and t: "t = drop (length w) s"
    by (auto simp: strip_one_def)
  from w have "w \<noteq> []" "take (length w) s = w"
    by (auto simp: find_Some_iff)
  then have "0 < length w" "length w \<le> length s"
    by (simp, metis nat_le_linear order_refl take_all length_take min_def)
  with t show "length t < length s" by (cases w) auto
qed

function strip_left :: "string list \<Rightarrow> string \<Rightarrow> string" where
  "strip_left ws s = (case strip_one ws s of None \<Rightarrow> s | Some t \<Rightarrow> strip_left ws t)"
  by pat_completeness auto
termination
  by (relation "measure (\<lambda>(ws, s). length s)") (auto dest: strip_one_shorter)

declare strip_left.simps [simp del]

definition trim_space :: "string \<Rightarrow> string" where
  "trim_space s =
     rev (strip_left (map rev utf8_spaces) (rev (strip_left utf8_spaces s)))"

lemma strip_left_bytes: "set s \<subseteq> set (strip_left ws s) \<union> \<Union> (set ` set ws)"
proof (induction ws s rule: strip_left.induct)
  case (1 ws s)
  show ?case
  proof (cases "strip_one ws s")
    case None
    then show ?thesis by (simp add: strip_left.simps [of ws s])
  next
    case (Some t)
    then obtain w where w: "find (\<lambda>w. w \<noteq> [] \<and> take (length w) s = w) ws = Some w" "t = drop (length w) s"
      by (auto simp: strip_one_def)
    have "w \<in> set ws" "take (length w) s = w" using find_SomeD [OF w(1)] by auto
    with w(2) have "set s = set w \<union> set t" by (metis append_take_drop_id set_append)
    with 1 [OF Some] \<open>w \<in> set ws\<close> Some show ?thesis
      by (subst strip_left.simps) auto
  qed
qed

text \<open>A string whose ends are no white space is its own trimming.\<close>

lemma strip_left_id:
  assumes "s \<noteq> []" "\<And>w. w \<in> set ws \<Longrightarrow> w \<noteq> [] \<Longrightarrow> hd w \<noteq> hd s"
  shows "strip_left ws s = s"
proof -
  have "take (length w) s \<noteq> w" if "w \<in> set ws" "w \<noteq> []" for w
    using assms(1) assms(2) [OF that] that(2) by (cases w; cases s) auto
  then have "strip_one ws s = None" by (auto simp: strip_one_def find_None_iff)
  then show ?thesis by (simp add: strip_left.simps [of ws s])
qed

lemma trim_space_bytes:
  assumes "trim_space s = []"
  shows "set s \<subseteq> \<Union> (set ` set utf8_spaces)"
proof -
  let ?t = "strip_left utf8_spaces s"
  have "strip_left (map rev utf8_spaces) (rev ?t) = []" using assms by (simp add: trim_space_def)
  with strip_left_bytes [of "rev ?t" "map rev utf8_spaces"] have "set ?t \<subseteq> \<Union> (set ` set utf8_spaces)"
    by auto
  with strip_left_bytes [of s utf8_spaces] show ?thesis by blast
qed

text \<open>The decimal digits of a number.\<close>

definition digit_char :: "nat \<Rightarrow> char" where
  "digit_char d = (if d < 10 then ''0123456789'' ! d else CHR ''?'')"

fun decimal :: "nat \<Rightarrow> string" where
  "decimal n = (if n < 10 then [digit_char n] else decimal (n div 10) @ [digit_char (n mod 10)])"

declare decimal.simps [simp del]

text \<open>
  A machine run together with a guide that says which inputs are legal; the guide refuses
  (\<open>None\<close>) an illegal input.
\<close>

definition guided :: "('g \<Rightarrow> 'e \<Rightarrow> 'g option) \<Rightarrow> ('s \<Rightarrow> 'e \<Rightarrow> 's \<times> 'o list) \<Rightarrow>
    'g \<times> 's \<Rightarrow> 'e \<Rightarrow> ('g \<times> 's) \<times> 'o list" where
  "guided guide f = (\<lambda>(g, s) e. case f s e of (t, out) \<Rightarrow>
     (((case guide g e of None \<Rightarrow> g | Some h \<Rightarrow> h), t), out))"

definition guide_allows :: "('g \<Rightarrow> 'e \<Rightarrow> 'g option) \<Rightarrow> 'g \<times> 's \<Rightarrow> 'e \<Rightarrow> bool" where
  "guide_allows guide x e \<longleftrightarrow> guide (fst x) e \<noteq> None"

lemma guided_run:
  "run_while guide g es = Some h \<Longrightarrow>
     admissible (guide_allows guide) (\<lambda>x e. fst (guided guide f x e)) (g, s) es \<and>
     run_emit (guided guide f) (g, s) es = (case run_emit f s es of (t, outs) \<Rightarrow> ((h, t), outs))"
proof (induction es arbitrary: g s)
  case (Cons e es)
  then obtain k where k: "guide g e = Some k" "run_while guide k es = Some h"
    by (auto split: option.splits)
  obtain t out where t: "f s e = (t, out)" by fastforce
  with Cons.IH [OF k(2), of t] k(1) show ?case
    by (simp add: guided_def guide_allows_def split: prod.splits)
qed simp

end
