(* ===== verification/GoJson.thy ===== *)
theory GoJson
  imports Prelude
begin

text \<open>
  The part of Go's \<open>encoding/json\<close> the code uses on raw messages: \<open>json.Valid\<close>, decoding an
  object into a \<open>map[string]json.RawMessage\<close>, and encoding such a map or a string. The validity
  check is the library's own byte-at-a-time scanner with its stack of parse states; the
  encoder sorts the keys, compacts the raw values and escapes what the library escapes for HTML.
\<close>

definition json_space :: "char \<Rightarrow> bool" where
  "json_space c \<longleftrightarrow> code c \<in> {32, 9, 13, 10}"

definition json_digit :: "char \<Rightarrow> bool" where
  "json_digit c \<longleftrightarrow> 48 \<le> code c \<and> code c \<le> 57"

definition json_hex :: "char \<Rightarrow> bool" where
  "json_hex c \<longleftrightarrow> json_digit c \<or> 97 \<le> code c \<and> code c \<le> 102 \<or> 65 \<le> code c \<and> code c \<le> 70"

section \<open>The scanner\<close>

datatype json_ctx = InObjectKey | InObjectValue | InArray

datatype json_state =
    BeginValueOrEmpty | BeginValue | BeginStringOrEmpty | BeginString | EndValue | EndTop
  | InString | InStringEsc | InStringEscU nat
  | NumNeg | Num1 | Num0 | NumDot | NumDot0 | NumE | NumESign | NumE0
  | InLiteral string

definition json_pop :: "json_ctx list \<Rightarrow> (json_state \<times> json_ctx list) option" where
  "json_pop stk = Some (if tl stk = [] then EndTop else EndValue, tl stk)"

definition json_push :: "json_ctx \<Rightarrow> json_state \<Rightarrow> json_ctx list \<Rightarrow> (json_state \<times> json_ctx list) option" where
  "json_push p st stk = (if length stk < 10000 then Some (st, p # stk) else None)"

definition step_end_value :: "json_ctx list \<Rightarrow> char \<Rightarrow> (json_state \<times> json_ctx list) option" where
  "step_end_value stk c =
     (case stk of
        [] \<Rightarrow> if json_space c then Some (EndTop, []) else None
      | p # ps \<Rightarrow>
          if json_space c then Some (EndValue, stk)
          else (case p of
              InObjectKey \<Rightarrow> if c = CHR '':'' then Some (BeginValue, InObjectValue # ps) else None
            | InObjectValue \<Rightarrow> if c = CHR '','' then Some (BeginString, InObjectKey # ps)
                              else if c = CHR ''}'' then json_pop stk else None
            | InArray \<Rightarrow> if c = CHR '','' then Some (BeginValue, stk)
                         else if c = CHR '']'' then json_pop stk else None))"

definition step_begin_value :: "json_ctx list \<Rightarrow> char \<Rightarrow> (json_state \<times> json_ctx list) option" where
  "step_begin_value stk c =
     (if json_space c then Some (BeginValue, stk)
      else if c = CHR ''{'' then json_push InObjectKey BeginStringOrEmpty stk
      else if c = CHR ''['' then json_push InArray BeginValueOrEmpty stk
      else if c = CHR 0x22 then Some (InString, stk)
      else if c = CHR ''-'' then Some (NumNeg, stk)
      else if c = CHR ''0'' then Some (Num0, stk)
      else if c = CHR ''t'' then Some (InLiteral ''rue'', stk)
      else if c = CHR ''f'' then Some (InLiteral ''alse'', stk)
      else if c = CHR ''n'' then Some (InLiteral ''ull'', stk)
      else if json_digit c then Some (Num1, stk)
      else None)"

definition step_begin_string :: "json_ctx list \<Rightarrow> char \<Rightarrow> (json_state \<times> json_ctx list) option" where
  "step_begin_string stk c =
     (if json_space c then Some (BeginString, stk)
      else if c = CHR 0x22 then Some (InString, stk) else None)"

definition step_num0 :: "json_ctx list \<Rightarrow> char \<Rightarrow> (json_state \<times> json_ctx list) option" where
  "step_num0 stk c =
     (if c = CHR ''.'' then Some (NumDot, stk)
      else if c = CHR ''e'' \<or> c = CHR ''E'' then Some (NumE, stk)
      else step_end_value stk c)"

fun json_step :: "json_state \<times> json_ctx list \<Rightarrow> char \<Rightarrow> (json_state \<times> json_ctx list) option" where
  "json_step (BeginValueOrEmpty, stk) c =
     (if json_space c then Some (BeginValueOrEmpty, stk)
      else if c = CHR '']'' then step_end_value stk c else step_begin_value stk c)"
| "json_step (BeginValue, stk) c = step_begin_value stk c"
| "json_step (BeginStringOrEmpty, stk) c =
     (if json_space c then Some (BeginStringOrEmpty, stk)
      else if c = CHR ''}'' then step_end_value (InObjectValue # tl stk) c
      else step_begin_string stk c)"
| "json_step (BeginString, stk) c = step_begin_string stk c"
| "json_step (EndValue, stk) c = step_end_value stk c"
| "json_step (EndTop, stk) c = (if json_space c then Some (EndTop, stk) else None)"
| "json_step (InString, stk) c =
     (if c = CHR 0x22 then Some (EndValue, stk)
      else if c = CHR 0x5C then Some (InStringEsc, stk)
      else if code c < 32 then None else Some (InString, stk))"
| "json_step (InStringEsc, stk) c =
     (if c \<in> {CHR ''b'', CHR ''f'', CHR ''n'', CHR ''r'', CHR ''t'', CHR 0x5C, CHR ''/'', CHR 0x22}
      then Some (InString, stk)
      else if c = CHR ''u'' then Some (InStringEscU 3, stk) else None)"
| "json_step (InStringEscU n, stk) c =
     (if \<not> json_hex c then None
      else case n of 0 \<Rightarrow> Some (InString, stk) | Suc m \<Rightarrow> Some (InStringEscU m, stk))"
| "json_step (NumNeg, stk) c =
     (if c = CHR ''0'' then Some (Num0, stk) else if json_digit c then Some (Num1, stk) else None)"
| "json_step (Num1, stk) c = (if json_digit c then Some (Num1, stk) else step_num0 stk c)"
| "json_step (Num0, stk) c = step_num0 stk c"
| "json_step (NumDot, stk) c = (if json_digit c then Some (NumDot0, stk) else None)"
| "json_step (NumDot0, stk) c =
     (if json_digit c then Some (NumDot0, stk)
      else if c = CHR ''e'' \<or> c = CHR ''E'' then Some (NumE, stk)
      else step_end_value stk c)"
| "json_step (NumE, stk) c =
     (if c = CHR ''+'' \<or> c = CHR ''-'' then Some (NumESign, stk)
      else if json_digit c then Some (NumE0, stk) else None)"
| "json_step (NumESign, stk) c = (if json_digit c then Some (NumE0, stk) else None)"
| "json_step (NumE0, stk) c = (if json_digit c then Some (NumE0, stk) else step_end_value stk c)"
| "json_step (InLiteral [], stk) c = None"
| "json_step (InLiteral (x # xs), stk) c =
     (if c \<noteq> x then None
      else if xs = [] then Some (EndValue, stk) else Some (InLiteral xs, stk))"

fun json_scan :: "json_state \<times> json_ctx list \<Rightarrow> string \<Rightarrow> (json_state \<times> json_ctx list) option" where
  "json_scan st [] = Some st"
| "json_scan st (c # cs) = (case json_step st c of None \<Rightarrow> None | Some st' \<Rightarrow> json_scan st' cs)"

text \<open>At the end of the input the library feeds one space and asks for the top-level end state.\<close>

definition json_valid :: "string \<Rightarrow> bool" where
  "json_valid s \<longleftrightarrow>
     (case json_scan (BeginValue, []) s of
        None \<Rightarrow> False
      | Some (st, stk) \<Rightarrow> st = EndTop \<or>
          (case json_step (st, stk) (CHR '' '') of None \<Rightarrow> False | Some (st', _) \<Rightarrow> st' = EndTop))"

section \<open>UTF-8\<close>

definition continuation :: "char \<Rightarrow> bool" where
  "continuation c \<longleftrightarrow> 128 \<le> code c \<and> code c \<le> 191"

text \<open>The length of the encoding of a code point at the head of a string, 0 if there is none.\<close>

definition utf8_len :: "string \<Rightarrow> nat" where
  "utf8_len s =
     (case s of
        [] \<Rightarrow> 0
      | a # r \<Rightarrow>
          if code a < 128 then 1
          else if 194 \<le> code a \<and> code a \<le> 223 then
            (case r of b # _ \<Rightarrow> if continuation b then 2 else 0 | [] \<Rightarrow> 0)
          else if 224 \<le> code a \<and> code a \<le> 239 then
            (case r of b # c # _ \<Rightarrow>
               if continuation b \<and> continuation c
                  \<and> (code a = 224 \<longrightarrow> 160 \<le> code b) \<and> (code a = 237 \<longrightarrow> code b \<le> 159) then 3 else 0
             | _ \<Rightarrow> 0)
          else if 240 \<le> code a \<and> code a \<le> 244 then
            (case r of b # c # d # _ \<Rightarrow>
               if continuation b \<and> continuation c \<and> continuation d
                  \<and> (code a = 240 \<longrightarrow> 144 \<le> code b) \<and> (code a = 244 \<longrightarrow> code b \<le> 143) then 4 else 0
             | _ \<Rightarrow> 0)
          else 0)"

definition utf8_encode :: "nat \<Rightarrow> string" where
  "utf8_encode r =
     map byte
       (if r < 128 then [r]
        else if r < 2048 then [192 + r div 64, 128 + r mod 64]
        else if r < 65536 then [224 + r div 4096, 128 + (r div 64) mod 64, 128 + r mod 64]
        else [240 + r div 262144, 128 + (r div 4096) mod 64, 128 + (r div 64) mod 64, 128 + r mod 64])"

fun utf8_valid_fuel :: "nat \<Rightarrow> string \<Rightarrow> bool" where
  "utf8_valid_fuel n [] = True"
| "utf8_valid_fuel 0 (c # cs) = False"
| "utf8_valid_fuel (Suc n) (c # cs) =
     (0 < utf8_len (c # cs) \<and> utf8_valid_fuel n (drop (utf8_len (c # cs)) (c # cs)))"

definition utf8_valid :: "string \<Rightarrow> bool" where
  "utf8_valid s = utf8_valid_fuel (length s) s"

lemma utf8_valid_fuel_enough:
  "length s \<le> n \<Longrightarrow> length s \<le> m \<Longrightarrow> utf8_valid_fuel n s = utf8_valid_fuel m s"
proof (induction n s arbitrary: m rule: utf8_valid_fuel.induct)
  case (3 n c cs)
  obtain m' where m: "m = Suc m'" using "3.prems" by (cases m) auto
  show ?case
  proof (cases "0 < utf8_len (c # cs)")
    case True
    then have "length (drop (utf8_len (c # cs)) (c # cs)) \<le> length cs" by simp
    with "3.prems" m True "3.IH" [of m'] show ?thesis by simp
  qed (simp add: m)
qed auto

lemma utf8_valid_Nil [simp]: "utf8_valid []"
  by (simp add: utf8_valid_def)

lemma utf8_valid_step:
  "s \<noteq> [] \<Longrightarrow> utf8_valid s \<longleftrightarrow> 0 < utf8_len s \<and> utf8_valid (drop (utf8_len s) s)"
proof (cases s)
  case (Cons c cs)
  have "utf8_valid_fuel (length cs) (drop (utf8_len s) s) = utf8_valid (drop (utf8_len s) s)"
    if "0 < utf8_len s"
    using that Cons unfolding utf8_valid_def by (intro utf8_valid_fuel_enough) auto
  then show ?thesis using Cons by (auto simp: utf8_valid_def)
qed simp

lemma utf8_len_le: "utf8_len s \<le> 4" "utf8_len s \<le> length s"
  by (auto simp: utf8_len_def split: list.splits)

text \<open>The encoding at the head is decided by the bytes of that encoding alone.\<close>

lemma utf8_len_take: "utf8_len s \<le> n \<Longrightarrow> 0 < utf8_len s \<Longrightarrow> utf8_len (take n s) = utf8_len s"
  by (cases n; cases "n - 1"; cases "n - 2"; cases "n - 3")
     (auto simp: utf8_len_def split: list.splits if_splits)

text \<open>A valid string can be cut to a valid one by giving up at most three more bytes.\<close>

lemma utf8_cut_point:
  "utf8_valid s \<Longrightarrow> n \<le> length s \<Longrightarrow> \<exists>m \<le> n. n \<le> m + 3 \<and> utf8_valid (take m s)"
proof (induction s arbitrary: n rule: length_induct)
  case (1 s)
  show ?case
  proof (cases "s = [] \<or> n < utf8_len s")
    case True
    with 1 utf8_len_le [of s] show ?thesis by (auto intro!: exI [of _ 0])
  next
    case False
    let ?k = "utf8_len s" and ?r = "drop (utf8_len s) s"
    have k: "0 < ?k" "utf8_valid ?r" using 1 False utf8_valid_step by auto
    have "length ?r < length s" using k False by simp
    then obtain m where m: "m \<le> n - ?k" "n - ?k \<le> m + 3" "utf8_valid (take m ?r)"
      using 1 k by (metis diff_le_mono length_drop)
    have "utf8_len (take (?k + m) s) = ?k" using k by (simp add: utf8_len_take)
    then have "utf8_valid (take (?k + m) s)"
      using utf8_valid_step [of "take (?k + m) s"] m k False by (simp add: drop_take)
    with m False show ?thesis by (intro exI [of _ "?k + m"]) auto
  qed
qed

section \<open>Objects of raw values\<close>

definition hex_value :: "char \<Rightarrow> nat" where
  "hex_value c = (if json_digit c then code c - 48 else if 97 \<le> code c then code c - 87 else code c - 55)"

definition hex4 :: "string \<Rightarrow> nat" where
  "hex4 cs = foldl (\<lambda>a c. a * 16 + hex_value c) 0 (take 4 cs)"

definition replacement_char :: string where
  "replacement_char = map byte [239, 191, 189]"

text \<open>
  The contents of a string literal (without its quotes), with the escapes resolved; surrogate
  pairs are joined, lone surrogates and invalid UTF-8 become U+FFFD. The fuel is the length.
\<close>

fun json_unquote_fuel :: "nat \<Rightarrow> string \<Rightarrow> string" where
  "json_unquote_fuel 0 s = []"
| "json_unquote_fuel (Suc n) [] = []"
| "json_unquote_fuel (Suc n) (c # cs) =
     (if c = CHR 0x5C then
        (case cs of
           [] \<Rightarrow> []
         | e # es \<Rightarrow>
             if e = CHR ''u'' then
               (let r = hex4 es; rest = drop 4 es in
                if 55296 \<le> r \<and> r < 57344 then
                  (let r2 = (if take 2 rest = [CHR 0x5C, CHR ''u''] then hex4 (drop 2 rest) else 0) in
                   if r < 56320 \<and> 56320 \<le> r2 \<and> r2 < 57344
                   then utf8_encode ((r - 55296) * 1024 + (r2 - 56320) + 65536)
                        @ json_unquote_fuel n (drop 6 rest)
                   else replacement_char @ json_unquote_fuel n rest)
                else utf8_encode r @ json_unquote_fuel n rest)
             else (if e = CHR ''b'' then byte 8 else if e = CHR ''f'' then byte 12
                   else if e = CHR ''n'' then byte 10 else if e = CHR ''r'' then byte 13
                   else if e = CHR ''t'' then byte 9 else e) # json_unquote_fuel n es)
      else
        (let k = utf8_len (c # cs) in
         if k = 0 then replacement_char @ json_unquote_fuel n cs
         else take k (c # cs) @ json_unquote_fuel n (drop k (c # cs))))"

definition json_unquote :: "string \<Rightarrow> string" where
  "json_unquote s = json_unquote_fuel (length s) s"

text \<open>
  The text of a value and what follows it. The scan carries the nesting depth and whether it is
  inside a string and after a backslash.
\<close>

datatype span_act = StopBefore | StopAfter | GoOn nat bool bool

definition span_act :: "nat \<Rightarrow> bool \<Rightarrow> bool \<Rightarrow> char \<Rightarrow> span_act" where
  "span_act d q e c =
     (if q then
        (if e then GoOn d True False
         else if c = CHR 0x5C then GoOn d True True
         else if c = CHR 0x22 then (if d = 0 then StopAfter else GoOn d False False)
         else GoOn d True False)
      else if c = CHR 0x22 then GoOn d True False
      else if c = CHR ''{'' \<or> c = CHR ''['' then GoOn (Suc d) False False
      else if c = CHR ''}'' \<or> c = CHR '']'' then
        (if d = 0 then StopBefore else if d = 1 then StopAfter else GoOn (d - 1) False False)
      else if d = 0 \<and> (json_space c \<or> c = CHR '','') then StopBefore
      else GoOn d False False)"

fun span_value :: "nat \<Rightarrow> bool \<Rightarrow> bool \<Rightarrow> string \<Rightarrow> string \<times> string" where
  "span_value d q e [] = ([], [])"
| "span_value d q e (c # cs) =
     (case span_act d q e c of
        StopBefore \<Rightarrow> ([], c # cs)
      | StopAfter \<Rightarrow> ([c], cs)
      | GoOn d q e \<Rightarrow> (case span_value d q e cs of (v, r) \<Rightarrow> (c # v, r)))"

lemma span_value_append: "fst (span_value d q e s) @ snd (span_value d q e s) = s"
  by (induction s arbitrary: d q e) (auto split: span_act.splits prod.splits, metis fst_conv snd_conv)

lemma span_value_rest: "length (snd (span_value d q e s)) \<le> length s"
  by (metis span_value_append le_add2 length_append)

definition skip_space :: "string \<Rightarrow> string" where
  "skip_space s = dropWhile json_space s"

lemma skip_space_shorter: "length (skip_space s) \<le> length s"
  by (simp add: skip_space_def length_dropWhile_le)

text \<open>The next member of a valid object and what follows its value.\<close>

definition next_member :: "string \<Rightarrow> ((string \<times> string) \<times> string) option" where
  "next_member s =
     (case skip_space s of
        [] \<Rightarrow> None
      | q # r \<Rightarrow>
          if q \<noteq> CHR 0x22 then None
          else let (k, r1) = span_value 0 True False r;
                   (v, r2) = span_value 0 False False (skip_space (drop 1 (skip_space r1)))
               in Some ((json_unquote (butlast k), v), skip_space r2))"

lemma next_member_shorter: "next_member s = Some (m, t) \<Longrightarrow> length t < length s"
proof -
  assume "next_member s = Some (m, t)"
  then obtain q r where r: "skip_space s = q # r"
    and t: "t = skip_space (snd (span_value 0 False False
        (skip_space (drop 1 (skip_space (snd (span_value 0 True False r)))))))"
    by (auto simp: next_member_def Let_def split: list.splits if_splits prod.splits)
  let ?r1 = "snd (span_value 0 True False r)"
  let ?v = "skip_space (drop 1 (skip_space ?r1))"
  have "length t \<le> length ?v"
    unfolding t using skip_space_shorter span_value_rest le_trans by blast
  also have "length ?v \<le> length ?r1"
    using skip_space_shorter [of "drop 1 (skip_space ?r1)"] skip_space_shorter [of ?r1] by simp
  also have "\<dots> \<le> length r" by (rule span_value_rest)
  also have "\<dots> < length s" using r skip_space_shorter [of s] by simp
  finally show ?thesis .
qed

text \<open>The members of a valid object, in order, after its opening brace or a comma.\<close>

function object_members :: "string \<Rightarrow> (string \<times> string) list" where
  "object_members s =
     (case next_member s of
        None \<Rightarrow> []
      | Some (m, t) \<Rightarrow>
          m # (case t of [] \<Rightarrow> [] | d # r \<Rightarrow> if d = CHR '','' then object_members r else []))"
  by pat_completeness auto
termination
  by (relation "measure length") (auto dest!: next_member_shorter)

declare object_members.simps [simp del]

text \<open>
  Decoding into a map of raw messages: an error is \<open>None\<close>; \<open>null\<close> gives the nil map. A later
  member replaces an earlier one with the same key.
\<close>

definition json_unmarshal_object :: "string \<Rightarrow> (string \<times> string) list option" where
  "json_unmarshal_object s =
     (if \<not> json_valid s then None
      else case skip_space s of
        [] \<Rightarrow> None
      | c # r \<Rightarrow>
          if c = CHR ''{'' then
            Some (fold (\<lambda>(k, v) m. filter (\<lambda>p. fst p \<noteq> k) m @ [(k, v)]) (object_members r) [])
          else if c = CHR ''n'' then Some []
          else None)"

definition hex_digit :: "nat \<Rightarrow> char" where
  "hex_digit n = (if n < 10 then byte (48 + n) else byte (87 + n))"

definition escape_u00 :: "char \<Rightarrow> string" where
  "escape_u00 c = [CHR 0x5C, CHR ''u'', CHR ''0'', CHR ''0'', hex_digit (code c div 16), hex_digit (code c mod 16)]"

definition html_unsafe :: "char \<Rightarrow> bool" where
  "html_unsafe c \<longleftrightarrow> c = CHR ''<'' \<or> c = CHR ''>'' \<or> c = CHR ''&''"

definition line_separator :: "string \<Rightarrow> bool" where
  "line_separator s \<longleftrightarrow> take 2 s = map byte [226, 128] \<and> (case drop 2 s of
      c # _ \<Rightarrow> code c = 168 \<or> code c = 169 | [] \<Rightarrow> False)"

fun json_escape_fuel :: "nat \<Rightarrow> string \<Rightarrow> string" where
  "json_escape_fuel 0 s = []"
| "json_escape_fuel (Suc n) [] = []"
| "json_escape_fuel (Suc n) (c # cs) =
     (if code c < 128 then
        (if c = CHR 0x22 \<or> c = CHR 0x5C then [CHR 0x5C, c]
         else if code c = 8 then [CHR 0x5C, CHR ''b''] else if code c = 12 then [CHR 0x5C, CHR ''f'']
         else if code c = 10 then [CHR 0x5C, CHR ''n''] else if code c = 13 then [CHR 0x5C, CHR ''r'']
         else if code c = 9 then [CHR 0x5C, CHR ''t'']
         else if code c < 32 \<or> html_unsafe c then escape_u00 c
         else [c]) @ json_escape_fuel n cs
      else
        (let k = utf8_len (c # cs) in
         if k = 0 then [CHR 0x5C] @ ''ufffd'' @ json_escape_fuel n cs
         else if line_separator (c # cs)
         then [CHR 0x5C] @ ''u202'' @ [hex_digit (code ((c # cs) ! 2) mod 16)]
              @ json_escape_fuel n (drop 3 (c # cs))
         else take k (c # cs) @ json_escape_fuel n (drop k (c # cs))))"

definition json_quote :: "string \<Rightarrow> string" where
  "json_quote s = [CHR 0x22] @ json_escape_fuel (length s) s @ [CHR 0x22]"

text \<open>Compaction of a raw value: white space outside strings goes, HTML characters are escaped.\<close>

fun json_compact :: "bool \<Rightarrow> bool \<Rightarrow> string \<Rightarrow> string" where
  "json_compact q e [] = []"
| "json_compact q e (c # cs) =
     (if \<not> q \<and> json_space c then json_compact False False cs
      else if html_unsafe c then escape_u00 c @ json_compact q False cs
      else if line_separator (c # cs)
      then [CHR 0x5C] @ ''u202'' @ [hex_digit (code ((c # cs) ! 2) mod 16)]
           @ json_compact q False (drop 2 cs)
      else c # json_compact (if c = CHR 0x22 \<and> \<not> e then \<not> q else q)
                            (q \<and> \<not> e \<and> c = CHR 0x5C) cs)"

fun bytes_less :: "string \<Rightarrow> string \<Rightarrow> bool" where
  "bytes_less [] ys = (ys \<noteq> [])"
| "bytes_less (x # xs) [] = False"
| "bytes_less (x # xs) (y # ys) = (code x < code y \<or> code x = code y \<and> bytes_less xs ys)"

fun insert_member :: "string \<times> string \<Rightarrow> (string \<times> string) list \<Rightarrow> (string \<times> string) list" where
  "insert_member p [] = [p]"
| "insert_member p (q # qs) = (if bytes_less (fst q) (fst p) then q # insert_member p qs else p # q # qs)"

fun join_with :: "string \<Rightarrow> string list \<Rightarrow> string" where
  "join_with sep [] = []"
| "join_with sep [x] = x"
| "join_with sep (x # y # zs) = x @ sep @ join_with sep (y # zs)"

definition json_marshal_object :: "(string \<times> string) list \<Rightarrow> string" where
  "json_marshal_object m =
     ''{'' @ join_with '',''
       (map (\<lambda>(k, v). json_quote k @ '':'' @ json_compact False False v) (foldr insert_member m []))
     @ ''}''"

section \<open>How a JSON text can end\<close>

text \<open>A closing parenthesis leaves the scanner inside a string or stops it.\<close>

definition plain_literal :: "json_state \<Rightarrow> bool" where
  "plain_literal st \<longleftrightarrow> (case st of InLiteral l \<Rightarrow> CHR '')'' \<notin> set l | _ \<Rightarrow> True)"

lemmas json_step_defs = step_end_value_def step_begin_value_def step_begin_string_def step_num0_def
  json_pop_def json_push_def

lemma json_step_plain:
  "plain_literal st \<Longrightarrow> json_step (st, stk) c = Some (st', stk') \<Longrightarrow> plain_literal st'"
  by (induction "(st, stk)" c rule: json_step.induct)
     (auto simp: plain_literal_def json_step_defs split: if_splits list.splits json_ctx.splits nat.splits)

lemma json_scan_plain:
  "plain_literal st \<Longrightarrow> json_scan (st, stk) s = Some (st', stk') \<Longrightarrow> plain_literal st'"
proof (induction s arbitrary: st stk)
  case (Cons c s)
  then obtain st1 stk1 where "json_step (st, stk) c = Some (st1, stk1)" "json_scan (st1, stk1) s = Some (st', stk')"
    by (auto split: option.splits)
  with Cons json_step_plain show ?case by blast
qed simp

lemma json_step_paren:
  "plain_literal st \<Longrightarrow> json_step (st, stk) (CHR '')'') = Some (st', stk') \<Longrightarrow> st' = InString"
  by (induction "(st, stk)" "CHR '')''" rule: json_step.induct)
     (auto simp: plain_literal_def json_step_defs json_space_def json_digit_def json_hex_def
       split: if_splits list.splits json_ctx.splits nat.splits)

lemma json_scan_append:
  "json_scan st (xs @ ys) = (case json_scan st xs of None \<Rightarrow> None | Some st' \<Rightarrow> json_scan st' ys)"
  by (induction xs arbitrary: st) (auto split: option.splits)

lemma json_valid_not_paren: "\<not> json_valid (s @ [CHR '')''])"
proof
  assume v: "json_valid (s @ [CHR '')''])"
  obtain st stk where 1: "json_scan (BeginValue, []) s = Some (st, stk)"
    using v by (auto simp: json_valid_def json_scan_append split: option.splits)
  then have "plain_literal st" using json_scan_plain [of BeginValue] by (simp add: plain_literal_def)
  with v 1 json_step_paren [of st stk] show False
    by (auto simp: json_valid_def json_scan_append split: option.splits)
qed

end
