(* ===== verification/Failover.thy ===== *)
theory Failover
  imports Prelude
begin

text \<open>
  The account failover loop of the gateway handlers (backend/internal/handler/failover_loop.go):
  what a request does after an upstream error, after an empty account selection and after a veto
  of the group's profit control, and the loop of handler/gateway_handler_responses.go that is
  driven by it. The context, the clock and the timers are arguments: whether the request's
  context is done, what \<open>time.Now\<close> returns, and whether a timer fires before the context is
  done. Logging is left out.
\<close>

section \<open>Data\<close>

datatype failover_action = FailoverContinue | FailoverExhausted | FailoverCanceled

datatype failure_stage = StageUnset | StageInference | StageAccountAuth | StageOther string
datatype failure_scope = ScopeUnset | ScopeAccount | ScopeProvider | ScopeRequest | ScopeOther string
datatype next_account_action = NextAccountLegacyRetry | NextAccountRetry | NextAccountStop

record failover_error =
  fe_status_code :: int
  fe_response_body :: string
  fe_response_headers :: "(string \<times> string list) list"
  fe_force_cache_billing :: bool
  fe_retryable_on_same_account :: bool
  fe_same_account_retry_delay :: duration
  fe_same_account_retry_deadline :: instant
  fe_same_account_retry_max :: int
  fe_request_scoped_transient :: bool
  fe_safe_to_failover_after_write :: bool
  fe_stage :: failure_stage
  fe_scope :: failure_scope
  fe_reason :: string
  fe_next_account_action :: next_account_action
  fe_client_status_code :: int
  fe_client_message :: string

text \<open>A pointer to an error is an option; \<open>None\<close> is nil.\<close>

definition should_retry_next_account :: "failover_error option \<Rightarrow> bool" where
  "should_retry_next_account e \<longleftrightarrow>
     (case e of None \<Rightarrow> False | Some x \<Rightarrow> fe_next_account_action x \<noteq> NextAccountStop)"

definition is_credential_failure :: "failover_error option \<Rightarrow> bool" where
  "is_credential_failure e \<longleftrightarrow>
     (case e of None \<Rightarrow> False | Some x \<Rightarrow> fe_stage x = StageAccountAuth)"

definition should_report_account_schedule_failure :: "failover_error option \<Rightarrow> bool" where
  "should_report_account_schedule_failure e \<longleftrightarrow>
     (case e of None \<Rightarrow> False
      | Some x \<Rightarrow> \<not> is_credential_failure e \<or> fe_scope x = ScopeAccount)"

definition same_account_retry_delay :: duration where
  [unit_defs]: "same_account_retry_delay = 500 * millisecond"
definition max_request_scoped_retry_delay :: duration where
  [unit_defs]: "max_request_scoped_retry_delay = 8 * second"
definition single_account_backoff_delay :: duration where
  [unit_defs]: "single_account_backoff_delay = 2 * second"
definition max_profit_veto_attempts :: int where
  [unit_defs]: "max_profit_veto_attempts = 10"

text \<open>
  The maps with empty values are sets; the retry counters are a map whose missing keys read as 0.
\<close>

record failover_state =
  fs_switch_count :: int
  fs_max_switches :: int
  fs_failed_account_ids :: "account_id set"
  fs_same_account_retry_count :: "account_id \<rightharpoonup> int"
  fs_last_failover_err :: "failover_error option"
  fs_force_cache_billing :: bool
  fs_has_bound_session :: bool
  fs_profit_vetoed_account_ids :: "account_id set"
  fs_profit_veto_count :: int

definition new_failover_state :: "int \<Rightarrow> bool \<Rightarrow> failover_state" where
  "new_failover_state max_switches has_bound_session =
     \<lparr>fs_switch_count = 0, fs_max_switches = max_switches, fs_failed_account_ids = {},
      fs_same_account_retry_count = Map.empty, fs_last_failover_err = None,
      fs_force_cache_billing = False, fs_has_bound_session = has_bound_session,
      fs_profit_vetoed_account_ids = {}, fs_profit_veto_count = 0\<rparr>"

abbreviation retry_count :: "failover_state \<Rightarrow> account_id \<Rightarrow> int" where
  "retry_count s a \<equiv> (case fs_same_account_retry_count s a of None \<Rightarrow> 0 | Some n \<Rightarrow> n)"

section \<open>Retry policy\<close>

fun backoff_loop :: "nat \<Rightarrow> duration \<Rightarrow> duration" where
  "backoff_loop 0 delay = delay"
| "backoff_loop (Suc n) delay =
     (if max_request_scoped_retry_delay div 2 \<le> delay then max_request_scoped_retry_delay
      else backoff_loop n (delay * 2))"

definition same_account_retry_delay_for :: "failover_error option \<Rightarrow> int \<Rightarrow> duration" where
  "same_account_retry_delay_for fe n =
     (case fe of None \<Rightarrow> same_account_retry_delay
      | Some e \<Rightarrow>
          if fe_same_account_retry_delay e > 0 then fe_same_account_retry_delay e
          else if \<not> fe_request_scoped_transient e \<or> n \<le> 1 then same_account_retry_delay
          else backoff_loop (nat (n - 1)) same_account_retry_delay)"

definition same_account_retry_deadline_allows :: "instant \<Rightarrow> failover_error option \<Rightarrow> bool" where
  "same_account_retry_deadline_allows now fe \<longleftrightarrow>
     (case fe of None \<Rightarrow> True
      | Some e \<Rightarrow> is_zero_time (fe_same_account_retry_deadline e)
                 \<or> now < fe_same_account_retry_deadline e)"

definition same_account_retry_allowed ::
    "instant \<Rightarrow> failover_error option \<Rightarrow> int \<Rightarrow> int \<Rightarrow> bool" where
  "same_account_retry_allowed now fe n retry_limit =
     (case fe of None \<Rightarrow> False
      | Some e \<Rightarrow>
          if \<not> fe_retryable_on_same_account e then False
          else if \<not> same_account_retry_deadline_allows now fe then False
          else if fe_same_account_retry_max e > 0 then
            (if retry_limit \<le> 0 then False
             else n < (if fe_same_account_retry_max e < retry_limit
                       then fe_same_account_retry_max e else retry_limit))
          else if \<not> is_zero_time (fe_same_account_retry_deadline e) then True
          else retry_limit > 0 \<and> n < retry_limit)"

text \<open>\<open>pool_retry_count\<close> is \<open>None\<close> for a nil account, else its pool mode retry count.\<close>

definition effective_same_account_retry_limit :: "failover_error option \<Rightarrow> int option \<Rightarrow> int" where
  "effective_same_account_retry_limit fe pool_retry_count =
     (case pool_retry_count of None \<Rightarrow> 0
      | Some limit \<Rightarrow>
          (case fe of
             Some e \<Rightarrow> if limit > 0 \<and> fe_same_account_retry_max e > 0
                          \<and> fe_same_account_retry_max e < limit
                       then fe_same_account_retry_max e else limit
           | None \<Rightarrow> limit))"

definition need_force_cache_billing :: "bool \<Rightarrow> failover_error option \<Rightarrow> bool \<Rightarrow> bool" where
  "need_force_cache_billing has_bound_session fe same_account_retry \<longleftrightarrow>
     (has_bound_session \<and> \<not> same_account_retry)
     \<or> (case fe of None \<Rightarrow> False | Some e \<Rightarrow> fe_force_cache_billing e)"

text \<open>\<open>timer d\<close>: the timer of duration \<open>d\<close> fires before the context is done.\<close>

definition sleep_with_context :: "(duration \<Rightarrow> bool) \<Rightarrow> duration \<Rightarrow> bool" where
  "sleep_with_context timer d = (if d \<le> 0 then True else timer d)"

section \<open>Operations on the failover state\<close>

definition record_profit_veto ::
    "failover_state \<Rightarrow> account_id \<Rightarrow> failover_state \<times> failover_action" where
  "record_profit_veto s a =
     (let s1 = s\<lparr>fs_failed_account_ids := insert a (fs_failed_account_ids s),
                 fs_profit_vetoed_account_ids := insert a (fs_profit_vetoed_account_ids s),
                 fs_profit_veto_count := fs_profit_veto_count s + 1\<rparr>
      in (s1, if fs_profit_veto_count s1 \<ge> max_profit_veto_attempts
              then FailoverExhausted else FailoverContinue))"

definition all_exclusions_are_profit_vetoed :: "failover_state \<Rightarrow> bool" where
  "all_exclusions_are_profit_vetoed s \<longleftrightarrow>
     (if fs_profit_vetoed_account_ids s = {} \<or> fs_failed_account_ids s = {} then False
      else \<forall>a \<in> fs_failed_account_ids s. a \<in> fs_profit_vetoed_account_ids s)"

text \<open>
  The only call of the handler to another component is \<open>TempUnscheduleRetryableError\<close>; the
  third component of the result is the account it is made for, if it is made.
\<close>

definition handle_failover_error ::
    "bool \<Rightarrow> instant \<Rightarrow> (duration \<Rightarrow> bool) \<Rightarrow> failover_state \<Rightarrow> account_id \<Rightarrow> bool \<Rightarrow> int
      \<Rightarrow> failover_error option \<Rightarrow> failover_state \<times> failover_action \<times> account_id option" where
  "handle_failover_error ctx_done now timer s a is_antigravity retry_limit fe =
     (if ctx_done then (s, FailoverCanceled, None)
      else
        let s = s\<lparr>fs_last_failover_err := fe\<rparr> in
        if \<not> should_retry_next_account fe then (s, FailoverExhausted, None)
        else
          let n = retry_count s a;
              same = same_account_retry_allowed now fe n retry_limit;
              s = (if need_force_cache_billing (fs_has_bound_session s) fe same
                   then s\<lparr>fs_force_cache_billing := True\<rparr> else s)
          in if same then
               let s = s\<lparr>fs_same_account_retry_count := (fs_same_account_retry_count s)(a \<mapsto> n + 1)\<rparr>
               in if \<not> sleep_with_context timer (same_account_retry_delay_for fe (retry_count s a))
                  then (s, FailoverCanceled, None) else (s, FailoverContinue, None)
             else
               let banned = (if (case fe of None \<Rightarrow> False | Some e \<Rightarrow> fe_retryable_on_same_account e)
                             then Some a else None);
                   s = s\<lparr>fs_failed_account_ids := insert a (fs_failed_account_ids s)\<rparr>
               in if fs_switch_count s \<ge> fs_max_switches s then (s, FailoverExhausted, banned)
                  else
                    let s = s\<lparr>fs_switch_count := fs_switch_count s + 1\<rparr>
                    in if is_antigravity
                          \<and> \<not> sleep_with_context timer ((fs_switch_count s - 1) * second)
                       then (s, FailoverCanceled, banned)
                       else (s, FailoverContinue, banned))"

definition handle_selection_exhausted ::
    "bool \<Rightarrow> (duration \<Rightarrow> bool) \<Rightarrow> failover_state \<Rightarrow> failover_state \<times> failover_action" where
  "handle_selection_exhausted ctx_done timer s =
     (if ctx_done then (s, FailoverCanceled)
      else if (case fs_last_failover_err s of None \<Rightarrow> False | Some e \<Rightarrow> fe_status_code e = 503)
              \<and> fs_switch_count s \<le> fs_max_switches s then
        (if all_exclusions_are_profit_vetoed s then (s, FailoverExhausted)
         else if \<not> sleep_with_context timer single_account_backoff_delay then (s, FailoverCanceled)
         else (s\<lparr>fs_failed_account_ids := fs_profit_vetoed_account_ids s\<rparr>, FailoverContinue))
      else (s, FailoverExhausted))"

text \<open>
  \<open>failoverClientGone\<close>: the result and the status it marks on the response, if any. The
  arguments are: a nil gin context or request, a request context that is not done, a compact
  keepalive that has committed the response, and a response that is already written.
\<close>

definition failover_client_gone ::
    "bool \<Rightarrow> bool \<Rightarrow> bool \<Rightarrow> bool \<Rightarrow> bool \<times> int option" where
  "failover_client_gone no_request ctx_done keepalive_committed written =
     (if no_request \<or> \<not> ctx_done then (False, None)
      else if keepalive_committed then (True, None)
      else (True, if \<not> written then Some 499 else None))"

section \<open>One iteration of the handler's loop\<close>

text \<open>
  What the services answer in one iteration of the loop of \<open>Responses\<close> in
  gateway_handler_responses.go. A selection either fails, with the classification of the error
  (is the model unknown), or gives an account and its slot: acquired or not, with a release
  function or not, with a wait plan or not.
\<close>

record loop_account =
  la_id :: account_id
  la_is_antigravity :: bool
  la_pool_retry_count :: int

record loop_selection =
  sel_account :: loop_account
  sel_acquired :: bool
  sel_has_release :: bool
  sel_has_wait_plan :: bool

datatype forward_result =
    ForwardOk
  | ForwardFailover failover_error bool   \<comment> \<open>has the response writer grown\<close>
  | ForwardError bool                     \<comment> \<open>was the error already communicated\<close>

record loop_env =
  le_ctx_done_at_start :: bool
  le_selection :: "bool + loop_selection"
  le_ctx_done_after_selection :: bool
  le_slot_wait_fails :: bool
  le_waited_release :: bool
  le_vetoed :: bool
  le_latest :: loop_account
  le_profit_gate_active :: bool
  le_compat_service_missing :: bool
  le_forward :: forward_result
  le_ctx_done_after_forward :: bool
  le_now :: instant
  le_timer :: "duration \<Rightarrow> bool"

datatype loop_exit =
    ExitClientGone
  | ExitNoAccounts bool
  | ExitSelectionExhausted "failover_error option"
  | ExitNoWaitPlan
  | ExitSlotError
  | ExitProfitVeto
  | ExitCompatMissing
  | ExitStreamCommitted failover_error
  | ExitExhausted "failover_error option"
  | ExitForwardFailed bool
  | ExitDone

datatype loop_effect =
    SlotHeld account_id | SlotReleased account_id | Forwarded account_id
  | StickyBound account_id | TempUnscheduled account_id | UsageSubmitted account_id

abbreviation release_effect :: "bool \<Rightarrow> account_id \<Rightarrow> loop_effect list" where
  "release_effect present a \<equiv> (if present then [SlotReleased a] else [])"

text \<open>After the slot is held: the veto, the forward and what follows its result.\<close>

definition responses_forward ::
    "loop_env \<Rightarrow> failover_state \<Rightarrow> account_id \<Rightarrow> bool
      \<Rightarrow> failover_state \<times> loop_exit option \<times> loop_effect list" where
  "responses_forward e s a has_release =
     (if le_vetoed e then
        (case record_profit_veto s a of (s, act) \<Rightarrow>
           (s, if act = FailoverExhausted then Some ExitProfitVeto else None,
            release_effect has_release a))
      else
        let acct = le_latest e;
            bound = (if le_profit_gate_active e then [StickyBound (la_id acct)] else []);
            done_effects = bound @ [Forwarded (la_id acct)] @ release_effect has_release a
        in if le_compat_service_missing e then
             (s, Some ExitCompatMissing, bound @ release_effect has_release a)
           else
           (case le_forward e of
              ForwardOk \<Rightarrow> (s, Some ExitDone, done_effects @ [UsageSubmitted (la_id acct)])
            | ForwardError communicated \<Rightarrow> (s, Some (ExitForwardFailed communicated), done_effects)
            | ForwardFailover fe wrote \<Rightarrow>
                if wrote then (s, Some (ExitStreamCommitted fe), done_effects)
                else
                  (case handle_failover_error (le_ctx_done_after_forward e) (le_now e) (le_timer e)
                          s (la_id acct) (la_is_antigravity acct) (la_pool_retry_count acct) (Some fe)
                   of (s, act, banned) \<Rightarrow>
                     (s, (case act of
                            FailoverContinue \<Rightarrow> None
                          | FailoverExhausted \<Rightarrow> Some (ExitExhausted (fs_last_failover_err s))
                          | FailoverCanceled \<Rightarrow> Some ExitClientGone),
                      done_effects @ (case banned of None \<Rightarrow> [] | Some b \<Rightarrow> [TempUnscheduled b])))))"

definition responses_iteration ::
    "loop_env \<Rightarrow> failover_state \<Rightarrow> failover_state \<times> loop_exit option \<times> loop_effect list" where
  "responses_iteration e s =
     (if le_ctx_done_at_start e then (s, Some ExitClientGone, [])
      else case le_selection e of
        Inl model_not_found \<Rightarrow>
          (if fs_failed_account_ids s = {} then (s, Some (ExitNoAccounts model_not_found), [])
           else case handle_selection_exhausted (le_ctx_done_after_selection e) (le_timer e) s of
             (s, act) \<Rightarrow>
               (s, (case act of
                      FailoverContinue \<Rightarrow> None
                    | FailoverCanceled \<Rightarrow> Some ExitClientGone
                    | FailoverExhausted \<Rightarrow> Some (ExitSelectionExhausted (fs_last_failover_err s))), []))
      | Inr sel \<Rightarrow>
          let a = la_id (sel_account sel) in
          if sel_acquired sel then
            (case responses_forward e s a (sel_has_release sel) of (s, exit, effs) \<Rightarrow>
               (s, exit, (if sel_has_release sel then [SlotHeld a] else []) @ effs))
          else if \<not> sel_has_wait_plan sel then (s, Some ExitNoWaitPlan, [])
          else if le_slot_wait_fails e then (s, Some ExitSlotError, [])
          else
            (case responses_forward e s a (le_waited_release e) of (s, exit, effs) \<Rightarrow>
               (s, exit, (if le_waited_release e then [SlotHeld a] else []) @ effs)))"

definition responses_loop_step :: "failover_state \<Rightarrow> loop_env \<Rightarrow> failover_state option" where
  "responses_loop_step s e =
     (case responses_iteration e s of (t, None, _) \<Rightarrow> Some t | (_, Some _, _) \<Rightarrow> None)"

section \<open>Facts about the operations\<close>

lemmas failover_defs =
  handle_failover_error_def handle_selection_exhausted_def record_profit_veto_def
  responses_iteration_def responses_forward_def responses_loop_step_def

lemma backoff_loop_closed:
  "0 < d \<Longrightarrow> d \<le> max_request_scoped_retry_delay \<Longrightarrow>
     max_request_scoped_retry_delay = d * 2 ^ k \<Longrightarrow>
     backoff_loop n d = min max_request_scoped_retry_delay (d * 2 ^ n)"
proof (induction n arbitrary: d k)
  case 0
  then show ?case by simp
next
  case (Suc n)
  show ?case
  proof (cases "max_request_scoped_retry_delay div 2 \<le> d")
    case True
    then have "max_request_scoped_retry_delay \<le> d * 2"
      by (simp add: unit_defs)
    also have "\<dots> \<le> d * 2 ^ Suc n"
      using Suc.prems by simp
    finally show ?thesis using True by simp
  next
    case False
    then have "d * 2 \<le> max_request_scoped_retry_delay" by (simp add: unit_defs)
    moreover obtain j where "k = Suc j"
      using False Suc.prems by (cases k) auto
    ultimately show ?thesis
      using False Suc.prems Suc.IH [of "d * 2" j] by simp
  qed
qed

lemma same_account_retry_allowed_bound:
  "same_account_retry_allowed now (Some e) n limit \<Longrightarrow>
     is_zero_time (fe_same_account_retry_deadline e) \<or> 0 < fe_same_account_retry_max e \<Longrightarrow>
     n < limit"
  by (auto simp: same_account_retry_allowed_def split: if_splits)

text \<open>
  The branches of \<open>HandleFailoverError\<close>: the context is done; the error stops the request; a
  retry on the same account; the switches are used up; a switch to the next account.
\<close>

lemma handle_failover_error_cases:
  assumes "handle_failover_error cd now tm s a ag lim fe = (t, act, b)"
  obtains
    (canceled) "cd" "t = s" "act = FailoverCanceled" "b = None"
  | (stop) "\<not> cd" "t = s\<lparr>fs_last_failover_err := fe\<rparr>" "act = FailoverExhausted" "b = None"
      "\<not> should_retry_next_account fe"
  | (retry) fc where "\<not> cd" "should_retry_next_account fe"
      "same_account_retry_allowed now fe (retry_count s a) lim"
      "t = s\<lparr>fs_last_failover_err := fe, fs_force_cache_billing := fc,
           fs_same_account_retry_count := (fs_same_account_retry_count s)(a \<mapsto> retry_count s a + 1)\<rparr>"
      "fc \<longleftrightarrow> fs_force_cache_billing s \<or> need_force_cache_billing (fs_has_bound_session s) fe True"
      "act = (if sleep_with_context tm (same_account_retry_delay_for fe (retry_count s a + 1))
              then FailoverContinue else FailoverCanceled)" "b = None"
  | (exhausted) fc where "\<not> cd" "should_retry_next_account fe"
      "\<not> same_account_retry_allowed now fe (retry_count s a) lim"
      "fs_max_switches s \<le> fs_switch_count s"
      "t = s\<lparr>fs_last_failover_err := fe, fs_force_cache_billing := fc,
           fs_failed_account_ids := insert a (fs_failed_account_ids s)\<rparr>"
      "fc \<longleftrightarrow> fs_force_cache_billing s \<or> need_force_cache_billing (fs_has_bound_session s) fe False"
      "act = FailoverExhausted"
      "b = (if fe_retryable_on_same_account (the fe) then Some a else None)"
  | (switch) fc where "\<not> cd" "should_retry_next_account fe"
      "\<not> same_account_retry_allowed now fe (retry_count s a) lim"
      "fs_switch_count s < fs_max_switches s"
      "t = s\<lparr>fs_last_failover_err := fe, fs_force_cache_billing := fc,
           fs_failed_account_ids := insert a (fs_failed_account_ids s),
           fs_switch_count := fs_switch_count s + 1\<rparr>"
      "fc \<longleftrightarrow> fs_force_cache_billing s \<or> need_force_cache_billing (fs_has_bound_session s) fe False"
      "act = (if ag \<and> \<not> sleep_with_context tm (fs_switch_count s * second)
              then FailoverCanceled else FailoverContinue)"
      "b = (if fe_retryable_on_same_account (the fe) then Some a else None)"
proof -
  let ?same = "same_account_retry_allowed now fe (retry_count s a) lim"
  show ?thesis
  proof (cases "cd \<or> \<not> should_retry_next_account fe")
    case True
    with assms show ?thesis
      by (auto simp: handle_failover_error_def Let_def intro: canceled stop split: if_splits)
  next
    case False
    then obtain e where e: "fe = Some e" "\<not> cd" "should_retry_next_account fe"
      by (auto simp: should_retry_next_account_def split: option.splits)
    show ?thesis
    proof (cases ?same)
      case True
      show ?thesis
        by (rule retry [of "fs_force_cache_billing s \<or>
              need_force_cache_billing (fs_has_bound_session s) fe True"])
           (use True e assms in \<open>auto simp: handle_failover_error_def Let_def split: if_splits\<close>)
    next
      case no_retry: False
      let ?fc = "fs_force_cache_billing s \<or> need_force_cache_billing (fs_has_bound_session s) fe False"
      show ?thesis
      proof (cases "fs_max_switches s \<le> fs_switch_count s")
        case True
        show ?thesis
          by (rule exhausted [of ?fc])
             (use True no_retry e assms in
                \<open>auto simp: handle_failover_error_def Let_def split: if_splits\<close>)
      next
        case False
        show ?thesis
          by (rule switch [of ?fc])
             (use False no_retry e assms in
                \<open>auto simp: handle_failover_error_def Let_def split: if_splits\<close>)
      qed
    qed
  qed
qed

text \<open>What the operations keep between the counters and the sets.\<close>

definition failover_wf :: "failover_state \<Rightarrow> bool" where
  "failover_wf s \<longleftrightarrow>
     0 \<le> fs_switch_count s
     \<and> (fs_switch_count s \<le> fs_max_switches s \<or> fs_switch_count s = 0)
     \<and> fs_profit_vetoed_account_ids s \<subseteq> fs_failed_account_ids s
     \<and> finite (fs_failed_account_ids s)
     \<and> int (card (fs_profit_vetoed_account_ids s)) \<le> fs_profit_veto_count s"

lemma new_failover_state_wf: "failover_wf (new_failover_state m b)"
  by (simp add: failover_wf_def new_failover_state_def)

lemma failover_wf_update [simp]:
  "failover_wf (s\<lparr>fs_last_failover_err := x\<rparr>) = failover_wf s"
  "failover_wf (s\<lparr>fs_force_cache_billing := b\<rparr>) = failover_wf s"
  "failover_wf (s\<lparr>fs_same_account_retry_count := m\<rparr>) = failover_wf s"
  by (auto simp: failover_wf_def)

lemma record_profit_veto_wf:
  "record_profit_veto s a = (t, act) \<Longrightarrow> failover_wf s \<Longrightarrow> failover_wf t"
proof -
  assume t: "record_profit_veto s a = (t, act)" and wf: "failover_wf s"
  then have "finite (fs_profit_vetoed_account_ids s)"
    by (auto simp: failover_wf_def intro: finite_subset)
  then have "card (insert a (fs_profit_vetoed_account_ids s))
      \<le> Suc (card (fs_profit_vetoed_account_ids s))"
    by (simp add: card_insert_if)
  with wf t show ?thesis
    by (auto simp: failover_wf_def record_profit_veto_def Let_def)
qed

lemma handle_failover_error_wf:
  "handle_failover_error cd now tm s a ag lim fe = (t, act, b) \<Longrightarrow> failover_wf s \<Longrightarrow> failover_wf t"
  by (erule handle_failover_error_cases) (auto simp: failover_wf_def)

lemma handle_selection_exhausted_wf:
  "handle_selection_exhausted cd tm s = (t, act) \<Longrightarrow> failover_wf s \<Longrightarrow> failover_wf t"
  by (auto simp: failover_wf_def handle_selection_exhausted_def split: if_splits
      elim: finite_subset)

lemma responses_forward_wf:
  "responses_forward e s a r = (t, x, effs) \<Longrightarrow> failover_wf s \<Longrightarrow> failover_wf t"
  by (auto simp: responses_forward_def Let_def
      split: if_splits prod.splits forward_result.splits
      dest: record_profit_veto_wf handle_failover_error_wf)

lemma responses_iteration_wf:
  "responses_iteration e s = (t, x, effs) \<Longrightarrow> failover_wf s \<Longrightarrow> failover_wf t"
  by (auto simp: responses_iteration_def Let_def split: if_splits prod.splits sum.splits
      dest: responses_forward_wf handle_selection_exhausted_wf)

lemma vetoed_mono_error:
  "handle_failover_error cd now tm s a ag lim fe = (t, act, b) \<Longrightarrow>
     fs_profit_vetoed_account_ids t = fs_profit_vetoed_account_ids s"
  by (erule handle_failover_error_cases) auto

lemma vetoed_mono_forward:
  "responses_forward e s a r = (t, x, effs) \<Longrightarrow>
     fs_profit_vetoed_account_ids s \<subseteq> fs_profit_vetoed_account_ids t"
  by (auto simp: responses_forward_def record_profit_veto_def Let_def
      split: if_splits prod.splits forward_result.splits dest: vetoed_mono_error)

lemma vetoed_mono:
  "responses_iteration e s = (t, x, effs) \<Longrightarrow>
     fs_profit_vetoed_account_ids s \<subseteq> fs_profit_vetoed_account_ids t"
  by (auto simp: responses_iteration_def handle_selection_exhausted_def Let_def
      split: if_splits prod.splits sum.splits dest: vetoed_mono_forward)

section \<open>The loop ends\<close>

text \<open>
  Environments in which same-account retries are bounded: the accounts are among \<open>A\<close>, their retry
  counts at most \<open>L\<close>, and no error opens an unbounded deadline window.
\<close>

definition env_within :: "account_id list \<Rightarrow> int \<Rightarrow> loop_env \<Rightarrow> bool" where
  "env_within A L e \<longleftrightarrow>
     la_id (le_latest e) \<in> set A \<and> la_pool_retry_count (le_latest e) \<le> L
     \<and> (case le_forward e of
          ForwardFailover fe _ \<Rightarrow> is_zero_time (fe_same_account_retry_deadline fe)
                                  \<or> 0 < fe_same_account_retry_max fe
        | _ \<Rightarrow> True)"

definition retry_budget :: "account_id list \<Rightarrow> int \<Rightarrow> failover_state \<Rightarrow> nat" where
  "retry_budget A L s = sum_list (map (\<lambda>a. nat (L - retry_count s a)) A)"

definition loop_potential :: "account_id list \<Rightarrow> int \<Rightarrow> failover_state \<Rightarrow> nat" where
  "loop_potential A L s =
     2 * nat (fs_max_switches s - fs_switch_count s)
     + nat (max_profit_veto_attempts - fs_profit_veto_count s)
     + retry_budget A L s
     + (if fs_failed_account_ids s \<subseteq> fs_profit_vetoed_account_ids s then 0 else 1)"

lemma sum_list_strict_mono:
  "(\<And>x. x \<in> set xs \<Longrightarrow> (f x :: nat) \<le> g x) \<Longrightarrow> y \<in> set xs \<Longrightarrow> f y < g y \<Longrightarrow>
     sum_list (map f xs) < sum_list (map g xs)"
proof (induction xs)
  case (Cons x xs)
  have le: "sum_list (map f xs) \<le> sum_list (map g xs)"
    using Cons.prems by (intro sum_list_mono) simp
  show ?case
  proof (cases "y = x")
    case True
    with le Cons.prems show ?thesis by simp
  next
    case False
    with Cons show ?thesis by (simp add: add_le_less_mono)
  qed
qed simp

lemma retry_budget_less:
  "a \<in> set A \<Longrightarrow> retry_count s a < L \<Longrightarrow>
   fs_same_account_retry_count t = (fs_same_account_retry_count s)(a \<mapsto> retry_count s a + 1) \<Longrightarrow>
   retry_budget A L t < retry_budget A L s"
  unfolding retry_budget_def by (rule sum_list_strict_mono) auto

lemma retry_budget_cong:
  "fs_same_account_retry_count t = fs_same_account_retry_count s \<Longrightarrow>
   retry_budget A L t = retry_budget A L s"
  by (simp add: retry_budget_def)

text \<open>Each way to continue, as a relation between the states before and after.\<close>

inductive loop_progress :: "account_id list \<Rightarrow> int \<Rightarrow> failover_state \<Rightarrow> failover_state \<Rightarrow> bool"
  for A L where
  veto: "fs_profit_veto_count s + 1 < max_profit_veto_attempts \<Longrightarrow>
     t = fst (record_profit_veto s a) \<Longrightarrow> loop_progress A L s t"
| retry: "a \<in> set A \<Longrightarrow> retry_count s a < L \<Longrightarrow>
     fs_same_account_retry_count t = (fs_same_account_retry_count s)(a \<mapsto> retry_count s a + 1) \<Longrightarrow>
     fs_switch_count t = fs_switch_count s \<Longrightarrow> fs_max_switches t = fs_max_switches s \<Longrightarrow>
     fs_profit_veto_count t = fs_profit_veto_count s \<Longrightarrow>
     fs_failed_account_ids t = fs_failed_account_ids s \<Longrightarrow>
     fs_profit_vetoed_account_ids t = fs_profit_vetoed_account_ids s \<Longrightarrow> loop_progress A L s t"
| switch: "fs_switch_count s < fs_max_switches s \<Longrightarrow>
     fs_same_account_retry_count t = fs_same_account_retry_count s \<Longrightarrow>
     fs_switch_count t = fs_switch_count s + 1 \<Longrightarrow> fs_max_switches t = fs_max_switches s \<Longrightarrow>
     fs_profit_veto_count t = fs_profit_veto_count s \<Longrightarrow> loop_progress A L s t"
| backoff: "\<not> fs_failed_account_ids s \<subseteq> fs_profit_vetoed_account_ids s \<Longrightarrow>
     t = s\<lparr>fs_failed_account_ids := fs_profit_vetoed_account_ids s\<rparr> \<Longrightarrow> loop_progress A L s t"

lemma loop_progress_potential:
  "loop_progress A L s t \<Longrightarrow> loop_potential A L t < loop_potential A L s"
proof (induction rule: loop_progress.induct)
  case (veto s t a)
  then have "retry_budget A L t = retry_budget A L s"
    by (intro retry_budget_cong) (simp add: record_profit_veto_def Let_def)
  with veto show ?case
    by (auto simp: loop_potential_def record_profit_veto_def Let_def)
next
  case (retry a s t)
  then have "retry_budget A L t < retry_budget A L s" by (rule_tac retry_budget_less)
  with retry show ?case by (simp add: loop_potential_def)
next
  case (switch s t)
  then have "retry_budget A L t = retry_budget A L s" by (intro retry_budget_cong) simp
  with switch show ?case by (auto simp: loop_potential_def)
next
  case (backoff s t)
  then have "retry_budget A L t = retry_budget A L s" by (intro retry_budget_cong) simp
  with backoff show ?case by (auto simp: loop_potential_def)
qed

lemma failover_error_progress:
  assumes cont: "handle_failover_error cd now tm s a ag lim (Some fe) = (t, FailoverContinue, b)"
    and A: "a \<in> set A" and L: "lim \<le> L"
    and no_window: "is_zero_time (fe_same_account_retry_deadline fe) \<or> 0 < fe_same_account_retry_max fe"
  shows "loop_progress A L s t"
  using cont
proof (cases rule: handle_failover_error_cases)
  case (retry fc)
  then have "retry_count s a < L"
    using same_account_retry_allowed_bound no_window L by fastforce
  with A retry show ?thesis by (intro loop_progress.retry [of a]) simp_all
next
  case (switch fc)
  then show ?thesis by (intro loop_progress.switch) simp_all
qed simp_all

lemma selection_exhausted_progress:
  "handle_selection_exhausted cd tm s = (t, FailoverContinue) \<Longrightarrow>
     fs_failed_account_ids s \<noteq> {} \<Longrightarrow> loop_progress A L s t"
  by (rule loop_progress.backoff)
     (auto simp: handle_selection_exhausted_def all_exclusions_are_profit_vetoed_def split: if_splits)

lemma responses_forward_progress:
  assumes "responses_forward e s a r = (t, None, effs)" and env: "env_within A L e"
  shows "loop_progress A L s t"
proof (cases "le_vetoed e")
  case True
  with assms show ?thesis
    by (intro loop_progress.veto [where a = a])
       (auto simp: responses_forward_def record_profit_veto_def Let_def split: if_splits)
next
  case False
  with assms obtain fe b where
    "handle_failover_error (le_ctx_done_after_forward e) (le_now e) (le_timer e) s
       (la_id (le_latest e)) (la_is_antigravity (le_latest e))
       (la_pool_retry_count (le_latest e)) (Some fe) = (t, FailoverContinue, b)"
    and "le_forward e = ForwardFailover fe False"
    by (auto simp: responses_forward_def Let_def
        split: if_splits forward_result.splits prod.splits failover_action.splits)
  with env show ?thesis
    by (intro failover_error_progress) (auto simp: env_within_def)
qed

lemma responses_loop_step_progress:
  assumes "responses_loop_step s e = Some t" and "env_within A L e"
  shows "loop_progress A L s t"
  using assms
  by (auto simp: responses_loop_step_def responses_iteration_def Let_def
      split: prod.splits option.splits if_splits sum.splits failover_action.splits
      intro: responses_forward_progress selection_exhausted_progress)

interpretation failover_loop: draining_machine "env_within A L" responses_loop_step
    "\<lambda>_. True" "loop_potential A L" for A L
  by unfold_locales (auto intro: loop_progress_potential responses_loop_step_progress)

section \<open>What every state of a run satisfies\<close>

definition failover_run_inv :: "account_id set \<Rightarrow> failover_state \<Rightarrow> bool" where
  "failover_run_inv V s \<longleftrightarrow>
     failover_wf s \<and> V \<subseteq> fs_profit_vetoed_account_ids s
     \<and> fs_profit_veto_count s < max_profit_veto_attempts"

lemma loop_step_veto_count:
  "responses_forward e s a r = (t, None, effs) \<Longrightarrow>
     fs_profit_veto_count s < max_profit_veto_attempts \<Longrightarrow>
     fs_profit_veto_count t < max_profit_veto_attempts"
  by (auto simp: responses_forward_def record_profit_veto_def Let_def
      split: if_splits prod.splits forward_result.splits elim!: handle_failover_error_cases)

lemma failover_run_inv_step:
  assumes "failover_run_inv V s" and "responses_loop_step s e = Some t"
  shows "failover_run_inv V t"
proof -
  from assms(2) obtain effs where it: "responses_iteration e s = (t, None, effs)"
    by (auto simp: responses_loop_step_def split: prod.splits option.splits)
  then have "fs_profit_veto_count t < max_profit_veto_attempts"
    using assms(1) unfolding failover_run_inv_def
    by (auto simp: responses_iteration_def handle_selection_exhausted_def Let_def
        split: if_splits prod.splits sum.splits failover_action.splits dest: loop_step_veto_count)
  with it assms(1) responses_iteration_wf [OF it] vetoed_mono [OF it] show ?thesis
    by (auto simp: failover_run_inv_def)
qed

interpretation failover_safety: stopping_machine "\<lambda>_. True" responses_loop_step
    "failover_run_inv V" for V
  by unfold_locales (rule failover_run_inv_step)

lemma initial_potential:
  "loop_potential A L (new_failover_state m b) = 2 * nat m + 10 + length A * nat L"
  by (simp add: loop_potential_def retry_budget_def new_failover_state_def unit_defs
      map_replicate_const sum_list_replicate)

lemma forward_slot_effects:
  "count_list (snd (snd (responses_forward e s c r))) (SlotHeld a) = 0"
  "count_list (snd (snd (responses_forward e s c r))) (SlotReleased a) = (if r \<and> c = a then 1 else 0)"
  by (simp_all add: responses_forward_def Let_def case_prod_beta
      split: forward_result.split option.split)

section \<open>Properties\<close>

text \<open>
  C6: the failover loop of a request ends. With \<open>m\<close> allowed switches, over the accounts \<open>A\<close> whose
  same-account retry counts are at most \<open>L\<close>, and errors that do not open a deadline window,
  no sequence of answers of the services keeps the loop continuing for more than
  \<open>2 m + 10 + |A| L\<close> iterations: vetoes, retries, switches and backoffs all use up a budget.
\<close>

theorem failover_loop_ends:
  assumes "list_all (env_within A L) es"
    and "2 * nat m + 10 + length A * nat L < length es"
  shows "run_while responses_loop_step (new_failover_state m b) es = None"
  using failover_loop.run_must_stop assms by (simp add: initial_potential)

definition sample_error :: failover_error where
  "sample_error =
     \<lparr>fe_status_code = 503, fe_response_body = [], fe_response_headers = [],
      fe_force_cache_billing = False, fe_retryable_on_same_account = True,
      fe_same_account_retry_delay = 0, fe_same_account_retry_deadline = 0,
      fe_same_account_retry_max = 0, fe_request_scoped_transient = True,
      fe_safe_to_failover_after_write = False, fe_stage = StageUnset, fe_scope = ScopeUnset,
      fe_reason = [], fe_next_account_action = NextAccountLegacyRetry,
      fe_client_status_code = 0, fe_client_message = []\<rparr>"

definition sample_env :: "account_id \<Rightarrow> bool \<Rightarrow> forward_result \<Rightarrow> loop_env" where
  "sample_env a vetoed fwd =
     (let acct = \<lparr>la_id = a, la_is_antigravity = False, la_pool_retry_count = 1\<rparr>
      in \<lparr>le_ctx_done_at_start = False,
          le_selection = Inr \<lparr>sel_account = acct, sel_acquired = True, sel_has_release = True,
                              sel_has_wait_plan = False\<rparr>,
          le_ctx_done_after_selection = False, le_slot_wait_fails = False,
          le_waited_release = False, le_vetoed = vetoed, le_latest = acct,
          le_profit_gate_active = False,
          le_compat_service_missing = False, le_forward = fwd,
          le_ctx_done_after_forward = False, le_now = 1, le_timer = (\<lambda>_. True)\<rparr>)"

lemmas failover_eval =
  failover_defs handle_failover_error_def new_failover_state_def sample_env_def sample_error_def
  should_retry_next_account_def same_account_retry_allowed_def
  same_account_retry_deadline_allows_def need_force_cache_billing_def sleep_with_context_def Let_def

theorem failover_loop_ends_witness:
  "run_while responses_loop_step (new_failover_state 1 False)
     (replicate 14 (sample_env 7 False (ForwardFailover sample_error False))) = None
   \<and> run_while responses_loop_step (new_failover_state 1 False)
     (replicate 2 (sample_env 7 False (ForwardFailover sample_error False))) \<noteq> None"
proof -
  let ?e = "sample_env 7 False (ForwardFailover sample_error False)"
  have "list_all (env_within [7] 1) (replicate 14 ?e)"
    by (simp add: list_all_iff env_within_def sample_env_def sample_error_def Let_def)
  then have "run_while responses_loop_step (new_failover_state 1 False) (replicate 14 ?e) = None"
    by (rule failover_loop_ends) simp
  moreover have "run_while responses_loop_step (new_failover_state 1 False) (replicate 2 ?e) \<noteq> None"
    by (simp add: numeral_2_eq_2 failover_eval)
  ultimately show ?thesis by blast
qed

text \<open>
  C22: account slots are balanced. In every iteration of the loop, whatever the services answer, a
  slot that is held when the account is admitted is released exactly once before the iteration
  continues or returns, and nothing is released that was not held.
\<close>

theorem failover_slots_balanced:
  "count_list (snd (snd (responses_iteration e s))) (SlotHeld a)
     = count_list (snd (snd (responses_iteration e s))) (SlotReleased a)"
  by (simp add: responses_iteration_def Let_def case_prod_beta forward_slot_effects split: sum.split)

text \<open>
  within one request an account that the profit control has vetoed is never offered again (it
  stays in the exclusion list through the 503 backoff that clears the list), the switch counter
  never passes its limit, and fewer than ten vetoes have happened while the loop continues.
\<close>

theorem failover_vetoed_stay_excluded:
  assumes run: "run_while responses_loop_step (new_failover_state m b) (es @ es') = Some t"
    and mid: "run_while responses_loop_step (new_failover_state m b) es = Some s"
  shows "fs_profit_vetoed_account_ids s \<subseteq> fs_failed_account_ids t
    \<and> (fs_switch_count t \<le> fs_max_switches t \<or> fs_switch_count t = 0)
    \<and> card (fs_profit_vetoed_account_ids t) < 10"
proof -
  have "failover_run_inv {} (new_failover_state m b)"
    by (simp add: failover_run_inv_def new_failover_state_wf)
       (simp add: new_failover_state_def unit_defs)
  then have "failover_run_inv {} s"
    using failover_safety.run_inv [OF _ _ mid] by (simp add: list_all_iff)
  then have s: "failover_run_inv (fs_profit_vetoed_account_ids s) s"
    by (simp add: failover_run_inv_def)
  have "run_while responses_loop_step s es' = Some t"
    using run mid by (simp add: run_while_append)
  with s have "failover_run_inv (fs_profit_vetoed_account_ids s) t"
    using failover_safety.run_inv by (simp add: list_all_iff)
  then show ?thesis
    by (auto simp: failover_run_inv_def failover_wf_def unit_defs)
qed

theorem failover_vetoed_stay_excluded_witness:
  "\<exists>s t. run_while responses_loop_step (new_failover_state 1 False)
            [sample_env 7 True ForwardOk] = Some s
       \<and> run_while responses_loop_step (new_failover_state 1 False)
            ([sample_env 7 True ForwardOk] @ [sample_env 8 False (ForwardFailover sample_error False)])
          = Some t
       \<and> fs_profit_vetoed_account_ids s = {7} \<and> 7 \<in> fs_failed_account_ids t"
proof -
  let ?s = "fst (record_profit_veto (new_failover_state 1 False) 7)"
  let ?es = "[sample_env 7 True ForwardOk]"
  let ?es' = "[sample_env 8 False (ForwardFailover sample_error False)]"
  have mid: "run_while responses_loop_step (new_failover_state 1 False) ?es = Some ?s"
    by (simp add: failover_eval unit_defs)
  have v: "fs_profit_vetoed_account_ids ?s = {7}"
    by (simp add: record_profit_veto_def new_failover_state_def)
  have "run_while responses_loop_step (new_failover_state 1 False) (?es @ ?es') \<noteq> None"
    by (simp add: failover_eval unit_defs)
  then obtain t where
    run: "run_while responses_loop_step (new_failover_state 1 False) (?es @ ?es') = Some t"
    by blast
  with mid have "fs_profit_vetoed_account_ids ?s \<subseteq> fs_failed_account_ids t"
    using failover_vetoed_stay_excluded by blast
  with v have "7 \<in> fs_failed_account_ids t" by simp
  with mid v run show ?thesis by blast
qed

text \<open>
  cache billing is forced exactly when it should be. After an error that lets the request go
  on, the flag is set iff it was set before, or the upstream error asks for it, or the session
  is bound to the account and the request leaves it (the retry counter of the account did not
  move: a retry on the same account is not a switch).
\<close>

theorem failover_cache_billing:
  assumes "handle_failover_error False now timer s a antigravity limit (Some fe) = (t, act, banned)"
    and "fe_next_account_action fe \<noteq> NextAccountStop"
  shows "fs_force_cache_billing t \<longleftrightarrow>
     fs_force_cache_billing s \<or> fe_force_cache_billing fe
     \<or> (fs_has_bound_session s \<and> retry_count t a = retry_count s a)"
  using assms(1)
  by (cases rule: handle_failover_error_cases)
     (use assms(2) in \<open>auto simp: need_force_cache_billing_def should_retry_next_account_def\<close>)

theorem failover_cache_billing_witness:
  "fs_force_cache_billing
     (fst (handle_failover_error False 1 (\<lambda>_. True) (new_failover_state 3 True) 7 False 0
             (Some sample_error)))"
  using failover_cache_billing [of 1 "\<lambda>_. True" "new_failover_state 3 True" 7 False 0 sample_error]
  by (simp add: failover_eval)

text \<open>
  the delay before the n-th retry of a request-scoped error doubles from 500 milliseconds and
  is capped at 8 seconds.
\<close>

theorem failover_backoff_delay:
  assumes "fe_same_account_retry_delay e \<le> 0" and "fe_request_scoped_transient e" and "1 \<le> n"
  shows "same_account_retry_delay_for (Some e) n
    = min (8 * second) (500 * millisecond * 2 ^ nat (n - 1))"
proof (cases "n = 1")
  case True
  with assms show ?thesis by (simp add: same_account_retry_delay_for_def unit_defs)
next
  case False
  then have "backoff_loop (nat (n - 1)) same_account_retry_delay
      = min max_request_scoped_retry_delay (same_account_retry_delay * 2 ^ nat (n - 1))"
    by (intro backoff_loop_closed [of _ 4]) (simp_all add: unit_defs)
  with False assms show ?thesis
    by (simp add: same_account_retry_delay_for_def unit_defs)
qed

theorem failover_backoff_delay_witness:
  "same_account_retry_delay_for (Some sample_error) 4 = 4 * second"
  using failover_backoff_delay [of sample_error 4] by (simp add: sample_error_def)

end
