(* ===== verification/AnthropicStream.thy ===== *)
theory AnthropicStream
  imports GoJson
begin

text \<open>
  The conversion of OpenAI Responses API answers into Anthropic Messages answers
  (backend/internal/pkg/apicompat/responses_to_anthropic.go): the non-streaming converter and the
  stateful converter of the event stream. Records carry the fields the converter reads or
  writes; the others (images, namespaces, sequence numbers, chat fields) are left out. A pointer
  is an option. Rendering an event as JSON text is not modelled.
\<close>

section \<open>Responses API data\<close>

record resp_part =
  rp_type :: string
  rp_text :: string

record resp_summary =
  rs_type :: string
  rs_text :: string

record resp_output =
  ro_type :: string
  ro_id :: string
  ro_content :: "resp_part list"
  ro_status :: string
  ro_encrypted_content :: string
  ro_summary :: "resp_summary list"
  ro_call_id :: string
  ro_name :: string
  ro_arguments :: string
  ro_action_query :: "string option"   \<comment> \<open>\<open>Action.Query\<close>; \<open>None\<close> for a nil action\<close>

record resp_usage =
  ru_input_tokens :: int
  ru_output_tokens :: int
  ru_cache_creation_input_tokens :: int
  ru_cached_tokens :: "int option"     \<comment> \<open>\<open>InputTokensDetails.CachedTokens\<close>\<close>

record resp_response =
  rr_id :: string
  rr_model :: string
  rr_status :: string
  rr_output :: "resp_output list"
  rr_usage :: "resp_usage option"
  rr_incomplete_reason :: "string option"   \<comment> \<open>\<open>IncompleteDetails.Reason\<close>\<close>

record resp_event =
  ev_type :: string
  ev_response :: "resp_response option"
  ev_usage :: "resp_usage option"
  ev_item :: "resp_output option"
  ev_output_index :: int
  ev_content_index :: int
  ev_delta :: string
  ev_text :: string
  ev_arguments :: string

section \<open>Anthropic data\<close>

record anth_block =
  ab_type :: string
  ab_text :: string
  ab_thinking :: string
  ab_signature :: string
  ab_id :: string
  ab_name :: string
  ab_input :: string
  ab_tool_use_id :: string
  ab_content :: string

record anth_usage =
  au_input_tokens :: int
  au_output_tokens :: int
  au_cache_creation_input_tokens :: int
  au_cache_read_input_tokens :: int

record anth_response =
  am_id :: string
  am_type :: string
  am_role :: string
  am_content :: "anth_block list"
  am_model :: string
  am_stop_reason :: "string option"
  am_usage :: anth_usage

record anth_delta =
  ad_type :: string
  ad_text :: string
  ad_partial_json :: string
  ad_thinking :: string
  ad_signature :: string
  ad_stop_reason :: string

record anth_event =
  ae_type :: string
  ae_message :: "anth_response option"
  ae_index :: "int option"
  ae_content_block :: "anth_block option"
  ae_delta :: "anth_delta option"
  ae_usage :: "anth_usage option"

definition new_block :: "string \<Rightarrow> anth_block" where
  "new_block t = \<lparr>ab_type = t, ab_text = [], ab_thinking = [], ab_signature = [], ab_id = [],
     ab_name = [], ab_input = [], ab_tool_use_id = [], ab_content = []\<rparr>"

definition new_delta :: "string \<Rightarrow> anth_delta" where
  "new_delta t = \<lparr>ad_type = t, ad_text = [], ad_partial_json = [], ad_thinking = [],
     ad_signature = [], ad_stop_reason = []\<rparr>"

definition zero_usage :: anth_usage where
  "zero_usage = \<lparr>au_input_tokens = 0, au_output_tokens = 0,
     au_cache_creation_input_tokens = 0, au_cache_read_input_tokens = 0\<rparr>"

definition bare_event :: "string \<Rightarrow> anth_event" where
  "bare_event t = \<lparr>ae_type = t, ae_message = None, ae_index = None, ae_content_block = None,
     ae_delta = None, ae_usage = None\<rparr>"

definition block_start :: "int \<Rightarrow> anth_block \<Rightarrow> anth_event" where
  "block_start i b =
     (bare_event ''content_block_start'')\<lparr>ae_index := Some i, ae_content_block := Some b\<rparr>"

definition block_delta :: "int \<Rightarrow> anth_delta \<Rightarrow> anth_event" where
  "block_delta i d = (bare_event ''content_block_delta'')\<lparr>ae_index := Some i, ae_delta := Some d\<rparr>"

definition block_stop :: "int \<Rightarrow> anth_event" where
  "block_stop i = (bare_event ''content_block_stop'')\<lparr>ae_index := Some i\<rparr>"

section \<open>The non-streaming converter\<close>

definition from_responses_call_id :: "string \<Rightarrow> string" where
  "from_responses_call_id call_id =
     (if take 3 call_id = ''fc_'' then
        let after = drop 3 call_id in
        if take 6 after = ''toolu_'' \<or> take 5 after = ''call_'' then after else call_id
      else call_id)"

definition sanitize_tool_use_input :: "string \<Rightarrow> string \<Rightarrow> string" where
  "sanitize_tool_use_input name raw =
     (if name \<noteq> ''Read'' \<or> raw = [] then raw
      else case json_unmarshal_object raw of
        None \<Rightarrow> raw
      | Some m \<Rightarrow>
          (case map_of m ''pages'' of
             None \<Rightarrow> raw
           | Some v \<Rightarrow> if v \<noteq> [CHR 0x22, CHR 0x22] then raw
                       else json_marshal_object (filter (\<lambda>p. fst p \<noteq> ''pages'') m)))"

definition anthropic_usage_from_responses :: "resp_usage option \<Rightarrow> anth_usage" where
  "anthropic_usage_from_responses u =
     (case u of
        None \<Rightarrow> zero_usage
      | Some u \<Rightarrow>
          let cached = (case ru_cached_tokens u of None \<Rightarrow> 0 | Some n \<Rightarrow> n);
              inp = ru_input_tokens u - cached - ru_cache_creation_input_tokens u;
              inp = (if inp < 0 then 0 else inp)
          in \<lparr>au_input_tokens = inp, au_output_tokens = ru_output_tokens u,
              au_cache_creation_input_tokens = ru_cache_creation_input_tokens u,
              au_cache_read_input_tokens = cached\<rparr>)"

definition contains_tool_use_block :: "anth_block list \<Rightarrow> bool" where
  "contains_tool_use_block bs \<longleftrightarrow> list_ex (\<lambda>b. ab_type b = ''tool_use'') bs"

definition stop_reason_of_status :: "string \<Rightarrow> string option \<Rightarrow> anth_block list \<Rightarrow> string" where
  "stop_reason_of_status status incomplete_reason blocks =
     (if status = ''incomplete'' then
        (if incomplete_reason = Some ''max_output_tokens'' then ''max_tokens'' else ''end_turn'')
      else if status = ''completed'' then
        (if contains_tool_use_block blocks then ''tool_use'' else ''end_turn'')
      else ''end_turn'')"

text \<open>\<open>json.Marshal\<close> of \<open>map[string]string{"query": query}\<close>.\<close>

definition query_input :: "string \<Rightarrow> string" where
  "query_input query = ''{'' @ json_quote ''query'' @ '':'' @ json_quote query @ ''}''"

definition output_item_blocks :: "resp_output \<Rightarrow> anth_block list" where
  "output_item_blocks item =
     (if ro_type item = ''reasoning'' then
        let summary_text = concat (map rs_text
              (filter (\<lambda>p. rs_type p = ''summary_text'' \<and> rs_text p \<noteq> []) (ro_summary item)))
        in if summary_text \<noteq> [] \<or> trim_space (ro_encrypted_content item) \<noteq> []
           then [(new_block ''thinking'')\<lparr>ab_thinking := summary_text,
                   ab_signature := ro_encrypted_content item\<rparr>]
           else []
      else if ro_type item = ''message'' then
        map (\<lambda>p. (new_block ''text'')\<lparr>ab_text := rp_text p\<rparr>)
          (filter (\<lambda>p. rp_type p = ''output_text'' \<and> rp_text p \<noteq> []) (ro_content item))
      else if ro_type item = ''function_call'' then
        [(new_block ''tool_use'')\<lparr>ab_id := from_responses_call_id (ro_call_id item),
           ab_name := ro_name item,
           ab_input := sanitize_tool_use_input (ro_name item) (ro_arguments item)\<rparr>]
      else if ro_type item = ''web_search_call'' then
        let tool_use_id = ''srvtoolu_'' @ ro_id item;
            query = (case ro_action_query item of None \<Rightarrow> [] | Some q \<Rightarrow> q)
        in [(new_block ''server_tool_use'')\<lparr>ab_id := tool_use_id, ab_name := ''web_search'',
              ab_input := query_input query\<rparr>,
            (new_block ''web_search_tool_result'')\<lparr>ab_tool_use_id := tool_use_id,
              ab_content := ''[]''\<rparr>]
      else [])"

definition responses_to_anthropic :: "resp_response \<Rightarrow> string \<Rightarrow> anth_response" where
  "responses_to_anthropic resp model =
     (let blocks = concat (map output_item_blocks (rr_output resp));
          blocks = (if blocks = [] then [new_block ''text''] else blocks)
      in \<lparr>am_id = rr_id resp, am_type = ''message'', am_role = ''assistant'', am_content = blocks,
          am_model = model,
          am_stop_reason = Some (stop_reason_of_status (rr_status resp) (rr_incomplete_reason resp) blocks),
          am_usage = (case rr_usage resp of None \<Rightarrow> zero_usage
                      | Some u \<Rightarrow> anthropic_usage_from_responses (Some u))\<rparr>)"

section \<open>The stream converter\<close>

record stream_state =
  st_message_start_sent :: bool
  st_message_stop_sent :: bool
  st_content_block_index :: int
  st_content_block_open :: bool
  st_current_block_type :: string
  st_current_tool_name :: string
  st_current_tool_args :: string
  st_current_tool_had_delta :: bool
  st_pending_thinking_signature :: string
  st_has_tool_call :: bool
  st_output_index_to_block_idx :: "int \<rightharpoonup> int"
  st_text_by_part :: "int \<times> int \<rightharpoonup> string"
  st_text_delivered :: bool
  st_usage :: anth_usage
  st_response_id :: string
  st_model :: string
  st_created :: int

definition new_stream_state :: "int \<Rightarrow> stream_state" where
  "new_stream_state now =
     \<lparr>st_message_start_sent = False, st_message_stop_sent = False, st_content_block_index = 0,
      st_content_block_open = False, st_current_block_type = [], st_current_tool_name = [],
      st_current_tool_args = [], st_current_tool_had_delta = False,
      st_pending_thinking_signature = [], st_has_tool_call = False,
      st_output_index_to_block_idx = Map.empty, st_text_by_part = Map.empty,
      st_text_delivered = False, st_usage = zero_usage, st_response_id = [], st_model = [],
      st_created = now\<rparr>"

type_synonym emission = "stream_state \<times> anth_event list"

definition close_current_block :: "stream_state \<Rightarrow> emission" where
  "close_current_block s =
     (if \<not> st_content_block_open s then (s, [])
      else
        let idx = st_content_block_index s;
            thinking = (st_current_block_type s = ''thinking'');
            signature = trim_space (st_pending_thinking_signature s);
            evs = (if thinking \<and> signature \<noteq> []
                   then [block_delta idx ((new_delta ''signature_delta'')\<lparr>ad_signature := signature\<rparr>)]
                   else []);
            s = (if thinking then s\<lparr>st_pending_thinking_signature := []\<rparr> else s)
        in (s\<lparr>st_content_block_open := False, st_content_block_index := idx + 1,
              st_current_tool_name := [], st_current_tool_args := [],
              st_current_tool_had_delta := False\<rparr>,
            evs @ [block_stop idx]))"

definition handle_created :: "resp_event \<Rightarrow> stream_state \<Rightarrow> emission" where
  "handle_created evt s =
     (let s = (case ev_response evt of
                 None \<Rightarrow> s
               | Some r \<Rightarrow> s\<lparr>st_response_id := rr_id r,
                   st_model := (if st_model s = [] then rr_model r else st_model s)\<rparr>)
      in if st_message_start_sent s then (s, [])
         else (s\<lparr>st_message_start_sent := True\<rparr>,
               [(bare_event ''message_start'')\<lparr>ae_message := Some
                   \<lparr>am_id = st_response_id s, am_type = ''message'', am_role = ''assistant'',
                    am_content = [], am_model = st_model s, am_stop_reason = None,
                    am_usage = zero_usage\<rparr>\<rparr>]))"

definition handle_output_item_added :: "resp_event \<Rightarrow> stream_state \<Rightarrow> emission" where
  "handle_output_item_added evt s =
     (case ev_item evt of
        None \<Rightarrow> (s, [])
      | Some item \<Rightarrow>
          if ro_type item = ''function_call'' \<or> ro_type item = ''custom_tool_call'' then
            (case close_current_block s of (s, evs) \<Rightarrow>
               let idx = st_content_block_index s in
               (s\<lparr>st_output_index_to_block_idx :=
                    (st_output_index_to_block_idx s)(ev_output_index evt \<mapsto> idx),
                  st_content_block_open := True, st_current_block_type := ''tool_use'',
                  st_current_tool_name := ro_name item, st_current_tool_args := [],
                  st_current_tool_had_delta := False, st_has_tool_call := True\<rparr>,
                evs @ [block_start idx ((new_block ''tool_use'')
                  \<lparr>ab_id := from_responses_call_id (ro_call_id item), ab_name := ro_name item,
                   ab_input := ''{}''\<rparr>)]))
          else if ro_type item = ''reasoning'' then
            (case close_current_block s of (s, evs) \<Rightarrow>
               let idx = st_content_block_index s in
               (s\<lparr>st_output_index_to_block_idx :=
                    (st_output_index_to_block_idx s)(ev_output_index evt \<mapsto> idx),
                  st_content_block_open := True, st_current_block_type := ''thinking'',
                  st_pending_thinking_signature := trim_space (ro_encrypted_content item)\<rparr>,
                evs @ [block_start idx (new_block ''thinking'')]))
          else (s, []))"

definition text_part_of :: "resp_event \<Rightarrow> int \<times> int" where
  "text_part_of evt = (ev_output_index evt, ev_content_index evt)"

definition ensure_text_block :: "stream_state \<Rightarrow> emission" where
  "ensure_text_block s =
     (if \<not> st_content_block_open s \<or> st_current_block_type s \<noteq> ''text'' then
        (case close_current_block s of (s, evs) \<Rightarrow>
           (s\<lparr>st_content_block_open := True, st_current_block_type := ''text''\<rparr>,
            evs @ [block_start (st_content_block_index s) (new_block ''text'')]))
      else (s, []))"

definition emit_text :: "string \<Rightarrow> int \<times> int \<Rightarrow> stream_state \<Rightarrow> emission" where
  "emit_text text part s =
     (if text = [] then (s, [])
      else
        (case ensure_text_block s of (s, evs) \<Rightarrow>
           let delivered = (case st_text_by_part s part of None \<Rightarrow> [] | Some d \<Rightarrow> d) in
           (s\<lparr>st_text_by_part := (st_text_by_part s)(part \<mapsto> delivered @ text),
              st_text_delivered := True\<rparr>,
            evs @ [block_delta (st_content_block_index s)
                     ((new_delta ''text_delta'')\<lparr>ad_text := text\<rparr>)])))"

definition recover_text :: "string \<Rightarrow> int \<times> int \<Rightarrow> stream_state \<Rightarrow> emission" where
  "recover_text text part s =
     (let known = (st_text_by_part s part \<noteq> None) in
      if \<not> known \<and> st_text_delivered s then (s, [])
      else
        let delivered = (case st_text_by_part s part of None \<Rightarrow> [] | Some d \<Rightarrow> d) in
        if text = delivered \<or> take (length delivered) text \<noteq> delivered then (s, [])
        else emit_text (drop (length delivered) text) part s)"

definition handle_block_done :: "stream_state \<Rightarrow> emission" where
  "handle_block_done s = (if \<not> st_content_block_open s then (s, []) else close_current_block s)"

definition handle_text_delta :: "resp_event \<Rightarrow> stream_state \<Rightarrow> emission" where
  "handle_text_delta evt s = emit_text (ev_delta evt) (text_part_of evt) s"

definition handle_text_done :: "resp_event \<Rightarrow> stream_state \<Rightarrow> emission" where
  "handle_text_done evt s =
     (if st_message_stop_sent s then handle_block_done s
      else
        (case recover_text (ev_text evt) (text_part_of evt) s of (s, evs) \<Rightarrow>
         case handle_block_done s of (s, evs') \<Rightarrow> (s, evs @ evs')))"

definition args_delta :: "int \<Rightarrow> string \<Rightarrow> anth_event" where
  "args_delta idx json = block_delta idx ((new_delta ''input_json_delta'')\<lparr>ad_partial_json := json\<rparr>)"

definition handle_func_args_delta :: "resp_event \<Rightarrow> stream_state \<Rightarrow> emission" where
  "handle_func_args_delta evt s =
     (if ev_delta evt = [] then (s, [])
      else if st_current_block_type s = ''tool_use'' \<and> st_current_tool_name s = ''Read'' then
        let s = s\<lparr>st_current_tool_args := st_current_tool_args s @ ev_delta evt\<rparr> in
        if st_current_tool_had_delta s \<or> \<not> json_valid (st_current_tool_args s) then (s, [])
        else (case st_output_index_to_block_idx s (ev_output_index evt) of
                None \<Rightarrow> (s, [])
              | Some idx \<Rightarrow>
                  (s\<lparr>st_current_tool_had_delta := True\<rparr>,
                   [args_delta idx (sanitize_tool_use_input (st_current_tool_name s)
                      (st_current_tool_args s))]))
      else
        let s = (if st_current_block_type s = ''tool_use''
                 then s\<lparr>st_current_tool_had_delta := True\<rparr> else s)
        in (case st_output_index_to_block_idx s (ev_output_index evt) of
              None \<Rightarrow> (s, [])
            | Some idx \<Rightarrow> (s, [args_delta idx (ev_delta evt)])))"

definition handle_func_args_done :: "resp_event \<Rightarrow> stream_state \<Rightarrow> emission" where
  "handle_func_args_done evt s =
     (if \<not> st_content_block_open s then (s, [])
      else if st_current_block_type s \<noteq> ''tool_use'' then handle_block_done s
      else
        let raw = (if ev_arguments evt = [] then st_current_tool_args s else ev_arguments evt) in
        if raw = [] \<or> st_current_tool_had_delta s then close_current_block s
        else
          let sanitized = (if st_current_tool_name s = ''Read''
                           then sanitize_tool_use_input (st_current_tool_name s) raw else raw)
          in if st_current_tool_name s = ''Read'' \<and> sanitized = [] then close_current_block s
          else
            let block_idx = (case st_output_index_to_block_idx s (ev_output_index evt) of
                               None \<Rightarrow> st_content_block_index s | Some i \<Rightarrow> i)
            in if \<not> st_content_block_open s \<or> block_idx \<noteq> st_content_block_index s then (s, [])
               else (case close_current_block s of (s, evs) \<Rightarrow>
                       (s, args_delta block_idx sanitized # evs)))"

definition handle_reasoning_delta :: "resp_event \<Rightarrow> stream_state \<Rightarrow> emission" where
  "handle_reasoning_delta evt s =
     (if ev_delta evt = [] then (s, [])
      else (case st_output_index_to_block_idx s (ev_output_index evt) of
              None \<Rightarrow> (s, [])
            | Some idx \<Rightarrow>
                (s, [block_delta idx ((new_delta ''thinking_delta'')\<lparr>ad_thinking := ev_delta evt\<rparr>)])))"

definition handle_web_search_done :: "resp_output \<Rightarrow> stream_state \<Rightarrow> emission" where
  "handle_web_search_done item s =
     (case close_current_block s of (s, evs) \<Rightarrow>
        let tool_use_id = ''srvtoolu_'' @ ro_id item;
            query = (case ro_action_query item of None \<Rightarrow> [] | Some q \<Rightarrow> q);
            idx1 = st_content_block_index s;
            idx2 = idx1 + 1
        in (s\<lparr>st_content_block_index := idx2 + 1\<rparr>,
            evs @ [block_start idx1 ((new_block ''server_tool_use'')\<lparr>ab_id := tool_use_id,
                     ab_name := ''web_search'', ab_input := query_input query\<rparr>),
                   block_stop idx1,
                   block_start idx2 ((new_block ''web_search_tool_result'')
                     \<lparr>ab_tool_use_id := tool_use_id, ab_content := ''[]''\<rparr>),
                   block_stop idx2]))"

definition handle_output_item_done :: "resp_event \<Rightarrow> stream_state \<Rightarrow> emission" where
  "handle_output_item_done evt s =
     (case ev_item evt of
        None \<Rightarrow> (s, [])
      | Some item \<Rightarrow>
          if ro_type item = ''web_search_call'' \<and> ro_status item = ''completed''
          then handle_web_search_done item s
          else
            let s = (if ro_type item = ''reasoning'' \<and> trim_space (ro_encrypted_content item) \<noteq> []
                     then s\<lparr>st_pending_thinking_signature := trim_space (ro_encrypted_content item)\<rparr>
                     else s)
            in if st_content_block_open s then close_current_block s else (s, []))"

text \<open>The text parts of the terminal response, with the indices the two loops give them.\<close>

fun terminal_parts :: "int \<Rightarrow> resp_output list \<Rightarrow> (string \<times> (int \<times> int)) list" where
  "terminal_parts i [] = []"
| "terminal_parts i (item # items) =
     (if ro_type item \<noteq> ''message'' then []
      else concat (map (\<lambda>(j, p). if rp_type p \<noteq> ''output_text'' then []
                                 else [(rp_text p, (i, int j))])
                    (zip [0 ..< length (ro_content item)] (ro_content item))))
     @ terminal_parts (i + 1) items"

fun emit_texts :: "(string \<times> (int \<times> int)) list \<Rightarrow> stream_state \<Rightarrow> emission" where
  "emit_texts [] s = (s, [])"
| "emit_texts ((text, part) # ps) s =
     (case emit_text text part s of (s, evs) \<Rightarrow>
      case emit_texts ps s of (s, evs') \<Rightarrow> (s, evs @ evs'))"

definition recover_terminal_text :: "resp_event \<Rightarrow> stream_state \<Rightarrow> emission" where
  "recover_terminal_text evt s =
     (if st_text_delivered s then (s, [])
      else case ev_response evt of
        None \<Rightarrow> (s, [])
      | Some r \<Rightarrow>
          (case emit_texts (terminal_parts 0 (rr_output r)) s of (s, evs) \<Rightarrow>
             if evs \<noteq> [] then (case close_current_block s of (s, evs') \<Rightarrow> (s, evs @ evs'))
             else (s, evs)))"

definition message_end :: "string \<Rightarrow> anth_usage \<Rightarrow> anth_event list" where
  "message_end stop_reason usage =
     [(bare_event ''message_delta'')\<lparr>ae_delta := Some ((new_delta [])\<lparr>ad_stop_reason := stop_reason\<rparr>),
        ae_usage := Some usage\<rparr>,
      bare_event ''message_stop'']"

definition completed_usage :: "resp_event \<Rightarrow> stream_state \<Rightarrow> anth_usage" where
  "completed_usage evt s =
     (case ev_response evt of
        Some r \<Rightarrow>
          (case rr_usage r of
             Some u \<Rightarrow> anthropic_usage_from_responses (Some u)
           | None \<Rightarrow> (case ev_usage evt of None \<Rightarrow> st_usage s
                      | Some u \<Rightarrow> anthropic_usage_from_responses (Some u)))
      | None \<Rightarrow> (case ev_usage evt of None \<Rightarrow> st_usage s
                 | Some u \<Rightarrow> anthropic_usage_from_responses (Some u)))"

definition completed_stop_reason :: "resp_event \<Rightarrow> stream_state \<Rightarrow> string" where
  "completed_stop_reason evt s =
     (case ev_response evt of
        None \<Rightarrow> ''end_turn''
      | Some r \<Rightarrow>
          if rr_status r = ''incomplete'' then
            (if rr_incomplete_reason r = Some ''max_output_tokens'' then ''max_tokens'' else ''end_turn'')
          else if rr_status r = ''completed'' then
            (if st_has_tool_call s then ''tool_use'' else ''end_turn'')
          else ''end_turn'')"

definition handle_completed :: "resp_event \<Rightarrow> stream_state \<Rightarrow> emission" where
  "handle_completed evt s =
     (if st_message_stop_sent s then (s, [])
      else
        (case close_current_block s of (s, evs1) \<Rightarrow>
         case recover_terminal_text evt s of (s, evs2) \<Rightarrow>
           let s = s\<lparr>st_usage := completed_usage evt s\<rparr>
           in (s\<lparr>st_message_stop_sent := True\<rparr>,
               evs1 @ evs2 @ message_end (completed_stop_reason evt s) (st_usage s))))"

definition finalize_stream :: "stream_state \<Rightarrow> emission" where
  "finalize_stream s =
     (if \<not> st_message_start_sent s \<or> st_message_stop_sent s then (s, [])
      else
        (case close_current_block s of (s, evs) \<Rightarrow>
           (s\<lparr>st_message_stop_sent := True\<rparr>,
            evs @ message_end (if st_has_tool_call s then ''tool_use'' else ''end_turn'') (st_usage s))))"

definition convert_event :: "stream_state \<Rightarrow> resp_event \<Rightarrow> emission" where
  "convert_event s evt =
     (if ev_type evt = ''response.created'' then handle_created evt s
      else if ev_type evt = ''response.output_item.added'' then handle_output_item_added evt s
      else if ev_type evt = ''response.output_text.delta'' then handle_text_delta evt s
      else if ev_type evt = ''response.output_text.done'' then handle_text_done evt s
      else if ev_type evt = ''response.function_call_arguments.delta''
              \<or> ev_type evt = ''response.custom_tool_call_input.delta'' then handle_func_args_delta evt s
      else if ev_type evt = ''response.function_call_arguments.done'' then handle_func_args_done evt s
      else if ev_type evt = ''response.output_item.done'' then handle_output_item_done evt s
      else if ev_type evt = ''response.reasoning_summary_text.delta''
              \<or> ev_type evt = ''response.reasoning_text.delta'' then handle_reasoning_delta evt s
      else if ev_type evt = ''response.reasoning_summary_text.done'' then (s, [])
      else if ev_type evt = ''response.completed'' \<or> ev_type evt = ''response.done''
              \<or> ev_type evt = ''response.incomplete'' \<or> ev_type evt = ''response.failed''
      then handle_completed evt s
      else (s, []))"

section \<open>The client's view of the stream\<close>

text \<open>
  The block discipline every client relies on: blocks are numbered from 0 without gaps, one is
  open at a time, each start is matched by the stop of the same number; the message starts and
  stops at most once.
\<close>

type_synonym client_view = "int \<times> bool \<times> bool \<times> bool"

definition client_step :: "client_view \<Rightarrow> anth_event \<Rightarrow> client_view option" where
  "client_step v e =
     (case v of (n, block_open, started, stopped) \<Rightarrow>
        if ae_type e = ''content_block_start'' then
          (if \<not> block_open \<and> ae_index e = Some n then Some (n, True, started, stopped) else None)
        else if ae_type e = ''content_block_stop'' then
          (if block_open \<and> ae_index e = Some n then Some (n + 1, False, started, stopped) else None)
        else if ae_type e = ''message_start'' then
          (if \<not> started then Some (n, block_open, True, stopped) else None)
        else if ae_type e = ''message_stop'' then
          (if \<not> stopped then Some (n, block_open, started, True) else None)
        else Some v)"

definition client_view :: "stream_state \<Rightarrow> client_view" where
  "client_view s = (st_content_block_index s, st_content_block_open s,
                    st_message_start_sent s, st_message_stop_sent s)"

text \<open>
  The full protocol: the message starts first; a delta goes to the open block, by its number, and
  fits the type of the block; the message delta comes when no block is open, the message stop
  right after it, and nothing follows.
\<close>

datatype protocol_view = Before | Within int "string option" | Ending | Ended

definition delta_fits :: "string \<Rightarrow> anth_delta option \<Rightarrow> bool" where
  "delta_fits block_type d \<longleftrightarrow>
     (case d of None \<Rightarrow> False
      | Some d \<Rightarrow> (block_type, ad_type d) \<in>
          {(''text'', ''text_delta''), (''tool_use'', ''input_json_delta''),
           (''thinking'', ''thinking_delta''), (''thinking'', ''signature_delta'')})"

definition protocol_step :: "protocol_view \<Rightarrow> anth_event \<Rightarrow> protocol_view option" where
  "protocol_step v e =
     (case v of
        Before \<Rightarrow> if ae_type e = ''message_start'' then Some (Within 0 None) else None
      | Within n None \<Rightarrow>
          if ae_type e = ''content_block_start'' \<and> ae_index e = Some n \<and> ae_content_block e \<noteq> None
          then Some (Within n (Some (ab_type (the (ae_content_block e)))))
          else if ae_type e = ''message_delta'' then Some Ending else None
      | Within n (Some t) \<Rightarrow>
          if ae_index e \<noteq> Some n then None
          else if ae_type e = ''content_block_delta'' \<and> delta_fits t (ae_delta e) then Some v
          else if ae_type e = ''content_block_stop'' then Some (Within (n + 1) None) else None
      | Ending \<Rightarrow> if ae_type e = ''message_stop'' then Some Ended else None
      | Ended \<Rightarrow> None)"

definition protocol_view_of :: "stream_state \<Rightarrow> protocol_view" where
  "protocol_view_of s =
     (if \<not> st_message_start_sent s then Before
      else if st_message_stop_sent s then Ended
      else Within (st_content_block_index s)
             (if st_content_block_open s then Some (st_current_block_type s) else None))"

lemmas event_defs = bare_event_def block_start_def block_delta_def block_stop_def args_delta_def

lemma client_step_events [simp]:
  "client_step (n, b, st, sp) (block_start i blk) = (if \<not> b \<and> i = n then Some (n, True, st, sp) else None)"
  "client_step (n, b, st, sp) (block_stop i) = (if b \<and> i = n then Some (n + 1, False, st, sp) else None)"
  "client_step (n, b, st, sp) (block_delta i d) = Some (n, b, st, sp)"
  "client_step (n, b, st, sp) (args_delta i j) = Some (n, b, st, sp)"
  by (simp_all add: client_step_def event_defs)

lemma client_step_message_end [simp]:
  "\<not> sp \<Longrightarrow> run_while client_step (n, b, st, sp) (message_end r u) = Some (n, b, st, True)"
  by (simp add: client_step_def message_end_def event_defs)

lemma protocol_step_events [simp]:
  "protocol_step (Within n None) (block_start i blk)
     = (if i = n then Some (Within n (Some (ab_type blk))) else None)"
  "protocol_step (Within n (Some t)) (block_stop i) = (if i = n then Some (Within (n + 1) None) else None)"
  "protocol_step (Within n (Some t)) (block_delta i d)
     = (if i = n \<and> delta_fits t (Some d) then Some (Within n (Some t)) else None)"
  by (auto simp: protocol_step_def event_defs)

lemma protocol_step_message_end [simp]:
  "run_while protocol_step (Within n None) (message_end r u) = Some Ended"
  by (simp add: protocol_step_def message_end_def event_defs)

lemma delta_fits_cases [simp]:
  "delta_fits ''text'' (Some ((new_delta ''text_delta'')\<lparr>ad_text := x\<rparr>))"
  "delta_fits ''tool_use'' (Some ((new_delta ''input_json_delta'')\<lparr>ad_partial_json := x\<rparr>))"
  "delta_fits ''thinking'' (Some ((new_delta ''thinking_delta'')\<lparr>ad_thinking := x\<rparr>))"
  "delta_fits ''thinking'' (Some ((new_delta ''signature_delta'')\<lparr>ad_signature := x\<rparr>))"
  by (simp_all add: delta_fits_def new_delta_def)

lemma new_block_type [simp]: "ab_type (new_block t) = t"
  by (simp add: new_block_def)

section \<open>The handlers keep the block discipline\<close>

text \<open>What closing the current block does to the state.\<close>

lemma close_current_block_state:
  assumes "close_current_block s = (t, evs)"
  shows "\<not> st_content_block_open t"
    and "st_content_block_index t = st_content_block_index s + (if st_content_block_open s then 1 else 0)"
    and "st_message_start_sent t = st_message_start_sent s"
    and "st_message_stop_sent t = st_message_stop_sent s"
    and "st_current_block_type t = st_current_block_type s"
    and "st_output_index_to_block_idx t = st_output_index_to_block_idx s"
    and "st_text_by_part t = st_text_by_part s"
    and "st_text_delivered t = st_text_delivered s"
    and "st_has_tool_call t = st_has_tool_call s"
    and "st_usage t = st_usage s"
  using assms by (auto simp: close_current_block_def Let_def split: if_splits)

lemma close_current_block_client:
  "close_current_block s = (t, evs) \<Longrightarrow> run_while client_step (client_view s) evs = Some (client_view t)"
  by (auto simp: close_current_block_def client_view_def Let_def split: if_splits)

lemma close_current_block_protocol:
  "close_current_block s = (t, evs) \<Longrightarrow> st_message_start_sent s \<Longrightarrow> \<not> st_message_stop_sent s \<Longrightarrow>
     run_while protocol_step (protocol_view_of s) evs = Some (Within (st_content_block_index t) None)"
  by (auto simp: close_current_block_def protocol_view_of_def Let_def split: if_splits)

text \<open>The client's verdict on a step of the converter.\<close>

definition client_ok :: "stream_state \<Rightarrow> emission \<Rightarrow> bool" where
  "client_ok s em \<longleftrightarrow> run_while client_step (client_view s) (snd em) = Some (client_view (fst em))"

lemma client_ok_nil [simp]: "client_ok s (t, []) \<longleftrightarrow> client_view t = client_view s"
  by (auto simp: client_ok_def)

lemma client_ok_seq:
  "client_ok s (t, evs) \<Longrightarrow> client_ok t (u, evs') \<Longrightarrow> client_ok s (u, evs @ evs')"
  by (simp add: client_ok_def run_while_append)

lemma client_ok_close: "client_ok s (close_current_block s)"
  by (cases "close_current_block s") (simp add: client_ok_def close_current_block_client)

lemma client_ok_close_then:
  "close_current_block s = (t, evs) \<Longrightarrow> client_ok t (u, evs') \<Longrightarrow> client_ok s (u, evs @ evs')"
  using client_ok_close [of s] client_ok_seq by metis

lemma client_ok_ensure: "client_ok s (ensure_text_block s)"
  using client_ok_close [of s]
  by (cases "close_current_block s")
     (auto simp: ensure_text_block_def client_ok_def client_view_def run_while_append
        close_current_block_state)

lemma client_ok_emit_text: "client_ok s (emit_text text part s)"
  using client_ok_ensure [of s]
  by (cases "ensure_text_block s")
     (auto simp: emit_text_def client_ok_def client_view_def run_while_append Let_def)

lemma client_ok_recover_text: "client_ok s (recover_text text part s)"
  by (simp add: recover_text_def client_ok_emit_text Let_def)

lemma client_ok_block_done: "client_ok s (handle_block_done s)"
  by (simp add: handle_block_done_def client_ok_close)

lemma client_ok_created: "client_ok s (handle_created evt s)"
  by (auto simp: handle_created_def client_ok_def client_view_def client_step_def event_defs Let_def
      split: option.splits)

lemma client_ok_item_added: "client_ok s (handle_output_item_added evt s)"
  using client_ok_close [of s]
  by (cases "close_current_block s")
     (auto simp: handle_output_item_added_def client_ok_def client_view_def run_while_append Let_def
        close_current_block_state split: option.splits)

lemma client_ok_case:
  "client_ok s em \<Longrightarrow> (\<And>t. client_ok t (next t)) \<Longrightarrow>
     client_ok s (case em of (t, evs) \<Rightarrow> case next t of (u, evs') \<Rightarrow> (u, evs @ evs'))"
  by (auto intro: client_ok_seq split: prod.splits simp: case_prod_beta client_ok_def run_while_append)

lemma client_ok_text_done: "client_ok s (handle_text_done evt s)"
  by (simp add: handle_text_done_def client_ok_case client_ok_recover_text client_ok_block_done)

lemma client_ok_args_delta: "client_ok s (handle_func_args_delta evt s)"
  by (auto simp: handle_func_args_delta_def client_ok_def client_view_def Let_def split: option.splits)

lemma client_ok_args_done: "client_ok s (handle_func_args_done evt s)"
  using client_ok_close [of s] client_ok_block_done [of s]
  by (cases "close_current_block s")
     (auto simp: handle_func_args_done_def client_ok_def client_view_def Let_def split: option.splits)

lemma client_ok_reasoning_delta: "client_ok s (handle_reasoning_delta evt s)"
  by (auto simp: handle_reasoning_delta_def client_ok_def client_view_def split: option.splits)


lemma client_ok_web_search: "client_ok s (handle_web_search_done item s)"
  using client_ok_close [of s]
  by (cases "close_current_block s")
     (auto simp: handle_web_search_done_def client_ok_def client_view_def run_while_append Let_def
        close_current_block_state)

lemma client_ok_item_done: "client_ok s (handle_output_item_done evt s)"
proof -
  have "client_ok s (close_current_block (s\<lparr>st_pending_thinking_signature := x\<rparr>))" for x
    using client_ok_close [of "s\<lparr>st_pending_thinking_signature := x\<rparr>"]
    by (simp add: client_ok_def client_view_def)
  then show ?thesis
    by (auto simp: handle_output_item_done_def client_ok_web_search client_ok_close Let_def
        client_view_def split: option.splits)
qed

lemma client_ok_emit_texts: "client_ok s (emit_texts ps s)"
  by (induction ps arbitrary: s) (auto intro!: client_ok_case client_ok_emit_text)

lemma client_ok_terminal_text: "client_ok s (recover_terminal_text evt s)"
proof -
  have "client_ok s (case emit_texts ps s of (s, evs) \<Rightarrow>
             if evs \<noteq> [] then (case close_current_block s of (s, evs') \<Rightarrow> (s, evs @ evs'))
             else (s, evs))" for ps
  proof -
    obtain t evs where t: "emit_texts ps s = (t, evs)" by fastforce
    obtain u evs' where u: "close_current_block t = (u, evs')" by fastforce
    from client_ok_emit_texts [of s ps] client_ok_close [of t] t u
    have "client_ok s (t, evs)" "client_ok s (u, evs @ evs')" by (auto intro: client_ok_seq)
    with t u show ?thesis by auto
  qed
  then show ?thesis by (simp add: recover_terminal_text_def split: option.splits)
qed

text \<open>Delivering text touches neither of the message flags.\<close>

definition same_message :: "stream_state \<Rightarrow> stream_state \<Rightarrow> bool" where
  "same_message s t \<longleftrightarrow> st_message_start_sent t = st_message_start_sent s \<and>
     st_message_stop_sent t = st_message_stop_sent s \<and> st_has_tool_call t = st_has_tool_call s \<and>
     st_usage t = st_usage s"

lemma same_message_refl [simp]: "same_message s s"
  by (simp add: same_message_def)

lemma same_message_trans [trans]: "same_message s t \<Longrightarrow> same_message t u \<Longrightarrow> same_message s u"
  by (simp add: same_message_def)

lemma close_same_message: "close_current_block s = (t, evs) \<Longrightarrow> same_message s t"
  by (simp add: same_message_def close_current_block_state)

lemma ensure_same_message: "ensure_text_block s = (t, evs) \<Longrightarrow> same_message s t"
  using close_same_message [of s]
  by (cases "close_current_block s") (auto simp: ensure_text_block_def same_message_def split: if_splits)

lemma emit_text_same_message: "emit_text text part s = (t, evs) \<Longrightarrow> same_message s t"
  using ensure_same_message [of s]
  by (cases "ensure_text_block s") (auto simp: emit_text_def same_message_def Let_def split: if_splits)

lemma emit_texts_same_message: "emit_texts ps s = (t, evs) \<Longrightarrow> same_message s t"
proof (induction ps arbitrary: s t evs)
  case (Cons p ps)
  obtain a q where p: "p = (a, q)" by (cases p)
  obtain u evs1 where u: "emit_text a q s = (u, evs1)" by fastforce
  obtain v evs2 where v: "emit_texts ps u = (v, evs2)" by fastforce
  from Cons.prems p u v have "t = v" by simp
  with Cons.IH [OF v] emit_text_same_message [OF u] show ?case by (auto intro: same_message_trans)
qed simp

lemma terminal_text_same_message:
  assumes "recover_terminal_text evt s = (t, evs)"
  shows "same_message s t"
proof -
  obtain u evs1 where u: "emit_texts (terminal_parts 0 (rr_output (the (ev_response evt)))) s = (u, evs1)"
    by fastforce
  obtain v evs2 where v: "close_current_block u = (v, evs2)" by fastforce
  have "t = s \<or> t = u \<or> t = v"
    using assms u v by (auto simp: recover_terminal_text_def split: if_splits option.splits)
  with emit_texts_same_message [OF u] close_same_message [OF v] show ?thesis
    by (auto intro: same_message_trans)
qed

lemma client_ok_message_end:
  "\<not> st_message_stop_sent s \<Longrightarrow>
     client_ok s (s\<lparr>st_usage := u, st_message_stop_sent := True\<rparr>, message_end r u')"
  by (simp add: client_ok_def client_view_def)

lemma client_ok_completed: "client_ok s (handle_completed evt s)"
proof (cases "st_message_stop_sent s")
  case True
  then show ?thesis by (simp add: handle_completed_def)
next
  case False
  obtain t evs1 where t: "close_current_block s = (t, evs1)" by fastforce
  obtain u evs2 where u: "recover_terminal_text evt t = (u, evs2)" by fastforce
  have "client_ok s (t, evs1)" "client_ok t (u, evs2)"
    using t u client_ok_close [of s] client_ok_terminal_text [of t evt] by auto
  moreover have "\<not> st_message_stop_sent u"
    using False close_same_message [OF t] terminal_text_same_message [OF u]
    by (simp add: same_message_def)
  ultimately show ?thesis using False t u
    by (auto simp: handle_completed_def Let_def intro!: client_ok_seq client_ok_message_end)
qed

lemma client_ok_finalize: "client_ok s (finalize_stream s)"
proof -
  obtain t evs1 where t: "close_current_block s = (t, evs1)" by fastforce
  have "client_ok s (t, evs1)" using t client_ok_close [of s] by auto
  moreover have "client_ok t (t\<lparr>st_message_stop_sent := True\<rparr>, message_end r u')"
    if "\<not> st_message_stop_sent s" for r u'
    using that close_same_message [OF t] by (simp add: client_ok_def client_view_def same_message_def)
  ultimately show ?thesis using t
    by (auto simp: finalize_stream_def intro: client_ok_seq)
qed

lemmas client_ok_handlers =
  client_ok_created client_ok_item_added client_ok_emit_text client_ok_text_done
  client_ok_args_delta client_ok_args_done client_ok_item_done client_ok_reasoning_delta
  client_ok_completed

lemma client_ok_convert: "client_ok s (convert_event s evt)"
  by (simp add: convert_event_def client_ok_handlers handle_text_delta_def)

interpretation any_stream: observed_machine "\<lambda>_ _. True" convert_event "\<lambda>_. True" client_view client_step
proof unfold_locales
  fix s evt t out
  assume "convert_event s evt = (t, out)"
  then show "run_while client_step (client_view s) out = Some (client_view t)"
    using client_ok_convert [of s evt] by (simp add: client_ok_def)
qed simp

text \<open>
  C36: Whatever events the upstream sends, in whatever order, the blocks the client receives are
  numbered from 0 without gaps, one is open at a time, so that every start but the last is followed by its own stop before the
  next start, and the message starts and stops at most once; finalising the stream afterwards keeps this. A message that was
  started and not yet ended is finalised with no block open. Otherwise finalising does nothing, so a block started
  before the message or after its end may stay open.
\<close>

theorem stream_block_discipline:
  "(case run_emit convert_event (new_stream_state now) evts of (s, outs) \<Rightarrow>
     case finalize_stream s of (t, outs') \<Rightarrow>
       run_while client_step (0, False, False, False) (outs @ outs') = Some (client_view t) \<and>
       (if st_message_start_sent s \<and> \<not> st_message_stop_sent s then client_view t = (st_content_block_index t, False, True, True)
        else (t, outs') = (s, [])))"
proof -
  obtain s outs where s: "run_emit convert_event (new_stream_state now) evts = (s, outs)" by fastforce
  obtain t outs' where t: "finalize_stream s = (t, outs')" by fastforce
  have "run_while client_step (client_view (new_stream_state now)) outs = Some (client_view s)"
    using any_stream.run_observed [OF _ _ s] by simp
  moreover have "client_view (new_stream_state now) = (0, False, False, False)"
    by (simp add: client_view_def new_stream_state_def)
  moreover have "run_while client_step (client_view s) outs' = Some (client_view t)"
    using client_ok_finalize [of s] t by (simp add: client_ok_def)
  moreover have "if st_message_start_sent s \<and> \<not> st_message_stop_sent s
      then client_view t = (st_content_block_index t, False, True, True) else (t, outs') = (s, [])"
  proof -
    obtain u evs1 where u: "close_current_block s = (u, evs1)" by fastforce
    have "st_message_start_sent u = st_message_start_sent s" "\<not> st_content_block_open u"
      using close_current_block_state [OF u] by blast+
    with t u show ?thesis by (auto simp: finalize_stream_def client_view_def)
  qed
  ultimately show ?thesis using s t by (simp add: run_while_append)
qed

section \<open>The protocol for an ordered upstream\<close>

text \<open>
  What an upstream that follows the Responses protocol sends: the response is created first, the
  deltas of a tool call or of a reasoning item come while that item is the last one opened, and
  nothing but a repeated terminal event follows the terminal event. The state is the item whose
  deltas may come: \<open>(True, i)\<close> for the tool call and \<open>(False, i)\<close> for the reasoning item of output
  index \<open>i\<close>.
\<close>

datatype upstream = UpBefore | UpWithin "(bool \<times> int) option" | UpEnded

definition is_terminal_event :: "string \<Rightarrow> bool" where
  "is_terminal_event t \<longleftrightarrow>
     t \<in> {''response.completed'', ''response.done'', ''response.incomplete'', ''response.failed''}"

definition up_within :: "(bool \<times> int) option \<Rightarrow> resp_event \<Rightarrow> upstream option" where
  "up_within cur e =
     (let t = ev_type e; stay = Some (UpWithin cur); closed = Some (UpWithin None) in
      if t = ''response.output_item.added'' then
        (case ev_item e of None \<Rightarrow> stay
         | Some item \<Rightarrow>
             if ro_type item = ''function_call'' \<or> ro_type item = ''custom_tool_call''
             then Some (UpWithin (Some (True, ev_output_index e)))
             else if ro_type item = ''reasoning'' then Some (UpWithin (Some (False, ev_output_index e)))
             else stay)
      else if t = ''response.output_text.delta'' then (if ev_delta e = [] then stay else closed)
      else if t = ''response.output_text.done'' then closed
      else if t = ''response.function_call_arguments.delta''
              \<or> t = ''response.custom_tool_call_input.delta'' then
        (if ev_delta e = [] \<or> cur = Some (True, ev_output_index e) then stay else None)
      else if t = ''response.function_call_arguments.done'' then
        (case cur of Some (True, i) \<Rightarrow> if i = ev_output_index e then closed else None
         | _ \<Rightarrow> closed)
      else if t = ''response.output_item.done'' then (if ev_item e = None then stay else closed)
      else if t = ''response.reasoning_summary_text.delta'' \<or> t = ''response.reasoning_text.delta'' then
        (if ev_delta e = [] \<or> cur = Some (False, ev_output_index e) then stay else None)
      else if is_terminal_event t then Some UpEnded
      else stay)"

definition up_step :: "upstream \<Rightarrow> resp_event \<Rightarrow> upstream option" where
  "up_step u e =
     (case u of
        UpBefore \<Rightarrow> if ev_type e = ''response.created'' then Some (UpWithin None) else None
      | UpWithin cur \<Rightarrow> up_within cur e
      | UpEnded \<Rightarrow> if is_terminal_event (ev_type e) then Some UpEnded else None)"

definition live :: "stream_state \<Rightarrow> bool" where
  "live s \<longleftrightarrow> st_message_start_sent s \<and> \<not> st_message_stop_sent s"

definition holds_item :: "(bool \<times> int) option \<Rightarrow> stream_state \<Rightarrow> bool" where
  "holds_item cur s \<longleftrightarrow>
     (case cur of
        None \<Rightarrow> st_content_block_open s \<longrightarrow> st_current_block_type s = ''text''
      | Some (tool, i) \<Rightarrow>
          st_content_block_open s \<and>
          st_current_block_type s = (if tool then ''tool_use'' else ''thinking'') \<and>
          st_output_index_to_block_idx s i = Some (st_content_block_index s))"

definition up_related :: "upstream \<Rightarrow> stream_state \<Rightarrow> bool" where
  "up_related u s \<longleftrightarrow>
     (case u of
        UpBefore \<Rightarrow> \<not> st_message_start_sent s \<and> \<not> st_message_stop_sent s \<and>
          \<not> st_content_block_open s \<and> st_content_block_index s = 0
      | UpWithin cur \<Rightarrow> live s \<and> holds_item cur s
      | UpEnded \<Rightarrow> st_message_start_sent s \<and> st_message_stop_sent s)"

definition protocol_ok :: "stream_state \<Rightarrow> emission \<Rightarrow> bool" where
  "protocol_ok s em \<longleftrightarrow>
     run_while protocol_step (protocol_view_of s) (snd em) = Some (protocol_view_of (fst em))"

lemma protocol_ok_seq:
  "protocol_ok s (t, evs) \<Longrightarrow> protocol_ok t (u, evs') \<Longrightarrow> protocol_ok s (u, evs @ evs')"
  by (simp add: protocol_ok_def run_while_append)

lemma live_same_message: "same_message s t \<Longrightarrow> live t \<longleftrightarrow> live s"
  by (simp add: live_def same_message_def)

lemma live_close: "close_current_block s = (t, evs) \<Longrightarrow> live t \<longleftrightarrow> live s"
  using live_same_message close_same_message by blast

lemma view_of_live: "live s \<Longrightarrow> protocol_view_of s = Within (st_content_block_index s)
    (if st_content_block_open s then Some (st_current_block_type s) else None)"
  by (simp add: protocol_view_of_def live_def)

lemma protocol_ok_close:
  assumes "live s"
  shows "protocol_ok s (close_current_block s)"
proof -
  obtain t evs where t: "close_current_block s = (t, evs)" by fastforce
  have "live t" "\<not> st_content_block_open t"
    using assms t live_close close_current_block_state(1) by auto
  with close_current_block_protocol [OF t] assms show ?thesis
    by (simp add: protocol_ok_def t view_of_live) (auto simp: live_def)
qed

text \<open>After a close a block may be opened: the shape shared by the handlers that start a block.\<close>

lemma protocol_ok_close_open:
  assumes "close_current_block s = (t, evs)" and "live s"
    and "st_content_block_open u" and "st_current_block_type u = ab_type b"
    and "st_content_block_index u = st_content_block_index t"
    and "st_message_start_sent u = st_message_start_sent t"
    and "st_message_stop_sent u = st_message_stop_sent t"
  shows "protocol_ok s (u, evs @ [block_start (st_content_block_index t) b])"
proof -
  have t: "live t" "\<not> st_content_block_open t"
    using assms(1,2) live_close close_current_block_state(1) by auto
  then have u: "live u" using assms(6,7) by (simp add: live_def)
  have "run_while protocol_step (protocol_view_of s) evs = Some (protocol_view_of t)"
    using protocol_ok_close [OF assms(2)] assms(1) by (simp add: protocol_ok_def)
  then show ?thesis
    using t u assms(3-5) by (simp add: protocol_ok_def run_while_append view_of_live)
qed

lemma ensure_text_block_open:
  assumes "ensure_text_block s = (t, evs)"
  shows "st_content_block_open t" and "st_current_block_type t = ''text''"
  using assms by (auto simp: ensure_text_block_def split: if_splits prod.splits)

lemma protocol_ok_ensure:
  assumes "live s"
  shows "protocol_ok s (ensure_text_block s)"
proof -
  obtain t evs where t: "close_current_block s = (t, evs)" by fastforce
  have "protocol_ok s (t\<lparr>st_content_block_open := True, st_current_block_type := ''text''\<rparr>,
      evs @ [block_start (st_content_block_index t) (new_block ''text'')])"
    by (rule protocol_ok_close_open [OF t assms]) simp_all
  with t show ?thesis by (simp add: ensure_text_block_def protocol_ok_def)
qed

lemma emit_text_result:
  assumes "emit_text a q s = (t, evs)" and "live s"
  shows "live t" and "a \<noteq> [] \<Longrightarrow> st_content_block_open t \<and> st_current_block_type t = ''text''"
    and "protocol_ok s (t, evs)"
proof -
  obtain u evs1 where u: "ensure_text_block s = (u, evs1)" by fastforce
  note u' = ensure_text_block_open [OF u]
  have "live u" using ensure_same_message [OF u] assms(2) live_same_message by blast
  show "live t" using emit_text_same_message [OF assms(1)] assms(2) live_same_message by blast
  show "a \<noteq> [] \<Longrightarrow> st_content_block_open t \<and> st_current_block_type t = ''text''"
    using assms(1) u u' by (auto simp: emit_text_def Let_def)
  show "protocol_ok s (t, evs)"
  proof (cases "a = []")
    case True
    with assms show ?thesis by (simp add: emit_text_def protocol_ok_def)
  next
    case False
    have "run_while protocol_step (protocol_view_of s) evs1 = Some (protocol_view_of u)"
      using protocol_ok_ensure [OF assms(2)] u by (simp add: protocol_ok_def)
    with assms(1) False u u' \<open>live u\<close> \<open>live t\<close> show ?thesis
      by (auto simp: emit_text_def Let_def protocol_ok_def run_while_append view_of_live)
  qed
qed

lemma holds_text: "st_current_block_type s = ''text'' \<Longrightarrow> holds_item None s"
  by (simp add: holds_item_def)

lemma holds_closed: "\<not> st_content_block_open s \<Longrightarrow> holds_item None s"
  by (simp add: holds_item_def)

text \<open>Each handler, from a live state: it keeps the protocol and stays live, and holds the item the
  upstream automaton says.\<close>

definition serves :: "stream_state \<Rightarrow> emission \<Rightarrow> (bool \<times> int) option \<Rightarrow> bool" where
  "serves s em cur \<longleftrightarrow> protocol_ok s em \<and> live (fst em) \<and> holds_item cur (fst em)"

lemma serves_stay: "live s \<Longrightarrow> holds_item cur s \<Longrightarrow> serves s (s, []) cur"
  by (simp add: serves_def protocol_ok_def)

lemma serves_close: "live s \<Longrightarrow> serves s (close_current_block s) None"
  using protocol_ok_close [of s] live_close [of s] close_current_block_state(1) [of s]
  by (cases "close_current_block s") (simp add: serves_def holds_closed)

lemma serves_block_done: "live s \<Longrightarrow> serves s (handle_block_done s) None"
  by (simp add: handle_block_done_def serves_close serves_stay holds_closed)

lemma serves_text_delta:
  assumes "live s" and "holds_item cur s"
  shows "serves s (handle_text_delta evt s) (if ev_delta evt = [] then cur else None)"
proof -
  obtain t evs where t: "handle_text_delta evt s = (t, evs)" by fastforce
  with emit_text_result [OF t [unfolded handle_text_delta_def] assms(1)] assms show ?thesis
    by (auto simp: serves_def holds_text) (simp add: emit_text_def handle_text_delta_def)
qed

lemma recover_text_result:
  assumes "recover_text a q s = (t, evs)" and "live s"
  shows "live t" and "protocol_ok s (t, evs)"
  using assms emit_text_result
  by (auto simp: recover_text_def Let_def protocol_ok_def split: if_splits)

lemma serves_text_done:
  assumes "live s"
  shows "serves s (handle_text_done evt s) None"
proof -
  obtain t evs where t: "recover_text (ev_text evt) (text_part_of evt) s = (t, evs)" by fastforce
  obtain u evs' where u: "handle_block_done t = (u, evs')" by fastforce
  note rec = recover_text_result [OF t assms]
  from serves_block_done [OF rec(1)] rec(2) t u assms show ?thesis
    by (auto simp: serves_def handle_text_done_def live_def intro: protocol_ok_seq)
qed

lemma serves_tool_added:
  assumes "live s" and "ev_item evt = Some item"
    and "ro_type item = ''function_call'' \<or> ro_type item = ''custom_tool_call''"
  shows "serves s (handle_output_item_added evt s) (Some (True, ev_output_index evt))"
proof -
  obtain t evs where t: "close_current_block s = (t, evs)" by fastforce
  have "live t" using live_close [OF t] assms(1) by simp
  with assms t show ?thesis
    by (simp add: handle_output_item_added_def serves_def holds_item_def Let_def live_def)
      (auto intro!: protocol_ok_close_open [OF t] simp: live_def)
qed

lemma serves_reasoning_added:
  assumes "live s" and "ev_item evt = Some item" and "ro_type item = ''reasoning''"
  shows "serves s (handle_output_item_added evt s) (Some (False, ev_output_index evt))"
proof -
  obtain t evs where t: "close_current_block s = (t, evs)" by fastforce
  have "live t" using live_close [OF t] assms(1) by simp
  with assms t show ?thesis
    by (simp add: handle_output_item_added_def serves_def holds_item_def Let_def live_def)
      (auto intro!: protocol_ok_close_open [OF t] simp: live_def)
qed

text \<open>The delta of an item the stream does not hold.\<close>

lemma protocol_ok_delta:
  assumes "live s" and "live t" and "st_content_block_open s"
    and "st_content_block_open t" and "st_current_block_type t = st_current_block_type s"
    and "st_content_block_index t = st_content_block_index s"
    and "delta_fits (st_current_block_type s) (Some d)"
  shows "protocol_ok s (t, [block_delta (st_content_block_index s) d])"
  using assms by (simp add: protocol_ok_def view_of_live)

lemma serves_args_delta:
  assumes "live s" and "holds_item cur s"
    and "ev_delta evt = [] \<or> cur = Some (True, ev_output_index evt)"
  shows "serves s (handle_func_args_delta evt s) cur"
proof (cases "ev_delta evt = []")
  case True
  with assms show ?thesis by (simp add: handle_func_args_delta_def serves_stay)
next
  case False
  with assms show ?thesis
    by (auto simp: handle_func_args_delta_def Let_def holds_item_def serves_def args_delta_def live_def
        protocol_ok_def protocol_view_of_def)
qed

lemma serves_reasoning_delta:
  assumes "live s" and "holds_item cur s"
    and "ev_delta evt = [] \<or> cur = Some (False, ev_output_index evt)"
  shows "serves s (handle_reasoning_delta evt s) cur"
proof (cases "ev_delta evt = []")
  case True
  with assms show ?thesis by (simp add: handle_reasoning_delta_def serves_stay)
next
  case False
  with assms show ?thesis
    by (auto simp: handle_reasoning_delta_def holds_item_def serves_def live_def
        protocol_ok_def protocol_view_of_def)
qed

lemma serves_delta_close:
  assumes "live s" and "st_content_block_open s"
    and "delta_fits (st_current_block_type s) (Some d)"
    and "close_current_block s = (t, evs)"
  shows "serves s (t, block_delta (st_content_block_index s) d # evs) None"
proof -
  have "protocol_ok s (s, [block_delta (st_content_block_index s) d])"
    using assms by (intro protocol_ok_delta) auto
  from protocol_ok_seq [OF this, of t evs] serves_close [OF assms(1)] assms(4) show ?thesis
    by (simp add: serves_def)
qed

lemma serves_args_done:
  assumes "live s" and "holds_item cur s"
    and "\<And>i. cur = Some (True, i) \<Longrightarrow> i = ev_output_index evt"
  shows "serves s (handle_func_args_done evt s) None"
proof (cases "cur = Some (True, ev_output_index evt)")
  case False
  then have "\<not> st_content_block_open s \<or> st_current_block_type s \<noteq> ''tool_use''"
    using assms(2,3) by (auto simp: holds_item_def split: option.splits prod.splits if_splits)
  with assms(1) show ?thesis
    by (auto simp: handle_func_args_done_def serves_block_done serves_stay holds_closed)
next
  case True
  obtain t evs where t: "close_current_block s = (t, evs)" by fastforce
  have "serves s (t, args_delta (st_content_block_index s) d # evs) None" for d
    using True assms(1,2) t unfolding args_delta_def by (intro serves_delta_close) (auto simp: holds_item_def)
  with True assms(1,2) t serves_close [of s] show ?thesis
    by (auto simp: handle_func_args_done_def Let_def holds_item_def)
qed

lemma serves_web_search:
  assumes "live s"
  shows "serves s (handle_web_search_done item s) None"
proof -
  obtain t evs where t: "close_current_block s = (t, evs)" by fastforce
  have t': "live t" "\<not> st_content_block_open t"
    using live_close [OF t] close_current_block_state(1) [OF t] assms by auto
  have "run_while protocol_step (protocol_view_of s) evs = Some (protocol_view_of t)"
    using protocol_ok_close [OF assms] t by (simp add: protocol_ok_def)
  with t t' show ?thesis
    by (simp add: handle_web_search_done_def serves_def protocol_ok_def run_while_append view_of_live
        holds_item_def Let_def) (simp add: protocol_view_of_def live_def)
qed

lemma view_of_signature [simp]:
  "protocol_view_of (s\<lparr>st_pending_thinking_signature := x\<rparr>) = protocol_view_of s"
  "live (s\<lparr>st_pending_thinking_signature := x\<rparr>) = live s"
  by (auto simp: protocol_view_of_def live_def)

lemma serves_item_done:
  assumes "live s" and "holds_item cur s"
  shows "serves s (handle_output_item_done evt s) (if ev_item evt = None then cur else None)"
proof -
  have sig: "serves s (close_current_block (s\<lparr>st_pending_thinking_signature := x\<rparr>)) None" for x
    using serves_close [of "s\<lparr>st_pending_thinking_signature := x\<rparr>"] assms(1)
    by (simp add: serves_def protocol_ok_def)
  have "serves s (s\<lparr>st_pending_thinking_signature := x\<rparr>, []) None" if "\<not> st_content_block_open s" for x
    using that assms(1) by (simp add: serves_def protocol_ok_def holds_item_def)
  with sig assms show ?thesis
    by (auto simp: handle_output_item_done_def Let_def serves_web_search serves_close serves_stay
        holds_closed split: option.splits)
qed

lemma emit_texts_result:
  "emit_texts ps s = (t, evs) \<Longrightarrow> live s \<Longrightarrow> protocol_ok s (t, evs)"
proof (induction ps arbitrary: s t evs)
  case Nil
  then show ?case by (simp add: protocol_ok_def)
next
  case (Cons p ps)
  obtain a q where p: "p = (a, q)" by (cases p)
  obtain u evs1 where u: "emit_text a q s = (u, evs1)" by fastforce
  obtain v evs2 where v: "emit_texts ps u = (v, evs2)" by fastforce
  have "protocol_ok u (v, evs2)" using Cons.IH [OF v] emit_text_result(1) [OF u Cons.prems(2)] .
  with emit_text_result(3) [OF u Cons.prems(2)] Cons.prems(1) p u v show ?case
    by (auto intro: protocol_ok_seq)
qed

lemma emit_texts_quiet: "emit_texts ps s = (t, []) \<Longrightarrow> t = s"
proof (induction ps arbitrary: s t)
  case (Cons p ps)
  obtain a q where p: "p = (a, q)" by (cases p)
  obtain u evs1 where u: "emit_text a q s = (u, evs1)" by fastforce
  obtain v evs2 where v: "emit_texts ps u = (v, evs2)" by fastforce
  from Cons.prems p u v have "evs1 = []" "evs2 = []" "t = v" by auto
  with u have "u = s" by (auto simp: emit_text_def Let_def split: if_splits prod.splits)
  with Cons.IH v \<open>evs2 = []\<close> \<open>t = v\<close> show ?case by simp
qed simp

lemma terminal_text_result:
  assumes "recover_terminal_text evt s = (t, evs)" and "live s" and "\<not> st_content_block_open s"
  shows "protocol_ok s (t, evs)" and "live t" and "\<not> st_content_block_open t"
proof -
  let ?ps = "terminal_parts 0 (rr_output (the (ev_response evt)))"
  obtain u evs1 where u: "emit_texts ?ps s = (u, evs1)" by fastforce
  obtain v evs2 where v: "close_current_block u = (v, evs2)" by fastforce
  have u': "protocol_ok s (u, evs1)" "live u"
    using emit_texts_result [OF u assms(2)] emit_texts_same_message [OF u] live_same_message assms(2)
    by blast+
  have v': "protocol_ok s (v, evs1 @ evs2)" "live v" "\<not> st_content_block_open v"
    using protocol_ok_close [OF u'(2)] v protocol_ok_seq [OF u'(1)] live_close [OF v] u'(2)
      close_current_block_state(1) [OF v] by auto
  have quiet: "u = s" if "evs1 = []" using emit_texts_quiet u that by blast
  have "(t, evs) = (s, []) \<or> (t, evs) = (v, evs1 @ evs2)"
    using assms(1) u v quiet by (auto simp: recover_terminal_text_def split: if_splits option.splits)
  with v' assms(2,3) show "protocol_ok s (t, evs)" and "live t" and "\<not> st_content_block_open t"
    by (auto simp: protocol_ok_def)
qed

lemma completed_result:
  assumes "handle_completed evt s = (t, evs)" and "live s"
  shows "protocol_ok s (t, evs)" and "up_related UpEnded t"
proof -
  obtain u evs1 where u: "close_current_block s = (u, evs1)" by fastforce
  obtain v evs2 where v: "recover_terminal_text evt u = (v, evs2)" by fastforce
  have "live u" "\<not> st_content_block_open u"
    using live_close [OF u] close_current_block_state(1) [OF u] assms(2) by auto
  note v' = terminal_text_result [OF v this]
  have "protocol_ok s (v, evs1 @ evs2)"
    using protocol_ok_close [OF assms(2)] u v'(1) by (auto intro: protocol_ok_seq)
  moreover have "\<not> st_message_stop_sent s" using assms(2) by (simp add: live_def)
  then have "t = v\<lparr>st_usage := completed_usage evt v, st_message_stop_sent := True\<rparr>"
    and "\<exists>r x. evs = (evs1 @ evs2) @ message_end r x"
    using assms(1) u v by (auto simp: handle_completed_def Let_def)
  moreover have "live v" "\<not> st_content_block_open v" by fact+
  ultimately show "protocol_ok s (t, evs)" and "up_related UpEnded t"
    by (auto simp: protocol_ok_def run_while_append [of _ _ "evs1 @ evs2"] view_of_live up_related_def
        live_def simp del: append_assoc) (simp_all add: protocol_view_of_def)
qed

lemma created_result:
  assumes "handle_created evt s = (t, evs)" and "up_related UpBefore s"
  shows "protocol_ok s (t, evs)" and "up_related (UpWithin None) t"
  using assms
  by (auto simp: handle_created_def up_related_def Let_def protocol_ok_def protocol_view_of_def
      protocol_step_def live_def holds_item_def event_defs split: option.splits)

lemmas serves_handlers =
  serves_tool_added serves_reasoning_added serves_text_delta serves_text_done serves_args_delta
  serves_args_done serves_item_done serves_reasoning_delta

lemma serves_created: "live s \<Longrightarrow> holds_item cur s \<Longrightarrow> serves s (handle_created evt s) cur"
  by (auto simp: handle_created_def live_def holds_item_def serves_def protocol_ok_def
      protocol_view_of_def Let_def split: option.splits)

lemma serves_within:
  assumes "live s" and "holds_item cur s" and "up_within cur evt = Some (UpWithin cur')"
  shows "serves s (convert_event s evt) cur'"
proof -
  have quiet: "handle_output_item_added evt s = (s, [])"
    if "ev_item evt = None \<or> (\<exists>item. ev_item evt = Some item \<and> ro_type item \<noteq> ''function_call'' \<and>
          ro_type item \<noteq> ''custom_tool_call'' \<and> ro_type item \<noteq> ''reasoning'')"
    using that by (auto simp: handle_output_item_added_def)
  consider "ev_type evt = ''response.output_item.added''" | "ev_type evt = ''response.output_text.delta''"
    | "ev_type evt = ''response.output_text.done''"
    | "ev_type evt \<in> {''response.function_call_arguments.delta'', ''response.custom_tool_call_input.delta''}"
    | "ev_type evt = ''response.function_call_arguments.done''"
    | "ev_type evt = ''response.output_item.done''"
    | "ev_type evt \<in> {''response.reasoning_summary_text.delta'', ''response.reasoning_text.delta''}"
    | "ev_type evt = ''response.created''" | "is_terminal_event (ev_type evt)"
    | "ev_type evt \<noteq> ''response.created''" "ev_type evt \<noteq> ''response.output_item.added''"
      "ev_type evt \<noteq> ''response.output_text.delta''" "ev_type evt \<noteq> ''response.output_text.done''"
      "ev_type evt \<notin> {''response.function_call_arguments.delta'', ''response.custom_tool_call_input.delta''}"
      "ev_type evt \<noteq> ''response.function_call_arguments.done''"
      "ev_type evt \<noteq> ''response.output_item.done''"
      "ev_type evt \<notin> {''response.reasoning_summary_text.delta'', ''response.reasoning_text.delta''}"
      "\<not> is_terminal_event (ev_type evt)"
    by argo
  then show ?thesis
  proof cases
    case 1
    show ?thesis
    proof (cases "\<exists>item. ev_item evt = Some item \<and> (ro_type item = ''function_call'' \<or>
          ro_type item = ''custom_tool_call'' \<or> ro_type item = ''reasoning'')")
      case True
      with 1 assms(1,3) show ?thesis
        by (auto simp: convert_event_def up_within_def split: if_splits
            intro: serves_tool_added serves_reasoning_added)
    next
      case False
      with 1 assms(3) have "cur' = cur" "convert_event s evt = (s, [])"
        by (cases "ev_item evt"; simp add: convert_event_def up_within_def quiet)+
      with assms(1,2) show ?thesis by (simp add: serves_stay)
    qed
  next
    case 2
    with assms serves_text_delta [OF assms(1,2), of evt] show ?thesis
      by (auto simp: convert_event_def up_within_def split: if_splits)
  next
    case 3
    with assms serves_text_done [OF assms(1), of evt] show ?thesis
      by (auto simp: convert_event_def up_within_def)
  next
    case 4
    with assms serves_args_delta [OF assms(1,2), of evt] show ?thesis
      by (auto simp: convert_event_def up_within_def split: if_splits)
  next
    case 5
    with assms(3) have "cur' = None" "\<And>i. cur = Some (True, i) \<Longrightarrow> i = ev_output_index evt"
      by (auto simp: up_within_def Let_def split: option.splits if_splits bool.splits)
    with 5 serves_args_done [OF assms(1,2), of evt] show ?thesis by (simp add: convert_event_def)
  next
    case 6
    with assms serves_item_done [OF assms(1,2), of evt] show ?thesis
      by (auto simp: convert_event_def up_within_def split: if_splits)
  next
    case 7
    with assms serves_reasoning_delta [OF assms(1,2), of evt] show ?thesis
      by (auto simp: convert_event_def up_within_def split: if_splits)
  next
    case 8
    with assms serves_created [OF assms(1,2), of evt] show ?thesis
      by (auto simp: convert_event_def up_within_def is_terminal_event_def)
  next
    case 9
    with assms(3) show ?thesis by (auto simp: up_within_def is_terminal_event_def)
  next
    case 10
    with assms have "convert_event s evt = (s, [])" "cur' = cur"
      by (simp_all add: convert_event_def up_within_def is_terminal_event_def)
    with assms show ?thesis by (simp add: serves_stay)
  qed
qed

lemma up_within_ended: "up_within cur evt = Some UpEnded \<Longrightarrow> is_terminal_event (ev_type evt)"
  by (auto simp: up_within_def Let_def split: if_splits option.splits bool.splits)

lemma convert_terminal: "is_terminal_event (ev_type evt) \<Longrightarrow> convert_event s evt = handle_completed evt s"
  by (auto simp: is_terminal_event_def convert_event_def)

lemma up_within_before: "up_within cur evt \<noteq> Some UpBefore"
  by (auto simp: up_within_def Let_def split: option.splits bool.splits)

lemma related_step:
  assumes "up_related u s" and "up_step u evt = Some u'" and "convert_event s evt = (t, evs)"
  shows "up_related u' t" and "protocol_ok s (t, evs)"
proof -
  have "up_related u' t \<and> protocol_ok s (t, evs)"
  proof (cases u)
    case UpBefore
    with assms created_result [of evt s t evs] show ?thesis
      by (auto simp: up_step_def convert_event_def split: if_splits)
  next
    case (UpWithin cur)
    with assms(1,2) have s: "live s" "holds_item cur s" "up_within cur evt = Some u'"
      by (auto simp: up_related_def up_step_def)
    show ?thesis
    proof (cases u')
      case UpBefore
      with s(3) up_within_before show ?thesis by blast
    next
      case (UpWithin cur')
      with serves_within [OF s(1,2), of evt cur'] s(3) assms(3) show ?thesis
        by (simp add: serves_def up_related_def)
    next
      case UpEnded
      with s up_within_ended convert_terminal assms(3) completed_result [of evt s t evs] show ?thesis
        by simp
    qed
  next
    case UpEnded
    with assms show ?thesis
      by (auto simp: up_step_def up_related_def convert_terminal handle_completed_def protocol_ok_def
          split: if_splits)
  qed
  then show "up_related u' t" and "protocol_ok s (t, evs)" by auto
qed

interpretation ordered_stream: observed_machine "guide_allows up_step" "guided up_step convert_event"
  "\<lambda>x. up_related (fst x) (snd x)" "\<lambda>x. protocol_view_of (snd x)" protocol_step
proof unfold_locales
  fix x evt y out
  assume x: "up_related (fst x) (snd x)" "guide_allows up_step x evt"
    and step: "guided up_step convert_event x evt = (y, out)"
  obtain u' where u': "up_step (fst x) evt = Some u'" using x(2) by (auto simp: guide_allows_def)
  obtain t evs where t: "convert_event (snd x) evt = (t, evs)" by fastforce
  have "y = (u', t)" "out = evs" using step u' t by (auto simp: guided_def split: prod.splits)
  with related_step [OF x(1) u' t] show "up_related (fst y) (snd y)"
    and "run_while protocol_step (protocol_view_of (snd x)) out = Some (protocol_view_of (snd y))"
    by (auto simp: protocol_ok_def)
qed

lemma finalize_protocol:
  assumes "up_related u s" and "finalize_stream s = (t, evs)"
  shows "run_while protocol_step (protocol_view_of s) evs =
           Some (if u = UpBefore then Before else Ended)"
proof (cases "live s")
  case False
  with assms show ?thesis
    by (auto simp: finalize_stream_def up_related_def protocol_view_of_def live_def split: upstream.splits)
next
  case True
  obtain v evs1 where v: "close_current_block s = (v, evs1)" by fastforce
  then have v': "live v" "\<not> st_content_block_open v"
    using live_close True close_current_block_state(1) by auto
  have "\<exists>r x. evs = evs1 @ message_end r x"
    using assms(2) v True by (auto simp: finalize_stream_def live_def)
  moreover have "run_while protocol_step (protocol_view_of s) evs1 = Some (protocol_view_of v)"
    using protocol_ok_close [OF True] v by (simp add: protocol_ok_def)
  moreover have "u \<noteq> UpBefore" using assms(1) True by (auto simp: up_related_def live_def)
  ultimately show ?thesis using v' by (auto simp: run_while_append view_of_live)
qed

lemma up_step_started: "up_step u evt = Some u' \<Longrightarrow> u' \<noteq> UpBefore"
  using up_within_before by (auto simp: up_step_def split: upstream.splits if_splits)

lemma up_run_started: "run_while up_step u evts = Some u' \<Longrightarrow> u \<noteq> UpBefore \<or> evts \<noteq> [] \<Longrightarrow> u' \<noteq> UpBefore"
proof (induction evts arbitrary: u)
  case (Cons e es)
  then obtain v where v: "up_step u e = Some v" "run_while up_step v es = Some u'"
    by (auto split: option.splits)
  with Cons.IH [OF v(2)] up_step_started [OF v(1)] show ?case by blast
qed simp

text \<open>
  C4: When the upstream follows its own protocol (the response is created first, the deltas of an
  item come while it is the last one opened, nothing follows the terminal event), the client
  receives a complete message: message_start, then blocks, each delta inside the block it names and
  of the block's kind, then one message_delta and message_stop, and nothing after. This holds also
  when the upstream breaks off early, since finalising the stream then ends the message.
\<close>

theorem stream_protocol:
  assumes "run_while up_step UpBefore evts = Some u" and "evts \<noteq> []"
    and "run_emit convert_event (new_stream_state now) evts = (s, outs)"
    and "finalize_stream s = (t, outs')"
  shows "run_while protocol_step Before (outs @ outs') = Some Ended"
proof -
  let ?s = "new_stream_state now"
  have start: "up_related UpBefore ?s" "protocol_view_of ?s = Before"
    by (simp_all add: up_related_def new_stream_state_def protocol_view_of_def)
  note guided = guided_run [OF assms(1), of convert_event ?s]
  have "up_related u s \<and> run_while protocol_step Before outs = Some (protocol_view_of s)"
    using ordered_stream.run_observed [of "(UpBefore, ?s)" evts "(u, s)" outs] guided assms(3) start
    by simp
  moreover have "u \<noteq> UpBefore" using up_run_started [OF assms(1)] assms(2) by blast
  ultimately show ?thesis using finalize_protocol [OF _ assms(4), of u] by (simp add: run_while_append)
qed

definition blank_event :: resp_event where
  "blank_event = \<lparr>ev_type = [], ev_response = None, ev_usage = None, ev_item = None,
     ev_output_index = 0, ev_content_index = 0, ev_delta = [], ev_text = [], ev_arguments = []\<rparr>"

definition demo_stream :: "resp_event list" where
  "demo_stream =
     [blank_event\<lparr>ev_type := ''response.created''\<rparr>,
      blank_event\<lparr>ev_type := ''response.output_text.delta'', ev_delta := ''He''\<rparr>,
      blank_event\<lparr>ev_type := ''response.output_text.done'', ev_text := ''Hello''\<rparr>]"

theorem stream_protocol_witness:
  "let (s, outs) = run_emit convert_event (new_stream_state 0) demo_stream;
       (t, outs') = finalize_stream s
   in length (outs @ outs') = 7 \<and> run_while protocol_step Before (outs @ outs') = Some Ended"
proof -
  obtain s outs where s: "run_emit convert_event (new_stream_state 0) demo_stream = (s, outs)" by fastforce
  obtain t outs' where t: "finalize_stream s = (t, outs')" by fastforce
  have "run_while up_step UpBefore demo_stream = Some (UpWithin None)"
    by (simp add: demo_stream_def blank_event_def up_step_def up_within_def)
  moreover have "demo_stream \<noteq> []" by (simp add: demo_stream_def)
  ultimately have "run_while protocol_step Before (outs @ outs') = Some Ended"
    using stream_protocol s t by blast
  moreover have "length (outs @ outs') = 7"
  proof -
    have "(case run_emit convert_event (new_stream_state 0) demo_stream of (s, outs) \<Rightarrow>
        case finalize_stream s of (t, outs') \<Rightarrow> length (outs @ outs')) = 7"
      by code_simp
    with s t show ?thesis by simp
  qed
  ultimately show ?thesis using s t by (simp add: Let_def)
qed

section \<open>What text the client receives\<close>

definition text_of_event :: "anth_event \<Rightarrow> string" where
  "text_of_event e =
     (case ae_delta e of None \<Rightarrow> [] | Some d \<Rightarrow> if ad_type d = ''text_delta'' then ad_text d else [])"

definition delivered_text :: "anth_event list \<Rightarrow> string" where
  "delivered_text evs = concat (map text_of_event evs)"

definition part_text :: "int \<times> int \<Rightarrow> stream_state \<Rightarrow> string" where
  "part_text q s = (case st_text_by_part s q of None \<Rightarrow> [] | Some d \<Rightarrow> d)"

lemma delivered_text_simps [simp]:
  "delivered_text [] = []"
  "delivered_text (xs @ ys) = delivered_text xs @ delivered_text ys"
  "delivered_text (block_start i b # evs) = delivered_text evs"
  "delivered_text (block_stop i # evs) = delivered_text evs"
  "delivered_text (args_delta i j # evs) = delivered_text evs"
  by (simp_all add: delivered_text_def text_of_event_def event_defs new_delta_def)

lemma delivered_text_delta [simp]:
  "delivered_text (block_delta i ((new_delta ''text_delta'')\<lparr>ad_text := x\<rparr>) # evs) = x @ delivered_text evs"
  "delivered_text (block_delta i ((new_delta ''thinking_delta'')\<lparr>ad_thinking := x\<rparr>) # evs) = delivered_text evs"
  "delivered_text (block_delta i ((new_delta ''signature_delta'')\<lparr>ad_signature := x\<rparr>) # evs) = delivered_text evs"
  "delivered_text (message_end r u) = []"
  by (simp_all add: delivered_text_def text_of_event_def event_defs new_delta_def message_end_def)

text \<open>\<open>adds s em q x\<close>: the emission delivers the text \<open>x\<close>, all of it for the part \<open>q\<close>, and does not
  end the message.\<close>

definition adds :: "stream_state \<Rightarrow> emission \<Rightarrow> int \<times> int \<Rightarrow> string \<Rightarrow> bool" where
  "adds s em q x \<longleftrightarrow>
     delivered_text (snd em) = x \<and> st_message_stop_sent (fst em) = st_message_stop_sent s \<and>
     st_text_delivered (fst em) = (st_text_delivered s \<or> x \<noteq> []) \<and>
     st_text_by_part (fst em) = (if x = [] then st_text_by_part s
                                 else (st_text_by_part s)(q \<mapsto> part_text q s @ x))"

lemma adds_nothing: "adds s em q [] \<longleftrightarrow> delivered_text (snd em) = [] \<and>
    st_message_stop_sent (fst em) = st_message_stop_sent s \<and>
    st_text_delivered (fst em) = st_text_delivered s \<and> st_text_by_part (fst em) = st_text_by_part s"
  by (simp add: adds_def)

lemma adds_close: "adds s (close_current_block s) q []"
  by (simp add: adds_def close_current_block_def Let_def)

lemma adds_seq:
  "adds s (t, evs) q x \<Longrightarrow> adds t (u, evs') q [] \<Longrightarrow> adds s (u, evs @ evs') q x"
  "adds s (t, evs) q [] \<Longrightarrow> adds t (u, evs') q x \<Longrightarrow> adds s (u, evs @ evs') q x"
  by (auto simp: adds_def part_text_def)

lemma adds_ensure: "adds s (ensure_text_block s) q []"
  using adds_close [of s q] by (auto simp: ensure_text_block_def adds_def split: prod.splits)

lemma adds_emit_text: "adds s (emit_text x q s) q x"
proof (cases "x = []")
  case False
  with adds_ensure [of s q] show ?thesis
    by (auto simp: emit_text_def adds_def Let_def part_text_def split: prod.splits)
qed (simp add: emit_text_def adds_def)

text \<open>The tail of a finished text that the client still misses.\<close>

definition missing_tail :: "string \<Rightarrow> int \<times> int \<Rightarrow> stream_state \<Rightarrow> string" where
  "missing_tail x q s =
     (if (st_text_by_part s q \<noteq> None \<or> \<not> st_text_delivered s) \<and>
         take (length (part_text q s)) x = part_text q s
      then drop (length (part_text q s)) x else [])"

lemma adds_recover_text: "adds s (recover_text x q s) q (missing_tail x q s)"
proof -
  have "adds s (s, []) q (missing_tail x q s)" if "recover_text x q s = (s, [])" "missing_tail x q s = []"
    using that by (simp add: adds_def)
  then show ?thesis
    using adds_emit_text [of s "drop (length (part_text q s)) x" q]
    by (auto simp: recover_text_def missing_tail_def part_text_def Let_def adds_nothing
        split: option.splits if_splits)
qed

lemma adds_block_done: "adds s (handle_block_done s) q []"
  using adds_close [of s q] by (auto simp: handle_block_done_def adds_def)

lemma adds_text_done:
  "adds s (handle_text_done evt s) (text_part_of evt)
     (if st_message_stop_sent s then [] else missing_tail (ev_text evt) (text_part_of evt) s)"
proof -
  obtain t evs where t: "recover_text (ev_text evt) (text_part_of evt) s = (t, evs)" by fastforce
  obtain u evs' where u: "handle_block_done t = (u, evs')" by fastforce
  have "adds s (u, evs @ evs') (text_part_of evt) (missing_tail (ev_text evt) (text_part_of evt) s)"
    using adds_recover_text [of s "ev_text evt" "text_part_of evt"] adds_block_done [of t] t u
    by (intro adds_seq(1) [of _ t]) simp_all
  with t u adds_block_done [of s] show ?thesis by (simp add: handle_text_done_def)
qed

lemma adds_quiet_handlers:
  "adds s (handle_created evt s) q []"
  "adds s (handle_output_item_added evt s) q []"
  "adds s (handle_func_args_delta evt s) q []"
  "adds s (handle_func_args_done evt s) q []"
  "adds s (handle_reasoning_delta evt s) q []"
  "adds s (handle_web_search_done item s) q []"
  "adds s (handle_output_item_done evt s) q []"
proof -
  obtain t evs where t: "close_current_block s = (t, evs)" by fastforce
  with adds_close [of s] have t': "delivered_text evs = []" "st_text_delivered t = st_text_delivered s"
    "st_text_by_part t = st_text_by_part s" "st_message_stop_sent t = st_message_stop_sent s"
    by (auto simp: adds_def)
  show "adds s (handle_created evt s) q []"
    by (auto simp: handle_created_def adds_nothing Let_def delivered_text_def text_of_event_def
        bare_event_def split: option.splits)
  show "adds s (handle_output_item_added evt s) q []"
    using t t' by (auto simp: handle_output_item_added_def adds_nothing Let_def split: option.splits)
  show "adds s (handle_func_args_delta evt s) q []"
    by (auto simp: handle_func_args_delta_def adds_nothing Let_def split: option.splits)
  show "adds s (handle_func_args_done evt s) q []"
    using t t' by (auto simp: handle_func_args_done_def handle_block_done_def adds_nothing Let_def
        split: option.splits)
  show "adds s (handle_reasoning_delta evt s) q []"
    by (auto simp: handle_reasoning_delta_def adds_nothing split: option.splits)
  show web: "adds s (handle_web_search_done item s) q []" for item
    using t t' by (simp add: handle_web_search_done_def adds_nothing Let_def)
  have "adds s (close_current_block (s\<lparr>st_pending_thinking_signature := x\<rparr>)) q []" for x
    using adds_close [of "s\<lparr>st_pending_thinking_signature := x\<rparr>" q] by (simp add: adds_nothing)
  with web adds_close show "adds s (handle_output_item_done evt s) q []"
    by (auto simp: handle_output_item_done_def Let_def adds_nothing split: option.splits)
qed

definition event_text :: "stream_state \<Rightarrow> resp_event \<Rightarrow> string" where
  "event_text s evt =
     (if ev_type evt = ''response.output_text.delta'' then ev_delta evt
      else if ev_type evt = ''response.output_text.done'' \<and> \<not> st_message_stop_sent s
      then missing_tail (ev_text evt) (text_part_of evt) s else [])"

definition is_text_event :: "resp_event \<Rightarrow> bool" where
  "is_text_event evt \<longleftrightarrow>
     ev_type evt = ''response.output_text.delta'' \<or> ev_type evt = ''response.output_text.done''"

lemma convert_adds:
  assumes "\<not> is_terminal_event (ev_type evt)"
  shows "adds s (convert_event s evt) (text_part_of evt) (event_text s evt)"
  using assms adds_text_done [of s evt] adds_emit_text [of s "ev_delta evt" "text_part_of evt"]
  by (simp add: convert_event_def event_text_def is_terminal_event_def adds_quiet_handlers
      handle_text_delta_def) (auto simp: adds_def)

lemma event_text_quiet: "\<not> is_text_event evt \<Longrightarrow> event_text s evt = []"
  by (simp add: event_text_def is_text_event_def)


text \<open>What the client received for one part: the text emitted while the events of the part were converted.\<close>

fun sent_for :: "int \<times> int \<Rightarrow> stream_state \<Rightarrow> resp_event list \<Rightarrow> string" where
  "sent_for q s [] = []"
| "sent_for q s (e # es) =
     (case convert_event s e of (t, out) \<Rightarrow>
        (if is_text_event e \<and> text_part_of e = q then delivered_text out else []) @ sent_for q t es)"

definition before_end :: "resp_event list \<Rightarrow> bool" where
  "before_end evts \<longleftrightarrow> list_all (\<lambda>e. \<not> is_terminal_event (ev_type e)) evts"

lemma sent_for_snoc:
  "run_emit convert_event s evts = (t, outs) \<Longrightarrow> convert_event t e = (u, out) \<Longrightarrow>
     sent_for q s (evts @ [e]) = sent_for q s evts @ (if is_text_event e \<and> text_part_of e = q then delivered_text out else [])"
  by (induction evts arbitrary: s outs) (auto split: prod.splits)

text \<open>The state has recorded what every part received, and whether any text was delivered.\<close>

definition recorded :: "(int \<times> int \<Rightarrow> string) \<Rightarrow> string \<Rightarrow> stream_state \<Rightarrow> bool" where
  "recorded f x s \<longleftrightarrow>
     \<not> st_message_stop_sent s \<and> (st_text_delivered s \<longleftrightarrow> x \<noteq> []) \<and>
     (\<forall>q. st_text_by_part s q = (if f q = [] then None else Some (f q)))"

lemma recorded_row: "recorded f x s \<Longrightarrow> st_text_by_part s q = (if f q = [] then None else Some (f q))"
  unfolding recorded_def by blast

lemma recorded_part: "recorded f x s \<Longrightarrow> part_text q s = f q"
  by (simp add: recorded_row part_text_def)

lemma recorded_step:
  assumes "\<not> is_terminal_event (ev_type e)" and "recorded f x s" and "convert_event s e = (t, out)"
  shows "recorded (\<lambda>q. f q @ (if is_text_event e \<and> text_part_of e = q then delivered_text out else []))
    (x @ delivered_text out) t"
proof -
  have a: "adds s (t, out) (text_part_of e) (event_text s e)"
    using convert_adds [OF assms(1), of s] assms(3) by simp
  show ?thesis
  proof (cases "is_text_event e")
    case True
    with a assms(2) recorded_part [OF assms(2)] show ?thesis by (auto simp: recorded_def adds_def)
  next
    case False
    with a assms(2) event_text_quiet [OF False] show ?thesis by (simp add: recorded_def adds_def)
  qed
qed

lemma recorded_run:
  "before_end evts \<Longrightarrow> recorded f x s \<Longrightarrow> run_emit convert_event s evts = (t, outs) \<Longrightarrow>
     recorded (\<lambda>q. f q @ sent_for q s evts) (x @ delivered_text outs) t"
proof (induction evts arbitrary: f x s outs)
  case (Cons e es)
  obtain u out where u: "convert_event s e = (u, out)" by fastforce
  obtain outs' where o: "run_emit convert_event u es = (t, outs')" "outs = out @ outs'"
    using Cons.prems(3) u by (auto split: prod.splits)
  have "\<not> is_terminal_event (ev_type e)" "before_end es" using Cons.prems(1) by (simp_all add: before_end_def)
  from Cons.IH [OF this(2) recorded_step [OF this(1) Cons.prems(2) u] o(1)] u o(2) show ?case by simp
qed simp

lemma recorded_new: "recorded (\<lambda>q. []) [] (new_stream_state now)"
  by (simp add: recorded_def new_stream_state_def)

text \<open>
  C8: A finished text payload completes its part. Before the terminal event, for any number of text parts whose events
  come in any order: if the payload extends what the client has of the part, the client has exactly the payload
  afterwards, so nothing is lost when deltas are missing and nothing is repeated when they were all sent; a payload that does not
  extend it adds nothing. A part of which the client has nothing is only filled in when no other part has delivered text.
\<close>

theorem stream_text_complete:
  assumes "before_end evts" and "ev_type e = ''response.output_text.done''"
    and "run_emit convert_event (new_stream_state now) evts = (s, outs)" and "convert_event s e = (t, outs')"
    and "sent = sent_for (text_part_of e) (new_stream_state now) evts"
  shows "sent_for (text_part_of e) (new_stream_state now) (evts @ [e]) =
      (if (sent \<noteq> [] \<or> delivered_text outs = []) \<and> take (length sent) (ev_text e) = sent then ev_text e else sent) \<and>
    sent @ delivered_text outs' = sent_for (text_part_of e) (new_stream_state now) (evts @ [e])"
proof -
  let ?q = "text_part_of e"
  have rec: "recorded (\<lambda>q. sent_for q (new_stream_state now) evts) (delivered_text outs) s"
    using recorded_run [OF assms(1) recorded_new assms(3)] by simp
  have "delivered_text outs' = missing_tail (ev_text e) ?q s"
    using convert_adds [of e s] assms(2,4) rec by (simp add: adds_def event_text_def is_terminal_event_def recorded_def)
  also have "\<dots> = (if (sent \<noteq> [] \<or> delivered_text outs = []) \<and> take (length sent) (ev_text e) = sent
      then drop (length sent) (ev_text e) else [])"
    using recorded_row [OF rec, of ?q] recorded_part [OF rec, of ?q] rec assms(5)
    by (simp add: missing_tail_def) (simp add: recorded_def)
  finally have out: "delivered_text outs' = \<dots>" .
  have "sent @ drop (length sent) (ev_text e) = ev_text e" if "take (length sent) (ev_text e) = sent"
    using that append_take_drop_id [of "length sent" "ev_text e"] by simp
  with out show ?thesis using sent_for_snoc [OF assms(3,4), of ?q] assms(2,5) by (simp add: is_text_event_def)
qed

definition two_parts :: "resp_event list" where
  "two_parts =
     take 2 demo_stream @ [blank_event\<lparr>ev_type := ''response.output_text.delta'', ev_content_index := 1, ev_delta := ''!''\<rparr>]"

theorem stream_text_complete_witness:
  "\<exists>s outs t outs'.
     run_emit convert_event (new_stream_state 0) two_parts = (s, outs) \<and>
     convert_event s (demo_stream ! 2) = (t, outs') \<and>
     delivered_text outs = ''He!'' \<and> delivered_text outs' = ''llo'' \<and>
     sent_for (0, 0) (new_stream_state 0) (two_parts @ [demo_stream ! 2]) = ''Hello''"
proof -
  let ?e = "demo_stream ! 2"
  obtain s outs where s: "run_emit convert_event (new_stream_state 0) two_parts = (s, outs)" by fastforce
  obtain t outs' where t: "convert_event s ?e = (t, outs')" by fastforce
  have "delivered_text (snd (run_emit convert_event (new_stream_state 0) two_parts)) = ''He!''"
    by code_simp
  with s have He: "delivered_text outs = ''He!''" by simp
  have e: "before_end two_parts" "ev_type ?e = ''response.output_text.done''" "ev_text ?e = ''Hello''"
    "text_part_of ?e = (0, 0)" "sent_for (0, 0) (new_stream_state 0) two_parts = ''He''"
    by code_simp+
  from stream_text_complete [OF e(1,2) s t refl] e(3,4,5) He
  have sent: "sent_for (0, 0) (new_stream_state 0) (two_parts @ [?e]) = ''Hello''"
    and "''He'' @ delivered_text outs' = ''Hello''" by simp_all
  then have "delivered_text outs' = ''llo''" by simp
  with s t He sent show ?thesis by blast
qed

section \<open>The end of the stream and the non-streaming answer\<close>

definition content_text :: "anth_response \<Rightarrow> string" where
  "content_text m = concat (map ab_text (filter (\<lambda>b. ab_type b = ''text'') (am_content m)))"

definition parts_text :: "(string \<times> (int \<times> int)) list \<Rightarrow> string" where
  "parts_text ps = concat (map fst ps)"

lemma parts_text_terminal:
  "parts_text (terminal_parts i items) =
     concat (map (\<lambda>item. if ro_type item = ''message''
       then concat (map rp_text (filter (\<lambda>p. rp_type p = ''output_text'') (ro_content item))) else []) items)"
proof (induction items arbitrary: i)
  case (Cons item items)
  have "concat (map fst (concat (map (\<lambda>(j, p). if rp_type p \<noteq> ''output_text'' then []
            else [(rp_text p, (i, int j))]) (zip [k ..< k + length ps] ps))))
        = concat (map rp_text (filter (\<lambda>p. rp_type p = ''output_text'') ps))" for k and ps :: "resp_part list"
  proof (induction ps arbitrary: k)
    case (Cons p ps)
    have "zip [k ..< k + length (p # ps)] (p # ps) = (k, p) # zip [Suc k ..< Suc k + length ps] ps"
      by (simp add: upt_conv_Cons del: upt_Suc)
    with Cons [of "Suc k"] show ?case by (simp del: upt_Suc)
  qed simp
  from this [of 0 "ro_content item"] Cons show ?case by (simp add: parts_text_def)
qed (simp add: parts_text_def)

lemma item_text:
  "concat (map ab_text (filter (\<lambda>b. ab_type b = ''text'') (output_item_blocks item))) =
     (if ro_type item = ''message''
      then concat (map rp_text (filter (\<lambda>p. rp_type p = ''output_text'') (ro_content item))) else [])"
proof -
  have "concat (map ab_text (filter (\<lambda>b. ab_type b = ''text'')
          (map (\<lambda>p. (new_block ''text'')\<lparr>ab_text := rp_text p\<rparr>)
            (filter (\<lambda>p. rp_type p = ''output_text'' \<and> rp_text p \<noteq> []) ps))))
        = concat (map rp_text (filter (\<lambda>p. rp_type p = ''output_text'') ps))" for ps
    by (induction ps) (auto simp: new_block_def)
  then show ?thesis
    by (auto simp: output_item_blocks_def Let_def simp del: filter_map)
qed

lemma content_text_blocks:
  "content_text (responses_to_anthropic r model) = parts_text (terminal_parts i (rr_output r))"
proof -
  have "concat (map ab_text (filter (\<lambda>b. ab_type b = ''text'') (concat (map output_item_blocks items))))
      = parts_text (terminal_parts i items)" for items
    unfolding parts_text_terminal by (induction items) (simp_all add: item_text)
  then have blocks: "concat (map ab_text (filter (\<lambda>b. ab_type b = ''text'')
      (concat (map output_item_blocks (rr_output r))))) = parts_text (terminal_parts i (rr_output r))" .
  have empty: "ab_text (new_block ''text'') = []" by (simp add: new_block_def)
  show ?thesis
  proof (cases "concat (map output_item_blocks (rr_output r)) = []")
    case True
    with blocks empty show ?thesis
      by (simp add: responses_to_anthropic_def content_text_def Let_def del: concat_eq_Nil_conv)
  next
    case False
    with blocks show ?thesis
      by (simp add: responses_to_anthropic_def content_text_def Let_def del: concat_eq_Nil_conv)
  qed
qed

lemma emit_texts_text: "emit_texts ps s = (t, evs) \<Longrightarrow> delivered_text evs = parts_text ps"
proof (induction ps arbitrary: s t evs)
  case (Cons p ps)
  obtain a q where p: "p = (a, q)" by (cases p)
  obtain u evs1 where u: "emit_text a q s = (u, evs1)" by fastforce
  obtain v evs2 where v: "emit_texts ps u = (v, evs2)" by fastforce
  with Cons p u adds_emit_text [of s a q] show ?case by (auto simp: parts_text_def adds_def)
qed (simp add: parts_text_def)

lemma terminal_text_delivers:
  assumes "recover_terminal_text evt s = (t, evs)" and "\<not> st_text_delivered s"
    and "ev_response evt = Some r"
  shows "delivered_text evs = parts_text (terminal_parts 0 (rr_output r))"
proof -
  obtain u evs1 where u: "emit_texts (terminal_parts 0 (rr_output r)) s = (u, evs1)" by fastforce
  obtain v evs2 where v: "close_current_block u = (v, evs2)" by fastforce
  have "delivered_text evs2 = []" using adds_close [of u] v by (simp add: adds_def)
  with emit_texts_text [OF u] assms u v show ?thesis
    by (auto simp: recover_terminal_text_def split: if_splits)
qed

lemma tool_use_blocks:
  "contains_tool_use_block (concat (map output_item_blocks items)) \<longleftrightarrow>
     list_ex (\<lambda>item. ro_type item = ''function_call'') items"
proof -
  have "contains_tool_use_block (output_item_blocks item) \<longleftrightarrow> ro_type item = ''function_call''" for item
    by (auto simp: output_item_blocks_def contains_tool_use_block_def new_block_def list_ex_iff Let_def)
  then show ?thesis
    by (induction items) (simp_all add: contains_tool_use_block_def)
qed

lemma stop_reason_agrees:
  assumes "ev_response evt = Some r"
  shows "Some (completed_stop_reason evt s) = am_stop_reason (responses_to_anthropic r model) \<longleftrightarrow>
    rr_status r \<noteq> ''completed'' \<or>
    (st_has_tool_call s \<longleftrightarrow> list_ex (\<lambda>item. ro_type item = ''function_call'') (rr_output r))"
proof -
  have "\<not> contains_tool_use_block [new_block ''text'']" "\<not> contains_tool_use_block []"
    by (simp_all add: contains_tool_use_block_def)
  with assms tool_use_blocks [of "rr_output r"] show ?thesis
    by (cases "concat (map output_item_blocks (rr_output r)) = []")
      (simp_all add: responses_to_anthropic_def stop_reason_of_status_def completed_stop_reason_def Let_def
        del: concat_eq_Nil_conv)
qed

text \<open>A tool call that the stream has announced, and what the events before the end leave of the state.\<close>

definition announces_tool :: "resp_event \<Rightarrow> bool" where
  "announces_tool e \<longleftrightarrow>
     ev_type e = ''response.output_item.added'' \<and>
     (case ev_item e of None \<Rightarrow> False | Some item \<Rightarrow> ro_type item = ''function_call'' \<or> ro_type item = ''custom_tool_call'')"

definition same_end :: "bool \<Rightarrow> stream_state \<Rightarrow> emission \<Rightarrow> bool" where
  "same_end tool s em \<longleftrightarrow>
     st_has_tool_call (fst em) = (st_has_tool_call s \<or> tool) \<and> st_usage (fst em) = st_usage s"

lemma close_same_end: "same_end False s (close_current_block s)"
  by (simp add: same_end_def close_current_block_def Let_def)

lemma emit_text_same_end: "same_end False s (emit_text x q s)"
  using emit_text_same_message [of x q s] by (cases "emit_text x q s") (auto simp: same_end_def same_message_def)

lemma text_done_same_end: "same_end False s (handle_text_done evt s)"
proof -
  have closed: "same_end False s (handle_block_done s)" for s
    using close_same_end [of s] by (simp add: handle_block_done_def same_end_def)
  obtain t evs where t: "recover_text (ev_text evt) (text_part_of evt) s = (t, evs)" by fastforce
  have "same_end False s (recover_text (ev_text evt) (text_part_of evt) s)"
    using emit_text_same_end by (auto simp: recover_text_def same_end_def Let_def)
  with t closed [of t] closed [of s] show ?thesis by (auto simp: handle_text_done_def same_end_def split: prod.splits)
qed

lemma item_same_end:
  "same_end (case ev_item evt of None \<Rightarrow> False | Some item \<Rightarrow> ro_type item = ''function_call'' \<or> ro_type item = ''custom_tool_call'')
     s (handle_output_item_added evt s)"
  "same_end False s (handle_output_item_done evt s)"
proof -
  have web: "same_end False s (handle_web_search_done item s)" for item
    using close_same_end [of s] by (auto simp: handle_web_search_done_def same_end_def Let_def split: prod.splits)
  have "same_end False s (close_current_block (s\<lparr>st_pending_thinking_signature := x\<rparr>))" for x
    using close_same_end [of "s\<lparr>st_pending_thinking_signature := x\<rparr>"] by (simp add: same_end_def)
  with web close_same_end [of s] show "same_end False s (handle_output_item_done evt s)"
    by (auto simp: handle_output_item_done_def Let_def split: option.split) (auto simp: same_end_def)
  show "same_end (case ev_item evt of None \<Rightarrow> False | Some item \<Rightarrow> ro_type item = ''function_call'' \<or> ro_type item = ''custom_tool_call'')
     s (handle_output_item_added evt s)"
    using close_same_end [of s]
    by (cases "close_current_block s") (auto simp: handle_output_item_added_def same_end_def Let_def split: option.split)
qed

lemma arguments_same_end:
  "same_end False s (handle_func_args_delta evt s)" "same_end False s (handle_func_args_done evt s)"
  "same_end False s (handle_reasoning_delta evt s)" "same_end False s (handle_created evt s)"
  using close_same_end [of s]
  by (auto simp: handle_func_args_delta_def handle_func_args_done_def handle_block_done_def handle_reasoning_delta_def
      handle_created_def same_end_def Let_def split: option.splits prod.splits)

lemma convert_same_end:
  assumes "\<not> is_terminal_event (ev_type e)"
  shows "same_end (announces_tool e) s (convert_event s e)"
proof -
  have "same_end False s (s, [])" by (simp add: same_end_def)
  with assms show ?thesis
    by (simp add: convert_event_def announces_tool_def is_terminal_event_def handle_text_delta_def item_same_end
        arguments_same_end text_done_same_end emit_text_same_end)
qed

lemma run_same_end:
  "before_end evts \<Longrightarrow> run_emit convert_event s evts = (t, outs) \<Longrightarrow> same_end (list_ex announces_tool evts) s (t, outs)"
proof (induction evts arbitrary: s outs)
  case (Cons e es)
  obtain u out where u: "convert_event s e = (u, out)" by fastforce
  obtain outs' where o: "run_emit convert_event u es = (t, outs')" using Cons.prems(2) u by (auto split: prod.splits)
  have "\<not> is_terminal_event (ev_type e)" "before_end es" using Cons.prems(1) by (simp_all add: before_end_def)
  with Cons.IH [OF this(2) o] convert_same_end [of e s] u show ?case by (auto simp: same_end_def)
qed (simp add: same_end_def)

text \<open>
  C35: When no text was streamed before the terminal event, the converter ends the stream with what the
  non-streaming conversion of the terminal response gives: always with the same text; with the same token usage when the
  response carries one, and otherwise with the usage of the event, or none; and with the same stop reason exactly when
  the response is not completed, or the stream has announced a tool call if and only if the response has a function call.
\<close>

theorem stream_end_agrees:
  assumes "before_end evts" and "run_emit convert_event (new_stream_state now) evts = (s, outs)"
    and "delivered_text outs = []" and "is_terminal_event (ev_type evt)" and "ev_response evt = Some r"
    and "convert_event s evt = (t, outs')"
  shows "\<exists>evs reason usage. outs' = evs @ message_end reason usage \<and>
    delivered_text evs = content_text (responses_to_anthropic r model) \<and>
    usage = (if rr_usage r = None then anthropic_usage_from_responses (ev_usage evt)
             else am_usage (responses_to_anthropic r model)) \<and>
    (Some reason = am_stop_reason (responses_to_anthropic r model) \<longleftrightarrow>
       rr_status r \<noteq> ''completed'' \<or>
       (list_ex announces_tool evts \<longleftrightarrow> list_ex (\<lambda>item. ro_type item = ''function_call'') (rr_output r)))"
proof -
  have s: "\<not> st_message_stop_sent s" "\<not> st_text_delivered s"
    using recorded_run [OF assms(1) recorded_new assms(2)] assms(3) by (simp_all add: recorded_def)
  have tool: "st_has_tool_call s = list_ex announces_tool evts" "st_usage s = zero_usage"
    using run_same_end [OF assms(1,2)] by (simp_all add: same_end_def new_stream_state_def)
  obtain u evs1 where u: "close_current_block s = (u, evs1)" by fastforce
  obtain v evs2 where v: "recover_terminal_text evt u = (v, evs2)" by fastforce
  have u': "\<not> st_text_delivered u" "delivered_text evs1 = []"
    using adds_close [of s] u s(2) by (simp_all add: adds_def)
  have "same_message s v"
    using close_same_message [OF u] terminal_text_same_message [OF v] same_message_trans by blast
  with tool have v': "st_has_tool_call v = list_ex announces_tool evts" "st_usage v = zero_usage"
    by (simp_all add: same_message_def)
  have "completed_stop_reason evt (v\<lparr>st_usage := x\<rparr>) = completed_stop_reason evt v" for x
    by (simp add: completed_stop_reason_def split: option.splits)
  then have "outs' = (evs1 @ evs2) @ message_end (completed_stop_reason evt v) (completed_usage evt v)"
    using s assms(4,6) u v
    by (auto simp: convert_event_def is_terminal_event_def handle_completed_def Let_def)
  moreover have "delivered_text (evs1 @ evs2) = content_text (responses_to_anthropic r model)"
    using terminal_text_delivers [OF v u'(1) assms(5)] u'(2) content_text_blocks [of r model 0] by simp
  moreover have "completed_usage evt v =
      (if rr_usage r = None then anthropic_usage_from_responses (ev_usage evt) else am_usage (responses_to_anthropic r model))"
    using assms(5) v'(2)
    by (auto simp: completed_usage_def responses_to_anthropic_def anthropic_usage_from_responses_def Let_def split: option.splits)
  moreover note stop_reason_agrees [OF assms(5), of v model, unfolded v'(1)]
  ultimately show ?thesis
    by (intro exI [of _ "evs1 @ evs2"] exI [of _ "completed_stop_reason evt v"] exI [of _ "completed_usage evt v"] conjI)
qed

definition demo_item :: resp_output where
  "demo_item = \<lparr>ro_type = ''message'', ro_id = ''m1'',
     ro_content = [\<lparr>rp_type = ''output_text'', rp_text = ''Hi ''\<rparr>, \<lparr>rp_type = ''refusal'', rp_text = ''no''\<rparr>,
                   \<lparr>rp_type = ''output_text'', rp_text = ''there''\<rparr>],
     ro_status = ''completed'', ro_encrypted_content = [], ro_summary = [], ro_call_id = [],
     ro_name = [], ro_arguments = [], ro_action_query = None\<rparr>"

definition demo_response :: resp_response where
  "demo_response = \<lparr>rr_id = ''r1'', rr_model = ''m'', rr_status = ''completed'',
     rr_output = [demo_item],
     rr_usage = Some \<lparr>ru_input_tokens = 10, ru_output_tokens = 4,
       ru_cache_creation_input_tokens = 2, ru_cached_tokens = Some 3\<rparr>,
     rr_incomplete_reason = None\<rparr>"

theorem stream_end_agrees_witness:
  "\<exists>t evs reason. convert_event (fst (convert_event (new_stream_state 0) (blank_event\<lparr>ev_type := ''response.created''\<rparr>)))
       (blank_event\<lparr>ev_type := ''response.completed'', ev_response := Some demo_response\<rparr>) =
         (t, evs @ message_end reason \<lparr>au_input_tokens = 5, au_output_tokens = 4,
                 au_cache_creation_input_tokens = 2, au_cache_read_input_tokens = 3\<rparr>) \<and>
     delivered_text evs = ''Hi there'' \<and> reason = ''end_turn''"
proof -
  let ?evts = "[blank_event\<lparr>ev_type := ''response.created''\<rparr>]"
  let ?e = "blank_event\<lparr>ev_type := ''response.completed'', ev_response := Some demo_response\<rparr>"
  obtain s outs where s: "run_emit convert_event (new_stream_state 0) ?evts = (s, outs)" by fastforce
  obtain t outs' where t: "convert_event s ?e = (t, outs')" by fastforce
  have "delivered_text (snd (run_emit convert_event (new_stream_state 0) ?evts)) = []" by code_simp
  with s have none: "delivered_text outs = []" by simp
  have e: "before_end ?evts" "is_terminal_event (ev_type ?e)" "ev_response ?e = Some demo_response"
    "rr_usage demo_response \<noteq> None" "\<not> list_ex announces_tool ?evts"
    "\<not> list_ex (\<lambda>item. ro_type item = ''function_call'') (rr_output demo_response)"
    by (simp_all add: before_end_def is_terminal_event_def blank_event_def announces_tool_def demo_response_def demo_item_def)
  have m: "am_stop_reason (responses_to_anthropic demo_response []) = Some ''end_turn''"
    "am_usage (responses_to_anthropic demo_response []) = \<lparr>au_input_tokens = 5, au_output_tokens = 4,
       au_cache_creation_input_tokens = 2, au_cache_read_input_tokens = 3\<rparr>"
    "content_text (responses_to_anthropic demo_response []) = ''Hi there''"
    by code_simp+
  have "fst (convert_event (new_stream_state 0) (blank_event\<lparr>ev_type := ''response.created''\<rparr>)) = s"
    using s by (auto split: prod.splits)
  with stream_end_agrees [OF e(1) s none e(2,3) t, of "[]"] e(4-6) m t show ?thesis by auto
qed

text \<open>
  A custom tool call becomes a tool_use block when it is streamed, and is dropped by the
  non-streaming converter, which has no case for it.
\<close>

lemma custom_tool_call_dropped: "ro_type item = ''custom_tool_call'' \<Longrightarrow> output_item_blocks item = []"
  by (simp add: output_item_blocks_def)

text \<open>
  A tool announced after the terminal event opens a content block after message_stop: a stream
  on which the full protocol fails although the block discipline holds.
\<close>

definition late_tool_stream :: "resp_event list" where
  "late_tool_stream =
     [blank_event\<lparr>ev_type := ''response.created''\<rparr>,
      blank_event\<lparr>ev_type := ''response.completed''\<rparr>,
      blank_event\<lparr>ev_type := ''response.output_item.added'',
        ev_item := Some (demo_item\<lparr>ro_type := ''function_call''\<rparr>)\<rparr>]"

lemma late_tool_block:
  "run_while protocol_step Before (snd (run_emit convert_event (new_stream_state 0) late_tool_stream)) = None"
  "map ae_type (snd (run_emit convert_event (new_stream_state 0) late_tool_stream)) =
     [''message_start'', ''message_delta'', ''message_stop'', ''content_block_start'']"
  by code_simp+

end
