(* ===== verification/IdempotencyStore.thy ===== *)
theory IdempotencyStore
  imports Prelude
begin

text \<open>
  The table of idempotency records (backend/internal/repository/idempotency_repo.go, with the
  record and the repository interface of backend/internal/service/idempotency.go). Each SQL
  statement of the repository is one operation on the list of rows, as one statement is atomic in
  the database. The id comes from a sequence that counts up from 1 and is consumed by an insert
  that conflicts, too, as PostgreSQL documents. The calls of the interface and their replies are
  data, so that a client of the interface can be written as a step function between calls; the
  locale \<open>idempotency_repo\<close> states what the clients rely on, and is interpreted on the table.
\<close>

section \<open>Records, calls and replies\<close>

record idem_record =
  ir_id :: int
  ir_scope :: string
  ir_key_hash :: string
  ir_fingerprint :: string
  ir_status :: string
  ir_response_status :: "int option"
  ir_response_body :: "string option"
  ir_error_reason :: "string option"
  ir_locked_until :: "instant option"
  ir_expires_at :: instant
  ir_created_at :: instant
  ir_updated_at :: instant

definition status_processing :: string where "status_processing = ''processing''"
definition status_succeeded :: string where "status_succeeded = ''succeeded''"
definition status_failed_retryable :: string where "status_failed_retryable = ''failed_retryable''"

lemmas status_defs = status_processing_def status_succeeded_def status_failed_retryable_def

lemma status_distinct [simp]:
  "status_processing \<noteq> status_succeeded" "status_succeeded \<noteq> status_processing"
  "status_processing \<noteq> status_failed_retryable" "status_failed_retryable \<noteq> status_processing"
  "status_succeeded \<noteq> status_failed_retryable" "status_failed_retryable \<noteq> status_succeeded"
  by (simp_all add: status_defs)

datatype repo_call =
    Create_processing idem_record
  | Get_by_scope_and_key_hash string string
  | Try_reclaim int string instant instant instant
  | Extend_processing_lock int string instant instant
  | Mark_succeeded int int string instant
  | Mark_failed_retryable int string instant instant
  | Delete_expired instant int

datatype repo_reply =
    Created "int option"
  | Found "idem_record option"
  | Taken bool
  | Marked
  | Deleted int
  | Repo_error

section \<open>The table\<close>

record idem_table =
  tb_rows :: "idem_record list"
  tb_next_id :: int

definition empty_table :: idem_table where
  "empty_table = \<lparr>tb_rows = [], tb_next_id = 1\<rparr>"

definition same_key :: "string \<Rightarrow> string \<Rightarrow> idem_record \<Rightarrow> bool" where
  "same_key scope key_hash r \<longleftrightarrow> ir_scope r = scope \<and> ir_key_hash r = key_hash"

definition create_processing :: "instant \<Rightarrow> idem_record \<Rightarrow> idem_table \<Rightarrow> idem_table \<times> int option" where
  "create_processing now r tb =
     (let rid = tb_next_id tb; tb' = tb\<lparr>tb_next_id := rid + 1\<rparr> in
      if list_ex (same_key (ir_scope r) (ir_key_hash r)) (tb_rows tb) then (tb', None)
      else
        (tb'\<lparr>tb_rows := tb_rows tb @
           [\<lparr>ir_id = rid, ir_scope = ir_scope r, ir_key_hash = ir_key_hash r,
             ir_fingerprint = ir_fingerprint r, ir_status = ir_status r, ir_response_status = None,
             ir_response_body = None, ir_error_reason = None, ir_locked_until = ir_locked_until r,
             ir_expires_at = ir_expires_at r, ir_created_at = now, ir_updated_at = now\<rparr>]\<rparr>,
         Some rid))"

definition get_by_scope_and_key_hash :: "string \<Rightarrow> string \<Rightarrow> idem_table \<Rightarrow> idem_record option" where
  "get_by_scope_and_key_hash scope key_hash tb = find (same_key scope key_hash) (tb_rows tb)"

text \<open>An \<open>UPDATE ... WHERE\<close> statement: the rows that match are changed, and counted.\<close>

definition update_where :: "(idem_record \<Rightarrow> bool) \<Rightarrow> (idem_record \<Rightarrow> idem_record) \<Rightarrow>
    idem_table \<Rightarrow> idem_table \<times> nat" where
  "update_where p f tb =
     (tb\<lparr>tb_rows := map (\<lambda>r. if p r then f r else r) (tb_rows tb)\<rparr>, length (filter p (tb_rows tb)))"

definition try_reclaim :: "instant \<Rightarrow> int \<Rightarrow> string \<Rightarrow> instant \<Rightarrow> instant \<Rightarrow> instant \<Rightarrow>
    idem_table \<Rightarrow> idem_table \<times> bool" where
  "try_reclaim db_now rid from_status now new_locked_until new_expires_at tb =
     (case update_where
        (\<lambda>r. ir_id r = rid \<and> ir_status r = from_status \<and>
             (case ir_locked_until r of None \<Rightarrow> True | Some l \<Rightarrow> l \<le> now))
        (\<lambda>r. r\<lparr>ir_status := status_processing, ir_locked_until := Some new_locked_until,
               ir_error_reason := None, ir_updated_at := db_now, ir_expires_at := new_expires_at\<rparr>)
        tb of (tb', n) \<Rightarrow> (tb', 0 < n))"

definition extend_processing_lock :: "instant \<Rightarrow> int \<Rightarrow> string \<Rightarrow> instant \<Rightarrow> instant \<Rightarrow>
    idem_table \<Rightarrow> idem_table \<times> bool" where
  "extend_processing_lock db_now rid fingerprint new_locked_until new_expires_at tb =
     (case update_where
        (\<lambda>r. ir_id r = rid \<and> ir_status r = status_processing \<and> ir_fingerprint r = fingerprint)
        (\<lambda>r. r\<lparr>ir_locked_until := Some new_locked_until, ir_expires_at := new_expires_at,
               ir_updated_at := db_now\<rparr>)
        tb of (tb', n) \<Rightarrow> (tb', 0 < n))"

definition mark_succeeded :: "instant \<Rightarrow> int \<Rightarrow> int \<Rightarrow> string \<Rightarrow> instant \<Rightarrow> idem_table \<Rightarrow> idem_table" where
  "mark_succeeded db_now rid response_status response_body expires_at tb =
     fst (update_where (\<lambda>r. ir_id r = rid)
       (\<lambda>r. r\<lparr>ir_status := status_succeeded, ir_response_status := Some response_status,
              ir_response_body := Some response_body, ir_error_reason := None,
              ir_locked_until := None, ir_expires_at := expires_at, ir_updated_at := db_now\<rparr>) tb)"

definition mark_failed_retryable :: "instant \<Rightarrow> int \<Rightarrow> string \<Rightarrow> instant \<Rightarrow> instant \<Rightarrow>
    idem_table \<Rightarrow> idem_table" where
  "mark_failed_retryable db_now rid error_reason locked_until expires_at tb =
     fst (update_where (\<lambda>r. ir_id r = rid)
       (\<lambda>r. r\<lparr>ir_status := status_failed_retryable, ir_error_reason := Some error_reason,
              ir_locked_until := Some locked_until, ir_expires_at := expires_at,
              ir_updated_at := db_now\<rparr>) tb)"

text \<open>The expired rows with the earliest expiry; ties in the order of insertion.\<close>

definition delete_expired :: "instant \<Rightarrow> int \<Rightarrow> idem_table \<Rightarrow> idem_table \<times> int" where
  "delete_expired now limit tb =
     (let limit = (if limit \<le> 0 then 500 else limit);
          victims = map ir_id (take (nat limit)
            (sort_key ir_expires_at (filter (\<lambda>r. ir_expires_at r \<le> now) (tb_rows tb))));
          gone = (\<lambda>r. ir_id r \<in> set victims)
      in (tb\<lparr>tb_rows := filter (\<lambda>r. \<not> gone r) (tb_rows tb)\<rparr>,
          int (length (filter gone (tb_rows tb)))))"

fun table_apply :: "instant \<Rightarrow> repo_call \<Rightarrow> idem_table \<Rightarrow> idem_table \<times> repo_reply" where
  "table_apply db_now (Create_processing r) tb =
     (case create_processing db_now r tb of (tb', rid) \<Rightarrow> (tb', Created rid))"
| "table_apply db_now (Get_by_scope_and_key_hash scope h) tb =
     (tb, Found (get_by_scope_and_key_hash scope h tb))"
| "table_apply db_now (Try_reclaim rid from now l e) tb =
     (case try_reclaim db_now rid from now l e tb of (tb', b) \<Rightarrow> (tb', Taken b))"
| "table_apply db_now (Extend_processing_lock rid fp l e) tb =
     (case extend_processing_lock db_now rid fp l e tb of (tb', b) \<Rightarrow> (tb', Taken b))"
| "table_apply db_now (Mark_succeeded rid st body e) tb = (mark_succeeded db_now rid st body e tb, Marked)"
| "table_apply db_now (Mark_failed_retryable rid reason l e) tb =
     (mark_failed_retryable db_now rid reason l e tb, Marked)"
| "table_apply db_now (Delete_expired now limit) tb =
     (case delete_expired now limit tb of (tb', n) \<Rightarrow> (tb', Deleted n))"

section \<open>The interface\<close>

text \<open>
  What a client relies on, over the record found under an rid (\<open>row\<close>): a record is inserted only
  when its key is free, under a fresh rid that is not 0; a record is reclaimed only in the expected
  status and after its lock; the lock is extended only while processing under the given
  fingerprint; marking touches one record; only expired records are deleted.
\<close>

definition lock_passed :: "instant \<Rightarrow> idem_record \<Rightarrow> bool" where
  "lock_passed now r \<longleftrightarrow> (case ir_locked_until r of None \<Rightarrow> True | Some l \<Rightarrow> l \<le> now)"

locale idempotency_repo =
  fixes apply_call :: "instant \<Rightarrow> repo_call \<Rightarrow> 's \<Rightarrow> 's \<times> repo_reply"
    and row :: "'s \<Rightarrow> int \<Rightarrow> idem_record option"
    and wf :: "'s \<Rightarrow> bool"
  assumes wf_apply: "wf s \<Longrightarrow> wf (fst (apply_call db_now c s))"
    and row_id: "wf s \<Longrightarrow> row s i = Some r \<Longrightarrow> ir_id r = i \<and> i \<noteq> 0"
    and row_key: "wf s \<Longrightarrow> row s i = Some r \<Longrightarrow> row s j = Some r' \<Longrightarrow>
      ir_scope r = ir_scope r' \<Longrightarrow> ir_key_hash r = ir_key_hash r' \<Longrightarrow> i = j"
    and create_new: "wf s \<Longrightarrow> apply_call db_now (Create_processing r) s = (t, Created (Some i)) \<Longrightarrow>
      row s i = None \<and> i \<noteq> 0 \<and>
      (\<forall>j r'. row s j = Some r' \<longrightarrow> \<not> same_key (ir_scope r) (ir_key_hash r) r') \<and>
      (\<exists>r'. row t = (row s)(i \<mapsto> r') \<and> same_key (ir_scope r) (ir_key_hash r) r' \<and>
        ir_fingerprint r' = ir_fingerprint r \<and> ir_status r' = ir_status r \<and>
        ir_locked_until r' = ir_locked_until r \<and> ir_expires_at r' = ir_expires_at r)"
    and create_taken: "wf s \<Longrightarrow> apply_call db_now (Create_processing r) s = (t, Created None) \<Longrightarrow>
      row t = row s"
    and create_reply: "\<exists>x. snd (apply_call db_now (Create_processing r) s) = Created x"
    and get_row: "wf s \<Longrightarrow> apply_call db_now (Get_by_scope_and_key_hash scope h) s = (t, rep) \<Longrightarrow>
      row t = row s \<and> (\<exists>x. rep = Found x \<and>
        (\<forall>r. x = Some r \<longrightarrow> row s (ir_id r) = Some r \<and> same_key scope h r) \<and>
        (x = None \<longrightarrow> (\<forall>i r. row s i = Some r \<longrightarrow> \<not> same_key scope h r)))"
    and reclaim_row: "wf s \<Longrightarrow> apply_call db_now (Try_reclaim i from now l e) s = (t, rep) \<Longrightarrow>
      (\<exists>b. rep = Taken b \<and>
        (if b then \<exists>r. row s i = Some r \<and> ir_status r = from \<and> lock_passed now r \<and>
            row t = (row s)(i \<mapsto> r\<lparr>ir_status := status_processing, ir_locked_until := Some l,
              ir_error_reason := None, ir_updated_at := db_now, ir_expires_at := e\<rparr>)
         else row t = row s \<and>
            (\<forall>r. row s i = Some r \<longrightarrow> ir_status r \<noteq> from \<or> \<not> lock_passed now r)))"
    and extend_row: "wf s \<Longrightarrow> apply_call db_now (Extend_processing_lock i fp l e) s = (t, rep) \<Longrightarrow>
      (\<exists>b. rep = Taken b \<and>
        (if b then \<exists>r. row s i = Some r \<and> ir_status r = status_processing \<and> ir_fingerprint r = fp \<and>
            row t = (row s)(i \<mapsto> r\<lparr>ir_locked_until := Some l, ir_expires_at := e, ir_updated_at := db_now\<rparr>)
         else row t = row s \<and>
            (\<forall>r. row s i = Some r \<longrightarrow> ir_status r \<noteq> status_processing \<or> ir_fingerprint r \<noteq> fp)))"
    and succeed_row: "wf s \<Longrightarrow> apply_call db_now (Mark_succeeded i st body e) s = (t, rep) \<Longrightarrow>
      rep = Marked \<and> row t = (row s)(i := map_option (\<lambda>r. r\<lparr>ir_status := status_succeeded,
        ir_response_status := Some st, ir_response_body := Some body, ir_error_reason := None,
        ir_locked_until := None, ir_expires_at := e, ir_updated_at := db_now\<rparr>) (row s i))"
    and fail_row: "wf s \<Longrightarrow> apply_call db_now (Mark_failed_retryable i reason l e) s = (t, rep) \<Longrightarrow>
      rep = Marked \<and> row t = (row s)(i := map_option (\<lambda>r. r\<lparr>ir_status := status_failed_retryable,
        ir_error_reason := Some reason, ir_locked_until := Some l, ir_expires_at := e,
        ir_updated_at := db_now\<rparr>) (row s i))"
    and delete_row: "wf s \<Longrightarrow> apply_call db_now (Delete_expired now limit) s = (t, rep) \<Longrightarrow>
      row t i = row s i \<or> (row t i = None \<and> (\<forall>r. row s i = Some r \<longrightarrow> ir_expires_at r \<le> now))"

context idempotency_repo
begin

lemma get_existing:
  assumes "wf s" and "row s i = Some r" and "same_key scope h r"
  shows "\<exists>t. apply_call db_now (Get_by_scope_and_key_hash scope h) s = (t, Found (Some r)) \<and> row t = row s \<and> wf t"
proof -
  obtain t rep where t: "apply_call db_now (Get_by_scope_and_key_hash scope h) s = (t, rep)" by fastforce
  obtain x where x: "rep = Found x" "row t = row s" using get_row [OF assms(1) t] by blast
  have "x = Some r"
  proof (cases x)
    case None
    with get_row [OF assms(1) t] x assms(2,3) show ?thesis by auto
  next
    case (Some q)
    with get_row [OF assms(1) t] x have q: "row s (ir_id q) = Some q" "same_key scope h q" by auto
    with row_key [OF assms(1) q(1) assms(2)] assms(2,3) Some show ?thesis by (auto simp: same_key_def)
  qed
  with t x wf_apply [OF assms(1), of db_now "Get_by_scope_and_key_hash scope h"] show ?thesis by auto
qed

lemma create_existing:
  assumes "wf s" and "row s i = Some r" and "same_key (ir_scope q) (ir_key_hash q) r"
  shows "\<exists>t. apply_call db_now (Create_processing q) s = (t, Created None) \<and> row t = row s \<and> wf t"
proof -
  obtain t x where t: "apply_call db_now (Create_processing q) s = (t, Created x)"
    using create_reply [of db_now q s] by (metis prod.collapse)
  have "x = None"
  proof (cases x)
    case (Some j)
    with create_new [OF assms(1)] t assms(2,3) show ?thesis by fastforce
  qed simp
  with t create_taken [OF assms(1)] wf_apply [OF assms(1), of db_now "Create_processing q"]
  show ?thesis by auto
qed

lemma reclaim_existing:
  assumes "wf s" and "row s i = Some r"
  shows "\<exists>t. apply_call db_now (Try_reclaim i st now l e) s =
           (t, Taken (ir_status r = st \<and> lock_passed now r)) \<and> wf t \<and>
         (\<not> (ir_status r = st \<and> lock_passed now r) \<longrightarrow> row t = row s)"
proof -
  obtain t rep where t: "apply_call db_now (Try_reclaim i st now l e) s = (t, rep)" by fastforce
  obtain b where b: "rep = Taken b" using reclaim_row [OF assms(1) t] by blast
  have "b \<longleftrightarrow> ir_status r = st \<and> lock_passed now r"
    using reclaim_row [OF assms(1) t] b assms(2) by (cases b) auto
  moreover have "\<not> b \<Longrightarrow> row t = row s" using reclaim_row [OF assms(1) t] b by auto
  ultimately show ?thesis
    using t b wf_apply [OF assms(1), of db_now "Try_reclaim i st now l e"] by auto
qed

end

text \<open>The calls of one client with nothing in between, all answered at one time.\<close>

type_synonym 's apply_fn = "instant \<Rightarrow> repo_call \<Rightarrow> 's \<Rightarrow> 's \<times> repo_reply"

fun serve_calls :: "('p \<Rightarrow> repo_call option) \<Rightarrow> ('p \<Rightarrow> repo_reply \<Rightarrow> 'p) \<Rightarrow> nat \<Rightarrow> 's apply_fn \<Rightarrow> instant \<Rightarrow>
    'p \<times> 's \<Rightarrow> 'p \<times> 's" where
  "serve_calls call adv 0 f t x = x"
| "serve_calls call adv (Suc n) f t (ph, s) =
     (case call ph of
        None \<Rightarrow> (ph, s)
      | Some c \<Rightarrow> (case f t c s of (s', rep) \<Rightarrow> serve_calls call adv n f t (adv ph rep, s')))"

lemma serve_call:
  "call ph = Some k \<Longrightarrow> f t k s = (s', rep) \<Longrightarrow>
     serve_calls call adv (Suc n) f t (ph, s) = serve_calls call adv n f t (adv ph rep, s')"
  by simp

section \<open>The table implements the interface\<close>

definition table_row :: "idem_table \<Rightarrow> int \<Rightarrow> idem_record option" where
  "table_row tb i = find (\<lambda>r. ir_id r = i) (tb_rows tb)"

definition table_wf :: "idem_table \<Rightarrow> bool" where
  "table_wf tb \<longleftrightarrow>
     distinct (map ir_id (tb_rows tb)) \<and>
     distinct (map (\<lambda>r. (ir_scope r, ir_key_hash r)) (tb_rows tb)) \<and>
     (\<forall>r \<in> set (tb_rows tb). 0 < ir_id r \<and> ir_id r < tb_next_id tb) \<and> 0 < tb_next_id tb"

lemma table_row_iff:
  "table_wf tb \<Longrightarrow> table_row tb i = Some r \<longleftrightarrow> r \<in> set (tb_rows tb) \<and> ir_id r = i"
proof
  assume wf: "table_wf tb" and r: "r \<in> set (tb_rows tb) \<and> ir_id r = i"
  then obtain r' where r': "find (\<lambda>r. ir_id r = i) (tb_rows tb) = Some r'"
    by (cases "find (\<lambda>r. ir_id r = i) (tb_rows tb)") (auto simp: find_None_iff)
  then have "r' \<in> set (tb_rows tb)" "ir_id r' = i"
    by (auto simp: find_Some_iff)
  with r wf have "r' = r" by (auto simp: table_wf_def distinct_map dest: inj_onD)
  with r' show "table_row tb i = Some r" by (simp add: table_row_def)
qed (auto simp: table_row_def find_Some_iff)

lemma table_row_none: "table_row tb i = None \<longleftrightarrow> i \<notin> ir_id ` set (tb_rows tb)"
  by (auto simp: table_row_def find_None_iff)

text \<open>An update of the rows under one rid that keeps their identity.\<close>

definition keeps_key :: "(idem_record \<Rightarrow> idem_record) \<Rightarrow> bool" where
  "keeps_key f \<longleftrightarrow> (\<forall>r. ir_id (f r) = ir_id r \<and> ir_scope (f r) = ir_scope r \<and> ir_key_hash (f r) = ir_key_hash r)"

lemma update_where_wf:
  assumes "table_wf tb" and "keeps_key f"
  shows "table_wf (fst (update_where p f tb))"
proof -
  let ?g = "\<lambda>r. if p r then f r else r"
  have "ir_id (?g r) = ir_id r" "ir_scope (?g r) = ir_scope r" "ir_key_hash (?g r) = ir_key_hash r" for r
    using assms(2) by (auto simp: keeps_key_def)
  then have "map ir_id (map ?g rs) = map ir_id rs"
    "map (\<lambda>r. (ir_scope r, ir_key_hash r)) (map ?g rs) = map (\<lambda>r. (ir_scope r, ir_key_hash r)) rs" for rs
    by (induction rs) auto
  then show ?thesis
    using assms by (auto simp: table_wf_def update_where_def keeps_key_def simp del: map_map)
qed

lemma update_where_row:
  assumes "keeps_key f" and "\<And>r. p r \<Longrightarrow> ir_id r = i"
  shows "table_row (fst (update_where p f tb)) =
           (table_row tb)(i := map_option (\<lambda>r. if p r then f r else r) (table_row tb i))"
proof
  fix j
  have "find (\<lambda>r. ir_id r = j) (map (\<lambda>r. if p r then f r else r) rs) =
          map_option (\<lambda>r. if p r then f r else r) (find (\<lambda>r. ir_id r = j) rs)" for rs
    using assms(1) by (induction rs) (auto simp: keeps_key_def)
  moreover have "map_option (\<lambda>r. if p r then f r else r) (find (\<lambda>r. ir_id r = j) rs) =
          find (\<lambda>r. ir_id r = j) rs" if "j \<noteq> i" for rs
    using assms(2) that by (cases "find (\<lambda>r. ir_id r = j) rs") (auto dest: find_SomeD)
  ultimately show "table_row (fst (update_where p f tb)) j =
      ((table_row tb)(i := map_option (\<lambda>r. if p r then f r else r) (table_row tb i))) j"
    by (auto simp: table_row_def update_where_def)
qed

lemma update_where_count:
  assumes "table_wf tb" and "\<And>r. p r \<Longrightarrow> ir_id r = i"
  shows "0 < snd (update_where p f tb) \<longleftrightarrow> (\<exists>r. table_row tb i = Some r \<and> p r)"
proof -
  have "0 < length (filter p (tb_rows tb)) \<longleftrightarrow> (\<exists>r \<in> set (tb_rows tb). p r)"
    by (auto simp: filter_empty_conv)
  with assms show ?thesis by (auto simp: update_where_def table_row_iff)
qed

lemma create_processing_row:
  assumes "table_wf tb" and "create_processing db_now r tb = (tb', Some i)"
  shows "table_row tb i = None" and "i \<noteq> 0"
    and "\<And>j r'. table_row tb j = Some r' \<Longrightarrow> \<not> same_key (ir_scope r) (ir_key_hash r) r'"
    and "\<exists>r'. table_row tb' = (table_row tb)(i \<mapsto> r') \<and> same_key (ir_scope r) (ir_key_hash r) r' \<and>
        ir_fingerprint r' = ir_fingerprint r \<and> ir_status r' = ir_status r \<and>
        ir_locked_until r' = ir_locked_until r \<and> ir_expires_at r' = ir_expires_at r"
proof -
  have free: "\<not> list_ex (same_key (ir_scope r) (ir_key_hash r)) (tb_rows tb)" and i: "i = tb_next_id tb"
    using assms(2) by (auto simp: create_processing_def Let_def split: if_splits)
  show none: "table_row tb i = None"
    using assms(1) i by (auto simp: table_row_none table_wf_def)
  show "i \<noteq> 0" using assms(1) i by (simp add: table_wf_def)
  show "\<not> same_key (ir_scope r) (ir_key_hash r) r'" if "table_row tb j = Some r'" for j r'
    using that free assms(1) by (auto simp: table_row_iff list_ex_iff)
  obtain r' where r': "tb_rows tb' = tb_rows tb @ [r']" "ir_id r' = i"
    "same_key (ir_scope r) (ir_key_hash r) r'" "ir_fingerprint r' = ir_fingerprint r"
    "ir_status r' = ir_status r" "ir_locked_until r' = ir_locked_until r" "ir_expires_at r' = ir_expires_at r"
    using assms(2) free i by (auto simp: create_processing_def Let_def same_key_def)
  have "table_row tb' j = ((table_row tb)(i \<mapsto> r')) j" for j
    using none r'(2) by (auto simp: table_row_def r'(1) find_append_cases split: option.splits)
  then have "table_row tb' = (table_row tb)(i \<mapsto> r')" by (rule ext)
  with r' show "\<exists>r'. table_row tb' = (table_row tb)(i \<mapsto> r') \<and> same_key (ir_scope r) (ir_key_hash r) r' \<and>
        ir_fingerprint r' = ir_fingerprint r \<and> ir_status r' = ir_status r \<and>
        ir_locked_until r' = ir_locked_until r \<and> ir_expires_at r' = ir_expires_at r"
    by blast
qed

lemma create_processing_wf:
  assumes "table_wf tb"
  shows "table_wf (fst (create_processing db_now r tb))"
proof (cases "list_ex (same_key (ir_scope r) (ir_key_hash r)) (tb_rows tb)")
  case True
  with assms show ?thesis by (auto simp: table_wf_def create_processing_def Let_def)
next
  case False
  then have "(ir_scope r, ir_key_hash r) \<notin> (\<lambda>r. (ir_scope r, ir_key_hash r)) ` set (tb_rows tb)"
    by (auto simp: list_ex_iff same_key_def)
  moreover have "tb_next_id tb \<notin> ir_id ` set (tb_rows tb)"
    using assms by (auto simp: table_wf_def)
  ultimately show ?thesis
    using assms False by (auto simp: table_wf_def create_processing_def Let_def)
qed

lemma delete_expired_row:
  assumes "table_wf tb"
  shows "table_row (fst (delete_expired now limit tb)) i = table_row tb i \<or>
    (table_row (fst (delete_expired now limit tb)) i = None \<and>
     (\<forall>r. table_row tb i = Some r \<longrightarrow> ir_expires_at r \<le> now))"
proof -
  let ?old = "sort_key ir_expires_at (filter (\<lambda>r. ir_expires_at r \<le> now) (tb_rows tb))"
  let ?n = "nat (if limit \<le> 0 then 500 else limit)"
  let ?v = "set (map ir_id (take ?n ?old))"
  have rows: "tb_rows (fst (delete_expired now limit tb)) = filter (\<lambda>r. ir_id r \<notin> ?v) (tb_rows tb)"
    by (simp add: delete_expired_def Let_def)
  have find: "find (\<lambda>r. ir_id r = i) (filter (\<lambda>r. ir_id r \<notin> ?v) rs) =
      (if i \<in> ?v then None else find (\<lambda>r. ir_id r = i) rs)" for rs
    by (induction rs) auto
  have "ir_expires_at r \<le> now" if "i \<in> ?v" "table_row tb i = Some r" for r
  proof -
    from that(1) obtain r' where r': "r' \<in> set (take ?n ?old)" "ir_id r' = i" by auto
    then have "r' \<in> set ?old" using set_take_subset by fastforce
    then have r'': "r' \<in> set (tb_rows tb)" "ir_expires_at r' \<le> now" by auto
    then have "table_row tb i = Some r'" using r'(2) assms by (simp add: table_row_iff)
    with that(2) r'' show ?thesis by simp
  qed
  note old = this
  have eq: "table_row (fst (delete_expired now limit tb)) i = (if i \<in> ?v then None else table_row tb i)"
    unfolding table_row_def rows by (rule find)
  show ?thesis
  proof (cases "i \<in> ?v")
    case True
    with eq have "table_row (fst (delete_expired now limit tb)) i = None" by (simp only: if_True)
    with old True show ?thesis by blast
  next
    case False
    with eq show ?thesis by (simp only: if_False simp_thms)
  qed
qed

lemma filter_wf: "table_wf tb \<Longrightarrow> table_wf (tb\<lparr>tb_rows := filter P (tb_rows tb)\<rparr>)"
  by (simp add: table_wf_def distinct_map_filter)

lemma delete_expired_wf: "table_wf tb \<Longrightarrow> table_wf (fst (delete_expired now limit tb))"
  unfolding delete_expired_def Let_def fst_conv by (rule filter_wf)

lemma table_apply_wf: "table_wf tb \<Longrightarrow> table_wf (fst (table_apply db_now c tb))"
  by (cases c) (simp_all add: try_reclaim_def extend_processing_lock_def mark_succeeded_def
      mark_failed_retryable_def case_prod_beta create_processing_wf delete_expired_wf
      update_where_wf keeps_key_def)

lemma get_row_table:
  assumes "table_wf tb"
  shows "get_by_scope_and_key_hash scope h tb = Some r \<Longrightarrow> table_row tb (ir_id r) = Some r \<and> same_key scope h r"
    and "get_by_scope_and_key_hash scope h tb = None \<Longrightarrow> table_row tb i = Some r \<Longrightarrow> \<not> same_key scope h r"
  using assms
  by (auto simp: get_by_scope_and_key_hash_def table_row_iff find_None_iff dest: find_SomeD)

lemma row_key_table:
  assumes "table_wf tb" and "table_row tb i = Some r" and "table_row tb j = Some r'"
    and "ir_scope r = ir_scope r'" and "ir_key_hash r = ir_key_hash r'"
  shows "i = j"
proof -
  have "r \<in> set (tb_rows tb)" "ir_id r = i" "r' \<in> set (tb_rows tb)" "ir_id r' = j"
    using assms(1-3) by (simp_all add: table_row_iff)
  moreover from this have "r = r'"
    using assms(1,4,5) by (auto simp: table_wf_def distinct_map dest: inj_onD)
  ultimately show ?thesis by simp
qed

text \<open>One \<open>UPDATE\<close> on the row of an id, as a change of the rows and a reply.\<close>

lemma update_one:
  assumes "table_wf tb" and "keeps_key f" and "\<And>r. p r \<longleftrightarrow> ir_id r = i \<and> q r"
    and "update_where p f tb = (tb', n)"
  shows "if 0 < n then \<exists>r. table_row tb i = Some r \<and> q r \<and> table_row tb' = (table_row tb)(i \<mapsto> f r)
         else table_row tb' = table_row tb \<and> (\<forall>r. table_row tb i = Some r \<longrightarrow> \<not> q r)"
proof -
  have row: "table_row tb' = (table_row tb)(i := map_option (\<lambda>r. if p r then f r else r) (table_row tb i))"
    using update_where_row [OF assms(2), of p i tb] assms(3,4) by simp
  have n: "0 < n \<longleftrightarrow> (\<exists>r. table_row tb i = Some r \<and> p r)"
    using update_where_count [OF assms(1), of p i f] assms(3,4) by simp
  have id: "ir_id r = i" if "table_row tb i = Some r" for r
    using that assms(1) by (simp add: table_row_iff)
  show ?thesis
  proof (cases "table_row tb i")
    case None
    with row n show ?thesis by auto
  next
    case (Some r)
    then have "p r \<longleftrightarrow> q r" using assms(3) id by simp
    with Some row n show ?thesis by (cases "q r") (simp_all add: map_upd_triv)
  qed
qed

lemma mark_row:
  assumes "keeps_key f"
  shows "table_row (fst (update_where (\<lambda>r. ir_id r = i) f tb)) =
           (table_row tb)(i := map_option f (table_row tb i))"
proof -
  have "map_option (\<lambda>r. if ir_id r = i then f r else r) (table_row tb i) = map_option f (table_row tb i)"
  proof (cases "table_row tb i")
    case (Some r)
    with find_SomeD [OF Some [unfolded table_row_def]] show ?thesis by simp
  qed simp
  with update_where_row [OF assms, of "\<lambda>r. ir_id r = i" i tb] show ?thesis by simp
qed

interpretation table: idempotency_repo table_apply table_row table_wf
proof unfold_locales
  fix s t :: idem_table and db_now now l e :: instant and c r r' i j scope h rep st limit
    and from_st fp body reason :: string
  assume wf: "table_wf s"
  show "table_wf (fst (table_apply db_now c s))" using wf by (rule table_apply_wf)
  show "ir_id r = i \<and> i \<noteq> 0" if "table_row s i = Some r"
    using wf that by (auto simp: table_row_iff table_wf_def)
  show "i = j" if "table_row s i = Some r" "table_row s j = Some r'"
    "ir_scope r = ir_scope r'" "ir_key_hash r = ir_key_hash r'"
    using wf that by (rule row_key_table)
  show "table_row s i = None \<and> i \<noteq> 0 \<and>
      (\<forall>j r'. table_row s j = Some r' \<longrightarrow> \<not> same_key (ir_scope r) (ir_key_hash r) r') \<and>
      (\<exists>r'. table_row t = (table_row s)(i \<mapsto> r') \<and> same_key (ir_scope r) (ir_key_hash r) r' \<and>
        ir_fingerprint r' = ir_fingerprint r \<and> ir_status r' = ir_status r \<and>
        ir_locked_until r' = ir_locked_until r \<and> ir_expires_at r' = ir_expires_at r)"
    if "table_apply db_now (Create_processing r) s = (t, Created (Some i))"
  proof -
    have "create_processing db_now r s = (t, Some i)"
      using that by (simp split: prod.splits)
    from create_processing_row [OF wf this] show ?thesis by blast
  qed
  show "table_row t = table_row s" if "table_apply db_now (Create_processing r) s = (t, Created None)"
    using that by (auto simp: create_processing_def table_row_def Let_def split: prod.splits if_splits)
  show "table_row t = table_row s \<and> (\<exists>x. rep = Found x \<and>
        (\<forall>r. x = Some r \<longrightarrow> table_row s (ir_id r) = Some r \<and> same_key scope h r) \<and>
        (x = None \<longrightarrow> (\<forall>i r. table_row s i = Some r \<longrightarrow> \<not> same_key scope h r)))"
    if "table_apply db_now (Get_by_scope_and_key_hash scope h) s = (t, rep)"
    using that get_row_table [OF wf] by auto
  show "\<exists>b. rep = Taken b \<and>
        (if b then \<exists>r. table_row s i = Some r \<and> ir_status r = from_st \<and> lock_passed now r \<and>
            table_row t = (table_row s)(i \<mapsto> r\<lparr>ir_status := status_processing, ir_locked_until := Some l,
              ir_error_reason := None, ir_updated_at := db_now, ir_expires_at := e\<rparr>)
         else table_row t = table_row s \<and>
            (\<forall>r. table_row s i = Some r \<longrightarrow> ir_status r \<noteq> from_st \<or> \<not> lock_passed now r))"
    if "table_apply db_now (Try_reclaim i from_st now l e) s = (t, rep)"
  proof -
    let ?p = "\<lambda>r. ir_id r = i \<and> ir_status r = from_st \<and>
             (case ir_locked_until r of None \<Rightarrow> True | Some l \<Rightarrow> l \<le> now)"
    let ?f = "\<lambda>r. r\<lparr>ir_status := status_processing, ir_locked_until := Some l,
               ir_error_reason := None, ir_updated_at := db_now, ir_expires_at := e\<rparr>"
    obtain tb' n where u: "update_where ?p ?f s = (tb', n)" by fastforce
    have "t = tb'" "rep = Taken (0 < n)" using that u by (simp_all add: try_reclaim_def)
    with update_one [OF wf _ _ u, of i "\<lambda>r. ir_status r = from_st \<and> lock_passed now r"]
    show ?thesis by (cases "0 < n") (auto simp: keeps_key_def lock_passed_def)
  qed
  show "\<exists>b. rep = Taken b \<and>
        (if b then \<exists>r. table_row s i = Some r \<and> ir_status r = status_processing \<and> ir_fingerprint r = fp \<and>
            table_row t = (table_row s)(i \<mapsto> r\<lparr>ir_locked_until := Some l, ir_expires_at := e, ir_updated_at := db_now\<rparr>)
         else table_row t = table_row s \<and>
            (\<forall>r. table_row s i = Some r \<longrightarrow> ir_status r \<noteq> status_processing \<or> ir_fingerprint r \<noteq> fp))"
    if "table_apply db_now (Extend_processing_lock i fp l e) s = (t, rep)"
  proof -
    let ?p = "\<lambda>r. ir_id r = i \<and> ir_status r = status_processing \<and> ir_fingerprint r = fp"
    let ?f = "\<lambda>r. r\<lparr>ir_locked_until := Some l, ir_expires_at := e, ir_updated_at := db_now\<rparr>"
    obtain tb' n where u: "update_where ?p ?f s = (tb', n)" by fastforce
    have "t = tb'" "rep = Taken (0 < n)" using that u by (simp_all add: extend_processing_lock_def)
    with update_one [OF wf _ _ u, of i "\<lambda>r. ir_status r = status_processing \<and> ir_fingerprint r = fp"]
    show ?thesis by (cases "0 < n") (auto simp: keeps_key_def)
  qed
  show "rep = Marked \<and> table_row t = (table_row s)(i := map_option (\<lambda>r. r\<lparr>ir_status := status_succeeded,
        ir_response_status := Some st, ir_response_body := Some body, ir_error_reason := None,
        ir_locked_until := None, ir_expires_at := e, ir_updated_at := db_now\<rparr>) (table_row s i))"
    if "table_apply db_now (Mark_succeeded i st body e) s = (t, rep)"
    using that by (auto simp: mark_succeeded_def mark_row keeps_key_def)
  show "rep = Marked \<and> table_row t = (table_row s)(i := map_option (\<lambda>r. r\<lparr>ir_status := status_failed_retryable,
        ir_error_reason := Some reason, ir_locked_until := Some l, ir_expires_at := e,
        ir_updated_at := db_now\<rparr>) (table_row s i))"
    if "table_apply db_now (Mark_failed_retryable i reason l e) s = (t, rep)"
    using that by (auto simp: mark_failed_retryable_def mark_row keeps_key_def)
  show "table_row t i = table_row s i \<or> (table_row t i = None \<and>
      (\<forall>r. table_row s i = Some r \<longrightarrow> ir_expires_at r \<le> now))"
    if "table_apply db_now (Delete_expired now limit) s = (t, rep)"
    using that delete_expired_row [OF wf, of now limit i] by (auto split: prod.splits)
qed (simp split: prod.splits)

end
