(* ===== verification/Idempotency.thy ===== *)
theory Idempotency
  imports IdempotencyStore GoJson
begin

text \<open>
  The idempotency coordinator (backend/internal/service/idempotency.go). \<open>Execute\<close> is cut at its
  repository calls: a phase is what the function holds between two calls, \<open>phase_call\<close> the call it
  makes next, and \<open>advance\<close> what it does with the reply up to the next call. The phases of many
  requests and the table then make up a system whose steps interleave as the processes of the
  server do. A stored text counts as decodable when it is valid JSON; numbers
  beyond the range of a float64 are not singled out. SHA-256 over the key and over the fingerprint text, the JSON rendering of payload and
  data, and the redaction of the stored text are arguments. Metrics and audit logs are left out.
\<close>

section \<open>Configuration, options, errors\<close>

record idem_config =
  ic_default_ttl :: duration
  ic_system_operation_ttl :: duration
  ic_processing_timeout :: duration
  ic_failed_retry_backoff :: duration
  ic_max_stored_response_len :: int
  ic_observe_only :: bool

definition default_idempotency_config :: idem_config where
  "default_idempotency_config =
     \<lparr>ic_default_ttl = 24 * hour, ic_system_operation_ttl = 1 * hour,
      ic_processing_timeout = 30 * second, ic_failed_retry_backoff = 5 * second,
      ic_max_stored_response_len = 64 * 1024, ic_observe_only = True\<rparr>"

record idem_options =
  io_scope :: string
  io_actor_scope :: string
  io_method :: string
  io_route :: string
  io_idempotency_key :: string
  io_payload :: "string option"     \<comment> \<open>\<open>json.Marshal(payload)\<close>; \<open>None\<close> when it fails\<close>
  io_ttl :: duration
  io_require_key :: bool
  io_execution_timeout :: duration

datatype idem_error =
    Key_required | Key_invalid | Key_conflict
  | In_progress "int option"          \<comment> \<open>the \<open>retry_after\<close> metadata\<close>
  | Retry_backoff "int option"
  | Store_unavailable | Payload_invalid | Scope_required | Executor_nil
  | Execution_failed string           \<comment> \<open>the executor's error, with its reason\<close>

datatype idem_result = Executed string | Replayed string   \<comment> \<open>the data, as JSON text\<close>

section \<open>Helpers\<close>

definition normalize_idempotency_key :: "string \<Rightarrow> idem_error + string" where
  "normalize_idempotency_key raw =
     (let key = trim_space raw in
      if key = [] then Inr []
      else if 128 < length key then Inl Key_invalid
      else if list_ex (\<lambda>c. (of_char c :: nat) < 33 \<or> 126 < (of_char c :: nat)) key then Inl Key_invalid
      else Inr key)"

definition ascii_upper_char :: "char \<Rightarrow> char" where
  "ascii_upper_char c =
     (if 97 \<le> (of_char c :: nat) \<and> (of_char c :: nat) \<le> 122 then char_of ((of_char c :: nat) - 32) else c)"

text \<open>The text that is hashed; \<open>strings.ToUpper\<close> on the method, an ASCII word.\<close>

definition fingerprint_text :: "idem_options \<Rightarrow> string \<Rightarrow> string" where
  "fingerprint_text opts raw =
     (let mth = (if io_method opts = [] then ''POST'' else io_method opts);
          route = (if io_route opts = [] then ''/'' else io_route opts);
          actor = (if io_actor_scope opts = [] then ''anonymous'' else io_actor_scope opts)
      in map ascii_upper_char mth @ [CHR 0x0A] @ route @ [CHR 0x0A] @ actor @ [CHR 0x0A] @ raw)"

definition build_idempotency_fingerprint :: "(string \<Rightarrow> string) \<Rightarrow> idem_options \<Rightarrow> idem_error + string" where
  "build_idempotency_fingerprint sha256_hex opts =
     (case io_payload opts of
        None \<Rightarrow> Inl Payload_invalid
      | Some raw \<Rightarrow> Inr (sha256_hex (fingerprint_text opts raw)))"

text \<open>\<open>int(lockedUntil.Sub(now).Seconds())\<close>: whole seconds, rounded toward zero.\<close>

definition whole_seconds :: "duration \<Rightarrow> int" where
  "whole_seconds d = sgn d * (\<bar>d\<bar> div second)"

definition retry_after :: "instant option \<Rightarrow> instant \<Rightarrow> int option" where
  "retry_after locked_until now =
     (case locked_until of
        None \<Rightarrow> None
      | Some l \<Rightarrow> let sec = whole_seconds (time_sub l now) in Some (if sec \<le> 0 then 1 else sec))"

definition conflict_with_retry_after :: "(int option \<Rightarrow> idem_error) \<Rightarrow> instant option \<Rightarrow> instant \<Rightarrow> idem_error" where
  "conflict_with_retry_after base locked_until now = base (retry_after locked_until now)"

function utf8_cut :: "nat \<Rightarrow> string \<Rightarrow> nat" where
  "utf8_cut n s = (if 0 < n \<and> \<not> utf8_valid (take n s) then utf8_cut (n - 1) s else n)"
  by pat_completeness auto
termination by (relation "measure fst") auto

declare utf8_cut.simps [simp del]

definition truncate_utf8 :: "string \<Rightarrow> int \<Rightarrow> string" where
  "truncate_utf8 s max_bytes =
     (if max_bytes \<le> 0 \<or> int (length s) \<le> max_bytes then s
      else take (utf8_cut (nat max_bytes) s) s)"

definition truncated_suffix :: string where
  "truncated_suffix = ''...(truncated)''"

definition marshal_stored_response :: "(string \<Rightarrow> string) \<Rightarrow> idem_config \<Rightarrow> string option \<Rightarrow> string option" where
  "marshal_stored_response redact cfg data =
     (case data of
        None \<Rightarrow> None
      | Some raw \<Rightarrow>
          let redacted = redact raw in
          Some (if 0 < ic_max_stored_response_len cfg
                   \<and> ic_max_stored_response_len cfg < int (length redacted)
                then truncate_utf8 redacted (ic_max_stored_response_len cfg) @ truncated_suffix
                else redacted))"

definition decode_stored_response :: "string option \<Rightarrow> string option" where
  "decode_stored_response stored =
     (case stored of
        None \<Rightarrow> Some ''{}''
      | Some text \<Rightarrow> if trim_space text = [] then Some ''{}''
                    else if json_valid text then Some text else None)"

section \<open>The phases of Execute\<close>

record idem_claim =
  cl_scope :: string
  cl_key_hash :: string
  cl_fingerprint :: string
  cl_now :: instant
  cl_ttl :: duration
  cl_locked_until :: instant
  cl_expires_at :: instant
  cl_bounded :: bool        \<comment> \<open>\<open>opts.ExecutionTimeout > 0\<close>\<close>

datatype idem_phase =
    Unkeyed                                       \<comment> \<open>running without a record\<close>
  | Creating idem_claim
  | Getting idem_claim
  | Reclaiming_expired idem_claim idem_record
  | Getting_again idem_claim
  | Reclaiming_failed idem_claim idem_record
  | Running idem_claim int
  | Persisting_failure idem_claim int string instant instant string
  | Persisting_success idem_claim int string string instant
  | Finished "idem_error + idem_result"

definition start_execute :: "(string \<Rightarrow> string) \<Rightarrow> idem_config \<Rightarrow> bool \<Rightarrow> bool \<Rightarrow> idem_options \<Rightarrow> instant \<Rightarrow> idem_phase" where
  "start_execute sha256_hex cfg executor_nil repo_nil opts now =
     (if executor_nil then Finished (Inl Executor_nil)
      else case normalize_idempotency_key (io_idempotency_key opts) of
        Inl err \<Rightarrow> Finished (Inl err)
      | Inr key \<Rightarrow>
          if key = [] then
            (if io_require_key opts \<and> \<not> ic_observe_only cfg then Finished (Inl Key_required) else Unkeyed)
          else if repo_nil then Finished (Inl Store_unavailable)
          else if io_scope opts = [] then Finished (Inl Scope_required)
          else case build_idempotency_fingerprint sha256_hex opts of
            Inl err \<Rightarrow> Finished (Inl err)
          | Inr fingerprint \<Rightarrow>
              let ttl = (if io_ttl opts \<le> 0 then ic_default_ttl cfg else io_ttl opts) in
              Creating \<lparr>cl_scope = io_scope opts, cl_key_hash = sha256_hex key,
                cl_fingerprint = fingerprint, cl_now = now, cl_ttl = ttl,
                cl_locked_until = now + ic_processing_timeout cfg, cl_expires_at = now + ttl,
                cl_bounded = (0 < io_execution_timeout opts)\<rparr>)"

definition claim_record :: "idem_claim \<Rightarrow> idem_record" where
  "claim_record c =
     \<lparr>ir_id = 0, ir_scope = cl_scope c, ir_key_hash = cl_key_hash c,
      ir_fingerprint = cl_fingerprint c, ir_status = status_processing, ir_response_status = None,
      ir_response_body = None, ir_error_reason = None, ir_locked_until = Some (cl_locked_until c),
      ir_expires_at = cl_expires_at c, ir_created_at = 0, ir_updated_at = 0\<rparr>"

fun phase_call :: "idem_phase \<Rightarrow> repo_call option" where
  "phase_call (Creating c) = Some (Create_processing (claim_record c))"
| "phase_call (Getting c) = Some (Get_by_scope_and_key_hash (cl_scope c) (cl_key_hash c))"
| "phase_call (Reclaiming_expired c r) =
     Some (Try_reclaim (ir_id r) (ir_status r) (cl_now c) (cl_locked_until c) (cl_expires_at c))"
| "phase_call (Getting_again c) = Some (Get_by_scope_and_key_hash (cl_scope c) (cl_key_hash c))"
| "phase_call (Reclaiming_failed c r) =
     Some (Try_reclaim (ir_id r) status_failed_retryable (cl_now c) (cl_locked_until c) (cl_expires_at c))"
| "phase_call (Persisting_failure c rid reason backoff expires err) =
     Some (Mark_failed_retryable rid reason backoff expires)"
| "phase_call (Persisting_success c rid body data expires) = Some (Mark_succeeded rid 200 body expires)"
| "phase_call _ = None"

text \<open>The \<open>record.ID == 0\<close> check before the executor runs.\<close>

definition run_with :: "idem_claim \<Rightarrow> int \<Rightarrow> idem_phase" where
  "run_with c rid = (if rid = 0 then Finished (Inl Store_unavailable) else Running c rid)"

definition decide_by_status :: "idem_claim \<Rightarrow> idem_record \<Rightarrow> idem_phase" where
  "decide_by_status c r =
     (if ir_status r = status_succeeded then
        (case decode_stored_response (ir_response_body r) of
           None \<Rightarrow> Finished (Inl Store_unavailable)
         | Some data \<Rightarrow> Finished (Inr (Replayed data)))
      else if ir_status r = status_processing then
        Finished (Inl (conflict_with_retry_after In_progress (ir_locked_until r) (cl_now c)))
      else if ir_status r = status_failed_retryable then
        (if (case ir_locked_until r of None \<Rightarrow> False | Some l \<Rightarrow> cl_now c < l)
         then Finished (Inl (conflict_with_retry_after Retry_backoff (ir_locked_until r) (cl_now c)))
         else Reclaiming_failed c r)
      else Finished (Inl Key_conflict))"

definition examine :: "idem_claim \<Rightarrow> idem_record \<Rightarrow> idem_phase" where
  "examine c r =
     (if ir_fingerprint r \<noteq> cl_fingerprint c then Finished (Inl Key_conflict)
      else if \<not> cl_now c < ir_expires_at r then Reclaiming_expired c r
      else decide_by_status c r)"

definition examine_latest :: "idem_claim \<Rightarrow> idem_record \<Rightarrow> idem_phase" where
  "examine_latest c r =
     (if ir_fingerprint r \<noteq> cl_fingerprint c then Finished (Inl Key_conflict)
      else decide_by_status c r)"

definition unavailable :: idem_phase where
  "unavailable = Finished (Inl Store_unavailable)"

fun advance :: "idem_phase \<Rightarrow> repo_reply \<Rightarrow> idem_phase" where
  "advance (Creating c) (Created (Some rid)) = run_with c rid"
| "advance (Creating c) (Created None) = Getting c"
| "advance (Getting c) (Found (Some r)) = examine c r"
| "advance (Reclaiming_expired c r) (Taken b) = (if b then run_with c (ir_id r) else Getting_again c)"
| "advance (Getting_again c) (Found (Some r)) = examine_latest c r"
| "advance (Reclaiming_failed c r) (Taken b) =
     (if b then run_with c (ir_id r)
      else Finished (Inl (conflict_with_retry_after In_progress (ir_locked_until r) (cl_now c))))"
| "advance (Persisting_failure c rid reason backoff expires err) _ = Finished (Inl (Execution_failed err))"
| "advance (Persisting_success c rid body data expires) Marked = Finished (Inr (Executed data))"
| "advance _ _ = unavailable"

text \<open>
  The executor ends at \<open>now\<close>: with an error and its reason, or with data and its rendering as JSON
  (\<open>None\<close> when that fails).
\<close>

datatype exec_outcome = Exec_error string | Exec_data string "string option"

fun exec_end :: "(string \<Rightarrow> string) \<Rightarrow> idem_config \<Rightarrow> instant \<Rightarrow> exec_outcome \<Rightarrow> idem_phase \<Rightarrow> idem_phase" where
  "exec_end redact cfg now (Exec_error reason) Unkeyed = Finished (Inl (Execution_failed reason))"
| "exec_end redact cfg now (Exec_data data json) Unkeyed = Finished (Inr (Executed data))"
| "exec_end redact cfg now (Exec_error reason) (Running c rid) =
     Persisting_failure c rid (if reason = [] then ''EXECUTION_FAILED'' else reason)
       (now + ic_failed_retry_backoff cfg)
       (if cl_bounded c then now + cl_ttl c else cl_expires_at c) reason"
| "exec_end redact cfg now (Exec_data data json) (Running c rid) =
     (case marshal_stored_response redact cfg json of
        None \<Rightarrow> unavailable
      | Some body \<Rightarrow>
          Persisting_success c rid body data
            (if cl_bounded c then now + cl_ttl c else cl_expires_at c))"
| "exec_end redact cfg now outcome ph = ph"

text \<open>The lease renewed while the executor runs, one tick of \<open>renewProcessingLease\<close> at \<open>now\<close>.\<close>

definition renew_lease :: "idem_config \<Rightarrow> duration" where
  "renew_lease cfg = (if ic_processing_timeout cfg \<le> 0
     then ic_processing_timeout default_idempotency_config else ic_processing_timeout cfg)"

definition renew_interval :: "idem_config \<Rightarrow> duration \<Rightarrow> duration" where
  "renew_interval cfg ttl =
     (let interval = min (quot (renew_lease cfg) 3) (quot ttl 3) in
      if interval < millisecond then millisecond else interval)"

definition renew_call :: "idem_config \<Rightarrow> instant \<Rightarrow> idem_claim \<Rightarrow> int \<Rightarrow> repo_call" where
  "renew_call cfg now c rid =
     Extend_processing_lock rid (cl_fingerprint c) (now + renew_lease cfg) (now + cl_ttl c)"

text \<open>
  The renewing goroutine of a bounded execution lives from the claim until Execute returns.
\<close>

fun lease_of :: "idem_phase \<Rightarrow> (idem_claim \<times> int) option" where
  "lease_of (Running c rid) = (if cl_bounded c then Some (c, rid) else None)"
| "lease_of (Persisting_failure c rid _ _ _ _) = (if cl_bounded c then Some (c, rid) else None)"
| "lease_of (Persisting_success c rid _ _ _) = (if cl_bounded c then Some (c, rid) else None)"
| "lease_of _ = None"

section \<open>Many requests on one store\<close>

text \<open>
  A call may be answered, may fail without effect, or may take effect and lose its reply.
  Every event carries the time at which it happens; the clock never goes back.
\<close>

datatype call_fate = Answered | Failed_without_effect | Reply_lost

record 's idem_system =
  sy_store :: 's
  sy_clients :: "idem_phase list"
  sy_clock :: instant

datatype idem_event =
    Arrive bool idem_options instant
  | Call nat instant call_fate
  | Exec_ends nat instant exec_outcome
  | Renew nat instant call_fate
  | Cleanup instant int

fun event_time :: "idem_event \<Rightarrow> instant" where
  "event_time (Arrive _ _ t) = t"
| "event_time (Call _ t _) = t"
| "event_time (Exec_ends _ t _) = t"
| "event_time (Renew _ t _) = t"
| "event_time (Cleanup t _) = t"

fun fated :: "call_fate \<Rightarrow> 's \<Rightarrow> 's \<times> repo_reply \<Rightarrow> 's \<times> repo_reply" where
  "fated Answered s out = out"
| "fated Failed_without_effect s out = (s, Repo_error)"
| "fated Reply_lost s out = (fst out, Repo_error)"

fun system_event :: "'s apply_fn \<Rightarrow> (string \<Rightarrow> string) \<Rightarrow> (string \<Rightarrow> string) \<Rightarrow> idem_config \<Rightarrow>
    's idem_system \<Rightarrow> idem_event \<Rightarrow> 's idem_system" where
  "system_event f sha redact cfg y (Arrive exec_nil opts t) =
     y\<lparr>sy_clients := sy_clients y @ [start_execute sha cfg exec_nil False opts t]\<rparr>"
| "system_event f sha redact cfg y (Call i t fate) =
     (if i < length (sy_clients y) then
        (case phase_call (sy_clients y ! i) of
           None \<Rightarrow> y
         | Some c \<Rightarrow>
             (case fated fate (sy_store y) (f t c (sy_store y)) of (s, rep) \<Rightarrow>
                y\<lparr>sy_store := s, sy_clients := (sy_clients y)[i := advance (sy_clients y ! i) rep]\<rparr>))
      else y)"
| "system_event f sha redact cfg y (Exec_ends i t outcome) =
     (if i < length (sy_clients y)
      then y\<lparr>sy_clients := (sy_clients y)[i := exec_end redact cfg t outcome (sy_clients y ! i)]\<rparr>
      else y)"
| "system_event f sha redact cfg y (Renew i t fate) =
     (if i < length (sy_clients y) then
        (case lease_of (sy_clients y ! i) of
           None \<Rightarrow> y
         | Some (c, rid) \<Rightarrow>
             y\<lparr>sy_store := fst (fated fate (sy_store y) (f t (renew_call cfg t c rid) (sy_store y)))\<rparr>)
      else y)"
| "system_event f sha redact cfg y (Cleanup t limit) =
     y\<lparr>sy_store := fst (f t (Delete_expired t limit) (sy_store y))\<rparr>"

definition system_step :: "'s apply_fn \<Rightarrow> (string \<Rightarrow> string) \<Rightarrow> (string \<Rightarrow> string) \<Rightarrow> idem_config \<Rightarrow>
    's idem_system \<Rightarrow> idem_event \<Rightarrow> 's idem_system" where
  "system_step f sha redact cfg y e = (system_event f sha redact cfg y e)\<lparr>sy_clock := event_time e\<rparr>"

text \<open>The record a client holds: from the claim until the outcome is persisted.\<close>

fun holds_record :: "idem_phase \<Rightarrow> int option" where
  "holds_record (Running c rid) = Some rid"
| "holds_record (Persisting_failure c rid _ _ _ _) = Some rid"
| "holds_record (Persisting_success c rid _ _ _) = Some rid"
| "holds_record _ = None"

text \<open>
  Within the lifetime of the records: an event comes no earlier than the clock and before any record
  in the store expires.
\<close>

definition within_lifetime :: "('s \<Rightarrow> int \<Rightarrow> idem_record option) \<Rightarrow> 's idem_system \<Rightarrow> idem_event \<Rightarrow> bool" where
  "within_lifetime row y e \<longleftrightarrow> sy_clock y \<le> event_time e \<and>
     (\<forall>i r. row (sy_store y) i = Some r \<longrightarrow> event_time e < ir_expires_at r)"

text \<open>The record of the claim's key and fingerprint under an id, and whether it is being processed.\<close>

definition claimed_row :: "('s \<Rightarrow> int \<Rightarrow> idem_record option) \<Rightarrow> 's \<Rightarrow> idem_claim \<Rightarrow> int \<Rightarrow> bool \<Rightarrow> bool" where
  "claimed_row row s c rid busy \<longleftrightarrow>
     (\<exists>r. row s rid = Some r \<and> same_key (cl_scope c) (cl_key_hash c) r \<and>
          ir_fingerprint r = cl_fingerprint c \<and> (busy \<longrightarrow> ir_status r = status_processing))"

fun phase_inv :: "('s \<Rightarrow> int \<Rightarrow> idem_record option) \<Rightarrow> 's \<Rightarrow> instant \<Rightarrow> idem_phase \<Rightarrow> bool" where
  "phase_inv row s clock (Creating c) \<longleftrightarrow> cl_now c \<le> clock"
| "phase_inv row s clock (Getting c) \<longleftrightarrow> cl_now c \<le> clock"
| "phase_inv row s clock (Reclaiming_expired c r) \<longleftrightarrow> False"
| "phase_inv row s clock (Getting_again c) \<longleftrightarrow> False"
| "phase_inv row s clock (Reclaiming_failed c r) \<longleftrightarrow> cl_now c \<le> clock \<and> claimed_row row s c (ir_id r) False"
| "phase_inv row s clock (Running c rid) \<longleftrightarrow> cl_now c \<le> clock \<and> claimed_row row s c rid True"
| "phase_inv row s clock (Persisting_failure c rid _ _ _ _) \<longleftrightarrow> cl_now c \<le> clock \<and> claimed_row row s c rid True"
| "phase_inv row s clock (Persisting_success c rid _ _ _) \<longleftrightarrow> cl_now c \<le> clock \<and> claimed_row row s c rid True"
| "phase_inv row s clock _ \<longleftrightarrow> True"

definition single_flight :: "idem_phase list \<Rightarrow> bool" where
  "single_flight phs \<longleftrightarrow>
     (\<forall>i j rid. i < length phs \<longrightarrow> j < length phs \<longrightarrow> holds_record (phs ! i) = Some rid \<longrightarrow>
        holds_record (phs ! j) = Some rid \<longrightarrow> i = j)"

definition system_inv :: "('s \<Rightarrow> int \<Rightarrow> idem_record option) \<Rightarrow> ('s \<Rightarrow> bool) \<Rightarrow> 's idem_system \<Rightarrow> bool" where
  "system_inv row good y \<longleftrightarrow> good (sy_store y) \<and> single_flight (sy_clients y) \<and>
     (\<forall>ph \<in> set (sy_clients y). phase_inv row (sy_store y) (sy_clock y) ph)"

lemma phase_inv_holds:
  "phase_inv row s clock ph \<Longrightarrow> holds_record ph = Some rid \<Longrightarrow>
     \<exists>r. row s rid = Some r \<and> ir_status r = status_processing"
  by (cases ph) (auto simp: claimed_row_def)

lemma phase_inv_later:
  assumes "phase_inv row s clock ph" and "clock \<le> clock'"
    and "\<And>i r. row s i = Some r \<Longrightarrow> \<exists>r'. row s' i = Some r' \<and> ir_scope r' = ir_scope r \<and>
           ir_key_hash r' = ir_key_hash r \<and> ir_fingerprint r' = ir_fingerprint r"
    and "\<And>i r. holds_record ph = Some i \<Longrightarrow> row s i = Some r \<Longrightarrow> ir_status r = status_processing \<Longrightarrow>
           \<exists>r'. row s' i = Some r' \<and> ir_status r' = status_processing"
  shows "phase_inv row s' clock' ph"
proof -
  have "claimed_row row s' c rid False" if "claimed_row row s c rid False" for c rid
    using that assms(3) by (fastforce simp: claimed_row_def same_key_def)
  moreover have "claimed_row row s' c rid True"
    if "claimed_row row s c rid True" "holds_record ph = Some rid" for c rid
    using that assms(3) [of rid] assms(4) [of rid] by (fastforce simp: claimed_row_def same_key_def)
  ultimately show ?thesis using assms(1,2) by (cases ph) auto
qed

lemma start_execute_phase: "holds_record (start_execute sha cfg nl repo_nil opts t) = None"
  "phase_inv row s t (start_execute sha cfg nl repo_nil opts t)"
  by (auto simp: start_execute_def Let_def split: sum.splits)

lemma exec_end_phase:
  "holds_record (exec_end redact cfg t outcome ph) = holds_record ph \<or>
     holds_record (exec_end redact cfg t outcome ph) = None"
  "phase_inv row s clock ph \<Longrightarrow> phase_inv row s clock (exec_end redact cfg t outcome ph)"
  by (cases outcome; cases ph; auto simp: unavailable_def split: option.splits)+

lemma advance_error: "phase_call ph = Some c \<Longrightarrow> \<exists>x. advance ph Repo_error = Finished x"
  by (cases ph) (auto simp: unavailable_def)

lemma run_with_phase:
  "holds_record (run_with c rid) = Some rid' \<Longrightarrow> rid' = rid"
  "cl_now c \<le> clock \<Longrightarrow> claimed_row row s c rid True \<Longrightarrow> phase_inv row s clock (run_with c rid)"
  by (auto simp: run_with_def split: if_splits)

lemma single_flight_update:
  assumes "single_flight phs" and "i < length phs"
    and "\<And>rid j. holds_record ph = Some rid \<Longrightarrow> j < length phs \<Longrightarrow> j \<noteq> i \<Longrightarrow> holds_record (phs ! j) \<noteq> Some rid"
  shows "single_flight (phs[i := ph])"
  using assms by (auto simp: single_flight_def nth_list_update split: if_splits)

lemma single_flight_snoc:
  "single_flight phs \<Longrightarrow> holds_record ph = None \<Longrightarrow> single_flight (phs @ [ph])"
  by (auto simp: single_flight_def nth_append split: if_splits)

section \<open>The system keeps single flight, over any repository\<close>

context idempotency_repo
begin

lemma call_keeps_rows:
  assumes "wf s" and "apply_call t c s = (s', rep)" and "\<And>now limit. c \<noteq> Delete_expired now limit"
    and "row s i = Some r"
  shows "\<exists>r'. row s' i = Some r' \<and> ir_scope r' = ir_scope r \<and> ir_key_hash r' = ir_key_hash r \<and>
           ir_fingerprint r' = ir_fingerprint r"
proof (cases c)
  case (Create_processing q)
  with create_reply [of t q s] assms(2) obtain x where x: "rep = Created x" by auto
  show ?thesis
  proof (cases x)
    case None
    with create_taken [OF assms(1)] assms x Create_processing show ?thesis by auto
  next
    case (Some j)
    with create_new [OF assms(1)] assms x Create_processing show ?thesis by fastforce
  qed
next
  case (Get_by_scope_and_key_hash scope h)
  with get_row [OF assms(1)] assms show ?thesis by fastforce
next
  case (Try_reclaim j st0 now l e)
  with reclaim_row [OF assms(1), of t j st0 now l e s' rep] assms(2,4) show ?thesis
    by (auto split: if_splits)
next
  case (Extend_processing_lock j fp l e)
  with extend_row [OF assms(1), of t j fp l e s' rep] assms(2,4) show ?thesis
    by (auto split: if_splits)
next
  case (Mark_succeeded j st body e)
  with succeed_row [OF assms(1), of t j st body e s' rep] assms(2,4) show ?thesis by auto
next
  case (Mark_failed_retryable j reason l e)
  with fail_row [OF assms(1), of t j reason l e s' rep] assms(2,4) show ?thesis by auto
next
  case (Delete_expired now limit)
  with assms(3) show ?thesis by blast
qed

lemma call_keeps_busy:
  assumes "wf s" and "apply_call t c s = (s', rep)" and "\<And>now limit. c \<noteq> Delete_expired now limit"
    and "row s i = Some r" and "ir_status r = status_processing"
    and "\<And>st body e. c \<noteq> Mark_succeeded i st body e" and "\<And>reason l e. c \<noteq> Mark_failed_retryable i reason l e"
  shows "\<exists>r'. row s' i = Some r' \<and> ir_status r' = status_processing"
proof (cases c)
  case (Create_processing q)
  with create_reply [of t q s] assms(2) obtain x where x: "rep = Created x" by auto
  show ?thesis
  proof (cases x)
    case None
    with create_taken [OF assms(1)] assms x Create_processing show ?thesis by auto
  next
    case (Some j)
    with create_new [OF assms(1)] assms x Create_processing show ?thesis by fastforce
  qed
next
  case (Get_by_scope_and_key_hash scope h)
  with get_row [OF assms(1)] assms show ?thesis by fastforce
next
  case (Try_reclaim j st0 now l e)
  with reclaim_row [OF assms(1), of t j st0 now l e s' rep] assms(2,4,5) show ?thesis
    by (auto split: if_splits)
next
  case (Extend_processing_lock j fp l e)
  with extend_row [OF assms(1), of t j fp l e s' rep] assms(2,4,5) show ?thesis
    by (auto split: if_splits)
next
  case (Mark_succeeded j st body e)
  with succeed_row [OF assms(1), of t j st body e s' rep] assms(2,4,5,6) show ?thesis by auto
next
  case (Mark_failed_retryable j reason l e)
  with fail_row [OF assms(1), of t j reason l e s' rep] assms(2,4,5,7) show ?thesis by auto
next
  case (Delete_expired now limit)
  with assms(3) show ?thesis by blast
qed

end

context idempotency_repo
begin

lemma examine_phase:
  assumes "row s (ir_id r) = Some r" and "same_key (cl_scope c) (cl_key_hash c) r"
    and "cl_now c \<le> t" and "t < ir_expires_at r"
  shows "phase_inv row s t (examine c r)" and "holds_record (examine c r) = None"
  using assms
  by (auto simp: examine_def decide_by_status_def claimed_row_def split: option.splits)

lemma own_phase:
  assumes s: "wf s" and call: "phase_call ph = Some c" and step: "apply_call t c s = (s', rep)"
    and inv: "phase_inv row s clock ph" and clock: "clock \<le> t"
    and life: "\<And>i r. row s i = Some r \<Longrightarrow> t < ir_expires_at r"
  shows "phase_inv row s' t (advance ph rep)"
    and "holds_record (advance ph rep) = Some rid \<Longrightarrow>
           (\<forall>r. row s rid = Some r \<longrightarrow> ir_status r \<noteq> status_processing)"
proof -
  let ?goal = "phase_inv row s' t (advance ph rep) \<and>
    (holds_record (advance ph rep) = Some rid \<longrightarrow>
       (\<forall>r. row s rid = Some r \<longrightarrow> ir_status r \<noteq> status_processing))"
  have ?goal
  proof (cases ph)
    case (Creating k)
    with call have c: "c = Create_processing (claim_record k)" by simp
    obtain x where x: "rep = Created x" using create_reply [of t "claim_record k" s] step c by auto
    show ?thesis
    proof (cases x)
      case None
      with Creating x inv clock show ?thesis by simp
    next
      case (Some j)
      from create_new [OF s step [unfolded c x Some]]
      have "row s j = None" "claimed_row row s' k j True"
        by (auto simp: claimed_row_def claim_record_def)
      with Creating x Some inv clock run_with_phase(1) [of k j] run_with_phase(2) [of k t row s' j]
      show ?thesis by auto
    qed
  next
    case (Getting k)
    with call have c: "c = Get_by_scope_and_key_hash (cl_scope k) (cl_key_hash k)" by simp
    from get_row [OF s step [unfolded c]] obtain x where x: "rep = Found x" "row s' = row s"
      "\<And>r. x = Some r \<Longrightarrow> row s (ir_id r) = Some r \<and> same_key (cl_scope k) (cl_key_hash k) r"
      by auto
    show ?thesis
    proof (cases x)
      case None
      with Getting x show ?thesis by (simp add: unavailable_def)
    next
      case (Some r)
      have "phase_inv row s' t (examine k r)" "holds_record (examine k r) = None"
        using examine_phase [of s' r k t] x Some life inv clock Getting by auto
      with Getting x(1) Some show ?thesis by simp
    qed
  next
    case (Reclaiming_failed k q)
    with call have c: "c = Try_reclaim (ir_id q) status_failed_retryable (cl_now k) (cl_locked_until k) (cl_expires_at k)"
      by simp
    obtain r where r: "row s (ir_id q) = Some r" "same_key (cl_scope k) (cl_key_hash k) r"
      "ir_fingerprint r = cl_fingerprint k"
      using inv Reclaiming_failed by (auto simp: claimed_row_def)
    note law = reclaim_row [OF s step [unfolded c]]
    from law obtain b where b: "rep = Taken b" by blast
    have taken: "ir_status r = status_failed_retryable \<and> claimed_row row s' k (ir_id q) True" if b
    proof -
      have "ir_status r = status_failed_retryable" "\<exists>x. row s' = (row s)(ir_id q \<mapsto>
          r\<lparr>ir_status := status_processing, ir_locked_until := Some (cl_locked_until k),
            ir_error_reason := None, ir_updated_at := x, ir_expires_at := cl_expires_at k\<rparr>)"
        using law b that r(1) by auto
      with r(2,3) show ?thesis by (auto simp: claimed_row_def same_key_def)
    qed
    show ?thesis
    proof (cases b)
      case True
      then have "ir_status r = status_failed_retryable" "claimed_row row s' k (ir_id q) True"
        using taken by auto
      moreover have "cl_now k \<le> t" using inv Reclaiming_failed clock by simp
      ultimately show ?thesis
        using True b Reclaiming_failed r(1) run_with_phase(1) [of k "ir_id q" rid]
          run_with_phase(2) [of k t row s' "ir_id q"] by auto
    next
      case False
      with b Reclaiming_failed show ?thesis by simp
    qed
  next
    case (Persisting_success k j body data e)
    then show ?thesis by (cases rep) (auto simp: unavailable_def)
  qed (use call inv in auto)
  then show "phase_inv row s' t (advance ph rep)"
    and "holds_record (advance ph rep) = Some rid \<Longrightarrow>
           (\<forall>r. row s rid = Some r \<longrightarrow> ir_status r \<noteq> status_processing)"
    by auto
qed

text \<open>The clients other than the one that calls.\<close>

lemma other_phase:
  assumes s: "wf s" and call: "phase_call ph = Some c" and step: "apply_call t c s = (s', rep)"
    and inv: "phase_inv row s clock ph'" and clock: "clock \<le> t"
    and apart: "\<And>rid. holds_record ph = Some rid \<Longrightarrow> holds_record ph' \<noteq> Some rid"
  shows "phase_inv row s' t ph'"
proof (rule phase_inv_later [OF inv clock])
  have nd: "c \<noteq> Delete_expired now limit" for now limit using call by (cases ph) auto
  show "\<exists>r'. row s' i = Some r' \<and> ir_scope r' = ir_scope r \<and>
           ir_key_hash r' = ir_key_hash r \<and> ir_fingerprint r' = ir_fingerprint r" if "row s i = Some r" for i r
    using call_keeps_rows [OF s step nd that] .
  show "\<exists>r'. row s' i = Some r' \<and> ir_status r' = status_processing"
    if "holds_record ph' = Some i" "row s i = Some r" "ir_status r = status_processing" for i r
  proof (rule call_keeps_busy [OF s step nd that(2,3)])
    show "c \<noteq> Mark_succeeded i st body e" for st body e using call apart that(1) by (cases ph) auto
    show "c \<noteq> Mark_failed_retryable i reason l e" for reason l e using call apart that(1) by (cases ph) auto
  qed
qed

lemma phase_inv_clock: "phase_inv row s clock ph \<Longrightarrow> clock \<le> t \<Longrightarrow> phase_inv row s t ph"
  by (cases ph) auto

lemma system_step_inv:
  assumes inv: "system_inv row wf y" and ok: "within_lifetime row y e"
  shows "system_inv row wf (system_step apply_call sha redact cfg y e)"
proof -
  let ?s = "sy_store y" and ?cs = "sy_clients y" and ?t = "event_time e"
  have y: "wf ?s" "single_flight ?cs" "\<And>ph. ph \<in> set ?cs \<Longrightarrow> phase_inv row ?s (sy_clock y) ph"
    using inv by (auto simp: system_inv_def)
  have clock: "sy_clock y \<le> ?t" and life: "\<And>i r. row ?s i = Some r \<Longrightarrow> ?t < ir_expires_at r"
    using ok by (auto simp: within_lifetime_def)
  have now: "phase_inv row ?s ?t ph" if "ph \<in> set ?cs" for ph
    using phase_inv_clock [OF y(3) [OF that] clock] .
  have quiet: "system_inv row wf (y\<lparr>sy_clock := ?t\<rparr>)"
    using y now by (simp add: system_inv_def)
  have mem: "ph \<in> set (?cs[i := p]) \<Longrightarrow> ph = p \<or> (\<exists>j < length ?cs. j \<noteq> i \<and> ph = ?cs ! j)" for ph p i
    by (metis in_set_conv_nth length_list_update nth_list_update_eq nth_list_update_neq)
  show ?thesis
  proof (cases e)
    case (Arrive nl opts t)
    with y now start_execute_phase show ?thesis
      by (auto simp: system_step_def system_inv_def intro: single_flight_snoc)
  next
    case (Exec_ends i t outcome)
    show ?thesis
    proof (cases "i < length ?cs")
      case False
      with Exec_ends quiet show ?thesis by (simp add: system_step_def)
    next
      case True
      let ?p = "exec_end redact cfg t outcome (?cs ! i)"
      have "single_flight (?cs[i := ?p])"
        using single_flight_update [OF y(2) True, of ?p] exec_end_phase(1) [of redact cfg t outcome "?cs ! i"]
          y(2) True by (fastforce simp: single_flight_def)
      moreover have "phase_inv row ?s ?t ph" if "ph \<in> set (?cs[i := ?p])" for ph
        using mem [OF that] now exec_end_phase(2) True by (metis nth_mem)
      ultimately show ?thesis using Exec_ends True y(1) by (simp add: system_step_def system_inv_def)
    qed
  next
    case (Renew i t fate)
    show ?thesis
    proof (cases "i < length ?cs \<and> lease_of (?cs ! i) \<noteq> None")
      case False
      with Renew quiet show ?thesis by (auto simp: system_step_def split: option.splits)
    next
      case True
      then obtain c rid where p: "lease_of (?cs ! i) = Some (c, rid)" by auto
      obtain s' rep where st: "apply_call t (renew_call cfg t c rid) ?s = (s', rep)" by fastforce
      have wf': "wf s'" using wf_apply [OF y(1), of t "renew_call cfg t c rid"] st by simp
      have "phase_inv row s' ?t ph" if "ph \<in> set ?cs" for ph
      proof (rule phase_inv_later [OF y(3) [OF that] clock])
        have nd: "renew_call cfg t c rid \<noteq> Delete_expired now limit" for now limit by (simp add: renew_call_def)
        show "\<exists>r'. row s' i = Some r' \<and> ir_scope r' = ir_scope r \<and> ir_key_hash r' = ir_key_hash r \<and>
           ir_fingerprint r' = ir_fingerprint r" if "row ?s i = Some r" for i r
          using call_keeps_rows [OF y(1) st nd that] .
        show "\<exists>r'. row s' i = Some r' \<and> ir_status r' = status_processing"
          if "holds_record ph = Some i" "row ?s i = Some r" "ir_status r = status_processing" for i r
          by (rule call_keeps_busy [OF y(1) st nd that(2,3)]) (simp_all add: renew_call_def)
      qed
      with wf' y now have good: "system_inv row wf (y\<lparr>sy_store := x, sy_clock := ?t\<rparr>)" if "x = s' \<or> x = ?s" for x
        using that by (auto simp: system_inv_def)
      have "fst (fated fate ?s (s', rep)) \<in> {s', ?s}" by (cases fate) auto
      with good p True st Renew show ?thesis by (auto simp: system_step_def)
    qed
  next
    case (Cleanup t limit)
    obtain s' rep where st: "apply_call t (Delete_expired t limit) ?s = (s', rep)" by fastforce
    have "row s' i = row ?s i" for i
    proof (cases "row ?s i")
      case None
      with delete_row [OF y(1) st, of i] show ?thesis by auto
    next
      case (Some r)
      with delete_row [OF y(1) st, of i] life [OF Some] Cleanup show ?thesis by auto
    qed
    then have same: "row s' = row ?s" by blast
    have "wf s'" using wf_apply [OF y(1), of t "Delete_expired t limit"] st by simp
    moreover have "phase_inv row s' ?t ph" if "ph \<in> set ?cs" for ph
      using phase_inv_later [OF now [OF that], of ?t s'] same by auto
    ultimately show ?thesis using Cleanup y st by (simp add: system_step_def system_inv_def)
  next
    case (Call i t fate)
    show ?thesis
    proof (cases "i < length ?cs \<and> phase_call (?cs ! i) \<noteq> None")
      case False
      with Call quiet show ?thesis by (auto simp: system_step_def split: option.splits)
    next
      case True
      then obtain c where c: "phase_call (?cs ! i) = Some c" and i: "i < length ?cs" by blast
      obtain s1 rep1 where st: "apply_call t c ?s = (s1, rep1)" by fastforce
      obtain s' rep where fs: "fated fate ?s (s1, rep1) = (s', rep)" by fastforce
      have cases: "(s' = s1 \<and> rep = rep1) \<or> ((s' = ?s \<or> s' = s1) \<and> rep = Repo_error)"
        using fs by (cases fate) auto
      let ?p = "advance (?cs ! i) rep"
      have wf1: "wf s1" using wf_apply [OF y(1), of t c] st by simp
      have ph: "phase_inv row ?s (sy_clock y) (?cs ! i)" using y(3) i by simp
      have t: "?t = t" using Call by simp
      note own = own_phase [OF y(1) c st ph clock [unfolded t] life [unfolded t]]
      have p_inv: "phase_inv row s' ?t ?p" and
        p_new: "holds_record ?p = Some rid \<Longrightarrow> (\<forall>r. row ?s rid = Some r \<longrightarrow> ir_status r \<noteq> status_processing)" for rid
        using cases own advance_error [OF c] t by auto
      have others: "phase_inv row s' ?t (?cs ! j)" if "j < length ?cs" "j \<noteq> i" for j
      proof -
        have "phase_inv row s1 t (?cs ! j)"
        proof (rule other_phase [OF y(1) c st y(3) clock [unfolded t]])
          show "?cs ! j \<in> set ?cs" using that by simp
          show "holds_record (?cs ! j) \<noteq> Some rid" if "holds_record (?cs ! i) = Some rid" for rid
            using that \<open>j \<noteq> i\<close> \<open>j < length ?cs\<close> y(2) i unfolding single_flight_def by metis
        qed
        with now [of "?cs ! j"] that cases t show ?thesis by auto
      qed
      have "single_flight (?cs[i := ?p])"
      proof (rule single_flight_update [OF y(2) i])
        fix rid j assume "holds_record ?p = Some rid" "j < length ?cs" "j \<noteq> i"
        with p_new phase_inv_holds y(3) show "holds_record (?cs ! j) \<noteq> Some rid" by (metis nth_mem)
      qed
      moreover have "phase_inv row s' ?t q" if "q \<in> set (?cs[i := ?p])" for q
        using mem [OF that] p_inv others by blast
      moreover have "wf s'" using wf1 y(1) cases by auto
      ultimately show ?thesis using Call c i st fs by (simp add: system_step_def system_inv_def)
    qed
  qed
qed

end

section \<open>Single flight on the table\<close>

definition no_requests :: "instant \<Rightarrow> idem_table idem_system" where
  "no_requests t = \<lparr>sy_store = empty_table, sy_clients = [], sy_clock = t\<rparr>"

interpretation idem_system: invariant_machine "within_lifetime table_row"
  "system_step table_apply sha redact cfg" "system_inv table_row table_wf" for sha redact cfg
  by unfold_locales (rule table.system_step_inv)

lemma no_requests_inv: "system_inv table_row table_wf (no_requests t)"
  by (simp add: system_inv_def no_requests_def empty_table_def table_wf_def single_flight_def)

text \<open>
  C1: While the records live, at most one request per scope and key executes, whatever requests
  arrive, however their repository calls interleave, and whichever calls fail or lose their reply.
\<close>

theorem idempotency_single_flight:
  assumes "admissible (within_lifetime table_row) (system_step table_apply sha redact cfg) (no_requests t0) es"
    and "y = run_steps (system_step table_apply sha redact cfg) (no_requests t0) es"
    and "i < length (sy_clients y)" and "j < length (sy_clients y)"
    and "sy_clients y ! i = Running c rid" and "sy_clients y ! j = Running c' rid'"
    and "cl_scope c = cl_scope c'" and "cl_key_hash c = cl_key_hash c'"
  shows "i = j"
proof -
  have inv: "system_inv table_row table_wf y"
    using idem_system.inv_run [OF no_requests_inv assms(1)] assms(2) by simp
  then have "phase_inv table_row (sy_store y) (sy_clock y) (Running c rid)"
    "phase_inv table_row (sy_store y) (sy_clock y) (Running c' rid')"
    using nth_mem [OF assms(3)] nth_mem [OF assms(4)] assms(5,6)
    unfolding system_inv_def by fastforce+
  then obtain r r' where r: "table_row (sy_store y) rid = Some r" "same_key (cl_scope c) (cl_key_hash c) r"
    and r': "table_row (sy_store y) rid' = Some r'" "same_key (cl_scope c') (cl_key_hash c') r'"
    by (auto simp: claimed_row_def)
  have "rid = rid'"
    using table.row_key [OF _ r(1) r'(1)] inv r(2) r'(2) assms(7,8)
    by (simp add: system_inv_def same_key_def)
  then show ?thesis
    using inv assms(3-6) by (auto simp: system_inv_def single_flight_def)
qed

definition demo_options :: idem_options where
  "demo_options = \<lparr>io_scope = ''s'', io_actor_scope = ''u'', io_method = ''POST'', io_route = ''/r'',
     io_idempotency_key = ''k'', io_payload = Some ''{}'', io_ttl = hour, io_require_key = True,
     io_execution_timeout = 0\<rparr>"

definition demo_events :: "idem_event list" where
  "demo_events = [Arrive False demo_options 10, Arrive False demo_options 11, Call 1 12 Answered,
     Call 0 13 Answered, Call 0 14 Answered]"

text \<open>The side condition as a check on the rows, which a run can evaluate.\<close>

definition rows_live :: "idem_table idem_system \<Rightarrow> idem_event \<Rightarrow> bool" where
  "rows_live y e \<longleftrightarrow> sy_clock y \<le> event_time e \<and>
     list_all (\<lambda>r. event_time e < ir_expires_at r) (tb_rows (sy_store y))"

lemma rows_live_within: "rows_live y e \<Longrightarrow> within_lifetime table_row y e"
  by (auto simp: rows_live_def within_lifetime_def table_row_def list_all_iff dest: find_SomeD)

theorem idempotency_single_flight_witness:
  "let y = run_steps (system_step table_apply (\<lambda>x. x) (\<lambda>x. x) default_idempotency_config)
             (no_requests 0) demo_events
   in \<exists>c. sy_clients y ! 1 = Running c 1 \<and> (\<forall>i c' rid. i < length (sy_clients y) \<longrightarrow>
        sy_clients y ! i = Running c' rid \<longrightarrow> cl_scope c' = cl_scope c \<longrightarrow>
        cl_key_hash c' = cl_key_hash c \<longrightarrow> i = 1)"
proof -
  let ?step = "system_step table_apply (\<lambda>x. x) (\<lambda>x. x) default_idempotency_config"
  let ?y = "run_steps ?step (no_requests 0) demo_events"
  have "admissible rows_live ?step (no_requests 0) demo_events" by code_simp
  then have adm: "admissible (within_lifetime table_row) ?step (no_requests 0) demo_events"
    by (rule admissible_mono) (rule rows_live_within)
  have len: "length (sy_clients ?y) = 2" by code_simp
  have "case sy_clients ?y ! 1 of Running c rid \<Rightarrow> rid = 1 | _ \<Rightarrow> False" by code_simp
  then obtain c where c: "sy_clients ?y ! 1 = Running c 1" by (cases "sy_clients ?y ! 1") auto
  have "i = 1" if "i < length (sy_clients ?y)" "sy_clients ?y ! i = Running c' rid"
    "cl_scope c' = cl_scope c" "cl_key_hash c' = cl_key_hash c" for i c' rid
    using idempotency_single_flight [OF adm refl that(1) _ that(2) c that(3,4)] len by simp
  with c show ?thesis unfolding Let_def by blast
qed

section \<open>A request that meets a record\<close>

abbreviation serve :: "nat \<Rightarrow> 's apply_fn \<Rightarrow> instant \<Rightarrow> idem_phase \<times> 's \<Rightarrow> idem_phase \<times> 's" where
  "serve \<equiv> serve_calls phase_call advance"

fun phase_rank :: "idem_phase \<Rightarrow> nat" where
  "phase_rank (Creating c) = 5"
| "phase_rank (Getting c) = 4"
| "phase_rank (Reclaiming_expired c r) = 3"
| "phase_rank (Getting_again c) = 2"
| "phase_rank (Reclaiming_failed c r) = 1"
| "phase_rank (Persisting_failure c rid reason backoff expires err) = 1"
| "phase_rank (Persisting_success c rid body data expires) = 1"
| "phase_rank _ = 0"

definition phase_step :: "idem_phase \<Rightarrow> repo_reply \<Rightarrow> idem_phase option" where
  "phase_step ph rep = (if phase_call ph = None then None else Some (advance ph rep))"

lemma decide_rank: "phase_rank (decide_by_status c r) \<le> 1"
  by (auto simp: decide_by_status_def split: option.splits)

lemma run_with_rank [simp]: "phase_rank (run_with c rid) = 0"
  by (simp add: run_with_def)

lemma advance_rank: "phase_call ph \<noteq> None \<Longrightarrow> phase_rank (advance ph rep) < phase_rank ph"
proof -
  have "phase_rank (examine c r) < 4" "phase_rank (examine_latest c r) < 2" for c r
    using decide_rank [of c r] by (auto simp: examine_def examine_latest_def)
  note le = this
  assume "phase_call ph \<noteq> None"
  with le show ?thesis
    by (cases "(ph, rep)" rule: advance.cases) (auto simp: unavailable_def split: if_splits)
qed

interpretation phases: draining_machine "\<lambda>_. True" phase_step "\<lambda>_. True" phase_rank
  by unfold_locales (auto simp: phase_step_def advance_rank split: if_splits)

text \<open>Whatever the repository answers, the calls of a request come to an end.\<close>

lemma phase_calls_end: "5 < length reps \<Longrightarrow> run_while phase_step (start_execute sha cfg nl repo_nil opts t) reps = None"
proof -
  have "phase_rank (start_execute sha cfg nl repo_nil opts t) \<le> 5"
    by (auto simp: start_execute_def Let_def split: sum.splits)
  moreover assume "5 < length reps"
  ultimately show ?thesis by (intro phases.run_must_stop) (auto simp: list_all_iff)
qed

text \<open>What a claim meets in a record of its key: the outcome the code promises.\<close>

definition meeting :: "idem_claim \<Rightarrow> idem_record \<Rightarrow> idem_phase" where
  "meeting c r =
     (if ir_fingerprint r \<noteq> cl_fingerprint c then Finished (Inl Key_conflict)
      else if ir_expires_at r \<le> cl_now c \<and> lock_passed (cl_now c) r then Running c (ir_id r)
      else if ir_status r = status_succeeded then
        (case decode_stored_response (ir_response_body r) of
           None \<Rightarrow> Finished (Inl Store_unavailable) | Some data \<Rightarrow> Finished (Inr (Replayed data)))
      else if ir_status r = status_processing then
        Finished (Inl (In_progress (retry_after (ir_locked_until r) (cl_now c))))
      else if ir_status r = status_failed_retryable then
        (if lock_passed (cl_now c) r then Running c (ir_id r)
         else Finished (Inl (Retry_backoff (retry_after (ir_locked_until r) (cl_now c)))))
      else Finished (Inl Key_conflict))"

context idempotency_repo
begin

lemma lock_passed_iff: "(case ir_locked_until r of None \<Rightarrow> False | Some l \<Rightarrow> now < l) \<longleftrightarrow> \<not> lock_passed now r"
  by (auto simp: lock_passed_def split: option.splits)

lemma serve_decided:
  assumes "wf s" and "row s i = Some r" and "ir_id r = i" and "i \<noteq> 0"
    and "\<not> (ir_expires_at r \<le> cl_now c \<and> lock_passed (cl_now c) r)" and "ir_fingerprint r = cl_fingerprint c"
  shows "fst (serve (Suc n) apply_call t (decide_by_status c r, s)) = meeting c r"
proof -
  obtain u where u: "apply_call t (Try_reclaim i status_failed_retryable (cl_now c) (cl_locked_until c) (cl_expires_at c)) s
      = (u, Taken (ir_status r = status_failed_retryable \<and> lock_passed (cl_now c) r))"
    using reclaim_existing [OF assms(1,2)] by blast
  have stop: "serve m apply_call t (Running c i, u) = (Running c i, u)"
    "serve m apply_call t (Finished x, v) = (Finished x, v)" for m x v
    by (cases m; simp)+
  show ?thesis
    using u assms(3-6)
    by (auto simp: decide_by_status_def meeting_def lock_passed_iff conflict_with_retry_after_def
        run_with_def stop split: option.splits)
qed

text \<open>The composed calls give the promised outcome.\<close>

lemma serve_meeting:
  assumes wf: "wf s" and r: "row s i = Some r" and key: "same_key (cl_scope c) (cl_key_hash c) r"
  shows "fst (serve 5 apply_call t (Creating c, s)) = meeting c r"
proof -
  have i: "ir_id r = i" "i \<noteq> 0" using row_id [OF wf r] by auto
  obtain s1 where s1: "apply_call t (Create_processing (claim_record c)) s = (s1, Created None)"
    "row s1 = row s" "wf s1" using create_existing [OF wf r, of "claim_record c"] key by (auto simp: claim_record_def)
  obtain s2 where s2: "apply_call t (Get_by_scope_and_key_hash (cl_scope c) (cl_key_hash c)) s1 = (s2, Found (Some r))"
    "row s2 = row s" "wf s2" using get_existing [OF s1(3)] s1(2) r key by metis
  have r2: "row s2 i = Some r" using s2(2) r by simp
  have stop: "serve m apply_call t (Finished x, v) = (Finished x, v)"
    "serve m apply_call t (Running c i, v) = (Running c i, v)" for m x v
    by (cases m; simp)+
  have "fst (serve 3 apply_call t (examine c r, s2)) = meeting c r"
  proof (cases "ir_fingerprint r = cl_fingerprint c")
    case False
    then show ?thesis by (simp add: examine_def meeting_def stop)
  next
    case fp: True
    show ?thesis
    proof (cases "ir_expires_at r \<le> cl_now c")
      case False
      with fp serve_decided [OF s2(3) r2 i, of c 2 t] show ?thesis
        by (simp add: examine_def numeral_3_eq_3)
    next
      case True
      obtain s3 where s3: "apply_call t (Try_reclaim i (ir_status r) (cl_now c) (cl_locked_until c) (cl_expires_at c)) s2
          = (s3, Taken (lock_passed (cl_now c) r))" "wf s3" "\<not> lock_passed (cl_now c) r \<longrightarrow> row s3 = row s2"
        using reclaim_existing [OF s2(3) r2, of t "ir_status r" "cl_now c" "cl_locked_until c" "cl_expires_at c"]
        by auto
      show ?thesis
      proof (cases "lock_passed (cl_now c) r")
        case passed: True
        with fp True s3 i show ?thesis
          by (simp add: examine_def meeting_def numeral_3_eq_3 run_with_def stop)
      next
        case held: False
        obtain s4 where s4: "apply_call t (Get_by_scope_and_key_hash (cl_scope c) (cl_key_hash c)) s3 = (s4, Found (Some r))"
          "row s4 = row s3" "wf s4" using get_existing [OF s3(2)] s3(3) r2 key held by metis
        have "row s4 i = Some r" using s4(2) s3(3) held r2 by simp
        from serve_decided [OF s4(3) this i, of c 0 t] held fp
        have decided: "fst (serve (Suc 0) apply_call t (decide_by_status c r, s4)) = meeting c r" by simp
        have "examine c r = Reclaiming_expired c r" using fp True by (simp add: examine_def)
        moreover have "serve 3 apply_call t (Reclaiming_expired c r, s2) = serve 2 apply_call t (Getting_again c, s3)"
          using serve_call [of phase_call "Reclaiming_expired c r" _ apply_call t s2 s3 "Taken False" advance 2] s3(1) held i
          by (simp add: numeral_3_eq_3)
        moreover have "serve 2 apply_call t (Getting_again c, s3) = serve (Suc 0) apply_call t (decide_by_status c r, s4)"
          using serve_call [of phase_call "Getting_again c" _ apply_call t s3 s4 "Found (Some r)" advance "Suc 0"] s4(1) fp
          by (simp add: numeral_2_eq_2 examine_latest_def del: serve_calls.simps)
        ultimately show ?thesis using decided by simp
      qed
    qed
  qed
  moreover have "serve 5 apply_call t (Creating c, s) = serve 4 apply_call t (Getting c, s1)"
    using serve_call [of phase_call "Creating c" _ apply_call t s s1 "Created None" advance 4] s1(1)
    by (simp add: eval_nat_numeral)
  moreover have "serve 4 apply_call t (Getting c, s1) = serve 3 apply_call t (examine c r, s2)"
    using serve_call [of phase_call "Getting c" _ apply_call t s1 s2 "Found (Some r)" advance 3] s2(1)
    by (simp add: eval_nat_numeral del: serve_calls.simps)
  ultimately show ?thesis by simp
qed

end

text \<open>
  C23: A request whose key has a record gets what the code promises, whatever path through the
  repository calls that takes: a conflict for a different payload, the stored answer once the first
  request succeeded, a conflict with the seconds to wait while it is processed or backing off, and the
  execution when a failure is over or when both the expiry and the lock of the record have passed.
\<close>

theorem repeated_request_outcome:
  assumes "table_wf tb" and "table_row tb i = Some r" and "same_key (cl_scope c) (cl_key_hash c) r"
  shows "fst (serve 5 table_apply t (Creating c, tb)) = meeting c r"
  using table.serve_meeting [OF assms] .

definition demo_claim :: idem_claim where
  "demo_claim = \<lparr>cl_scope = ''s'', cl_key_hash = ''k'', cl_fingerprint = ''f'', cl_now = 100 * second,
     cl_ttl = hour, cl_locked_until = 130 * second, cl_expires_at = 100 * second + hour, cl_bounded = False\<rparr>"

definition demo_record :: idem_record where
  "demo_record = (claim_record demo_claim)\<lparr>ir_id := 1, ir_locked_until := Some (112 * second),
     ir_expires_at := 200 * second\<rparr>"

theorem repeated_request_outcome_witness:
  "fst (serve 5 table_apply (101 * second) (Creating demo_claim, \<lparr>tb_rows = [demo_record], tb_next_id = 2\<rparr>)) =
     Finished (Inl (In_progress (Some 12)))"
proof -
  let ?tb = "\<lparr>tb_rows = [demo_record], tb_next_id = 2\<rparr>"
  have "table_wf ?tb" "table_row ?tb 1 = Some demo_record"
    "same_key (cl_scope demo_claim) (cl_key_hash demo_claim) demo_record"
    by (simp_all add: table_wf_def table_row_def demo_record_def claim_record_def same_key_def)
  from repeated_request_outcome [OF this] have
    "fst (serve 5 table_apply (101 * second) (Creating demo_claim, ?tb)) = meeting demo_claim demo_record" .
  also have "\<dots> = Finished (Inl (In_progress (Some 12)))" by code_simp
  finally show ?thesis .
qed

section \<open>The stored response\<close>

lemma utf8_cut_spec:
  "utf8_cut n s \<le> n \<and> utf8_valid (take (utf8_cut n s) s) \<and>
     (\<forall>m. utf8_cut n s < m \<and> m \<le> n \<longrightarrow> \<not> utf8_valid (take m s))"
proof (induction n s rule: utf8_cut.induct)
  case (1 n s)
  show ?case
  proof (cases "0 < n \<and> \<not> utf8_valid (take n s)")
    case True
    then have "utf8_cut n s = utf8_cut (n - 1) s" by (subst utf8_cut.simps) simp
    moreover have "m = n \<or> m \<le> n - 1" if "m \<le> n" for m using that by auto
    ultimately show ?thesis using 1 True by (metis diff_le_self le_trans)
  next
    case False
    then have "utf8_cut n s = n" by (subst utf8_cut.simps) auto
    with False show ?thesis by auto
  qed
qed

text \<open>
  C38: A stored text that is too long is cut to the longest valid UTF-8 prefix within the limit, which
  loses at most three bytes more than the limit demands.
\<close>

theorem truncate_utf8_longest:
  assumes "utf8_valid s" and "0 < limit" and "limit < int (length s)"
  shows "\<exists>k. truncate_utf8 s limit = take k s \<and> utf8_valid (take k s) \<and> int k \<le> limit \<and> limit \<le> int k + 3 \<and>
           (\<forall>m. k < m \<and> int m \<le> limit \<longrightarrow> \<not> utf8_valid (take m s))"
proof -
  let ?k = "utf8_cut (nat limit) s"
  obtain m where m: "m \<le> nat limit" "nat limit \<le> m + 3" "utf8_valid (take m s)"
    using utf8_cut_point [OF assms(1), of "nat limit"] assms(3) by (auto simp: nat_le_iff)
  note spec = utf8_cut_spec [of "nat limit" s]
  have "m \<le> ?k" using spec m(1,3) by (meson not_le)
  moreover have "truncate_utf8 s limit = take ?k s" using assms by (simp add: truncate_utf8_def)
  ultimately show ?thesis using spec m assms(2) by (intro exI [of _ ?k]) auto
qed

theorem truncate_utf8_longest_witness:
  "truncate_utf8 [CHR ''a'', CHR 0xE4, CHR 0xBD, CHR 0xA0] 3 = ''a'' \<and>
   (\<exists>k. truncate_utf8 [CHR ''a'', CHR 0xE4, CHR 0xBD, CHR 0xA0] 3 = take k [CHR ''a'', CHR 0xE4, CHR 0xBD, CHR 0xA0] \<and>
        3 \<le> int k + 3)"
proof -
  let ?s = "[CHR ''a'', CHR 0xE4, CHR 0xBD, CHR 0xA0]"
  have "utf8_valid ?s" by code_simp
  from truncate_utf8_longest [OF this, of 3] have "\<exists>k. truncate_utf8 ?s 3 = take k ?s \<and> 3 \<le> int k + 3"
    by auto
  moreover have "truncate_utf8 ?s 3 = ''a''" by code_simp
  ultimately show ?thesis by blast
qed

text \<open>A body that was cut is no JSON value: it ends with a parenthesis.\<close>

lemma truncated_body:
  assumes "marshal_stored_response redact cfg (Some json) = Some body"
    and "0 < ic_max_stored_response_len cfg"
    and "ic_max_stored_response_len cfg < int (length (redact json))"
  shows "\<not> json_valid body" and "decode_stored_response (Some body) = None"
proof -
  obtain p where body: "body = p @ [CHR '')'']"
  proof
    show "body = (truncate_utf8 (redact json) (ic_max_stored_response_len cfg) @ ''...(truncated'') @ [CHR '')'']"
      using assms by (simp add: marshal_stored_response_def Let_def truncated_suffix_def)
  qed
  then show v: "\<not> json_valid body" by (simp add: json_valid_not_paren)
  moreover have "trim_space body \<noteq> []"
  proof
    assume "trim_space body = []"
    with trim_space_bytes body have "CHR '')'' \<in> \<Union> (set ` set utf8_spaces)" by fastforce
    then show False by (simp add: utf8_spaces_code)
  qed
  ultimately show "decode_stored_response (Some body) = None" by (simp add: decode_stored_response_def)
qed

text \<open>
  C37: A response that was cut before it was stored can never be replayed. When the JSON of a successful execution is
  longer than \<open>MaxStoredResponseLen\<close> and its success has been written to the table, the client gets its data, but the stored body
  is text that is not JSON, so that every later request with the key and the same payload is answered with
  \<open>Store_unavailable\<close> until the record expires.
\<close>

theorem truncated_response_not_replayed:
  assumes "0 < ic_max_stored_response_len cfg" and "ic_max_stored_response_len cfg < int (length (redact json))"
    and "ph = exec_end redact cfg t (Exec_data data (Some json)) (Running c i)"
    and "phase_call ph = Some call" and "table_apply t' call tb = (tb', rep)"
    and "table_wf tb" and "table_row tb i = Some r"
  shows "advance ph rep = Finished (Inr (Executed data)) \<and>
    (\<exists>r' body. table_row tb' i = Some r' \<and> ir_status r' = status_succeeded \<and>
       ir_expires_at r' = (if cl_bounded c then t + cl_ttl c else cl_expires_at c) \<and>
       ir_response_body r' = Some body \<and> \<not> json_valid body \<and>
       (\<forall>c' t''. same_key (cl_scope c') (cl_key_hash c') r \<longrightarrow> cl_fingerprint c' = ir_fingerprint r \<longrightarrow>
          cl_now c' < ir_expires_at r' \<longrightarrow>
          fst (serve 5 table_apply t'' (Creating c', tb')) = Finished (Inl Store_unavailable)))"
proof -
  obtain body where body: "marshal_stored_response redact cfg (Some json) = Some body"
    by (auto simp: marshal_stored_response_def Let_def)
  let ?expires = "if cl_bounded c then t + cl_ttl c else cl_expires_at c"
  let ?r = "r\<lparr>ir_status := status_succeeded, ir_response_status := Some 200, ir_response_body := Some body,
    ir_error_reason := None, ir_locked_until := None, ir_expires_at := ?expires, ir_updated_at := t'\<rparr>"
  have ph: "ph = Persisting_success c i body data ?expires" using assms(3) body by simp
  then have call: "table_apply t' (Mark_succeeded i 200 body ?expires) tb = (tb', rep)" using assms(4,5) by simp
  from table.succeed_row [OF assms(6) call] assms(7) have rep: "rep = Marked" and row: "table_row tb' i = Some ?r" by auto
  have wf: "table_wf tb'" using table_apply_wf [OF assms(6), of t' "Mark_succeeded i 200 body ?expires"] call by simp
  have "fst (serve 5 table_apply t'' (Creating c', tb')) = Finished (Inl Store_unavailable)"
    if "same_key (cl_scope c') (cl_key_hash c') r" "cl_fingerprint c' = ir_fingerprint r" "cl_now c' < ?expires" for c' t''
  proof -
    have "same_key (cl_scope c') (cl_key_hash c') ?r" using that(1) by (simp add: same_key_def)
    from table.serve_meeting [OF wf row this] that(2,3) truncated_body(2) [OF body assms(1,2)] show ?thesis
      by (simp add: meeting_def)
  qed
  with rep row ph truncated_body(1) [OF body assms(1,2)] show ?thesis
    by (intro conjI exI [of _ ?r] exI [of _ body]) simp_all
qed

definition long_config :: idem_config where
  "long_config = default_idempotency_config\<lparr>ic_max_stored_response_len := 4\<rparr>"

theorem truncated_response_not_replayed_witness:
  "\<exists>tb' rep. table_apply (120 * second) (Mark_succeeded 1 200 ''[1,2...(truncated)'' (100 * second + hour))
       \<lparr>tb_rows = [demo_record], tb_next_id = 2\<rparr> = (tb', rep) \<and>
     fst (serve 5 table_apply (131 * second) (Creating (demo_claim\<lparr>cl_now := 130 * second\<rparr>), tb')) =
       Finished (Inl Store_unavailable)"
proof -
  let ?tb = "\<lparr>tb_rows = [demo_record], tb_next_id = 2\<rparr>"
  let ?ph = "Persisting_success demo_claim 1 ''[1,2...(truncated)'' ''d'' (100 * second + hour)"
  have "marshal_stored_response (\<lambda>x. x) long_config (Some ''[1,2,3]'') = Some ''[1,2...(truncated)''"
    by code_simp
  then have ph: "?ph = exec_end (\<lambda>x. x) long_config (119 * second) (Exec_data ''d'' (Some ''[1,2,3]'')) (Running demo_claim 1)"
    by (simp add: demo_claim_def)
  obtain tb' rep where tb': "table_apply (120 * second) (Mark_succeeded 1 200 ''[1,2...(truncated)'' (100 * second + hour)) ?tb = (tb', rep)"
    by fastforce
  have tb: "table_wf ?tb" "table_row ?tb 1 = Some demo_record"
    by (simp_all add: table_wf_def table_row_def demo_record_def claim_record_def)
  have "(0 :: int) < ic_max_stored_response_len long_config" "ic_max_stored_response_len long_config < int (length ''[1,2,3]'')"
    by (simp_all add: long_config_def)
  from truncated_response_not_replayed [OF this ph, of _ "120 * second" ?tb tb' rep, OF _ _ tb] tb'
  have "\<forall>c' t''. same_key (cl_scope c') (cl_key_hash c') demo_record \<longrightarrow> cl_fingerprint c' = ir_fingerprint demo_record \<longrightarrow>
      cl_now c' < 100 * second + hour \<longrightarrow> fst (serve 5 table_apply t'' (Creating c', tb')) = Finished (Inl Store_unavailable)"
    by (auto simp: demo_claim_def)
  then have "fst (serve 5 table_apply (131 * second) (Creating (demo_claim\<lparr>cl_now := 130 * second\<rparr>), tb')) =
      Finished (Inl Store_unavailable)"
    by (elim allE impE) (simp_all add: demo_record_def claim_record_def demo_claim_def same_key_def)
  with tb' show ?thesis by blast
qed

section \<open>Success is final\<close>

context idempotency_repo
begin

lemma call_keeps_success:
  assumes s: "wf s" and call: "phase_call ph = Some c" and step: "apply_call t c s = (s', rep)"
    and inv: "phase_inv row s clock ph" and r: "row s i = Some r" "ir_status r = status_succeeded"
  shows "row s' i = Some r"
proof (cases ph)
  case (Creating k)
  with call have c: "c = Create_processing (claim_record k)" by simp
  obtain x where x: "rep = Created x" using create_reply [of t "claim_record k" s] step c by auto
  show ?thesis
  proof (cases x)
    case None
    with create_taken [OF s] step c x r show ?thesis by auto
  next
    case (Some j)
    with create_new [OF s] step c x r show ?thesis by fastforce
  qed
next
  case (Getting k)
  with call have "c = Get_by_scope_and_key_hash (cl_scope k) (cl_key_hash k)" by simp
  with get_row [OF s] step r show ?thesis by fastforce
next
  case (Reclaiming_failed k q)
  with call have c: "c = Try_reclaim (ir_id q) status_failed_retryable (cl_now k) (cl_locked_until k) (cl_expires_at k)"
    by simp
  note law = reclaim_row [OF s step [unfolded c]]
  from law obtain b where "rep = Taken b" by blast
  with law r show ?thesis by (cases b) auto
next
  case (Persisting_failure k j reason l e err)
  with inv r have "i \<noteq> j" by (auto simp: claimed_row_def)
  with fail_row [OF s, of t j reason l e] step call Persisting_failure r show ?thesis by auto
next
  case (Persisting_success k j body data e)
  with inv r have "i \<noteq> j" by (auto simp: claimed_row_def)
  with succeed_row [OF s, of t j 200 body e] step call Persisting_success r show ?thesis by auto
qed (use call inv in auto)

lemma success_step:
  assumes inv: "system_inv row wf y" and ok: "within_lifetime row y e"
    and r: "row (sy_store y) i = Some r" "ir_status r = status_succeeded"
  shows "row (sy_store (system_step apply_call sha redact cfg y e)) i = Some r"
proof -
  let ?s = "sy_store y"
  have y: "wf ?s" "\<And>ph. ph \<in> set (sy_clients y) \<Longrightarrow> phase_inv row ?s (sy_clock y) ph"
    using inv by (auto simp: system_inv_def)
  show ?thesis
  proof (cases e)
    case (Call k t fate)
    show ?thesis
    proof (cases "k < length (sy_clients y) \<and> phase_call (sy_clients y ! k) \<noteq> None")
      case False
      with Call r show ?thesis by (auto simp: system_step_def split: option.splits)
    next
      case True
      then obtain c where c: "phase_call (sy_clients y ! k) = Some c" by blast
      obtain s1 rep1 where st: "apply_call t c ?s = (s1, rep1)" by fastforce
      obtain s' rep where fs: "fated fate ?s (s1, rep1) = (s', rep)" by fastforce
      have "s' = s1 \<or> s' = ?s" using fs by (cases fate) auto
      moreover have "row s1 i = Some r" using call_keeps_success [OF y(1) c st y(2) r] True by simp
      ultimately show ?thesis using Call True c st fs r by (auto simp: system_step_def)
    qed
  next
    case (Renew k t fate)
    show ?thesis
    proof (cases "k < length (sy_clients y) \<and> lease_of (sy_clients y ! k) \<noteq> None")
      case False
      with Renew r show ?thesis by (auto simp: system_step_def split: option.splits)
    next
      case True
      then obtain c rid where p: "lease_of (sy_clients y ! k) = Some (c, rid)" by auto
      obtain s1 rep1 where st: "apply_call t (renew_call cfg t c rid) ?s = (s1, rep1)" by fastforce
      note law = extend_row [OF y(1) st [unfolded renew_call_def]]
      then obtain b where "rep1 = Taken b" by blast
      with law r have "row s1 i = Some r" by (cases b) auto
      moreover have "fst (fated fate ?s (s1, rep1)) \<in> {s1, ?s}" by (cases fate) auto
      ultimately show ?thesis using Renew True p st r by (auto simp: system_step_def)
    qed
  next
    case (Cleanup t limit)
    obtain s' rep where st: "apply_call t (Delete_expired t limit) ?s = (s', rep)" by fastforce
    have "t < ir_expires_at r" using ok r(1) Cleanup by (auto simp: within_lifetime_def)
    with delete_row [OF y(1) st, of i] r have "row s' i = Some r" by auto
    with Cleanup st show ?thesis by (simp add: system_step_def)
  qed (use r in \<open>auto simp: system_step_def\<close>)
qed

end

interpretation settled_system: invariant_machine "within_lifetime table_row"
  "system_step table_apply sha redact cfg"
  "\<lambda>y. system_inv table_row table_wf y \<and> table_row (sy_store y) i = Some r \<and> ir_status r = status_succeeded"
  for sha redact cfg i r
  by unfold_locales (auto intro: table.system_step_inv table.success_step)

text \<open>
  C21: Once a request has succeeded its record does not change any more while the records live: the
  work is done once, and every later request with the key meets the stored answer.
\<close>

theorem success_is_final:
  assumes "admissible (within_lifetime table_row) (system_step table_apply sha redact cfg) (no_requests t0) (es @ es')"
    and "table_row (sy_store (run_steps (system_step table_apply sha redact cfg) (no_requests t0) es)) i = Some r"
    and "ir_status r = status_succeeded"
  shows "table_row (sy_store (run_steps (system_step table_apply sha redact cfg) (no_requests t0) (es @ es'))) i = Some r"
proof -
  let ?step = "system_step table_apply sha redact cfg"
  have adm: "admissible (within_lifetime table_row) ?step (no_requests t0) es"
    "admissible (within_lifetime table_row) ?step (run_steps ?step (no_requests t0) es) es'"
    using assms(1) by (simp_all add: admissible_append)
  have "system_inv table_row table_wf (run_steps ?step (no_requests t0) es)"
    using idem_system.inv_prefix [OF no_requests_inv assms(1)] .
  with settled_system.inv_run [OF _ adm(2)] assms(2,3) show ?thesis by (simp add: run_steps_append)
qed

definition success_events :: "idem_event list" where
  "success_events = [Arrive False demo_options 10, Call 0 11 Answered, Exec_ends 0 12 (Exec_data ''d'' (Some ''7'')),
     Call 0 13 Answered]"

theorem success_is_final_witness:
  "\<exists>r. ir_response_body r = Some ''7'' \<and>
     table_row (sy_store (run_steps (system_step table_apply (\<lambda>x. x) (\<lambda>x. x) default_idempotency_config)
       (no_requests 0) (success_events @ [Arrive False demo_options 20, Call 1 21 Answered, Cleanup 22 10]))) 1 = Some r"
proof -
  let ?step = "system_step table_apply (\<lambda>x. x) (\<lambda>x. x) default_idempotency_config"
  let ?rest = "[Arrive False demo_options 20, Call 1 21 Answered, Cleanup 22 10]"
  have "admissible rows_live ?step (no_requests 0) (success_events @ ?rest)" by code_simp
  then have adm: "admissible (within_lifetime table_row) ?step (no_requests 0) (success_events @ ?rest)"
    by (rule admissible_mono) (rule rows_live_within)
  have "(case table_row (sy_store (run_steps ?step (no_requests 0) success_events)) 1 of
      None \<Rightarrow> False | Some r \<Rightarrow> ir_status r = status_succeeded \<and> ir_response_body r = Some ''7'')"
    by code_simp
  then obtain r where r: "table_row (sy_store (run_steps ?step (no_requests 0) success_events)) 1 = Some r"
    "ir_status r = status_succeeded" "ir_response_body r = Some ''7''"
    by (auto split: option.splits)
  from success_is_final [OF adm r(1,2)] r(3) show ?thesis by blast
qed

end
