(* ===== verification/SystemLock.thy ===== *)
theory SystemLock
  imports Idempotency
begin

text \<open>
  The global lock of system operations (backend/internal/service/system_operation_lock_service.go),
  a second client of the repository of idempotency records: one record under a fixed key, whose
  fingerprint is the id of the operation that holds the lock. As in \<open>Idempotency\<close>, \<open>Acquire\<close> is cut
  at its repository calls. The renewal goroutine is one tick at a time.
\<close>

section \<open>The service\<close>

definition system_operation_lock_scope :: string where
  "system_operation_lock_scope = ''admin.system.operations.global_lock''"

definition system_operation_lock_key :: string where
  "system_operation_lock_key = ''global-system-operation-lock''"

record lock_service =
  ls_lease :: duration
  ls_renew_interval :: duration
  ls_ttl :: duration

definition new_system_operation_lock_service :: "idem_config \<Rightarrow> lock_service" where
  "new_system_operation_lock_service cfg =
     (let lease = (if ic_processing_timeout cfg \<le> 0 then 30 * second else ic_processing_timeout cfg);
          renew_interval = quot lease 3;
          renew_interval = (if renew_interval < second then second else renew_interval);
          ttl = (if ic_system_operation_ttl cfg \<le> 0 then hour else ic_system_operation_ttl cfg)
      in \<lparr>ls_lease = lease, ls_renew_interval = renew_interval, ls_ttl = ttl\<rparr>)"

datatype lock_error =
    Lock_store_unavailable | Operation_id_required
  | Busy "string option" "int option"     \<comment> \<open>the metadata: operation id, seconds to wait\<close>

definition busy_error :: "string \<Rightarrow> instant option \<Rightarrow> instant \<Rightarrow> lock_error" where
  "busy_error operation_id locked_until now =
     Busy (if operation_id = [] then None else Some operation_id) (retry_after locked_until now)"

record lock_claim =
  lc_operation_id :: string
  lc_key_hash :: string
  lc_now :: instant
  lc_locked_until :: instant
  lc_expires_at :: instant

definition lock_record :: "lock_claim \<Rightarrow> idem_record" where
  "lock_record c =
     \<lparr>ir_id = 0, ir_scope = system_operation_lock_scope, ir_key_hash = lc_key_hash c,
      ir_fingerprint = lc_operation_id c, ir_status = status_processing, ir_response_status = None,
      ir_response_body = None, ir_error_reason = None, ir_locked_until = Some (lc_locked_until c),
      ir_expires_at = lc_expires_at c, ir_created_at = 0, ir_updated_at = 0\<rparr>"

datatype lock_phase =
    Lock_creating lock_claim
  | Lock_getting lock_claim
  | Lock_reclaiming lock_claim idem_record
  | Lock_latest lock_claim
  | Lock_held lock_claim int
  | Lock_refused lock_error

definition start_acquire :: "(string \<Rightarrow> string) \<Rightarrow> lock_service \<Rightarrow> bool \<Rightarrow> string \<Rightarrow> instant \<Rightarrow> lock_phase" where
  "start_acquire sha256_hex svc repo_nil operation_id now =
     (if repo_nil then Lock_refused Lock_store_unavailable
      else if operation_id = [] then Lock_refused Operation_id_required
      else Lock_creating \<lparr>lc_operation_id = operation_id,
             lc_key_hash = sha256_hex system_operation_lock_key, lc_now = now,
             lc_locked_until = now + ls_lease svc, lc_expires_at = now + ls_ttl svc\<rparr>)"

fun lock_call :: "lock_phase \<Rightarrow> repo_call option" where
  "lock_call (Lock_creating c) = Some (Create_processing (lock_record c))"
| "lock_call (Lock_getting c) = Some (Get_by_scope_and_key_hash system_operation_lock_scope (lc_key_hash c))"
| "lock_call (Lock_reclaiming c r) =
     Some (Try_reclaim (ir_id r) (ir_status r) (lc_now c) (lc_locked_until c) (lc_expires_at c))"
| "lock_call (Lock_latest c) = Some (Get_by_scope_and_key_hash system_operation_lock_scope (lc_key_hash c))"
| "lock_call _ = None"

definition hold_with :: "lock_claim \<Rightarrow> int \<Rightarrow> lock_phase" where
  "hold_with c rid = (if rid = 0 then Lock_refused Lock_store_unavailable else Lock_held c rid)"

fun lock_advance :: "lock_phase \<Rightarrow> repo_reply \<Rightarrow> lock_phase" where
  "lock_advance (Lock_creating c) (Created (Some rid)) = hold_with c rid"
| "lock_advance (Lock_creating c) (Created None) = Lock_getting c"
| "lock_advance (Lock_getting c) (Found (Some r)) =
     (if ir_status r = status_processing
         \<and> (case ir_locked_until r of None \<Rightarrow> False | Some l \<Rightarrow> lc_now c < l)
      then Lock_refused (busy_error (ir_fingerprint r) (ir_locked_until r) (lc_now c))
      else Lock_reclaiming c r)"
| "lock_advance (Lock_reclaiming c r) (Taken b) = (if b then hold_with c (ir_id r) else Lock_latest c)"
| "lock_advance (Lock_latest c) (Found (Some r)) =
     Lock_refused (busy_error (ir_fingerprint r) (ir_locked_until r) (lc_now c))"
| "lock_advance (Lock_latest c) _ = Lock_refused (Busy None None)"
| "lock_advance _ _ = Lock_refused Lock_store_unavailable"

abbreviation acquire :: "'s apply_fn \<Rightarrow> instant \<Rightarrow> lock_phase \<times> 's \<Rightarrow> lock_phase \<times> 's" where
  "acquire \<equiv> serve_calls lock_call lock_advance 4"

text \<open>One tick of the renewal, at \<open>now\<close>.\<close>

definition lock_renew_call :: "lock_service \<Rightarrow> instant \<Rightarrow> lock_claim \<Rightarrow> int \<Rightarrow> repo_call" where
  "lock_renew_call svc now c rid =
     Extend_processing_lock rid (lc_operation_id c) (now + ls_lease svc) (now + ls_ttl svc)"

text \<open>Does the renewal go on after the tick? An error is retried at the next tick.\<close>

definition renewal_goes_on :: "repo_reply \<Rightarrow> bool" where
  "renewal_goes_on rep = (case rep of Repo_error \<Rightarrow> True | Taken b \<Rightarrow> b | _ \<Rightarrow> False)"

definition release_call :: "lock_service \<Rightarrow> instant \<Rightarrow> lock_claim \<Rightarrow> int \<Rightarrow> bool \<Rightarrow> string \<Rightarrow> repo_call" where
  "release_call svc now c rid succeeded failure_reason =
     (let expires_at = now + ls_ttl svc in
      if succeeded then
        Mark_succeeded rid 200
          (''{'' @ [CHR 0x22] @ ''operation_id'' @ [CHR 0x22] @ '':'' @ [CHR 0x22] @ lc_operation_id c
            @ [CHR 0x22] @ '','' @ [CHR 0x22] @ ''released'' @ [CHR 0x22] @ '':true}'') expires_at
      else Mark_failed_retryable rid
             (if failure_reason = [] then ''SYSTEM_OPERATION_FAILED'' else failure_reason) now expires_at)"

section \<open>What Acquire gives, over any repository\<close>

definition lock_meeting :: "lock_claim \<Rightarrow> idem_record \<Rightarrow> lock_phase" where
  "lock_meeting c r =
     (if lock_passed (lc_now c) r then Lock_held c (ir_id r)
      else Lock_refused (busy_error (ir_fingerprint r) (ir_locked_until r) (lc_now c)))"

context idempotency_repo
begin

lemma acquire_existing:
  assumes wf: "wf s" and r: "row s i = Some r"
    and key: "same_key system_operation_lock_scope (lc_key_hash c) r"
  shows "\<exists>s'. acquire apply_call t (Lock_creating c, s) = (lock_meeting c r, s') \<and> wf s' \<and>
    (if lock_passed (lc_now c) r
     then \<exists>r'. row s' = (row s)(i \<mapsto> r') \<and> ir_status r' = status_processing \<and>
            ir_fingerprint r' = ir_fingerprint r \<and> ir_scope r' = ir_scope r \<and>
            ir_key_hash r' = ir_key_hash r \<and> ir_locked_until r' = Some (lc_locked_until c)
     else row s' = row s)"
proof -
  have i: "ir_id r = i" "i \<noteq> 0" using row_id [OF wf r] by auto
  obtain s1 where s1: "apply_call t (Create_processing (lock_record c)) s = (s1, Created None)"
    "row s1 = row s" "wf s1"
    using create_existing [OF wf r, of "lock_record c"] key by (auto simp: lock_record_def)
  obtain s2 where s2: "apply_call t (Get_by_scope_and_key_hash system_operation_lock_scope (lc_key_hash c)) s1
      = (s2, Found (Some r))" "row s2 = row s" "wf s2"
    using get_existing [OF s1(3)] s1(2) r key by metis
  have r2: "row s2 i = Some r" using s2(2) r by simp
  have lp: "(case ir_locked_until r of None \<Rightarrow> False | Some l \<Rightarrow> lc_now c < l) \<longleftrightarrow> \<not> lock_passed (lc_now c) r"
    by (rule lock_passed_iff)
  let ?reclaim = "Try_reclaim i (ir_status r) (lc_now c) (lc_locked_until c) (lc_expires_at c)"
  have step1: "acquire apply_call t (Lock_creating c, s) =
      serve_calls lock_call lock_advance 2 apply_call t (lock_advance (Lock_getting c) (Found (Some r)), s2)"
    using s1(1) s2(1) by (simp add: eval_nat_numeral)
  obtain s3 rep where s3: "apply_call t ?reclaim s2 = (s3, rep)" by fastforce
  have wf3: "wf s3" using wf_apply [OF s2(3), of t ?reclaim] s3 by simp
  have rep_eq: "rep = Taken (lock_passed (lc_now c) r)"
    using reclaim_existing [OF s2(3) r2, of t "ir_status r" "lc_now c" "lc_locked_until c" "lc_expires_at c"] s3
    by auto
  note law = reclaim_row [OF s2(3) s3]
  show ?thesis
  proof (cases "lock_passed (lc_now c) r")
    case True
    have "rep = Taken True" using rep_eq True by simp
    moreover have "row s3 = (row s)(i \<mapsto> r\<lparr>ir_status := status_processing,
          ir_locked_until := Some (lc_locked_until c), ir_error_reason := None, ir_updated_at := t,
          ir_expires_at := lc_expires_at c\<rparr>)"
      using law r2 True s2(2) rep_eq by auto
    moreover have "acquire apply_call t (Lock_creating c, s) = (Lock_held c i, s3)" if "rep = Taken True"
      using step1 s3 i lp True that by (simp add: eval_nat_numeral hold_with_def)
    ultimately show ?thesis using True wf3 i
      by (simp add: lock_meeting_def) (rule exI [where x = "r\<lparr>ir_status := status_processing,
          ir_locked_until := Some (lc_locked_until c), ir_error_reason := None, ir_updated_at := t,
          ir_expires_at := lc_expires_at c\<rparr>"], simp)
  next
    case False
    show ?thesis
    proof (cases "ir_status r = status_processing")
      case True
      then show ?thesis using False step1 lp s2 by (simp add: eval_nat_numeral lock_meeting_def)
    next
      case other: False
      have rep: "rep = Taken False" "row s3 = row s" using law False s2(2) rep_eq by auto
      obtain s4 where s4: "apply_call t (Get_by_scope_and_key_hash system_operation_lock_scope (lc_key_hash c)) s3
          = (s4, Found (Some r))" "row s4 = row s3" "wf s4"
        using get_existing [OF wf3] rep(2) r key by metis
      have "acquire apply_call t (Lock_creating c, s) = (lock_meeting c r, s4)"
        using step1 other s3 rep s4 i False by (simp add: eval_nat_numeral lock_meeting_def)
      with s4 rep False show ?thesis by simp
    qed
  qed
qed

lemma renewal_refused:
  assumes "wf s" and "row s i = Some r" and "ir_fingerprint r \<noteq> lc_operation_id c"
    and "apply_call t (lock_renew_call svc now c i) s = (s', rep)"
  shows "\<not> renewal_goes_on rep" and "row s' = row s"
  using extend_row [OF assms(1) assms(4) [unfolded lock_renew_call_def]] assms(2,3)
  by (auto simp: renewal_goes_on_def split: if_splits)

lemma renewal_granted:
  assumes "wf s" and "row s i = Some r" and "ir_fingerprint r = lc_operation_id c"
    and "ir_status r = status_processing"
    and "apply_call t (lock_renew_call svc now c i) s = (s', rep)"
  shows "renewal_goes_on rep"
    and "\<exists>r'. row s' i = Some r' \<and> ir_locked_until r' = Some (now + ls_lease svc) \<and>
           ir_fingerprint r' = lc_operation_id c \<and> ir_status r' = status_processing"
  using extend_row [OF assms(1) assms(5) [unfolded lock_renew_call_def]] assms(2-4)
  by (auto simp: renewal_goes_on_def split: if_splits)

end

section \<open>The lock on the table\<close>

text \<open>
  Acquire succeeds exactly when the lock of the record has passed or was given back, and
  otherwise is refused with the holder's operation id and the seconds to wait, without a change of
  the table.
\<close>

theorem acquire_outcome:
  assumes "table_wf tb" and "table_row tb i = Some r"
    and "same_key system_operation_lock_scope (lc_key_hash c) r"
  shows "\<exists>tb'. acquire table_apply t (Lock_creating c, tb) = (lock_meeting c r, tb') \<and>
           (\<not> lock_passed (lc_now c) r \<longrightarrow> table_row tb' = table_row tb)"
  using table.acquire_existing [OF assms, of t] by (auto split: if_splits)

definition lock_claim_at :: "string \<Rightarrow> instant \<Rightarrow> lock_claim" where
  "lock_claim_at operation_id now = \<lparr>lc_operation_id = operation_id, lc_key_hash = ''h'', lc_now = now,
     lc_locked_until = now + 30 * second, lc_expires_at = now + hour\<rparr>"

definition held_table :: idem_table where
  "held_table = \<lparr>tb_rows = [(lock_record (lock_claim_at ''a'' 0))\<lparr>ir_id := 1\<rparr>], tb_next_id = 2\<rparr>"

lemma held_table_row:
  "table_wf held_table" "table_row held_table 1 = Some ((lock_record (lock_claim_at ''a'' 0))\<lparr>ir_id := 1\<rparr>)"
  "same_key system_operation_lock_scope (lc_key_hash (lock_claim_at b t))
     ((lock_record (lock_claim_at a u))\<lparr>ir_id := 1\<rparr>)"
  by (simp_all add: held_table_def table_wf_def table_row_def lock_record_def lock_claim_at_def same_key_def)

theorem acquire_outcome_witness:
  "fst (acquire table_apply (20 * second) (Lock_creating (lock_claim_at ''b'' (20 * second)), held_table)) =
     Lock_refused (Busy (Some ''a'') (Some 10))"
proof -
  let ?c = "lock_claim_at ''b'' (20 * second)" and ?r = "(lock_record (lock_claim_at ''a'' 0))\<lparr>ir_id := 1\<rparr>"
  have "lock_meeting ?c ?r = Lock_refused (Busy (Some ''a'') (Some 10))" by code_simp
  with acquire_outcome [OF held_table_row(1,2), of ?c "20 * second"] held_table_row(3) [of "''b''" "20 * second" "''a''" 0]
  show ?thesis by auto
qed

text \<open>
  C34: An operation that takes over the record of an earlier one under another id cannot renew its
  lease: the record keeps the fingerprint of the earlier operation, the first renewal finds no row
  and ends the renewing, and once the lease has passed another operation acquires the lock although
  it was never released.
\<close>

theorem reclaimed_lock_is_lost:
  assumes "table_wf tb" and "table_row tb i = Some r" and "lock_passed (lc_now c) r"
    and "same_key system_operation_lock_scope (lc_key_hash c) r"
    and "ir_fingerprint r \<noteq> lc_operation_id c"
    and "acquire table_apply t (Lock_creating c, tb) = (ph, tb1)"
    and "table_apply t' (lock_renew_call svc t' c i) tb1 = (tb2, rep)"
    and "lc_key_hash c' = lc_key_hash c" and "lc_locked_until c \<le> lc_now c'"
  shows "ph = Lock_held c i \<and> \<not> renewal_goes_on rep \<and>
    fst (acquire table_apply t'' (Lock_creating c', tb2)) = Lock_held c' i"
proof -
  obtain r1 where r1: "table_wf tb1" "table_row tb1 i = Some r1" "ir_fingerprint r1 = ir_fingerprint r"
      "ir_scope r1 = ir_scope r" "ir_key_hash r1 = ir_key_hash r" "ir_locked_until r1 = Some (lc_locked_until c)"
    and ph: "ph = lock_meeting c r"
    using table.acquire_existing [OF assms(1,2,4), of t] assms(3,6) by auto
  have "ir_id r = i" "ir_id r1 = i"
    using table.row_id [OF assms(1,2)] table.row_id [OF r1(1,2)] by auto
  with ph assms(3) have held: "ph = Lock_held c i" by (simp add: lock_meeting_def)
  have fp: "ir_fingerprint r1 \<noteq> lc_operation_id c" using r1(3) assms(5) by simp
  have "\<not> renewal_goes_on rep" using table.renewal_refused(1) [OF r1(1,2) fp assms(7)] .
  note lost = this
  have "table_row tb2 i = Some r1" using table.renewal_refused(2) [OF r1(1,2) fp assms(7)] r1(2) by simp
  moreover have "table_wf tb2" using table.wf_apply [OF r1(1), of t' "lock_renew_call svc t' c i"] assms(7) by simp
  moreover have "same_key system_operation_lock_scope (lc_key_hash c') r1"
    using assms(4,8) r1(4,5) by (simp add: same_key_def)
  ultimately have "fst (acquire table_apply t'' (Lock_creating c', tb2)) = lock_meeting c' r1"
    using acquire_outcome [of tb2 i r1 c' t''] by auto
  with \<open>ir_id r1 = i\<close> r1(6) assms(9) held lost show ?thesis
    by (simp add: lock_meeting_def lock_passed_def)
qed

theorem reclaimed_lock_is_lost_witness:
  "let c = lock_claim_at ''b'' (40 * second);
       svc = new_system_operation_lock_service default_idempotency_config;
       (ph, tb1) = acquire table_apply (40 * second) (Lock_creating c, held_table);
       (tb2, rep) = table_apply (50 * second) (lock_renew_call svc (50 * second) c 1) tb1
   in ph = Lock_held c 1 \<and> \<not> renewal_goes_on rep \<and>
      fst (acquire table_apply (71 * second) (Lock_creating (lock_claim_at ''d'' (71 * second)), tb2)) =
        Lock_held (lock_claim_at ''d'' (71 * second)) 1"
proof -
  let ?c = "lock_claim_at ''b'' (40 * second)" and ?c' = "lock_claim_at ''d'' (71 * second)"
  let ?svc = "new_system_operation_lock_service default_idempotency_config"
  let ?r = "(lock_record (lock_claim_at ''a'' 0))\<lparr>ir_id := 1\<rparr>"
  obtain ph tb1 where a: "acquire table_apply (40 * second) (Lock_creating ?c, held_table) = (ph, tb1)"
    by fastforce
  obtain tb2 rep where b: "table_apply (50 * second) (lock_renew_call ?svc (50 * second) ?c 1) tb1 = (tb2, rep)"
    by fastforce
  have "lock_passed (lc_now ?c) ?r" "ir_fingerprint ?r \<noteq> lc_operation_id ?c"
    "lc_key_hash ?c' = lc_key_hash ?c" "lc_locked_until ?c \<le> lc_now ?c'"
    by (simp_all add: lock_passed_def lock_record_def lock_claim_at_def)
  note lost = reclaimed_lock_is_lost [OF held_table_row(1,2) this(1) held_table_row(3) this(2) a b this(3,4)]
  show ?thesis using lost a b by (simp add: Let_def)
qed

end
