(* ===== verification/ConcurrencyCache.thy ===== *)
theory ConcurrencyCache
  imports Prelude "HOL-Library.AList"
begin

text \<open>
  The distributed concurrency limits (backend/internal/repository/concurrency_cache.go): slots of
  accounts, users and API keys, leases of live sessions and of WebSocket ingress connections, wait
  counters and the index of active accounts and users. The Lua scripts are functions on the Redis
  database, as a script runs atomically; the Go methods compose them. Time is Redis' own clock in
  whole seconds, an argument of every operation. A sorted set is a list of members with scores, and
  a key with an expiry reads as absent from the expiry on. Keys are a datatype with one constructor per
  key-building function. The order of equal scores is the order of insertion. Failing Redis calls
  are not modelled.
\<close>

section \<open>Redis\<close>

datatype slot_key =
    Account_slot_key int | User_slot_key int | Api_key_slot_key int
  | Live_account_slot_key int | Live_user_slot_key int | Live_api_key_slot_key int
  | Ws_ingress_lease_key int

datatype wait_key = Wait_queue_key int | Account_wait_key int

datatype index_key = Account_active_index | User_active_index

record zset =
  zs_members :: "(string \<times> int) list"
  zs_expire_at :: "int option"

record redis_db =
  rd_zsets :: "slot_key \<Rightarrow> zset"
  rd_waits :: "wait_key \<Rightarrow> (int \<times> int) option"         \<comment> \<open>value and expiry\<close>
  rd_index :: "index_key \<Rightarrow> (int \<times> int) list"           \<comment> \<open>id and score\<close>
  rd_legacy_sweep_done :: bool

definition empty_zset :: zset where
  "empty_zset = \<lparr>zs_members = [], zs_expire_at = None\<rparr>"

definition empty_redis :: redis_db where
  "empty_redis = \<lparr>rd_zsets = (\<lambda>_. empty_zset), rd_waits = (\<lambda>_. None), rd_index = (\<lambda>_. []),
     rd_legacy_sweep_done = False\<rparr>"

definition zget :: "int \<Rightarrow> slot_key \<Rightarrow> redis_db \<Rightarrow> zset" where
  "zget now k db =
     (let z = rd_zsets db k in
      case zs_expire_at z of None \<Rightarrow> z | Some e \<Rightarrow> if e \<le> now then empty_zset else z)"

definition zput :: "slot_key \<Rightarrow> zset \<Rightarrow> redis_db \<Rightarrow> redis_db" where
  "zput k z db =
     db\<lparr>rd_zsets := (rd_zsets db)(k := if zs_members z = [] then empty_zset else z)\<rparr>"

definition z_rem_range :: "int \<Rightarrow> slot_key \<Rightarrow> int \<Rightarrow> redis_db \<Rightarrow> redis_db" where
  "z_rem_range now k bound db =
     (let z = zget now k db
      in zput k (z\<lparr>zs_members := filter (\<lambda>(m, s). bound < s) (zs_members z)\<rparr>) db)"

definition z_score :: "int \<Rightarrow> slot_key \<Rightarrow> string \<Rightarrow> redis_db \<Rightarrow> int option" where
  "z_score now k m db = map_of (zs_members (zget now k db)) m"

definition z_card :: "int \<Rightarrow> slot_key \<Rightarrow> redis_db \<Rightarrow> int" where
  "z_card now k db = int (length (zs_members (zget now k db)))"

definition z_add :: "int \<Rightarrow> slot_key \<Rightarrow> int \<Rightarrow> string \<Rightarrow> redis_db \<Rightarrow> redis_db" where
  "z_add now k score m db =
     (let z = zget now k db in zput k (z\<lparr>zs_members := AList.update m score (zs_members z)\<rparr>) db)"

definition z_rem :: "int \<Rightarrow> slot_key \<Rightarrow> string \<Rightarrow> redis_db \<Rightarrow> redis_db" where
  "z_rem now k m db =
     (let z = zget now k db in zput k (z\<lparr>zs_members := filter (\<lambda>(m', s). m' \<noteq> m) (zs_members z)\<rparr>) db)"

definition expire_key :: "int \<Rightarrow> slot_key \<Rightarrow> int \<Rightarrow> redis_db \<Rightarrow> redis_db" where
  "expire_key now k ttl db = zput k ((zget now k db)\<lparr>zs_expire_at := Some (now + ttl)\<rparr>) db"

definition del_key :: "slot_key \<Rightarrow> redis_db \<Rightarrow> redis_db" where
  "del_key k db = zput k empty_zset db"

definition get_wait :: "int \<Rightarrow> wait_key \<Rightarrow> redis_db \<Rightarrow> int option" where
  "get_wait now k db =
     (case rd_waits db k of None \<Rightarrow> None | Some (v, e) \<Rightarrow> if e \<le> now then None else Some v)"

definition index_add :: "index_key \<Rightarrow> int \<Rightarrow> int \<Rightarrow> redis_db \<Rightarrow> redis_db" where
  "index_add ix i score db = db\<lparr>rd_index := (rd_index db)(ix := AList.update i score (rd_index db ix))\<rparr>"

definition index_rem :: "index_key \<Rightarrow> int list \<Rightarrow> redis_db \<Rightarrow> redis_db" where
  "index_rem ix ids db =
     db\<lparr>rd_index := (rd_index db)(ix := filter (\<lambda>(i, s). i \<notin> set ids) (rd_index db ix))\<rparr>"

section \<open>The scripts\<close>

definition acquire_script :: "int \<Rightarrow> slot_key \<Rightarrow> slot_key \<Rightarrow> int \<Rightarrow> int \<Rightarrow> string \<Rightarrow> redis_db \<Rightarrow> redis_db \<times> bool" where
  "acquire_script now key live_key max_concurrency ttl request_id db =
     (let db = z_rem_range now key (now - ttl) db;
          db = z_rem_range now live_key (now - 60) db
      in if z_score now key request_id db \<noteq> None
         then (expire_key now key ttl (z_add now key now request_id db), True)
         else if z_card now key db + z_card now live_key db < max_concurrency
         then (expire_key now key ttl (z_add now key now request_id db), True)
         else (db, False))"

definition get_count_script :: "int \<Rightarrow> slot_key \<Rightarrow> slot_key \<Rightarrow> int \<Rightarrow> redis_db \<Rightarrow> redis_db \<times> int" where
  "get_count_script now key live_key ttl db =
     (let db = z_rem_range now key (now - ttl) db;
          db = z_rem_range now live_key (now - 60) db
      in (db, z_card now key db + z_card now live_key db))"

definition acquire_live_lease_script :: "int \<Rightarrow> slot_key \<Rightarrow> slot_key \<Rightarrow> slot_key \<Rightarrow> slot_key \<Rightarrow> slot_key \<Rightarrow>
    int \<Rightarrow> int \<Rightarrow> int \<Rightarrow> string \<Rightarrow> bool \<Rightarrow> redis_db \<Rightarrow> redis_db \<times> bool" where
  "acquire_live_lease_script now account_regular account_live user_regular user_live api_live
       account_max user_max ttl lease_id replacing db =
     (let db = z_rem_range now account_live (now - ttl) db;
          db = z_rem_range now user_live (now - ttl) db;
          db = z_rem_range now api_live (now - ttl) db
      in if z_score now account_live lease_id db \<noteq> None then (db, True)
      else
        let account_count = z_card now account_regular db + z_card now account_live db;
            user_count = z_card now user_regular db + z_card now user_live db;
            allowance = (if replacing then 1 else 0)
        in if 0 < account_max \<and> account_max + allowance \<le> account_count then (db, False)
           else if 0 < user_max \<and> user_max + allowance \<le> user_count then (db, False)
           else
             let db = z_add now account_live now lease_id db;
                 db = z_add now user_live now lease_id db;
                 db = z_add now api_live now lease_id db;
                 db = expire_key now account_live ttl db;
                 db = expire_key now user_live ttl db
             in (expire_key now api_live ttl db, True))"

text \<open>The first loop of the refresh script: it stops at the first key without the lease.\<close>

fun refresh_check :: "int \<Rightarrow> int \<Rightarrow> string \<Rightarrow> slot_key list \<Rightarrow> redis_db \<Rightarrow> redis_db \<times> bool" where
  "refresh_check now ttl lease_id [] db = (db, True)"
| "refresh_check now ttl lease_id (k # ks) db =
     (let db = z_rem_range now k (now - ttl) db
      in if z_score now k lease_id db = None then (db, False)
         else refresh_check now ttl lease_id ks db)"

definition refresh_live_lease_script :: "int \<Rightarrow> slot_key list \<Rightarrow> int \<Rightarrow> string \<Rightarrow> redis_db \<Rightarrow> redis_db \<times> bool" where
  "refresh_live_lease_script now ks ttl lease_id db =
     (case refresh_check now ttl lease_id ks db of (db, ok) \<Rightarrow>
        if \<not> ok then (db, False)
        else (fold (\<lambda>k db. expire_key now k ttl (z_add now k now lease_id db)) ks db, True))"

definition track_slot_script :: "int \<Rightarrow> slot_key \<Rightarrow> int \<Rightarrow> string \<Rightarrow> redis_db \<Rightarrow> redis_db" where
  "track_slot_script now key ttl request_id db =
     expire_key now key ttl (z_add now key now request_id (z_rem_range now key (now - ttl) db))"

definition acquire_ingress_lease_script :: "int \<Rightarrow> slot_key \<Rightarrow> int \<Rightarrow> int \<Rightarrow> string \<Rightarrow> redis_db \<Rightarrow> redis_db \<times> bool" where
  "acquire_ingress_lease_script now key max_connections ttl lease_id db =
     (let db = z_rem_range now key (now - ttl) db
      in if z_score now key lease_id db \<noteq> None
         then (expire_key now key ttl (z_add now key now lease_id db), True)
         else if z_card now key db < max_connections
         then (expire_key now key ttl (z_add now key now lease_id db), True)
         else (db, False))"

definition refresh_ingress_lease_script :: "int \<Rightarrow> slot_key \<Rightarrow> int \<Rightarrow> string \<Rightarrow> redis_db \<Rightarrow> redis_db \<times> bool" where
  "refresh_ingress_lease_script now key ttl lease_id db =
     (let db = z_rem_range now key (now - ttl) db
      in if z_score now key lease_id db = None then (db, False)
         else (expire_key now key ttl (z_add now key now lease_id db), True))"

definition increment_wait_script :: "int \<Rightarrow> wait_key \<Rightarrow> int \<Rightarrow> int \<Rightarrow> redis_db \<Rightarrow> redis_db \<times> bool" where
  "increment_wait_script now key max_wait ttl db =
     (let current = (case get_wait now key db of None \<Rightarrow> 0 | Some v \<Rightarrow> v)
      in if max_wait \<le> current then (db, False)
         else (db\<lparr>rd_waits := (rd_waits db)(key \<mapsto> (current + 1, now + ttl))\<rparr>, True))"

definition decrement_wait_script :: "int \<Rightarrow> wait_key \<Rightarrow> redis_db \<Rightarrow> redis_db" where
  "decrement_wait_script now key db =
     (case rd_waits db key of
        None \<Rightarrow> db
      | Some (v, e) \<Rightarrow> if now < e \<and> 0 < v then db\<lparr>rd_waits := (rd_waits db)(key \<mapsto> (v - 1, e))\<rparr> else db)"

definition cleanup_expired_slots_script :: "int \<Rightarrow> slot_key \<Rightarrow> int \<Rightarrow> redis_db \<Rightarrow> redis_db" where
  "cleanup_expired_slots_script now key ttl db =
     (let db = z_rem_range now key (now - ttl) db
      in if z_card now key db = 0 then del_key key db else expire_key now key ttl db)"

definition startup_cleanup_slot_script :: "int \<Rightarrow> slot_key \<Rightarrow> string \<Rightarrow> int \<Rightarrow> redis_db \<Rightarrow> redis_db \<times> int" where
  "startup_cleanup_slot_script now key active_prefix slot_ttl db =
     (let stale = filter (\<lambda>m. take (length active_prefix) m \<noteq> active_prefix) (map fst (zs_members (zget now key db)));
          db = fold (\<lambda>m db. z_rem now key m db) stale db;
          remaining = z_card now key db
      in (if remaining = 0 then del_key key db else expire_key now key slot_ttl db, remaining))"

section \<open>The methods of the cache\<close>

record concurrency_cache =
  cc_slot_ttl :: int
  cc_wait_queue_ttl :: int

definition live_lease_ttl :: int where "live_lease_ttl = 60"
definition ws_ingress_lease_ttl :: int where "ws_ingress_lease_ttl = 60"
definition active_index_cleanup_batch_size :: nat where "active_index_cleanup_batch_size = 1000"

definition new_concurrency_cache :: "int \<Rightarrow> int \<Rightarrow> concurrency_cache" where
  "new_concurrency_cache slot_ttl_minutes wait_queue_ttl_seconds =
     (let slot_ttl_minutes = (if slot_ttl_minutes \<le> 0 then 15 else slot_ttl_minutes);
          wait_queue_ttl_seconds =
            (if wait_queue_ttl_seconds \<le> 0 then slot_ttl_minutes * 60 else wait_queue_ttl_seconds)
      in \<lparr>cc_slot_ttl = slot_ttl_minutes * 60, cc_wait_queue_ttl = wait_queue_ttl_seconds\<rparr>)"

record index_spec =
  sp_index :: index_key
  sp_slot :: "int \<Rightarrow> slot_key"
  sp_wait :: "int \<Rightarrow> wait_key"

definition account_index :: index_spec where
  "account_index = \<lparr>sp_index = Account_active_index, sp_slot = Account_slot_key, sp_wait = Account_wait_key\<rparr>"

definition user_index :: index_spec where
  "user_index = \<lparr>sp_index = User_active_index, sp_slot = User_slot_key, sp_wait = Wait_queue_key\<rparr>"

definition touch_active_index_at :: "index_key \<Rightarrow> int \<Rightarrow> int \<Rightarrow> redis_db \<Rightarrow> redis_db" where
  "touch_active_index_at ix i expire_at db =
     (if i \<le> 0 \<or> expire_at \<le> 0 then db else index_add ix i expire_at db)"

definition active_index_ttl :: "concurrency_cache \<Rightarrow> int \<Rightarrow> int \<Rightarrow> int" where
  "active_index_ttl c slot_count wait_count =
     (let ttl = (if 0 < slot_count then cc_slot_ttl c else 0)
      in if 0 < wait_count \<and> ttl < cc_wait_queue_ttl c then cc_wait_queue_ttl c else ttl)"

definition positive_wait :: "int option \<Rightarrow> int" where
  "positive_wait w = (case w of None \<Rightarrow> 0 | Some v \<Rightarrow> if 0 < v then v else 0)"

definition read_active_load :: "concurrency_cache \<Rightarrow> int \<Rightarrow> index_spec \<Rightarrow> int \<Rightarrow> redis_db \<Rightarrow> redis_db \<times> int \<times> int" where
  "read_active_load c now spec i db =
     (let db = z_rem_range now (sp_slot spec i) (now - cc_slot_ttl c) db
      in (db, z_card now (sp_slot spec i) db, positive_wait (get_wait now (sp_wait spec i) db)))"

definition refresh_active_index :: "concurrency_cache \<Rightarrow> int \<Rightarrow> index_spec \<Rightarrow> int \<Rightarrow> redis_db \<Rightarrow> redis_db" where
  "refresh_active_index c now spec i db =
     (if i \<le> 0 then db
      else case read_active_load c now spec i db of (db, slot_count, wait_count) \<Rightarrow>
        if slot_count = 0 \<and> wait_count \<le> 0 then index_rem (sp_index spec) [i] db
        else
          let ttl = active_index_ttl c slot_count wait_count
          in if ttl \<le> 0 then db else touch_active_index_at (sp_index spec) i (now + ttl) db)"

definition acquire_account_slot :: "concurrency_cache \<Rightarrow> int \<Rightarrow> int \<Rightarrow> int \<Rightarrow> string \<Rightarrow> redis_db \<Rightarrow> redis_db \<times> bool" where
  "acquire_account_slot c now account_id max_concurrency request_id db =
     (case acquire_script now (Account_slot_key account_id) (Live_account_slot_key account_id)
         max_concurrency (cc_slot_ttl c) request_id db of (db, ok) \<Rightarrow>
      (if ok then touch_active_index_at Account_active_index account_id (now + cc_slot_ttl c) db else db, ok))"

definition release_account_slot :: "concurrency_cache \<Rightarrow> int \<Rightarrow> int \<Rightarrow> string \<Rightarrow> redis_db \<Rightarrow> redis_db" where
  "release_account_slot c now account_id request_id db =
     refresh_active_index c now account_index account_id (z_rem now (Account_slot_key account_id) request_id db)"

definition get_account_concurrency :: "concurrency_cache \<Rightarrow> int \<Rightarrow> int \<Rightarrow> redis_db \<Rightarrow> redis_db \<times> int" where
  "get_account_concurrency c now account_id db =
     get_count_script now (Account_slot_key account_id) (Live_account_slot_key account_id) (cc_slot_ttl c) db"

definition acquire_user_slot :: "concurrency_cache \<Rightarrow> int \<Rightarrow> int \<Rightarrow> int \<Rightarrow> string \<Rightarrow> redis_db \<Rightarrow> redis_db \<times> bool" where
  "acquire_user_slot c now user_id max_concurrency request_id db =
     (case acquire_script now (User_slot_key user_id) (Live_user_slot_key user_id)
         max_concurrency (cc_slot_ttl c) request_id db of (db, ok) \<Rightarrow>
      (if ok then touch_active_index_at User_active_index user_id (now + cc_slot_ttl c) db else db, ok))"

definition release_user_slot :: "concurrency_cache \<Rightarrow> int \<Rightarrow> int \<Rightarrow> string \<Rightarrow> redis_db \<Rightarrow> redis_db" where
  "release_user_slot c now user_id request_id db =
     refresh_active_index c now user_index user_id (z_rem now (User_slot_key user_id) request_id db)"

definition get_user_concurrency :: "concurrency_cache \<Rightarrow> int \<Rightarrow> int \<Rightarrow> redis_db \<Rightarrow> redis_db \<times> int" where
  "get_user_concurrency c now user_id db =
     get_count_script now (User_slot_key user_id) (Live_user_slot_key user_id) (cc_slot_ttl c) db"

text \<open>The batch reads: one pipeline prunes and counts the keys in turn.\<close>

fun count_pipeline :: "int \<Rightarrow> int \<Rightarrow> (int \<Rightarrow> slot_key) \<Rightarrow> (int \<Rightarrow> slot_key) \<Rightarrow> int list \<Rightarrow> redis_db \<Rightarrow>
    redis_db \<times> (int \<times> int) list" where
  "count_pipeline now ttl slot_key live_key [] db = (db, [])"
| "count_pipeline now ttl slot_key live_key (i # ids) db =
     (let db = z_rem_range now (slot_key i) (now - ttl) db;
          db = z_rem_range now (live_key i) (now - live_lease_ttl) db;
          n = z_card now (slot_key i) db + z_card now (live_key i) db
      in case count_pipeline now ttl slot_key live_key ids db of (db, ns) \<Rightarrow> (db, (i, n) # ns))"

definition get_account_concurrency_batch :: "concurrency_cache \<Rightarrow> int \<Rightarrow> int list \<Rightarrow> redis_db \<Rightarrow> redis_db \<times> (int \<times> int) list" where
  "get_account_concurrency_batch c now account_ids db =
     count_pipeline now (cc_slot_ttl c) Account_slot_key Live_account_slot_key account_ids db"

definition get_api_key_concurrency_batch :: "concurrency_cache \<Rightarrow> int \<Rightarrow> int list \<Rightarrow> redis_db \<Rightarrow> redis_db \<times> (int \<times> int) list" where
  "get_api_key_concurrency_batch c now api_key_ids db =
     count_pipeline now (cc_slot_ttl c) Api_key_slot_key Live_api_key_slot_key api_key_ids db"

definition track_api_key_slot :: "concurrency_cache \<Rightarrow> int \<Rightarrow> int \<Rightarrow> string \<Rightarrow> redis_db \<Rightarrow> redis_db" where
  "track_api_key_slot c now api_key_id request_id db =
     track_slot_script now (Api_key_slot_key api_key_id) (cc_slot_ttl c) request_id db"

definition release_api_key_slot :: "int \<Rightarrow> int \<Rightarrow> string \<Rightarrow> redis_db \<Rightarrow> redis_db" where
  "release_api_key_slot now api_key_id request_id db = z_rem now (Api_key_slot_key api_key_id) request_id db"

definition acquire_ws_ingress_lease :: "int \<Rightarrow> int \<Rightarrow> int \<Rightarrow> string \<Rightarrow> redis_db \<Rightarrow> redis_db \<times> bool" where
  "acquire_ws_ingress_lease now api_key_id max_connections lease_id db =
     (if api_key_id \<le> 0 \<or> max_connections \<le> 0 \<or> lease_id = [] then (db, False)
      else acquire_ingress_lease_script now (Ws_ingress_lease_key api_key_id) max_connections
             ws_ingress_lease_ttl lease_id db)"

definition refresh_ws_ingress_lease :: "int \<Rightarrow> int \<Rightarrow> string \<Rightarrow> redis_db \<Rightarrow> redis_db \<times> bool" where
  "refresh_ws_ingress_lease now api_key_id lease_id db =
     (if api_key_id \<le> 0 \<or> lease_id = [] then (db, False)
      else refresh_ingress_lease_script now (Ws_ingress_lease_key api_key_id) ws_ingress_lease_ttl lease_id db)"

definition release_ws_ingress_lease :: "int \<Rightarrow> int \<Rightarrow> string \<Rightarrow> redis_db \<Rightarrow> redis_db" where
  "release_ws_ingress_lease now api_key_id lease_id db =
     (if api_key_id \<le> 0 \<or> lease_id = [] then db
      else z_rem now (Ws_ingress_lease_key api_key_id) lease_id db)"

definition acquire_live_lease :: "int \<Rightarrow> int \<Rightarrow> int \<Rightarrow> int \<Rightarrow> int \<Rightarrow> int \<Rightarrow> string \<Rightarrow> bool \<Rightarrow> redis_db \<Rightarrow> redis_db \<times> bool" where
  "acquire_live_lease now account_id account_max user_id user_max api_key_id lease_id replacing db =
     (if account_id \<le> 0 \<or> user_id \<le> 0 \<or> api_key_id \<le> 0 \<or> lease_id = [] then (db, False)
      else acquire_live_lease_script now (Account_slot_key account_id) (Live_account_slot_key account_id)
             (User_slot_key user_id) (Live_user_slot_key user_id) (Live_api_key_slot_key api_key_id)
             account_max user_max live_lease_ttl lease_id replacing db)"

definition live_keys :: "int \<Rightarrow> int \<Rightarrow> int \<Rightarrow> slot_key list" where
  "live_keys account_id user_id api_key_id =
     [Live_account_slot_key account_id, Live_user_slot_key user_id, Live_api_key_slot_key api_key_id]"

definition refresh_live_lease :: "int \<Rightarrow> int \<Rightarrow> int \<Rightarrow> int \<Rightarrow> string \<Rightarrow> redis_db \<Rightarrow> redis_db \<times> bool" where
  "refresh_live_lease now account_id user_id api_key_id lease_id db =
     (if lease_id = [] then (db, False)
      else refresh_live_lease_script now (live_keys account_id user_id api_key_id) live_lease_ttl lease_id db)"

definition release_live_lease :: "int \<Rightarrow> int \<Rightarrow> int \<Rightarrow> int \<Rightarrow> string \<Rightarrow> redis_db \<Rightarrow> redis_db" where
  "release_live_lease now account_id user_id api_key_id lease_id db =
     (if lease_id = [] then db
      else fold (\<lambda>k db. z_rem now k lease_id db) (live_keys account_id user_id api_key_id) db)"

definition increment_wait_count :: "concurrency_cache \<Rightarrow> int \<Rightarrow> int \<Rightarrow> int \<Rightarrow> redis_db \<Rightarrow> redis_db \<times> bool" where
  "increment_wait_count c now user_id max_wait db =
     (case increment_wait_script now (Wait_queue_key user_id) max_wait (cc_wait_queue_ttl c) db of (db, ok) \<Rightarrow>
      (if ok then touch_active_index_at User_active_index user_id (now + cc_wait_queue_ttl c) db else db, ok))"

definition decrement_wait_count :: "concurrency_cache \<Rightarrow> int \<Rightarrow> int \<Rightarrow> redis_db \<Rightarrow> redis_db" where
  "decrement_wait_count c now user_id db =
     refresh_active_index c now user_index user_id (decrement_wait_script now (Wait_queue_key user_id) db)"

definition increment_account_wait_count :: "concurrency_cache \<Rightarrow> int \<Rightarrow> int \<Rightarrow> int \<Rightarrow> redis_db \<Rightarrow> redis_db \<times> bool" where
  "increment_account_wait_count c now account_id max_wait db =
     (case increment_wait_script now (Account_wait_key account_id) max_wait (cc_wait_queue_ttl c) db of (db, ok) \<Rightarrow>
      (if ok then touch_active_index_at Account_active_index account_id (now + cc_wait_queue_ttl c) db else db, ok))"

definition decrement_account_wait_count :: "concurrency_cache \<Rightarrow> int \<Rightarrow> int \<Rightarrow> redis_db \<Rightarrow> redis_db" where
  "decrement_account_wait_count c now account_id db =
     refresh_active_index c now account_index account_id (decrement_wait_script now (Account_wait_key account_id) db)"

definition get_account_waiting_count :: "int \<Rightarrow> int \<Rightarrow> redis_db \<Rightarrow> int" where
  "get_account_waiting_count now account_id db =
     (case get_wait now (Account_wait_key account_id) db of None \<Rightarrow> 0 | Some v \<Rightarrow> v)"

record load_info =
  li_id :: int
  li_current_concurrency :: int
  li_waiting_count :: int
  li_load_rate :: int

text \<open>Integer division of Go rounds toward zero; the operands here are not negative.\<close>

fun load_pipeline :: "int \<Rightarrow> int \<Rightarrow> (int \<Rightarrow> slot_key) \<Rightarrow> (int \<Rightarrow> slot_key) \<Rightarrow> (int \<Rightarrow> wait_key) \<Rightarrow>
    (int \<times> int) list \<Rightarrow> redis_db \<Rightarrow> redis_db \<times> load_info list" where
  "load_pipeline now ttl slot_key live_key wait_key [] db = (db, [])"
| "load_pipeline now ttl slot_key live_key wait_key ((i, max_concurrency) # rest) db =
     (let db = z_rem_range now (slot_key i) (now - ttl) db;
          db = z_rem_range now (live_key i) (now - live_lease_ttl) db;
          current = z_card now (slot_key i) db + z_card now (live_key i) db;
          waiting = (case get_wait now (wait_key i) db of None \<Rightarrow> 0 | Some v \<Rightarrow> v);
          rate = (if 0 < max_concurrency then (current + waiting) * 100 div max_concurrency else 0)
      in case load_pipeline now ttl slot_key live_key wait_key rest db of (db, infos) \<Rightarrow>
           (db, \<lparr>li_id = i, li_current_concurrency = current, li_waiting_count = waiting,
                 li_load_rate = rate\<rparr> # infos))"

definition get_accounts_load_batch :: "concurrency_cache \<Rightarrow> int \<Rightarrow> (int \<times> int) list \<Rightarrow> redis_db \<Rightarrow> redis_db \<times> load_info list" where
  "get_accounts_load_batch c now accounts db =
     load_pipeline now (cc_slot_ttl c) Account_slot_key Live_account_slot_key Account_wait_key accounts db"

definition get_users_load_batch :: "concurrency_cache \<Rightarrow> int \<Rightarrow> (int \<times> int) list \<Rightarrow> redis_db \<Rightarrow> redis_db \<times> load_info list" where
  "get_users_load_batch c now users db =
     load_pipeline now (cc_slot_ttl c) User_slot_key Live_user_slot_key Wait_queue_key users db"

definition cleanup_expired_account_slots :: "concurrency_cache \<Rightarrow> int \<Rightarrow> int \<Rightarrow> redis_db \<Rightarrow> redis_db" where
  "cleanup_expired_account_slots c now account_id db =
     refresh_active_index c now account_index account_id
       (cleanup_expired_slots_script now (Account_slot_key account_id) (cc_slot_ttl c) db)"

fun read_index_loads :: "concurrency_cache \<Rightarrow> int \<Rightarrow> index_spec \<Rightarrow> int list \<Rightarrow> redis_db \<Rightarrow>
    redis_db \<times> (int \<times> int \<times> int) list" where
  "read_index_loads c now spec [] db = (db, [])"
| "read_index_loads c now spec (i # ids) db =
     (case read_active_load c now spec i db of (db, slots, waits) \<Rightarrow>
      case read_index_loads c now spec ids db of (db, loads) \<Rightarrow> (db, (i, slots, waits) # loads))"

text \<open>Members that are not positive ids are stale at once, the others by their load.\<close>

definition reconcile_expired_index_candidates :: "concurrency_cache \<Rightarrow> int \<Rightarrow> index_spec \<Rightarrow> redis_db \<Rightarrow> redis_db" where
  "reconcile_expired_index_candidates c now spec db =
     (let members = map fst (take active_index_cleanup_batch_size
            (sort_key snd (filter (\<lambda>(i, s). s \<le> now) (rd_index db (sp_index spec)))));
          stale = filter (\<lambda>i. i \<le> 0) members
      in case read_index_loads c now spec (filter (\<lambda>i. 0 < i) members) db of (db, loads) \<Rightarrow>
           let idle = (\<lambda>(i, slots, waits). slots = 0 \<and> waits \<le> 0);
               refreshed = filter (\<lambda>l. \<not> idle l) loads;
               db = fold (\<lambda>(i, slots, waits). index_add (sp_index spec) i (now + active_index_ttl c slots waits))
                      refreshed db
           in index_rem (sp_index spec) (stale @ map fst (filter idle loads)) db)"

definition cleanup_expired_account_slot_keys :: "concurrency_cache \<Rightarrow> int \<Rightarrow> redis_db \<Rightarrow> redis_db" where
  "cleanup_expired_account_slot_keys c now db =
     reconcile_expired_index_candidates c now user_index
       (reconcile_expired_index_candidates c now account_index db)"

definition sweep_legacy_wait_keys_once :: "redis_db \<Rightarrow> redis_db" where
  "sweep_legacy_wait_keys_once db =
     (if rd_legacy_sweep_done db then db
      else db\<lparr>rd_waits := (\<lambda>_. None), rd_legacy_sweep_done := True\<rparr>)"

fun cleanup_stale_for_index :: "concurrency_cache \<Rightarrow> int \<Rightarrow> index_spec \<Rightarrow> string \<Rightarrow> int list \<Rightarrow> redis_db \<Rightarrow>
    redis_db \<times> int list \<times> int list" where
  "cleanup_stale_for_index c now spec prefix [] db = (db, [], [])"
| "cleanup_stale_for_index c now spec prefix (i # ids) db =
     (if i \<le> 0 then
        (case cleanup_stale_for_index c now spec prefix ids db of (db, keep, stale) \<Rightarrow> (db, keep, i # stale))
      else
        (case startup_cleanup_slot_script now (sp_slot spec i) prefix (cc_slot_ttl c) db of (db, remaining) \<Rightarrow>
           let db = db\<lparr>rd_waits := (rd_waits db)(sp_wait spec i := None)\<rparr> in
           case cleanup_stale_for_index c now spec prefix ids db of (db, keep, stale) \<Rightarrow>
             (db, if 0 < remaining then (i # keep, stale) else (keep, i # stale))))"

definition cleanup_stale_process_slots_for_index :: "concurrency_cache \<Rightarrow> int \<Rightarrow> index_spec \<Rightarrow> string \<Rightarrow> redis_db \<Rightarrow> redis_db" where
  "cleanup_stale_process_slots_for_index c now spec prefix db =
     (case cleanup_stale_for_index c now spec prefix (map fst (rd_index db (sp_index spec))) db of
        (db, keep, stale) \<Rightarrow>
          index_rem (sp_index spec) stale
            (fold (\<lambda>i. index_add (sp_index spec) i (now + cc_slot_ttl c)) keep db))"

definition cleanup_stale_process_slots :: "concurrency_cache \<Rightarrow> int \<Rightarrow> string \<Rightarrow> redis_db \<Rightarrow> redis_db" where
  "cleanup_stale_process_slots c now active_prefix db =
     (if active_prefix = [] then db
      else cleanup_stale_process_slots_for_index c now user_index active_prefix
             (cleanup_stale_process_slots_for_index c now account_index active_prefix
               (sweep_legacy_wait_keys_once db)))"

section \<open>How the primitives change a key\<close>

lemma zput_other [simp]: "k' \<noteq> k \<Longrightarrow> zget now k' (zput k z db) = zget now k' db"
  by (simp add: zput_def zget_def)

lemma zput_rest [simp]:
  "rd_waits (zput k z db) = rd_waits db" "rd_index (zput k z db) = rd_index db"
  by (simp_all add: zput_def)

lemma z_card_other [simp]: "k' \<noteq> k \<Longrightarrow> z_card now k' (zput k z db) = z_card now k' db"
  by (simp add: z_card_def)

lemma z_card_zput: "z_card now k (zput k z db) \<le> int (length (zs_members z))"
  by (auto simp: z_card_def zget_def zput_def empty_zset_def Let_def split: option.splits)

lemma z_card_nonneg [simp]: "0 \<le> z_card now k db"
  by (simp add: z_card_def)

text \<open>Time only takes members away.\<close>

lemma z_card_later: "now \<le> now' \<Longrightarrow> z_card now' k db \<le> z_card now k db"
  by (auto simp: z_card_def zget_def empty_zset_def Let_def split: option.splits)

text \<open>An operation that adds no member anywhere.\<close>

definition shrinks :: "int \<Rightarrow> redis_db \<Rightarrow> redis_db \<Rightarrow> bool" where
  "shrinks now db db' \<longleftrightarrow> (\<forall>k. z_card now k db' \<le> z_card now k db)"

lemma shrinks_refl [simp]: "shrinks now db db"
  by (simp add: shrinks_def)

lemma shrinks_zput:
  assumes "shrinks now db db'" and "int (length (zs_members z)) \<le> z_card now k db'"
  shows "shrinks now db (zput k z db')"
  unfolding shrinks_def
proof
  fix k'
  show "z_card now k' (zput k z db') \<le> z_card now k' db"
    using assms z_card_zput [of now k z db'] by (cases "k' = k") (auto simp: shrinks_def intro: order.trans)
qed

lemma shrinks_filter:
  assumes "shrinks now db db'"
  shows "shrinks now db (zput k ((zget now k db')\<lparr>zs_members := filter P (zs_members (zget now k db'))\<rparr>) db')"
  by (intro shrinks_zput [OF assms]) (simp add: z_card_def)

lemma shrinks_rem_range: "shrinks now db db' \<Longrightarrow> shrinks now db (z_rem_range now k bound db')"
  unfolding z_rem_range_def Let_def by (rule shrinks_filter)

lemma shrinks_rem: "shrinks now db db' \<Longrightarrow> shrinks now db (z_rem now k m db')"
  unfolding z_rem_def Let_def by (rule shrinks_filter)

lemma shrinks_expire: "shrinks now db db' \<Longrightarrow> shrinks now db (expire_key now k ttl db')"
  unfolding expire_key_def by (intro shrinks_zput) (simp_all add: z_card_def)

lemma shrinks_del: "shrinks now db db' \<Longrightarrow> shrinks now db (del_key k db')"
  unfolding del_key_def by (intro shrinks_zput) (simp_all add: empty_zset_def)

lemma length_update: "length (AList.update k v xs) = (if k \<in> fst ` set xs then length xs else Suc (length xs))"
  by (induction xs) (auto simp: image_iff)

lemma shrinks_readd:
  assumes "z_score now k m db' \<noteq> None" and "shrinks now db db'"
  shows "shrinks now db (z_add now k score m db')"
proof -
  have "m \<in> fst ` set (zs_members (zget now k db'))"
    using assms(1) by (force simp: z_score_def dest: map_of_SomeD)
  then show ?thesis
    unfolding z_add_def Let_def by (intro shrinks_zput [OF assms(2)]) (simp add: z_card_def length_update)
qed

text \<open>Adding a member: one key grows by at most one.\<close>

lemma z_card_add: "z_card now k' (z_add now k score m db) \<le> z_card now k' db + (if k' = k then 1 else 0)"
proof (cases "k' = k")
  case True
  let ?z = "(zget now k db)\<lparr>zs_members := AList.update m score (zs_members (zget now k db))\<rparr>"
  have "z_card now k (zput k ?z db) \<le> int (length (zs_members ?z))" by (rule z_card_zput)
  also have "\<dots> \<le> z_card now k db + 1" by (simp add: length_update z_card_def)
  finally show ?thesis using True by (simp add: z_add_def Let_def)
qed (simp add: z_add_def Let_def)

lemma z_card_index [simp]:
  "z_card now k (index_add ix i s db) = z_card now k db" "z_card now k (index_rem ix ids db) = z_card now k db"
  "z_card now k (db\<lparr>rd_waits := w\<rparr>) = z_card now k db"
  by (simp_all add: z_card_def zget_def index_add_def index_rem_def)

lemma z_card_touch [simp]: "z_card now k (touch_active_index_at ix i e db) = z_card now k db"
  by (simp add: touch_active_index_at_def)

lemma shrinks_same [simp]:
  "shrinks now db (db'\<lparr>rd_waits := w\<rparr>) = shrinks now db db'"
  "shrinks now db (index_add ix i e db') = shrinks now db db'" "shrinks now db (index_rem ix ids db') = shrinks now db db'"
  by (simp_all add: shrinks_def)

lemma shrinks_touch [simp]: "shrinks now db (touch_active_index_at ix i e db') = shrinks now db db'"
  by (simp add: touch_active_index_at_def)

text \<open>The scripts and methods that add no member.\<close>

lemma shrinks_refresh_index: "shrinks now db db' \<Longrightarrow> shrinks now db (refresh_active_index c now spec i db')"
  by (simp add: refresh_active_index_def read_active_load_def Let_def shrinks_rem_range)

lemma shrinks_get_count: "shrinks now db db' \<Longrightarrow> shrinks now db (fst (get_count_script now key live ttl db'))"
  by (simp add: get_count_script_def Let_def shrinks_rem_range)

lemma shrinks_fold_rem: "shrinks now db db' \<Longrightarrow> shrinks now db (fold (z_rem now key) ms db')"
  by (induction ms arbitrary: db') (simp_all add: shrinks_rem)

lemma shrinks_fold_keys: "shrinks now db db' \<Longrightarrow> shrinks now db (fold (\<lambda>k db. z_rem now k m db) ks db')"
  by (induction ks arbitrary: db') (simp_all add: shrinks_rem)

lemma shrinks_startup: "shrinks now db db' \<Longrightarrow> shrinks now db (fst (startup_cleanup_slot_script now key prefix ttl db'))"
  by (simp add: startup_cleanup_slot_script_def Let_def shrinks_fold_rem shrinks_del shrinks_expire)

lemma shrinks_cleanup_expired: "shrinks now db db' \<Longrightarrow> shrinks now db (cleanup_expired_slots_script now key ttl db')"
  by (simp add: cleanup_expired_slots_script_def Let_def shrinks_rem_range shrinks_del shrinks_expire)

lemma shrinks_count_pipeline: "shrinks now db db' \<Longrightarrow> shrinks now db (fst (count_pipeline now ttl sk lk ids db'))"
proof (induction ids arbitrary: db')
  case (Cons i ids)
  then have "shrinks now db (fst (count_pipeline now ttl sk lk ids
      (z_rem_range now (lk i) (now - live_lease_ttl) (z_rem_range now (sk i) (now - ttl) db'))))"
    by (simp add: shrinks_rem_range)
  then show ?case by (simp add: Let_def case_prod_beta)
qed simp

lemma shrinks_load_pipeline: "shrinks now db db' \<Longrightarrow> shrinks now db (fst (load_pipeline now ttl sk lk wk accs db'))"
proof (induction accs arbitrary: db')
  case (Cons a accs)
  obtain i mx where a: "a = (i, mx)" by fastforce
  from Cons have "shrinks now db (fst (load_pipeline now ttl sk lk wk accs
      (z_rem_range now (lk i) (now - live_lease_ttl) (z_rem_range now (sk i) (now - ttl) db'))))"
    by (simp add: shrinks_rem_range)
  then show ?case by (simp add: a Let_def case_prod_beta)
qed simp

lemma shrinks_read_loads: "shrinks now db db' \<Longrightarrow> shrinks now db (fst (read_index_loads c now spec ids db'))"
proof (induction ids arbitrary: db')
  case (Cons i ids)
  then have "shrinks now db (fst (read_index_loads c now spec ids
      (z_rem_range now (sp_slot spec i) (now - cc_slot_ttl c) db')))"
    by (simp add: shrinks_rem_range)
  then show ?case by (simp add: read_active_load_def Let_def case_prod_beta)
qed simp

lemma shrinks_fold_loads:
  "shrinks now db (fold (\<lambda>(i, slots, waits). index_add ix i (f i slots waits)) ls db') = shrinks now db db'"
proof (induction ls arbitrary: db')
  case (Cons l ls)
  then show ?case by (cases l) simp
qed simp

lemma shrinks_fold_index: "shrinks now db (fold (\<lambda>i. index_add ix i e) ids db') = shrinks now db db'"
  by (induction ids arbitrary: db') simp_all

lemma shrinks_reconcile: "shrinks now db db' \<Longrightarrow> shrinks now db (reconcile_expired_index_candidates c now spec db')"
  by (simp add: reconcile_expired_index_candidates_def Let_def case_prod_beta [of _ "read_index_loads _ _ _ _ _"]
      shrinks_fold_loads shrinks_read_loads)

lemma shrinks_stale_for_index:
  "shrinks now db db' \<Longrightarrow> shrinks now db (fst (cleanup_stale_for_index c now spec prefix ids db'))"
proof (induction ids arbitrary: db')
  case (Cons i ids)
  show ?case
  proof (cases "i \<le> 0")
    case True
    with Cons show ?thesis by (simp add: case_prod_beta)
  next
    case False
    let ?db = "fst (startup_cleanup_slot_script now (sp_slot spec i) prefix (cc_slot_ttl c) db')"
    have "shrinks now db (fst (cleanup_stale_for_index c now spec prefix ids
        (?db\<lparr>rd_waits := (rd_waits ?db)(sp_wait spec i := None)\<rparr>)))"
      using Cons by (simp add: shrinks_startup)
    with False show ?thesis by (simp add: case_prod_beta Let_def)
  qed
qed simp

lemma shrinks_cleanup_stale: "shrinks now db db' \<Longrightarrow> shrinks now db (cleanup_stale_process_slots c now prefix db')"
proof -
  have one: "shrinks now db (cleanup_stale_process_slots_for_index c now spec prefix db')" if "shrinks now db db'" for spec db'
    using that by (simp add: cleanup_stale_process_slots_for_index_def shrinks_fold_index case_prod_beta
        shrinks_stale_for_index)
  assume "shrinks now db db'"
  then have "shrinks now db (sweep_legacy_wait_keys_once db')"
    by (simp add: sweep_legacy_wait_keys_once_def shrinks_def z_card_def zget_def)
  with one \<open>shrinks now db db'\<close> show ?thesis by (simp add: cleanup_stale_process_slots_def)
qed

lemmas shrinks_intros = shrinks_rem_range shrinks_rem shrinks_expire shrinks_del shrinks_refresh_index
  shrinks_get_count shrinks_fold_rem shrinks_fold_keys shrinks_cleanup_expired shrinks_count_pipeline
  shrinks_load_pipeline shrinks_reconcile shrinks_cleanup_stale

section \<open>The limits hold\<close>

definition load :: "int \<Rightarrow> slot_key \<Rightarrow> slot_key \<Rightarrow> redis_db \<Rightarrow> int" where
  "load now key live_key db = z_card now key db + z_card now live_key db"

lemma shrinks_card: "shrinks now db db' \<Longrightarrow> z_card now k db' \<le> z_card now k db"
  by (simp add: shrinks_def)

lemma shrinks_load: "shrinks now db db' \<Longrightarrow> load now k l db' \<le> load now k l db"
  using shrinks_card [of now db db' k] shrinks_card [of now db db' l] by (simp add: load_def)

lemma acquire_script_load:
  assumes "acquire_script now key live mx ttl rid db = (db', ok)" and "key \<noteq> live"
  shows "load now key live db' \<le> load now key live db \<or> load now key live db' \<le> mx"
    and "k \<noteq> key \<Longrightarrow> z_card now k db' \<le> z_card now k db"
proof -
  let ?p = "z_rem_range now live (now - 60) (z_rem_range now key (now - ttl) db)"
  let ?a = "expire_key now key ttl (z_add now key now rid ?p)"
  have p: "shrinks now db ?p" by (intro shrinks_intros shrinks_refl)
  have a: "shrinks now (z_add now key now rid ?p) ?a" by (intro shrinks_intros shrinks_refl)
  have add: "z_card now k ?a \<le> z_card now k ?p + (if k = key then 1 else 0)" for k
    using shrinks_card [OF a, of k] z_card_add [of now k key now rid ?p] by linarith
  consider "db' = ?p" | "db' = ?a" "z_score now key rid ?p \<noteq> None" | "db' = ?a" "load now key live ?p < mx"
    using assms(1) by (auto simp: acquire_script_def Let_def load_def split: if_splits)
  note cases = this
  show "load now key live db' \<le> load now key live db \<or> load now key live db' \<le> mx"
  proof (cases rule: cases)
    case 1
    with shrinks_load [OF p] show ?thesis by simp
  next
    case 2
    then have "shrinks now db ?a" by (intro shrinks_intros shrinks_readd) simp_all
    with 2 shrinks_load show ?thesis by blast
  next
    case 3
    with add [of key] add [of live] assms(2) show ?thesis by (simp add: load_def)
  qed
  show "z_card now k db' \<le> z_card now k db" if "k \<noteq> key"
    using cases add [of k] that shrinks_card [OF p, of k] by (cases rule: cases) auto
qed

lemma ingress_script_card:
  assumes "acquire_ingress_lease_script now key mx ttl lease db = (db', ok)"
  shows "z_card now key db' \<le> z_card now key db \<or> z_card now key db' \<le> mx"
    and "k \<noteq> key \<Longrightarrow> z_card now k db' \<le> z_card now k db"
proof -
  let ?p = "z_rem_range now key (now - ttl) db"
  let ?a = "expire_key now key ttl (z_add now key now lease ?p)"
  have p: "shrinks now db ?p" by (intro shrinks_intros shrinks_refl)
  have a: "shrinks now (z_add now key now lease ?p) ?a" by (intro shrinks_intros shrinks_refl)
  have add: "z_card now k ?a \<le> z_card now k ?p + (if k = key then 1 else 0)" for k
    using shrinks_card [OF a, of k] z_card_add [of now k key now lease ?p] by linarith
  consider "db' = ?p" | "db' = ?a" "z_score now key lease ?p \<noteq> None" | "db' = ?a" "z_card now key ?p < mx"
    using assms by (auto simp: acquire_ingress_lease_script_def Let_def split: if_splits)
  note cases = this
  show "z_card now key db' \<le> z_card now key db \<or> z_card now key db' \<le> mx"
  proof (cases rule: cases)
    case 1
    with shrinks_card [OF p] show ?thesis by simp
  next
    case 2
    then have "shrinks now db ?a" by (intro shrinks_intros shrinks_readd) simp_all
    with 2 shrinks_card show ?thesis by blast
  next
    case 3
    with add [of key] show ?thesis by simp
  qed
  show "z_card now k db' \<le> z_card now k db" if "k \<noteq> key"
    using cases add [of k] that shrinks_card [OF p, of k] by (cases rule: cases) auto
qed

lemma live_script_load:
  assumes "acquire_live_lease_script now ar al ur ul pl amax umax ttl lease repl db = (db', ok)"
    and "distinct [ar, al, ur, ul, pl]"
  shows "load now ar al db' \<le> load now ar al db \<or> (0 < amax \<longrightarrow> load now ar al db' \<le> amax + (if repl then 1 else 0))"
    and "load now ur ul db' \<le> load now ur ul db \<or> (0 < umax \<longrightarrow> load now ur ul db' \<le> umax + (if repl then 1 else 0))"
    and "k \<notin> {al, ul, pl} \<Longrightarrow> z_card now k db' \<le> z_card now k db"
proof -
  let ?p = "z_rem_range now pl (now - ttl) (z_rem_range now ul (now - ttl) (z_rem_range now al (now - ttl) db))"
  let ?b = "z_add now pl now lease (z_add now ul now lease (z_add now al now lease ?p))"
  let ?a = "expire_key now pl ttl (expire_key now ul ttl (expire_key now al ttl ?b))"
  have p: "shrinks now db ?p" by (intro shrinks_intros shrinks_refl)
  have "shrinks now ?b ?a" by (intro shrinks_intros shrinks_refl)
  then have add: "z_card now k ?a \<le> z_card now k ?p + (if k \<in> {al, ul, pl} then 1 else 0)" for k
    using shrinks_card [of now ?b ?a k] z_card_add [of now k pl now lease "z_add now ul now lease (z_add now al now lease ?p)"]
      z_card_add [of now k ul now lease "z_add now al now lease ?p"] z_card_add [of now k al now lease ?p] assms(2)
    by (auto split: if_splits)
  consider "db' = ?p" | "db' = ?a" "0 < amax \<longrightarrow> load now ar al ?p < amax + (if repl then 1 else 0)"
      "0 < umax \<longrightarrow> load now ur ul ?p < umax + (if repl then 1 else 0)"
    using assms(1) by (auto simp: acquire_live_lease_script_def Let_def load_def split: if_splits)
  note cases = this
  show "load now ar al db' \<le> load now ar al db \<or> (0 < amax \<longrightarrow> load now ar al db' \<le> amax + (if repl then 1 else 0))"
    using cases add [of ar] add [of al] assms(2) shrinks_load [OF p, of ar al]
    by (cases rule: cases) (auto simp: load_def)
  show "load now ur ul db' \<le> load now ur ul db \<or> (0 < umax \<longrightarrow> load now ur ul db' \<le> umax + (if repl then 1 else 0))"
    using cases add [of ur] add [of ul] assms(2) shrinks_load [OF p, of ur ul]
    by (cases rule: cases) (auto simp: load_def)
  show "z_card now k db' \<le> z_card now k db" if "k \<notin> {al, ul, pl}"
    using cases add [of k] that shrinks_card [OF p, of k] by (cases rule: cases) auto
qed

text \<open>
  The calls of all processes of the deployment, each at a time of the Redis clock. The limits of the
  accounts, users and ingress connections are fixed for the run.
\<close>

record limits =
  lm_account :: "int \<Rightarrow> int"
  lm_user :: "int \<Rightarrow> int"
  lm_ingress :: "int \<Rightarrow> int"

datatype cache_call =
    Acquire_account int string | Release_account int string | Count_account int
  | Acquire_user int string | Release_user int string | Count_user int
  | Count_accounts "int list" | Count_api_keys "int list"
  | Track_api_key int string | Release_api_key int string
  | Acquire_ingress int string | Refresh_ingress int string | Release_ingress int string
  | Acquire_live int int int string bool | Refresh_live int int int string | Release_live int int int string
  | Add_wait int int | Drop_wait int | Add_account_wait int int | Drop_account_wait int
  | Load_accounts "(int \<times> int) list" | Load_users "(int \<times> int) list"
  | Clean_account int | Clean_expired | Clean_stale string

fun cache_effect :: "concurrency_cache \<Rightarrow> limits \<Rightarrow> int \<Rightarrow> cache_call \<Rightarrow> redis_db \<Rightarrow> redis_db" where
  "cache_effect c m now (Acquire_account a r) db = fst (acquire_account_slot c now a (lm_account m a) r db)"
| "cache_effect c m now (Release_account a r) db = release_account_slot c now a r db"
| "cache_effect c m now (Count_account a) db = fst (get_account_concurrency c now a db)"
| "cache_effect c m now (Acquire_user u r) db = fst (acquire_user_slot c now u (lm_user m u) r db)"
| "cache_effect c m now (Release_user u r) db = release_user_slot c now u r db"
| "cache_effect c m now (Count_user u) db = fst (get_user_concurrency c now u db)"
| "cache_effect c m now (Count_accounts ids) db = fst (get_account_concurrency_batch c now ids db)"
| "cache_effect c m now (Count_api_keys ids) db = fst (get_api_key_concurrency_batch c now ids db)"
| "cache_effect c m now (Track_api_key k r) db = track_api_key_slot c now k r db"
| "cache_effect c m now (Release_api_key k r) db = release_api_key_slot now k r db"
| "cache_effect c m now (Acquire_ingress k l) db = fst (acquire_ws_ingress_lease now k (lm_ingress m k) l db)"
| "cache_effect c m now (Refresh_ingress k l) db = fst (refresh_ws_ingress_lease now k l db)"
| "cache_effect c m now (Release_ingress k l) db = release_ws_ingress_lease now k l db"
| "cache_effect c m now (Acquire_live a u k l repl) db =
     fst (acquire_live_lease now a (lm_account m a) u (lm_user m u) k l repl db)"
| "cache_effect c m now (Refresh_live a u k l) db = fst (refresh_live_lease now a u k l db)"
| "cache_effect c m now (Release_live a u k l) db = release_live_lease now a u k l db"
| "cache_effect c m now (Add_wait u w) db = fst (increment_wait_count c now u w db)"
| "cache_effect c m now (Drop_wait u) db = decrement_wait_count c now u db"
| "cache_effect c m now (Add_account_wait a w) db = fst (increment_account_wait_count c now a w db)"
| "cache_effect c m now (Drop_account_wait a) db = decrement_account_wait_count c now a db"
| "cache_effect c m now (Load_accounts xs) db = fst (get_accounts_load_batch c now xs db)"
| "cache_effect c m now (Load_users xs) db = fst (get_users_load_batch c now xs db)"
| "cache_effect c m now (Clean_account a) db = cleanup_expired_account_slots c now a db"
| "cache_effect c m now Clean_expired db = cleanup_expired_account_slot_keys c now db"
| "cache_effect c m now (Clean_stale prefix) db = cleanup_stale_process_slots c now prefix db"

definition cache_step :: "concurrency_cache \<Rightarrow> limits \<Rightarrow> int \<times> redis_db \<Rightarrow> int \<times> cache_call \<Rightarrow> int \<times> redis_db" where
  "cache_step c m x e = (fst e, cache_effect c m (fst e) (snd e) (snd x))"

text \<open>The clock does not go back; \<open>slack\<close> is 1 when live leases may replace regular slots.\<close>

definition call_ok :: "int \<Rightarrow> int \<times> redis_db \<Rightarrow> int \<times> cache_call \<Rightarrow> bool" where
  "call_ok slack x e \<longleftrightarrow> fst x \<le> fst e \<and>
     (case snd e of Acquire_live a u k l repl \<Rightarrow> repl \<longrightarrow> slack = 1 | _ \<Rightarrow> True)"

definition within_limits :: "limits \<Rightarrow> int \<Rightarrow> int \<times> redis_db \<Rightarrow> bool" where
  "within_limits m slack x \<longleftrightarrow> 0 \<le> slack \<and>
     (\<forall>a. 0 < lm_account m a \<longrightarrow>
        load (fst x) (Account_slot_key a) (Live_account_slot_key a) (snd x) \<le> lm_account m a + slack) \<and>
     (\<forall>u. 0 < lm_user m u \<longrightarrow>
        load (fst x) (User_slot_key u) (Live_user_slot_key u) (snd x) \<le> lm_user m u + slack) \<and>
     (\<forall>k. 0 < lm_ingress m k \<longrightarrow> z_card (fst x) (Ws_ingress_lease_key k) (snd x) \<le> lm_ingress m k)"

lemma within_limits_le:
  assumes "within_limits m slack (t, db)" and "\<And>k. z_card now k db' \<le> z_card t k db"
  shows "within_limits m slack (now, db')"
proof -
  have "load now k l db' \<le> load t k l db" for k l
    using assms(2) [of k] assms(2) [of l] by (simp add: load_def)
  with assms show ?thesis unfolding within_limits_def fst_conv snd_conv by (meson order.trans)
qed

lemma shrinks_within:
  "shrinks now db db' \<Longrightarrow> within_limits m slack (now, db) \<Longrightarrow> within_limits m slack (now, db')"
  by (rule within_limits_le) (auto simp: shrinks_def)

lemma within_later: "within_limits m slack (t, db) \<Longrightarrow> t \<le> now \<Longrightarrow> within_limits m slack (now, db)"
  by (rule within_limits_le) (auto simp: z_card_later)

lemma shrinks_refresh_check: "shrinks now db db' \<Longrightarrow> shrinks now db (fst (refresh_check now ttl l ks db'))"
  by (induction ks arbitrary: db') (simp_all add: Let_def shrinks_rem_range)

lemma refresh_check_scores:
  "refresh_check now ttl l ks db = (db', True) \<Longrightarrow> distinct ks \<Longrightarrow> k \<in> set ks \<Longrightarrow> z_score now k l db' \<noteq> None"
proof (induction ks arbitrary: db)
  case (Cons k0 ks)
  let ?p = "z_rem_range now k0 (now - ttl) db"
  have p: "refresh_check now ttl l ks ?p = (db', True)" "z_score now k0 l ?p \<noteq> None"
    using Cons.prems(1) by (auto simp: Let_def split: if_splits)
  have keep: "zget now k0 (fst (refresh_check now ttl l ks d)) = zget now k0 d" if "k0 \<notin> set ks" for ks d
    using that by (induction ks arbitrary: d) (auto simp: Let_def z_rem_range_def)
  show ?case
  proof (cases "k = k0")
    case True
    with Cons.prems(2) p keep [of ks ?p] show ?thesis by (simp add: z_score_def)
  next
    case False
    with Cons.IH [OF p(1)] Cons.prems(2,3) show ?thesis by simp
  qed
qed simp

lemma z_score_other:
  "k' \<noteq> k \<Longrightarrow> z_score now k' m (expire_key now k ttl (z_add now k s m' db)) = z_score now k' m db"
  by (simp add: z_score_def expire_key_def z_add_def Let_def)

lemma shrinks_readd_all:
  "shrinks now db db' \<Longrightarrow> distinct ks \<Longrightarrow> (\<And>k. k \<in> set ks \<Longrightarrow> z_score now k l db' \<noteq> None) \<Longrightarrow>
     shrinks now db (fold (\<lambda>k db. expire_key now k ttl (z_add now k now l db)) ks db')"
proof (induction ks arbitrary: db')
  case (Cons k ks)
  have "shrinks now db (expire_key now k ttl (z_add now k now l db'))"
    using Cons.prems by (intro shrinks_intros shrinks_readd) auto
  moreover have "z_score now k' l (expire_key now k ttl (z_add now k now l db')) \<noteq> None" if "k' \<in> set ks" for k'
  proof -
    have "k' \<noteq> k" using Cons.prems(2) that by auto
    with Cons.prems(3) [of k'] that show ?thesis by (simp add: z_score_other)
  qed
  ultimately show ?case using Cons by simp
qed simp

lemma shrinks_refresh_live: "shrinks now db (fst (refresh_live_lease now a u k l db))"
proof -
  obtain db' ok where r: "refresh_check now live_lease_ttl l (live_keys a u k) db = (db', ok)" by fastforce
  have "shrinks now db db'" using shrinks_refresh_check [of now db db] r by (metis fst_conv shrinks_refl)
  moreover have "shrinks now db (fold (\<lambda>k db. expire_key now k live_lease_ttl (z_add now k now l db)) (live_keys a u k) db')"
    if ok
  proof (rule shrinks_readd_all [OF \<open>shrinks now db db'\<close>])
    show "distinct (live_keys a u k)" by (simp add: live_keys_def)
    then show "z_score now k' l db' \<noteq> None" if "k' \<in> set (live_keys a u k)" for k'
      using refresh_check_scores [of now live_lease_ttl l "live_keys a u k" db db'] r \<open>ok\<close> that by simp
  qed
  ultimately show ?thesis
    using r by (simp add: refresh_live_lease_def refresh_live_lease_script_def)
qed

lemma shrinks_refresh_ingress: "shrinks now db (fst (refresh_ws_ingress_lease now k l db))"
  by (auto simp: refresh_ws_ingress_lease_def refresh_ingress_lease_script_def Let_def
      intro!: shrinks_intros shrinks_readd)

lemma z_card_waits:
  "z_card now k (fst (increment_wait_script now w mx ttl db)) = z_card now k db"
  "z_card now k (decrement_wait_script now w db) = z_card now k db"
  by (auto simp: increment_wait_script_def decrement_wait_script_def Let_def split: option.splits)

text \<open>Every call that is not an acquisition or a tracking adds no member.\<close>

fun adds_member :: "cache_call \<Rightarrow> bool" where
  "adds_member (Acquire_account a r) = True"
| "adds_member (Acquire_user u r) = True"
| "adds_member (Track_api_key k r) = True"
| "adds_member (Acquire_ingress k l) = True"
| "adds_member (Acquire_live a u k l repl) = True"
| "adds_member _ = False"

lemma cache_effect_shrinks: "\<not> adds_member e \<Longrightarrow> shrinks now db (cache_effect c m now e db)"
proof (cases e)
  case (Add_wait u w)
  then show ?thesis
    using z_card_waits(1) [of now _ "Wait_queue_key u" w "cc_wait_queue_ttl c" db]
    by (auto simp: increment_wait_count_def shrinks_def split: prod.splits)
next
  case (Add_account_wait a w)
  then show ?thesis
    using z_card_waits(1) [of now _ "Account_wait_key a" w "cc_wait_queue_ttl c" db]
    by (auto simp: increment_account_wait_count_def shrinks_def split: prod.splits)
next
  case (Drop_wait u)
  have "shrinks now db (decrement_wait_script now (Wait_queue_key u) db)"
    by (simp add: shrinks_def z_card_waits)
  with Drop_wait show ?thesis by (simp add: decrement_wait_count_def shrinks_refresh_index)
next
  case (Drop_account_wait a)
  have "shrinks now db (decrement_wait_script now (Account_wait_key a) db)"
    by (simp add: shrinks_def z_card_waits)
  with Drop_account_wait show ?thesis by (simp add: decrement_account_wait_count_def shrinks_refresh_index)
qed (auto simp: release_account_slot_def release_user_slot_def get_account_concurrency_def
      get_user_concurrency_def get_account_concurrency_batch_def get_api_key_concurrency_batch_def
      release_api_key_slot_def release_ws_ingress_lease_def release_live_lease_def
      get_accounts_load_batch_def get_users_load_batch_def cleanup_expired_account_slots_def
      cleanup_expired_account_slot_keys_def shrinks_refresh_live shrinks_refresh_ingress
      intro!: shrinks_intros)

text \<open>The loads that the limits speak of, as keys.\<close>

lemma within_limits_step:
  assumes w: "within_limits m slack (now, db)"
    and acc: "\<And>a. load now (Account_slot_key a) (Live_account_slot_key a) db' \<le>
        load now (Account_slot_key a) (Live_account_slot_key a) db \<or>
      (0 < lm_account m a \<longrightarrow> load now (Account_slot_key a) (Live_account_slot_key a) db' \<le> lm_account m a + slack)"
    and usr: "\<And>u. load now (User_slot_key u) (Live_user_slot_key u) db' \<le>
        load now (User_slot_key u) (Live_user_slot_key u) db \<or>
      (0 < lm_user m u \<longrightarrow> load now (User_slot_key u) (Live_user_slot_key u) db' \<le> lm_user m u + slack)"
    and ing: "\<And>k. z_card now (Ws_ingress_lease_key k) db' \<le> z_card now (Ws_ingress_lease_key k) db \<or>
      (0 < lm_ingress m k \<longrightarrow> z_card now (Ws_ingress_lease_key k) db' \<le> lm_ingress m k)"
  shows "within_limits m slack (now, db')"
  unfolding within_limits_def fst_conv snd_conv
proof (intro conjI allI impI)
  show "0 \<le> slack" using w by (simp add: within_limits_def)
  show "load now (Account_slot_key a) (Live_account_slot_key a) db' \<le> lm_account m a + slack"
    if "0 < lm_account m a" for a
    using acc [of a] w that unfolding within_limits_def fst_conv snd_conv by (meson order.trans)
  show "load now (User_slot_key u) (Live_user_slot_key u) db' \<le> lm_user m u + slack" if "0 < lm_user m u" for u
    using usr [of u] w that unfolding within_limits_def fst_conv snd_conv by (meson order.trans)
  show "z_card now (Ws_ingress_lease_key k) db' \<le> lm_ingress m k" if "0 < lm_ingress m k" for k
    using ing [of k] w that unfolding within_limits_def fst_conv snd_conv by (meson order.trans)
qed

lemma load_touch [simp]: "load now k l (touch_active_index_at ix i e db) = load now k l db"
  by (simp add: load_def)

lemma load_le: "z_card now k db' \<le> z_card now k db \<Longrightarrow> z_card now l db' \<le> z_card now l db \<Longrightarrow>
    load now k l db' \<le> load now k l db"
  by (simp add: load_def)

lemma acquire_within:
  assumes "within_limits m slack (now, db)"
  shows "within_limits m slack (now, fst (acquire_account_slot c now a (lm_account m a) r db))"
    and "within_limits m slack (now, fst (acquire_user_slot c now u (lm_user m u) r db))"
proof -
  have slack: "0 \<le> slack" using assms by (simp add: within_limits_def)
  obtain db1 ok1 where s1: "acquire_script now (Account_slot_key a) (Live_account_slot_key a) (lm_account m a)
      (cc_slot_ttl c) r db = (db1, ok1)" by fastforce
  note a1 = acquire_script_load [OF s1]
  have "within_limits m slack (now, db1)"
  proof (rule within_limits_step [OF assms])
    show "load now (Account_slot_key b) (Live_account_slot_key b) db1 \<le>
        load now (Account_slot_key b) (Live_account_slot_key b) db \<or>
      (0 < lm_account m b \<longrightarrow> load now (Account_slot_key b) (Live_account_slot_key b) db1 \<le> lm_account m b + slack)" for b
      using a1(1) a1(2) [of "Account_slot_key b"] a1(2) [of "Live_account_slot_key b"] load_le slack
      by (cases "b = a") auto
  qed (use a1(2) load_le in auto)
  then show "within_limits m slack (now, fst (acquire_account_slot c now a (lm_account m a) r db))"
    using s1 by (simp add: acquire_account_slot_def within_limits_def)
  obtain db2 ok2 where s2: "acquire_script now (User_slot_key u) (Live_user_slot_key u) (lm_user m u)
      (cc_slot_ttl c) r db = (db2, ok2)" by fastforce
  note a2 = acquire_script_load [OF s2]
  have "within_limits m slack (now, db2)"
  proof (rule within_limits_step [OF assms])
    show "load now (User_slot_key b) (Live_user_slot_key b) db2 \<le>
        load now (User_slot_key b) (Live_user_slot_key b) db \<or>
      (0 < lm_user m b \<longrightarrow> load now (User_slot_key b) (Live_user_slot_key b) db2 \<le> lm_user m b + slack)" for b
      using a2(1) a2(2) [of "User_slot_key b"] a2(2) [of "Live_user_slot_key b"] load_le slack
      by (cases "b = u") auto
  qed (use a2(2) load_le in auto)
  then show "within_limits m slack (now, fst (acquire_user_slot c now u (lm_user m u) r db))"
    using s2 by (simp add: acquire_user_slot_def within_limits_def)
qed

lemma ingress_within:
  assumes "within_limits m slack (now, db)"
  shows "within_limits m slack (now, fst (acquire_ws_ingress_lease now k (lm_ingress m k) l db))"
proof (cases "k \<le> 0 \<or> lm_ingress m k \<le> 0 \<or> l = []")
  case True
  with assms show ?thesis by (simp add: acquire_ws_ingress_lease_def)
next
  case False
  obtain db1 ok1 where s1: "acquire_ingress_lease_script now (Ws_ingress_lease_key k) (lm_ingress m k)
      ws_ingress_lease_ttl l db = (db1, ok1)" by fastforce
  note a1 = ingress_script_card [OF s1]
  have "within_limits m slack (now, db1)"
  proof (rule within_limits_step [OF assms])
    show "z_card now (Ws_ingress_lease_key j) db1 \<le> z_card now (Ws_ingress_lease_key j) db \<or>
      (0 < lm_ingress m j \<longrightarrow> z_card now (Ws_ingress_lease_key j) db1 \<le> lm_ingress m j)" for j
      using a1(1) a1(2) [of "Ws_ingress_lease_key j"] by (cases "j = k") auto
  qed (use a1(2) load_le in auto)
  then show ?thesis using s1 False by (simp add: acquire_ws_ingress_lease_def)
qed

lemma live_within:
  assumes w: "within_limits m slack (now, db)" and repl: "repl \<longrightarrow> slack = 1"
  shows "within_limits m slack (now, fst (acquire_live_lease now a (lm_account m a) u (lm_user m u) k l repl db))"
proof (cases "a \<le> 0 \<or> u \<le> 0 \<or> k \<le> 0 \<or> l = []")
  case True
  with w show ?thesis by (simp add: acquire_live_lease_def)
next
  case False
  obtain db1 ok1 where s1: "acquire_live_lease_script now (Account_slot_key a) (Live_account_slot_key a)
      (User_slot_key u) (Live_user_slot_key u) (Live_api_key_slot_key k) (lm_account m a) (lm_user m u)
      live_lease_ttl l repl db = (db1, ok1)" by fastforce
  note a1 = live_script_load [OF s1]
  have slack: "(if repl then 1 else 0) \<le> slack" using w repl by (simp add: within_limits_def)
  have "within_limits m slack (now, db1)"
  proof (rule within_limits_step [OF w])
    show "load now (Account_slot_key b) (Live_account_slot_key b) db1 \<le>
        load now (Account_slot_key b) (Live_account_slot_key b) db \<or>
      (0 < lm_account m b \<longrightarrow> load now (Account_slot_key b) (Live_account_slot_key b) db1 \<le> lm_account m b + slack)" for b
      using a1(1) a1(3) [of "Account_slot_key b"] a1(3) [of "Live_account_slot_key b"] load_le slack
      by (cases "b = a") auto
    show "load now (User_slot_key b) (Live_user_slot_key b) db1 \<le>
        load now (User_slot_key b) (Live_user_slot_key b) db \<or>
      (0 < lm_user m b \<longrightarrow> load now (User_slot_key b) (Live_user_slot_key b) db1 \<le> lm_user m b + slack)" for b
      using a1(2) a1(3) [of "User_slot_key b"] a1(3) [of "Live_user_slot_key b"] load_le slack
      by (cases "b = u") auto
  qed (use a1(3) in auto)
  then show ?thesis using s1 False by (simp add: acquire_live_lease_def)
qed

lemma track_within:
  assumes "within_limits m slack (now, db)"
  shows "within_limits m slack (now, track_api_key_slot c now k r db)"
proof -
  let ?key = "Api_key_slot_key k" and ?db' = "track_api_key_slot c now k r db"
  let ?p = "z_rem_range now ?key (now - cc_slot_ttl c) db"
  have p: "shrinks now db ?p" by (intro shrinks_intros shrinks_refl)
  have a: "shrinks now (z_add now ?key now r ?p) ?db'"
    unfolding track_api_key_slot_def track_slot_script_def by (intro shrinks_intros shrinks_refl)
  have "z_card now j ?db' \<le> z_card now j db" if "j \<noteq> ?key" for j
    using shrinks_card [OF a, of j] z_card_add [of now j ?key now r ?p] shrinks_card [OF p, of j] that by simp
  then show ?thesis by (intro within_limits_step [OF assms]) (auto intro: load_le)
qed

lemma within_limits_call:
  assumes "within_limits m slack x" and "call_ok slack x e"
  shows "within_limits m slack (cache_step c m x e)"
proof -
  obtain now k where e: "e = (now, k)" by fastforce
  obtain t db where x: "x = (t, db)" by fastforce
  have w: "within_limits m slack (now, db)" using assms e x within_later by (auto simp: call_ok_def)
  have "within_limits m slack (now, cache_effect c m now k db)"
  proof (cases "adds_member k")
    case False
    with w shrinks_within cache_effect_shrinks show ?thesis by blast
  next
    case True
    with w assms(2) e show ?thesis
      by (cases k) (auto simp: acquire_within ingress_within live_within track_within call_ok_def)
  qed
  with e x show ?thesis by (simp add: cache_step_def)
qed

interpretation limited_cache: invariant_machine "call_ok slack" "cache_step c m" "within_limits m slack" for slack c m
  by unfold_locales (rule within_limits_call)

text \<open>
  C3: Whatever the processes call in whatever order, the load of an account or user never exceeds its
  limit, nor do the ingress connections of an API key; when live leases may take over regular slots
  the load may exceed the limit by one, never more.
\<close>

theorem concurrency_limits_hold:
  assumes "admissible (call_ok slack) (cache_step c m) (0, empty_redis) es"
    and "slack = 0 \<or> slack = 1"
    and "(now, db) = run_steps (cache_step c m) (0, empty_redis) es"
  shows "(\<forall>a. 0 < lm_account m a \<longrightarrow> snd (get_account_concurrency c now a db) \<le> lm_account m a + slack) \<and>
         (\<forall>u. 0 < lm_user m u \<longrightarrow> snd (get_user_concurrency c now u db) \<le> lm_user m u + slack) \<and>
         (\<forall>k. 0 < lm_ingress m k \<longrightarrow> z_card now (Ws_ingress_lease_key k) db \<le> lm_ingress m k)"
proof -
  have "within_limits m slack (0, empty_redis)"
    using assms(2) by (auto simp: within_limits_def load_def z_card_def zget_def empty_redis_def empty_zset_def)
  from limited_cache.inv_run [OF this assms(1)] assms(3) have w: "within_limits m slack (now, db)" by simp
  have count: "snd (get_count_script now key live ttl db) \<le> load now key live db" for key live ttl
  proof -
    have "shrinks now db (z_rem_range now live (now - 60) (z_rem_range now key (now - ttl) db))"
      by (intro shrinks_intros shrinks_refl)
    from shrinks_load [OF this, of key live] show ?thesis
      by (simp add: get_count_script_def load_def Let_def)
  qed
  from w show ?thesis
    unfolding get_account_concurrency_def get_user_concurrency_def within_limits_def fst_conv snd_conv
    by (meson count order.trans)
qed

definition demo_limits :: limits where
  "demo_limits = \<lparr>lm_account = (\<lambda>_. 1), lm_user = (\<lambda>_. 2), lm_ingress = (\<lambda>_. 1)\<rparr>"

definition demo_calls :: "(int \<times> cache_call) list" where
  "demo_calls = [(10, Acquire_account 7 ''r1''), (11, Acquire_account 7 ''r2''), (12, Acquire_user 3 ''r1'')]"

theorem concurrency_limits_hold_witness:
  "snd (get_account_concurrency (new_concurrency_cache 0 0) 12 7
     (snd (run_steps (cache_step (new_concurrency_cache 0 0) demo_limits) (0, empty_redis) demo_calls))) \<le> 1"
proof -
  let ?c = "new_concurrency_cache 0 0"
  have adm: "admissible (call_ok 0) (cache_step ?c demo_limits) (0, empty_redis) demo_calls"
    by (simp add: demo_calls_def call_ok_def cache_step_def)
  obtain db where db: "(12, db) = run_steps (cache_step ?c demo_limits) (0, empty_redis) demo_calls"
    by (simp add: demo_calls_def cache_step_def)
  from concurrency_limits_hold [OF adm _ db] have "snd (get_account_concurrency ?c 12 7 db) \<le> lm_account demo_limits 7 + 0"
    by (simp add: demo_limits_def)
  with db [symmetric] show ?thesis by (simp add: demo_limits_def)
qed

section \<open>Who is admitted\<close>

text \<open>The slots that still count at a time.\<close>

definition held_slots :: "int \<Rightarrow> slot_key \<Rightarrow> int \<Rightarrow> redis_db \<Rightarrow> (string \<times> int) list" where
  "held_slots now k ttl db = filter (\<lambda>(m, s). now - ttl < s) (zs_members (zget now k db))"

lemma zget_rem_range: "zs_members (zget now k (z_rem_range now k (now - ttl) db)) = held_slots now k ttl db"
  by (auto simp: z_rem_range_def held_slots_def zget_def zput_def empty_zset_def Let_def split: option.splits)

lemma zget_rem_range_other: "k' \<noteq> k \<Longrightarrow> zget now k' (z_rem_range now k b db) = zget now k' db"
  by (simp add: z_rem_range_def Let_def)

text \<open>
  An account slot is granted exactly when the request already holds one that is younger than the
  slot time, or the slots and live leases that still count are fewer than the limit. Slots of crashed
  processes stop counting once their time is over, and a retry never takes a second slot.
\<close>

theorem account_admission:
  "snd (acquire_account_slot c now a max_concurrency request_id db) \<longleftrightarrow>
    request_id \<in> fst ` set (held_slots now (Account_slot_key a) (cc_slot_ttl c) db) \<or>
    int (length (held_slots now (Account_slot_key a) (cc_slot_ttl c) db)) +
      int (length (held_slots now (Live_account_slot_key a) 60 db)) < max_concurrency"
proof -
  let ?k = "Account_slot_key a" and ?l = "Live_account_slot_key a"
  let ?p = "z_rem_range now ?l (now - 60) (z_rem_range now ?k (now - cc_slot_ttl c) db)"
  have k: "zs_members (zget now ?k ?p) = held_slots now ?k (cc_slot_ttl c) db"
    by (simp add: zget_rem_range_other zget_rem_range)
  have l: "zs_members (zget now ?l ?p) = held_slots now ?l 60 db"
    by (simp add: zget_rem_range held_slots_def zget_rem_range_other)
  have "z_score now ?k request_id ?p \<noteq> None \<longleftrightarrow> request_id \<in> fst ` set (held_slots now ?k (cc_slot_ttl c) db)"
    by (simp add: z_score_def k map_of_eq_None_iff)
  then show ?thesis
    by (auto simp: acquire_account_slot_def acquire_script_def Let_def z_card_def k l split: prod.splits)
qed

text \<open>Taking the same slot again leaves the load as it is.\<close>

lemma reacquire_same_load:
  assumes "request_id \<in> fst ` set (held_slots now (Account_slot_key a) (cc_slot_ttl c) db)"
  shows "load now k l (fst (acquire_account_slot c now a max_concurrency request_id db)) \<le> load now k l db"
proof -
  let ?k = "Account_slot_key a"
  let ?p = "z_rem_range now (Live_account_slot_key a) (now - 60) (z_rem_range now ?k (now - cc_slot_ttl c) db)"
  have "z_score now ?k request_id ?p \<noteq> None"
    using assms by (simp add: z_score_def zget_rem_range_other zget_rem_range map_of_eq_None_iff)
  moreover from this have "shrinks now db (expire_key now ?k (cc_slot_ttl c) (z_add now ?k now request_id ?p))"
    by (intro shrinks_intros shrinks_readd) simp_all
  ultimately show ?thesis
    using shrinks_load by (simp add: acquire_account_slot_def acquire_script_def Let_def)
qed

end
