(* ===== verification/KeywordMatcher.thy ===== *)
theory KeywordMatcher
  imports Prelude "HOL-Library.Sublist"
begin

text \<open>
  The keyword matcher of the content moderation
  (backend/internal/service/content_moderation_keyword_matcher.go): an Aho-Corasick automaton,
  built as a trie with sibling lists, linked breadth first, and flattened to sorted slices of
  edges for binary search. Node and edge numbers are \<open>nat\<close>, an int32 that is -1 for "none" is a
  \<open>nat option\<close>; the tables stay far below 2^31 entries. \<open>strings.ToLower\<close> is the argument \<open>lower\<close>.
  The main result: the automaton finds the first keyword of the list that occurs in the text.
\<close>

section \<open>Data\<close>

record kw_node =
  kn_failure :: nat
  kn_best_keyword :: "nat option"
  kn_edge_start :: nat
  kn_edge_count :: nat

record kw_edge =
  ke_target :: nat
  ke_label :: char

record kw_build_edge =
  kb_target :: nat
  kb_next_sibling :: "nat option"
  kb_label :: char

record kw_matcher =
  km_nodes :: "kw_node list"
  km_edges :: "kw_edge list"
  km_root_transitions :: "nat list"
  km_keywords :: "string list"

section \<open>Building the trie\<close>

definition new_kw_node :: kw_node where
  "new_kw_node = \<lparr>kn_failure = 0, kn_best_keyword = None, kn_edge_start = 0, kn_edge_count = 0\<rparr>"

definition build_first_edge :: "kw_node \<Rightarrow> nat option" where
  "build_first_edge n = (if kn_edge_start n = 0 then None else Some (kn_edge_start n - 1))"

text \<open>
  The loop over the edges of a node, newest first. A sibling precedes its edge in the table,
  so as many rounds as there are edges are enough.
\<close>

fun sibling_chain :: "nat \<Rightarrow> kw_build_edge list \<Rightarrow> nat option \<Rightarrow> kw_build_edge list" where
  "sibling_chain fuel edges None = []"
| "sibling_chain 0 edges (Some i) = []"
| "sibling_chain (Suc fuel) edges (Some i) =
     edges ! i # sibling_chain fuel edges (kb_next_sibling (edges ! i))"

definition node_edges :: "kw_node list \<Rightarrow> kw_build_edge list \<Rightarrow> nat \<Rightarrow> kw_build_edge list" where
  "node_edges nodes edges s = sibling_chain (length edges) edges (build_first_edge (nodes ! s))"

definition build_transition ::
    "kw_node list \<Rightarrow> kw_build_edge list \<Rightarrow> nat \<Rightarrow> char \<Rightarrow> nat option" where
  "build_transition nodes edges s c =
     (if length nodes \<le> s then None
      else map_option kb_target (find (\<lambda>e. kb_label e = c) (node_edges nodes edges s)))"

fun min_keyword_index :: "nat option \<Rightarrow> nat option \<Rightarrow> nat option" where
  "min_keyword_index None r = r"
| "min_keyword_index (Some l) None = Some l"
| "min_keyword_index (Some l) (Some r) = (if l < r then Some l else Some r)"

type_synonym kw_trie = "kw_node list \<times> kw_build_edge list"

definition add_label :: "kw_trie \<times> nat \<Rightarrow> char \<Rightarrow> kw_trie \<times> nat" where
  "add_label = (\<lambda>((nodes, edges), s) c.
     case build_transition nodes edges s c of
       Some t \<Rightarrow> ((nodes, edges), t)
     | None \<Rightarrow>
         let t = length nodes;
             nodes = nodes @ [new_kw_node];
             edges = edges @ [\<lparr>kb_target = t, kb_next_sibling = build_first_edge (nodes ! s), kb_label = c\<rparr>]
         in ((nodes[s := (nodes ! s)\<lparr>kn_edge_start := length edges\<rparr>], edges), t))"

definition add_keyword :: "(string \<Rightarrow> string) \<Rightarrow> kw_trie \<Rightarrow> nat \<times> string \<Rightarrow> kw_trie" where
  "add_keyword lower trie = (\<lambda>(index, keyword).
     if keyword = [] then trie
     else case foldl add_label (trie, 0) (lower keyword) of
       ((nodes, edges), s) \<Rightarrow>
         (case kn_best_keyword (nodes ! s) of
            None \<Rightarrow> (nodes[s := (nodes ! s)\<lparr>kn_best_keyword := Some index\<rparr>], edges)
          | Some current \<Rightarrow>
              if index < current
              then (nodes[s := (nodes ! s)\<lparr>kn_best_keyword := Some index\<rparr>], edges)
              else (nodes, edges)))"

definition build_trie :: "(string \<Rightarrow> string) \<Rightarrow> string list \<Rightarrow> kw_trie" where
  "build_trie lower keywords =
     foldl (add_keyword lower) ([new_kw_node], []) (List.enumerate 0 keywords)"

section \<open>Linking\<close>

definition root_table :: "kw_build_edge list \<Rightarrow> nat list" where
  "root_table es = foldl (\<lambda>table e. table[code (kb_label e) := kb_target e]) (replicate 256 0) es"

text \<open>
  The failure loop of the construction. Each failure link shortens the path of the node, so as many
  rounds as there are nodes are enough.
\<close>

fun fallback_loop ::
    "nat \<Rightarrow> kw_node list \<Rightarrow> kw_build_edge list \<Rightarrow> char \<Rightarrow> nat \<Rightarrow> nat option" where
  "fallback_loop fuel nodes edges c failure =
     (case build_transition nodes edges failure c of
        Some t \<Rightarrow> Some t
      | None \<Rightarrow>
          if failure = 0 then None
          else (case fuel of
                  0 \<Rightarrow> None
                | Suc k \<Rightarrow> fallback_loop k nodes edges c (kn_failure (nodes ! failure))))"

declare fallback_loop.simps [simp del]

definition link_child :: "kw_build_edge list \<Rightarrow> nat \<Rightarrow> kw_node list \<Rightarrow> kw_build_edge \<Rightarrow> kw_node list" where
  "link_child edges s nodes e =
     (let t = kb_target e;
          fallback = fallback_loop (length nodes) nodes edges (kb_label e) (kn_failure (nodes ! s));
          nodes = (case fallback of
                     Some f \<Rightarrow> nodes[t := (nodes ! t)\<lparr>kn_failure := f\<rparr>]
                   | None \<Rightarrow> nodes)
      in nodes[t := (nodes ! t)\<lparr>kn_best_keyword :=
           min_keyword_index (kn_best_keyword (nodes ! t))
             (kn_best_keyword (nodes ! kn_failure (nodes ! t)))\<rparr>])"

text \<open>The queue holds the nodes not yet expanded; every node but the root enters it once.\<close>

fun link_nodes ::
    "nat \<Rightarrow> kw_build_edge list \<Rightarrow> kw_node list \<Rightarrow> nat list \<Rightarrow> kw_node list" where
  "link_nodes fuel edges nodes [] = nodes"
| "link_nodes 0 edges nodes (s # queue) = nodes"
| "link_nodes (Suc fuel) edges nodes (s # queue) =
     link_nodes fuel edges
       (foldl (link_child edges s) nodes (node_edges nodes edges s))
       (queue @ map kb_target (node_edges nodes edges s))"

section \<open>Flattening\<close>

text \<open>
  Insertion sort by label, from the right: the sorted part is kept in reverse.
\<close>

fun insert_edge :: "kw_edge \<Rightarrow> kw_edge list \<Rightarrow> kw_edge list" where
  "insert_edge x [] = [x]"
| "insert_edge x (y # ys) =
     (if code (ke_label x) < code (ke_label y) then y # insert_edge x ys else x # y # ys)"

definition sort_outgoing :: "kw_edge list \<Rightarrow> kw_edge list" where
  "sort_outgoing es = rev (foldl (\<lambda>done e. insert_edge e done) [] es)"

definition outgoing_edge :: "kw_build_edge \<Rightarrow> kw_edge" where
  "outgoing_edge e = \<lparr>ke_target = kb_target e, ke_label = kb_label e\<rparr>"

definition flatten_node ::
    "kw_build_edge list \<Rightarrow> kw_node list \<times> kw_edge list \<Rightarrow> nat \<Rightarrow> kw_node list \<times> kw_edge list" where
  "flatten_node build_edges = (\<lambda>(nodes, edges) s.
     let out = sort_outgoing (map outgoing_edge (node_edges nodes build_edges s))
     in (nodes[s := (nodes ! s)\<lparr>kn_edge_start := length edges, kn_edge_count := length out\<rparr>],
         edges @ out))"

definition new_keyword_matcher :: "(string \<Rightarrow> string) \<Rightarrow> string list \<Rightarrow> kw_matcher option" where
  "new_keyword_matcher lower keywords =
     (if keywords = [] then None
      else case build_trie lower keywords of
        (nodes, build_edges) \<Rightarrow>
          if length nodes = 1 then None
          else
            let root_edges = node_edges nodes build_edges 0;
                linked = link_nodes (length nodes) build_edges nodes (map kb_target root_edges)
            in case foldl (flatten_node build_edges) (linked, []) [0..<length nodes] of
                 (nodes, edges) \<Rightarrow>
                   Some \<lparr>km_nodes = nodes, km_edges = edges,
                         km_root_transitions = root_table root_edges, km_keywords = keywords\<rparr>)"

section \<open>Matching\<close>

function lower_bound :: "kw_edge list \<Rightarrow> char \<Rightarrow> nat \<Rightarrow> nat \<Rightarrow> nat" where
  "lower_bound edges c left right =
     (if left < right
      then (let middle = left + (right - left) div 2
            in if code (ke_label (edges ! middle)) < code c
               then lower_bound edges c (middle + 1) right
               else lower_bound edges c left middle)
      else left)"
  by pat_completeness auto
termination by (relation "measure (\<lambda>(edges, c, left, right). right - left)") auto

declare lower_bound.simps [simp del]

definition next_state :: "kw_matcher \<Rightarrow> nat \<Rightarrow> char \<Rightarrow> nat" where
  "next_state m s c =
     (if s = 0 then km_root_transitions m ! code c
      else if length (km_nodes m) \<le> s then 0
      else
        let node = km_nodes m ! s;
            end = kn_edge_start node + kn_edge_count node;
            left = lower_bound (km_edges m) c (kn_edge_start node) end
        in if left < end \<and> ke_label (km_edges m ! left) = c then ke_target (km_edges m ! left) else 0)"

fun follow_loop :: "nat \<Rightarrow> kw_matcher \<Rightarrow> char \<Rightarrow> nat \<Rightarrow> nat" where
  "follow_loop fuel m c s =
     (if next_state m s c \<noteq> 0 then next_state m s c
      else if s = 0 then s
      else (case fuel of
              0 \<Rightarrow> 0
            | Suc k \<Rightarrow> follow_loop k m c (kn_failure (km_nodes m ! s))))"

declare follow_loop.simps [simp del]

fun match_loop :: "kw_matcher \<Rightarrow> nat \<Rightarrow> nat option \<Rightarrow> string \<Rightarrow> string option" where
  "match_loop m s best [] =
     (case best of
        None \<Rightarrow> None
      | Some k \<Rightarrow> if length (km_keywords m) \<le> k then None else Some (km_keywords m ! k))"
| "match_loop m s best (c # cs) =
     (let s = follow_loop (length (km_nodes m)) m c s;
          best = min_keyword_index best (kn_best_keyword (km_nodes m ! s))
      in if best = Some 0 then Some (km_keywords m ! 0) else match_loop m s best cs)"

text \<open>\<open>Match\<close>: \<open>None\<close> is the pair of the empty string and false.\<close>

definition keyword_match :: "(string \<Rightarrow> string) \<Rightarrow> kw_matcher option \<Rightarrow> string \<Rightarrow> string option" where
  "keyword_match lower matcher txt =
     (case matcher of
        None \<Rightarrow> None
      | Some m \<Rightarrow>
          if txt = [] \<or> km_nodes m = [] \<or> km_keywords m = [] then None
          else match_loop m 0 None (lower txt))"


section \<open>Edges of a node\<close>

text \<open>
  Siblings come earlier in the table of edges, and edges are only appended.
\<close>

definition siblings_ok :: "kw_build_edge list \<Rightarrow> bool" where
  "siblings_ok edges \<longleftrightarrow>
     (\<forall>i<length edges. case kb_next_sibling (edges ! i) of None \<Rightarrow> True | Some j \<Rightarrow> j < i)"

lemma siblings_okD:
  "siblings_ok edges \<Longrightarrow> i < length edges \<Longrightarrow> kb_next_sibling (edges ! i) = Some j \<Longrightarrow> j < i"
  by (fastforce simp: siblings_ok_def)

lemma sibling_chain_fuel:
  "siblings_ok edges \<Longrightarrow> i < length edges \<Longrightarrow> i < fuel \<Longrightarrow>
     sibling_chain fuel edges (Some i) = sibling_chain (Suc i) edges (Some i)"
proof (induction i arbitrary: fuel rule: less_induct)
  case (less i)
  obtain k where k: "fuel = Suc k" "i \<le> k" using less.prems by (cases fuel) auto
  show ?case
  proof (cases "kb_next_sibling (edges ! i)")
    case None
    with k show ?thesis by simp
  next
    case (Some j)
    then have "j < i" using less.prems by (blast dest: siblings_okD)
    with less.IH [of j k] less.IH [of j i] less.prems k Some show ?thesis by simp
  qed
qed

lemma sibling_chain_append:
  "siblings_ok edges \<Longrightarrow> i < length edges \<Longrightarrow>
     sibling_chain fuel (edges @ new) (Some i) = sibling_chain fuel edges (Some i)"
proof (induction fuel arbitrary: i)
  case (Suc fuel)
  show ?case
  proof (cases "kb_next_sibling (edges ! i)")
    case (Some j)
    then have "j < i" using Suc.prems by (blast dest: siblings_okD)
    with Suc Some show ?thesis by (simp add: nth_append)
  qed (use Suc.prems in \<open>simp add: nth_append\<close>)
qed simp

definition first_edges_ok :: "kw_node list \<Rightarrow> kw_build_edge list \<Rightarrow> bool" where
  "first_edges_ok nodes edges \<longleftrightarrow> (\<forall>n\<in>set nodes. kn_edge_start n \<le> length edges)"

lemma first_edge_bound:
  "first_edges_ok nodes edges \<Longrightarrow> s < length nodes \<Longrightarrow> build_first_edge (nodes ! s) = Some i \<Longrightarrow>
     i < length edges"
  by (fastforce simp: first_edges_ok_def build_first_edge_def split: if_splits dest: nth_mem)

lemma node_edges_append:
  assumes "siblings_ok edges" "first_edges_ok nodes edges" "s < length nodes"
  shows "sibling_chain (length (edges @ new)) (edges @ new) (build_first_edge (nodes ! s)) =
    node_edges nodes edges s"
proof (cases "build_first_edge (nodes ! s)")
  case (Some i)
  then have "i < length edges" using assms first_edge_bound by blast
  with assms Some show ?thesis
    by (simp add: node_edges_def sibling_chain_append sibling_chain_fuel [of edges i])
qed (simp add: node_edges_def)

lemma node_edges_cong:
  "kn_edge_start (nodes ! s) = kn_edge_start (nodes' ! s) \<Longrightarrow> node_edges nodes edges s = node_edges nodes' edges s"
  by (simp add: node_edges_def build_first_edge_def)


section \<open>The trie\<close>

text \<open>
  \<open>paths\<close> gives every node the string that leads to it from the root.
\<close>

definition trie_ok :: "kw_node list \<Rightarrow> kw_build_edge list \<Rightarrow> string list \<Rightarrow> bool" where
  "trie_ok nodes edges paths \<longleftrightarrow>
     length paths = length nodes \<and> nodes \<noteq> [] \<and> paths ! 0 = [] \<and> distinct paths \<and>
     siblings_ok edges \<and> first_edges_ok nodes edges \<and>
     (\<forall>s<length nodes. \<forall>e\<in>set (node_edges nodes edges s).
        kb_target e < length nodes \<and> paths ! kb_target e = paths ! s @ [kb_label e]) \<and>
     (\<forall>t<length nodes. t \<noteq> 0 \<longrightarrow>
        (\<exists>s<length nodes. \<exists>e\<in>set (node_edges nodes edges s). kb_target e = t)) \<and>
     (\<forall>s<length nodes. distinct (map kb_label (node_edges nodes edges s)))"

lemma trie_okD:
  assumes "trie_ok nodes edges paths"
  shows "length paths = length nodes" "nodes \<noteq> []" "paths ! 0 = []" "distinct paths"
    "siblings_ok edges" "first_edges_ok nodes edges"
  using assms by (auto simp: trie_ok_def)

lemma trie_edge:
  "trie_ok nodes edges paths \<Longrightarrow> s < length nodes \<Longrightarrow> e \<in> set (node_edges nodes edges s) \<Longrightarrow>
     kb_target e < length nodes \<and> paths ! kb_target e = paths ! s @ [kb_label e]"
  by (auto simp: trie_ok_def)

lemma trie_parent:
  "trie_ok nodes edges paths \<Longrightarrow> t < length nodes \<Longrightarrow> t \<noteq> 0 \<Longrightarrow>
     \<exists>s<length nodes. \<exists>e\<in>set (node_edges nodes edges s). kb_target e = t"
  by (auto simp: trie_ok_def)

lemma trie_labels:
  "trie_ok nodes edges paths \<Longrightarrow> s < length nodes \<Longrightarrow>
     distinct (map kb_label (node_edges nodes edges s))"
  by (auto simp: trie_ok_def)

lemma trie_path_inj:
  "trie_ok nodes edges paths \<Longrightarrow> s < length nodes \<Longrightarrow> t < length nodes \<Longrightarrow>
     paths ! s = paths ! t \<longleftrightarrow> s = t"
  by (simp add: trie_ok_def nth_eq_iff_index_eq)

lemma trie_path_Nil:
  "trie_ok nodes edges paths \<Longrightarrow> s < length nodes \<Longrightarrow> paths ! s = [] \<longleftrightarrow> s = 0"
  using trie_path_inj [of nodes edges paths s 0] by (auto simp: trie_ok_def)

text \<open>A node has an edge to every node whose path extends its own by one byte.\<close>

lemma trie_child:
  assumes ok: "trie_ok nodes edges paths" and "s < length nodes" "t < length nodes"
    and path: "paths ! t = paths ! s @ [c]"
  obtains e where "e \<in> set (node_edges nodes edges s)" "kb_target e = t" "kb_label e = c"
proof -
  have "t \<noteq> 0" using path trie_okD(3) [OF ok] by (cases t) auto
  then obtain s' e where e: "s' < length nodes" "e \<in> set (node_edges nodes edges s')" "kb_target e = t"
    using trie_parent [OF ok] assms by blast
  with trie_edge [OF ok] path have "paths ! s' = paths ! s" "kb_label e = c" by fastforce+
  with trie_path_inj [OF ok] e assms that show ?thesis by blast
qed

lemma build_transition_iff:
  assumes ok: "trie_ok nodes edges paths" and s: "s < length nodes"
  shows "build_transition nodes edges s c = Some t \<longleftrightarrow> t < length nodes \<and> paths ! t = paths ! s @ [c]"
proof
  assume "build_transition nodes edges s c = Some t"
  then obtain e where "find (\<lambda>e. kb_label e = c) (node_edges nodes edges s) = Some e" "kb_target e = t"
    by (auto simp: build_transition_def split: if_splits)
  then show "t < length nodes \<and> paths ! t = paths ! s @ [c]"
    using trie_edge [OF ok s] by (auto dest: find_SomeD)
next
  assume t: "t < length nodes \<and> paths ! t = paths ! s @ [c]"
  then obtain e where e: "e \<in> set (node_edges nodes edges s)" "kb_target e = t" "kb_label e = c"
    using trie_child [OF ok s] by blast
  then obtain e' where e': "find (\<lambda>e. kb_label e = c) (node_edges nodes edges s) = Some e'"
    by (cases "find (\<lambda>e. kb_label e = c) (node_edges nodes edges s)") (auto simp: find_None_iff)
  with find_SomeD [OF e'] e trie_labels [OF ok s] have "e' = e"
    by (auto simp: distinct_map inj_on_def)
  with e' e s show "build_transition nodes edges s c = Some t" by (simp add: build_transition_def)
qed

lemma build_transition_None:
  assumes "trie_ok nodes edges paths" "s < length nodes" "build_transition nodes edges s c = None"
  shows "paths ! s @ [c] \<notin> set paths"
  using build_transition_iff [OF assms(1,2), of c] assms(3) trie_okD(1) [OF assms(1)]
  by (auto simp: in_set_conv_nth)

lemma paths_prefix_closed:
  assumes ok: "trie_ok nodes edges paths" and "w @ [c] \<in> set paths"
  shows "w \<in> set paths"
proof -
  obtain t where t: "t < length nodes" "paths ! t = w @ [c]"
    using assms trie_okD(1) [OF ok] by (auto simp: in_set_conv_nth)
  then have "t \<noteq> 0" using trie_okD(3) [OF ok] by (cases t) auto
  then obtain s e where "s < length nodes" "e \<in> set (node_edges nodes edges s)" "kb_target e = t"
    using trie_parent [OF ok t(1)] by blast
  with trie_edge [OF ok] t trie_okD(1) [OF ok] show ?thesis by fastforce
qed

text \<open>Adding an edge from \<open>s\<close> to a new node.\<close>

lemma node_edges_added:
  fixes nodes edges s c
  defines "e \<equiv> \<lparr>kb_target = length nodes, kb_next_sibling = build_first_edge (nodes ! s), kb_label = c\<rparr>"
  assumes ok: "siblings_ok edges" "first_edges_ok nodes edges" and s: "s < length nodes"
    and u: "u < Suc (length nodes)"
  shows "node_edges ((nodes @ [new_kw_node])[s := (nodes ! s)\<lparr>kn_edge_start := Suc (length edges)\<rparr>])
      (edges @ [e]) u =
    (if u = s then e # node_edges nodes edges s
     else if u = length nodes then [] else node_edges nodes edges u)"
proof (cases "u = s")
  case True
  let ?f = "build_first_edge (nodes ! s)"
  have "sibling_chain (length edges) (edges @ [e]) ?f = node_edges nodes edges s"
    using first_edge_bound [OF ok(2) s]
    by (cases ?f) (auto simp: node_edges_def sibling_chain_append [OF ok(1)])
  with True s show ?thesis
    by (simp add: node_edges_def build_first_edge_def [of "_\<lparr>kn_edge_start := _\<rparr>"] e_def nth_append)
next
  case False
  show ?thesis
  proof (cases "u = length nodes")
    case True
    with False show ?thesis by (simp add: node_edges_def build_first_edge_def new_kw_node_def)
  next
    case False
    with \<open>u \<noteq> s\<close> u have "u < length nodes" by simp
    with node_edges_append [OF ok this, of "[e]"] \<open>u \<noteq> s\<close> show ?thesis
      by (simp add: node_edges_def nth_append)
  qed
qed

lemma siblings_ok_added:
  assumes "siblings_ok edges" "first_edges_ok nodes edges" "s < length nodes"
  shows "siblings_ok (edges @ [\<lparr>kb_target = t, kb_next_sibling = build_first_edge (nodes ! s), kb_label = c\<rparr>])"
  using assms first_edge_bound [OF assms(2,3)]
  by (auto simp: siblings_ok_def nth_append less_Suc_eq split: option.splits)

lemma first_edges_ok_added:
  assumes "first_edges_ok nodes edges"
  shows "first_edges_ok ((nodes @ [new_kw_node])[s := n\<lparr>kn_edge_start := Suc (length edges)\<rparr>]) (edges @ [e])"
  using assms set_update_subset_insert [of "nodes @ [new_kw_node]" s "n\<lparr>kn_edge_start := Suc (length edges)\<rparr>"]
  by (fastforce simp: first_edges_ok_def new_kw_node_def)


lemma trie_ok_added:
  assumes ok: "trie_ok nodes edges paths" and s: "s < length nodes"
    and new: "paths ! s @ [c] \<notin> set paths"
  shows "trie_ok ((nodes @ [new_kw_node])[s := (nodes ! s)\<lparr>kn_edge_start := Suc (length edges)\<rparr>])
      (edges @ [\<lparr>kb_target = length nodes, kb_next_sibling = build_first_edge (nodes ! s), kb_label = c\<rparr>])
      (paths @ [paths ! s @ [c]])"
    (is "trie_ok ?nodes ?edges ?paths")
proof -
  note facts = trie_okD [OF ok]
  note added = node_edges_added [OF facts(5,6) s, of _ c]
  have old: "?paths ! u = paths ! u" if "u < length nodes" for u
    using that facts(1) by (simp add: nth_append)
  have fresh: "kb_label e \<noteq> c" if "e \<in> set (node_edges nodes edges s)" for e
    using trie_edge [OF ok s that] new facts(1) nth_mem [of "kb_target e" paths] by auto
  have edge: "kb_target e < length ?nodes \<and> ?paths ! kb_target e = ?paths ! u @ [kb_label e]"
    if u: "u < length ?nodes" and e: "e \<in> set (node_edges ?nodes ?edges u)" for u e
  proof (cases "e \<in> set (node_edges nodes edges u) \<and> u < length nodes")
    case True
    with trie_edge [OF ok] old show ?thesis by fastforce
  next
    case False
    with e u s added [of u] have "u = s" "kb_target e = length nodes" "kb_label e = c"
      by (auto split: if_splits)
    with s old facts(1) show ?thesis by (simp add: nth_append)
  qed
  have parent: "\<exists>u<length ?nodes. \<exists>e\<in>set (node_edges ?nodes ?edges u). kb_target e = t"
    if t: "t < length ?nodes" "t \<noteq> 0" for t
  proof (cases "t = length nodes")
    case True
    with s added [of s] show ?thesis by (intro exI [of _ s]) auto
  next
    case False
    with t trie_parent [OF ok, of t] obtain u e
      where "u < length nodes" "e \<in> set (node_edges nodes edges u)" "kb_target e = t" by auto
    with added [of u] show ?thesis by (intro exI [of _ u]) auto
  qed
  have labels: "distinct (map kb_label (node_edges ?nodes ?edges u))" if "u < length ?nodes" for u
    using that s added [of u] trie_labels [OF ok, of u] fresh by auto
  show ?thesis
    unfolding trie_ok_def
    using facts new edge parent labels siblings_ok_added [OF facts(5,6) s]
      first_edges_ok_added [OF facts(6)]
    by (auto simp: nth_append)
qed

text \<open>
  While the trie is built, a node carries the first keyword that ends in it, and no failure link.
\<close>

definition is_word :: "(string \<Rightarrow> string) \<Rightarrow> string list \<Rightarrow> string \<Rightarrow> nat \<Rightarrow> bool" where
  "is_word lower keywords w i \<longleftrightarrow> keywords ! i \<noteq> [] \<and> lower (keywords ! i) = w"

definition unlinked :: "(string \<Rightarrow> string) \<Rightarrow> string list \<Rightarrow> nat \<Rightarrow> string \<Rightarrow> kw_node \<Rightarrow> bool" where
  "unlinked lower keywords n path node \<longleftrightarrow>
     kn_failure node = 0 \<and> kn_best_keyword node = find (is_word lower keywords path) [0..<n]"

definition words_in :: "(string \<Rightarrow> string) \<Rightarrow> string list \<Rightarrow> nat \<Rightarrow> string list \<Rightarrow> bool" where
  "words_in lower keywords n paths \<longleftrightarrow>
     (\<forall>i<n. keywords ! i \<noteq> [] \<longrightarrow> lower (keywords ! i) \<in> set paths)"

definition built :: "(string \<Rightarrow> string) \<Rightarrow> string list \<Rightarrow> nat \<Rightarrow>
    kw_node list \<Rightarrow> kw_build_edge list \<Rightarrow> string list \<Rightarrow> bool" where
  "built lower keywords n nodes edges paths \<longleftrightarrow>
     trie_ok nodes edges paths \<and> words_in lower keywords n paths \<and>
     list_all2 (unlinked lower keywords n) paths nodes"

lemma built_step:
  assumes b: "built lower keywords n nodes edges paths" and s: "s < length nodes"
  obtains nodes' edges' t paths' where
    "add_label ((nodes, edges), s) c = ((nodes', edges'), t)"
    "built lower keywords n nodes' edges' paths'" "t < length nodes'" "paths' ! t = paths ! s @ [c]"
proof (cases "build_transition nodes edges s c")
  case (Some t)
  with that [of nodes edges t paths] b s build_transition_iff [of nodes edges paths s c t]
  show ?thesis by (auto simp: add_label_def built_def)
next
  case None
  from b have ok: "trie_ok nodes edges paths" and w: "words_in lower keywords n paths"
    and un: "list_all2 (unlinked lower keywords n) paths nodes"
    by (auto simp: built_def)
  let ?path = "paths ! s @ [c]"
  let ?nodes = "(nodes @ [new_kw_node])[s := (nodes ! s)\<lparr>kn_edge_start := Suc (length edges)\<rparr>]"
  have new: "?path \<notin> set paths" using build_transition_None [OF ok s None] .
  with w have "unlinked lower keywords n ?path new_kw_node"
    by (auto simp: unlinked_def new_kw_node_def is_word_def words_in_def find_None_iff2)
  with un s have "list_all2 (unlinked lower keywords n) (paths @ [?path]) ?nodes"
    by (auto simp: list_all2_conv_all_nth nth_list_update nth_append unlinked_def less_Suc_eq)
  moreover have "words_in lower keywords n (paths @ [?path])" using w by (auto simp: words_in_def)
  ultimately show ?thesis
    using that [of ?nodes _ "length nodes" "paths @ [?path]"] None s trie_ok_added [OF ok s new]
      trie_okD(1) [OF ok]
    by (auto simp: add_label_def built_def nth_append Let_def)
qed

lemma built_word:
  "built lower keywords n nodes edges paths \<Longrightarrow> s < length nodes \<Longrightarrow>
     \<exists>nodes' edges' t paths'. foldl add_label ((nodes, edges), s) w = ((nodes', edges'), t) \<and>
       built lower keywords n nodes' edges' paths' \<and> t < length nodes' \<and> paths' ! t = paths ! s @ w"
proof (induction w arbitrary: nodes edges s paths)
  case (Cons c w)
  obtain nodes1 edges1 t paths1 where 1:
    "add_label ((nodes, edges), s) c = ((nodes1, edges1), t)"
    "built lower keywords n nodes1 edges1 paths1" "t < length nodes1" "paths1 ! t = paths ! s @ [c]"
    using built_step [OF Cons.prems] by metis
  with Cons.IH [OF 1(2,3)] show ?case by simp
qed auto


lemma find_upt_Suc:
  "find P [0..<Suc n] = (case find P [0..<n] of Some i \<Rightarrow> Some i | None \<Rightarrow> if P n then Some n else None)"
  by (simp add: find_append_cases split: option.splits)

lemma find_upt_less: "find P [0..<n] = Some i \<Longrightarrow> i < n"
  by (auto dest: find_SomeD)

lemma add_keyword_final:
  assumes ok: "length paths = length nodes" "distinct paths" "s < length nodes"
    and un: "list_all2 (unlinked lower keywords n) paths nodes"
    and word: "keywords ! n \<noteq> []" "paths ! s = lower (keywords ! n)"
  shows "list_all2 (unlinked lower keywords (Suc n)) paths
    (nodes[s := (nodes ! s)\<lparr>kn_best_keyword :=
       (case kn_best_keyword (nodes ! s) of None \<Rightarrow> Some n | Some k \<Rightarrow> Some k)\<rparr>])"
proof (rule list_all2_all_nthI)
  fix i assume i: "i < length paths"
  have "is_word lower keywords (paths ! i) n \<longleftrightarrow> i = s"
    using i ok word by (auto simp: is_word_def nth_eq_iff_index_eq simp flip: word(2))
  moreover have "unlinked lower keywords n (paths ! i) (nodes ! i)"
    using un i by (rule list_all2_nthD)
  ultimately show "unlinked lower keywords (Suc n) (paths ! i)
    (nodes[s := (nodes ! s)\<lparr>kn_best_keyword :=
       (case kn_best_keyword (nodes ! s) of None \<Rightarrow> Some n | Some k \<Rightarrow> Some k)\<rparr>] ! i)"
    using i ok by (cases "i = s") (auto simp: unlinked_def find_append_cases split: option.splits)
qed (use ok in simp)

lemma first_edges_ok_cong:
  "map kn_edge_start nodes = map kn_edge_start nodes' \<Longrightarrow>
     first_edges_ok nodes edges \<longleftrightarrow> first_edges_ok nodes' edges"
proof -
  assume "map kn_edge_start nodes = map kn_edge_start nodes'"
  then have "kn_edge_start ` set nodes = kn_edge_start ` set nodes'" by (metis set_map)
  then show ?thesis
    unfolding first_edges_ok_def by (metis (no_types, lifting) image_iff)
qed

text \<open>The invariant depends on the heads of the sibling lists only.\<close>

lemma same_edges:
  assumes "map kn_edge_start nodes = map kn_edge_start nodes'" "s < length nodes"
  shows "node_edges nodes edges s = node_edges nodes' edges s"
proof (rule node_edges_cong)
  have "length nodes = length nodes'" using assms(1) by (rule map_eq_imp_length_eq)
  then show "kn_edge_start (nodes ! s) = kn_edge_start (nodes' ! s)"
    using assms by (metis nth_map)
qed

lemma trie_ok_cong:
  assumes same: "map kn_edge_start nodes = map kn_edge_start nodes'"
    and ok: "trie_ok nodes edges paths"
  shows "trie_ok nodes' edges paths"
proof -
  have len: "length nodes' = length nodes" using map_eq_imp_length_eq [OF same] by simp
  then have ne: "nodes' \<noteq> []" using trie_okD(2) [OF ok] by auto
  have "\<exists>s<length nodes. \<exists>e\<in>set (node_edges nodes' edges s). kb_target e = t"
    if "t < length nodes" "t \<noteq> 0" for t
    using trie_parent [OF ok that] same_edges [OF same] by metis
  then show ?thesis
    using trie_okD [OF ok] trie_edge [OF ok] trie_labels [OF ok]
      same_edges [OF same] first_edges_ok_cong [OF same] len ne
    unfolding trie_ok_def by simp
qed

lemma edge_start_update:
  "map kn_edge_start (nodes[s := (nodes ! s)\<lparr>kn_best_keyword := b\<rparr>]) = map kn_edge_start nodes"
  "map kn_edge_start (nodes[s := (nodes ! s)\<lparr>kn_failure := f\<rparr>]) = map kn_edge_start nodes"
  by (cases "s < length nodes"; simp add: map_update list_update_beyond list_update_same_conv)+

lemma unlinked_skip:
  "keywords ! n = [] \<Longrightarrow> unlinked lower keywords (Suc n) = unlinked lower keywords n"
  by (intro ext) (auto simp: unlinked_def find_append_cases is_word_def split: option.splits)

lemma built_keyword:
  assumes b: "built lower keywords n nodes edges paths"
  shows "\<exists>nodes' edges' paths'. add_keyword lower (nodes, edges) (n, keywords ! n) = (nodes', edges') \<and>
    built lower keywords (Suc n) nodes' edges' paths'"
proof (cases "keywords ! n = []")
  case True
  with b show ?thesis
    by (auto simp: add_keyword_def built_def words_in_def less_Suc_eq unlinked_skip [OF True])
next
  case False
  have ne: "0 < length nodes" "paths ! 0 = []"
    using b trie_okD(2,3) [of nodes edges paths] by (auto simp: built_def)
  obtain nodes1 edges1 s paths1 where 1:
    "foldl add_label ((nodes, edges), 0) (lower (keywords ! n)) = ((nodes1, edges1), s)"
    "built lower keywords n nodes1 edges1 paths1" "s < length nodes1"
    "paths1 ! s = lower (keywords ! n)"
    using built_word [OF b ne(1), of "lower (keywords ! n)"] ne(2) by auto
  let ?nodes = "nodes1[s := (nodes1 ! s)\<lparr>kn_best_keyword :=
       (case kn_best_keyword (nodes1 ! s) of None \<Rightarrow> Some n | Some k \<Rightarrow> Some k)\<rparr>]"
  from 1(2) have ok: "trie_ok nodes1 edges1 paths1" and w: "words_in lower keywords n paths1"
    and un: "list_all2 (unlinked lower keywords n) paths1 nodes1"
    by (auto simp: built_def)
  have "unlinked lower keywords n (paths1 ! s) (nodes1 ! s)"
    using list_all2_nthD2 [OF un 1(3)] .
  then have less: "k < n" if "kn_best_keyword (nodes1 ! s) = Some k" for k
    using that find_upt_less by (auto simp: unlinked_def)
  have "add_keyword lower (nodes, edges) (n, keywords ! n) = (?nodes, edges1)"
  proof (cases "kn_best_keyword (nodes1 ! s)")
    case None
    with False 1(1) show ?thesis by (simp add: add_keyword_def)
  next
    case (Some k)
    then have same: "(nodes1 ! s)\<lparr>kn_best_keyword := Some k\<rparr> = nodes1 ! s" by (cases "nodes1 ! s") simp
    with Some False 1(1) less [OF Some] show ?thesis by (simp add: add_keyword_def same)
  qed
  moreover have "trie_ok ?nodes edges1 paths1"
    using ok by (rule trie_ok_cong [OF edge_start_update(1) [symmetric]])
  moreover have "words_in lower keywords (Suc n) paths1"
    using w 1(3,4) trie_okD(1) [OF ok] nth_mem [of s paths1] by (auto simp: words_in_def less_Suc_eq)
  moreover have "list_all2 (unlinked lower keywords (Suc n)) paths1 ?nodes"
    using add_keyword_final trie_okD(1,4) [OF ok] 1(3,4) un False by blast
  ultimately show ?thesis by (auto simp: built_def)
qed

lemma build_trie_built:
  "\<exists>nodes edges paths. build_trie lower keywords = (nodes, edges) \<and>
     built lower keywords (length keywords) nodes edges paths"
proof -
  have "\<exists>nodes edges paths.
      foldl (add_keyword lower) ([new_kw_node], []) (List.enumerate 0 (take n keywords)) = (nodes, edges) \<and>
      built lower keywords n nodes edges paths" if "n \<le> length keywords" for n
    using that
  proof (induction n)
    case 0
    have "built lower keywords 0 [new_kw_node] [] [[]]"
      by (auto simp: built_def trie_ok_def siblings_ok_def first_edges_ok_def words_in_def
          unlinked_def new_kw_node_def node_edges_def build_first_edge_def)
    then show ?case by auto
  next
    case (Suc n)
    then obtain nodes edges paths where
      "foldl (add_keyword lower) ([new_kw_node], []) (List.enumerate 0 (take n keywords)) = (nodes, edges)"
      "built lower keywords n nodes edges paths" by auto
    note step = this
    show ?case
      using built_keyword [OF step(2)] step(1) Suc.prems
      by (auto simp: take_Suc_conv_app_nth enumerate_append_eq)
  qed
  from this [of "length keywords"] show ?thesis by (simp add: build_trie_def)
qed


section \<open>Failure links\<close>

definition ends_word :: "(string \<Rightarrow> string) \<Rightarrow> string list \<Rightarrow> string \<Rightarrow> nat \<Rightarrow> bool" where
  "ends_word lower keywords w i \<longleftrightarrow> keywords ! i \<noteq> [] \<and> suffix (lower (keywords ! i)) w"

text \<open>The longest path of the trie that is a suffix of a string.\<close>

definition longest_path :: "string list \<Rightarrow> string \<Rightarrow> string \<Rightarrow> bool" where
  "longest_path paths w q \<longleftrightarrow>
     q \<in> set paths \<and> suffix q w \<and> (\<forall>r\<in>set paths. suffix r w \<longrightarrow> suffix r q)"

definition fail_link :: "string list \<Rightarrow> nat \<Rightarrow> nat \<Rightarrow> bool" where
  "fail_link paths s f \<longleftrightarrow>
     f < length paths \<and> strict_suffix (paths ! f) (paths ! s) \<and>
     (\<forall>r\<in>set paths. strict_suffix r (paths ! s) \<longrightarrow> suffix r (paths ! f))"

lemma fail_link_shorter: "fail_link paths s f \<Longrightarrow> length (paths ! f) < length (paths ! s)"
  by (auto simp: fail_link_def strict_suffix_def suffix_def)

lemma longest_path_fail:
  assumes closed: "\<forall>w c. w @ [c] \<in> set paths \<longrightarrow> w \<in> set paths"
    and f: "fail_link paths s f" and no: "paths ! s @ [c] \<notin> set paths"
    and q: "longest_path paths (paths ! f @ [c]) q"
  shows "longest_path paths (paths ! s @ [c]) q"
proof -
  have "suffix r q" if r: "r \<in> set paths" "suffix r (paths ! s @ [c])" for r
  proof (cases r rule: rev_cases)
    case (snoc r' d)
    then have "r' \<in> set paths" "strict_suffix r' (paths ! s)" "d = c"
      using r no closed by (auto simp: suffix_snoc strict_suffix_def)
    with f snoc r q show ?thesis by (auto simp: fail_link_def longest_path_def suffix_snoc)
  qed simp
  moreover have "suffix q (paths ! s @ [c])"
    using q f by (force simp: longest_path_def fail_link_def suffix_snoc strict_suffix_def)
  ultimately show ?thesis using q by (auto simp: longest_path_def)
qed

text \<open>
  Both loops over failure links, that of the construction and that of the search, find the longest
  path that ends in the next byte.
\<close>

lemma walk_end:
  fixes walk :: "nat \<Rightarrow> char \<Rightarrow> nat \<Rightarrow> nat option"
  assumes root: "paths ! 0 = []" "paths \<noteq> []"
    and edge: "\<And>f c t. f < length paths \<Longrightarrow>
      edge_to f c = Some t \<longleftrightarrow> t < length paths \<and> paths ! t = paths ! f @ [c]"
    and walk: "\<And>k f. walk k c f = (case edge_to f c of Some t \<Rightarrow> Some t
      | None \<Rightarrow> if f = 0 then None else (case k of 0 \<Rightarrow> None | Suc k \<Rightarrow> walk k c (fail f)))"
  shows "f < length paths \<Longrightarrow> edge_to f c \<noteq> None \<or> f = 0 \<Longrightarrow>
      longest_path paths (paths ! f @ [c]) (case walk k c f of Some t \<Rightarrow> paths ! t | None \<Rightarrow> []) \<and>
      (\<forall>t. walk k c f = Some t \<longrightarrow> t < length paths)"
proof (cases "edge_to f c")
  case None
  assume "f < length paths" "edge_to f c \<noteq> None \<or> f = 0"
  with None have f: "f = 0" by simp
  have "[c] \<notin> set paths" using None f edge [of 0 c] root by (auto simp: in_set_conv_nth)
  moreover have "[] \<in> set paths" using root nth_mem [of 0 paths] by auto
  ultimately show ?thesis using None f walk [of k f] root
    by (auto simp: longest_path_def suffix_Cons)
next
  case (Some t)
  assume "f < length paths"
  with Some edge [of f c t] walk [of k f] nth_mem [of t paths] show ?thesis
    by (auto simp: longest_path_def)
qed

lemma walk_longest:
  fixes walk :: "nat \<Rightarrow> char \<Rightarrow> nat \<Rightarrow> nat option"
  assumes closed: "\<forall>w c. w @ [c] \<in> set paths \<longrightarrow> w \<in> set paths"
    and root: "paths ! 0 = []" "paths \<noteq> []"
    and edge: "\<And>f c t. f < length paths \<Longrightarrow>
      edge_to f c = Some t \<longleftrightarrow> t < length paths \<and> paths ! t = paths ! f @ [c]"
    and walk: "\<And>k f. walk k c f = (case edge_to f c of Some t \<Rightarrow> Some t
      | None \<Rightarrow> if f = 0 then None else (case k of 0 \<Rightarrow> None | Suc k \<Rightarrow> walk k c (fail f)))"
    and links: "\<And>f. f < length paths \<Longrightarrow> f \<noteq> 0 \<Longrightarrow> length (paths ! f) \<le> d \<Longrightarrow> fail_link paths f (fail f)"
  shows "f < length paths \<Longrightarrow> length (paths ! f) \<le> d \<Longrightarrow> length (paths ! f) \<le> k \<Longrightarrow>
    longest_path paths (paths ! f @ [c]) (case walk k c f of Some t \<Rightarrow> paths ! t | None \<Rightarrow> []) \<and>
    (\<forall>t. walk k c f = Some t \<longrightarrow> t < length paths)"
proof (induction k arbitrary: f)
  case 0
  have "f = 0" if "fail_link paths f (fail f)" using fail_link_shorter [OF that] 0 by auto
  then have "edge_to f c \<noteq> None \<or> f = 0" using links [of f] 0 by blast
  then show ?case
    using walk_end [where walk = walk and k = 0 and f = f, OF root edge walk] 0 by blast
next
  case (Suc k)
  show ?case
  proof (cases "edge_to f c = None \<and> f \<noteq> 0")
    case False
    then show ?thesis using Suc.prems walk_end [where walk = walk and k = "Suc k" and f = f, OF root edge walk] by blast
  next
    case True
    with Suc.prems links have f: "fail_link paths f (fail f)" by blast
    then have "length (paths ! fail f) < length (paths ! f)" "fail f < length paths"
      using fail_link_shorter by (auto simp: fail_link_def)
    with Suc have IH: "longest_path paths (paths ! fail f @ [c])
        (case walk k c (fail f) of Some t \<Rightarrow> paths ! t | None \<Rightarrow> [])"
      "\<forall>t. walk k c (fail f) = Some t \<longrightarrow> t < length paths"
      by (auto simp: less_le_trans)
    have "paths ! f @ [c] \<notin> set paths"
      using True edge [OF Suc.prems(1), of c] by (auto simp: in_set_conv_nth)
    from longest_path_fail [OF closed f this IH(1)] IH(2) True walk [of "Suc k" f] show ?thesis
      by simp
  qed
qed

text \<open>What a node looks like once it is linked.\<close>

definition linked :: "(string \<Rightarrow> string) \<Rightarrow> string list \<Rightarrow> string list \<Rightarrow> nat \<Rightarrow> kw_node \<Rightarrow> bool" where
  "linked lower keywords paths s node \<longleftrightarrow>
     (s \<noteq> 0 \<longrightarrow> fail_link paths s (kn_failure node)) \<and>
     kn_best_keyword node = find (ends_word lower keywords (paths ! s)) [0..<length keywords]"

lemma min_keyword_index_find:
  "min_keyword_index (find P [0..<n]) (find Q [0..<n]) = find (\<lambda>i. P i \<or> Q i) [0..<n]"
proof (induction n)
  case (Suc n)
  show ?case
    using Suc find_upt_less [of P n] find_upt_less [of Q n]
    by (cases "find P [0..<n]"; cases "find Q [0..<n]"; cases "find (\<lambda>i. P i \<or> Q i) [0..<n]")
      (auto simp: find_append_cases split: if_splits)
qed simp

lemma find_upt_cong:
  "(\<And>i. i < n \<Longrightarrow> P i \<longleftrightarrow> Q i) \<Longrightarrow> find P [0..<n] = find Q [0..<n]"
  by (rule find_cong) auto

text \<open>A word ends a path if it is the path, or ends the path of the failure link.\<close>

lemma ends_word_link:
  assumes w: "words_in lower keywords n paths" and f: "fail_link paths t f" and i: "i < n"
  shows "is_word lower keywords (paths ! t) i \<or> ends_word lower keywords (paths ! f) i \<longleftrightarrow>
    ends_word lower keywords (paths ! t) i"
proof -
  let ?w = "lower (keywords ! i)"
  have "suffix ?w (paths ! t) \<longleftrightarrow> ?w = paths ! t \<or> suffix ?w (paths ! f)" if "keywords ! i \<noteq> []"
  proof
    have "?w \<in> set paths" using w i that by (auto simp: words_in_def)
    then show "?w = paths ! t \<or> suffix ?w (paths ! f)" if "suffix ?w (paths ! t)"
      using f that by (auto simp: fail_link_def strict_suffix_def)
    have "suffix (paths ! f) (paths ! t)" using f by (simp add: fail_link_def strict_suffix_def)
    then show "suffix ?w (paths ! t)" if "?w = paths ! t \<or> suffix ?w (paths ! f)"
      using that suffix_order.trans by auto
  qed
  then show ?thesis by (auto simp: is_word_def ends_word_def)
qed


lemma trie_closed: "trie_ok nodes edges paths \<Longrightarrow> \<forall>w c. w @ [c] \<in> set paths \<longrightarrow> w \<in> set paths"
  using paths_prefix_closed by blast

lemma fallback_longest:
  assumes ok: "trie_ok nodes edges paths" and f: "f < length nodes" "length (paths ! f) \<le> d" "d \<le> k"
    and links: "\<And>u. u < length nodes \<Longrightarrow> u \<noteq> 0 \<Longrightarrow> length (paths ! u) \<le> d \<Longrightarrow>
      fail_link paths u (kn_failure (nodes ! u))"
  shows "longest_path paths (paths ! f @ [c])
      (case fallback_loop k nodes edges c f of Some t \<Rightarrow> paths ! t | None \<Rightarrow> []) \<and>
    (\<forall>t. fallback_loop k nodes edges c f = Some t \<longrightarrow> t < length nodes)"
proof -
  note facts = trie_okD [OF ok]
  have ne: "paths \<noteq> []" using facts(1,2) by auto
  show ?thesis
    using walk_longest [where walk = "\<lambda>k c f. fallback_loop k nodes edges c f" and
        edge_to = "build_transition nodes edges" and fail = "\<lambda>f. kn_failure (nodes ! f)"
        and c = c and d = d and f = f and k = k,
        OF trie_closed [OF ok] facts(3) ne _ fallback_loop.simps]
      build_transition_iff [OF ok] links f facts(1) by auto
qed

text \<open>Linking one child of a linked node.\<close>

lemma longest_fail_link:
  assumes closed: "\<forall>w c. w @ [c] \<in> set paths \<longrightarrow> w \<in> set paths"
    and f: "fail_link paths s f" and t: "paths ! t = paths ! s @ [c]"
    and q: "longest_path paths (paths ! f @ [c]) (paths ! g)" "g < length paths"
  shows "fail_link paths t g"
proof -
  have "length (paths ! g) \<le> Suc (length (paths ! f))"
    using q(1) suffix_length_le by (fastforce simp: longest_path_def)
  with fail_link_shorter [OF f] have "paths ! g \<noteq> paths ! t" by (auto simp: t)
  moreover have "suffix (paths ! g) (paths ! t)"
    using q(1) f by (force simp: longest_path_def fail_link_def suffix_snoc strict_suffix_def t)
  moreover have "suffix r (paths ! g)" if r: "r \<in> set paths" "strict_suffix r (paths ! t)" for r
  proof (cases r rule: rev_cases)
    case (snoc r' d)
    then have "r' \<in> set paths" "strict_suffix r' (paths ! s)" "d = c"
      using r closed by (auto simp: suffix_snoc strict_suffix_def t)
    with f snoc r q show ?thesis by (auto simp: fail_link_def longest_path_def suffix_snoc)
  qed simp
  ultimately show ?thesis using q(2) by (simp add: fail_link_def strict_suffix_def)
qed

lemma linked_best:
  assumes w: "words_in lower keywords (length keywords) paths"
    and un: "kn_best_keyword n = find (is_word lower keywords (paths ! t)) [0..<length keywords]"
    and f: "fail_link paths t f" "linked lower keywords paths f m"
  shows "min_keyword_index (kn_best_keyword n) (kn_best_keyword m) =
    find (ends_word lower keywords (paths ! t)) [0..<length keywords]"
  using f(2) by (simp add: un linked_def min_keyword_index_find)
    (rule find_upt_cong, rule ends_word_link [OF w f(1)])

lemma link_child_linked:
  assumes ok: "trie_ok nodes edges paths" and w: "words_in lower keywords (length keywords) paths"
    and s: "s < length nodes" "s \<noteq> 0" and e: "e \<in> set (node_edges nodes edges s)"
    and lk: "\<And>u. u < length nodes \<Longrightarrow> length (paths ! u) \<le> length (paths ! s) \<Longrightarrow>
      linked lower keywords paths u (nodes ! u)"
    and un: "unlinked lower keywords (length keywords) (paths ! kb_target e) (nodes ! kb_target e)"
    and short: "length (paths ! s) \<le> length nodes"
  defines "t \<equiv> kb_target e" and "nodes' \<equiv> link_child edges s nodes e"
  shows "map kn_edge_start nodes' = map kn_edge_start nodes"
    and "\<And>u. u \<noteq> t \<Longrightarrow> nodes' ! u = nodes ! u" and "linked lower keywords paths t (nodes' ! t)"
proof -
  note facts = trie_okD [OF ok]
  let ?f = "kn_failure (nodes ! s)" and ?d = "length (paths ! s)" and ?c = "kb_label e"
  let ?g = "case fallback_loop (length nodes) nodes edges ?c ?f of Some g \<Rightarrow> g | None \<Rightarrow> 0"
  have t: "t < length nodes" "paths ! t = paths ! s @ [?c]" using trie_edge [OF ok s(1) e] by (auto simp: t_def)
  have links: "fail_link paths u (kn_failure (nodes ! u))"
    if "u < length nodes" "u \<noteq> 0" "length (paths ! u) \<le> ?d" for u
    using lk [OF that(1,3)] that(2) by (simp add: linked_def)
  have f: "fail_link paths s ?f" using links [OF s] by simp
  then have f': "?f < length nodes" "length (paths ! ?f) \<le> ?d"
    using fail_link_shorter [OF f] facts(1) by (auto simp: fail_link_def)
  have g: "longest_path paths (paths ! ?f @ [?c]) (paths ! ?g)" "?g < length paths"
    using fallback_longest [OF ok f' short links, of ?c] facts(1,2,3) by (auto split: option.splits)
  have tg: "fail_link paths t ?g" using longest_fail_link [OF trie_closed [OF ok] f t(2) g] by blast
  have gt: "?g \<noteq> t" "length (paths ! ?g) \<le> ?d" using fail_link_shorter [OF tg] t(2) by auto
  then have lg: "linked lower keywords paths ?g (nodes ! ?g)" using lk g(2) facts(1) by simp
  have un': "kn_failure (nodes ! t) = 0"
    "kn_best_keyword (nodes ! t) = find (is_word lower keywords (paths ! t)) [0..<length keywords]"
    using un by (auto simp: unlinked_def t_def)
  have nodes': "nodes' = nodes[t := (nodes ! t)\<lparr>kn_failure := ?g, kn_best_keyword :=
      min_keyword_index (kn_best_keyword (nodes ! t)) (kn_best_keyword (nodes ! ?g))\<rparr>]"
    using gt(1) t(1) un'(1)
    by (cases "nodes ! t")
      (auto simp: nodes'_def link_child_def t_def [symmetric] Let_def split: option.splits)
  show "map kn_edge_start nodes' = map kn_edge_start nodes"
    using t(1) by (simp add: nodes' map_update list_update_same_conv)
  show "nodes' ! u = nodes ! u" if "u \<noteq> t" for u using that by (simp add: nodes')
  show "linked lower keywords paths t (nodes' ! t)"
    using t(1) tg linked_best [OF w un'(2) tg lg] by (simp add: nodes' linked_def)
qed


lemma path_length_bound:
  assumes ok: "trie_ok nodes edges paths"
  shows "s < length nodes \<Longrightarrow> length (paths ! s) < length nodes"
proof -
  have len: "length paths = length nodes" using trie_okD(1) [OF ok] .
  assume "s < length nodes"
  then have in_paths: "paths ! s \<in> set paths" using len by simp
  have "take k (paths ! s) \<in> set paths" if "k \<le> length (paths ! s)" for k
    using that
  proof (induction "length (paths ! s) - k" arbitrary: k)
    case 0
    then show ?case using in_paths by simp
  next
    case (Suc m)
    then have "take (Suc k) (paths ! s) \<in> set paths" "k < length (paths ! s)" by auto
    then show ?case using paths_prefix_closed [OF ok] by (metis take_Suc_conv_app_nth)
  qed
  then have "(\<lambda>k. take k (paths ! s)) ` {0..length (paths ! s)} \<subseteq> set paths" by auto
  then have "card ((\<lambda>k. take k (paths ! s)) ` {0..length (paths ! s)}) \<le> card (set paths)"
    by (simp add: card_mono)
  moreover have "inj_on (\<lambda>k. take k (paths ! s)) {0..length (paths ! s)}"
    by (rule inj_onI) (metis atLeastAtMost_iff length_take min.absorb2)
  ultimately show ?thesis
    using card_length [of paths] len by (simp add: card_image)
qed

lemma link_children_linked:
  assumes w: "words_in lower keywords (length keywords) paths" and s: "s \<noteq> 0"
  shows "trie_ok nodes edges paths \<Longrightarrow> s < length nodes \<Longrightarrow>
      set es \<subseteq> set (node_edges nodes edges s) \<Longrightarrow> distinct (map kb_target es) \<Longrightarrow>
      (\<forall>u<length nodes. length (paths ! u) \<le> length (paths ! s) \<longrightarrow>
        linked lower keywords paths u (nodes ! u)) \<Longrightarrow>
      (\<forall>e\<in>set es. unlinked lower keywords (length keywords) (paths ! kb_target e) (nodes ! kb_target e)) \<Longrightarrow>
    (let nodes' = foldl (link_child edges s) nodes es in
       map kn_edge_start nodes' = map kn_edge_start nodes \<and>
       (\<forall>u. u \<notin> kb_target ` set es \<longrightarrow> nodes' ! u = nodes ! u) \<and>
       (\<forall>u\<in>kb_target ` set es. linked lower keywords paths u (nodes' ! u)))"
proof (induction es arbitrary: nodes)
  case (Cons e es)
  let ?t = "kb_target e" and ?nodes = "link_child edges s nodes e"
  have short: "length (paths ! s) \<le> length nodes" using path_length_bound Cons.prems(1,2) less_imp_le by blast
  have e: "e \<in> set (node_edges nodes edges s)" using Cons.prems(3) by simp
  note step = link_child_linked [OF Cons.prems(1) w Cons.prems(2) s e _ _ short]
  have 1: "map kn_edge_start ?nodes = map kn_edge_start nodes" "\<And>u. u \<noteq> ?t \<Longrightarrow> ?nodes ! u = nodes ! u"
    "linked lower keywords paths ?t (?nodes ! ?t)"
    using step Cons.prems(5,6) by auto
  have len: "length ?nodes = length nodes" using 1(1) by (rule map_eq_imp_length_eq)
  have ok: "trie_ok ?nodes edges paths" using trie_ok_cong [OF 1(1) [symmetric] Cons.prems(1)] .
  have deeper: "length (paths ! ?t) = Suc (length (paths ! s))"
    using trie_edge [OF Cons.prems(1,2) e] by simp
  have "linked lower keywords paths u (?nodes ! u)"
    if u: "u < length ?nodes" "length (paths ! u) \<le> length (paths ! s)" for u
  proof -
    have "u \<noteq> ?t" using u(2) deeper by auto
    then show ?thesis using u Cons.prems(5) 1(2) len by simp
  qed
  then have "\<forall>u<length ?nodes. length (paths ! u) \<le> length (paths ! s) \<longrightarrow>
      linked lower keywords paths u (?nodes ! u)" by blast
  moreover have "\<forall>e\<in>set es. unlinked lower keywords (length keywords) (paths ! kb_target e) (?nodes ! kb_target e)"
  proof
    fix e' assume e': "e' \<in> set es"
    then have "kb_target e' \<noteq> ?t" using Cons.prems(4) by (auto simp: image_iff)
    then show "unlinked lower keywords (length keywords) (paths ! kb_target e') (?nodes ! kb_target e')"
      using 1(2) e' Cons.prems(6) by simp
  qed
  moreover have "set es \<subseteq> set (node_edges ?nodes edges s)"
    using Cons.prems(2,3) same_edges [OF 1(1), of s edges] len by auto
  ultimately have IH: "let nodes' = foldl (link_child edges s) ?nodes es in
       map kn_edge_start nodes' = map kn_edge_start ?nodes \<and>
       (\<forall>u. u \<notin> kb_target ` set es \<longrightarrow> nodes' ! u = ?nodes ! u) \<and>
       (\<forall>u\<in>kb_target ` set es. linked lower keywords paths u (nodes' ! u))"
    using Cons.IH [OF ok] Cons.prems(2,4) len by simp
  have "?t \<notin> kb_target ` set es" using Cons.prems(4) by auto
  with IH 1 show ?case by (auto simp: Let_def)
qed simp

text \<open>
  Breadth-first search: \<open>D\<close> is the list of the nodes already expanded. The queue is sorted by
  depth, and the nodes met so far are the root and the children of expanded nodes.
\<close>

definition bfs_ok :: "(string \<Rightarrow> string) \<Rightarrow> string list \<Rightarrow> kw_node list \<Rightarrow> kw_build_edge list \<Rightarrow>
    string list \<Rightarrow> nat list \<Rightarrow> nat list \<Rightarrow> bool" where
  "bfs_ok lower keywords nodes edges paths D queue \<longleftrightarrow>
     trie_ok nodes edges paths \<and> distinct (D @ queue) \<and> set (D @ queue) \<subseteq> {..<length nodes} \<and> 0 \<in> set D \<and>
     (\<forall>u<length nodes. if u \<in> set (D @ queue) then linked lower keywords paths u (nodes ! u)
        else unlinked lower keywords (length keywords) (paths ! u) (nodes ! u)) \<and>
     (\<forall>t<length nodes. t \<noteq> 0 \<longrightarrow>
        (t \<in> set (D @ queue) \<longleftrightarrow> (\<exists>s\<in>set D. butlast (paths ! t) = paths ! s))) \<and>
     sorted (map (\<lambda>u. length (paths ! u)) queue) \<and>
     (\<forall>u\<in>set queue. length (paths ! u) \<le> Suc (length (paths ! hd queue)))"

lemma children_paths:
  assumes ok: "trie_ok nodes edges paths" and s: "s < length nodes"
  shows "kb_target ` set (node_edges nodes edges s) =
    {t. t < length nodes \<and> t \<noteq> 0 \<and> butlast (paths ! t) = paths ! s}"
proof (intro set_eqI iffI)
  fix t assume "t \<in> kb_target ` set (node_edges nodes edges s)"
  then show "t \<in> {t. t < length nodes \<and> t \<noteq> 0 \<and> butlast (paths ! t) = paths ! s}"
    using trie_edge [OF ok s] trie_path_Nil [OF ok] by fastforce
next
  fix t assume t: "t \<in> {t. t < length nodes \<and> t \<noteq> 0 \<and> butlast (paths ! t) = paths ! s}"
  then have "paths ! t = paths ! s @ [last (paths ! t)]"
    using trie_path_Nil [OF ok, of t] append_butlast_last_id by fastforce
  with t trie_child [OF ok s] show "t \<in> kb_target ` set (node_edges nodes edges s)" by blast
qed

lemma distinct_targets:
  assumes ok: "trie_ok nodes edges paths" and s: "s < length nodes"
  shows "distinct (map kb_target (node_edges nodes edges s))"
proof -
  have "distinct (map (\<lambda>e. paths ! s @ [kb_label e]) (node_edges nodes edges s))"
    using trie_labels [OF ok s] by (auto simp: distinct_map inj_on_def)
  moreover have "map (\<lambda>e. paths ! s @ [kb_label e]) (node_edges nodes edges s) =
      map (\<lambda>e. paths ! kb_target e) (node_edges nodes edges s)"
    using trie_edge [OF ok s] by simp
  ultimately show ?thesis by (simp add: distinct_map inj_on_def)
qed

lemma bfs_covered:
  assumes b: "bfs_ok lower keywords nodes edges paths D queue" and t: "t < length nodes"
    and d: "\<forall>u\<in>set queue. length (paths ! t) \<le> length (paths ! u)"
  shows "t \<in> set (D @ queue)"
  using t d
proof (induction "length (paths ! t)" arbitrary: t rule: less_induct)
  case less
  from b have ok: "trie_ok nodes edges paths" by (simp add: bfs_ok_def)
  show ?case
  proof (cases "t = 0")
    case True
    with b show ?thesis by (simp add: bfs_ok_def)
  next
    case False
    then have ne: "paths ! t \<noteq> []" using trie_path_Nil [OF ok less.prems(1)] by simp
    then have "butlast (paths ! t) \<in> set paths"
      using trie_closed [OF ok] less.prems(1) trie_okD(1) [OF ok] append_butlast_last_id [OF ne] nth_mem
      by metis
    then obtain p where p: "p < length nodes" "paths ! p = butlast (paths ! t)"
      using trie_okD(1) [OF ok] by (auto simp: in_set_conv_nth)
    then have shorter: "length (paths ! p) < length (paths ! t)" using ne by simp
    with less p have "p \<in> set (D @ queue)" by fastforce
    with shorter less.prems(2) have "p \<in> set D" by fastforce
    with b False less.prems(1) p(2) show ?thesis unfolding bfs_ok_def by force
  qed
qed


lemma sorted_const: "(\<And>x. x \<in> set xs \<Longrightarrow> f x = (c :: nat)) \<Longrightarrow> sorted (map f xs)"
  by (induction xs) auto

lemma bfs_step:
  assumes b: "bfs_ok lower keywords nodes edges paths D (s # queue)"
    and w: "words_in lower keywords (length keywords) paths"
  defines "es \<equiv> node_edges nodes edges s"
  shows "bfs_ok lower keywords (foldl (link_child edges s) nodes es) edges paths (D @ [s])
    (queue @ map kb_target es)"
    and "map kn_edge_start (foldl (link_child edges s) nodes es) = map kn_edge_start nodes"
proof -
  let ?nodes = "foldl (link_child edges s) nodes es" and ?T = "kb_target ` set es"
  note parts = b [unfolded bfs_ok_def]
  from parts have ok: "trie_ok nodes edges paths" by blast
  from parts have dist: "distinct (D @ s # queue)" by blast
  from parts have range: "set (D @ s # queue) \<subseteq> {..<length nodes}" by blast
  from parts have root: "0 \<in> set D" by blast
  from parts have tags: "\<And>u. u < length nodes \<Longrightarrow> if u \<in> set (D @ s # queue)
      then linked lower keywords paths u (nodes ! u)
      else unlinked lower keywords (length keywords) (paths ! u) (nodes ! u)" by blast
  from parts have met: "\<And>t. t < length nodes \<Longrightarrow> t \<noteq> 0 \<Longrightarrow>
      t \<in> set (D @ s # queue) \<longleftrightarrow> (\<exists>s\<in>set D. butlast (paths ! t) = paths ! s)" by blast
  from parts have sorted: "sorted (map (\<lambda>u. length (paths ! u)) (s # queue))" by blast
  from parts have near: "\<And>u. u \<in> set queue \<Longrightarrow> length (paths ! u) \<le> Suc (length (paths ! s))" by simp
  have s: "s < length nodes" "s \<noteq> 0" using range dist root by auto
  have T: "?T = {t. t < length nodes \<and> t \<noteq> 0 \<and> butlast (paths ! t) = paths ! s}"
    using children_paths [OF ok s(1)] by (simp add: es_def)
  have new: "u \<notin> set (D @ s # queue)" if u: "u \<in> ?T" for u
  proof
    assume "u \<in> set (D @ s # queue)"
    then obtain p where "p \<in> set D" "paths ! p = paths ! s" using met [of u] u T by auto
    moreover have "p < length nodes" using range \<open>p \<in> set D\<close> by auto
    ultimately show False using trie_path_inj [OF ok _ s(1)] dist by auto
  qed
  have deeper: "length (paths ! u) = Suc (length (paths ! s))" if "u \<in> ?T" for u
    using that trie_edge [OF ok s(1)] by (auto simp: es_def)
  have shallow: "linked lower keywords paths u (nodes ! u)"
    if u: "u < length nodes" "length (paths ! u) \<le> length (paths ! s)" for u
  proof -
    have "\<forall>v\<in>set (s # queue). length (paths ! u) \<le> length (paths ! v)"
      using u(2) sorted by fastforce
    then have "u \<in> set (D @ s # queue)" by (rule bfs_covered [OF b u(1)])
    then show ?thesis using tags [OF u(1)] by simp
  qed
  have sub: "set es \<subseteq> set (node_edges nodes edges s)" by (simp add: es_def)
  have targets: "distinct (map kb_target es)" using distinct_targets [OF ok s(1)] by (simp add: es_def)
  have linked: "\<forall>u<length nodes. length (paths ! u) \<le> length (paths ! s) \<longrightarrow>
      linked lower keywords paths u (nodes ! u)" using shallow by blast
  have fresh: "\<forall>e\<in>set es. unlinked lower keywords (length keywords) (paths ! kb_target e) (nodes ! kb_target e)"
  proof
    fix e assume "e \<in> set es"
    then have e: "kb_target e \<in> ?T" by simp
    then have "kb_target e < length nodes" using T by auto
    from tags [OF this] new [OF e]
    show "unlinked lower keywords (length keywords) (paths ! kb_target e) (nodes ! kb_target e)" by simp
  qed
  note fold = link_children_linked [OF w s(2) ok s(1) sub targets linked fresh, unfolded Let_def]
  have fold: "map kn_edge_start ?nodes = map kn_edge_start nodes"
    "\<And>u. u \<notin> ?T \<Longrightarrow> ?nodes ! u = nodes ! u" "\<And>u. u \<in> ?T \<Longrightarrow> linked lower keywords paths u (?nodes ! u)"
    using fold by blast+
  have len: "length ?nodes = length nodes" using fold(1) by (rule map_eq_imp_length_eq)
  have "trie_ok ?nodes edges paths" using trie_ok_cong [OF fold(1) [symmetric] ok] .
  moreover have "distinct ((D @ [s]) @ queue @ map kb_target es)"
    using dist new distinct_targets [OF ok s(1)] by (auto simp: es_def)
  moreover have "set ((D @ [s]) @ queue @ map kb_target es) \<subseteq> {..<length ?nodes}"
    using range T len by auto
  moreover have "if u \<in> set ((D @ [s]) @ queue @ map kb_target es) then linked lower keywords paths u (?nodes ! u)
      else unlinked lower keywords (length keywords) (paths ! u) (?nodes ! u)" if "u < length ?nodes" for u
    using tags [of u] that fold(2,3) len by (cases "u \<in> ?T") auto
  moreover have "t \<in> set ((D @ [s]) @ queue @ map kb_target es) \<longleftrightarrow>
      (\<exists>s\<in>set (D @ [s]). butlast (paths ! t) = paths ! s)" if t: "t < length ?nodes" "t \<noteq> 0" for t
    using met [of t] t T len by auto
  moreover have "sorted (map (\<lambda>u. length (paths ! u)) (queue @ map kb_target es))"
    using sorted near deeper sorted_const [of es "\<lambda>e. length (paths ! kb_target e)" "Suc (length (paths ! s))"]
    by (auto simp: sorted_append comp_def)
  moreover have "length (paths ! u) \<le> Suc (length (paths ! hd (queue @ map kb_target es)))"
    if "u \<in> set (queue @ map kb_target es)" for u
  proof -
    have "queue @ map kb_target es \<noteq> []" using that by auto
    from hd_in_set [OF this] have "hd (queue @ map kb_target es) \<in> set queue \<union> ?T" by auto
    then have "length (paths ! s) \<le> length (paths ! hd (queue @ map kb_target es))"
      using sorted deeper by auto
    moreover have "length (paths ! u) \<le> Suc (length (paths ! s))"
      using that near deeper by auto
    ultimately show ?thesis by simp
  qed
  ultimately show "bfs_ok lower keywords ?nodes edges paths (D @ [s]) (queue @ map kb_target es)"
    using root unfolding bfs_ok_def by simp
  show "map kn_edge_start ?nodes = map kn_edge_start nodes" by (rule fold(1))
qed

lemma link_nodes_linked:
  assumes w: "words_in lower keywords (length keywords) paths"
  shows "bfs_ok lower keywords nodes edges paths D queue \<Longrightarrow> length nodes \<le> fuel + length D \<Longrightarrow>
    map kn_edge_start (link_nodes fuel edges nodes queue) = map kn_edge_start nodes \<and>
    (\<forall>u<length nodes. linked lower keywords paths u (link_nodes fuel edges nodes queue ! u))"
proof (induction fuel edges nodes queue arbitrary: D rule: link_nodes.induct)
  case (1 fuel edges nodes)
  have "linked lower keywords paths u (nodes ! u)" if u: "u < length nodes" for u
  proof -
    have "u \<in> set (D @ [])" by (rule bfs_covered [OF 1(1) u]) simp
    then show ?thesis using 1(1) u unfolding bfs_ok_def by meson
  qed
  then show ?case by simp
next
  case (2 edges nodes s queue)
  then have "length (D @ s # queue) \<le> length nodes"
    using distinct_card [of "D @ s # queue"] card_mono [of "{..<length nodes}" "set (D @ s # queue)"]
    by (simp add: bfs_ok_def)
  with 2 show ?case by simp
next
  case (3 fuel edges nodes s queue)
  note step = bfs_step [OF 3(2) w]
  have len: "length (foldl (link_child edges s) nodes (node_edges nodes edges s)) = length nodes"
    using step(2) by (rule map_eq_imp_length_eq)
  then show ?case using 3(1) [OF step(1)] 3(3) step(2) by simp
qed


lemma bfs_start:
  assumes b: "built lower keywords (length keywords) nodes edges paths"
    and low: "\<And>s. lower s = [] \<longleftrightarrow> s = []"
  shows "bfs_ok lower keywords nodes edges paths [0] (map kb_target (node_edges nodes edges 0))"
proof -
  from b have ok: "trie_ok nodes edges paths"
    and un: "list_all2 (unlinked lower keywords (length keywords)) paths nodes"
    by (auto simp: built_def)
  note facts = trie_okD [OF ok]
  let ?T = "kb_target ` set (node_edges nodes edges 0)"
  have s: "0 < length nodes" using facts(2) by simp
  have T: "?T = {t. t < length nodes \<and> t \<noteq> 0 \<and> butlast (paths ! t) = []}"
    using children_paths [OF ok s] facts(3) by simp
  have un: "unlinked lower keywords (length keywords) (paths ! u) (nodes ! u)" if "u < length nodes" for u
    using list_all2_nthD2 [OF un that] .
  have words: "is_word lower keywords w = ends_word lower keywords w" if w: "w = [] \<or> (\<exists>c. w = [c])" for w
  proof
    fix i
    have "suffix v w \<longleftrightarrow> v = w" if "v \<noteq> []" for v using w that by (auto simp: suffix_Cons)
    from this [of "lower (keywords ! i)"] low [of "keywords ! i"]
    show "is_word lower keywords w i = ends_word lower keywords w i"
      by (auto simp: is_word_def ends_word_def)
  qed
  have root: "linked lower keywords paths 0 (nodes ! 0)"
    using un [OF s] facts(3) words [of "[]"] by (simp add: linked_def unlinked_def)
  have child: "linked lower keywords paths u (nodes ! u)" if u: "u \<in> ?T" for u
  proof -
    from u have u': "u < length nodes" "u \<noteq> 0" "butlast (paths ! u) = []" unfolding T by auto
    then obtain c where c: "paths ! u = [c]"
      using trie_path_Nil [OF ok u'(1)] append_butlast_last_id [of "paths ! u"] by (metis append_Nil)
    have "fail_link paths u 0"
      using facts(1,2,3) c by (auto simp: fail_link_def strict_suffix_def suffix_Cons)
    then show ?thesis
      using un [OF u'(1)] c words [of "[c]"] by (simp add: linked_def unlinked_def)
  qed
  show ?thesis
    unfolding bfs_ok_def
  proof (intro conjI allI impI)
    show "distinct ([0] @ map kb_target (node_edges nodes edges 0))"
      using distinct_targets [OF ok s] T by auto
    show "set ([0] @ map kb_target (node_edges nodes edges 0)) \<subseteq> {..<length nodes}"
      using s T by auto
    have depth: "length (paths ! u) = 1" if "u \<in> ?T" for u
      using that trie_edge [OF ok s] facts(3) by auto
    then show "sorted (map (\<lambda>u. length (paths ! u)) (map kb_target (node_edges nodes edges 0)))"
      using sorted_const [of "node_edges nodes edges 0" "\<lambda>e. length (paths ! kb_target e)" 1]
      by (simp add: comp_def)
    show "\<forall>u\<in>set (map kb_target (node_edges nodes edges 0)).
        length (paths ! u) \<le> Suc (length (paths ! hd (map kb_target (node_edges nodes edges 0))))"
      using depth by auto
    fix u assume u: "u < length nodes"
    show "if u \<in> set ([0] @ map kb_target (node_edges nodes edges 0)) then linked lower keywords paths u (nodes ! u)
      else unlinked lower keywords (length keywords) (paths ! u) (nodes ! u)"
      using root child un [OF u] by auto
    assume "u \<noteq> 0"
    then show "u \<in> set ([0] @ map kb_target (node_edges nodes edges 0)) \<longleftrightarrow>
        (\<exists>s\<in>set [0]. butlast (paths ! u) = paths ! s)"
      using T u facts(3) by auto
  qed (use ok in auto)
qed

section \<open>Flattened edges\<close>

lemma insert_edge_set: "set (insert_edge x ys) = insert x (set ys)"
  by (induction ys) auto

lemma insert_edge_sorted:
  "sorted (rev (map (\<lambda>e. code (ke_label e)) ys)) \<Longrightarrow>
     sorted (rev (map (\<lambda>e. code (ke_label e)) (insert_edge x ys)))"
  by (induction ys) (auto simp: sorted_append insert_edge_set)

lemma sort_outgoing:
  "set (sort_outgoing es) = set es" "sorted (map (\<lambda>e. code (ke_label e)) (sort_outgoing es))"
proof -
  have "set (foldl (\<lambda>done e. insert_edge e done) acc es) = set acc \<union> set es \<and>
    (sorted (rev (map (\<lambda>e. code (ke_label e)) acc)) \<longrightarrow>
     sorted (rev (map (\<lambda>e. code (ke_label e)) (foldl (\<lambda>done e. insert_edge e done) acc es))))" for acc
    by (induction es arbitrary: acc) (auto simp: insert_edge_set insert_edge_sorted)
  from this [of "[]"] show "set (sort_outgoing es) = set es"
    "sorted (map (\<lambda>e. code (ke_label e)) (sort_outgoing es))"
    by (auto simp: sort_outgoing_def rev_map)
qed

definition slice :: "'a list \<Rightarrow> nat \<Rightarrow> nat \<Rightarrow> 'a list" where
  "slice xs start n = take n (drop start xs)"

lemma flatten_nodes:
  assumes "k \<le> length nodes"
  shows "\<exists>nodes' edges'. foldl (flatten_node build_edges) (nodes, []) [0..<k] = (nodes', edges') \<and>
    length nodes' = length nodes \<and>
    (\<forall>i<length nodes. kn_failure (nodes' ! i) = kn_failure (nodes ! i) \<and>
       kn_best_keyword (nodes' ! i) = kn_best_keyword (nodes ! i)) \<and>
    (\<forall>i<length nodes. k \<le> i \<longrightarrow> nodes' ! i = nodes ! i) \<and>
    (\<forall>i<k. kn_edge_start (nodes' ! i) + kn_edge_count (nodes' ! i) \<le> length edges' \<and>
       slice edges' (kn_edge_start (nodes' ! i)) (kn_edge_count (nodes' ! i)) =
         sort_outgoing (map outgoing_edge (node_edges nodes build_edges i)))"
  using assms
proof (induction k)
  case (Suc k)
  then obtain nodes1 edges1 where 1:
    "foldl (flatten_node build_edges) (nodes, []) [0..<k] = (nodes1, edges1)"
    "length nodes1 = length nodes"
    "\<forall>i<length nodes. kn_failure (nodes1 ! i) = kn_failure (nodes ! i) \<and>
       kn_best_keyword (nodes1 ! i) = kn_best_keyword (nodes ! i)"
    "\<forall>i<length nodes. k \<le> i \<longrightarrow> nodes1 ! i = nodes ! i"
    "\<forall>i<k. kn_edge_start (nodes1 ! i) + kn_edge_count (nodes1 ! i) \<le> length edges1 \<and>
       slice edges1 (kn_edge_start (nodes1 ! i)) (kn_edge_count (nodes1 ! i)) =
         sort_outgoing (map outgoing_edge (node_edges nodes build_edges i))"
    by auto
  have "node_edges nodes1 build_edges k = node_edges nodes build_edges k"
    by (rule node_edges_cong) (use 1(4) Suc.prems in simp)
  with 1 Suc.prems show ?case
    by (auto simp: flatten_node_def Let_def slice_def nth_list_update less_Suc_eq)
qed simp

lemma char_code_less: "code c < 256"
  by (metis of_char_mod_256 mod_less_divisor zero_less_numeral)

lemma root_table_nth:
  "distinct (map kb_label es) \<Longrightarrow>
     length (root_table es) = 256 \<and>
     (\<forall>c. root_table es ! code c = (case find (\<lambda>e. kb_label e = c) es of Some e \<Rightarrow> kb_target e | None \<Rightarrow> 0))"
proof (induction es rule: rev_induct)
  case Nil
  then show ?case using char_code_less by (auto simp: root_table_def)
next
  case (snoc e es)
  have "root_table (es @ [e]) = (root_table es)[code (kb_label e) := kb_target e]"
    by (simp add: root_table_def)
  moreover have "find (\<lambda>e'. kb_label e' = kb_label e) es = None"
    using snoc.prems unfolding find_None_iff by (metis distinct.simps(2) distinct_rev image_eqI map_append list.simps(8,9) rev.simps(2) rev_append rev_rev_ident set_map append_Nil rev.simps(1) append_Cons set_rev)
  ultimately show ?case
    using snoc char_code_less by (auto simp: find_append_cases nth_list_update split: option.splits)
qed

lemma lower_bound_spec:
  assumes "\<And>i j. l \<le> i \<Longrightarrow> i \<le> j \<Longrightarrow> j < r \<Longrightarrow> code (ke_label (edges ! i)) \<le> code (ke_label (edges ! j))"
    and "l \<le> r"
  shows "l \<le> lower_bound edges c l r \<and> lower_bound edges c l r \<le> r \<and>
    (\<forall>i. l \<le> i \<and> i < lower_bound edges c l r \<longrightarrow> code (ke_label (edges ! i)) < code c) \<and>
    (\<forall>i. lower_bound edges c l r \<le> i \<and> i < r \<longrightarrow> code c \<le> code (ke_label (edges ! i)))"
  using assms
proof (induction edges c l r rule: lower_bound.induct)
  case (1 edges c l r)
  let ?m = "l + (r - l) div 2"
  show ?case
  proof (cases "l < r")
    case True
    then have m: "l \<le> ?m" "?m < r" by auto
    show ?thesis
    proof (cases "code (ke_label (edges ! ?m)) < code c")
      case less: True
      have low: "code (ke_label (edges ! i)) < code c" if "l \<le> i" "i \<le> ?m" for i
        using 1(3) [OF that m(2)] less by simp
      from 1(1) [OF True refl less] 1(3) m(2) True less
      have IH: "?m + 1 \<le> lower_bound edges c (?m + 1) r" "lower_bound edges c (?m + 1) r \<le> r"
        "\<forall>i. ?m + 1 \<le> i \<and> i < lower_bound edges c (?m + 1) r \<longrightarrow> code (ke_label (edges ! i)) < code c"
        "\<forall>i. lower_bound edges c (?m + 1) r \<le> i \<and> i < r \<longrightarrow> code c \<le> code (ke_label (edges ! i))"
        by simp_all
      have "lower_bound edges c l r = lower_bound edges c (?m + 1) r"
        using True less by (subst lower_bound.simps) (simp add: Let_def)
      moreover have "code (ke_label (edges ! i)) < code c"
        if "l \<le> i" "i < lower_bound edges c (?m + 1) r" for i
        using that IH(3) low by (cases "i \<le> ?m") auto
      ultimately show ?thesis using IH m by auto
    next
      case geq: False
      have high: "code c \<le> code (ke_label (edges ! i))" if "?m \<le> i" "i < r" for i
        using 1(3) [OF m(1) that] geq by simp
      from 1(2) [OF True refl geq] 1(3) m True geq
      have IH: "l \<le> lower_bound edges c l ?m" "lower_bound edges c l ?m \<le> ?m"
        "\<forall>i. l \<le> i \<and> i < lower_bound edges c l ?m \<longrightarrow> code (ke_label (edges ! i)) < code c"
        "\<forall>i. lower_bound edges c l ?m \<le> i \<and> i < ?m \<longrightarrow> code c \<le> code (ke_label (edges ! i))"
        by simp_all
      have "lower_bound edges c l r = lower_bound edges c l ?m"
        using True geq by (subst lower_bound.simps) (simp add: Let_def)
      moreover have "code c \<le> code (ke_label (edges ! i))"
        if "lower_bound edges c l ?m \<le> i" "i < r" for i
        using that IH(4) high by (cases "?m \<le> i") auto
      ultimately show ?thesis using IH m by auto
    qed
  next
    case False
    with 1(4) show ?thesis by (auto simp: lower_bound.simps [of edges c r r])
  qed
qed


section \<open>The automaton\<close>

definition matcher_edge :: "kw_matcher \<Rightarrow> nat \<Rightarrow> char \<Rightarrow> nat option" where
  "matcher_edge m s c = (if next_state m s c = 0 then None else Some (next_state m s c))"

definition matcher_ok :: "(string \<Rightarrow> string) \<Rightarrow> string list \<Rightarrow> kw_matcher \<Rightarrow> string list \<Rightarrow> bool" where
  "matcher_ok lower keywords m paths \<longleftrightarrow>
     length (km_nodes m) = length paths \<and> paths \<noteq> [] \<and> paths ! 0 = [] \<and> km_keywords m = keywords \<and>
     (\<forall>w c. w @ [c] \<in> set paths \<longrightarrow> w \<in> set paths) \<and>
     (\<forall>s<length paths. length (paths ! s) \<le> length paths) \<and>
     words_in lower keywords (length keywords) paths \<and>
     (\<forall>s<length paths. \<forall>c t. matcher_edge m s c = Some t \<longleftrightarrow> t < length paths \<and> paths ! t = paths ! s @ [c]) \<and>
     (\<forall>s<length paths. linked lower keywords paths s (km_nodes m ! s))"

text \<open>Binary search in the slice of a node finds what the sibling list holds.\<close>

lemma slice_search:
  fixes c :: char
  assumes es: "slice edges start n = es" "start + n \<le> length edges"
    and sorted: "sorted (map (\<lambda>e. code (ke_label e)) es)"
  defines "k \<equiv> lower_bound edges c start (start + n)"
  shows "k < start + n \<and> ke_label (edges ! k) = c \<Longrightarrow> edges ! k \<in> set es"
    and "\<not> (k < start + n \<and> ke_label (edges ! k) = c) \<Longrightarrow> e \<in> set es \<Longrightarrow> ke_label e \<noteq> c"
proof -
  have len: "length es = n" using es by (auto simp: slice_def)
  have nth: "edges ! (start + i) = es ! i" if "i < n" for i
    using that es by (auto simp: slice_def)
  have in_es: "edges ! i = es ! (i - start)" "i - start < n" if "start \<le> i" "i < start + n" for i
    using nth [of "i - start"] that by auto
  have mono: "code (ke_label (edges ! i)) \<le> code (ke_label (edges ! j))"
    if "start \<le> i" "i \<le> j" "j < start + n" for i j
    using sorted_nth_mono [OF sorted, of "i - start" "j - start"] that in_es [of i] in_es [of j] len by simp
  note lb = lower_bound_spec [of start "start + n" edges c, OF mono]
  have lb: "start \<le> k" "k \<le> start + n" "\<And>i. start \<le> i \<Longrightarrow> i < k \<Longrightarrow> code (ke_label (edges ! i)) < code c"
    "\<And>i. k \<le> i \<Longrightarrow> i < start + n \<Longrightarrow> code c \<le> code (ke_label (edges ! i))"
    using lb by (auto simp: k_def)
  show "edges ! k \<in> set es" if "k < start + n \<and> ke_label (edges ! k) = c"
    using in_es [of k] lb(1) that len by simp
  show "ke_label e \<noteq> c" if miss: "\<not> (k < start + n \<and> ke_label (edges ! k) = c)" and e: "e \<in> set es"
  proof
    assume label: "ke_label e = c"
    obtain i where i: "i < n" "edges ! (start + i) = e"
      using e len nth by (auto simp: in_set_conv_nth)
    have "k \<le> start + i" using lb(3) [of "start + i"] i label by (auto simp flip: not_less)
    with mono [of k "start + i"] lb(1) lb(4) [of k] i label
    have "k < start + n" "code (ke_label (edges ! k)) = code c" by auto
    with miss show False by simp
  qed
qed

lemma new_matcher_ok:
  assumes low: "\<And>s. lower s = [] \<longleftrightarrow> s = []"
    and m: "new_keyword_matcher lower keywords = Some m"
  shows "\<exists>paths. matcher_ok lower keywords m paths"
proof -
  obtain nodes edges paths where built: "build_trie lower keywords = (nodes, edges)"
    "built lower keywords (length keywords) nodes edges paths"
    using build_trie_built by blast
  from built(2) have ok: "trie_ok nodes edges paths"
    and w: "words_in lower keywords (length keywords) paths" by (auto simp: built_def)
  note facts = trie_okD [OF ok]
  let ?queue = "map kb_target (node_edges nodes edges 0)"
  let ?linked = "link_nodes (length nodes) edges nodes ?queue"
  have start: "map kn_edge_start ?linked = map kn_edge_start nodes"
    "\<And>u. u < length nodes \<Longrightarrow> linked lower keywords paths u (?linked ! u)"
    using link_nodes_linked [OF w bfs_start [OF built(2) low], of "length nodes"] by simp_all
  have len: "length ?linked = length nodes" using start(1) by (rule map_eq_imp_length_eq)
  obtain nodes' edges' where flat:
    "foldl (flatten_node edges) (?linked, []) [0..<length nodes] = (nodes', edges')"
    "length nodes' = length nodes"
    "\<And>i. i < length nodes \<Longrightarrow> kn_failure (nodes' ! i) = kn_failure (?linked ! i) \<and>
       kn_best_keyword (nodes' ! i) = kn_best_keyword (?linked ! i)"
    "\<And>i. i < length nodes \<Longrightarrow> kn_edge_start (nodes' ! i) + kn_edge_count (nodes' ! i) \<le> length edges' \<and>
       slice edges' (kn_edge_start (nodes' ! i)) (kn_edge_count (nodes' ! i)) =
         sort_outgoing (map outgoing_edge (node_edges ?linked edges i))"
    using flatten_nodes [of "length nodes" ?linked edges] len by auto
  have m: "m = \<lparr>km_nodes = nodes', km_edges = edges',
      km_root_transitions = root_table (node_edges nodes edges 0), km_keywords = keywords\<rparr>"
    using m built(1) flat(1) by (auto simp: new_keyword_matcher_def Let_def split: if_splits)
  have edge: "matcher_edge m s c = build_transition nodes edges s c" if s: "s < length nodes" for s c
  proof (cases "s = 0")
    case True
    have "kb_target e \<noteq> 0" if "e \<in> set (node_edges nodes edges 0)" for e
      using trie_edge [OF ok _ that] facts(2,3) by (cases "kb_target e") auto
    with True root_table_nth [OF trie_labels [OF ok s]] s show ?thesis
      by (auto simp: matcher_edge_def next_state_def m build_transition_def split: option.splits dest!: find_SomeD)
  next
    case False
    let ?start = "kn_edge_start (nodes' ! s)" and ?n = "kn_edge_count (nodes' ! s)"
    let ?out = "sort_outgoing (map outgoing_edge (node_edges nodes edges s))"
    let ?k = "lower_bound edges' c ?start (?start + ?n)"
    have slice: "slice edges' ?start ?n = ?out" "?start + ?n \<le> length edges'"
      using flat(4) [OF s] same_edges [OF start(1), of s edges] len s by auto
    note search = slice_search [OF slice sort_outgoing(2), of c]
    have out: "e \<in> set ?out \<longleftrightarrow> (\<exists>b\<in>set (node_edges nodes edges s). ke_target e = kb_target b \<and> ke_label e = kb_label b)" for e
      unfolding sort_outgoing(1) by (cases e) (auto simp: outgoing_edge_def)
    show ?thesis
    proof (cases "?k < ?start + ?n \<and> ke_label (edges' ! ?k) = c")
      case True
      then obtain b where b: "b \<in> set (node_edges nodes edges s)" "ke_target (edges' ! ?k) = kb_target b" "kb_label b = c"
        using search(1) [OF True] out by auto
      from trie_edge [OF ok s b(1)] b(3) have t: "build_transition nodes edges s c = Some (kb_target b)"
        and "paths ! kb_target b \<noteq> paths ! 0"
        using build_transition_iff [OF ok s] facts(3) by auto
      then have "kb_target b \<noteq> 0" by metis
      with t True False s flat(2) b(2) show ?thesis by (simp add: matcher_edge_def next_state_def m Let_def)
    next
      case miss: False
      have "kb_label b \<noteq> c" if "b \<in> set (node_edges nodes edges s)" for b
        using search(2) [OF miss, of "outgoing_edge b"] out that by (auto simp: outgoing_edge_def)
      then have "build_transition nodes edges s c = None"
        by (auto simp: build_transition_def find_None_iff)
      with miss False s flat(2) show ?thesis by (auto simp: matcher_edge_def next_state_def m Let_def)
    qed
  qed
  have "linked lower keywords paths s (nodes' ! s)" if "s < length nodes" for s
    using start(2) [OF that] flat(3) [OF that] by (simp add: linked_def)
  then have "matcher_ok lower keywords m paths"
    unfolding matcher_ok_def
    using facts(1,2,3) w trie_closed [OF ok] path_length_bound [OF ok] edge build_transition_iff [OF ok] flat(2)
    by (auto simp: m less_imp_le)
  then show ?thesis by blast
qed


lemma follow_longest:
  assumes m: "matcher_ok lower keywords m paths" and s: "s < length paths"
  shows "follow_loop (length (km_nodes m)) m c s < length paths \<and>
    longest_path paths (paths ! s @ [c]) (paths ! follow_loop (length (km_nodes m)) m c s)"
proof -
  note parts = m [unfolded matcher_ok_def]
  let ?walk = "\<lambda>k c s. if follow_loop k m c s = 0 then None else Some (follow_loop k m c s)"
  have edge: "\<And>s c t. s < length paths \<Longrightarrow> matcher_edge m s c = Some t \<longleftrightarrow> t < length paths \<and> paths ! t = paths ! s @ [c]"
    using parts by blast
  have walk: "?walk k c s = (case matcher_edge m s c of Some t \<Rightarrow> Some t
      | None \<Rightarrow> if s = 0 then None else (case k of 0 \<Rightarrow> None | Suc k \<Rightarrow> ?walk k c (kn_failure (km_nodes m ! s))))" for k s
    by (subst (1 2) follow_loop.simps) (auto simp: matcher_edge_def split: nat.splits)
  have links: "fail_link paths s (kn_failure (km_nodes m ! s))" if "s < length paths" "s \<noteq> 0" for s
    using parts that unfolding linked_def by blast
  have size: "length (paths ! s) \<le> length paths" "length (km_nodes m) = length paths"
    "paths ! 0 = []" "paths \<noteq> []" using parts s by blast+
  have "longest_path paths (paths ! s @ [c])
      (case ?walk (length (km_nodes m)) c s of Some t \<Rightarrow> paths ! t | None \<Rightarrow> []) \<and>
    (\<forall>t. ?walk (length (km_nodes m)) c s = Some t \<longrightarrow> t < length paths)"
    by (rule walk_longest [where edge_to = "matcher_edge m" and d = "length paths" and
          fail = "\<lambda>s. kn_failure (km_nodes m ! s)"])
      (use parts edge walk links size s in \<open>auto\<close>)
  with size show ?thesis by (auto split: if_splits)
qed

lemma longest_path_snoc:
  assumes closed: "\<forall>w c. w @ [c] \<in> set paths \<longrightarrow> w \<in> set paths"
    and q: "longest_path paths w q" and q': "longest_path paths (q @ [c]) q'"
  shows "longest_path paths (w @ [c]) q'"
proof -
  have "suffix r q'" if r: "r \<in> set paths" "suffix r (w @ [c])" for r
  proof (cases r rule: rev_cases)
    case (snoc r' d)
    then have "r' \<in> set paths" "suffix r' w" "d = c" using r closed by (auto simp: suffix_snoc)
    with snoc r q q' show ?thesis by (auto simp: longest_path_def suffix_snoc)
  qed simp
  moreover have "suffix q' (w @ [c])"
    using q q' by (force simp: longest_path_def suffix_snoc intro: suffix_order.trans)
  ultimately show ?thesis using q' by (auto simp: longest_path_def)
qed

definition occurs :: "(string \<Rightarrow> string) \<Rightarrow> string list \<Rightarrow> string \<Rightarrow> nat \<Rightarrow> bool" where
  "occurs lower keywords w i \<longleftrightarrow> keywords ! i \<noteq> [] \<and> sublist (lower (keywords ! i)) w"

lemma sublist_snoc_iff: "sublist v (w @ [c]) \<longleftrightarrow> sublist v w \<or> suffix v (w @ [c])"
proof
  assume "sublist v (w @ [c])"
  then obtain ps ss where eq: "w @ [c] = ps @ v @ ss" by (auto simp: sublist_def)
  then show "sublist v w \<or> suffix v (w @ [c])"
    by (cases ss rule: rev_cases) (auto simp: sublist_def suffix_def simp flip: append_assoc)
next
  assume "sublist v w \<or> suffix v (w @ [c])"
  then show "sublist v (w @ [c])" by (auto intro: sublist_append_rightI sublist_order.order_trans)
qed

lemma best_after:
  assumes m: "matcher_ok lower keywords m paths" and s: "s < length paths"
    and q: "longest_path paths (w @ [c]) (paths ! s)"
  shows "min_keyword_index (find (occurs lower keywords w) [0..<length keywords]) (kn_best_keyword (km_nodes m ! s)) =
    find (occurs lower keywords (w @ [c])) [0..<length keywords]"
proof -
  note parts = m [unfolded matcher_ok_def]
  have linked: "linked lower keywords paths s (km_nodes m ! s)" using parts s by blast
  have "ends_word lower keywords (paths ! s) i \<longleftrightarrow> keywords ! i \<noteq> [] \<and> suffix (lower (keywords ! i)) (w @ [c])"
    if "i < length keywords" for i
  proof -
    have "lower (keywords ! i) \<in> set paths" if "keywords ! i \<noteq> []"
      using parts that \<open>i < length keywords\<close> by (simp add: words_in_def)
    with q show ?thesis
      unfolding ends_word_def longest_path_def using suffix_order.trans by blast
  qed
  then show ?thesis
    using linked by (simp add: linked_def min_keyword_index_find)
      (rule find_upt_cong, auto simp: occurs_def sublist_snoc_iff)
qed

lemma find_first: "0 < n \<Longrightarrow> P 0 \<Longrightarrow> find P [0..<n] = Some 0"
  by (simp add: upt_conv_Cons)

lemma match_loop_finds:
  assumes m: "matcher_ok lower keywords m paths"
  shows "s < length paths \<Longrightarrow> longest_path paths w (paths ! s) \<Longrightarrow>
    best = find (occurs lower keywords w) [0..<length keywords] \<Longrightarrow>
    match_loop m s best cs =
      map_option ((!) keywords) (find (occurs lower keywords (w @ cs)) [0..<length keywords])"
proof (induction cs arbitrary: s w best)
  case Nil
  have "km_keywords m = keywords" using m by (simp add: matcher_ok_def)
  with Nil show ?case by (auto split: option.splits dest: find_upt_less)
next
  case (Cons c cs)
  let ?s = "follow_loop (length (km_nodes m)) m c s"
  let ?best = "min_keyword_index best (kn_best_keyword (km_nodes m ! ?s))"
  have closed: "\<forall>w c. w @ [c] \<in> set paths \<longrightarrow> w \<in> set paths" and kw: "km_keywords m = keywords"
    using m by (auto simp: matcher_ok_def)
  note step = follow_longest [OF m Cons.prems(1), of c]
  have q: "longest_path paths (w @ [c]) (paths ! ?s)"
    using longest_path_snoc [OF closed Cons.prems(2)] step by blast
  have best: "?best = find (occurs lower keywords (w @ [c])) [0..<length keywords]"
    using best_after [OF m _ q] step Cons.prems(3) by simp
  show ?case
  proof (cases "?best = Some 0")
    case True
    have more: "sublist (w @ [c]) (w @ c # cs)"
      unfolding sublist_def by (intro exI [of _ "[]"] exI [of _ cs]) simp
    from True have "0 < length keywords" "occurs lower keywords (w @ [c]) 0"
      using best by (auto dest: find_SomeD)
    then have "find (occurs lower keywords (w @ c # cs)) [0..<length keywords] = Some 0"
      using more by (intro find_first) (auto simp: occurs_def intro: sublist_order.order_trans)
    with True kw show ?thesis by (simp add: Let_def)
  next
    case False
    with Cons.IH [of ?s "w @ [c]" ?best] step q best show ?thesis by (simp add: Let_def)
  qed
qed

lemma find_nth: "map_option ((!) xs) (find (\<lambda>i. P (xs ! i)) [0..<length xs]) = find P xs"
proof (induction xs rule: rev_induct)
  case (snoc x xs)
  have "find (\<lambda>i. P ((xs @ [x]) ! i)) [0..<length xs] = find (\<lambda>i. P (xs ! i)) [0..<length xs]"
    by (rule find_upt_cong) (simp add: nth_append)
  then have old: "find (\<lambda>i. P ((xs @ [x]) ! i)) [0..<length (xs @ [x])] =
      (case find (\<lambda>i. P (xs ! i)) [0..<length xs] of Some i \<Rightarrow> Some i
       | None \<Rightarrow> if P x then Some (length xs) else None)"
    by (simp add: find_append_cases split: option.splits)
  show ?case
    unfolding old using snoc find_upt_less [of "\<lambda>i. P (xs ! i)" "length xs"]
    by (cases "find (\<lambda>i. P (xs ! i)) [0..<length xs]"; cases "find P xs") (auto simp: find_append_cases nth_append split: option.splits)
qed simp

text \<open>
  C5: The automaton returns the first keyword, in the order of the configuration, that occurs in
  the text when both are lowered, and reports no match exactly when none occurs. The hypothesis
  is that \<open>strings.ToLower\<close> maps only the empty string to the empty string.
\<close>

theorem keyword_match_finds_first:
  assumes "\<And>s. lower s = [] \<longleftrightarrow> s = []"
  shows "keyword_match lower (new_keyword_matcher lower keywords) txt =
    find (\<lambda>k. k \<noteq> [] \<and> sublist (lower k) (lower txt)) keywords"
proof (cases "new_keyword_matcher lower keywords")
  case None
  then consider "keywords = []" | "keywords \<noteq> []" "length (fst (build_trie lower keywords)) = 1"
    by (auto simp: new_keyword_matcher_def Let_def split: prod.splits if_splits)
  then have "find (\<lambda>k. k \<noteq> [] \<and> sublist (lower k) (lower txt)) keywords = None"
  proof cases
    case 2
    obtain nodes edges paths where b: "build_trie lower keywords = (nodes, edges)"
      "built lower keywords (length keywords) nodes edges paths" using build_trie_built by blast
    with 2 trie_okD(1,3) [of nodes edges paths] have "set paths = {[]}"
      by (cases paths) (auto simp: built_def)
    with b(2) assms have "\<forall>i<length keywords. keywords ! i = []" by (auto simp: built_def words_in_def)
    then show ?thesis by (auto simp: find_None_iff in_set_conv_nth)
  qed simp
  with None show ?thesis by (simp add: keyword_match_def)
next
  case (Some m)
  from new_matcher_ok [OF assms Some] obtain paths where m: "matcher_ok lower keywords m paths" by blast
  then have root: "0 < length paths" "paths ! 0 = []" "km_keywords m = keywords" "km_nodes m \<noteq> []"
    by (auto simp: matcher_ok_def)
  have start: "longest_path paths [] (paths ! 0)"
    using root(1,2) nth_mem [OF root(1)] by (simp add: longest_path_def)
  have none: "find (occurs lower keywords []) [0..<length keywords] = None"
    using assms by (auto simp: find_None_iff occurs_def)
  have ne: "keywords \<noteq> []" using Some by (auto simp: new_keyword_matcher_def)
  have found: "match_loop m 0 None (lower txt) = find (\<lambda>k. k \<noteq> [] \<and> sublist (lower k) (lower txt)) keywords"
    using match_loop_finds [OF m root(1) start none [symmetric], of "lower txt"]
      find_nth [of "keywords" "\<lambda>k. k \<noteq> [] \<and> sublist (lower k) (lower txt)"]
    by (simp add: occurs_def [abs_def])
  show ?thesis
  proof (cases "txt = []")
    case True
    have "lower [] = []" using assms by blast
    then have "\<not> (k \<noteq> [] \<and> sublist (lower k) (lower txt))" for k
      using assms [of k] True by simp
    then have "find (\<lambda>k. k \<noteq> [] \<and> sublist (lower k) (lower txt)) keywords = None"
      unfolding find_None_iff by blast
    then show ?thesis unfolding keyword_match_def Some True by simp
  next
    case False
    have "keyword_match lower (Some m) txt = match_loop m 0 None (lower txt)"
      using False root(3,4) ne by (simp add: keyword_match_def)
    then show ?thesis unfolding Some found .
  qed
qed

lemma ascii_lower_Nil: "ascii_lower s = [] \<longleftrightarrow> s = []"
  by (simp add: ascii_lower_def)

text \<open>
  Of two keywords that occur in the text the first of the list is reported.
\<close>

lemma keyword_match_finds_first_witness:
  "keyword_match ascii_lower
     (new_keyword_matcher ascii_lower [''hers'', ''His'', ''she'', [], ''he'']) ''usHErx'' = Some ''she''"
  unfolding keyword_match_finds_first [of ascii_lower, OF ascii_lower_Nil] by code_simp

end
