(* ===== verification/PaymentStore.thy ===== *)
theory PaymentStore
  imports Prelude
begin

text \<open>
  What the payment services keep in the database: orders, redeem codes, balances, subscriptions
  and the audit log (ent/schema/payment_order.go, redeem_code.go, payment_audit_log.go), and the
  statements the services run on them, each atomic (the repositories user_repo.go and
  redeem_code_repo.go, the queries of service/payment_fulfillment.go). An amount is a number of
  units of 10^-8, the scale of the decimal columns; the rounding of float64 in between is not
  modelled. Money moved is also recorded in the ledgers \<open>db_credits\<close>, \<open>db_rebates\<close> and
  \<open>db_refunds\<close> (what a refund took back, by order), which no statement reads.
\<close>

section \<open>Rows\<close>

type_synonym amount = int

datatype order_status =
    Status_pending | Status_paid | Status_recharging | Status_completed | Status_expired
  | Status_cancelled | Status_failed | Status_refund_requested | Status_refunding
  | Status_refund_pending | Status_partially_refunded | Status_refunded | Status_refund_failed

datatype order_type = Balance_order | Subscription_order

record pay_order =
  po_id :: int
  po_user_id :: int
  po_amount :: amount
  po_pay_amount :: amount
  po_recharge_code :: string
  po_out_trade_no :: string
  po_payment_trade_no :: string
  po_order_type :: order_type
  po_status :: order_status
  po_updated_at :: instant
  po_paid_at :: "instant option"
  po_completed_at :: "instant option"
  po_failed_at :: "instant option"
  po_plan_id :: "int option"
  po_subscription_days :: "int option"
  po_refund_amount :: amount
  po_refund_reason :: "string option"
  po_refund_at :: "instant option"
  po_force_refund :: bool
  po_refund_request_reason :: "string option"

datatype code_type = Balance_code | Concurrency_code | Subscription_code | Invitation_code | Other_code string

datatype code_status = Code_unused | Code_used | Code_expired | Code_disabled

record redeem_code =
  rc_code :: string
  rc_type :: code_type
  rc_value :: amount
  rc_status :: code_status
  rc_used_by :: "int option"
  rc_expires_at :: "instant option"
  rc_validity_days :: int

record wallet =
  wa_id :: int
  wa_user_id :: int
  wa_order_note :: "int option"
  wa_days :: int
  wa_limit :: "amount option"
  wa_expires_at :: instant
  wa_expired_status :: bool
  wa_deleted :: bool

text \<open>The detail of an audit row as far as the code reads it back.\<close>

record audit_detail =
  ad_refund_id :: string
  ad_rollback_ok :: "bool option"

definition no_detail :: audit_detail where
  "no_detail = \<lparr>ad_refund_id = [], ad_rollback_ok = None\<rparr>"

record audit_row =
  au_order :: int
  au_action :: string
  au_detail :: audit_detail

text \<open>\<open>db_trade_index\<close> lists the orders with an external order number, which never changes.\<close>

record pay_db =
  db_orders :: "int \<Rightarrow> pay_order option"
  db_trade_index :: "string \<Rightarrow> int list"
  db_codes :: "string \<Rightarrow> redeem_code option"
  db_balances :: "int \<Rightarrow> amount option"
  db_concurrency :: "int \<Rightarrow> int"
  db_wallets :: "wallet list"
  db_audits :: "audit_row list"
  db_credits :: "(string \<times> int \<times> amount) list"
  db_rebates :: "(int \<times> amount) list"
  db_refunds :: "(int \<times> amount) list"

section \<open>Orders\<close>

definition is_refund_status :: "order_status \<Rightarrow> bool" where
  "is_refund_status st \<longleftrightarrow>
     st \<in> {Status_refund_requested, Status_refunding, Status_refund_pending,
           Status_partially_refunded, Status_refunded, Status_refund_failed}"

text \<open>
  An update of one order under a condition; the result says whether a row matched. A statement
  that does not set \<open>updated_at\<close> stamps it with the current time.
\<close>

definition update_order_at ::
    "int \<Rightarrow> (pay_order \<Rightarrow> bool) \<Rightarrow> (pay_order \<Rightarrow> pay_order) \<Rightarrow> pay_db \<Rightarrow> bool \<times> pay_db" where
  "update_order_at oid cond f db =
     (case db_orders db oid of
        None \<Rightarrow> (False, db)
      | Some ord \<Rightarrow>
          if cond ord then (True, db\<lparr>db_orders := (db_orders db)(oid \<mapsto> f ord)\<rparr>) else (False, db))"

definition update_order ::
    "instant \<Rightarrow> int \<Rightarrow> (pay_order \<Rightarrow> bool) \<Rightarrow> (pay_order \<Rightarrow> pay_order) \<Rightarrow> pay_db \<Rightarrow> bool \<times> pay_db" where
  "update_order now oid cond f = update_order_at oid cond (\<lambda>ord. (f ord)\<lparr>po_updated_at := now\<rparr>)"

section \<open>Audit log\<close>

text \<open>
  The rows are unique per order and action (migrations/131_affiliate_rebate_hardening.sql), so an
  insert of an action the order already has fails.
\<close>

definition has_audit :: "int \<Rightarrow> string \<Rightarrow> pay_db \<Rightarrow> bool" where
  "has_audit oid action db \<longleftrightarrow> (\<exists>r\<in>set (db_audits db). au_order r = oid \<and> au_action r = action)"

definition insert_audit :: "int \<Rightarrow> string \<Rightarrow> audit_detail \<Rightarrow> pay_db \<Rightarrow> pay_db option" where
  "insert_audit oid action detail db =
     (if has_audit oid action db then None
      else Some (db\<lparr>db_audits := db_audits db @ [\<lparr>au_order = oid, au_action = action, au_detail = detail\<rparr>]\<rparr>))"

text \<open>\<open>writeAuditLog\<close> only logs a failing insert.\<close>

definition write_audit_detail :: "int \<Rightarrow> string \<Rightarrow> audit_detail \<Rightarrow> pay_db \<Rightarrow> pay_db" where
  "write_audit_detail oid action detail db =
     (case insert_audit oid action detail db of None \<Rightarrow> db | Some db' \<Rightarrow> db')"

definition write_audit :: "int \<Rightarrow> string \<Rightarrow> pay_db \<Rightarrow> pay_db" where
  "write_audit oid action = write_audit_detail oid action no_detail"

section \<open>Redeem codes and balances\<close>

definition code_is_expired :: "instant \<Rightarrow> redeem_code \<Rightarrow> bool" where
  "code_is_expired now c \<longleftrightarrow>
     rc_status c = Code_expired \<or>
     rc_status c = Code_unused \<and> (case rc_expires_at c of None \<Rightarrow> False | Some t \<Rightarrow> \<not> now < t)"

definition code_can_use :: "instant \<Rightarrow> redeem_code \<Rightarrow> bool" where
  "code_can_use now c \<longleftrightarrow> rc_status c = Code_unused \<and> \<not> code_is_expired now c"

definition create_code :: "redeem_code \<Rightarrow> pay_db \<Rightarrow> pay_db option" where
  "create_code c db =
     (if db_codes db (rc_code c) = None then Some (db\<lparr>db_codes := (db_codes db)(rc_code c \<mapsto> c)\<rparr>)
      else None)"

definition use_code :: "string \<Rightarrow> int \<Rightarrow> pay_db \<Rightarrow> pay_db option" where
  "use_code code_text uid db =
     (case db_codes db code_text of
        None \<Rightarrow> None
      | Some c \<Rightarrow>
          if rc_status c = Code_unused
          then Some (db\<lparr>db_codes := (db_codes db)(code_text \<mapsto> c\<lparr>rc_status := Code_used, rc_used_by := Some uid\<rparr>)\<rparr>)
          else None)"

definition update_balance :: "int \<Rightarrow> amount \<Rightarrow> pay_db \<Rightarrow> pay_db option" where
  "update_balance uid delta db =
     (case db_balances db uid of
        None \<Rightarrow> None
      | Some b \<Rightarrow> Some (db\<lparr>db_balances := (db_balances db)(uid \<mapsto> b + delta)\<rparr>))"

definition apply_redeem_balance_adjustment :: "int \<Rightarrow> amount \<Rightarrow> pay_db \<Rightarrow> pay_db option" where
  "apply_redeem_balance_adjustment uid delta db =
     (case db_balances db uid of
        None \<Rightarrow> None
      | Some b \<Rightarrow> Some (db\<lparr>db_balances := (db_balances db)(uid \<mapsto> max (b + delta) 0)\<rparr>))"

definition deduct_available_balance :: "int \<Rightarrow> amount \<Rightarrow> pay_db \<Rightarrow> (amount \<times> pay_db) option" where
  "deduct_available_balance uid want db =
     (if want < 0 then None
      else case db_balances db uid of
        None \<Rightarrow> None
      | Some b \<Rightarrow>
          let taken = min want (max b 0)
          in Some (taken, db\<lparr>db_balances := (db_balances db)(uid \<mapsto> b - taken)\<rparr>))"

section \<open>Subscriptions\<close>

text \<open>A day of \<open>AddDate\<close> is 24 hours, as in UTC; \<open>MaxExpiresAt\<close> is the last second of 2099.\<close>

definition max_validity_days :: int where "max_validity_days = 36500"
definition max_expires_at :: instant where "max_expires_at = 66238041599000000000"
definition add_days :: "instant \<Rightarrow> int \<Rightarrow> instant" where "add_days t n = t + n * 24 * hour"

definition normalize_assign_validity_days :: "int \<Rightarrow> int" where
  "normalize_assign_validity_days days = min max_validity_days (if days \<le> 0 then 30 else days)"

definition normalize_sub_limit :: "amount option \<Rightarrow> amount option" where
  "normalize_sub_limit limit = (case limit of None \<Rightarrow> None | Some x \<Rightarrow> if x \<le> 0 then None else Some x)"

definition find_wallet :: "int \<Rightarrow> pay_db \<Rightarrow> wallet option" where
  "find_wallet sid db = find (\<lambda>w. wa_id w = sid \<and> \<not> wa_deleted w) (db_wallets db)"

definition update_wallet :: "int \<Rightarrow> (wallet \<Rightarrow> wallet) \<Rightarrow> pay_db \<Rightarrow> pay_db" where
  "update_wallet sid f db =
     db\<lparr>db_wallets := map (\<lambda>w. if wa_id w = sid \<and> \<not> wa_deleted w then f w else w) (db_wallets db)\<rparr>"

datatype extend_error = Subscription_not_found | Cannot_shorten_expired | Adjust_would_expire

text \<open>The transaction of \<open>ExtendSubscription\<close>, with its row lock.\<close>

definition extend_subscription :: "instant \<Rightarrow> int \<Rightarrow> int \<Rightarrow> pay_db \<Rightarrow> extend_error + pay_db" where
  "extend_subscription now sid days db =
     (case find_wallet sid db of
        None \<Rightarrow> Inl Subscription_not_found
      | Some w \<Rightarrow>
          let n = max (- max_validity_days) (min max_validity_days days);
              expired = (\<not> now < wa_expires_at w);
              until = min max_expires_at (add_days (if expired then now else wa_expires_at w) n)
          in if expired \<and> n < 0 then Inl Cannot_shorten_expired
             else if \<not> now < until then Inl Adjust_would_expire
             else Inr (update_wallet sid (\<lambda>w. w\<lparr>wa_expires_at := until, wa_expired_status := False\<rparr>) db))"

definition revoke_subscription :: "int \<Rightarrow> pay_db \<Rightarrow> pay_db option" where
  "revoke_subscription sid db =
     (case find_wallet sid db of
        None \<Rightarrow> None
      | Some w \<Rightarrow> Some (update_wallet sid (\<lambda>w. w\<lparr>wa_deleted := True\<rparr>) db))"

section \<open>Redeeming a code\<close>

definition balance_of :: "int \<Rightarrow> pay_db \<Rightarrow> amount" where
  "balance_of uid db = (case db_balances db uid of None \<Rightarrow> 0 | Some b \<Rightarrow> b)"

text \<open>
  The transaction of \<open>RedeemService.redeem\<close>: mark the code, then grant what it is worth; \<open>None\<close>
  is a rolled back transaction. \<open>AssignOrExtendSubscription\<close> and its reverse are the argument
  \<open>grant\<close>.
\<close>

definition redeem_tx ::
    "(int \<Rightarrow> redeem_code \<Rightarrow> pay_db \<Rightarrow> pay_db option) \<Rightarrow> int \<Rightarrow> redeem_code \<Rightarrow> pay_db \<Rightarrow> pay_db option" where
  "redeem_tx grant uid c db =
     (case use_code (rc_code c) uid db of
        None \<Rightarrow> None
      | Some db1 \<Rightarrow>
          (case rc_type c of
             Balance_code \<Rightarrow>
               (case (if rc_value c < 0 then apply_redeem_balance_adjustment uid (rc_value c) db1
                      else update_balance uid (rc_value c) db1) of
                  None \<Rightarrow> None
                | Some db2 \<Rightarrow> Some (db2\<lparr>db_credits := db_credits db2 @
                    [(rc_code c, uid, balance_of uid db2 - balance_of uid db1)]\<rparr>))
           | Concurrency_code \<Rightarrow>
               Some (db1\<lparr>db_concurrency := (db_concurrency db1)(uid :=
                 (let n = db_concurrency db1 uid + quot (rc_value c) (10 ^ 8)
                  in if quot (rc_value c) (10 ^ 8) < 0 then max n 0 else n))\<rparr>)
           | Subscription_code \<Rightarrow> grant uid c db1
           | _ \<Rightarrow> None))"

end
