(* ===== verification/PaymentCurrency.thy ===== *)
theory PaymentCurrency
  imports PaymentStore
begin

text \<open>
  Amounts and currencies of payment/currency.go and service/payment_amounts.go. A decimal of the
  decimal library is a pair of a mantissa and a number of digits after the point; the reading of
  its textual form is the argument \<open>parse\<close>. An \<open>amount\<close> has eight digits after the point.
\<close>

section \<open>Currencies\<close>

record currency_unit =
  cu_api_minor_unit :: nat
  cu_max_fraction_digits :: nat

definition zero_decimal_unit :: currency_unit where
  "zero_decimal_unit = \<lparr>cu_api_minor_unit = 0, cu_max_fraction_digits = 0\<rparr>"

definition two_decimal_unit :: currency_unit where
  "two_decimal_unit = \<lparr>cu_api_minor_unit = 2, cu_max_fraction_digits = 2\<rparr>"

definition three_decimal_unit :: currency_unit where
  "three_decimal_unit = \<lparr>cu_api_minor_unit = 3, cu_max_fraction_digits = 3\<rparr>"

definition stripe_legacy_unit :: currency_unit where
  "stripe_legacy_unit = \<lparr>cu_api_minor_unit = 2, cu_max_fraction_digits = 0\<rparr>"

definition payment_currency_units :: "(string \<times> currency_unit) list" where
  "payment_currency_units =
     map (\<lambda>c. (c, zero_decimal_unit))
       [''BIF'', ''CLP'', ''DJF'', ''GNF'', ''JPY'', ''KMF'', ''KRW'', ''MGA'', ''PYG'', ''RWF'', ''VND'',
        ''VUV'', ''XAF'', ''XOF'', ''XPF''] @
     map (\<lambda>c. (c, stripe_legacy_unit)) [''ISK'', ''UGX''] @
     map (\<lambda>c. (c, three_decimal_unit)) [''BHD'', ''IQD'', ''JOD'', ''KWD'', ''LYD'', ''OMR'', ''TND'']"

datatype currency_error = Currency_not_three_letters | Invalid_amount_text | Not_whole_number | Too_many_decimals

text \<open>
  \<open>strings.ToUpper\<close> as far as it can yield letters of ASCII: besides their small letters, the dotless i
  (C4 B1) and the long s (C5 BF) have capitals in ASCII. Other text keeps bytes that are no capitals and
  is refused with or without its change of case.
\<close>

definition ascii_upper_char :: "char \<Rightarrow> char" where
  "ascii_upper_char c = (if 97 \<le> code c \<and> code c \<le> 122 then byte (code c - 32) else c)"

fun currency_upper :: "string \<Rightarrow> string" where
  "currency_upper (c # d # cs) =
     (if code c = 196 \<and> code d = 177 then CHR ''I'' # currency_upper cs
      else if code c = 197 \<and> code d = 191 then CHR ''S'' # currency_upper cs
      else ascii_upper_char c # currency_upper (d # cs))"
| "currency_upper cs = map ascii_upper_char cs"

definition normalize_payment_currency :: "string \<Rightarrow> currency_error + string" where
  "normalize_payment_currency raw =
     (let currency = currency_upper (trim_space raw)
      in if currency = [] then Inr ''CNY''
         else if length currency \<noteq> 3 then Inl Currency_not_three_letters
         else if list_all (\<lambda>c. 65 \<le> code c \<and> code c \<le> 90) currency then Inr currency
         else Inl Currency_not_three_letters)"

definition payment_currency_unit_for :: "string \<Rightarrow> currency_unit" where
  "payment_currency_unit_for currency =
     (case normalize_payment_currency currency of
        Inl e \<Rightarrow> two_decimal_unit
      | Inr c \<Rightarrow> (case map_of payment_currency_units c of Some u \<Rightarrow> u | None \<Rightarrow> two_decimal_unit))"

definition currency_minor_unit :: "string \<Rightarrow> nat" where
  "currency_minor_unit c = cu_api_minor_unit (payment_currency_unit_for c)"

definition currency_max_fraction_digits :: "string \<Rightarrow> nat" where
  "currency_max_fraction_digits c = cu_max_fraction_digits (payment_currency_unit_for c)"

section \<open>Minor units\<close>

text \<open>\<open>IntPart\<close> keeps the low 64 bits of a whole part that does not fit.\<close>

type_synonym dec = "int \<times> nat"

definition int_part :: "dec \<Rightarrow> int" where
  "int_part d = sint (word_of_int (quot (fst d) (10 ^ snd d)) :: 64 word)"

definition dec_shift :: "dec \<Rightarrow> nat \<Rightarrow> dec" where
  "dec_shift d n = (fst d * 10 ^ n, snd d)"

definition dec_whole :: "dec \<Rightarrow> bool" where
  "dec_whole d \<longleftrightarrow> fst d mod 10 ^ snd d = 0"

definition amount_to_minor_unit :: "(string \<Rightarrow> dec option) \<Rightarrow> string \<Rightarrow> string \<Rightarrow> currency_error + int" where
  "amount_to_minor_unit parse amount_text currency =
     (case parse (trim_space amount_text) of
        None \<Rightarrow> Inl Invalid_amount_text
      | Some d \<Rightarrow>
          (case normalize_payment_currency currency of
             Inl e \<Rightarrow> Inl e
           | Inr c \<Rightarrow>
               let u = payment_currency_unit_for c
               in if \<not> dec_whole (dec_shift d (cu_max_fraction_digits u))
                  then Inl (if cu_max_fraction_digits u = 0 then Not_whole_number else Too_many_decimals)
                  else Inr (int_part (dec_shift d (cu_api_minor_unit u)))))"

definition minor_unit_to_amount :: "int \<Rightarrow> string \<Rightarrow> dec" where
  "minor_unit_to_amount v currency = (v, currency_minor_unit currency)"

definition dec_eq :: "dec \<Rightarrow> dec \<Rightarrow> bool" where
  "dec_eq a b \<longleftrightarrow> fst a * 10 ^ snd b = fst b * 10 ^ snd a"

section \<open>Refund amounts\<close>

text \<open>
  0.01, or half a minor unit of a currency with more decimals. Rounding is half away from zero (the
  amounts are not negative); a division keeps sixteen digits before the final rounding.
\<close>

definition amount_tolerance :: "nat \<Rightarrow> amount" where
  "amount_tolerance minor_unit = (if minor_unit \<le> 2 then 10 ^ 6 else 10 ^ (8 - minor_unit) div 2)"

definition div_round :: "int \<Rightarrow> int \<Rightarrow> int" where
  "div_round a b = (2 * a + b) div (2 * b)"

definition round_amount :: "nat \<Rightarrow> amount \<Rightarrow> amount" where
  "round_amount digits x = div_round x (10 ^ (8 - digits)) * 10 ^ (8 - digits)"

definition calculate_gateway_refund_amount :: "amount \<Rightarrow> amount \<Rightarrow> amount \<Rightarrow> string \<Rightarrow> amount" where
  "calculate_gateway_refund_amount order_amount pay_amount refund_amount currency =
     (let digits = currency_max_fraction_digits currency
      in if order_amount \<le> 0 \<or> pay_amount \<le> 0 \<or> refund_amount \<le> 0 then 0
         else if \<bar>refund_amount - order_amount\<bar> \<le> amount_tolerance (currency_minor_unit currency)
         then round_amount digits pay_amount
         else div_round (div_round (pay_amount * refund_amount * 10 ^ 8) order_amount) (10 ^ (16 - digits)) *
                10 ^ (8 - digits))"


section \<open>Lemmas\<close>

lemma capitals_trimmed:
  assumes "list_all (\<lambda>c. 65 \<le> code c \<and> code c \<le> 90) s"
  shows "trim_space s = s"
proof (cases "s = []")
  case True then show ?thesis by (simp add: trim_space_def strip_left.simps strip_one_def utf8_spaces_code)
next
  case False
  then obtain x xs y ys where s: "s = x # xs" "rev s = y # ys"
    by (meson list.exhaust rev_is_Nil_conv)
  then have "x \<in> set s" "y \<in> set s" by (simp, metis list.set_intros(1) set_rev)
  with assms have c: "65 \<le> code x \<and> code x \<le> 90" "65 \<le> code y \<and> code y \<le> 90"
    by (simp_all add: list_all_iff)
  have "strip_left utf8_spaces s = s"
    by (rule strip_left_id) (use s(1) c(1) in \<open>auto simp: utf8_spaces_code\<close>)
  moreover have "strip_left (map rev utf8_spaces) (rev s) = rev s"
    by (rule strip_left_id) (use s(2) c(2) in \<open>auto simp: utf8_spaces_code\<close>)
  ultimately show ?thesis by (simp add: trim_space_def)
qed

lemma capitals_upper: "list_all (\<lambda>c. 65 \<le> code c \<and> code c \<le> 90) s \<Longrightarrow> currency_upper s = s"
  by (induction s rule: currency_upper.induct) (auto simp: ascii_upper_char_def)

lemma normalize_idem:
  assumes "normalize_payment_currency raw = Inr c"
  shows "normalize_payment_currency c = Inr c"
proof -
  have "c = ''CNY'' \<or> length c = 3 \<and> list_all (\<lambda>c. 65 \<le> code c \<and> code c \<le> 90) c"
    using assms by (auto simp: normalize_payment_currency_def Let_def split: if_splits)
  then have c: "length c = 3" "list_all (\<lambda>c. 65 \<le> code c \<and> code c \<le> 90) c" by auto
  then show ?thesis
    by (auto simp: normalize_payment_currency_def capitals_trimmed capitals_upper)
qed

lemma unit_for_normalized:
  "normalize_payment_currency raw = Inr c \<Longrightarrow> payment_currency_unit_for c = payment_currency_unit_for raw"
  by (simp add: payment_currency_unit_for_def normalize_idem)

lemma unit_cases:
  "payment_currency_unit_for c \<in> {zero_decimal_unit, two_decimal_unit, three_decimal_unit, stripe_legacy_unit}"
proof -
  have "snd ` set payment_currency_units \<subseteq> {zero_decimal_unit, three_decimal_unit, stripe_legacy_unit}"
    by (simp add: payment_currency_units_def)
  then show ?thesis
    by (auto simp: payment_currency_unit_for_def split: sum.split option.split dest!: map_of_SomeD)
qed

lemma unit_digits:
  "cu_max_fraction_digits (payment_currency_unit_for c) \<le> cu_api_minor_unit (payment_currency_unit_for c)"
  "cu_api_minor_unit (payment_currency_unit_for c) \<le> 3"
  using unit_cases [of c]
  by (auto simp: zero_decimal_unit_def two_decimal_unit_def three_decimal_unit_def stripe_legacy_unit_def)

lemma quot_whole: "0 < b \<Longrightarrow> a mod b = 0 \<Longrightarrow> quot a b * b = a"
proof -
  assume b: "0 < b" "a mod b = 0"
  then obtain k where "a = b * k" by auto
  with b(1) show ?thesis
    by (cases k "0 :: int" rule: linorder_cases) (auto simp: quot_def abs_mult sgn_mult mult.commute)
qed

lemma whole_shift:
  assumes "dec_whole (dec_shift d m)" "m \<le> n"
  shows "dec_whole (dec_shift d n)"
proof -
  have e: "fst d * 10 ^ n = fst d * 10 ^ m * 10 ^ (n - m)"
    using assms(2) by (simp add: mult.assoc flip: power_add)
  have "10 ^ snd d dvd fst d * 10 ^ m" using assms(1) by (simp add: dec_whole_def dec_shift_def dvd_eq_mod_eq_0)
  then have "10 ^ snd d dvd fst d * 10 ^ n" unfolding e by (rule dvd_mult2)
  then show ?thesis by (simp add: dec_whole_def dec_shift_def dvd_eq_mod_eq_0)
qed

lemma int_part_exact:
  assumes "dec_whole d" "- (2 ^ 63) * 10 ^ snd d \<le> fst d" "fst d < 2 ^ 63 * 10 ^ snd d"
  shows "int_part d * 10 ^ snd d = fst d"
proof -
  let ?q = "quot (fst d) (10 ^ snd d)"
  have q: "?q * 10 ^ snd d = fst d" using assms(1) by (intro quot_whole) (simp_all add: dec_whole_def)
  have p: "(0::int) < 10 ^ snd d" by simp
  have "- (2 ^ 63) * 10 ^ snd d \<le> ?q * 10 ^ snd d" "?q * 10 ^ snd d < 2 ^ 63 * 10 ^ snd d"
    unfolding q by (rule assms(2), rule assms(3))
  then have "- (2 ^ 63) \<le> ?q" "?q < 2 ^ 63"
    using mult_le_cancel_right_pos [OF p, of "- (2 ^ 63)" ?q] mult_less_cancel_right_pos [OF p, of ?q "2 ^ 63"]
    by blast+
  then have "sint (word_of_int ?q :: 64 word) = ?q"
    by (simp add: signed_of_int signed_take_bit_int_eq_self)
  with q show ?thesis by (simp add: int_part_def)
qed

text \<open>
  C26: Whether an amount text is accepted depends on its digits only: an amount with a valid currency is accepted when it is a
  whole number of the smallest payable unit of the currency, and refused with \<open>Not_whole_number\<close> or \<open>Too_many_decimals\<close>
  when it has more digits than the currency allows (50.50 ISK, although the minor unit sent to the provider has two digits).
  An accepted amount survives the conversion to minor units and back, as an exact decimal before it becomes a
  float64; and an amount rendered from a whole number of payable units is accepted and gives the same number
  again. The amount has fewer than 2^63 minor units.
\<close>

theorem minor_units_roundtrip:
  assumes parse: "parse (trim_space s) = Some d" and c: "normalize_payment_currency currency = Inr c"
    and range: "\<bar>fst d\<bar> * 10 ^ currency_minor_unit currency < 2 ^ 63 * 10 ^ snd d"
  shows "(if 10 ^ snd d dvd fst d * 10 ^ currency_max_fraction_digits currency
      then \<exists>v. amount_to_minor_unit parse s currency = Inr v \<and> dec_eq (minor_unit_to_amount v currency) d
      else amount_to_minor_unit parse s currency =
        Inl (if currency_max_fraction_digits currency = 0 then Not_whole_number else Too_many_decimals)) \<and>
    (\<forall>n. d = minor_unit_to_amount n currency \<longrightarrow>
      10 ^ (currency_minor_unit currency - currency_max_fraction_digits currency) dvd n \<longrightarrow>
      amount_to_minor_unit parse s currency = Inr n)"
proof -
  define u where "u = payment_currency_unit_for currency"
  have u: "payment_currency_unit_for c = u" "currency_minor_unit currency = cu_api_minor_unit u"
    "currency_max_fraction_digits currency = cu_max_fraction_digits u"
    "cu_max_fraction_digits u \<le> cu_api_minor_unit u"
    using unit_for_normalized [OF c] unit_digits [of currency]
    by (simp_all add: u_def currency_minor_unit_def currency_max_fraction_digits_def)
  have exact: "int_part (dec_shift d (cu_api_minor_unit u)) * 10 ^ snd d = fst d * 10 ^ cu_api_minor_unit u"
    if "dec_whole (dec_shift d (cu_max_fraction_digits u))"
  proof -
    have "\<bar>fst d * 10 ^ cu_api_minor_unit u\<bar> < 2 ^ 63 * 10 ^ snd d" using range by (simp add: u(2) abs_mult)
    with int_part_exact [of "dec_shift d (cu_api_minor_unit u)"] whole_shift [OF that u(4)]
    show ?thesis by (simp add: dec_shift_def abs_less_iff)
  qed
  have whole: "dec_whole (dec_shift d (cu_max_fraction_digits u)) \<longleftrightarrow> 10 ^ snd d dvd fst d * 10 ^ cu_max_fraction_digits u"
    by (simp add: dec_whole_def dec_shift_def dvd_eq_mod_eq_0)
  have same: "amount_to_minor_unit parse s currency = Inr n"
    if d: "d = (n, cu_api_minor_unit u)" and n: "10 ^ (cu_api_minor_unit u - cu_max_fraction_digits u) dvd n" for n
  proof -
    obtain v where "n = 10 ^ (cu_api_minor_unit u - cu_max_fraction_digits u) * v" using n by blast
    then have "n * 10 ^ cu_max_fraction_digits u = 10 ^ cu_api_minor_unit u * v"
      using u(4) by (simp add: mult.assoc mult.left_commute flip: power_add)
    then have w: "dec_whole (dec_shift d (cu_max_fraction_digits u))"
      by (simp add: d dec_whole_def dec_shift_def)
    with exact [OF w] parse c u(1) show ?thesis by (simp add: amount_to_minor_unit_def d Let_def)
  qed
  have "amount_to_minor_unit parse s currency =
      (if 10 ^ snd d dvd fst d * 10 ^ cu_max_fraction_digits u then Inr (int_part (dec_shift d (cu_api_minor_unit u)))
       else Inl (if cu_max_fraction_digits u = 0 then Not_whole_number else Too_many_decimals))"
    using parse c u(1) by (simp add: amount_to_minor_unit_def whole Let_def)
  with exact whole same u(2,3) show ?thesis
    by (auto simp: minor_unit_to_amount_def dec_eq_def)
qed

theorem minor_units_roundtrip_witness:
  "amount_to_minor_unit (\<lambda>s. Some (5000, 2)) ''50.00'' ''isk'' = Inr 5000 \<and>
   amount_to_minor_unit (\<lambda>s. Some (5050, 2)) ''50.50'' ''isk'' = Inl Not_whole_number"
proof -
  have n: "normalize_payment_currency ''isk'' = Inr ''ISK''"
    by (simp add: normalize_payment_currency_def trim_space_def strip_left.simps strip_one_def utf8_spaces_code
        ascii_upper_char_def char_of_def bit_simps)
  then have "currency_minor_unit ''isk'' = 2" "currency_max_fraction_digits ''isk'' = 0"
    by (simp_all add: currency_minor_unit_def currency_max_fraction_digits_def payment_currency_unit_for_def
        payment_currency_units_def stripe_legacy_unit_def)
  with minor_units_roundtrip [of "\<lambda>s. Some (5000, 2)" "''50.00''" "(5000, 2)" "''isk''", OF refl n]
    minor_units_roundtrip [of "\<lambda>s. Some (5050, 2)" "''50.50''" "(5050, 2)" "''isk''", OF refl n] show ?thesis
    by (simp add: minor_unit_to_amount_def)
qed

lemma div_round_mono: "a \<le> a' \<Longrightarrow> 0 < b \<Longrightarrow> div_round a b \<le> div_round a' b"
  by (simp add: div_round_def zdiv_mono1)

lemma div_round_scale: "0 < b \<Longrightarrow> 0 < c \<Longrightarrow> div_round (a * c) (b * c) = div_round a b"
proof -
  assume "0 < b" "0 < c"
  have "(2 * (a * c) + b * c) div (2 * (b * c)) = (c * (2 * a + b)) div (c * (2 * b))" by (simp add: algebra_simps)
  also have "\<dots> = (2 * a + b) div (2 * b)" using \<open>0 < c\<close> by (intro div_mult_mult1) simp
  finally show ?thesis by (simp add: div_round_def)
qed

lemma div_round_nonneg: "0 \<le> a \<Longrightarrow> 0 < b \<Longrightarrow> 0 \<le> div_round a b"
  by (simp add: div_round_def pos_imp_zdiv_nonneg_iff)

lemma div_round_exact: "0 < b \<Longrightarrow> div_round (a * b) b = a"
  using div_round_scale [of 1 b a] by (simp add: div_round_def)

text \<open>
  C27: The amount asked back from the gateway is never negative and, for a refund of at most the order's
  amount, never above what was paid (rounded to the digits of the currency); a full refund asks
  for exactly that, and a larger partial refund never asks for less.
\<close>

theorem gateway_refund_bounds:
  assumes "0 < pay" "0 < refund" "refund \<le> order"
  shows "0 \<le> calculate_gateway_refund_amount order pay refund currency \<and>
    calculate_gateway_refund_amount order pay refund currency
      \<le> round_amount (currency_max_fraction_digits currency) pay \<and>
    calculate_gateway_refund_amount order pay order currency =
      round_amount (currency_max_fraction_digits currency) pay \<and>
    (\<forall>smaller. 0 < smaller \<longrightarrow> smaller \<le> refund \<longrightarrow>
      calculate_gateway_refund_amount order pay smaller currency
        \<le> calculate_gateway_refund_amount order pay refund currency)"
proof -
  define n where "n = currency_max_fraction_digits currency"
  have n: "n \<le> 3" using unit_digits [of currency] by (simp add: n_def currency_max_fraction_digits_def)
  define part where "part x = div_round (div_round (pay * x * 10 ^ 8) order) (10 ^ (16 - n)) * 10 ^ (8 - n)" for x
  have mono: "part x \<le> part y" if "x \<le> y" for x y
    using that assms by (auto simp: part_def intro!: mult_right_mono div_round_mono)
  have "(10 :: int) ^ (16 - n) = 10 ^ (8 - n) * 10 ^ 8"
    using n power_add [of "10 :: int" "8 - n" 8] by simp
  then have full: "part order = round_amount n pay"
    using assms div_round_exact [of order "pay * 10 ^ 8"] div_round_scale [of "10 ^ (8 - n)" "10 ^ 8" pay]
    by (simp add: part_def round_amount_def mult.assoc mult.left_commute mult.commute)
  have pos: "0 \<le> part x" if "0 < x" for x
    using that assms by (auto simp: part_def intro!: mult_nonneg_nonneg div_round_nonneg)
  have g: "calculate_gateway_refund_amount order pay x currency =
      (if \<bar>x - order\<bar> \<le> amount_tolerance (currency_minor_unit currency) then part order else part x)"
    if "0 < x" for x
    using that assms full by (simp add: calculate_gateway_refund_amount_def part_def n_def Let_def)
  have t: "0 \<le> amount_tolerance (currency_minor_unit currency)" by (simp add: amount_tolerance_def)
  have "calculate_gateway_refund_amount order pay x currency \<le> part order" if "0 < x" "x \<le> order" for x
    using g [OF that(1)] mono [OF that(2)] by simp
  moreover have "calculate_gateway_refund_amount order pay x currency
      \<le> calculate_gateway_refund_amount order pay refund currency" if "0 < x" "x \<le> refund" for x
    using g [OF that(1)] g [OF assms(2)] mono [OF that(2)] mono [OF assms(3)] that assms by auto
  ultimately show ?thesis
    using g [OF assms(2)] g [of order] pos [of order] pos [of refund] mono [OF assms(3)] assms full t
    by (auto simp: n_def)
qed

lemma cny_unit: "currency_minor_unit ''CNY'' = 2" "currency_max_fraction_digits ''CNY'' = 2"
proof -
  have "normalize_payment_currency ''CNY'' = Inr ''CNY''"
    by (simp add: normalize_payment_currency_def capitals_trimmed ascii_upper_char_def)
  then show "currency_minor_unit ''CNY'' = 2" "currency_max_fraction_digits ''CNY'' = 2"
    by (simp_all add: currency_minor_unit_def currency_max_fraction_digits_def payment_currency_unit_for_def
        payment_currency_units_def two_decimal_unit_def)
qed

theorem gateway_refund_bounds_witness:
  "calculate_gateway_refund_amount 300000000 1000000000 100000000 ''CNY'' = 333000000 \<and>
   calculate_gateway_refund_amount 300000000 1000000000 100000000 ''CNY'' \<le> 1000000000"
proof -
  have "calculate_gateway_refund_amount 300000000 1000000000 100000000 ''CNY'' = 333000000"
    by (simp add: calculate_gateway_refund_amount_def amount_tolerance_def div_round_def cny_unit)
  moreover have "round_amount 2 1000000000 = 1000000000" by (simp add: round_amount_def div_round_def)
  ultimately show ?thesis
    using gateway_refund_bounds [of 1000000000 100000000 300000000 "''CNY''"] cny_unit by simp
qed

end
