(* ===== verification/PaymentFulfillment.thy ===== *)
theory PaymentFulfillment
  imports PaymentCurrency
begin

text \<open>
  From a payment notification to the credited order (backend/internal/service/payment_fulfillment.go
  with the redemption of service/redeem_service.go): a worker is cut at its database calls, so that
  many workers and other handlers interleave over one database. A phase is what the
  function holds between two calls; \<open>pay_step\<close> makes the next call. A call may fail without effect,
  or take effect and lose its reply. What the code asks other services for is an argument or
  part of the step's environment: the expected provider key, the check of the provider snapshot and
  its currency, the redeem lock of Redis, the plan's quota, the rebate accrued.
\<close>

section \<open>Notifications and environment\<close>

datatype paid_amount = Finite amount | Not_a_number | Infinite

record notification =
  nt_trade_no :: string
  nt_order_id :: string
  nt_amount :: paid_amount
  nt_success :: bool
  nt_provider_key :: string
  nt_metadata :: "(string \<times> string) list"

record pay_services =
  sv_expected_key :: "pay_order \<Rightarrow> string"
  sv_equal_fold :: "string \<Rightarrow> string \<Rightarrow> bool"
  sv_metadata_ok :: "pay_order \<Rightarrow> string \<Rightarrow> (string \<times> string) list \<Rightarrow> bool"
  sv_currency :: "pay_order \<Rightarrow> string"
  sv_affiliate :: bool
  sv_grant :: "int \<Rightarrow> redeem_code \<Rightarrow> pay_db \<Rightarrow> pay_db option"

datatype call_outcome = Call_ok | Call_failed | Reply_lost

record pay_env =
  en_now :: instant
  en_outcome :: call_outcome
  en_audit :: bool
  en_lock :: bool
  en_user :: bool
  en_cache :: bool
  en_rebate :: "amount option"
  en_plan_limit :: "amount option option"

datatype pay_error =
    Order_not_found | Not_found | Invalid_status | Lease_conflict | Store_error | Code_mismatch
  | Code_locked | Code_unusable | Provider_mismatch | Metadata_mismatch | Invalid_amount
  | Amount_mismatch | Missing_subscription_info | Plan_not_found | Redeem_failed | Rebate_failed

type_synonym pay_result = "pay_error + unit"

abbreviation pay_ok :: pay_result where "pay_ok \<equiv> Inr ()"

section \<open>Checks\<close>

definition payment_grace :: duration where "payment_grace = 5 * minute"
definition fulfillment_lease_duration :: duration where "fulfillment_lease_duration = 5 * minute"

definition is_valid_provider_amount :: "paid_amount \<Rightarrow> bool" where
  "is_valid_provider_amount a \<longleftrightarrow> (case a of Finite x \<Rightarrow> 0 < x | _ \<Rightarrow> False)"

text \<open>The checks of \<open>confirmPayment\<close> on the order: the error and the audit action, if any.\<close>

definition confirm_check :: "pay_services \<Rightarrow> notification \<Rightarrow> pay_order \<Rightarrow> (pay_error \<times> string) option" where
  "confirm_check sv n ord =
     (let expected = sv_expected_key sv ord; pk = trim_space (nt_provider_key n)
      in if expected \<noteq> [] \<and> pk \<noteq> [] \<and> \<not> sv_equal_fold sv expected pk
         then Some (Provider_mismatch, ''PAYMENT_PROVIDER_MISMATCH'')
         else if \<not> sv_metadata_ok sv ord (nt_provider_key n) (nt_metadata n)
         then Some (Metadata_mismatch, ''PAYMENT_PROVIDER_METADATA_MISMATCH'')
         else if \<not> is_valid_provider_amount (nt_amount n)
         then Some (Invalid_amount, ''PAYMENT_INVALID_AMOUNT'')
         else if (case nt_amount n of
                    Finite paid \<Rightarrow> amount_tolerance (currency_minor_unit (sv_currency sv ord)) < \<bar>paid - po_pay_amount ord\<bar>
                  | _ \<Rightarrow> True)
         then Some (Amount_mismatch, ''PAYMENT_AMOUNT_MISMATCH'')
         else None)"

datatype redeem_action = Redeem_create | Redeem_existing | Redeem_skip_completed

definition resolve_redeem_action :: "redeem_code option \<Rightarrow> redeem_action" where
  "resolve_redeem_action existing =
     (case existing of
        None \<Rightarrow> Redeem_create
      | Some c \<Rightarrow> if rc_status c = Code_used then Redeem_skip_completed else Redeem_existing)"

definition validate_payment_redeem_code :: "pay_order \<Rightarrow> redeem_code \<Rightarrow> bool" where
  "validate_payment_redeem_code ord c \<longleftrightarrow>
     rc_code c = po_recharge_code ord \<and> rc_type c = Balance_code \<and>
     \<bar>rc_value c - po_amount ord\<bar> \<le> 1 \<and>
     (case rc_status c of
        Code_unused \<Rightarrow> rc_used_by c = None
      | Code_used \<Rightarrow> rc_used_by c = Some (po_user_id ord)
      | _ \<Rightarrow> False)"

section \<open>Phases\<close>

datatype pay_phase =
    Notified notification
  | Confirming int notification
  | To_paid pay_order notification
  | Already_processed int
  | Executing int
  | Fulfilling order_type int
  | Leasing order_type pay_order
  | Lease_refused int
  | Lease_reload order_type pay_order
  | Code_lookup pay_order instant
  | Code_create pay_order instant
  | Redeem_get pay_order instant
  | Redeem_commit pay_order instant redeem_code
  | Redeem_reread pay_order instant
  | Assigning pay_order instant
  | Assign_commit pay_order instant "amount option" bool
  | Assign_conflict pay_order instant
  | Rebating pay_order instant string
  | Completing pay_order instant string
  | Completing_check pay_order instant
  | Mark_failed int instant pay_error
  | Retrying int
  | Finished pay_result

definition order_id_prefix :: string where "order_id_prefix = ''sub2_''"

text \<open>\<open>strconv.ParseInt\<close> in base 10 for 64 bits.\<close>

definition parse_digits :: "string \<Rightarrow> int option" where
  "parse_digits ds =
     (if ds \<noteq> [] \<and> list_all (\<lambda>c. 48 \<le> code c \<and> code c \<le> 57) ds
      then Some (foldl (\<lambda>n c. 10 * n + (int (code c) - 48)) 0 ds) else None)"

definition parse_int64 :: "string \<Rightarrow> int option" where
  "parse_int64 s =
     (case (case s of
              [] \<Rightarrow> None
            | c # ds \<Rightarrow>
                if c = CHR ''-'' then map_option uminus (parse_digits ds)
                else if c = CHR ''+'' then parse_digits ds
                else parse_digits s) of
        None \<Rightarrow> None
      | Some n \<Rightarrow> if - (2 ^ 63) \<le> n \<and> n < 2 ^ 63 then Some n else None)"

text \<open>The order number of an old notification; the order was looked up and not found.\<close>

definition parse_legacy_payment_order_id :: "string \<Rightarrow> int option" where
  "parse_legacy_payment_order_id order_id =
     (let trimmed = trim_space order_id; n = length order_id_prefix
      in if take n trimmed \<noteq> order_id_prefix \<or> drop n trimmed = [] then None
         else case parse_int64 (drop n trimmed) of
           None \<Rightarrow> None
         | Some oid \<Rightarrow> if oid \<le> 0 then None else Some oid)"

text \<open>
  What a call does to the database: a failed one nothing; a lost reply leaves its effect. \<open>answered\<close>
  tells whether the code sees the reply.
\<close>

definition answered :: "pay_env \<Rightarrow> bool" where
  "answered en \<longleftrightarrow> en_outcome en = Call_ok"

definition effect :: "pay_env \<Rightarrow> pay_db \<Rightarrow> pay_db \<Rightarrow> pay_db" where
  "effect en db db' = (if en_outcome en = Call_failed then db else db')"

definition audit :: "pay_env \<Rightarrow> int \<Rightarrow> string \<Rightarrow> pay_db \<Rightarrow> pay_db" where
  "audit en oid action db = (if en_audit en then write_audit oid action db else db)"

definition reply_order :: "pay_env \<Rightarrow> int \<Rightarrow> pay_db \<Rightarrow> pay_order option" where
  "reply_order en oid db = (if answered en then db_orders db oid else None)"

definition truncate_micro :: "instant \<Rightarrow> instant" where
  "truncate_micro t = t - t mod 1000"

section \<open>From the notification to the paid order\<close>

definition start_notification :: "notification \<Rightarrow> pay_phase" where
  "start_notification n = (if nt_success n then Notified n else Finished pay_ok)"

definition handle_notification :: "pay_env \<Rightarrow> pay_db \<Rightarrow> notification \<Rightarrow> pay_phase" where
  "handle_notification en db n =
     (if \<not> answered en then Finished (Inl Store_error)
      else case db_trade_index db (nt_order_id n) of
        [oid] \<Rightarrow> Confirming oid n
      | [] \<Rightarrow>
          (case parse_legacy_payment_order_id (nt_order_id n) of
             Some oid \<Rightarrow> Confirming oid n
           | None \<Rightarrow> Finished (Inl Order_not_found))
      | _ \<Rightarrow> Finished (Inl Store_error))"

definition confirm_payment ::
    "pay_services \<Rightarrow> pay_env \<Rightarrow> pay_db \<Rightarrow> int \<Rightarrow> notification \<Rightarrow> pay_db \<times> pay_phase" where
  "confirm_payment sv en db oid n =
     (case reply_order en oid db of
        None \<Rightarrow> (db, Finished pay_ok)
      | Some ord \<Rightarrow>
          (case confirm_check sv n ord of
             Some (err, action) \<Rightarrow> (audit en (po_id ord) action db, Finished (Inl err))
           | None \<Rightarrow> (db, To_paid ord n)))"

definition payable :: "instant \<Rightarrow> pay_order \<Rightarrow> bool" where
  "payable now ord \<longleftrightarrow>
     po_status ord = Status_pending \<or> po_status ord = Status_cancelled \<or>
     po_status ord = Status_expired \<and> now - payment_grace \<le> po_updated_at ord"

definition to_paid :: "pay_env \<Rightarrow> pay_db \<Rightarrow> pay_order \<Rightarrow> notification \<Rightarrow> pay_db \<times> pay_phase" where
  "to_paid en db ord n =
     (case update_order (en_now en) (po_id ord) (payable (en_now en))
             (\<lambda>r. r\<lparr>po_status := Status_paid,
                po_pay_amount := (case nt_amount n of Finite paid \<Rightarrow> paid | _ \<Rightarrow> 0),
                po_payment_trade_no := nt_trade_no n, po_paid_at := Some (en_now en),
                po_failed_at := None\<rparr>) db of
        (matched, db') \<Rightarrow>
          let db1 = effect en db db'
          in if \<not> answered en then (db1, Finished (Inl Store_error))
             else if \<not> matched then (db1, Already_processed (po_id ord))
             else
               let db2 = (if po_status ord \<in> {Status_cancelled, Status_expired}
                          then audit en (po_id ord) ''ORDER_RECOVERED'' db1 else db1)
               in (audit en (po_id ord) ''ORDER_PAID'' db2, Executing (po_id ord)))"

definition already_processed :: "pay_env \<Rightarrow> pay_db \<Rightarrow> int \<Rightarrow> pay_db \<times> pay_phase" where
  "already_processed en db oid =
     (case reply_order en oid db of
        None \<Rightarrow> (db, Finished pay_ok)
      | Some cur \<Rightarrow>
          if po_status cur \<in> {Status_failed, Status_paid, Status_recharging} then (db, Executing oid)
          else if po_status cur = Status_expired
          then (audit en oid ''PAYMENT_AFTER_EXPIRY'' db, Finished pay_ok)
          else (db, Finished pay_ok))"

section \<open>The lease of a fulfillment\<close>

definition execute_fulfillment :: "pay_env \<Rightarrow> pay_db \<Rightarrow> int \<Rightarrow> pay_phase" where
  "execute_fulfillment en db oid =
     (case reply_order en oid db of
        None \<Rightarrow> Finished (Inl Store_error)
      | Some ord \<Rightarrow> Fulfilling (po_order_type ord) oid)"

definition start_fulfillment :: "pay_env \<Rightarrow> pay_db \<Rightarrow> order_type \<Rightarrow> int \<Rightarrow> pay_phase" where
  "start_fulfillment en db kind oid =
     (case reply_order en oid db of
        None \<Rightarrow> Finished (Inl Not_found)
      | Some ord \<Rightarrow>
          if po_status ord = Status_completed then Finished pay_ok
          else if is_refund_status (po_status ord) then Finished (Inl Invalid_status)
          else if po_status ord \<notin> {Status_paid, Status_failed, Status_recharging}
          then Finished (Inl Invalid_status)
          else if kind = Subscription_order \<and> po_subscription_days ord = None
          then Finished (Inl Missing_subscription_info)
          else Leasing kind ord)"

definition leasable :: "instant \<Rightarrow> pay_order \<Rightarrow> bool" where
  "leasable now ord \<longleftrightarrow>
     po_status ord \<in> {Status_paid, Status_failed} \<or>
     po_status ord = Status_recharging \<and> po_updated_at ord \<le> now - fulfillment_lease_duration"

definition acquire_lease :: "pay_env \<Rightarrow> pay_db \<Rightarrow> order_type \<Rightarrow> pay_order \<Rightarrow> pay_db \<times> pay_phase" where
  "acquire_lease en db kind ord =
     (let now = truncate_micro (en_now en)
      in case update_order_at (po_id ord) (leasable now)
                (\<lambda>r. r\<lparr>po_status := Status_recharging, po_updated_at := now, po_failed_at := None\<rparr>) db of
           (matched, db') \<Rightarrow>
             (effect en db db',
              if \<not> answered en then Finished (Inl Store_error)
              else if matched then Lease_reload kind ord else Lease_refused (po_id ord)))"

definition lease_refused :: "pay_env \<Rightarrow> pay_db \<Rightarrow> int \<Rightarrow> pay_phase" where
  "lease_refused en db oid =
     (case reply_order en oid db of
        None \<Rightarrow> Finished (Inl Store_error)
      | Some cur \<Rightarrow> Finished (if po_status cur = Status_completed then pay_ok else Inl Lease_conflict))"

definition reload_lease :: "pay_env \<Rightarrow> pay_db \<Rightarrow> order_type \<Rightarrow> pay_order \<Rightarrow> pay_phase" where
  "reload_lease en db kind ord =
     (case reply_order en (po_id ord) db of
        None \<Rightarrow> Finished (Inl Store_error)
      | Some claimed \<Rightarrow>
          if po_status claimed \<noteq> Status_recharging then Finished (Inl Lease_conflict)
          else (case kind of
                  Balance_order \<Rightarrow> Code_lookup ord (po_updated_at claimed)
                | Subscription_order \<Rightarrow> Assigning ord (po_updated_at claimed)))"

section \<open>Crediting the balance\<close>

definition lookup_code :: "pay_env \<Rightarrow> pay_db \<Rightarrow> pay_order \<Rightarrow> instant \<Rightarrow> pay_phase" where
  "lookup_code en db ord v =
     (if \<not> answered en then Mark_failed (po_id ord) v Store_error
      else
        let existing = db_codes db (po_recharge_code ord)
        in if (case existing of None \<Rightarrow> False | Some c \<Rightarrow> \<not> validate_payment_redeem_code ord c)
           then Mark_failed (po_id ord) v Code_mismatch
           else case resolve_redeem_action existing of
             Redeem_skip_completed \<Rightarrow> Rebating ord v ''RECHARGE_SUCCESS''
           | Redeem_create \<Rightarrow> Code_create ord v
           | Redeem_existing \<Rightarrow> Redeem_get ord v)"

definition order_code :: "pay_order \<Rightarrow> redeem_code" where
  "order_code ord =
     \<lparr>rc_code = po_recharge_code ord, rc_type = Balance_code, rc_value = po_amount ord,
      rc_status = Code_unused, rc_used_by = None, rc_expires_at = None, rc_validity_days = 0\<rparr>"

text \<open>\<open>CreateCode\<close> trims the code and refuses an empty one and a value of zero.\<close>

definition create_order_code :: "pay_env \<Rightarrow> pay_db \<Rightarrow> pay_order \<Rightarrow> instant \<Rightarrow> pay_db \<times> pay_phase" where
  "create_order_code en db ord v =
     (let c = (order_code ord)\<lparr>rc_code := trim_space (po_recharge_code ord)\<rparr>
      in if rc_code c = [] \<or> rc_value c = 0 then (db, Mark_failed (po_id ord) v Redeem_failed)
         else case create_code c db of
           None \<Rightarrow> (db, Mark_failed (po_id ord) v Redeem_failed)
         | Some db' \<Rightarrow>
             (effect en db db',
              if answered en then Redeem_get ord v else Mark_failed (po_id ord) v Redeem_failed))"

definition redeem_get :: "pay_env \<Rightarrow> pay_db \<Rightarrow> pay_order \<Rightarrow> instant \<Rightarrow> pay_phase" where
  "redeem_get en db ord v =
     (if \<not> en_lock en then Mark_failed (po_id ord) v Code_locked
      else if \<not> answered en then Mark_failed (po_id ord) v Store_error
      else case db_codes db (po_recharge_code ord) of
        None \<Rightarrow> Mark_failed (po_id ord) v Code_unusable
      | Some c \<Rightarrow>
          if code_is_expired (en_now en) c \<or> \<not> code_can_use (en_now en) c
          then Mark_failed (po_id ord) v Code_unusable
          else if rc_type c \<notin> {Balance_code, Concurrency_code, Subscription_code}
          then Mark_failed (po_id ord) v Code_unusable
          else if \<not> en_user en then Mark_failed (po_id ord) v Redeem_failed
          else Redeem_commit ord v c)"

definition redeem_commit ::
    "pay_services \<Rightarrow> pay_env \<Rightarrow> pay_db \<Rightarrow> pay_order \<Rightarrow> instant \<Rightarrow> redeem_code \<Rightarrow> pay_db \<times> pay_phase" where
  "redeem_commit sv en db ord v c =
     (case redeem_tx (sv_grant sv) (po_user_id ord) c db of
        None \<Rightarrow> (db, Mark_failed (po_id ord) v Redeem_failed)
      | Some db' \<Rightarrow>
          (effect en db db',
           if answered en then Redeem_reread ord v else Mark_failed (po_id ord) v Redeem_failed))"

definition redeem_reread :: "pay_env \<Rightarrow> pay_db \<Rightarrow> pay_order \<Rightarrow> instant \<Rightarrow> pay_phase" where
  "redeem_reread en db ord v =
     (if answered en \<and> db_codes db (po_recharge_code ord) \<noteq> None
      then Rebating ord v ''RECHARGE_SUCCESS'' else Mark_failed (po_id ord) v Redeem_failed)"

section \<open>Granting a subscription\<close>

text \<open>
  The transaction reads whether the order was assigned, then creates the wallet and the audit row;
  the unique index makes the second of two concurrent transactions fail at the insert.
\<close>

definition order_wallet :: "pay_order \<Rightarrow> pay_db \<Rightarrow> wallet option" where
  "order_wallet ord db =
     find (\<lambda>w. wa_user_id w = po_user_id ord \<and> wa_order_note w = Some (po_id ord) \<and> \<not> wa_deleted w) (db_wallets db)"

definition has_assignment_audit :: "int \<Rightarrow> pay_db \<Rightarrow> bool" where
  "has_assignment_audit oid db \<longleftrightarrow>
     has_audit oid ''SUBSCRIPTION_ASSIGNED'' db \<or> has_audit oid ''SUBSCRIPTION_SUCCESS'' db"

definition assign_read :: "pay_env \<Rightarrow> pay_db \<Rightarrow> pay_order \<Rightarrow> instant \<Rightarrow> pay_phase" where
  "assign_read en db ord v =
     (case en_plan_limit en of
        None \<Rightarrow> Mark_failed (po_id ord) v Plan_not_found
      | Some limit \<Rightarrow>
          if \<not> answered en then Mark_failed (po_id ord) v Store_error
          else if has_assignment_audit (po_id ord) db
          then (if en_cache en then Rebating ord v ''SUBSCRIPTION_SUCCESS''
                else Mark_failed (po_id ord) v Store_error)
          else Assign_commit ord v limit (order_wallet ord db \<noteq> None))"

definition new_wallet :: "instant \<Rightarrow> pay_order \<Rightarrow> amount option \<Rightarrow> pay_db \<Rightarrow> wallet" where
  "new_wallet now ord limit db =
     (let days = normalize_assign_validity_days (case po_subscription_days ord of None \<Rightarrow> 0 | Some d \<Rightarrow> d)
      in \<lparr>wa_id = int (length (db_wallets db)) + 1, wa_user_id = po_user_id ord, wa_order_note = Some (po_id ord),
          wa_days = days, wa_limit = normalize_sub_limit limit,
          wa_expires_at = min max_expires_at (add_days now days),
          wa_expired_status = False, wa_deleted = False\<rparr>)"

definition assign_commit ::
    "pay_env \<Rightarrow> pay_db \<Rightarrow> pay_order \<Rightarrow> instant \<Rightarrow> amount option \<Rightarrow> bool \<Rightarrow> pay_db \<times> pay_phase" where
  "assign_commit en db ord v limit recovered =
     (case insert_audit (po_id ord) ''SUBSCRIPTION_ASSIGNED'' no_detail db of
        None \<Rightarrow> (db, Assign_conflict ord v)
      | Some db1 \<Rightarrow>
          let db2 = (if recovered then db1
                     else db1\<lparr>db_wallets := db_wallets db1 @ [new_wallet (en_now en) ord limit db1]\<rparr>)
          in (effect en db db2,
              if answered en \<and> en_cache en then Rebating ord v ''SUBSCRIPTION_SUCCESS''
              else Mark_failed (po_id ord) v Store_error))"

definition assign_conflict :: "pay_env \<Rightarrow> pay_db \<Rightarrow> pay_order \<Rightarrow> instant \<Rightarrow> pay_phase" where
  "assign_conflict en db ord v =
     (if answered en \<and> has_assignment_audit (po_id ord) db \<and> en_cache en
      then Rebating ord v ''SUBSCRIPTION_SUCCESS'' else Mark_failed (po_id ord) v Store_error)"

section \<open>The rebate of the inviter, and the end\<close>

definition affiliate_rebate_base_amount :: "pay_order \<Rightarrow> amount" where
  "affiliate_rebate_base_amount ord =
     (case po_order_type ord of Balance_order \<Rightarrow> po_amount ord | Subscription_order \<Rightarrow> po_amount ord)"

definition rebate_claimed :: "int \<Rightarrow> pay_db \<Rightarrow> bool" where
  "rebate_claimed oid db \<longleftrightarrow>
     has_audit oid ''AFFILIATE_REBATE_APPLIED'' db \<or> has_audit oid ''AFFILIATE_REBATE_SKIPPED'' db"

definition apply_rebate ::
    "pay_services \<Rightarrow> pay_env \<Rightarrow> pay_db \<Rightarrow> pay_order \<Rightarrow> instant \<Rightarrow> string \<Rightarrow> pay_db \<times> pay_phase" where
  "apply_rebate sv en db ord v action =
     (let oid = po_id ord; failed = audit en oid ''AFFILIATE_REBATE_FAILED''
      in if affiliate_rebate_base_amount ord \<le> 0 \<or> \<not> sv_affiliate sv then (db, Completing ord v action)
         else if en_outcome en = Call_failed then (failed db, Mark_failed oid v Rebate_failed)
         else if rebate_claimed oid db then (db, Completing ord v action)
         else case en_rebate en of
           None \<Rightarrow> (failed db, Mark_failed oid v Rebate_failed)
         | Some rebate \<Rightarrow>
             let db' = (if rebate \<le> 0 then write_audit oid ''AFFILIATE_REBATE_SKIPPED'' db
                        else (write_audit oid ''AFFILIATE_REBATE_APPLIED'' db)
                          \<lparr>db_rebates := db_rebates db @ [(oid, rebate)]\<rparr>)
             in if answered en then (db', Completing ord v action)
                else (failed db', Mark_failed oid v Rebate_failed))"

definition mark_completed ::
    "pay_env \<Rightarrow> pay_db \<Rightarrow> pay_order \<Rightarrow> instant \<Rightarrow> string \<Rightarrow> pay_db \<times> pay_phase" where
  "mark_completed en db ord v action =
     (case update_order (en_now en) (po_id ord)
             (\<lambda>r. po_status r = Status_recharging \<and> po_updated_at r = v)
             (\<lambda>r. r\<lparr>po_status := Status_completed, po_completed_at := Some (en_now en)\<rparr>) db of
        (matched, db') \<Rightarrow>
          let db1 = effect en db db'
          in if \<not> answered en then (db1, Mark_failed (po_id ord) v Store_error)
             else if \<not> matched then (db1, Completing_check ord v)
             else (audit en (po_id ord) action db1, Finished pay_ok))"

definition completing_check :: "pay_env \<Rightarrow> pay_db \<Rightarrow> pay_order \<Rightarrow> instant \<Rightarrow> pay_phase" where
  "completing_check en db ord v =
     (case reply_order en (po_id ord) db of
        Some cur \<Rightarrow>
          if po_status cur = Status_completed then Finished pay_ok
          else Mark_failed (po_id ord) v Lease_conflict
      | None \<Rightarrow> Mark_failed (po_id ord) v Lease_conflict)"

definition mark_failed :: "pay_env \<Rightarrow> pay_db \<Rightarrow> int \<Rightarrow> instant \<Rightarrow> pay_error \<Rightarrow> pay_db \<times> pay_phase" where
  "mark_failed en db oid v err =
     (case update_order (en_now en) oid
             (\<lambda>r. po_status r = Status_recharging \<and> po_updated_at r = v)
             (\<lambda>r. r\<lparr>po_status := Status_failed, po_failed_at := Some (en_now en)\<rparr>) db of
        (matched, db') \<Rightarrow>
          let db1 = effect en db db'
          in (if answered en \<and> matched then audit en oid ''FULFILLMENT_FAILED'' db1 else db1,
              Finished (Inl err)))"

definition retry_fulfillment :: "pay_env \<Rightarrow> pay_db \<Rightarrow> int \<Rightarrow> pay_db \<times> pay_phase" where
  "retry_fulfillment en db oid =
     (case reply_order en oid db of
        None \<Rightarrow> (db, Finished (Inl Not_found))
      | Some ord \<Rightarrow>
          if po_paid_at ord = None \<or> is_refund_status (po_status ord) \<or> po_status ord = Status_completed \<or>
             po_status ord \<notin> {Status_failed, Status_paid, Status_recharging}
          then (db, Finished (Inl Invalid_status))
          else (audit en oid ''RECHARGE_RETRY'' db, Executing oid))"

section \<open>Steps\<close>

fun pay_step :: "pay_services \<Rightarrow> pay_env \<Rightarrow> pay_db \<Rightarrow> pay_phase \<Rightarrow> pay_db \<times> pay_phase" where
  "pay_step sv en db (Notified n) = (db, handle_notification en db n)"
| "pay_step sv en db (Confirming oid n) = confirm_payment sv en db oid n"
| "pay_step sv en db (To_paid ord n) = to_paid en db ord n"
| "pay_step sv en db (Already_processed oid) = already_processed en db oid"
| "pay_step sv en db (Executing oid) = (db, execute_fulfillment en db oid)"
| "pay_step sv en db (Fulfilling kind oid) = (db, start_fulfillment en db kind oid)"
| "pay_step sv en db (Leasing kind ord) = acquire_lease en db kind ord"
| "pay_step sv en db (Lease_refused oid) = (db, lease_refused en db oid)"
| "pay_step sv en db (Lease_reload kind ord) = (db, reload_lease en db kind ord)"
| "pay_step sv en db (Code_lookup ord v) = (db, lookup_code en db ord v)"
| "pay_step sv en db (Code_create ord v) = create_order_code en db ord v"
| "pay_step sv en db (Redeem_get ord v) = (db, redeem_get en db ord v)"
| "pay_step sv en db (Redeem_commit ord v c) = redeem_commit sv en db ord v c"
| "pay_step sv en db (Redeem_reread ord v) = (db, redeem_reread en db ord v)"
| "pay_step sv en db (Assigning ord v) = (db, assign_read en db ord v)"
| "pay_step sv en db (Assign_commit ord v limit recovered) = assign_commit en db ord v limit recovered"
| "pay_step sv en db (Assign_conflict ord v) = (db, assign_conflict en db ord v)"
| "pay_step sv en db (Rebating ord v action) = apply_rebate sv en db ord v action"
| "pay_step sv en db (Completing ord v action) = mark_completed en db ord v action"
| "pay_step sv en db (Completing_check ord v) = (db, completing_check en db ord v)"
| "pay_step sv en db (Mark_failed oid v err) = mark_failed en db oid v err"
| "pay_step sv en db (Retrying oid) = retry_fulfillment en db oid"
| "pay_step sv en db (Finished r) = (db, Finished r)"


section \<open>The system\<close>

definition settled :: "order_status \<Rightarrow> bool" where
  "settled st \<longleftrightarrow> st = Status_completed \<or> is_refund_status st"

text \<open>
  What else happens to the database: orders are created and cancelled or expired, refund handlers
  move settled orders among the settled states, users redeem codes, administrators
  create and disable codes, and usage is billed.
\<close>

datatype pay_event =
    Start pay_phase
  | Work nat pay_env
  | Create_order pay_order nat
  | Close_order int order_status instant
  | Refund_write int order_status instant
  | Redeem_public int string instant
  | Create_public redeem_code
  | Disable_code string
  | Bill int amount

fun entry_phase :: "pay_phase \<Rightarrow> bool" where
  "entry_phase (Notified n) \<longleftrightarrow> True"
| "entry_phase (Confirming oid n) \<longleftrightarrow> True"
| "entry_phase (Retrying oid) \<longleftrightarrow> True"
| "entry_phase (Finished r) \<longleftrightarrow> True"
| "entry_phase _ \<longleftrightarrow> False"

text \<open>The recharge code of an order: \<open>PAY-\<close>, its number, and five digits of the clock.\<close>

definition recharge_code :: "int \<Rightarrow> nat \<Rightarrow> string" where
  "recharge_code oid nanos = ''PAY-'' @ decimal (nat oid) @ ''-'' @ decimal (nanos mod 100000)"

type_synonym pay_system = "pay_db \<times> pay_phase list"

fun pay_event_ok :: "pay_system \<Rightarrow> pay_event \<Rightarrow> bool" where
  "pay_event_ok (db, ws) (Start ph) \<longleftrightarrow> entry_phase ph"
| "pay_event_ok (db, ws) (Work i en) \<longleftrightarrow> i < length ws"
| "pay_event_ok (db, ws) (Create_order ord nanos) \<longleftrightarrow>
     db_orders db (po_id ord) = None \<and> 0 < po_id ord \<and> 0 < po_amount ord \<and> po_status ord = Status_pending \<and>
     po_recharge_code ord = recharge_code (po_id ord) nanos"
| "pay_event_ok (db, ws) (Close_order oid st now) \<longleftrightarrow>
     st \<in> {Status_cancelled, Status_expired, Status_failed}"
| "pay_event_ok (db, ws) (Refund_write oid st now) \<longleftrightarrow> settled st"
| "pay_event_ok (db, ws) (Create_public c) \<longleftrightarrow> rc_status c = Code_unused"
| "pay_event_ok (db, ws) _ \<longleftrightarrow> True"

fun pay_system_step :: "pay_services \<Rightarrow> pay_system \<Rightarrow> pay_event \<Rightarrow> pay_system" where
  "pay_system_step sv (db, ws) (Start ph) = (db, ws @ [ph])"
| "pay_system_step sv (db, ws) (Work i en) =
     (case pay_step sv en db (ws ! i) of (db', ph) \<Rightarrow> (db', ws[i := ph]))"
| "pay_system_step sv (db, ws) (Create_order ord nanos) =
     (db\<lparr>db_orders := (db_orders db)(po_id ord \<mapsto> ord),
         db_trade_index := (db_trade_index db)(po_out_trade_no ord :=
           po_id ord # db_trade_index db (po_out_trade_no ord))\<rparr>, ws)"
| "pay_system_step sv (db, ws) (Close_order oid st now) =
     (snd (update_order now oid (\<lambda>r. po_status r = Status_pending) (\<lambda>r. r\<lparr>po_status := st\<rparr>) db), ws)"
| "pay_system_step sv (db, ws) (Refund_write oid st now) =
     (snd (update_order now oid (\<lambda>r. settled (po_status r)) (\<lambda>r. r\<lparr>po_status := st\<rparr>) db), ws)"
| "pay_system_step sv (db, ws) (Redeem_public uid code_text now) =
     (case db_codes db code_text of
        None \<Rightarrow> (db, ws)
      | Some c \<Rightarrow>
          if code_can_use now c \<and> rc_type c = Balance_code
          then (case redeem_tx (sv_grant sv) uid c db of None \<Rightarrow> (db, ws) | Some db' \<Rightarrow> (db', ws))
          else (db, ws))"
| "pay_system_step sv (db, ws) (Create_public c) =
     (case create_code c db of None \<Rightarrow> (db, ws) | Some db' \<Rightarrow> (db', ws))"
| "pay_system_step sv (db, ws) (Disable_code code_text) =
     (case db_codes db code_text of
        None \<Rightarrow> (db, ws)
      | Some c \<Rightarrow>
          if rc_status c = Code_unused
          then (db\<lparr>db_codes := (db_codes db)(code_text \<mapsto> c\<lparr>rc_status := Code_disabled\<rparr>)\<rparr>, ws)
          else (db, ws))"
| "pay_system_step sv (db, ws) (Bill uid cost) =
     (case update_balance uid (- cost) db of None \<Rightarrow> (db, ws) | Some db' \<Rightarrow> (db', ws))"

definition empty_pay_db :: "(int \<Rightarrow> amount option) \<Rightarrow> pay_db" where
  "empty_pay_db balances =
     \<lparr>db_orders = (\<lambda>_. None), db_trade_index = (\<lambda>_. []), db_codes = (\<lambda>_. None), db_balances = balances,
      db_concurrency = (\<lambda>_. 0), db_wallets = [], db_audits = [], db_credits = [], db_rebates = [], db_refunds = []\<rparr>"

end
