(* ===== verification/PaymentInvariant.thy ===== *)
theory PaymentInvariant
  imports PaymentFulfillment
begin

text \<open>
  The invariant of the payment system (\<open>pay_inv\<close>): what the database keeps of orders, codes,
  ledgers, subscriptions and rebates, and what a worker has made sure of in each phase.
  Each statement and each phase keeps it, whoever else acts in between; the machine is an instance
  of \<open>invariant_machine\<close>. The last section follows the balances along a run.
\<close>

section \<open>Recharge codes are unique\<close>

lemma digit_char: "d < 10 \<Longrightarrow> 48 \<le> code (digit_char d) \<and> code (digit_char d) - 48 = d"
proof -
  assume "d < 10"
  then have "d \<in> {0, 1, 2, 3, 4, 5, 6, 7, 8, 9}" by auto
  then show ?thesis by (auto simp: digit_char_def)
qed

lemma digit_char_le: "d < 10 \<Longrightarrow> code (digit_char d) \<le> 57"
  using digit_char [of d] by linarith

lemma decimal_digits: "c \<in> set (decimal n) \<Longrightarrow> 48 \<le> code c \<and> code c \<le> 57"
proof (induction n rule: decimal.induct)
  case (1 n)
  then show ?case
    by (subst (asm) (2) decimal.simps) (auto simp: digit_char digit_char_le split: if_splits)
qed

lemma decimal_ne: "decimal n \<noteq> []"
  by (subst decimal.simps) simp

definition digits_value :: "string \<Rightarrow> nat" where
  "digits_value ds = foldl (\<lambda>n c. 10 * n + (code c - 48)) 0 ds"

lemma digits_value_decimal: "digits_value (decimal n) = n"
proof (induction n rule: decimal.induct)
  case (1 n)
  then show ?case by (subst decimal.simps) (auto simp: digits_value_def digit_char)
qed

lemma decimal_inj: "decimal m = decimal n \<longleftrightarrow> m = n"
  by (metis digits_value_decimal)

lemma recharge_code_inj:
  assumes "0 < oid" "0 < oid'" "recharge_code oid n = recharge_code oid' n'"
  shows "oid = oid'"
proof -
  have no_dash: "CHR ''-'' \<notin> set (decimal k)" for k
    using decimal_digits [of "CHR ''-''" k] by auto
  have "takeWhile (\<lambda>c. c \<noteq> CHR ''-'') (decimal (nat a) @ ''-'' @ r) = decimal (nat a)" for a r
    using no_dash by (subst takeWhile_append2) auto
  moreover have "decimal (nat oid) @ ''-'' @ decimal (n mod 100000) =
      decimal (nat oid') @ ''-'' @ decimal (n' mod 100000)"
    using assms(3) by (simp add: recharge_code_def)
  ultimately have "decimal (nat oid) = decimal (nat oid')" by metis
  with assms(1,2) show ?thesis by (simp add: decimal_inj)
qed

lemma recharge_code_trimmed: "trim_space (recharge_code oid n) = recharge_code oid n"
proof -
  have left: "strip_left utf8_spaces (recharge_code oid n) = recharge_code oid n"
    by (rule strip_left_id) (auto simp: recharge_code_def utf8_spaces_code)
  obtain c cs where c: "rev (recharge_code oid n) = c # cs" "c \<in> set (decimal (n mod 100000))"
    using decimal_ne [of "n mod 100000"] by (cases "decimal (n mod 100000)" rule: rev_cases) (auto simp: recharge_code_def)
  have "strip_left (map rev utf8_spaces) (rev (recharge_code oid n)) = rev (recharge_code oid n)"
    using c decimal_digits [OF c(2)] by (intro strip_left_id) (auto simp: utf8_spaces_code)
  with left show ?thesis by (simp add: trim_space_def)
qed


section \<open>Invariant\<close>

text \<open>What no statement changes of an order, and what it keeps of the whole database.\<close>

definition same_order :: "pay_order \<Rightarrow> pay_order \<Rightarrow> bool" where
  "same_order a b \<longleftrightarrow>
     po_id a = po_id b \<and> po_user_id a = po_user_id b \<and> po_amount a = po_amount b \<and>
     po_recharge_code a = po_recharge_code b \<and> po_order_type a = po_order_type b \<and>
     po_subscription_days a = po_subscription_days b"

definition same_code :: "redeem_code \<Rightarrow> redeem_code \<Rightarrow> bool" where
  "same_code a b \<longleftrightarrow> rc_code a = rc_code b \<and> rc_type a = rc_type b \<and> rc_value a = rc_value b"

definition keeps :: "pay_db \<Rightarrow> pay_db \<Rightarrow> bool" where
  "keeps db db' \<longleftrightarrow>
     (\<forall>oid r. db_orders db oid = Some r \<longrightarrow> (\<exists>r'. db_orders db' oid = Some r' \<and> same_order r r')) \<and>
     (\<forall>k c. db_codes db k = Some c \<longrightarrow> (\<exists>c'. db_codes db' k = Some c' \<and> same_code c c' \<and>
        (rc_status c = Code_used \<longrightarrow> c' = c))) \<and>
     (\<forall>oid a. has_audit oid a db \<longrightarrow> has_audit oid a db')"

text \<open>A row that credits the order: redeemed by its user, worth its amount.\<close>

definition code_for :: "pay_order \<Rightarrow> redeem_code \<Rightarrow> bool" where
  "code_for r c \<longleftrightarrow>
     rc_code c = po_recharge_code r \<and> rc_type c = Balance_code \<and> \<bar>rc_value c - po_amount r\<bar> \<le> 1"

definition credited :: "pay_db \<Rightarrow> pay_order \<Rightarrow> bool" where
  "credited db r \<longleftrightarrow>
     (\<exists>c. db_codes db (po_recharge_code r) = Some c \<and> code_for r c \<and> rc_status c = Code_used \<and>
        rc_used_by c = Some (po_user_id r))"

definition fulfilled :: "pay_db \<Rightarrow> pay_order \<Rightarrow> bool" where
  "fulfilled db r \<longleftrightarrow>
     (case po_order_type r of
        Balance_order \<Rightarrow> credited db r
      | Subscription_order \<Rightarrow> has_audit (po_id r) ''SUBSCRIPTION_ASSIGNED'' db)"

definition order_ok :: "pay_db \<Rightarrow> int \<Rightarrow> pay_order \<Rightarrow> bool" where
  "order_ok db oid r \<longleftrightarrow>
     po_id r = oid \<and> 0 < oid \<and> 0 < po_amount r \<and>
     (\<exists>nanos. po_recharge_code r = recharge_code oid nanos) \<and>
     (settled (po_status r) \<longrightarrow> fulfilled db r)"

definition ledger :: "string \<Rightarrow> pay_db \<Rightarrow> (string \<times> int \<times> amount) list" where
  "ledger k db = filter (\<lambda>(k', u, x). k' = k) (db_credits db)"

definition ledger_ok :: "pay_db \<Rightarrow> string \<Rightarrow> bool" where
  "ledger_ok db k \<longleftrightarrow>
     (case db_codes db k of
        None \<Rightarrow> ledger k db = []
      | Some c \<Rightarrow>
          rc_code c = k \<and>
          (if rc_status c = Code_used \<and> rc_type c = Balance_code
           then (\<exists>u x. rc_used_by c = Some u \<and> ledger k db = [(k, u, x)] \<and>
                   rc_value c \<le> x \<and> (0 \<le> rc_value c \<longrightarrow> x = rc_value c))
           else ledger k db = []))"

definition granted_wallets :: "int \<Rightarrow> pay_db \<Rightarrow> wallet list" where
  "granted_wallets oid db = filter (\<lambda>w. wa_order_note w = Some oid) (db_wallets db)"

definition grant_ok :: "pay_db \<Rightarrow> int \<Rightarrow> bool" where
  "grant_ok db oid \<longleftrightarrow>
     (if has_audit oid ''SUBSCRIPTION_ASSIGNED'' db
      then (\<exists>r w. db_orders db oid = Some r \<and> granted_wallets oid db = [w] \<and>
              wa_user_id w = po_user_id r \<and>
              wa_days w = normalize_assign_validity_days (case po_subscription_days r of None \<Rightarrow> 0 | Some d \<Rightarrow> d))
      else granted_wallets oid db = [] \<and> \<not> has_audit oid ''SUBSCRIPTION_SUCCESS'' db)"

definition rebates_of :: "int \<Rightarrow> pay_db \<Rightarrow> (int \<times> amount) list" where
  "rebates_of oid db = filter (\<lambda>(o', x). o' = oid) (db_rebates db)"

definition rebate_ok :: "pay_db \<Rightarrow> int \<Rightarrow> bool" where
  "rebate_ok db oid \<longleftrightarrow>
     length (rebates_of oid db) \<le> 1 \<and>
     (rebates_of oid db \<noteq> [] \<longrightarrow> has_audit oid ''AFFILIATE_REBATE_APPLIED'' db)"

definition pay_db_inv :: "pay_db \<Rightarrow> bool" where
  "pay_db_inv db \<longleftrightarrow>
     (\<forall>oid r. db_orders db oid = Some r \<longrightarrow> order_ok db oid r) \<and>
     (\<forall>k. ledger_ok db k) \<and> (\<forall>oid. grant_ok db oid) \<and> (\<forall>oid. rebate_ok db oid)"

text \<open>What a worker's phase has made sure of.\<close>

definition snapshot :: "pay_db \<Rightarrow> pay_order \<Rightarrow> bool" where
  "snapshot db r \<longleftrightarrow> (\<exists>r'. db_orders db (po_id r) = Some r' \<and> same_order r r')"

definition code_row_for :: "pay_db \<Rightarrow> pay_order \<Rightarrow> bool" where
  "code_row_for db r \<longleftrightarrow> (\<exists>c. db_codes db (po_recharge_code r) = Some c \<and> code_for r c)"

definition success_action :: "pay_order \<Rightarrow> string" where
  "success_action r =
     (case po_order_type r of Balance_order \<Rightarrow> ''RECHARGE_SUCCESS'' | Subscription_order \<Rightarrow> ''SUBSCRIPTION_SUCCESS'')"

definition kind_ok :: "pay_db \<Rightarrow> order_type \<Rightarrow> pay_order \<Rightarrow> bool" where
  "kind_ok db kind r \<longleftrightarrow> snapshot db r \<and> po_order_type r = kind"

definition done_ok :: "pay_db \<Rightarrow> pay_order \<Rightarrow> string \<Rightarrow> bool" where
  "done_ok db r action \<longleftrightarrow> snapshot db r \<and> fulfilled db r \<and> action = success_action r"

fun phase_ok :: "pay_db \<Rightarrow> pay_phase \<Rightarrow> bool" where
  "phase_ok db (Confirming oid n) \<longleftrightarrow> True"
| "phase_ok db (Fulfilling kind oid) \<longleftrightarrow>
     (\<forall>r. db_orders db oid = Some r \<longrightarrow> po_order_type r = kind) \<and> db_orders db oid \<noteq> None"
| "phase_ok db (Leasing kind r) \<longleftrightarrow> kind_ok db kind r"
| "phase_ok db (Lease_reload kind r) \<longleftrightarrow> kind_ok db kind r"
| "phase_ok db (Code_lookup r v) \<longleftrightarrow> kind_ok db Balance_order r"
| "phase_ok db (Code_create r v) \<longleftrightarrow> kind_ok db Balance_order r"
| "phase_ok db (Redeem_get r v) \<longleftrightarrow> kind_ok db Balance_order r \<and> code_row_for db r"
| "phase_ok db (Redeem_commit r v c) \<longleftrightarrow>
     kind_ok db Balance_order r \<and> code_for r c \<and>
     (\<exists>c'. db_codes db (po_recharge_code r) = Some c' \<and> same_code c c')"
| "phase_ok db (Redeem_reread r v) \<longleftrightarrow> kind_ok db Balance_order r \<and> fulfilled db r"
| "phase_ok db (Assigning r v) \<longleftrightarrow> kind_ok db Subscription_order r"
| "phase_ok db (Assign_commit r v limit recovered) \<longleftrightarrow> kind_ok db Subscription_order r \<and> \<not> recovered"
| "phase_ok db (Assign_conflict r v) \<longleftrightarrow> kind_ok db Subscription_order r"
| "phase_ok db (Rebating r v action) \<longleftrightarrow> done_ok db r action"
| "phase_ok db (Completing r v action) \<longleftrightarrow> done_ok db r action"
| "phase_ok db _ \<longleftrightarrow> True"

definition pay_inv :: "pay_system \<Rightarrow> bool" where
  "pay_inv s \<longleftrightarrow> pay_db_inv (fst s) \<and> list_all (phase_ok (fst s)) (snd s)"

section \<open>What is kept\<close>

lemma keeps_refl: "keeps db db"
  by (auto simp: keeps_def same_order_def same_code_def)

lemma keeps_order:
  assumes "keeps db db'" "db_orders db oid = Some r"
  obtains r' where "db_orders db' oid = Some r'" "same_order r r'"
  using assms unfolding keeps_def by blast

lemma keeps_code:
  assumes "keeps db db'" "db_codes db k = Some c"
  obtains c' where "db_codes db' k = Some c'" "same_code c c'" "rc_status c = Code_used \<Longrightarrow> c' = c"
  using assms unfolding keeps_def by blast

lemma keeps_audit: "keeps db db' \<Longrightarrow> has_audit oid a db \<Longrightarrow> has_audit oid a db'"
  unfolding keeps_def by (elim conjE) simp

lemma keeps_trans:
  assumes "keeps a b" "keeps b c"
  shows "keeps a c"
  unfolding keeps_def
proof (intro conjI allI impI)
  fix oid r assume "db_orders a oid = Some r"
  then obtain r' where r': "db_orders b oid = Some r'" "same_order r r'"
    by (rule keeps_order [OF assms(1)])
  obtain r'' where "db_orders c oid = Some r''" "same_order r' r''"
    by (rule keeps_order [OF assms(2) r'(1)])
  with r' show "\<exists>r'. db_orders c oid = Some r' \<and> same_order r r'" by (auto simp: same_order_def)
next
  fix k x assume "db_codes a k = Some x"
  then obtain y where y: "db_codes b k = Some y" "same_code x y" "rc_status x = Code_used \<longrightarrow> y = x"
    by (meson keeps_code [OF assms(1)])
  obtain z where z: "db_codes c k = Some z" "same_code y z" "rc_status y = Code_used \<longrightarrow> z = y"
    by (meson keeps_code [OF assms(2) y(1)])
  show "\<exists>c'. db_codes c k = Some c' \<and> same_code x c' \<and> (rc_status x = Code_used \<longrightarrow> c' = x)"
  proof (intro exI conjI impI)
    show "same_code x z" using y(2) z(2) by (simp add: same_code_def)
    show "z = x" if "rc_status x = Code_used" using that y(3) z(3) by simp
  qed (rule z(1))
next
  fix oid act assume "has_audit oid act a"
  then show "has_audit oid act c" by (rule keeps_audit [OF assms(2) keeps_audit [OF assms(1)]])
qed

lemma keeps_snapshot: "keeps db db' \<Longrightarrow> snapshot db r \<Longrightarrow> snapshot db' r"
  unfolding snapshot_def by (auto elim!: keeps_order simp: same_order_def)

lemma keeps_kind: "keeps db db' \<Longrightarrow> kind_ok db kind r \<Longrightarrow> kind_ok db' kind r"
  unfolding kind_ok_def by (auto intro: keeps_snapshot)

lemma keeps_credited: "keeps db db' \<Longrightarrow> credited db r \<Longrightarrow> credited db' r"
  unfolding credited_def by (auto elim!: keeps_code)

lemma keeps_fulfilled: "keeps db db' \<Longrightarrow> fulfilled db r \<Longrightarrow> fulfilled db' r"
  by (auto simp: fulfilled_def split: order_type.splits intro: keeps_credited keeps_audit)

lemma keeps_done: "keeps db db' \<Longrightarrow> done_ok db r a \<Longrightarrow> done_ok db' r a"
  unfolding done_ok_def by (auto intro: keeps_snapshot keeps_fulfilled)

lemma keeps_code_row: "keeps db db' \<Longrightarrow> code_row_for db r \<Longrightarrow> code_row_for db' r"
  unfolding code_row_for_def by (auto elim!: keeps_code simp: code_for_def same_code_def)

lemma keeps_phase:
  assumes "keeps db db'" "phase_ok db ph"
  shows "phase_ok db' ph"
proof (cases ph)
  case (Fulfilling kind oid)
  with assms(2) obtain r where r: "db_orders db oid = Some r" "po_order_type r = kind" by auto
  with assms(1) show ?thesis by (auto simp: Fulfilling same_order_def elim!: keeps_order)
next
  case (Redeem_commit r v c)
  with assms show ?thesis by (auto simp: same_code_def intro: keeps_kind [OF assms(1)] elim!: keeps_code)
qed (use assms in \<open>auto intro: keeps_kind keeps_code_row keeps_fulfilled keeps_done\<close>)

lemma same_order_fulfilled: "same_order a b \<Longrightarrow> fulfilled db a = fulfilled db b"
  unfolding same_order_def fulfilled_def credited_def code_for_def
  by (auto split: order_type.splits)


section \<open>Statements keep the invariant\<close>

definition advances :: "pay_db \<Rightarrow> pay_db \<Rightarrow> bool" where
  "advances db db' \<longleftrightarrow> pay_db_inv db' \<and> keeps db db'"

lemma advances_refl: "pay_db_inv db \<Longrightarrow> advances db db"
  by (simp add: advances_def keeps_refl)

lemma advances_trans: "advances a b \<Longrightarrow> advances b c \<Longrightarrow> advances a c"
  unfolding advances_def by (auto intro: keeps_trans)

lemma advances_inv: "advances a b \<Longrightarrow> pay_db_inv b"
  by (simp add: advances_def)

lemma advances_keeps: "advances a b \<Longrightarrow> keeps a b"
  by (simp add: advances_def)

lemma inv_order: "pay_db_inv db \<Longrightarrow> db_orders db oid = Some r \<Longrightarrow> order_ok db oid r"
  and inv_ledger: "pay_db_inv db \<Longrightarrow> ledger_ok db k"
  and inv_grant: "pay_db_inv db \<Longrightarrow> grant_ok db oid"
  and inv_rebate: "pay_db_inv db \<Longrightarrow> rebate_ok db oid"
  unfolding pay_db_inv_def by simp_all

lemma pay_db_invI:
  assumes "\<And>oid r. db_orders db oid = Some r \<Longrightarrow> order_ok db oid r"
    and "\<And>k. ledger_ok db k" "\<And>oid. grant_ok db oid" "\<And>oid. rebate_ok db oid"
  shows "pay_db_inv db"
  unfolding pay_db_inv_def by (intro conjI allI impI) (rule assms; assumption)+

lemma ledger_ok_cong:
  "db_codes db' k = db_codes db k \<Longrightarrow> ledger k db' = ledger k db \<Longrightarrow> ledger_ok db' k = ledger_ok db k"
  by (cases "db_codes db k") (simp_all add: ledger_ok_def)

lemma order_ok_keeps: "keeps db db' \<Longrightarrow> order_ok db oid r \<Longrightarrow> order_ok db' oid r"
  unfolding order_ok_def by (auto intro: keeps_fulfilled)

lemma keepsI:
  assumes "\<And>oid r. db_orders db oid = Some r \<Longrightarrow> \<exists>r'. db_orders db' oid = Some r' \<and> same_order r r'"
    and "\<And>k c. db_codes db k = Some c \<Longrightarrow>
      \<exists>c'. db_codes db' k = Some c' \<and> same_code c c' \<and> (rc_status c = Code_used \<longrightarrow> c' = c)"
    and "\<And>oid a. has_audit oid a db \<Longrightarrow> has_audit oid a db'"
  shows "keeps db db'"
  using assms unfolding keeps_def by simp

lemma same_order_refl [simp]: "same_order r r" and same_code_refl [simp]: "same_code c c"
  by (simp_all add: same_order_def same_code_def)

text \<open>Audit rows.\<close>

lemma has_audit_update [simp]:
  "has_audit o' a (db\<lparr>db_orders := x_orders\<rparr>) = has_audit o' a db"
  "has_audit o' a (db\<lparr>db_codes := x_codes\<rparr>) = has_audit o' a db"
  "has_audit o' a (db\<lparr>db_credits := x_credits\<rparr>) = has_audit o' a db"
  "has_audit o' a (db\<lparr>db_wallets := x_wallets\<rparr>) = has_audit o' a db"
  "has_audit o' a (db\<lparr>db_rebates := x_rebates\<rparr>) = has_audit o' a db"
  "has_audit o' a (db\<lparr>db_balances := x_balances\<rparr>) = has_audit o' a db"
  "has_audit o' a (db\<lparr>db_trade_index := x_trade_index\<rparr>) = has_audit o' a db"
  "has_audit o' a (db\<lparr>db_concurrency := x_concurrency\<rparr>) = has_audit o' a db"
  "has_audit o' a (db\<lparr>db_refunds := x_refunds\<rparr>) = has_audit o' a db"
  by (simp_all add: has_audit_def)

lemma has_audit_write [simp]:
  "has_audit oid' a' (write_audit_detail oid a d db) \<longleftrightarrow> has_audit oid' a' db \<or> oid' = oid \<and> a' = a"
  by (auto simp: has_audit_def write_audit_detail_def insert_audit_def)

lemma write_audit_fields [simp]:
  "db_orders (write_audit_detail oid a d db) = db_orders db"
  "db_codes (write_audit_detail oid a d db) = db_codes db"
  "db_credits (write_audit_detail oid a d db) = db_credits db"
  "db_wallets (write_audit_detail oid a d db) = db_wallets db"
  "db_rebates (write_audit_detail oid a d db) = db_rebates db"
  "db_balances (write_audit_detail oid a d db) = db_balances db"
  "db_trade_index (write_audit_detail oid a d db) = db_trade_index db"
  "db_refunds (write_audit_detail oid a d db) = db_refunds db"
  by (simp_all add: write_audit_detail_def insert_audit_def)

lemma keeps_write_audit: "keeps db (write_audit_detail oid a d db)"
  by (rule keepsI) auto

lemma write_audit_advances:
  assumes inv: "pay_db_inv db" and a: "a \<noteq> ''SUBSCRIPTION_ASSIGNED''"
    and s: "a = ''SUBSCRIPTION_SUCCESS'' \<Longrightarrow> has_audit oid ''SUBSCRIPTION_ASSIGNED'' db"
  shows "advances db (write_audit_detail oid a d db)"
  unfolding advances_def
proof
  show k: "keeps db (write_audit_detail oid a d db)" by (rule keeps_write_audit)
  show "pay_db_inv (write_audit_detail oid a d db)"
  proof (rule pay_db_invI)
    fix o' r assume "db_orders (write_audit_detail oid a d db) o' = Some r"
    then show "order_ok (write_audit_detail oid a d db) o' r"
      using order_ok_keeps [OF k] inv_order [OF inv] by simp
  next
    fix k show "ledger_ok (write_audit_detail oid a d db) k"
      using inv_ledger [OF inv, of k] by (subst ledger_ok_cong [of _ _ db]) (auto simp: ledger_def)
  next
    fix o' show "grant_ok (write_audit_detail oid a d db) o'"
      using inv_grant [OF inv, of o'] a s by (auto simp: grant_ok_def granted_wallets_def split: if_splits)
  next
    fix o' show "rebate_ok (write_audit_detail oid a d db) o'"
      using inv_rebate [OF inv, of o'] by (simp add: rebate_ok_def rebates_of_def)
  qed
qed

lemma audit_advances:
  assumes "pay_db_inv db" "a \<noteq> ''SUBSCRIPTION_ASSIGNED''"
    and "a = ''SUBSCRIPTION_SUCCESS'' \<Longrightarrow> has_audit oid ''SUBSCRIPTION_ASSIGNED'' db"
  shows "advances db (audit en oid a db)"
  using assms by (simp add: audit_def write_audit_def write_audit_advances advances_refl)

lemma effect_advances: "pay_db_inv db \<Longrightarrow> advances db db' \<Longrightarrow> advances db (effect en db db')"
  by (simp add: effect_def advances_refl)

text \<open>Updates of an order.\<close>

lemma update_order_at_advances:
  assumes inv: "pay_db_inv db" and u: "update_order_at oid cond f db = (m, db')"
    and same: "\<And>r. same_order r (f r)"
    and set: "\<And>r. db_orders db oid = Some r \<Longrightarrow> cond r \<Longrightarrow> settled (po_status (f r)) \<Longrightarrow> fulfilled db r"
  shows "advances db db'"
proof (cases "\<exists>r. db_orders db oid = Some r \<and> cond r")
  case False
  with u have "db' = db" by (auto simp: update_order_at_def split: option.splits if_splits)
  with inv show ?thesis by (simp add: advances_refl)
next
  case True
  then obtain r where r: "db_orders db oid = Some r" "cond r" by blast
  with u have db': "db' = db\<lparr>db_orders := (db_orders db)(oid \<mapsto> f r)\<rparr>"
    by (simp add: update_order_at_def)
  have has: "has_audit o' a db' = has_audit o' a db" for o' a by (simp add: db')
  have k: "keeps db db'" by (rule keepsI) (use r same has in \<open>auto simp: db'\<close>)
  have "pay_db_inv db'"
  proof (rule pay_db_invI)
    fix o' r' assume "db_orders db' o' = Some r'"
    then consider "o' = oid" "r' = f r" | "o' \<noteq> oid" "db_orders db o' = Some r'"
      by (auto simp: db' split: if_splits)
    then show "order_ok db' o' r'"
    proof cases
      case 1
      have "fulfilled db' (f r)" if "settled (po_status (f r))"
        using keeps_fulfilled [OF k set [OF r that]] same_order_fulfilled [OF same [of r], of db'] by simp
      with inv_order [OF inv r(1)] same [of r] 1 show ?thesis
        by (simp add: order_ok_def same_order_def)
    next
      case 2 then show ?thesis using order_ok_keeps [OF k] inv_order [OF inv] by simp
    qed
  next
    fix x show "ledger_ok db' x"
      using inv_ledger [OF inv, of x] by (subst ledger_ok_cong [of _ _ db]) (auto simp: ledger_def db')
  next
    fix o' show "grant_ok db' o'"
      using inv_grant [OF inv, of o'] r same [of r]
      by (auto simp: grant_ok_def granted_wallets_def has same_order_def db' split: if_splits)
  next
    fix o' show "rebate_ok db' o'"
      using inv_rebate [OF inv, of o'] by (simp add: rebate_ok_def rebates_of_def has db')
  qed
  with k show ?thesis by (simp add: advances_def)
qed

lemma update_order_advances:
  assumes inv: "pay_db_inv db" and u: "update_order now oid cond f db = (m, db')"
    and same: "\<And>r. same_order r (f r)"
    and set: "\<And>r. db_orders db oid = Some r \<Longrightarrow> cond r \<Longrightarrow> settled (po_status (f r)) \<Longrightarrow> fulfilled db r"
  shows "advances db db'"
  using u unfolding update_order_def
  by (rule update_order_at_advances [OF inv]) (use same set in \<open>auto simp: same_order_def\<close>)


text \<open>Codes.\<close>

lemma set_code_advances:
  assumes inv: "pay_db_inv db"
    and db': "db' = db\<lparr>db_codes := (db_codes db)(k \<mapsto> c), db_balances := bs, db_credits := cs, db_concurrency := n\<rparr>"
    and old: "\<And>c0. db_codes db k = Some c0 \<Longrightarrow> same_code c0 c \<and> rc_status c0 \<noteq> Code_used"
    and row: "ledger_ok db' k" and others: "\<And>k'. k' \<noteq> k \<Longrightarrow> ledger k' db' = ledger k' db"
  shows "advances db db'"
proof -
  have k: "keeps db db'"
    by (rule keepsI) (use old in \<open>auto simp: db'\<close>)
  have "pay_db_inv db'"
  proof (rule pay_db_invI)
    fix oid r assume "db_orders db' oid = Some r"
    then show "order_ok db' oid r" using order_ok_keeps [OF k] inv_order [OF inv] by (simp add: db')
  next
    fix k' show "ledger_ok db' k'"
    proof (cases "k' = k")
      case False
      then have "db_codes db' k' = db_codes db k'" by (simp add: db')
      with inv_ledger [OF inv, of k'] others [OF False] show ?thesis
        by (subst ledger_ok_cong [of _ _ db])
    qed (simp add: row)
  next
    fix oid show "grant_ok db' oid"
      using inv_grant [OF inv, of oid] by (auto simp: grant_ok_def granted_wallets_def db' split: if_splits)
  next
    fix oid show "rebate_ok db' oid"
      using inv_rebate [OF inv, of oid] by (simp add: rebate_ok_def rebates_of_def db')
  qed
  with k show ?thesis by (simp add: advances_def)
qed

lemma create_code_advances:
  assumes inv: "pay_db_inv db" and c: "create_code c db = Some db'" "rc_status c = Code_unused"
  shows "advances db db'"
proof -
  have new: "db_codes db (rc_code c) = None" and db': "db' = db\<lparr>db_codes := (db_codes db)(rc_code c \<mapsto> c)\<rparr>"
    using c by (auto simp: create_code_def split: if_splits)
  have "ledger (rc_code c) db = []" using inv_ledger [OF inv, of "rc_code c"] new by (simp add: ledger_ok_def)
  then show ?thesis
    by (intro set_code_advances [OF inv, where k = "rc_code c" and c = c and bs = "db_balances db" and cs = "db_credits db" and n = "db_concurrency db"])
      (use new c(2) in \<open>auto simp: db' ledger_ok_def ledger_def\<close>)
qed

lemma disable_code_advances:
  assumes inv: "pay_db_inv db" and c: "db_codes db k = Some c" "rc_status c = Code_unused"
  shows "advances db (db\<lparr>db_codes := (db_codes db)(k \<mapsto> c\<lparr>rc_status := Code_disabled\<rparr>)\<rparr>)"
proof -
  have "ledger k db = []" "rc_code c = k" using inv_ledger [OF inv, of k] c by (auto simp: ledger_ok_def)
  then show ?thesis
    by (intro set_code_advances [OF inv, where k = k and c = "c\<lparr>rc_status := Code_disabled\<rparr>" and bs = "db_balances db"
          and cs = "db_credits db" and n = "db_concurrency db"])
      (use c in \<open>auto simp: ledger_ok_def ledger_def same_code_def\<close>)
qed

text \<open>A balance code redeemed: the row is used by the user, and the ledger has its one credit.\<close>

lemma redeem_balance_tx:
  assumes "redeem_tx grant uid c db = Some db'" "rc_type c = Balance_code"
  obtains c0 b delta where "db_codes db (rc_code c) = Some c0" "rc_status c0 = Code_unused" "db_balances db uid = Some b"
    "delta = (if rc_value c < 0 then max (b + rc_value c) 0 - b else rc_value c)"
    "db' = db\<lparr>db_codes := (db_codes db)(rc_code c \<mapsto> c0\<lparr>rc_status := Code_used, rc_used_by := Some uid\<rparr>),
              db_balances := (db_balances db)(uid \<mapsto> b + delta),
              db_credits := db_credits db @ [(rc_code c, uid, delta)]\<rparr>"
  using assms
  by (auto simp: redeem_tx_def use_code_def apply_redeem_balance_adjustment_def update_balance_def balance_of_def
      split: option.splits if_splits)

lemma redeem_tx_advances:
  assumes inv: "pay_db_inv db" and tx: "redeem_tx grant uid c db = Some db'" "rc_type c = Balance_code"
    and row: "db_codes db (rc_code c) = Some c1" "same_code c c1"
  shows "advances db db' \<and>
    db_codes db' (rc_code c) = Some (c1\<lparr>rc_status := Code_used, rc_used_by := Some uid\<rparr>)"
proof -
  obtain b delta where c1: "rc_status c1 = Code_unused"
    and delta: "delta = (if rc_value c < 0 then max (b + rc_value c) 0 - b else rc_value c)"
    and db': "db' = db\<lparr>db_codes := (db_codes db)(rc_code c \<mapsto> c1\<lparr>rc_status := Code_used, rc_used_by := Some uid\<rparr>),
              db_balances := (db_balances db)(uid \<mapsto> b + delta),
              db_credits := db_credits db @ [(rc_code c, uid, delta)]\<rparr>"
    by (rule redeem_balance_tx [OF tx]) (use row in auto)
  have "ledger (rc_code c) db = []" "rc_code c1 = rc_code c"
    using inv_ledger [OF inv, of "rc_code c"] row c1 by (auto simp: ledger_ok_def)
  then have "advances db db'"
    by (intro set_code_advances [OF inv, where k = "rc_code c" and n = "db_concurrency db"
          and c = "c1\<lparr>rc_status := Code_used, rc_used_by := Some uid\<rparr>"
          and bs = "(db_balances db)(uid \<mapsto> b + delta)" and cs = "db_credits db @ [(rc_code c, uid, delta)]"])
      (use row c1 tx(2) delta in \<open>auto simp: db' ledger_ok_def ledger_def same_code_def\<close>)
  then show ?thesis by (simp add: db')
qed

text \<open>The subscription of an order, and the rebate.\<close>

lemma assign_advances:
  assumes inv: "pay_db_inv db" and r: "kind_ok db Subscription_order r"
    and a: "insert_audit (po_id r) ''SUBSCRIPTION_ASSIGNED'' d db = Some db1"
  shows "advances db (db1\<lparr>db_wallets := db_wallets db1 @ [new_wallet now r limit db1]\<rparr>)" (is "advances db ?db2")
proof -
  have none: "\<not> has_audit (po_id r) ''SUBSCRIPTION_ASSIGNED'' db"
    and db1: "db1 = write_audit_detail (po_id r) ''SUBSCRIPTION_ASSIGNED'' d db"
    using a by (auto simp: insert_audit_def write_audit_detail_def split: if_splits)
  obtain r' where r': "db_orders db (po_id r) = Some r'" "same_order r r'"
    using r by (auto simp: kind_ok_def snapshot_def)
  have k: "keeps db ?db2" by (rule keepsI) (auto simp: db1)
  have "pay_db_inv ?db2"
  proof (rule pay_db_invI)
    fix oid x assume "db_orders ?db2 oid = Some x"
    then show "order_ok ?db2 oid x" using order_ok_keeps [OF k] inv_order [OF inv] by (simp add: db1)
  next
    fix x show "ledger_ok ?db2 x"
      using inv_ledger [OF inv, of x] by (subst ledger_ok_cong [of _ _ db]) (auto simp: ledger_def db1)
  next
    fix oid
    have empty: "granted_wallets (po_id r) db = []"
      using inv_grant [OF inv, of "po_id r"] none by (simp add: grant_ok_def)
    show "grant_ok ?db2 oid"
    proof (cases "oid = po_id r")
      case True
      with empty r' show ?thesis
        by (auto simp: grant_ok_def granted_wallets_def db1 new_wallet_def Let_def same_order_def)
    next
      case False
      with inv_grant [OF inv, of oid] show ?thesis
        by (auto simp: grant_ok_def granted_wallets_def db1 new_wallet_def Let_def split: if_splits)
    qed
  next
    fix oid show "rebate_ok ?db2 oid"
      using inv_rebate [OF inv, of oid] by (simp add: rebate_ok_def rebates_of_def db1)
  qed
  with k show ?thesis by (simp add: advances_def)
qed

lemma rebate_advances:
  assumes inv: "pay_db_inv db" and c: "\<not> has_audit oid ''AFFILIATE_REBATE_APPLIED'' db"
  shows "advances db ((write_audit oid ''AFFILIATE_REBATE_APPLIED'' db)\<lparr>db_rebates := db_rebates db @ [(oid, x)]\<rparr>)"
    (is "advances db ?db2")
proof -
  have k: "keeps db ?db2" by (rule keepsI) (auto simp: write_audit_def)
  have "pay_db_inv ?db2"
  proof (rule pay_db_invI)
    fix o' r assume "db_orders ?db2 o' = Some r"
    then show "order_ok ?db2 o' r" using order_ok_keeps [OF k] inv_order [OF inv] by (simp add: write_audit_def)
  next
    fix y show "ledger_ok ?db2 y"
      using inv_ledger [OF inv, of y] by (subst ledger_ok_cong [of _ _ db]) (auto simp: ledger_def write_audit_def)
  next
    fix o' show "grant_ok ?db2 o'"
      using inv_grant [OF inv, of o'] by (auto simp: grant_ok_def granted_wallets_def write_audit_def split: if_splits)
  next
    fix o' show "rebate_ok ?db2 o'"
      using inv_rebate [OF inv, of oid] inv_rebate [OF inv, of o'] c
      by (auto simp: rebate_ok_def rebates_of_def write_audit_def)
  qed
  with k show ?thesis by (simp add: advances_def)
qed


section \<open>Steps keep the invariant\<close>

definition step_ok :: "pay_db \<Rightarrow> pay_db \<times> pay_phase \<Rightarrow> bool" where
  "step_ok db x \<longleftrightarrow> advances db (fst x) \<and> phase_ok (fst x) (snd x)"

lemma step_okI: "advances db db' \<Longrightarrow> phase_ok db' ph \<Longrightarrow> step_ok db (db', ph)"
  by (simp add: step_ok_def)

lemma step_ok_read: "pay_db_inv db \<Longrightarrow> phase_ok db ph \<Longrightarrow> step_ok db (db, ph)"
  by (simp add: step_ok_def advances_refl)

lemma reply_snapshot:
  assumes "pay_db_inv db" "reply_order en oid db = Some r"
  shows "db_orders db oid = Some r" "po_id r = oid" "snapshot db r"
proof -
  show r: "db_orders db oid = Some r" using assms(2) by (simp add: reply_order_def split: if_splits)
  show "po_id r = oid" using inv_order [OF assms(1) r] by (simp add: order_ok_def)
  with r show "snapshot db r" by (simp add: snapshot_def)
qed

lemma handle_notification_ok: "phase_ok db (handle_notification en db n)"
  by (simp add: handle_notification_def split: option.splits list.splits)

lemma confirm_payment_ok:
  assumes inv: "pay_db_inv db" shows "step_ok db (confirm_payment sv en db oid n)"
proof -
  have "a \<notin> {''SUBSCRIPTION_ASSIGNED'', ''SUBSCRIPTION_SUCCESS''}"
    if "confirm_check sv n r = Some (e, a)" for r e a
    using that by (auto simp: confirm_check_def Let_def split: if_splits)
  then show ?thesis
    using inv by (auto simp: confirm_payment_def step_ok_def split: option.splits intro: advances_refl audit_advances)
qed

lemma to_paid_ok:
  assumes inv: "pay_db_inv db" shows "step_ok db (to_paid en db r n)"
proof -
  let ?f = "\<lambda>r. r\<lparr>po_status := Status_paid,
                po_pay_amount := (case nt_amount n of Finite paid \<Rightarrow> paid | _ \<Rightarrow> 0),
                po_payment_trade_no := nt_trade_no n, po_paid_at := Some (en_now en), po_failed_at := None\<rparr>"
  obtain m db' where u: "update_order (en_now en) (po_id r) (payable (en_now en)) ?f db = (m, db')"
    by fastforce
  have "advances db db'"
    by (rule update_order_advances [OF inv u]) (simp_all add: same_order_def settled_def is_refund_status_def)
  then have e: "advances db (effect en db db')" by (rule effect_advances [OF inv])
  have a: "advances d (audit en oid act d)"
    if "advances db d" "act \<notin> {''SUBSCRIPTION_ASSIGNED'', ''SUBSCRIPTION_SUCCESS''}" for d oid act
    by (rule audit_advances) (use that in \<open>auto intro: advances_inv\<close>)
  show ?thesis
    using e by (auto simp: to_paid_def u step_ok_def Let_def
      intro!: advances_trans [OF _ a] advances_trans [OF advances_trans [OF _ a] a])
qed

lemma already_processed_ok:
  assumes inv: "pay_db_inv db" shows "step_ok db (already_processed en db oid)"
  using inv by (auto simp: already_processed_def step_ok_def split: option.splits intro: advances_refl audit_advances)

lemma execute_fulfillment_ok: "phase_ok db (execute_fulfillment en db oid)"
  by (auto simp: execute_fulfillment_def reply_order_def split: option.splits if_splits)

lemma start_fulfillment_ok:
  assumes inv: "pay_db_inv db" and ph: "phase_ok db (Fulfilling kind oid)"
  shows "phase_ok db (start_fulfillment en db kind oid)"
  using ph reply_snapshot [OF inv, of en oid]
  by (auto simp: start_fulfillment_def kind_ok_def split: option.splits)

lemma acquire_lease_ok:
  assumes inv: "pay_db_inv db" and ph: "kind_ok db kind r"
  shows "step_ok db (acquire_lease en db kind r)"
proof -
  let ?now = "truncate_micro (en_now en)"
  let ?f = "\<lambda>r. r\<lparr>po_status := Status_recharging, po_updated_at := ?now, po_failed_at := None\<rparr>"
  obtain m db' where u: "update_order_at (po_id r) (leasable ?now) ?f db = (m, db')" by fastforce
  have "advances db db'"
    by (rule update_order_at_advances [OF inv u]) (simp_all add: same_order_def settled_def is_refund_status_def)
  then have e: "advances db (effect en db db')" by (rule effect_advances [OF inv])
  then have "kind_ok (effect en db db') kind r" by (rule keeps_kind [OF advances_keeps ph])
  with e show ?thesis by (simp add: acquire_lease_def u step_ok_def Let_def)
qed

lemma lease_refused_ok: "phase_ok db (lease_refused en db oid)"
  by (simp add: lease_refused_def split: option.splits)

lemma reload_lease_ok: "kind_ok db kind r \<Longrightarrow> phase_ok db (reload_lease en db kind r)"
  by (auto simp: reload_lease_def split: option.splits order_type.splits)

lemma validate_code_for: "validate_payment_redeem_code r c \<Longrightarrow> code_for r c"
  by (simp add: validate_payment_redeem_code_def code_for_def)

lemma validate_code_used:
  "validate_payment_redeem_code r c \<Longrightarrow> rc_status c = Code_used \<Longrightarrow> rc_used_by c = Some (po_user_id r)"
  by (simp add: validate_payment_redeem_code_def)

lemma lookup_code_ok:
  assumes ph: "kind_ok db Balance_order r" shows "phase_ok db (lookup_code en db r v)"
proof (cases "db_codes db (po_recharge_code r)")
  case None
  with ph show ?thesis by (simp add: lookup_code_def resolve_redeem_action_def Let_def)
next
  case (Some c)
  show ?thesis
  proof (cases "answered en \<and> validate_payment_redeem_code r c")
    case True
    with Some ph have "code_row_for db r" "rc_status c = Code_used \<Longrightarrow> fulfilled db r"
      by (auto simp: code_row_for_def fulfilled_def credited_def kind_ok_def
          dest: validate_code_for intro: validate_code_used)
    with Some True ph show ?thesis
      by (simp add: lookup_code_def resolve_redeem_action_def done_ok_def kind_ok_def success_action_def)
  qed (use Some in \<open>auto simp: lookup_code_def\<close>)
qed

lemma create_order_code_ok:
  assumes inv: "pay_db_inv db" and ph: "kind_ok db Balance_order r"
  shows "step_ok db (create_order_code en db r v)"
proof -
  from ph obtain r' where r': "db_orders db (po_id r) = Some r'" "same_order r r'"
    by (auto simp: kind_ok_def snapshot_def)
  obtain nanos where "po_recharge_code r' = recharge_code (po_id r) nanos"
    using inv_order [OF inv r'(1)] by (auto simp: order_ok_def)
  with r' have trim: "(order_code r)\<lparr>rc_code := trim_space (po_recharge_code r)\<rparr> = order_code r"
    by (simp add: recharge_code_trimmed order_code_def same_order_def)
  show ?thesis
  proof (cases "create_code (order_code r) db")
    case None
    with inv show ?thesis by (simp add: create_order_code_def trim Let_def step_ok_read)
  next
    case (Some db')
    have "advances db db'" by (rule create_code_advances [OF inv Some]) (simp add: order_code_def)
    then have e: "advances db (effect en db db')" by (rule effect_advances [OF inv])
    have "kind_ok (effect en db db') Balance_order r" by (rule keeps_kind [OF advances_keeps [OF e] ph])
    moreover have "code_row_for db' r"
      using Some by (auto simp: create_code_def code_row_for_def order_code_def code_for_def split: if_splits)
    ultimately show ?thesis
      using e inv Some
      by (auto simp: create_order_code_def trim Let_def step_ok_def effect_def answered_def advances_refl split: if_splits)
  qed
qed

lemma redeem_get_ok:
  assumes ph: "kind_ok db Balance_order r" "code_row_for db r"
  shows "phase_ok db (redeem_get en db r v)"
  using ph by (auto simp: redeem_get_def code_row_for_def split: option.splits)

lemma redeem_commit_ok:
  assumes inv: "pay_db_inv db" and ph: "phase_ok db (Redeem_commit r v c)"
  shows "step_ok db (redeem_commit sv en db r v c)"
proof (cases "redeem_tx (sv_grant sv) (po_user_id r) c db")
  case None
  with inv show ?thesis by (simp add: redeem_commit_def step_ok_read)
next
  case (Some db')
  from ph obtain c1 where c1: "db_codes db (po_recharge_code r) = Some c1" "same_code c c1"
    and r: "kind_ok db Balance_order r" "code_for r c" by auto
  then have ty: "rc_type c = Balance_code" "rc_code c = po_recharge_code r" by (simp_all add: code_for_def)
  have adv: "advances db db' \<and>
    db_codes db' (rc_code c) = Some (c1\<lparr>rc_status := Code_used, rc_used_by := Some (po_user_id r)\<rparr>)"
    by (rule redeem_tx_advances [OF inv Some ty(1)]) (use c1 ty in auto)
  then have e: "advances db (effect en db db')" by (simp add: effect_advances [OF inv])
  have "credited db' r" using adv c1(2) r(2) ty by (simp add: credited_def code_for_def same_code_def)
  moreover have "kind_ok (effect en db db') Balance_order r" by (rule keeps_kind [OF advances_keeps [OF e] r(1)])
  ultimately show ?thesis
    using e Some by (auto simp: redeem_commit_def step_ok_def effect_def answered_def fulfilled_def kind_ok_def)
qed

lemma redeem_reread_ok:
  "phase_ok db (Redeem_reread r v) \<Longrightarrow> phase_ok db (redeem_reread en db r v)"
  by (simp add: redeem_reread_def done_ok_def kind_ok_def success_action_def)

text \<open>Subscriptions.\<close>

lemma assignment_audit:
  assumes "pay_db_inv db" "has_assignment_audit oid db"
  shows "has_audit oid ''SUBSCRIPTION_ASSIGNED'' db"
  using assms(2) inv_grant [OF assms(1), of oid]
  by (auto simp: has_assignment_audit_def grant_ok_def split: if_splits)

lemma assigned_done:
  assumes "pay_db_inv db" "has_assignment_audit (po_id r) db" "kind_ok db Subscription_order r"
  shows "done_ok db r ''SUBSCRIPTION_SUCCESS''"
  using assms(3) assignment_audit [OF assms(1,2)]
  by (simp add: done_ok_def kind_ok_def fulfilled_def success_action_def)

lemma no_wallet_before:
  assumes "pay_db_inv db" "\<not> has_assignment_audit (po_id r) db"
  shows "order_wallet r db = None"
proof -
  have "granted_wallets (po_id r) db = []"
    using inv_grant [OF assms(1), of "po_id r"] assms(2)
    by (simp add: grant_ok_def has_assignment_audit_def split: if_splits)
  then show ?thesis by (auto simp: order_wallet_def granted_wallets_def find_None_iff filter_empty_conv)
qed

lemma assign_read_ok:
  assumes inv: "pay_db_inv db" and ph: "kind_ok db Subscription_order r"
  shows "phase_ok db (assign_read en db r v)"
  using ph assigned_done [OF inv _ ph] no_wallet_before [OF inv, of r]
  by (auto simp: assign_read_def split: option.splits)

lemma assign_commit_ok:
  assumes inv: "pay_db_inv db" and ph: "kind_ok db Subscription_order r"
  shows "step_ok db (assign_commit en db r v limit False)"
proof (cases "insert_audit (po_id r) ''SUBSCRIPTION_ASSIGNED'' no_detail db")
  case None
  with inv ph show ?thesis by (simp add: assign_commit_def step_ok_read)
next
  case (Some db1)
  let ?db2 = "db1\<lparr>db_wallets := db_wallets db1 @ [new_wallet (en_now en) r limit db1]\<rparr>"
  have a: "advances db ?db2" by (rule assign_advances [OF inv ph Some])
  then have e: "advances db (effect en db ?db2)" by (rule effect_advances [OF inv])
  have "has_assignment_audit (po_id r) ?db2"
    using Some by (auto simp: has_assignment_audit_def insert_audit_def has_audit_def split: if_splits)
  then have "done_ok ?db2 r ''SUBSCRIPTION_SUCCESS''"
    by (rule assigned_done [OF advances_inv [OF a] _ keeps_kind [OF advances_keeps [OF a] ph]])
  with e Some show ?thesis by (auto simp: assign_commit_def step_ok_def Let_def effect_def answered_def)
qed

lemma assign_conflict_ok:
  assumes inv: "pay_db_inv db" and ph: "kind_ok db Subscription_order r"
  shows "phase_ok db (assign_conflict en db r v)"
  using assigned_done [OF inv _ ph] by (simp add: assign_conflict_def)

text \<open>Rebate, completion, failure, retry.\<close>

lemma audit_other_advances:
  assumes "advances db db'" "a \<notin> {''SUBSCRIPTION_ASSIGNED'', ''SUBSCRIPTION_SUCCESS''}"
  shows "advances db (audit en oid a db')"
  using assms by (intro advances_trans [OF assms(1)] audit_advances) (auto intro: advances_inv)

lemma apply_rebate_ok:
  assumes inv: "pay_db_inv db" and ph: "done_ok db r act"
  shows "step_ok db (apply_rebate sv en db r v act)"
proof -
  let ?oid = "po_id r"
  define written where "written x = (if x \<le> 0 then write_audit ?oid ''AFFILIATE_REBATE_SKIPPED'' db
      else (write_audit ?oid ''AFFILIATE_REBATE_APPLIED'' db)\<lparr>db_rebates := db_rebates db @ [(?oid, x)]\<rparr>)" for x
  have w: "advances db (written x)" if "\<not> rebate_claimed ?oid db" for x
  proof (cases "x \<le> 0")
    case True
    have "advances db (write_audit ?oid ''AFFILIATE_REBATE_SKIPPED'' db)"
      unfolding write_audit_def by (rule write_audit_advances [OF inv]) simp_all
    with True show ?thesis by (simp add: written_def)
  next
    case False
    with that rebate_advances [OF inv] show ?thesis by (simp add: written_def rebate_claimed_def)
  qed
  have f: "advances db (audit en ?oid ''AFFILIATE_REBATE_FAILED'' db')" if "advances db db'" for db'
    by (rule audit_other_advances [OF that]) simp
  have d: "done_ok db' r act" if "advances db db'" for db'
    by (rule keeps_done [OF advances_keeps [OF that] ph])
  show ?thesis
    using w f d advances_refl [OF inv]
    by (simp add: apply_rebate_def Let_def step_ok_def flip: written_def split: option.split)
qed

lemma mark_completed_ok:
  assumes inv: "pay_db_inv db" and ph: "done_ok db r act"
  shows "step_ok db (mark_completed en db r v act)"
proof -
  let ?c = "\<lambda>r. po_status r = Status_recharging \<and> po_updated_at r = v"
  let ?f = "\<lambda>r. r\<lparr>po_status := Status_completed, po_completed_at := Some (en_now en)\<rparr>"
  obtain m db' where u: "update_order (en_now en) (po_id r) ?c ?f db = (m, db')" by fastforce
  have "advances db db'"
  proof (rule update_order_advances [OF inv u])
    fix r' assume "db_orders db (po_id r) = Some r'"
    then have "same_order r r'" using ph by (auto simp: done_ok_def snapshot_def)
    with ph show "fulfilled db r'" using same_order_fulfilled by (auto simp: done_ok_def)
  qed (simp add: same_order_def)
  then have e: "advances db (effect en db db')" by (rule effect_advances [OF inv])
  then have "done_ok (effect en db db') r act" by (rule keeps_done [OF advances_keeps ph])
  then have "advances (effect en db db') (audit en (po_id r) act (effect en db db'))"
    by (intro audit_advances [OF advances_inv [OF e]])
      (auto simp: done_ok_def success_action_def fulfilled_def split: order_type.splits)
  with e show ?thesis
    by (auto simp: mark_completed_def u Let_def step_ok_def intro: advances_trans)
qed

lemma completing_check_ok: "phase_ok db (completing_check en db r v)"
  by (simp add: completing_check_def split: option.splits)

lemma mark_failed_ok:
  assumes inv: "pay_db_inv db" shows "step_ok db (mark_failed en db oid v err)"
proof -
  let ?c = "\<lambda>r. po_status r = Status_recharging \<and> po_updated_at r = v"
  let ?f = "\<lambda>r. r\<lparr>po_status := Status_failed, po_failed_at := Some (en_now en)\<rparr>"
  obtain m db' where u: "update_order (en_now en) oid ?c ?f db = (m, db')" by fastforce
  have "advances db db'"
    by (rule update_order_advances [OF inv u]) (simp_all add: same_order_def settled_def is_refund_status_def)
  then have "advances db (effect en db db')" by (rule effect_advances [OF inv])
  then show ?thesis by (auto simp: mark_failed_def u Let_def step_ok_def intro: audit_other_advances)
qed

lemma retry_fulfillment_ok:
  assumes inv: "pay_db_inv db" shows "step_ok db (retry_fulfillment en db oid)"
  using advances_refl [OF inv]
  by (auto simp: retry_fulfillment_def step_ok_def split: option.splits intro: audit_other_advances)

lemma pay_step_ok:
  assumes inv: "pay_db_inv db" and ph: "phase_ok db w"
  shows "step_ok db (pay_step sv en db w)"
proof (cases w)
  case (Assign_commit r v limit recovered)
  with ph have "\<not> recovered" "kind_ok db Subscription_order r" by auto
  with assign_commit_ok [OF inv] show ?thesis by (simp add: Assign_commit)
next
  case (Fulfilling kind oid)
  with start_fulfillment_ok [OF inv] ph inv show ?thesis by (simp del: phase_ok.simps add: step_ok_read)
next
  case (Redeem_commit r v c)
  with redeem_commit_ok [OF inv] ph show ?thesis by (simp del: phase_ok.simps)
next
  case (Redeem_reread r v)
  with redeem_reread_ok ph inv show ?thesis by (simp del: phase_ok.simps add: step_ok_read)
qed (use inv ph in \<open>simp_all add: step_ok_read handle_notification_ok confirm_payment_ok to_paid_ok
    already_processed_ok execute_fulfillment_ok acquire_lease_ok lease_refused_ok reload_lease_ok lookup_code_ok
    create_order_code_ok redeem_get_ok assign_read_ok assign_conflict_ok apply_rebate_ok mark_completed_ok
    completing_check_ok mark_failed_ok retry_fulfillment_ok\<close>)


section \<open>Runs of the system\<close>

lemma entry_phase_ok: "entry_phase ph \<Longrightarrow> phase_ok db ph"
  by (cases ph) auto

lemma pay_invI:
  assumes "pay_inv (db, ws)" "advances db db'"
  shows "pay_inv (db', ws)"
  using assms keeps_phase [OF advances_keeps [OF assms(2)]]
  by (auto simp: pay_inv_def list_all_iff intro: advances_inv)

lemma create_order_inv:
  assumes inv: "pay_db_inv db" and new: "db_orders db (po_id r) = None" "0 < po_id r" "0 < po_amount r"
    and st: "po_status r = Status_pending" and c: "po_recharge_code r = recharge_code (po_id r) nanos"
  shows "advances db (db\<lparr>db_orders := (db_orders db)(po_id r \<mapsto> r), db_trade_index := ti\<rparr>)" (is "advances db ?db'")
proof -
  have k: "keeps db ?db'" by (rule keepsI) (use new in auto)
  have "pay_db_inv ?db'"
  proof (rule pay_db_invI)
    fix oid x assume "db_orders ?db' oid = Some x"
    then show "order_ok ?db' oid x"
      using order_ok_keeps [OF k] inv_order [OF inv] new st c
      by (auto simp: order_ok_def settled_def is_refund_status_def split: if_splits)
  next
    fix x show "ledger_ok ?db' x"
      using inv_ledger [OF inv, of x] by (subst ledger_ok_cong [of _ _ db]) (auto simp: ledger_def)
  next
    fix oid show "grant_ok ?db' oid"
      using inv_grant [OF inv, of oid] new by (auto simp: grant_ok_def granted_wallets_def split: if_splits)
  next
    fix oid show "rebate_ok ?db' oid"
      using inv_rebate [OF inv, of oid] by (simp add: rebate_ok_def rebates_of_def)
  qed
  with k show ?thesis by (simp add: advances_def)
qed

lemma set_balance_advances:
  assumes inv: "pay_db_inv db" and u: "update_balance uid x db = Some db'"
  shows "advances db db'"
proof -
  obtain bs where db': "db' = db\<lparr>db_balances := bs\<rparr>"
    using u by (auto simp: update_balance_def split: option.splits)
  have k: "keeps db db'" by (rule keepsI) (auto simp: db')
  have "pay_db_inv db'"
  proof (rule pay_db_invI)
    fix oid r assume "db_orders db' oid = Some r"
    then show "order_ok db' oid r" using order_ok_keeps [OF k] inv_order [OF inv] by (simp add: db')
  next
    fix x show "ledger_ok db' x"
      using inv_ledger [OF inv, of x] by (subst ledger_ok_cong [of _ _ db]) (auto simp: ledger_def db')
  next
    fix oid show "grant_ok db' oid"
      using inv_grant [OF inv, of oid] by (auto simp: db' grant_ok_def granted_wallets_def split: if_splits)
  next
    fix oid show "rebate_ok db' oid"
      using inv_rebate [OF inv, of oid] by (simp add: db' rebate_ok_def rebates_of_def)
  qed
  with k show ?thesis by (simp add: advances_def)
qed

text \<open>What happens to the database, whoever acts.\<close>

lemma pay_system_step_inv:
  assumes inv: "pay_inv (db, ws)" and ok: "pay_event_ok (db, ws) e"
  shows "pay_inv (pay_system_step sv (db, ws) e)"
proof -
  have db: "pay_db_inv db" using inv by (simp add: pay_inv_def)
  show ?thesis
  proof (cases e)
    case (Start ph)
    with inv ok show ?thesis by (simp add: pay_inv_def entry_phase_ok)
  next
    case (Work i en)
    obtain db' ph where st: "pay_step sv en db (ws ! i) = (db', ph)" by fastforce
    have "phase_ok db (ws ! i)" using inv ok Work by (simp add: pay_inv_def list_all_length)
    from pay_step_ok [OF db this, of sv en] have "advances db db'" "phase_ok db' ph"
      by (simp_all add: st step_ok_def)
    with pay_invI [OF inv] have "pay_inv (db', ws)" "phase_ok db' ph" by blast+
    moreover have "set (ws[i := ph]) \<subseteq> insert ph (set ws)" by (rule set_update_subset_insert)
    ultimately show ?thesis by (auto simp: Work st pay_inv_def list_all_iff)
  next
    case (Create_order r nanos)
    with ok create_order_inv [OF db] show ?thesis by (auto intro!: pay_invI [OF inv])
  next
    case (Close_order oid st now)
    obtain m db' where u: "update_order now oid (\<lambda>r. po_status r = Status_pending) (\<lambda>r. r\<lparr>po_status := st\<rparr>) db = (m, db')"
      by fastforce
    have "advances db db'"
      by (rule update_order_advances [OF db u])
        (use ok Close_order in \<open>auto simp: same_order_def settled_def is_refund_status_def\<close>)
    with u show ?thesis by (simp add: Close_order pay_invI [OF inv])
  next
    case (Refund_write oid st now)
    obtain m db' where u: "update_order now oid (\<lambda>r. settled (po_status r)) (\<lambda>r. r\<lparr>po_status := st\<rparr>) db = (m, db')"
      by fastforce
    have "advances db db'"
      by (rule update_order_advances [OF db u])
        (use inv_order [OF db] in \<open>auto simp: same_order_def order_ok_def\<close>)
    with u show ?thesis by (simp add: Refund_write pay_invI [OF inv])
  next
    case (Redeem_public uid k now)
    have "advances db db'"
      if "db_codes db k = Some c" "rc_type c = Balance_code" "redeem_tx (sv_grant sv) uid c db = Some db'" for c db'
    proof -
      have "rc_code c = k" using inv_ledger [OF db, of k] that(1) by (simp add: ledger_ok_def)
      with redeem_tx_advances [OF db that(3,2), of c] that(1) show ?thesis by simp
    qed
    with inv show ?thesis by (auto simp: Redeem_public split: option.splits intro: pay_invI [OF inv])
  next
    case (Create_public c)
    with ok inv create_code_advances [OF db] show ?thesis by (auto split: option.splits intro: pay_invI [OF inv])
  next
    case (Disable_code k)
    with inv disable_code_advances [OF db] show ?thesis by (auto split: option.splits intro: pay_invI [OF inv])
  next
    case (Bill uid cost)
    with inv set_balance_advances [OF db] show ?thesis by (auto split: option.splits intro: pay_invI [OF inv])
  qed
qed

interpretation pay: invariant_machine pay_event_ok "pay_system_step sv" pay_inv for sv
  by unfold_locales (metis pay_system_step_inv surj_pair)

lemma empty_pay_inv: "pay_inv (empty_pay_db bs, [])"
  by (simp add: pay_inv_def pay_db_inv_def empty_pay_db_def ledger_ok_def ledger_def grant_ok_def
      granted_wallets_def rebate_ok_def rebates_of_def has_audit_def)

lemma pay_run_inv:
  assumes "admissible pay_event_ok (pay_system_step sv) (empty_pay_db bs, []) es"
    and "run_steps (pay_system_step sv) (empty_pay_db bs, []) es = (db, ws)"
  shows "pay_db_inv db"
  using pay.inv_run [OF empty_pay_inv assms(1)] assms(2) by (simp add: pay_inv_def)

lemma credited_ledger:
  assumes inv: "pay_db_inv db" and c: "credited db r" and pos: "0 < po_amount r"
  shows "\<exists>v. \<bar>v - po_amount r\<bar> \<le> 1 \<and>
    filter (\<lambda>(k, u, x). k = po_recharge_code r) (db_credits db) = [(po_recharge_code r, po_user_id r, v)]"
proof -
  obtain c where c: "db_codes db (po_recharge_code r) = Some c" "code_for r c" "rc_status c = Code_used"
    "rc_used_by c = Some (po_user_id r)"
    using c by (auto simp: credited_def)
  then have "0 \<le> rc_value c" "\<bar>rc_value c - po_amount r\<bar> \<le> 1" using pos by (auto simp: code_for_def)
  with inv_ledger [OF inv, of "po_recharge_code r"] c show ?thesis
    by (auto simp: ledger_ok_def ledger_def code_for_def)
qed

lemma order_codes_distinct:
  assumes "pay_db_inv db" "db_orders db oid = Some r" "db_orders db oid' = Some r'"
    and "po_recharge_code r = po_recharge_code r'"
  shows "oid = oid'"
proof -
  obtain n n' where "po_recharge_code r = recharge_code oid n" "po_recharge_code r' = recharge_code oid' n'"
    "0 < oid" "0 < oid'"
    using inv_order [OF assms(1,2)] inv_order [OF assms(1,3)] by (auto simp: order_ok_def)
  with assms(4) show ?thesis by (intro recharge_code_inj [of oid oid' n n']) auto
qed

section \<open>The balances\<close>

definition credits_to :: "int \<Rightarrow> pay_db \<Rightarrow> amount" where
  "credits_to u db = sum_list (map (\<lambda>(k, u', x). if u' = u then x else 0) (db_credits db))"

fun billed :: "int \<Rightarrow> pay_event list \<Rightarrow> amount" where
  "billed u [] = 0"
| "billed u (Bill v cost # es) = (if v = u then cost else 0) + billed u es"
| "billed u (_ # es) = billed u es"

text \<open>The balances move by what the ledger records.\<close>

definition moved :: "int \<Rightarrow> pay_db \<Rightarrow> pay_db \<Rightarrow> bool" where
  "moved u db db' \<longleftrightarrow>
     db_balances db' u = map_option (\<lambda>b. b + (credits_to u db' - credits_to u db)) (db_balances db u)"

lemma moved_same: "db_balances db' = db_balances db \<Longrightarrow> db_credits db' = db_credits db \<Longrightarrow> moved u db db'"
  by (simp add: moved_def credits_to_def option.map_id0 id_def [symmetric])

lemma redeem_moved:
  assumes "redeem_tx grant uid c db = Some db'" "rc_type c = Balance_code"
  shows "moved u db db'"
  by (rule redeem_balance_tx [OF assms]) (auto simp: moved_def credits_to_def option.map_id0 id_def [symmetric])

lemma update_order_funds [simp]:
  "db_balances (snd (update_order_at oid cond f db)) = db_balances db"
  "db_credits (snd (update_order_at oid cond f db)) = db_credits db"
  by (simp_all add: update_order_at_def split: option.split)

lemma audit_funds [simp]:
  "db_balances (audit en oid a db) = db_balances db" "db_credits (audit en oid a db) = db_credits db"
  by (simp_all add: audit_def write_audit_def)

lemma effect_funds [simp]:
  "db_balances db' = db_balances db \<Longrightarrow> db_balances (effect en db db') = db_balances db"
  "db_credits db' = db_credits db \<Longrightarrow> db_credits (effect en db db') = db_credits db"
  by (simp_all add: effect_def)

lemma pay_step_funds:
  assumes "\<And>r v c. w \<noteq> Redeem_commit r v c"
  shows "db_balances (fst (pay_step sv en db w)) = db_balances db \<and>
    db_credits (fst (pay_step sv en db w)) = db_credits db"
proof (cases w)
  case (Redeem_commit r v c) with assms [of r v c] show ?thesis by simp
next
  case (Code_create r v) then show ?thesis
    by (auto simp: create_order_code_def create_code_def Let_def split: option.split)
next
  case (Assign_commit r v l b) then show ?thesis
    by (auto simp: assign_commit_def insert_audit_def Let_def split: option.split)
next
  case (Rebating r v a) then show ?thesis
    by (auto simp: apply_rebate_def write_audit_def Let_def split: option.split)
qed (auto simp: confirm_payment_def to_paid_def already_processed_def acquire_lease_def mark_completed_def
    mark_failed_def retry_fulfillment_def update_order_def Let_def split_def split: option.split)

lemma pay_step_moved:
  assumes "phase_ok db w"
  shows "moved u db (fst (pay_step sv en db w))"
proof (cases "\<exists>r v c. w = Redeem_commit r v c")
  case True
  then obtain r v c where w: "w = Redeem_commit r v c" by blast
  with assms have "rc_type c = Balance_code" by (auto simp: code_for_def)
  with redeem_moved show ?thesis
    by (auto simp: w redeem_commit_def effect_def moved_same split: option.split)
next
  case False
  then show ?thesis by (intro moved_same) (simp_all add: pay_step_funds)
qed

lemma pay_system_step_moved:
  assumes "pay_inv (db, ws)" "pay_event_ok (db, ws) e"
  shows "db_balances (fst (pay_system_step sv (db, ws) e)) u =
    map_option (\<lambda>b. b + (credits_to u (fst (pay_system_step sv (db, ws) e)) - credits_to u db) - billed u [e])
      (db_balances db u)"
proof (cases "\<exists>v cost. e = Bill v cost")
  case True
  then show ?thesis
    by (auto simp: update_balance_def credits_to_def option.map_id0 id_def [symmetric] split: option.split)
next
  case False
  have "moved u db (fst (pay_system_step sv (db, ws) e))"
  proof (cases e)
    case (Work i en)
    with assms have "phase_ok db (ws ! i)" by (simp add: pay_inv_def list_all_length)
    from pay_step_moved [OF this, of u sv en] show ?thesis by (simp add: Work split_def)
  next
    case (Create_public c) then show ?thesis
      by (auto simp: create_code_def intro: moved_same split: option.split)
  next
    case (Redeem_public uid k now) then show ?thesis
      using redeem_moved by (auto simp: moved_same split: option.split)
  qed (use False in \<open>auto simp: moved_same update_order_def split: option.split\<close>)
  moreover have "billed u [e] = 0" using False by (cases e) auto
  ultimately show ?thesis by (simp add: moved_def)
qed

text \<open>
  The balance codes a user has redeemed, and what they are worth together. The ledger of the model has one entry for each,
  of the value of the code, so its sum can be read off the codes.
\<close>

definition redeemed :: "int \<Rightarrow> pay_db \<Rightarrow> string \<Rightarrow> bool" where
  "redeemed u db k \<longleftrightarrow>
     (\<exists>c. db_codes db k = Some c \<and> rc_type c = Balance_code \<and> rc_status c = Code_used \<and> rc_used_by c = Some u)"

definition code_value :: "pay_db \<Rightarrow> string \<Rightarrow> amount" where
  "code_value db k = (case db_codes db k of None \<Rightarrow> 0 | Some c \<Rightarrow> rc_value c)"

definition redeemed_value :: "int \<Rightarrow> pay_db \<Rightarrow> amount" where
  "redeemed_value u db = (\<Sum>k | redeemed u db k. code_value db k)"

lemma ledger_entry:
  assumes inv: "pay_db_inv db" and e: "(k, v, x) \<in> set (db_credits db)"
  shows "redeemed u db k \<longleftrightarrow> u = v" "code_value db k \<le> x" "0 \<le> code_value db k \<Longrightarrow> x = code_value db k"
proof -
  have mem: "(k, v, x) \<in> set (ledger k db)" using e by (simp add: ledger_def)
  with inv_ledger [OF inv, of k] obtain c where c: "db_codes db k = Some c" "rc_status c = Code_used" "rc_type c = Balance_code"
    "rc_used_by c = Some v" "rc_value c \<le> x" "0 \<le> rc_value c \<longrightarrow> x = rc_value c"
    by (auto simp: ledger_ok_def split: option.splits if_splits)
  then show "redeemed u db k \<longleftrightarrow> u = v" "code_value db k \<le> x" "0 \<le> code_value db k \<Longrightarrow> x = code_value db k"
    by (auto simp: redeemed_def code_value_def)
qed

lemma ledger_keys:
  assumes inv: "pay_db_inv db"
  shows "distinct (map fst (db_credits db))" "\<forall>u k. redeemed u db k \<longrightarrow> k \<in> fst ` set (db_credits db)"
proof -
  have one: "length (filter (\<lambda>(k', u, x). k' = k) (db_credits db)) \<le> 1" for k
    using inv_ledger [OF inv, of k] by (auto simp: ledger_ok_def ledger_def split: option.splits if_splits)
  have fsts: "(\<lambda>(k', u :: int, x :: amount). k' = k) = (\<lambda>e. fst e = k)" for k :: string by auto
  have "(\<And>k. length (filter (\<lambda>e. fst e = k) cs) \<le> 1) \<Longrightarrow> distinct (map fst cs)" for cs :: "(string \<times> int \<times> amount) list"
  proof (induction cs)
    case (Cons e cs)
    have "length (filter (\<lambda>e. fst e = k) cs) \<le> 1" for k using Cons.prems [of k] by (auto split: if_splits)
    then have "distinct (map fst cs)" by (rule Cons.IH)
    moreover have "fst e \<notin> fst ` set cs"
    proof
      assume "fst e \<in> fst ` set cs"
      then have "filter (\<lambda>e'. fst e' = fst e) cs \<noteq> []" by (force simp: filter_empty_conv)
      with Cons.prems [of "fst e"] show False by simp
    qed
    ultimately show ?case by simp
  qed simp
  with one show "distinct (map fst (db_credits db))" by (simp add: fsts)
  have "k \<in> fst ` set (db_credits db)" if "redeemed u db k" for u k
  proof -
    from that have "ledger k db \<noteq> []" using inv_ledger [OF inv, of k] by (auto simp: redeemed_def ledger_ok_def)
    then show ?thesis by (force simp: ledger_def filter_empty_conv)
  qed
  then show "\<forall>u k. redeemed u db k \<longrightarrow> k \<in> fst ` set (db_credits db)" by blast
qed

lemma credits_redeemed:
  assumes inv: "pay_db_inv db"
  shows "finite {k. redeemed u db k}" "redeemed_value u db \<le> credits_to u db"
    "\<forall>k. redeemed u db k \<longrightarrow> 0 \<le> code_value db k \<Longrightarrow> credits_to u db = redeemed_value u db"
proof -
  let ?cs = "db_credits db" and ?g = "\<lambda>k. if redeemed u db k then code_value db k else 0"
  let ?f = "\<lambda>(k :: string, v, x). if v = u then x else (0 :: amount)"
  have sub: "{k. redeemed u db k} \<subseteq> set (map fst ?cs)" using ledger_keys(2) [OF inv] by auto
  then show fin: "finite {k. redeemed u db k}" by (rule finite_subset) simp
  have "sum_list (map ?g (map fst ?cs)) = (\<Sum>k\<in>set (map fst ?cs). ?g k)"
    using sum_list_distinct_conv_sum_set [OF ledger_keys(1) [OF inv]] .
  also have "\<dots> = redeemed_value u db"
    unfolding redeemed_value_def using sub by (intro sum.mono_neutral_cong_right) auto
  finally have g: "redeemed_value u db = sum_list (map (\<lambda>e. ?g (fst e)) ?cs)" by (simp add: o_def)
  have le: "?g (fst e) \<le> ?f e" if "e \<in> set ?cs" for e
  proof (cases e)
    case (fields k v x)
    with that have "(k, v, x) \<in> set ?cs" by simp
    from ledger_entry [OF inv this] show ?thesis by (simp add: fields)
  qed
  then show "redeemed_value u db \<le> credits_to u db" unfolding g credits_to_def by (intro sum_list_mono) blast
  assume nonneg: "\<forall>k. redeemed u db k \<longrightarrow> 0 \<le> code_value db k"
  have "?f e = ?g (fst e)" if "e \<in> set ?cs" for e
  proof (cases e)
    case (fields k v x)
    with that have "(k, v, x) \<in> set ?cs" by simp
    from ledger_entry [OF inv this] show ?thesis using nonneg by (auto simp: fields)
  qed
  then show "credits_to u db = redeemed_value u db" unfolding g credits_to_def by (intro arg_cong [where f = sum_list] map_cong) auto
qed

lemma pay_run_moved:
  assumes "pay_inv (db, ws)" "admissible pay_event_ok (pay_system_step sv) (db, ws) es"
    and "run_steps (pay_system_step sv) (db, ws) es = (db', ws')"
  shows "db_balances db' u = map_option (\<lambda>b. b + (credits_to u db' - credits_to u db) - billed u es) (db_balances db u)"
  using assms
proof (induction es arbitrary: db ws)
  case Nil then show ?case by (simp add: option.map_id0 id_def [symmetric])
next
  case (Cons e es)
  obtain d w where d: "pay_system_step sv (db, ws) e = (d, w)" by fastforce
  with Cons.prems have "pay_inv (d, w)" using pay_system_step_inv [of db ws e sv] by simp
  with Cons d have "db_balances db' u = map_option (\<lambda>b. b + (credits_to u db' - credits_to u d) - billed u es) (db_balances d u)"
    by simp
  moreover have "db_balances d u = map_option (\<lambda>b. b + (credits_to u d - credits_to u db) - billed u [e]) (db_balances db u)"
    using pay_system_step_moved [of db ws e sv u] Cons.prems d by simp
  moreover have "billed u (e # es) = billed u [e] + billed u es" by (cases e) auto
  ultimately show ?case by (cases "db_balances db u") simp_all
qed

end
