(* ===== verification/PaymentProperties.thy ===== *)
theory PaymentProperties
  imports PaymentInvariant
begin

text \<open>
  What the fulfilment of payments guarantees: nothing is granted twice and nothing completed is left
  ungranted, the balances are the sum of their movements, and interrupted work can be
  finished by any later worker. The example run of the witnesses has two deliveries of one
  notification; the first worker loses the reply of its redemption.
\<close>

section \<open>Properties\<close>

text \<open>
  C2: However notifications, retries and workers interleave, with calls that fail or lose their
  reply, an order that has reached completion (or a refund status after it) was granted
  exactly once: a balance order has one credit in the ledger under its redeem code, to its user and of its
  amount up to the tolerance of 10^-8, and no other order has this code; a
  subscription order has exactly one subscription, for its user and its days.
\<close>

theorem completed_order_granted_once:
  assumes "admissible pay_event_ok (pay_system_step sv) (empty_pay_db bs, []) es"
    and "run_steps (pay_system_step sv) (empty_pay_db bs, []) es = (db, ws)"
    and "db_orders db oid = Some r" "settled (po_status r)"
  shows "case po_order_type r of
      Balance_order \<Rightarrow>
        (\<exists>v. \<bar>v - po_amount r\<bar> \<le> 1 \<and>
          filter (\<lambda>(k, u, x). k = po_recharge_code r) (db_credits db) = [(po_recharge_code r, po_user_id r, v)]) \<and>
        (\<forall>oid' r'. db_orders db oid' = Some r' \<longrightarrow> po_recharge_code r' = po_recharge_code r \<longrightarrow> oid' = oid)
    | Subscription_order \<Rightarrow>
        (\<exists>w. filter (\<lambda>w. wa_order_note w = Some oid) (db_wallets db) = [w] \<and> wa_user_id w = po_user_id r \<and>
          wa_days w = normalize_assign_validity_days (case po_subscription_days r of None \<Rightarrow> 0 | Some d \<Rightarrow> d))"
proof -
  have inv: "pay_db_inv db" by (rule pay_run_inv [OF assms(1,2)])
  have r: "order_ok db oid r" by (rule inv_order [OF inv assms(3)])
  with assms(4) have f: "fulfilled db r" by (simp add: order_ok_def)
  show ?thesis
  proof (cases "po_order_type r")
    case Balance_order
    with f r have "credited db r" "0 < po_amount r" by (simp_all add: fulfilled_def order_ok_def)
    from credited_ledger [OF inv this] Balance_order show ?thesis
      using order_codes_distinct [OF inv _ assms(3)] by auto
  next
    case Subscription_order
    with f r have "has_audit oid ''SUBSCRIPTION_ASSIGNED'' db" by (simp add: fulfilled_def order_ok_def)
    with inv_grant [OF inv, of oid] assms(3) Subscription_order show ?thesis
      by (auto simp: grant_ok_def granted_wallets_def)
  qed
qed

text \<open>
  C10: Nothing is paid out twice, on any path: a redeem code is credited at most once, an order
  brings at most one subscription, and the inviter at most one rebate per order.
\<close>

theorem nothing_paid_twice:
  assumes "admissible pay_event_ok (pay_system_step sv) (empty_pay_db bs, []) es"
    and "run_steps (pay_system_step sv) (empty_pay_db bs, []) es = (db, ws)"
  shows "length (filter (\<lambda>(k, u, x). k = c) (db_credits db)) \<le> 1 \<and>
    length (filter (\<lambda>w. wa_order_note w = Some oid) (db_wallets db)) \<le> 1 \<and>
    length (filter (\<lambda>(o', x). o' = oid) (db_rebates db)) \<le> 1"
proof -
  have inv: "pay_db_inv db" by (rule pay_run_inv [OF assms])
  have "length (ledger c db) \<le> 1"
    using inv_ledger [OF inv, of c] by (auto simp: ledger_ok_def split: option.splits if_splits)
  moreover have "length (granted_wallets oid db) \<le> 1"
    using inv_grant [OF inv, of oid] by (auto simp: grant_ok_def split: if_splits)
  moreover have "length (rebates_of oid db) \<le> 1" using inv_rebate [OF inv, of oid] by (simp add: rebate_ok_def)
  ultimately show ?thesis by (simp add: ledger_def granted_wallets_def rebates_of_def)
qed

text \<open>
  C24: No path of fulfilment creates or loses money: every balance is what it was at the start, plus the values of the balance
  codes the user has redeemed, each counted once, minus what was billed. When a code of a negative value was among them, which
  takes a balance down to nothing at most, the balance is at least that.
\<close>

theorem balances_conserved:
  assumes "admissible pay_event_ok (pay_system_step sv) (empty_pay_db bs, []) es"
    and "run_steps (pay_system_step sv) (empty_pay_db bs, []) es = (db, ws)"
    and "bs u = Some b"
  shows "finite {k. redeemed u db k} \<and>
    (\<exists>b'. db_balances db u = Some b' \<and>
       b + (\<Sum>k | redeemed u db k. code_value db k) - billed u es \<le> b' \<and>
       ((\<forall>k. redeemed u db k \<longrightarrow> 0 \<le> code_value db k) \<longrightarrow>
          b' = b + (\<Sum>k | redeemed u db k. code_value db k) - billed u es))"
proof -
  have inv: "pay_db_inv db" by (rule pay_run_inv [OF assms(1,2)])
  have "db_balances db u = Some (b + credits_to u db - billed u es)"
    using pay_run_moved [OF empty_pay_inv assms(1,2), of u] assms(3) by (simp add: credits_to_def empty_pay_db_def)
  with credits_redeemed [OF inv, of u] show ?thesis unfolding redeemed_value_def [symmetric] by auto
qed


text \<open>A run for the witnesses: two deliveries of one notification, the first losing a reply.\<close>

definition example_services :: pay_services where
  "example_services =
     \<lparr>sv_expected_key = (\<lambda>_. ''stripe''), sv_equal_fold = (=), sv_metadata_ok = (\<lambda>_ _ _. True),
      sv_currency = (\<lambda>_. ''CNY''), sv_affiliate = True, sv_grant = (\<lambda>_ _ _. None)\<rparr>"

definition example_order :: pay_order where
  "example_order =
     \<lparr>po_id = 7, po_user_id = 3, po_amount = 1000000000, po_pay_amount = 1020000000,
      po_recharge_code = ''PAY-7-34567'', po_out_trade_no = ''sub2_x'', po_payment_trade_no = [],
      po_order_type = Balance_order, po_status = Status_pending, po_updated_at = 0, po_paid_at = None,
      po_completed_at = None, po_failed_at = None, po_plan_id = None, po_subscription_days = None,
      po_refund_amount = 0, po_refund_reason = None, po_refund_at = None, po_force_refund = False,
      po_refund_request_reason = None\<rparr>"

definition example_notification :: notification where
  "example_notification =
     \<lparr>nt_trade_no = ''T1'', nt_order_id = ''sub2_x'', nt_amount = Finite 1020000000, nt_success = True,
      nt_provider_key = ''stripe'', nt_metadata = []\<rparr>"

definition healthy_at :: "instant \<Rightarrow> pay_env" where
  "healthy_at t =
     \<lparr>en_now = t, en_outcome = Call_ok, en_audit = True, en_lock = True, en_user = True, en_cache = True,
      en_rebate = Some 50000000, en_plan_limit = Some None\<rparr>"

definition example_first_worker :: "pay_event list" where
  "example_first_worker =
     [Create_order example_order 1234567, Start (Notified example_notification), Start (Notified example_notification)] @
     map (\<lambda>k. Work 0 (healthy_at (int k * 1000))) [0..<10] @
     [Work 0 ((healthy_at 10000)\<lparr>en_outcome := Reply_lost\<rparr>), Work 0 (healthy_at 11000)]"

definition example_events :: "pay_event list" where
  "example_events =
     example_first_worker @ map (\<lambda>k. Work 1 (healthy_at (20000 + int k * 1000))) [0..<14] @ [Bill 3 5]"

abbreviation example_balances :: "int \<Rightarrow> amount option" where
  "example_balances \<equiv> [3 \<mapsto> 10]"

definition example_run :: pay_system where
  "example_run = run_steps (pay_system_step example_services) (empty_pay_db example_balances, []) example_events"

lemmas pay_evals = handle_notification_def confirm_payment_def to_paid_def already_processed_def
  execute_fulfillment_def start_fulfillment_def acquire_lease_def leasable_def lease_refused_def
  reload_lease_def lookup_code_def order_code_def create_order_code_def redeem_get_def
  redeem_commit_def redeem_reread_def apply_rebate_def rebate_claimed_def
  affiliate_rebate_base_amount_def mark_completed_def completing_check_def mark_failed_def
  retry_fulfillment_def answered_def effect_def audit_def reply_order_def truncate_micro_def
  update_order_def update_order_at_def has_audit_def write_audit_def write_audit_detail_def
  insert_audit_def no_detail_def code_is_expired_def code_can_use_def create_code_def use_code_def
  update_balance_def redeem_tx_def balance_of_def confirm_check_def is_valid_provider_amount_def
  amount_tolerance_def resolve_redeem_action_def validate_payment_redeem_code_def payable_def
  is_refund_status_def fulfillment_lease_duration_def payment_grace_def empty_pay_db_def

lemmas example_defs = example_run_def example_events_def example_first_worker_def example_notification_def example_order_def
  example_services_def healthy_at_def upt_rec cny_unit

lemma example_trims: "trim_space ''stripe'' = ''stripe''" "trim_space ''PAY-7-34567'' = ''PAY-7-34567''"
  "recharge_code 7 1234567 = ''PAY-7-34567''"
  by (simp_all add: trim_space_def strip_left.simps strip_one_def utf8_spaces_code recharge_code_def
      decimal.simps digit_char_def)

lemma example_admissible:
  "admissible pay_event_ok (pay_system_step example_services) (empty_pay_db example_balances, []) example_events"
  by (simp add: example_defs pay_evals example_trims)

lemma example_outcome:
  "map_option (\<lambda>r. (po_status r, po_order_type r, po_recharge_code r, po_user_id r, po_amount r))
     (db_orders (fst example_run) 7) = Some (Status_completed, Balance_order, ''PAY-7-34567'', 3, 1000000000)"
  "db_balances (fst example_run) 3 = Some 1000000005"
  "snd example_run = [Finished (Inl Redeem_failed), Finished pay_ok]"
  by (simp_all add: example_defs pay_evals example_trims)

theorem completed_order_granted_once_witness:
  "\<exists>v. \<bar>v - 1000000000\<bar> \<le> 1 \<and>
     filter (\<lambda>(k, u, x). k = ''PAY-7-34567'') (db_credits (fst example_run)) = [(''PAY-7-34567'', 3, v)]"
proof -
  obtain r where r: "db_orders (fst example_run) 7 = Some r" "po_status r = Status_completed"
    "po_order_type r = Balance_order" "po_recharge_code r = ''PAY-7-34567''" "po_user_id r = 3" "po_amount r = 1000000000"
    using example_outcome(1) by auto
  show ?thesis
    using completed_order_granted_once [OF example_admissible, of "fst example_run" "snd example_run" 7 r] r
    by (simp add: example_run_def settled_def)
qed

theorem nothing_paid_twice_witness:
  "length (filter (\<lambda>(k, u, x). k = ''PAY-7-34567'') (db_credits (fst example_run))) \<le> 1"
  using nothing_paid_twice [OF example_admissible, of "fst example_run" "snd example_run"]
  by (simp add: example_run_def)

lemma example_redeemed:
  "map_option (\<lambda>c. (rc_type c, rc_status c, rc_used_by c, rc_value c)) (db_codes (fst example_run) ''PAY-7-34567'') =
     Some (Balance_code, Code_used, Some 3, 1000000000)"
  "db_credits (fst example_run) = [(''PAY-7-34567'', 3, 1000000000)]"
  by (simp_all add: example_defs pay_evals example_trims)

theorem balances_conserved_witness:
  "db_balances (fst example_run) 3 = Some (10 + 1000000000 - 5) \<and> billed 3 example_events = 5"
proof -
  have inv: "pay_db_inv (fst example_run)"
    using pay_run_inv [OF example_admissible, of "fst example_run" "snd example_run"] by (simp add: example_run_def)
  have one: "redeemed 3 (fst example_run) ''PAY-7-34567''" and val: "code_value (fst example_run) ''PAY-7-34567'' = 1000000000"
    using example_redeemed(1) by (auto simp: redeemed_def code_value_def)
  have only: "k = ''PAY-7-34567''" if "redeemed 3 (fst example_run) k" for k
    using ledger_keys(2) [OF inv, rule_format, OF that] unfolding example_redeemed(2) by simp
  with one have k: "{k. redeemed 3 (fst example_run) k} = {''PAY-7-34567''}" by blast
  have nonneg: "\<forall>k. redeemed 3 (fst example_run) k \<longrightarrow> 0 \<le> code_value (fst example_run) k"
    using only val by (metis zero_le_numeral)
  have bill: "billed 3 example_events = 5"
    by (simp add: example_events_def example_first_worker_def upt_rec)
  have run: "run_steps (pay_system_step example_services) (empty_pay_db example_balances, []) example_events =
      (fst example_run, snd example_run)" by (simp add: example_run_def)
  have "\<exists>b'. db_balances (fst example_run) 3 = Some b' \<and> b' = 10 + 1000000000 - 5"
    using balances_conserved [OF example_admissible run, of 3 10] nonneg unfolding k bill by (simp add: val)
  with bill show ?thesis by simp
qed

section \<open>Interrupted work can be finished\<close>

definition healthy :: "pay_env \<Rightarrow> bool" where
  "healthy en \<longleftrightarrow>
     answered en \<and> en_lock en \<and> en_user en \<and> en_cache en \<and> en_rebate en \<noteq> None \<and> en_plan_limit en \<noteq> None"

definition work_alone :: "pay_services \<Rightarrow> pay_db \<times> pay_phase \<Rightarrow> pay_env list \<Rightarrow> pay_db \<times> pay_phase" where
  "work_alone sv = run_steps (\<lambda>(db, ph) en. pay_step sv en db ph)"

definition completed_in :: "int \<Rightarrow> pay_db \<times> pay_phase \<Rightarrow> bool" where
  "completed_in oid x \<longleftrightarrow>
     snd x = Finished pay_ok \<and> map_option po_status (db_orders (fst x) oid) = Some Status_completed"

definition ends_well :: "pay_services \<Rightarrow> int \<Rightarrow> nat \<Rightarrow> pay_db \<Rightarrow> pay_phase \<Rightarrow> bool" where
  "ends_well sv oid n db ph \<longleftrightarrow>
     (\<forall>ens. n \<le> length ens \<longrightarrow> list_all healthy ens \<longrightarrow> completed_in oid (work_alone sv (db, ph) ens))"

lemma ends_well_step:
  assumes "m < n"
    and step: "\<And>en db' ph'. healthy en \<Longrightarrow> pay_step sv en db ph = (db', ph') \<Longrightarrow> ends_well sv oid m db' ph'"
  shows "ends_well sv oid n db ph"
  unfolding ends_well_def
proof (intro allI impI)
  fix ens assume ens: "n \<le> length ens" "list_all healthy ens"
  with assms(1) obtain en rest where e: "ens = en # rest" by (cases ens) auto
  obtain db' ph' where st: "pay_step sv en db ph = (db', ph')" by fastforce
  with step [OF _ st] ens e have "ends_well sv oid m db' ph'" by simp
  with assms(1) ens e st show "completed_in oid (work_alone sv (db, ph) ens)"
    by (simp add: ends_well_def work_alone_def)
qed

lemma ends_well_mono: "ends_well sv oid m db ph \<Longrightarrow> m \<le> n \<Longrightarrow> ends_well sv oid n db ph"
  by (simp add: ends_well_def)

lemma ends_well_finished:
  assumes "map_option po_status (db_orders db oid) = Some Status_completed"
  shows "ends_well sv oid 0 db (Finished pay_ok)"
proof -
  have "work_alone sv (db, Finished pay_ok) ens = (db, Finished pay_ok)" for ens
    by (induction ens) (simp_all add: work_alone_def)
  with assms show ?thesis by (simp add: ends_well_def completed_in_def)
qed

text \<open>The worker still holds its lease.\<close>

definition holding :: "pay_db \<Rightarrow> pay_order \<Rightarrow> instant \<Rightarrow> bool" where
  "holding db r v \<longleftrightarrow>
     (\<exists>x. db_orders db (po_id r) = Some x \<and> po_status x = Status_recharging \<and> po_updated_at x = v)"

lemma holding_cong: "db_orders db' = db_orders db \<Longrightarrow> holding db' r v = holding db r v"
  by (simp add: holding_def)

lemma answered_ok [simp]: "answered en \<Longrightarrow> en_outcome en = Call_ok"
  by (simp add: answered_def)

lemma audit_orders [simp]: "db_orders (audit en oid a db) = db_orders db"
  by (simp add: audit_def write_audit_def)

lemma completing_ends:
  assumes "holding db r v" shows "ends_well sv (po_id r) 1 db (Completing r v a)"
proof (rule ends_well_step [where m = 0])
  fix en db' ph' assume "healthy en" "pay_step sv en db (Completing r v a) = (db', ph')"
  with assms show "ends_well sv (po_id r) 0 db' ph'"
    by (auto simp: mark_completed_def holding_def update_order_def update_order_at_def healthy_def
        effect_def Let_def intro!: ends_well_finished)
qed simp

lemma rebating_ends:
  assumes "holding db r v" shows "ends_well sv (po_id r) 2 db (Rebating r v a)"
proof (rule ends_well_step [where m = 1])
  fix en db' ph' assume "healthy en" "pay_step sv en db (Rebating r v a) = (db', ph')"
  then have "ph' = Completing r v a" "db_orders db' = db_orders db"
    by (auto simp: apply_rebate_def healthy_def Let_def write_audit_def split: if_splits)
  with completing_ends [of db' r v] holding_cong [of db' db] assms show "ends_well sv (po_id r) 1 db' ph'" by simp
qed simp

lemma redeem_reread_ends:
  assumes "holding db r v" "db_codes db (po_recharge_code r) \<noteq> None"
  shows "ends_well sv (po_id r) 3 db (Redeem_reread r v)"
proof (rule ends_well_step [where m = 2])
  fix en db' ph' assume "healthy en" "pay_step sv en db (Redeem_reread r v) = (db', ph')"
  with assms rebating_ends show "ends_well sv (po_id r) 2 db' ph'" by (auto simp: redeem_reread_def healthy_def)
qed simp

text \<open>The code of an order in order to be redeemed: unused, without an expiry, worth the amount.\<close>

definition redeemable :: "pay_db \<Rightarrow> pay_order \<Rightarrow> redeem_code \<Rightarrow> bool" where
  "redeemable db r c \<longleftrightarrow>
     db_codes db (po_recharge_code r) = Some c \<and> code_for r c \<and> rc_status c = Code_unused \<and>
     rc_expires_at c = None \<and> db_balances db (po_user_id r) \<noteq> None"

lemma redeem_commit_ends:
  assumes "holding db r v" "redeemable db r c"
  shows "ends_well sv (po_id r) 4 db (Redeem_commit r v c)"
proof (rule ends_well_step [where m = 3])
  fix en db' ph' assume st: "healthy en" "pay_step sv en db (Redeem_commit r v c) = (db', ph')"
  have "\<exists>d. redeem_tx (sv_grant sv) (po_user_id r) c db = Some d \<and> db_orders d = db_orders db \<and>
      db_codes d (po_recharge_code r) \<noteq> None"
    using assms(2) by (auto simp: redeemable_def code_for_def redeem_tx_def use_code_def
        apply_redeem_balance_adjustment_def update_balance_def)
  with st have "ph' = Redeem_reread r v" "db_orders db' = db_orders db" "db_codes db' (po_recharge_code r) \<noteq> None"
    by (auto simp: redeem_commit_def healthy_def effect_def)
  with redeem_reread_ends [of db' r v] holding_cong [of db' db] assms(1) show "ends_well sv (po_id r) 3 db' ph'"
    by simp
qed simp

lemma redeem_get_ends:
  assumes "holding db r v" "redeemable db r c"
  shows "ends_well sv (po_id r) 5 db (Redeem_get r v)"
proof (rule ends_well_step [where m = 4])
  fix en db' ph' assume st: "healthy en" "pay_step sv en db (Redeem_get r v) = (db', ph')"
  with assms(2) have "ph' = Redeem_commit r v c" "db' = db"
    by (auto simp: redeem_get_def healthy_def redeemable_def code_is_expired_def code_can_use_def code_for_def)
  with redeem_commit_ends [OF assms] show "ends_well sv (po_id r) 4 db' ph'" by simp
qed simp

lemma code_create_ends:
  assumes "holding db r v" "db_codes db (po_recharge_code r) = None" "db_balances db (po_user_id r) \<noteq> None"
    and r: "trim_space (po_recharge_code r) = po_recharge_code r" "po_recharge_code r \<noteq> []" "0 < po_amount r"
  shows "ends_well sv (po_id r) 6 db (Code_create r v)"
proof (rule ends_well_step [where m = 5])
  fix en db' ph' assume st: "healthy en" "pay_step sv en db (Code_create r v) = (db', ph')"
  let ?d = "db\<lparr>db_codes := (db_codes db)(po_recharge_code r \<mapsto> order_code r)\<rparr>"
  from st assms have "ph' = Redeem_get r v" "db' = ?d"
    by (auto simp: create_order_code_def healthy_def Let_def create_code_def order_code_def effect_def)
  moreover have "redeemable ?d r (order_code r)"
    using assms(3) by (simp add: redeemable_def order_code_def code_for_def)
  ultimately show "ends_well sv (po_id r) 5 db' ph'"
    using redeem_get_ends [of ?d r v] holding_cong [of ?d db] assms(1) by simp
qed simp

text \<open>What the code row of an order may be before the work is done.\<close>

definition creditable :: "pay_db \<Rightarrow> pay_order \<Rightarrow> bool" where
  "creditable db r \<longleftrightarrow>
     db_balances db (po_user_id r) \<noteq> None \<and>
     (case db_codes db (po_recharge_code r) of
        None \<Rightarrow> True
      | Some c \<Rightarrow> validate_payment_redeem_code r c \<and> rc_expires_at c = None)"

lemma code_lookup_ends:
  assumes h: "holding db r v" and c: "creditable db r"
    and r: "trim_space (po_recharge_code r) = po_recharge_code r" "po_recharge_code r \<noteq> []" "0 < po_amount r"
  shows "ends_well sv (po_id r) 7 db (Code_lookup r v)"
proof (rule ends_well_step [where m = 6])
  fix en db' ph' assume st: "healthy en" "pay_step sv en db (Code_lookup r v) = (db', ph')"
  show "ends_well sv (po_id r) 6 db' ph'"
  proof (cases "db_codes db (po_recharge_code r)")
    case None
    with st have "ph' = Code_create r v" "db' = db"
      by (auto simp: lookup_code_def healthy_def resolve_redeem_action_def)
    with code_create_ends [OF h None _ r] c show ?thesis by (simp add: creditable_def)
  next
    case (Some x)
    with c have x: "validate_payment_redeem_code r x" "rc_expires_at x = None" by (simp_all add: creditable_def)
    show ?thesis
    proof (cases "rc_status x = Code_used")
      case True
      with st x Some have "ph' = Rebating r v ''RECHARGE_SUCCESS''" "db' = db"
        by (auto simp: lookup_code_def healthy_def resolve_redeem_action_def)
      then show ?thesis by (simp add: ends_well_mono [OF rebating_ends [OF h]])
    next
      case False
      with st x Some have p: "ph' = Redeem_get r v" "db' = db"
        by (auto simp: lookup_code_def healthy_def resolve_redeem_action_def)
      have "rc_status x = Code_unused"
        using x(1) False by (simp add: validate_payment_redeem_code_def split: code_status.splits)
      with x Some c have "redeemable db r x" by (simp add: redeemable_def creditable_def validate_code_for)
      with p show ?thesis by (simp add: ends_well_mono [OF redeem_get_ends [OF h]])
    qed
  qed
qed simp

lemma assign_commit_ends:
  assumes "holding db r v" "\<not> has_audit (po_id r) ''SUBSCRIPTION_ASSIGNED'' db"
  shows "ends_well sv (po_id r) 3 db (Assign_commit r v limit rec)"
proof (rule ends_well_step [where m = 2])
  fix en db' ph' assume st: "healthy en" "pay_step sv en db (Assign_commit r v limit rec) = (db', ph')"
  with assms(2) have "ph' = Rebating r v ''SUBSCRIPTION_SUCCESS''" "db_orders db' = db_orders db"
    by (auto simp: assign_commit_def insert_audit_def healthy_def Let_def effect_def split: if_splits)
  with rebating_ends [of db' r v] holding_cong [of db' db] assms(1) show "ends_well sv (po_id r) 2 db' ph'" by simp
qed simp

lemma assigning_ends:
  assumes "holding db r v"
  shows "ends_well sv (po_id r) 4 db (Assigning r v)"
proof (rule ends_well_step [where m = 3])
  fix en db' ph' assume st: "healthy en" "pay_step sv en db (Assigning r v) = (db', ph')"
  then obtain limit where l: "en_plan_limit en = Some limit" by (auto simp: healthy_def)
  show "ends_well sv (po_id r) 3 db' ph'"
  proof (cases "has_assignment_audit (po_id r) db")
    case True
    with st l have "ph' = Rebating r v ''SUBSCRIPTION_SUCCESS''" "db' = db"
      by (auto simp: assign_read_def healthy_def)
    then show ?thesis by (simp add: ends_well_mono [OF rebating_ends [OF assms]])
  next
    case False
    with st l have "ph' = Assign_commit r v limit (order_wallet r db \<noteq> None)" "db' = db"
      by (auto simp: assign_read_def healthy_def)
    with assign_commit_ends [OF assms] False show ?thesis by (simp add: has_assignment_audit_def)
  qed
qed simp

lemma lease_reload_ends:
  assumes h: "holding db r v" and po: "po_order_type r = kind"
    and c: "kind = Balance_order \<Longrightarrow> creditable db r"
    and r: "trim_space (po_recharge_code r) = po_recharge_code r" "po_recharge_code r \<noteq> []" "0 < po_amount r"
  shows "ends_well sv (po_id r) 8 db (Lease_reload kind r)"
proof (rule ends_well_step [where m = 7])
  fix en db' ph' assume st: "healthy en" "pay_step sv en db (Lease_reload kind r) = (db', ph')"
  with h have "db' = db \<and>
      ph' = (case kind of Balance_order \<Rightarrow> Code_lookup r v | Subscription_order \<Rightarrow> Assigning r v)"
    by (auto simp: reload_lease_def holding_def healthy_def reply_order_def)
  then show "ends_well sv (po_id r) 7 db' ph'"
    using code_lookup_ends [OF h _ r] c ends_well_mono [OF assigning_ends [OF h]]
    by (cases kind) simp_all
qed simp

text \<open>
  C7: Interrupted work can be finished. In every reachable state, a worker that runs alone on an
  order that is paid, failed, or held under a lease older than five minutes, with services that
  answer, completes it after at most eleven calls: whatever earlier workers left behind (a code
  created, a code redeemed, a subscription assigned) is taken up and not repeated. The order itself must be
  one that can be fulfilled: the user of a balance order has a balance row and its code, when it already
  exists, passes the validation of the order and has no expiry; a subscription order names its days.
\<close>

theorem healthy_worker_completes_order:
  assumes "admissible pay_event_ok (pay_system_step sv) (empty_pay_db bs, []) es"
    and "run_steps (pay_system_step sv) (empty_pay_db bs, []) es = (db, ws)"
    and r: "db_orders db oid = Some r"
    and lease: "\<forall>en\<in>set ens. leasable (truncate_micro (en_now en)) r"
    and c: "po_order_type r = Balance_order \<Longrightarrow> creditable db r"
    and days: "po_order_type r = Subscription_order \<Longrightarrow> po_subscription_days r \<noteq> None"
    and ens: "list_all healthy ens" "11 \<le> length ens"
  shows "completed_in oid (work_alone sv (db, Executing oid) ens)"
proof -
  have inv: "pay_db_inv db" by (rule pay_run_inv [OF assms(1,2)])
  have ok: "order_ok db oid r" by (rule inv_order [OF inv r])
  then obtain nanos where oid: "po_id r = oid" "0 < po_amount r" "po_recharge_code r = recharge_code oid nanos"
    by (auto simp: order_ok_def)
  then have code: "trim_space (po_recharge_code r) = po_recharge_code r" "po_recharge_code r \<noteq> []"
    by (simp_all add: recharge_code_trimmed, simp add: recharge_code_def)
  obtain e1 e2 e3 rest where e: "ens = e1 # e2 # e3 # rest" "8 \<le> length rest"
    using ens(2) by (auto simp: numeral_eq_Suc Suc_le_length_iff)
  have h: "healthy e1" "healthy e2" "healthy e3" "list_all healthy rest" using ens(1) e by simp_all
  let ?now = "truncate_micro (en_now e3)"
  let ?db = "db\<lparr>db_orders := (db_orders db)(oid \<mapsto>
      r\<lparr>po_status := Status_recharging, po_updated_at := ?now, po_failed_at := None\<rparr>)\<rparr>"
  have l: "leasable ?now r" using lease e by simp
  then have st: "po_status r \<in> {Status_paid, Status_failed, Status_recharging}" by (auto simp: leasable_def)
  have s1: "pay_step sv e1 db (Executing oid) = (db, Fulfilling (po_order_type r) oid)"
    using h(1) r by (simp add: execute_fulfillment_def reply_order_def healthy_def)
  have s2: "pay_step sv e2 db (Fulfilling (po_order_type r) oid) = (db, Leasing (po_order_type r) r)"
    using h(2) r st days
    by (cases "po_order_type r") (auto simp: start_fulfillment_def reply_order_def healthy_def is_refund_status_def)
  have s3: "pay_step sv e3 db (Leasing (po_order_type r) r) = (?db, Lease_reload (po_order_type r) r)"
    using h(3) r l oid(1) by (simp add: acquire_lease_def update_order_at_def effect_def healthy_def Let_def)
  have "ends_well sv (po_id r) 8 ?db (Lease_reload (po_order_type r) r)"
    by (rule lease_reload_ends [where v = ?now])
      (use c code oid in \<open>simp_all add: holding_def creditable_def\<close>)
  then have "completed_in oid (work_alone sv (?db, Lease_reload (po_order_type r) r) rest)"
    using h(4) e(2) oid(1) by (simp add: ends_well_def)
  then show ?thesis using s1 s2 s3 by (simp add: work_alone_def e)
qed


definition example_interrupted :: pay_system where
  "example_interrupted =
     run_steps (pay_system_step example_services) (empty_pay_db example_balances, []) example_first_worker"

lemma example_interrupted_outcome:
  "map_option (\<lambda>r. (po_status r, po_order_type r, po_recharge_code r, po_user_id r, po_amount r))
     (db_orders (fst example_interrupted) 7) = Some (Status_failed, Balance_order, ''PAY-7-34567'', 3, 1000000000)"
  "db_codes (fst example_interrupted) ''PAY-7-34567'' =
     Some \<lparr>rc_code = ''PAY-7-34567'', rc_type = Balance_code, rc_value = 1000000000, rc_status = Code_used,
       rc_used_by = Some 3, rc_expires_at = None, rc_validity_days = 0\<rparr>"
  "db_balances (fst example_interrupted) 3 = Some 1000000010"
  by (simp_all add: example_interrupted_def example_defs pay_evals example_trims)

theorem healthy_worker_completes_order_witness:
  "completed_in 7 (work_alone example_services (fst example_interrupted, Executing 7) (replicate 11 (healthy_at 20000)))"
proof -
  obtain r where r: "db_orders (fst example_interrupted) 7 = Some r" "po_status r = Status_failed"
    "po_order_type r = Balance_order" "po_recharge_code r = ''PAY-7-34567''" "po_user_id r = 3" "po_amount r = 1000000000"
    using example_interrupted_outcome(1) by auto
  have "admissible pay_event_ok (pay_system_step example_services) (empty_pay_db example_balances, []) example_first_worker"
    using example_admissible by (simp add: example_events_def admissible_append)
  then show ?thesis
    by (rule healthy_worker_completes_order [where r = r and db = "fst example_interrupted" and ws = "snd example_interrupted"])
      (use r example_interrupted_outcome in
        \<open>simp_all add: example_interrupted_def [symmetric] leasable_def creditable_def validate_payment_redeem_code_def
          healthy_def healthy_at_def answered_def list_all_iff\<close>)
qed

end
