(* ===== verification/PaymentRefund.thy ===== *)
theory PaymentRefund
  imports PaymentFulfillment
begin

text \<open>
  Refunds (backend/internal/service/payment_refund.go): the user's request, the attempt of an
  administrator (\<open>PrepareRefund\<close> then \<open>ExecuteRefund\<close>) and the later query of a pending refund, each cut
  at its calls of the database and of the payment provider. A refund takes the balance or the days back,
  asks the provider, and gives them back when the provider fails or has not decided yet. The
  provider, the lookup of its instance and the order's currency are arguments or part of the environment.
\<close>

section \<open>Plans and replies\<close>

datatype deduction_type = No_deduction | Deduct_balance | Deduct_subscription

record refund_plan =
  rp_order :: pay_order
  rp_refund_amount :: amount
  rp_gateway_amount :: amount
  rp_reason :: string
  rp_force :: bool
  rp_deduction :: deduction_type
  rp_balance :: amount
  rp_days :: int
  rp_sub :: int

datatype refund_error =
    Refund_not_found | Refund_forbidden | Refund_invalid_type | Refund_invalid_status | Refund_disabled
  | Provider_lookup_failed | Refund_invalid_amount | Refund_amount_exceeded | Balance_not_enough
  | Refund_conflict | Refund_store_error | Deduction_failed | Refund_gateway_failed | Query_unsupported
  | Query_failed

datatype refund_result =
    Refund_error refund_error
  | Require_force
  | Refund_failure
  | Refund_waiting bool
  | Refund_success amount int
  | Refund_requested_ok

text \<open>
  What the provider's side answers: whether the instance of the order is found and what it allows
  (refunds, refunds by users, whether it can be used, its metadata, queries), and the reply to a refund or query.
\<close>

record provider_instance =
  pi_refund_enabled :: bool
  pi_allow_user_refund :: bool
  pi_usable :: bool
  pi_metadata_ok :: bool
  pi_can_query :: bool

datatype provider_lookup = Lookup_failed | Lookup_none | Lookup_found provider_instance

record refund_response =
  rr_refund_id :: string
  rr_status :: string

record refund_env =
  re_call :: pay_env
  re_provider :: provider_lookup
  re_gateway_error :: bool
  re_gateway_response :: "refund_response option"

definition validate_refund_response :: "refund_response option \<Rightarrow> bool" where
  "validate_refund_response resp \<longleftrightarrow>
     (case resp of
        None \<Rightarrow> False
      | Some r \<Rightarrow> trim_space (rr_status r) \<in> {''success'', ''refunded'', ''pending''})"

datatype refund_phase =
    Requesting int int string
  | Request_balance pay_order string
  | Request_update pay_order string
  | Preparing int paid_amount string bool bool
  | Prepare_deduction refund_plan
  | Locking refund_plan
  | Checking_rollback refund_plan
  | Deducting refund_plan
  | Revoking refund_plan
  | Asking refund_plan
  | Rolling_back refund_plan "string option"
  | Restoring refund_plan bool
  | Marking_failed refund_plan
  | Marking_ok refund_plan
  | Marking_pending refund_plan string bool
  | Querying int
  | Query_detail pay_order
  | Query_gateway pay_order audit_detail
  | Finalize_locate refund_plan bool
  | Finalizing refund_plan
  | Finalize_failed pay_order
  | Query_waiting int
  | Refunded refund_result

abbreviation re_answered :: "refund_env \<Rightarrow> bool" where "re_answered en \<equiv> answered (re_call en)"
abbreviation re_effect :: "refund_env \<Rightarrow> pay_db \<Rightarrow> pay_db \<Rightarrow> pay_db" where "re_effect en \<equiv> effect (re_call en)"
abbreviation re_audit :: "refund_env \<Rightarrow> int \<Rightarrow> string \<Rightarrow> pay_db \<Rightarrow> pay_db" where "re_audit en \<equiv> audit (re_call en)"
abbreviation re_now :: "refund_env \<Rightarrow> instant" where "re_now en \<equiv> en_now (re_call en)"

section \<open>The user's request\<close>

definition validate_refund_request :: "refund_env \<Rightarrow> pay_db \<Rightarrow> int \<Rightarrow> int \<Rightarrow> string \<Rightarrow> refund_phase" where
  "validate_refund_request en db oid uid reason =
     (case reply_order (re_call en) oid db of
        None \<Rightarrow> Refunded (Refund_error Refund_not_found)
      | Some ord \<Rightarrow>
          if po_user_id ord \<noteq> uid then Refunded (Refund_error Refund_forbidden)
          else if po_order_type ord \<noteq> Balance_order then Refunded (Refund_error Refund_invalid_type)
          else if po_status ord \<noteq> Status_completed then Refunded (Refund_error Refund_invalid_status)
          else (case re_provider en of
                  Lookup_found pin \<Rightarrow>
                    if pi_allow_user_refund pin then Request_balance ord reason
                    else Refunded (Refund_error Refund_disabled)
                | _ \<Rightarrow> Refunded (Refund_error Refund_disabled)))"

definition request_balance :: "refund_env \<Rightarrow> pay_db \<Rightarrow> pay_order \<Rightarrow> string \<Rightarrow> refund_phase" where
  "request_balance en db ord reason =
     (case (if re_answered en then db_balances db (po_user_id ord) else None) of
        None \<Rightarrow> Refunded (Refund_error Refund_store_error)
      | Some b \<Rightarrow>
          if b < po_amount ord then Refunded (Refund_error Balance_not_enough) else Request_update ord reason)"

definition request_update :: "refund_env \<Rightarrow> pay_db \<Rightarrow> pay_order \<Rightarrow> string \<Rightarrow> pay_db \<times> refund_phase" where
  "request_update en db ord reason =
     (case update_order (re_now en) (po_id ord)
             (\<lambda>r. po_user_id r = po_user_id ord \<and> po_status r = Status_completed \<and> po_order_type r = Balance_order)
             (\<lambda>r. r\<lparr>po_status := Status_refund_requested, po_refund_request_reason := Some (trim_space reason),
                po_refund_amount := po_amount ord\<rparr>) db of
        (matched, db') \<Rightarrow>
          let db1 = re_effect en db db'
          in if \<not> re_answered en then (db1, Refunded (Refund_error Refund_store_error))
             else if \<not> matched then (db1, Refunded (Refund_error Refund_conflict))
             else (re_audit en (po_id ord) ''REFUND_REQUESTED'' db1, Refunded Refund_requested_ok))"

section \<open>Preparing\<close>

definition refundable :: "order_status \<Rightarrow> bool" where
  "refundable st \<longleftrightarrow>
     st \<in> {Status_completed, Status_refund_requested, Status_refund_pending, Status_refund_failed}"

definition refund_reason :: "pay_order \<Rightarrow> string \<Rightarrow> string" where
  "refund_reason ord reason =
     (let rr = trim_space reason;
          rr' = (if rr = [] then (case po_refund_request_reason ord of None \<Rightarrow> rr | Some x \<Rightarrow> x) else rr)
      in if rr' = [] then ''refund order:'' @ decimal (nat (po_id ord)) else rr')"

definition prepare_refund ::
    "pay_services \<Rightarrow> refund_env \<Rightarrow> pay_db \<Rightarrow> int \<Rightarrow> paid_amount \<Rightarrow> string \<Rightarrow> bool \<Rightarrow> bool \<Rightarrow> refund_phase" where
  "prepare_refund sv en db oid amt reason force deduct =
     (case reply_order (re_call en) oid db of
        None \<Rightarrow> Refunded (Refund_error Refund_not_found)
      | Some ord \<Rightarrow>
          if \<not> refundable (po_status ord) then Refunded (Refund_error Refund_invalid_status)
          else (case re_provider en of
                  Lookup_failed \<Rightarrow> Refunded (Refund_error Provider_lookup_failed)
                | Lookup_none \<Rightarrow> Refunded (Refund_error Refund_disabled)
                | Lookup_found pin \<Rightarrow>
                    if \<not> pi_refund_enabled pin then Refunded (Refund_error Refund_disabled)
                    else (case amt of
                            Finite x \<Rightarrow>
                              let amount = (if x \<le> 0 then po_amount ord else x);
                                  currency = sv_currency sv ord;
                                  plan = \<lparr>rp_order = ord, rp_refund_amount = amount,
                                    rp_gateway_amount = calculate_gateway_refund_amount (po_amount ord)
                                      (po_pay_amount ord) amount currency,
                                    rp_reason = refund_reason ord reason, rp_force = force,
                                    rp_deduction = No_deduction, rp_balance = 0, rp_days = 0, rp_sub = 0\<rparr>
                              in if amount_tolerance (currency_minor_unit currency) < amount - po_amount ord
                                 then Refunded (Refund_error Refund_amount_exceeded)
                                 else if deduct then Prepare_deduction plan else Locking plan
                          | _ \<Rightarrow> Refunded (Refund_error Refund_invalid_amount))))"

text \<open>\<open>prepDeduct\<close>: the plan with its deduction, or \<open>None\<close> when the administrator has to force it.\<close>

definition prep_deduct :: "refund_env \<Rightarrow> pay_db \<Rightarrow> refund_plan \<Rightarrow> bool \<Rightarrow> refund_plan option" where
  "prep_deduct en db plan force =
     (let ord = rp_order plan
      in case po_order_type ord of
           Subscription_order \<Rightarrow>
             let p1 = plan\<lparr>rp_deduction := Deduct_subscription\<rparr>
             in (case po_subscription_days ord of
                   None \<Rightarrow> Some p1
                 | Some d \<Rightarrow>
                     let p2 = p1\<lparr>rp_days := d\<rparr>
                     in (case (if re_answered en then order_wallet ord db else None) of
                           Some w \<Rightarrow> Some (p2\<lparr>rp_sub := wa_id w\<rparr>)
                         | None \<Rightarrow> if force then Some p2 else None))
         | Balance_order \<Rightarrow>
             (case (if re_answered en then db_balances db (po_user_id ord) else None) of
                None \<Rightarrow> if force then Some plan else None
              | Some b \<Rightarrow>
                  if b < rp_refund_amount plan \<and> \<not> force then None
                  else Some (plan\<lparr>rp_deduction := Deduct_balance,
                         rp_balance := max 0 (min (rp_refund_amount plan) b)\<rparr>)))"

definition prepare_deduction :: "refund_env \<Rightarrow> pay_db \<Rightarrow> refund_plan \<Rightarrow> refund_phase" where
  "prepare_deduction en db plan =
     (case prep_deduct en db plan (rp_force plan) of None \<Rightarrow> Refunded Require_force | Some p \<Rightarrow> Locking p)"

section \<open>Taking back\<close>

definition deducts_balance :: "refund_plan \<Rightarrow> bool" where
  "deducts_balance plan \<longleftrightarrow> rp_deduction plan = Deduct_balance \<and> 0 < rp_balance plan"

definition deducts_days :: "refund_plan \<Rightarrow> bool" where
  "deducts_days plan \<longleftrightarrow> rp_deduction plan = Deduct_subscription \<and> 0 < rp_days plan \<and> 0 < rp_sub plan"

definition lock_refund :: "refund_env \<Rightarrow> pay_db \<Rightarrow> refund_plan \<Rightarrow> pay_db \<times> refund_phase" where
  "lock_refund en db plan =
     (case update_order (re_now en) (po_id (rp_order plan)) (\<lambda>r. refundable (po_status r))
             (\<lambda>r. r\<lparr>po_status := Status_refunding\<rparr>) db of
        (matched, db') \<Rightarrow>
          (re_effect en db db',
           if \<not> re_answered en then Refunded (Refund_error Refund_store_error)
           else if \<not> matched then Refunded (Refund_error Refund_conflict)
           else if deducts_balance plan \<or> deducts_days plan then Checking_rollback plan
           else Asking plan))"

text \<open>A failed read of the audit log counts as no entry.\<close>

definition check_rollback :: "refund_env \<Rightarrow> pay_db \<Rightarrow> refund_plan \<Rightarrow> refund_phase" where
  "check_rollback en db plan =
     (if re_answered en \<and> has_audit (po_id (rp_order plan)) ''REFUND_ROLLBACK_FAILED'' db
      then Asking (if deducts_balance plan then plan\<lparr>rp_balance := 0\<rparr> else plan\<lparr>rp_days := 0\<rparr>)
      else Deducting plan)"

definition take_balance :: "int \<Rightarrow> int \<Rightarrow> amount \<Rightarrow> pay_db \<Rightarrow> (amount \<times> pay_db) option" where
  "take_balance oid uid want db =
     (case deduct_available_balance uid want db of
        None \<Rightarrow> None
      | Some (taken, db') \<Rightarrow> Some (taken, db'\<lparr>db_refunds := db_refunds db' @ [(oid, taken)]\<rparr>))"

definition deduct :: "refund_env \<Rightarrow> pay_db \<Rightarrow> refund_plan \<Rightarrow> pay_db \<times> refund_phase" where
  "deduct en db plan =
     (let ord = rp_order plan
      in if deducts_balance plan
         then (case take_balance (po_id ord) (po_user_id ord) (rp_balance plan) db of
                 None \<Rightarrow> (db, Restoring plan False)
               | Some (taken, db') \<Rightarrow>
                   (re_effect en db db',
                    if re_answered en then Asking (plan\<lparr>rp_balance := taken\<rparr>) else Restoring plan False))
         else (case extend_subscription (re_now en) (rp_sub plan) (- rp_days plan) db of
                 Inr db' \<Rightarrow> (re_effect en db db', if re_answered en then Asking plan else Restoring plan False)
               | Inl Adjust_would_expire \<Rightarrow>
                   (db, if re_answered en then Revoking plan else Restoring plan False)
               | Inl _ \<Rightarrow> (db, Restoring plan False)))"

definition revoke :: "refund_env \<Rightarrow> pay_db \<Rightarrow> refund_plan \<Rightarrow> pay_db \<times> refund_phase" where
  "revoke en db plan =
     (case revoke_subscription (rp_sub plan) db of
        None \<Rightarrow> (db, Restoring plan False)
      | Some db' \<Rightarrow>
          (re_effect en db db',
           if re_answered en \<and> en_cache (re_call en) then Asking plan else Restoring plan False))"

section \<open>The provider's answer\<close>

definition gw_refund :: "refund_env \<Rightarrow> pay_db \<Rightarrow> refund_plan \<Rightarrow> pay_db \<times> refund_response option" where
  "gw_refund en db plan =
     (let ord = rp_order plan
      in if po_payment_trade_no ord = []
         then (re_audit en (po_id ord) ''REFUND_NO_TRADE_NO'' db,
               Some \<lparr>rr_refund_id = [], rr_status = ''success''\<rparr>)
         else case re_provider en of
           Lookup_found pin \<Rightarrow>
             if \<not> pi_usable pin then (db, None)
             else if \<not> pi_metadata_ok pin
             then (re_audit en (po_id ord) ''REFUND_PROVIDER_METADATA_MISMATCH'' db, None)
             else (db,
               if re_gateway_error en
               then (case re_gateway_response en of
                       Some r \<Rightarrow> if trim_space (rr_status r) = ''pending'' then Some r else None
                     | None \<Rightarrow> None)
               else if validate_refund_response (re_gateway_response en) then re_gateway_response en
               else None)
         | _ \<Rightarrow> (db, None))"

definition ask_gateway :: "refund_env \<Rightarrow> pay_db \<Rightarrow> refund_plan \<Rightarrow> pay_db \<times> refund_phase" where
  "ask_gateway en db plan =
     (case gw_refund en db plan of
        (db', None) \<Rightarrow> (db', Rolling_back plan None)
      | (db', Some r) \<Rightarrow>
          (db',
           if \<not> validate_refund_response (Some r) then Rolling_back plan None
           else if trim_space (rr_status r) = ''pending'' then Rolling_back plan (Some (trim_space (rr_refund_id r)))
           else Marking_ok plan))"

text \<open>
  \<open>RollbackRefund\<close>, then what its caller does next: \<open>handleGwFail\<close> for no refund number,
  \<open>markRefundPending\<close> otherwise.
\<close>

definition after_rollback :: "refund_plan \<Rightarrow> string option \<Rightarrow> bool \<Rightarrow> refund_phase" where
  "after_rollback plan pending ok =
     (case pending of
        None \<Rightarrow> if ok then Restoring plan True else Marking_failed plan
      | Some rid \<Rightarrow> Marking_pending (if ok then plan\<lparr>rp_balance := 0, rp_days := 0\<rparr> else plan) rid ok)"

definition rollback :: "refund_env \<Rightarrow> pay_db \<Rightarrow> refund_plan \<Rightarrow> string option \<Rightarrow> pay_db \<times> refund_phase" where
  "rollback en db plan pending =
     (let oid = po_id (rp_order plan)
      in case (if deducts_balance plan
               then map_option (\<lambda>d. d\<lparr>db_refunds := db_refunds d @ [(oid, - rp_balance plan)]\<rparr>)
                      (update_balance (po_user_id (rp_order plan)) (rp_balance plan) db)
               else if deducts_days plan
               then (case extend_subscription (re_now en) (rp_sub plan) (rp_days plan) db of
                       Inl _ \<Rightarrow> None | Inr d \<Rightarrow> Some d)
               else Some db) of
           None \<Rightarrow> (re_audit en oid ''REFUND_ROLLBACK_FAILED'' db, after_rollback plan pending False)
         | Some d \<Rightarrow>
             if re_answered en \<or> \<not> (deducts_balance plan \<or> deducts_days plan)
             then (d, after_rollback plan pending True)
             else (re_audit en oid ''REFUND_ROLLBACK_FAILED'' (re_effect en db d), after_rollback plan pending False))"

definition restore_status :: "refund_env \<Rightarrow> pay_db \<Rightarrow> refund_plan \<Rightarrow> bool \<Rightarrow> pay_db \<times> refund_phase" where
  "restore_status en db plan gateway_failed =
     (let oid = po_id (rp_order plan);
          rs = (if po_status (rp_order plan) = Status_refund_requested then Status_refund_requested
                else Status_completed);
          db' = snd (update_order (re_now en) oid (\<lambda>_. True) (\<lambda>r. r\<lparr>po_status := rs\<rparr>) db);
          db1 = re_effect en db db'
      in if gateway_failed then (re_audit en oid ''REFUND_GATEWAY_FAILED'' db1, Refunded Refund_failure)
         else (db1, Refunded (Refund_error Deduction_failed)))"

definition mark_refund_failed :: "refund_env \<Rightarrow> pay_db \<Rightarrow> int \<Rightarrow> refund_result \<Rightarrow> pay_db \<times> refund_phase" where
  "mark_refund_failed en db oid result =
     (let db' = snd (update_order (re_now en) oid (\<lambda>_. True)
                  (\<lambda>r. r\<lparr>po_status := Status_refund_failed, po_failed_at := Some (re_now en)\<rparr>) db)
      in (re_audit en oid ''REFUND_FAILED'' (re_effect en db db'), Refunded result))"

definition refunded_row :: "instant \<Rightarrow> refund_plan \<Rightarrow> pay_order \<Rightarrow> pay_order" where
  "refunded_row now plan r =
     r\<lparr>po_status := (if rp_refund_amount plan < po_amount (rp_order plan) then Status_partially_refunded
                     else Status_refunded),
       po_refund_amount := rp_refund_amount plan, po_refund_reason := Some (rp_reason plan),
       po_refund_at := Some now, po_force_refund := rp_force plan\<rparr>"

definition mark_refund_ok :: "refund_env \<Rightarrow> pay_db \<Rightarrow> refund_plan \<Rightarrow> pay_db \<times> refund_phase" where
  "mark_refund_ok en db plan =
     (let oid = po_id (rp_order plan)
      in case update_order (re_now en) oid (\<lambda>_. True) (refunded_row (re_now en) plan) db of
           (matched, db') \<Rightarrow>
             let db1 = re_effect en db db'
             in if \<not> re_answered en \<or> \<not> matched then (db1, Refunded (Refund_error Refund_store_error))
                else (re_audit en oid ''REFUND_SUCCESS'' db1, Refunded (Refund_success (rp_balance plan) (rp_days plan))))"

definition mark_refund_pending ::
    "refund_env \<Rightarrow> pay_db \<Rightarrow> refund_plan \<Rightarrow> string \<Rightarrow> bool \<Rightarrow> pay_db \<times> refund_phase" where
  "mark_refund_pending en db plan rid ok =
     (let oid = po_id (rp_order plan)
      in case update_order (re_now en) oid (\<lambda>_. True)
                (\<lambda>r. r\<lparr>po_status := Status_refund_pending, po_refund_amount := rp_refund_amount plan,
                   po_refund_reason := Some (rp_reason plan), po_refund_at := None,
                   po_force_refund := rp_force plan, po_failed_at := None\<rparr>) db of
           (matched, db') \<Rightarrow>
             let db1 = re_effect en db db'
             in if \<not> re_answered en \<or> \<not> matched then (db1, Refunded (Refund_error Refund_store_error))
                else ((if en_audit (re_call en)
                       then write_audit_detail oid ''REFUND_PENDING'' \<lparr>ad_refund_id = rid, ad_rollback_ok = Some ok\<rparr> db1
                       else db1),
                      Refunded (Refund_waiting ok)))"

section \<open>Querying a pending refund\<close>

definition query_refund_order :: "refund_env \<Rightarrow> pay_db \<Rightarrow> int \<Rightarrow> refund_phase" where
  "query_refund_order en db oid =
     (case reply_order (re_call en) oid db of
        None \<Rightarrow> Refunded (Refund_error Refund_not_found)
      | Some ord \<Rightarrow>
          if po_status ord \<noteq> Status_refund_pending then Refunded (Refund_error Refund_invalid_status)
          else (case re_provider en of
                  Lookup_found pin \<Rightarrow>
                    if \<not> pi_usable pin then Refunded (Refund_error Provider_lookup_failed)
                    else if \<not> pi_can_query pin then Refunded (Refund_error Query_unsupported)
                    else Query_detail ord
                | _ \<Rightarrow> Refunded (Refund_error Provider_lookup_failed)))"

text \<open>The audit rows are unique per order and action, so the latest pending detail is the only one.\<close>

definition latest_refund_pending_detail :: "refund_env \<Rightarrow> pay_db \<Rightarrow> int \<Rightarrow> audit_detail" where
  "latest_refund_pending_detail en db oid =
     (case (if re_answered en then find (\<lambda>r. au_order r = oid \<and> au_action r = ''REFUND_PENDING'') (db_audits db)
            else None) of
        None \<Rightarrow> \<lparr>ad_refund_id = [], ad_rollback_ok = Some True\<rparr>
      | Some row \<Rightarrow>
          \<lparr>ad_refund_id = trim_space (ad_refund_id (au_detail row)),
           ad_rollback_ok = (case ad_rollback_ok (au_detail row) of None \<Rightarrow> Some True | Some b \<Rightarrow> Some b)\<rparr>)"

definition refund_finalize_plan :: "pay_services \<Rightarrow> pay_order \<Rightarrow> refund_plan" where
  "refund_finalize_plan sv ord =
     (let reason = trim_space (case po_refund_reason ord of None \<Rightarrow> [] | Some x \<Rightarrow> x)
      in \<lparr>rp_order = ord, rp_refund_amount = po_refund_amount ord,
          rp_gateway_amount = calculate_gateway_refund_amount (po_amount ord) (po_pay_amount ord)
            (po_refund_amount ord) (sv_currency sv ord),
          rp_reason = (if reason = [] then ''refund order:'' @ decimal (nat (po_id ord)) else reason),
          rp_force = po_force_refund ord, rp_deduction = Deduct_balance,
          rp_balance = (if po_order_type ord = Balance_order then po_refund_amount ord else 0),
          rp_days = 0, rp_sub = 0\<rparr>)"

definition after_query :: "refund_plan \<Rightarrow> bool \<Rightarrow> refund_phase" where
  "after_query plan succeeded = (if succeeded then Finalizing plan else Query_waiting (po_id (rp_order plan)))"

definition query_gateway :: "pay_services \<Rightarrow> refund_env \<Rightarrow> pay_order \<Rightarrow> audit_detail \<Rightarrow> refund_phase" where
  "query_gateway sv en ord detail =
     (if re_gateway_error en then Refunded (Refund_error Query_failed)
      else case re_gateway_response en of
        None \<Rightarrow> Finalize_failed ord
      | Some r \<Rightarrow>
          if \<not> validate_refund_response (Some r) then Finalize_failed ord
          else
            let plan = refund_finalize_plan sv ord;
                succeeded = (trim_space (rr_status r) \<noteq> ''pending'')
            in if ad_rollback_ok detail = Some False then after_query (plan\<lparr>rp_balance := 0, rp_days := 0\<rparr>) succeeded
               else if po_order_type ord = Subscription_order then Finalize_locate plan succeeded
               else after_query plan succeeded)"

definition finalize_locate :: "refund_env \<Rightarrow> pay_db \<Rightarrow> refund_plan \<Rightarrow> bool \<Rightarrow> refund_phase" where
  "finalize_locate en db plan succeeded =
     (case prep_deduct en db plan True of
        None \<Rightarrow> Refunded Require_force
      | Some p \<Rightarrow> after_query p succeeded)"

text \<open>\<open>applyRefundFinalDeduction\<close>: the deduction inside the transaction; \<open>None\<close> rolls it back.\<close>

definition apply_refund_final_deduction :: "instant \<Rightarrow> refund_plan \<Rightarrow> pay_db \<Rightarrow> (refund_plan \<times> pay_db) option" where
  "apply_refund_final_deduction now plan db =
     (let ord = rp_order plan
      in if deducts_balance plan
         then (case take_balance (po_id ord) (po_user_id ord) (rp_balance plan) db of
                 None \<Rightarrow> None | Some (taken, db') \<Rightarrow> Some (plan\<lparr>rp_balance := taken\<rparr>, db'))
         else if deducts_days plan
         then (case extend_subscription now (rp_sub plan) (- rp_days plan) db of
                 Inr db' \<Rightarrow> Some (plan, db')
               | Inl Adjust_would_expire \<Rightarrow> map_option (\<lambda>d. (plan, d)) (revoke_subscription (rp_sub plan) db)
               | Inl _ \<Rightarrow> None)
         else Some (plan, db))"

definition finalize_pending_refund :: "refund_env \<Rightarrow> pay_db \<Rightarrow> refund_plan \<Rightarrow> pay_db \<times> refund_phase" where
  "finalize_pending_refund en db plan =
     (let oid = po_id (rp_order plan); now = re_now en
      in case update_order now oid (\<lambda>r. po_status r = Status_refund_pending)
                (\<lambda>r. r\<lparr>po_status := Status_refunding\<rparr>) db of
           (matched, db1) \<Rightarrow>
             if \<not> matched then (db, Refunded (Refund_error (if re_answered en then Refund_conflict else Refund_store_error)))
             else case apply_refund_final_deduction now plan db1 of
               None \<Rightarrow> (db, Refunded (Refund_error Deduction_failed))
             | Some (p, db2) \<Rightarrow>
                 (case insert_audit oid ''REFUND_SUCCESS'' no_detail
                         (snd (update_order now oid (\<lambda>_. True) (refunded_row now p) db2)) of
                    None \<Rightarrow> (db, Refunded (Refund_error Refund_store_error))
                  | Some db3 \<Rightarrow>
                      (re_effect en db db3,
                       Refunded (if re_answered en then Refund_success (rp_balance p) (rp_days p)
                                 else Refund_error Refund_store_error))))"

section \<open>Steps\<close>

fun refund_step :: "pay_services \<Rightarrow> refund_env \<Rightarrow> pay_db \<Rightarrow> refund_phase \<Rightarrow> pay_db \<times> refund_phase" where
  "refund_step sv en db (Requesting oid uid reason) = (db, validate_refund_request en db oid uid reason)"
| "refund_step sv en db (Request_balance ord reason) = (db, request_balance en db ord reason)"
| "refund_step sv en db (Request_update ord reason) = request_update en db ord reason"
| "refund_step sv en db (Preparing oid amt reason force back) = (db, prepare_refund sv en db oid amt reason force back)"
| "refund_step sv en db (Prepare_deduction plan) = (db, prepare_deduction en db plan)"
| "refund_step sv en db (Locking plan) = lock_refund en db plan"
| "refund_step sv en db (Checking_rollback plan) = (db, check_rollback en db plan)"
| "refund_step sv en db (Deducting plan) = deduct en db plan"
| "refund_step sv en db (Revoking plan) = revoke en db plan"
| "refund_step sv en db (Asking plan) = ask_gateway en db plan"
| "refund_step sv en db (Rolling_back plan pending) = rollback en db plan pending"
| "refund_step sv en db (Restoring plan failed) = restore_status en db plan failed"
| "refund_step sv en db (Marking_failed plan) =
     mark_refund_failed en db (po_id (rp_order plan)) (Refund_error Refund_gateway_failed)"
| "refund_step sv en db (Marking_ok plan) = mark_refund_ok en db plan"
| "refund_step sv en db (Marking_pending plan rid ok) = mark_refund_pending en db plan rid ok"
| "refund_step sv en db (Querying oid) = (db, query_refund_order en db oid)"
| "refund_step sv en db (Query_detail ord) = (db, Query_gateway ord (latest_refund_pending_detail en db (po_id ord)))"
| "refund_step sv en db (Query_gateway ord detail) = (db, query_gateway sv en ord detail)"
| "refund_step sv en db (Finalize_locate plan succeeded) = (db, finalize_locate en db plan succeeded)"
| "refund_step sv en db (Finalizing plan) = finalize_pending_refund en db plan"
| "refund_step sv en db (Finalize_failed ord) = mark_refund_failed en db (po_id ord) Refund_failure"
| "refund_step sv en db (Query_waiting oid) = (re_audit en oid ''REFUND_QUERY_PENDING'' db, Refunded (Refund_waiting True))"
| "refund_step sv en db (Refunded r) = (db, Refunded r)"

section \<open>The system\<close>

text \<open>
  Any number of handlers on one database. Money moves elsewhere, too: \<open>Other_movement\<close> is any other change of
  a balance.
\<close>

datatype refund_event =
    Start_refund refund_phase
  | Refund_work nat refund_env
  | Other_movement int amount

type_synonym refund_system = "pay_db \<times> refund_phase list"

fun refund_entry :: "refund_phase \<Rightarrow> bool" where
  "refund_entry (Requesting oid uid reason) \<longleftrightarrow> True"
| "refund_entry (Preparing oid amt reason force back) \<longleftrightarrow> True"
| "refund_entry (Querying oid) \<longleftrightarrow> True"
| "refund_entry _ \<longleftrightarrow> False"

fun refund_system_step :: "pay_services \<Rightarrow> refund_system \<Rightarrow> refund_event \<Rightarrow> refund_system" where
  "refund_system_step sv (db, ws) (Start_refund ph) = (db, ws @ [ph])"
| "refund_system_step sv (db, ws) (Refund_work i en) =
     (case refund_step sv en db (ws ! i) of (db', ph) \<Rightarrow> (db', ws[i := ph]))"
| "refund_system_step sv (db, ws) (Other_movement uid x) =
     (case update_balance uid x db of None \<Rightarrow> (db, ws) | Some db' \<Rightarrow> (db', ws))"

text \<open>
  What the environment is assumed to spare the handlers: the reply of a deduction is not lost, a rollback does
  not fail, and a query that ends as failed makes its unguarded write while the order is REFUND_PENDING.
\<close>

fun refund_event_ok :: "refund_system \<Rightarrow> refund_event \<Rightarrow> bool" where
  "refund_event_ok (db, ws) (Start_refund ph) \<longleftrightarrow> refund_entry ph"
| "refund_event_ok (db, ws) (Refund_work i en) \<longleftrightarrow>
     i < length ws \<and>
     (case ws ! i of
        Deducting plan \<Rightarrow> en_outcome (re_call en) \<noteq> Reply_lost
      | Rolling_back plan pending \<Rightarrow> en_outcome (re_call en) = Call_ok
      | Finalize_failed ord \<Rightarrow> map_option po_status (db_orders db (po_id ord)) = Some Status_refund_pending
      | _ \<Rightarrow> True)"
| "refund_event_ok (db, ws) (Other_movement uid x) \<longleftrightarrow> True"

definition taken_back :: "int \<Rightarrow> pay_db \<Rightarrow> amount" where
  "taken_back oid db = sum_list (map (\<lambda>(o', x). if o' = oid then x else 0) (db_refunds db))"

end
