(* ===== verification/RefundInvariant.thy ===== *)
theory RefundInvariant
  imports PaymentRefund PaymentInvariant
begin

text \<open>
  The invariant of refunds: at most one handler owns an order, what it has taken is what the ledger
  \<open>db_refunds\<close> says, and an order that can still be refunded has nothing taken. Each step of a
  handler keeps a contract about its own order (\<open>refund_contract\<close>); the contracts together keep the
  invariant of the whole system.
\<close>

section \<open>Who owes an order its balance\<close>

definition owed :: "refund_plan \<Rightarrow> amount" where
  "owed plan = (if rp_deduction plan = Deduct_balance then rp_balance plan else 0)"

text \<open>A handler between its lock and its last write, with what it has taken and not returned.\<close>

fun owes :: "refund_phase \<Rightarrow> amount option" where
  "owes (Checking_rollback plan) = Some 0"
| "owes (Deducting plan) = Some 0"
| "owes (Revoking plan) = Some 0"
| "owes (Asking plan) = Some (owed plan)"
| "owes (Rolling_back plan pending) = Some (owed plan)"
| "owes (Restoring plan failed) = Some 0"
| "owes (Marking_failed plan) = Some 0"
| "owes (Marking_ok plan) = Some (owed plan)"
| "owes (Marking_pending plan rid ok) = Some 0"
| "owes _ = None"

fun phase_plan :: "refund_phase \<Rightarrow> refund_plan option" where
  "phase_plan (Prepare_deduction plan) = Some plan"
| "phase_plan (Locking plan) = Some plan"
| "phase_plan (Checking_rollback plan) = Some plan"
| "phase_plan (Deducting plan) = Some plan"
| "phase_plan (Revoking plan) = Some plan"
| "phase_plan (Asking plan) = Some plan"
| "phase_plan (Rolling_back plan pending) = Some plan"
| "phase_plan (Restoring plan failed) = Some plan"
| "phase_plan (Marking_failed plan) = Some plan"
| "phase_plan (Marking_ok plan) = Some plan"
| "phase_plan (Marking_pending plan rid ok) = Some plan"
| "phase_plan (Finalize_locate plan succeeded) = Some plan"
| "phase_plan (Finalizing plan) = Some plan"
| "phase_plan _ = None"

fun refund_subject :: "refund_phase \<Rightarrow> int" where
  "refund_subject (Requesting oid uid reason) = oid"
| "refund_subject (Request_balance ord reason) = po_id ord"
| "refund_subject (Request_update ord reason) = po_id ord"
| "refund_subject (Preparing oid amt reason force back) = oid"
| "refund_subject (Querying oid) = oid"
| "refund_subject (Query_detail ord) = po_id ord"
| "refund_subject (Query_gateway ord detail) = po_id ord"
| "refund_subject (Finalize_failed ord) = po_id ord"
| "refund_subject (Query_waiting oid) = oid"
| "refund_subject (Refunded r) = 0"
| "refund_subject ph = (case phase_plan ph of Some plan \<Rightarrow> po_id (rp_order plan) | None \<Rightarrow> 0)"

section \<open>The invariant\<close>

text \<open>A refund exceeds the order's amount by less than the tolerance of a currency, at most 0.01.\<close>

definition refund_bound :: "pay_order \<Rightarrow> amount" where
  "refund_bound r = po_amount r + 10 ^ 6"

definition refund_orders_ok :: "pay_db \<Rightarrow> bool" where
  "refund_orders_ok db \<longleftrightarrow>
     (\<forall>oid r. db_orders db oid = Some r \<longrightarrow>
        po_id r = oid \<and> 0 < po_amount r \<and> 0 \<le> po_refund_amount r \<and> po_refund_amount r \<le> refund_bound r)"

definition order_copy :: "pay_db \<Rightarrow> pay_order \<Rightarrow> bool" where
  "order_copy db ord \<longleftrightarrow> snapshot db ord \<and> 0 < po_amount ord \<and> 0 \<le> po_refund_amount ord \<and>
     po_refund_amount ord \<le> refund_bound ord"

text \<open>A plan is for an existing order and takes no more than the refund.\<close>

definition plan_ok :: "pay_db \<Rightarrow> refund_plan \<Rightarrow> bool" where
  "plan_ok db plan \<longleftrightarrow>
     order_copy db (rp_order plan) \<and> 0 \<le> rp_refund_amount plan \<and> rp_refund_amount plan \<le> refund_bound (rp_order plan) \<and>
     0 \<le> rp_balance plan \<and> rp_balance plan \<le> rp_refund_amount plan"

definition funded :: "pay_db \<Rightarrow> refund_plan \<Rightarrow> bool" where
  "funded db plan \<longleftrightarrow> (0 < owed plan \<longrightarrow> db_balances db (po_user_id (rp_order plan)) \<noteq> None)"

definition refund_phase_ok :: "pay_db \<Rightarrow> refund_phase \<Rightarrow> bool" where
  "refund_phase_ok db ph \<longleftrightarrow>
     (case phase_plan ph of Some plan \<Rightarrow> plan_ok db plan | None \<Rightarrow> True) \<and>
     (case ph of
        Request_balance ord reason \<Rightarrow> order_copy db ord
      | Request_update ord reason \<Rightarrow> order_copy db ord
      | Query_detail ord \<Rightarrow> order_copy db ord
      | Query_gateway ord detail \<Rightarrow> order_copy db ord
      | Finalize_failed ord \<Rightarrow> order_copy db ord
      | Prepare_deduction plan \<Rightarrow> rp_balance plan = 0
      | Finalize_locate plan succeeded \<Rightarrow> rp_balance plan = 0
      | Revoking plan \<Rightarrow> \<not> deducts_balance plan
      | Asking plan \<Rightarrow> funded db plan
      | Rolling_back plan pending \<Rightarrow> funded db plan
      | _ \<Rightarrow> True)"

definition holds :: "pay_db \<Rightarrow> int \<Rightarrow> amount \<Rightarrow> bool" where
  "holds db oid x \<longleftrightarrow> map_option po_status (db_orders db oid) = Some Status_refunding \<and> taken_back oid db = x"

definition free_ok :: "pay_db \<Rightarrow> int \<Rightarrow> bool" where
  "free_ok db oid \<longleftrightarrow>
     (case db_orders db oid of
        None \<Rightarrow> taken_back oid db = 0
      | Some r \<Rightarrow>
          if refundable (po_status r) then taken_back oid db = 0
          else 0 \<le> taken_back oid db \<and> taken_back oid db \<le> refund_bound r)"

definition refund_inv :: "refund_system \<Rightarrow> bool" where
  "refund_inv s \<longleftrightarrow>
     refund_orders_ok (fst s) \<and> (\<forall>ph\<in>set (snd s). refund_phase_ok (fst s) ph) \<and>
     (\<forall>i<length (snd s). \<forall>x. owes (snd s ! i) = Some x \<longrightarrow> holds (fst s) (refund_subject (snd s ! i)) x) \<and>
     (\<forall>i<length (snd s). \<forall>j<length (snd s). owes (snd s ! i) \<noteq> None \<longrightarrow> owes (snd s ! j) \<noteq> None \<longrightarrow>
        refund_subject (snd s ! i) = refund_subject (snd s ! j) \<longrightarrow> i = j) \<and>
     (\<forall>oid. (\<forall>ph\<in>set (snd s). owes ph \<noteq> None \<longrightarrow> refund_subject ph \<noteq> oid) \<longrightarrow> free_ok (fst s) oid)"

section \<open>What a step does to an order\<close>

definition same_view :: "pay_db \<Rightarrow> pay_db \<Rightarrow> int \<Rightarrow> bool" where
  "same_view db db' oid \<longleftrightarrow>
     map_option (\<lambda>r. (po_status r, po_amount r)) (db_orders db' oid) =
       map_option (\<lambda>r. (po_status r, po_amount r)) (db_orders db oid) \<and>
     taken_back oid db' = taken_back oid db"

definition refund_keeps :: "pay_db \<Rightarrow> pay_db \<Rightarrow> bool" where
  "refund_keeps db db' \<longleftrightarrow>
     (\<forall>oid r. db_orders db oid = Some r \<longrightarrow> (\<exists>r'. db_orders db' oid = Some r' \<and> same_order r r')) \<and>
     (\<forall>u. db_balances db u \<noteq> None \<longrightarrow> db_balances db' u \<noteq> None)"

definition hand_over :: "pay_db \<Rightarrow> int \<Rightarrow> amount option \<Rightarrow> bool" where
  "hand_over db oid x = (case x of Some y \<Rightarrow> holds db oid y | None \<Rightarrow> free_ok db oid)"

definition order_refundable :: "pay_db \<Rightarrow> int \<Rightarrow> bool" where
  "order_refundable db oid \<longleftrightarrow> (\<exists>r. db_orders db oid = Some r \<and> refundable (po_status r))"

text \<open>
  The contract of a step: it touches its order only, and only as the owner of the order or
  by finding it in a status in which nobody owns it.
\<close>

definition refund_contract :: "pay_db \<Rightarrow> refund_phase \<Rightarrow> pay_db \<times> refund_phase \<Rightarrow> bool" where
  "refund_contract db ph y \<longleftrightarrow>
     refund_keeps db (fst y) \<and> refund_orders_ok (fst y) \<and> refund_phase_ok (fst y) (snd y) \<and>
     (\<forall>oid. oid \<noteq> refund_subject ph \<longrightarrow> same_view db (fst y) oid) \<and>
     (owes (snd y) \<noteq> None \<longrightarrow> refund_subject (snd y) = refund_subject ph) \<and>
     (if owes ph \<noteq> None \<or> order_refundable db (refund_subject ph) \<and> \<not> same_view db (fst y) (refund_subject ph)
      then hand_over (fst y) (refund_subject ph) (owes (snd y))
      else owes (snd y) = None \<and> same_view db (fst y) (refund_subject ph))"

lemma same_view_refl [simp]: "same_view db db oid"
  by (simp add: same_view_def)

lemma refund_keeps_refl [simp]: "refund_keeps db db"
  by (auto simp: refund_keeps_def)

lemma same_view_free: "same_view db db' oid \<Longrightarrow> free_ok db oid \<Longrightarrow> free_ok db' oid"
  by (auto simp: same_view_def free_ok_def refund_bound_def split: option.splits)

lemma same_view_holds: "same_view db db' oid \<Longrightarrow> holds db oid x \<Longrightarrow> holds db' oid x"
  by (auto simp: same_view_def holds_def map_option_case split: option.splits)

lemma holds_not_refundable: "holds db oid x \<Longrightarrow> \<not> order_refundable db oid"
  by (auto simp: holds_def order_refundable_def refundable_def)

lemma refund_keeps_copy: "refund_keeps db db' \<Longrightarrow> order_copy db ord \<Longrightarrow> order_copy db' ord"
  unfolding order_copy_def snapshot_def refund_keeps_def same_order_def by metis

lemma refund_keeps_plan: "refund_keeps db db' \<Longrightarrow> plan_ok db plan \<Longrightarrow> plan_ok db' plan"
  by (auto simp: plan_ok_def intro: refund_keeps_copy)

lemma refund_keeps_funded: "refund_keeps db db' \<Longrightarrow> funded db plan \<Longrightarrow> funded db' plan"
  by (auto simp: funded_def refund_keeps_def)

lemma refund_keeps_phase: "refund_keeps db db' \<Longrightarrow> refund_phase_ok db ph \<Longrightarrow> refund_phase_ok db' ph"
  by (auto simp: refund_phase_ok_def intro: refund_keeps_plan refund_keeps_copy refund_keeps_funded
      split: option.splits refund_phase.splits)

text \<open>The system keeps its invariant when each step keeps its contract.\<close>

lemma refund_inv_free:
  assumes inv: "refund_inv (db, ws)" and r: "order_refundable db oid"
  shows "taken_back oid db = 0"
proof -
  have "refund_subject ph \<noteq> oid" if ph: "ph \<in> set ws" "owes ph \<noteq> None" for ph
  proof
    assume "refund_subject ph = oid"
    obtain i x where "i < length ws" "ws ! i = ph" "owes ph = Some x" using ph by (auto simp: in_set_conv_nth)
    with inv \<open>refund_subject ph = oid\<close> have "holds db oid x" by (auto simp: refund_inv_def)
    with r show False by (simp add: holds_not_refundable)
  qed
  with inv have "free_ok db oid" by (simp add: refund_inv_def)
  with r show ?thesis by (auto simp: free_ok_def order_refundable_def)
qed

lemma refund_step_inv:
  assumes inv: "refund_inv (db, ws)" and i: "i < length ws"
    and c: "refund_contract db (ws ! i) (db', ph)"
  shows "refund_inv (db', ws[i := ph])"
proof -
  let ?s = "refund_subject (ws ! i)" and ?ws = "ws[i := ph]"
  have k: "refund_keeps db db'" "refund_orders_ok db'" "refund_phase_ok db' ph"
    and others: "\<And>oid. oid \<noteq> ?s \<Longrightarrow> same_view db db' oid"
    and sub: "owes ph \<noteq> None \<Longrightarrow> refund_subject ph = ?s"
    using c by (simp_all add: refund_contract_def)
  have own: "holds db (refund_subject (ws ! j)) x" if "j < length ws" "owes (ws ! j) = Some x" for j x
    using inv that by (simp add: refund_inv_def)
  have one: "j = j'" if "j < length ws" "j' < length ws" "owes (ws ! j) \<noteq> None" "owes (ws ! j') \<noteq> None"
    "refund_subject (ws ! j) = refund_subject (ws ! j')" for j j'
    using inv that by (auto simp: refund_inv_def)
  define took where "took \<longleftrightarrow> owes (ws ! i) \<noteq> None \<or> order_refundable db ?s \<and> \<not> same_view db db' ?s"
  have hand: "hand_over db' ?s (owes ph)" if took using c that by (simp add: refund_contract_def took_def)
  have idle: "owes ph = None \<and> same_view db db' ?s" if "\<not> took"
    using c that by (simp add: refund_contract_def took_def split: if_splits)
  have alone: False if "took" "j < length ws" "j \<noteq> i" "owes (ws ! j) = Some x" "refund_subject (ws ! j) = ?s" for j x
    using own [OF that(2,4)] one [of j i] that i holds_not_refundable [of db ?s x] by (auto simp: took_def)
  have holds': "holds db' (refund_subject (?ws ! j)) x" if "j < length ?ws" "owes (?ws ! j) = Some x" for j x
  proof (cases "j = i")
    case True
    with that i have "owes ph = Some x" by simp
    with idle hand sub show ?thesis using True i by (cases took) (auto simp: hand_over_def)
  next
    case False
    with that have o: "j < length ws" "owes (ws ! j) = Some x" by simp_all
    have "same_view db db' (refund_subject (ws ! j))"
      using others alone [OF _ o(1) False o(2)] idle by (cases "refund_subject (ws ! j) = ?s") auto
    with own [OF o] False show ?thesis by (simp add: same_view_holds)
  qed
  have one': "j = j'" if "j < length ?ws" "j' < length ?ws" "owes (?ws ! j) \<noteq> None" "owes (?ws ! j') \<noteq> None"
    "refund_subject (?ws ! j) = refund_subject (?ws ! j')" for j j'
  proof (rule ccontr)
    assume ne: "j \<noteq> j'"
    have clash: False if "l < length ws" "l \<noteq> i" "owes (ws ! l) \<noteq> None" "owes ph \<noteq> None"
      "refund_subject (ws ! l) = refund_subject ph" for l
      using alone [OF _ that(1,2)] that idle sub by (cases took) auto
    show False
    proof (cases "j = i \<or> j' = i")
      case True
      then show False using that ne clash [of j] clash [of j'] i by (auto simp: nth_list_update)
    next
      case False
      then show False using that ne one [of j j'] by auto
    qed
  qed
  have free': "free_ok db' oid" if no: "\<forall>w\<in>set ?ws. owes w \<noteq> None \<longrightarrow> refund_subject w \<noteq> oid" for oid
  proof (cases "oid = ?s \<and> took")
    case True
    have "ph \<in> set ?ws" using i by (rule set_update_memI)
    with no sub True have "owes ph = None" by blast
    with hand True show ?thesis by (auto simp: hand_over_def)
  next
    case False
    then have v: "same_view db db' oid" using others idle by (cases "oid = ?s") auto
    have "\<forall>w\<in>set ws. owes w \<noteq> None \<longrightarrow> refund_subject w \<noteq> oid"
    proof (intro ballI impI notI)
      fix w assume w: "w \<in> set ws" "owes w \<noteq> None" "refund_subject w = oid"
      then obtain j where j: "j < length ws" "ws ! j = w" by (auto simp: in_set_conv_nth)
      have "j \<noteq> i" using False w j by (auto simp: took_def)
      with j have "w \<in> set ?ws" by (metis length_list_update nth_list_update_neq nth_mem)
      with no w show False by blast
    qed
    with inv have "free_ok db oid" by (simp add: refund_inv_def)
    with v show ?thesis by (rule same_view_free)
  qed
  have "refund_phase_ok db' w" if "w \<in> set ?ws" for w
    using that set_update_subset_insert [of ws i ph] k inv
    by (auto simp: refund_inv_def intro: refund_keeps_phase)
  with k holds' one' free' show ?thesis unfolding refund_inv_def by (simp only: fst_conv snd_conv) blast
qed

section \<open>Each step keeps its contract\<close>

text \<open>The audit log plays no part in the contract.\<close>

definition quiet :: "pay_db \<Rightarrow> pay_db \<Rightarrow> bool" where
  "quiet a b \<longleftrightarrow> db_orders b = db_orders a \<and> db_balances b = db_balances a \<and> db_refunds b = db_refunds a"

lemma contract_quiet:
  assumes "refund_contract db ph (a, ph')" "quiet a b"
  shows "refund_contract db ph (b, ph')"
proof -
  have eq: "taken_back oid b = taken_back oid a" for oid using assms(2) by (simp add: quiet_def taken_back_def)
  have o: "db_orders b = db_orders a" "db_balances b = db_balances a" using assms(2) by (simp_all add: quiet_def)
  have sv: "same_view db b oid = same_view db a oid" for oid by (simp add: same_view_def eq o)
  have h: "hand_over b oid x = hand_over a oid x" for oid x
    by (simp add: hand_over_def holds_def free_ok_def eq o split: option.split)
  have oc: "order_copy b r = order_copy a r" for r by (simp add: order_copy_def snapshot_def o)
  have "plan_ok b p = plan_ok a p" "funded b p = funded a p" for p by (simp_all add: plan_ok_def funded_def oc o)
  then have p: "refund_phase_ok b ph' = refund_phase_ok a ph'"
    by (simp add: refund_phase_ok_def oc split: refund_phase.split option.split)
  show ?thesis
    using assms(1)
    unfolding refund_contract_def fst_conv snd_conv refund_keeps_def refund_orders_ok_def o sv h p .
qed

lemma quiet_refl [simp]: "quiet a a"
  by (simp add: quiet_def)

lemma quiet_audit [simp]: "quiet a (audit en oid act a)" "quiet a (write_audit_detail oid act d a)"
  by (simp_all add: quiet_def audit_def write_audit_def)

lemma contract_audit:
  "refund_contract db ph (a, ph') \<Longrightarrow> refund_contract db ph (audit en oid act a, ph')"
  by (erule contract_quiet) simp

text \<open>A step that only reads.\<close>

lemma contract_read:
  assumes "refund_orders_ok db" "refund_phase_ok db ph'" "owes ph = None" "owes ph' = None"
  shows "refund_contract db ph (db, ph')"
  using assms by (simp add: refund_contract_def)

lemma contract_read_owner:
  assumes "refund_orders_ok db" "refund_phase_ok db ph'" "owes ph = Some x" "holds db (refund_subject ph) x"
    and "owes ph' = Some x" "refund_subject ph' = refund_subject ph"
  shows "refund_contract db ph (db, ph')"
  using assms by (simp add: refund_contract_def hand_over_def)

text \<open>A step that updates its order.\<close>

lemma update_order_view:
  assumes u: "update_order now oid c f db = (m, db')" and ok: "refund_orders_ok db"
    and same: "\<And>r. same_order r (f r)"
    and amt: "\<forall>r. db_orders db oid = Some r \<longrightarrow> c r \<longrightarrow> 0 \<le> po_refund_amount (f r) \<and> po_refund_amount (f r) \<le> refund_bound r"
  shows "refund_keeps db db'" "refund_orders_ok db'" "o' \<noteq> oid \<Longrightarrow> same_view db db' o'"
    "db_balances db' = db_balances db" "taken_back o' db' = taken_back o' db"
    "m \<Longrightarrow> \<exists>r. db_orders db oid = Some r \<and> c r \<and> db_orders db' oid = Some ((f r)\<lparr>po_updated_at := now\<rparr>)"
    "\<not> m \<Longrightarrow> db' = db"
    "\<not> m \<Longrightarrow> db_orders db oid = Some r \<Longrightarrow> \<not> c r"
proof -
  consider r where "m" "db_orders db oid = Some r" "c r" "db' = db\<lparr>db_orders := (db_orders db)(oid \<mapsto> (f r)\<lparr>po_updated_at := now\<rparr>)\<rparr>"
    | "\<not> m" "db' = db" "\<And>r. db_orders db oid = Some r \<Longrightarrow> \<not> c r"
    using u by (auto simp: update_order_def update_order_at_def split: option.splits if_splits)
  note cs = this
  have *: "same_order r ((f r)\<lparr>po_updated_at := now\<rparr>)" for r using same [of r] by (simp add: same_order_def)
  show "refund_keeps db db'"
    by (cases rule: cs) (use * in \<open>auto simp: refund_keeps_def\<close>)
  show "refund_orders_ok db'"
    by (cases rule: cs) (use ok amt * in \<open>auto simp: refund_orders_ok_def same_order_def refund_bound_def\<close>)
  show "same_view db db' o'" if "o' \<noteq> oid"
    by (cases rule: cs) (use that in \<open>auto simp: same_view_def taken_back_def\<close>)
  show "db_balances db' = db_balances db" "taken_back o' db' = taken_back o' db"
    by (cases rule: cs; simp add: taken_back_def)+
  show "m \<Longrightarrow> \<exists>r. db_orders db oid = Some r \<and> c r \<and> db_orders db' oid = Some ((f r)\<lparr>po_updated_at := now\<rparr>)"
    by (cases rule: cs) auto
  show "\<not> m \<Longrightarrow> db' = db" by (cases rule: cs) auto
  show "\<not> m \<Longrightarrow> db_orders db oid = Some r \<Longrightarrow> \<not> c r" by (cases rule: cs) auto
qed


lemma holds_order: "holds db oid x \<Longrightarrow> \<exists>r. db_orders db oid = Some r \<and> po_status r = Status_refunding \<and> taken_back oid db = x"
  by (auto simp: holds_def)

lemma refunding_free:
  assumes "db_orders db oid = Some r" "po_status r = Status_refunding" "0 \<le> taken_back oid db" "taken_back oid db \<le> refund_bound r"
  shows "free_ok db oid"
  using assms by (simp add: free_ok_def refundable_def)

lemma phase_ok_refunded [simp]: "refund_phase_ok db (Refunded res)"
  by (simp add: refund_phase_ok_def)

text \<open>The owner's last write.\<close>

lemma owner_update:
  assumes ok: "refund_orders_ok db" and s: "refund_subject ph = s"
    and u: "update_order now s (\<lambda>_. True) f db = (m, db')"
    and same: "\<And>r. same_order r (f r)"
    and amt: "\<forall>r. db_orders db s = Some r \<longrightarrow> 0 \<le> po_refund_amount (f r) \<and> po_refund_amount (f r) \<le> refund_bound r"
    and own: "owes ph = Some x" "holds db s x"
    and x: "\<forall>r. db_orders db s = Some r \<longrightarrow> 0 \<le> x \<and> x \<le> refund_bound r"
    and st: "\<forall>r. refundable (po_status (f r)) \<longrightarrow> x = 0"
  shows "refund_contract db ph (effect en db db', Refunded res)"
proof -
  have amt': "\<forall>r. db_orders db s = Some r \<longrightarrow> True \<longrightarrow> 0 \<le> po_refund_amount (f r) \<and> po_refund_amount (f r) \<le> refund_bound r"
    using amt by simp
  note v = update_order_view [OF u ok same amt']
  obtain r where r: "db_orders db s = Some r" "po_status r = Status_refunding" "taken_back s db = x"
    using holds_order [OF own(2)] by blast
  have b: "0 \<le> x" "x \<le> refund_bound r" using x r(1) by auto
  have "free_ok db s" using r b by (intro refunding_free [OF r(1,2)]) simp_all
  moreover have "free_ok db' s"
  proof (cases m)
    case True
    then have "db_orders db' s = Some ((f r)\<lparr>po_updated_at := now\<rparr>)" using v(6) r(1) by auto
    with st b v(5) [of s] r(3) same [of r] show ?thesis
      by (auto simp: free_ok_def refund_bound_def same_order_def)
  next
    case False with v(7) \<open>free_ok db s\<close> show ?thesis by simp
  qed
  ultimately have "free_ok (effect en db db') s" by (simp add: effect_def)
  with own(1) v(1,2,3) ok s show ?thesis
    by (simp add: refund_contract_def hand_over_def effect_def)
qed

text \<open>A write by a handler that does not own the order, in a status in which nobody does.\<close>

lemma idle_update:
  assumes ok: "refund_orders_ok db" and s: "refund_subject ph = s"
    and u: "update_order now s c f db = (m, db')"
    and same: "\<And>r. same_order r (f r)"
    and amt: "\<forall>r. db_orders db s = Some r \<longrightarrow> c r \<longrightarrow> 0 \<le> po_refund_amount (f r) \<and> po_refund_amount (f r) \<le> refund_bound r"
    and idle: "owes ph = None"
    and c: "\<forall>r. db_orders db s = Some r \<longrightarrow> c r \<longrightarrow> refundable (po_status r)"
    and free: "order_refundable db s \<Longrightarrow> taken_back s db = 0"
  shows "refund_contract db ph (effect en db db', Refunded res)"
    and "m \<Longrightarrow> order_refundable db s \<and> taken_back s db' = 0"
proof -
  note v = update_order_view [OF u ok same amt]
  show z: "m \<Longrightarrow> order_refundable db s \<and> taken_back s db' = 0"
    using v(6) v(5) [of s] c free by (auto simp: order_refundable_def)
  have "free_ok db' s" if m: m
  proof -
    obtain r where r: "db_orders db s = Some r" "db_orders db' s = Some ((f r)\<lparr>po_updated_at := now\<rparr>)"
      using v(6) [OF m] by blast
    then have "0 < po_amount r" using ok by (auto simp: refund_orders_ok_def)
    with r z [OF m] same [of r] show ?thesis
      by (auto simp: free_ok_def refund_bound_def same_order_def)
  qed
  with idle v(1,2,3,7) ok z s show "refund_contract db ph (effect en db db', Refunded res)"
    by (cases m) (auto simp: refund_contract_def hand_over_def effect_def)
qed

lemma copy_bounds:
  assumes "order_copy db ord" "db_orders db (po_id ord) = Some r"
  shows "same_order ord r" "refund_bound r = refund_bound ord"
  using assms by (auto simp: order_copy_def snapshot_def refund_bound_def same_order_def)

lemma copy_amount:
  assumes "order_copy db ord" "db_orders db (po_id ord) = Some r"
  shows "0 \<le> po_amount ord" "po_amount ord \<le> refund_bound r" "0 \<le> po_refund_amount ord"
    "po_refund_amount ord \<le> refund_bound r"
  using assms by (auto simp: order_copy_def snapshot_def refund_bound_def same_order_def)

lemma plan_copy: "plan_ok db plan \<Longrightarrow> order_copy db (rp_order plan)"
  by (simp add: plan_ok_def)

lemma owed_bounds:
  assumes "plan_ok db plan"
  shows "0 \<le> owed plan" "owed plan \<le> refund_bound (rp_order plan)"
  using assms by (auto simp: plan_ok_def owed_def refund_bound_def order_copy_def)

section \<open>The steps\<close>

lemma reply_order_copy:
  assumes "refund_orders_ok db" "reply_order en oid db = Some r"
  shows "order_copy db r" "po_id r = oid"
  using assms by (auto simp: reply_order_def refund_orders_ok_def order_copy_def snapshot_def split: if_splits)

lemma validate_refund_request_contract:
  assumes ok: "refund_orders_ok db"
  shows "refund_contract db (Requesting oid uid reason) (db, validate_refund_request en db oid uid reason)"
  by (rule contract_read [OF ok])
    (use reply_order_copy [OF ok] in
      \<open>auto simp: validate_refund_request_def refund_phase_ok_def split: option.splits provider_lookup.splits\<close>)

lemma request_balance_contract:
  assumes ok: "refund_orders_ok db" and ph: "refund_phase_ok db (Request_balance ord reason)"
  shows "refund_contract db (Request_balance ord reason) (db, request_balance en db ord reason)"
  by (rule contract_read [OF ok]) (use ph in \<open>auto simp: request_balance_def refund_phase_ok_def split: option.splits\<close>)

lemma request_update_contract:
  assumes ok: "refund_orders_ok db" and ph: "refund_phase_ok db (Request_update ord reason)"
    and free: "order_refundable db (po_id ord) \<Longrightarrow> taken_back (po_id ord) db = 0"
  shows "refund_contract db (Request_update ord reason) (request_update en db ord reason)"
proof -
  let ?c = "\<lambda>r. po_user_id r = po_user_id ord \<and> po_status r = Status_completed \<and> po_order_type r = Balance_order"
  let ?f = "\<lambda>r. r\<lparr>po_status := Status_refund_requested, po_refund_request_reason := Some (trim_space reason),
                po_refund_amount := po_amount ord\<rparr>"
  obtain m db' where u: "update_order (re_now en) (po_id ord) ?c ?f db = (m, db')" by fastforce
  have cp: "order_copy db ord" using ph by (simp add: refund_phase_ok_def)
  have amt: "\<forall>r. db_orders db (po_id ord) = Some r \<longrightarrow> 0 \<le> po_amount ord \<and> po_amount ord \<le> refund_bound r"
    using copy_amount [OF cp] by simp
  have "refund_contract db (Request_update ord reason) (re_effect en db db', Refunded res)" for res
    by (rule idle_update(1) [OF ok _ u _ _ _ _ free])
      (use amt in \<open>simp_all add: same_order_def refundable_def\<close>)
  then show ?thesis by (auto simp: request_update_def u Let_def intro: contract_audit)
qed

lemma amount_tolerance_le: "amount_tolerance n \<le> 10 ^ 6"
proof (cases "n \<le> 2")
  case False
  then have "(10 :: int) ^ (8 - n) \<le> 10 ^ 5" by (intro power_increasing) simp_all
  with False show ?thesis by (simp add: amount_tolerance_def)
qed (simp add: amount_tolerance_def)

lemma tolerance_bound:
  assumes "\<not> amount_tolerance n < x - po_amount r" shows "x \<le> refund_bound r"
  using assms amount_tolerance_le [of n] by (simp add: refund_bound_def)

lemma plan_ok_new:
  assumes "order_copy db r" "0 \<le> x" "x \<le> refund_bound r" "rp_order plan = r" "rp_refund_amount plan = x"
    "rp_deduction plan = No_deduction" "rp_balance plan = 0"
  shows "plan_ok db plan"
  using assms by (simp add: plan_ok_def)

lemma prepare_refund_plan:
  assumes "prepare_refund sv en db oid amt reason force back \<in> {Prepare_deduction plan, Locking plan}"
  shows "reply_order (re_call en) oid db = Some (rp_order plan)" "rp_deduction plan = No_deduction"
    "rp_balance plan = 0" "0 < po_amount (rp_order plan) \<longrightarrow> 0 \<le> rp_refund_amount plan"
    "\<not> amount_tolerance (currency_minor_unit (sv_currency sv (rp_order plan)))
      < rp_refund_amount plan - po_amount (rp_order plan)"
  using assms
  by (auto simp: prepare_refund_def Let_def split: option.splits provider_lookup.splits paid_amount.splits if_splits)

lemma prepare_refund_contract:
  assumes ok: "refund_orders_ok db"
  shows "refund_contract db (Preparing oid amt reason force back) (db, prepare_refund sv en db oid amt reason force back)"
proof (rule contract_read [OF ok])
  show "refund_phase_ok db (prepare_refund sv en db oid amt reason force back)"
  proof (cases "\<exists>plan. prepare_refund sv en db oid amt reason force back \<in> {Prepare_deduction plan, Locking plan}")
    case False
    then show ?thesis
      by (cases "back") (auto simp: prepare_refund_def refund_phase_ok_def Let_def
          split: option.splits provider_lookup.splits paid_amount.splits if_splits)
  next
    case True
    then obtain plan where p: "prepare_refund sv en db oid amt reason force back \<in> {Prepare_deduction plan, Locking plan}"
      by blast
    note q = prepare_refund_plan [OF p]
    have r: "order_copy db (rp_order plan)" by (rule reply_order_copy(1) [OF ok q(1)])
    then have "plan_ok db plan"
      using q(4) tolerance_bound [OF q(5)] by (intro plan_ok_new [OF r]) (auto simp: order_copy_def q(2,3))
    with p q(3) show ?thesis by (auto simp: refund_phase_ok_def)
  qed
qed (auto simp: prepare_refund_def Let_def split: option.splits provider_lookup.splits paid_amount.splits)

lemma prep_deduct_plan:
  assumes p: "plan_ok db plan" "rp_balance plan = 0" "prep_deduct en db plan force = Some q"
  shows "plan_ok db q" "po_id (rp_order q) = po_id (rp_order plan)"
  using p
  by (auto simp: prep_deduct_def plan_ok_def owed_def Let_def split: order_type.splits option.splits if_splits)

lemma prepare_deduction_contract:
  assumes ok: "refund_orders_ok db" and ph: "refund_phase_ok db (Prepare_deduction plan)"
  shows "refund_contract db (Prepare_deduction plan) (db, prepare_deduction en db plan)"
  by (rule contract_read [OF ok])
    (use ph prep_deduct_plan in \<open>auto simp: prepare_deduction_def refund_phase_ok_def split: option.splits\<close>)

lemma idle_owed: "plan_ok db plan \<Longrightarrow> \<not> deducts_balance plan \<Longrightarrow> owed plan = 0"
  by (auto simp: plan_ok_def owed_def deducts_balance_def)

lemma lock_refund_contract:
  assumes ok: "refund_orders_ok db" and ph: "refund_phase_ok db (Locking plan)"
    and free: "order_refundable db (po_id (rp_order plan)) \<Longrightarrow> taken_back (po_id (rp_order plan)) db = 0"
  shows "refund_contract db (Locking plan) (lock_refund en db plan)"
proof -
  let ?s = "po_id (rp_order plan)" and ?f = "\<lambda>r. r\<lparr>po_status := Status_refunding\<rparr>"
  have p: "plan_ok db plan" using ph by (simp add: refund_phase_ok_def)
  obtain m db' where u: "update_order (re_now en) ?s (\<lambda>r. refundable (po_status r)) ?f db = (m, db')" by fastforce
  have amt: "\<forall>r. db_orders db ?s = Some r \<longrightarrow> refundable (po_status r) \<longrightarrow>
      0 \<le> po_refund_amount (?f r) \<and> po_refund_amount (?f r) \<le> refund_bound r"
    using ok by (auto simp: refund_orders_ok_def)
  have same: "\<And>r. same_order r (?f r)" by (simp add: same_order_def)
  have idle: "refund_contract db (Locking plan) (re_effect en db db', Refunded res)" for res
    by (rule idle_update(1) [OF ok _ u same amt _ _ free]) simp_all
  have taken: "m \<Longrightarrow> order_refundable db ?s \<and> taken_back ?s db' = 0"
    by (rule idle_update(2) [OF ok _ u same amt _ _ free, where ph = "Locking plan"]) simp_all
  note v = update_order_view [OF u ok same amt]
  show ?thesis
  proof (cases "re_answered en \<and> m")
    case False
    then show ?thesis using idle by (auto simp: lock_refund_def u)
  next
    case True
    then have e: "re_effect en db db' = db'" by (auto simp: effect_def answered_def)
    have h: "holds db' ?s 0" using v(6) taken True by (auto simp: holds_def)
    have "\<not> same_view db db' ?s" using v(6) True by (auto simp: same_view_def refundable_def)
    moreover have "plan_ok db' plan" by (rule refund_keeps_plan [OF v(1) p])
    ultimately show ?thesis
      using True e h v(1,2,3) taken idle_owed [OF p]
      by (auto simp: lock_refund_def u refund_contract_def hand_over_def refund_phase_ok_def funded_def)
  qed
qed

lemma check_rollback_contract:
  assumes ok: "refund_orders_ok db" and ph: "refund_phase_ok db (Checking_rollback plan)"
    and own: "holds db (po_id (rp_order plan)) 0"
  shows "refund_contract db (Checking_rollback plan) (db, check_rollback en db plan)"
  by (rule contract_read_owner [OF ok, of _ _ 0])
    (use ph own in \<open>auto simp: check_rollback_def refund_phase_ok_def plan_ok_def funded_def owed_def deducts_balance_def\<close>)

lemma take_balance_some:
  assumes "take_balance oid uid want db = Some (taken, db')"
  shows "0 \<le> taken" "taken \<le> want" "db_orders db' = db_orders db" "db_balances db' uid \<noteq> None"
    "db_balances db u \<noteq> None \<Longrightarrow> db_balances db' u \<noteq> None"
    "taken_back o' db' = taken_back o' db + (if o' = oid then taken else 0)"
  using assms
  by (auto simp: take_balance_def deduct_available_balance_def taken_back_def Let_def split: option.splits if_splits)

lemma extend_fields:
  assumes "extend_subscription now sid n db = Inr db'"
  shows "quiet db db'"
  using assms by (auto simp: extend_subscription_def update_wallet_def quiet_def Let_def split: option.splits if_splits)

lemma revoke_fields: "revoke_subscription sid db = Some db' \<Longrightarrow> quiet db db'"
  by (auto simp: revoke_subscription_def update_wallet_def quiet_def split: option.splits)

lemma quiet_effect: "quiet db db' \<Longrightarrow> quiet db (effect en db db')"
  by (simp add: effect_def)

text \<open>An owner's step that leaves orders, balances and ledger alone.\<close>

lemma contract_owner_quiet:
  assumes "refund_orders_ok db" "refund_phase_ok db ph'" "owes ph = Some x" "holds db (refund_subject ph) x"
    and "owes ph' = Some x" "refund_subject ph' = refund_subject ph" "quiet db db'"
  shows "refund_contract db ph (db', ph')"
  by (rule contract_quiet [OF contract_read_owner [OF assms(1-6)] assms(7)])


lemma orders_bound:
  assumes "refund_orders_ok db" "db_orders db oid = Some r"
  shows "0 \<le> refund_bound r" "0 \<le> po_refund_amount r" "po_refund_amount r \<le> refund_bound r"
proof -
  have "0 < po_amount r" "0 \<le> po_refund_amount r" "po_refund_amount r \<le> refund_bound r"
    using assms by (simp_all add: refund_orders_ok_def)
  then show "0 \<le> refund_bound r" "0 \<le> po_refund_amount r" "po_refund_amount r \<le> refund_bound r"
    by (simp_all add: refund_bound_def)
qed

lemma contract_write:
  "refund_contract db ph (a, ph') \<Longrightarrow> refund_contract db ph (write_audit_detail oid act d a, ph')"
  by (erule contract_quiet) simp

lemma deduct_contract:
  assumes ok: "refund_orders_ok db" and ph: "refund_phase_ok db (Deducting plan)"
    and own: "holds db (po_id (rp_order plan)) 0" and env: "en_outcome (re_call en) \<noteq> Reply_lost"
  shows "refund_contract db (Deducting plan) (deduct en db plan)"
proof -
  let ?ord = "rp_order plan"
  have p: "plan_ok db plan" using ph by (simp add: refund_phase_ok_def)
  have undo: "refund_contract db (Deducting plan) (db, Restoring plan False)"
    by (rule contract_read_owner [OF ok, of _ _ 0]) (use p own in \<open>simp_all add: refund_phase_ok_def\<close>)
  show ?thesis
  proof (cases "deducts_balance plan")
    case True
    show ?thesis
    proof (cases "take_balance (po_id ?ord) (po_user_id ?ord) (rp_balance plan) db")
      case None with True undo show ?thesis by (simp add: deduct_def)
    next
      case (Some td)
      obtain taken db' where td: "td = (taken, db')" by fastforce
      note t = take_balance_some [OF Some [unfolded td]]
      have k: "refund_keeps db db'" using t(3,5) by (auto simp: refund_keeps_def)
      have p': "plan_ok db' (plan\<lparr>rp_balance := taken\<rparr>)"
        using refund_keeps_plan [OF k p] t(1,2) by (auto simp: plan_ok_def)
      have h: "holds db' (po_id ?ord) taken" using own t(3,6) by (simp add: holds_def)
      have "refund_contract db (Deducting plan) (db', Asking (plan\<lparr>rp_balance := taken\<rparr>))"
        using ok k p' h True t(3,4,6)
        by (simp add: funded_def refund_contract_def refund_orders_ok_def refund_phase_ok_def hand_over_def owed_def
            deducts_balance_def same_view_def)
      with undo env True Some td show ?thesis
        by (cases "en_outcome (re_call en)") (auto simp: deduct_def answered_def effect_def)
    qed
  next
    case False
    then have z: "owed plan = 0" by (rule idle_owed [OF p])
    have go: "refund_contract db (Deducting plan) (d, Asking plan)" "refund_contract db (Deducting plan) (d, Revoking plan)"
      "refund_contract db (Deducting plan) (d, Restoring plan False)" if "quiet db d" for d
      by (rule contract_owner_quiet [OF ok _ _ _ _ _ that, of _ _ 0];
          use p own z False in \<open>simp add: refund_phase_ok_def funded_def\<close>)+
    show ?thesis
      using False go quiet_effect extend_fields
      by (auto simp: deduct_def split: sum.split extend_error.split)
  qed
qed

lemma revoke_contract:
  assumes ok: "refund_orders_ok db" and ph: "refund_phase_ok db (Revoking plan)"
    and own: "holds db (po_id (rp_order plan)) 0" and idle: "\<not> deducts_balance plan"
  shows "refund_contract db (Revoking plan) (revoke en db plan)"
proof -
  have p: "plan_ok db plan" using ph by (simp add: refund_phase_ok_def)
  have z: "owed plan = 0" by (rule idle_owed [OF p idle])
  have go: "refund_contract db (Revoking plan) (d, Asking plan)"
    "refund_contract db (Revoking plan) (d, Restoring plan False)" if "quiet db d" for d
    by (rule contract_owner_quiet [OF ok _ _ _ _ _ that, of _ _ 0];
        use p own z in \<open>simp add: refund_phase_ok_def funded_def\<close>)+
  show ?thesis using go quiet_effect revoke_fields by (auto simp: revoke_def split: option.split)
qed

lemma gw_refund_quiet: "gw_refund en db plan = (db', r) \<Longrightarrow> quiet db db'"
  by (auto simp: gw_refund_def Let_def split: if_splits provider_lookup.splits)

lemma ask_gateway_contract:
  assumes ok: "refund_orders_ok db" and ph: "refund_phase_ok db (Asking plan)"
    and own: "holds db (po_id (rp_order plan)) (owed plan)"
  shows "refund_contract db (Asking plan) (ask_gateway en db plan)"
proof -
  obtain db' r where g: "gw_refund en db plan = (db', r)" by fastforce
  have "refund_contract db (Asking plan) (db', ph')"
    if "ph' = Marking_ok plan \<or> (\<exists>x. ph' = Rolling_back plan x)" for ph'
    by (rule contract_owner_quiet [OF ok _ _ _ _ _ gw_refund_quiet [OF g], of _ _ "owed plan"])
      (use that ph own in \<open>auto simp: refund_phase_ok_def\<close>)
  then show ?thesis by (auto simp: ask_gateway_def g split: option.split)
qed

lemma after_rollback_ok:
  assumes "plan_ok db plan"
  shows "refund_phase_ok db (after_rollback plan pending good)" "owes (after_rollback plan pending good) = Some 0"
    "refund_subject (after_rollback plan pending good) = po_id (rp_order plan)"
  using assms by (auto simp: after_rollback_def refund_phase_ok_def plan_ok_def owed_def split: option.split)

lemma rollback_contract:
  assumes ok: "refund_orders_ok db" and ph: "refund_phase_ok db (Rolling_back plan pending)"
    and own: "holds db (po_id (rp_order plan)) (owed plan)" and env: "en_outcome (re_call en) = Call_ok"
  shows "refund_contract db (Rolling_back plan pending) (rollback en db plan pending)"
proof -
  let ?s = "po_id (rp_order plan)" and ?u = "po_user_id (rp_order plan)"
  have p: "plan_ok db plan" using ph by (simp add: refund_phase_ok_def)
  have a: "re_answered en" using env by (simp add: answered_def)
  show ?thesis
  proof (cases "deducts_balance plan")
    case True
    then have "0 < owed plan" by (simp add: deducts_balance_def owed_def)
    with ph obtain b where b: "db_balances db ?u = Some b" by (auto simp: refund_phase_ok_def funded_def)
    define d where "d = db\<lparr>db_balances := (db_balances db)(?u \<mapsto> b + rp_balance plan),
      db_refunds := db_refunds db @ [(?s, - rp_balance plan)]\<rparr>"
    have k: "refund_keeps db d" by (auto simp: refund_keeps_def d_def same_order_def)
    have t: "taken_back oid d = taken_back oid db - (if oid = ?s then rp_balance plan else 0)" for oid
      by (simp add: taken_back_def d_def)
    have h: "holds d ?s 0" using own True t by (simp add: holds_def d_def owed_def deducts_balance_def)
    have "refund_contract db (Rolling_back plan pending) (d, after_rollback plan pending True)"
      using ok k h after_rollback_ok [OF refund_keeps_plan [OF k p]] t
      by (simp add: refund_contract_def refund_orders_ok_def hand_over_def same_view_def d_def)
    with True a b show ?thesis by (simp add: rollback_def update_balance_def d_def Let_def)
  next
    case False
    then have z: "owed plan = 0" by (rule idle_owed [OF p])
    have go: "refund_contract db (Rolling_back plan pending) (d, after_rollback plan pending good)"
      if "quiet db d" for d good
      by (rule contract_owner_quiet [OF ok _ _ _ _ _ that, of _ _ 0])
        (use own z after_rollback_ok [OF p] in simp_all)
    show ?thesis
      using False go a extend_fields
      by (auto simp: rollback_def Let_def split: option.split sum.split)
  qed
qed

lemma restore_status_contract:
  assumes ok: "refund_orders_ok db" and ph: "refund_phase_ok db (Restoring plan failed)"
    and own: "holds db (po_id (rp_order plan)) 0"
  shows "refund_contract db (Restoring plan failed) (restore_status en db plan failed)"
proof -
  let ?s = "po_id (rp_order plan)"
  define rs where "rs = (if po_status (rp_order plan) = Status_refund_requested then Status_refund_requested
                else Status_completed)"
  obtain m db' where u: "update_order (re_now en) ?s (\<lambda>_. True) (\<lambda>r. r\<lparr>po_status := rs\<rparr>) db = (m, db')" by fastforce
  have "refund_contract db (Restoring plan failed) (re_effect en db db', Refunded res)" for res
    by (rule owner_update [OF ok _ u, where x = 0])
      (use orders_bound [OF ok] own in \<open>auto simp: same_order_def\<close>)
  then show ?thesis
    by (cases failed) (simp_all add: restore_status_def Let_def rs_def [symmetric] u contract_audit)
qed

lemma mark_refund_failed_contract:
  assumes ok: "refund_orders_ok db" and s: "refund_subject ph = oid"
    and own: "owes ph = Some 0 \<and> holds db oid 0 \<or>
      owes ph = None \<and> map_option po_status (db_orders db oid) = Some Status_refund_pending \<and> taken_back oid db = 0"
  shows "refund_contract db ph (mark_refund_failed en db oid res)"
proof -
  let ?f = "\<lambda>r. r\<lparr>po_status := Status_refund_failed, po_failed_at := Some (re_now en)\<rparr>"
  obtain m db' where u: "update_order (re_now en) oid (\<lambda>_. True) ?f db = (m, db')" by fastforce
  have amt: "\<forall>r. db_orders db oid = Some r \<longrightarrow> 0 \<le> po_refund_amount (?f r) \<and> po_refund_amount (?f r) \<le> refund_bound r"
    using ok by (simp add: refund_orders_ok_def)
  have "refund_contract db ph (re_effect en db db', Refunded res)"
    using own
  proof
    assume o: "owes ph = Some 0 \<and> holds db oid 0"
    show ?thesis
      by (rule owner_update [OF ok s u, where x = 0])
        (use orders_bound [OF ok] o in \<open>auto simp: same_order_def\<close>)
  next
    assume o: "owes ph = None \<and> map_option po_status (db_orders db oid) = Some Status_refund_pending \<and> taken_back oid db = 0"
    show ?thesis
      by (rule idle_update(1) [OF ok s u])
        (use amt o in \<open>auto simp: same_order_def refundable_def\<close>)
  qed
  then show ?thesis by (simp add: mark_refund_failed_def u contract_audit)
qed

lemma mark_refund_ok_contract:
  assumes ok: "refund_orders_ok db" and ph: "refund_phase_ok db (Marking_ok plan)"
    and own: "holds db (po_id (rp_order plan)) (owed plan)"
  shows "refund_contract db (Marking_ok plan) (mark_refund_ok en db plan)"
proof -
  let ?s = "po_id (rp_order plan)"
  have p: "plan_ok db plan" using ph by (simp add: refund_phase_ok_def)
  obtain m db' where u: "update_order (re_now en) ?s (\<lambda>_. True) (refunded_row (re_now en) plan) db = (m, db')" by fastforce
  have "\<forall>r. db_orders db ?s = Some r \<longrightarrow> refund_bound r = refund_bound (rp_order plan)"
    using copy_bounds [OF plan_copy [OF p]] by simp
  then have "refund_contract db (Marking_ok plan) (re_effect en db db', Refunded res)" for res
    by (intro owner_update [OF ok _ u, where x = "owed plan"])
      (use p own owed_bounds [OF p] in \<open>auto simp: same_order_def refunded_row_def refundable_def plan_ok_def\<close>)
  then show ?thesis by (auto simp: mark_refund_ok_def u Let_def intro: contract_audit)
qed

lemma mark_refund_pending_contract:
  assumes ok: "refund_orders_ok db" and ph: "refund_phase_ok db (Marking_pending plan rid good)"
    and own: "holds db (po_id (rp_order plan)) 0"
  shows "refund_contract db (Marking_pending plan rid good) (mark_refund_pending en db plan rid good)"
proof -
  let ?s = "po_id (rp_order plan)"
  let ?f = "\<lambda>r. r\<lparr>po_status := Status_refund_pending, po_refund_amount := rp_refund_amount plan,
                   po_refund_reason := Some (rp_reason plan), po_refund_at := None,
                   po_force_refund := rp_force plan, po_failed_at := None\<rparr>"
  have p: "plan_ok db plan" using ph by (simp add: refund_phase_ok_def)
  obtain m db' where u: "update_order (re_now en) ?s (\<lambda>_. True) ?f db = (m, db')" by fastforce
  have b: "\<forall>r. db_orders db ?s = Some r \<longrightarrow> refund_bound r = refund_bound (rp_order plan)"
    using copy_bounds [OF plan_copy [OF p]] by simp
  have "refund_contract db (Marking_pending plan rid good) (re_effect en db db', Refunded res)" for res
    by (rule owner_update [OF ok _ u, where x = 0])
      (use b orders_bound(1) [OF ok] p own in \<open>auto simp: same_order_def plan_ok_def\<close>)
  then show ?thesis
    by (auto simp: mark_refund_pending_def u Let_def intro: contract_write)
qed

lemma query_refund_order_contract:
  assumes ok: "refund_orders_ok db"
  shows "refund_contract db (Querying oid) (db, query_refund_order en db oid)"
  by (rule contract_read [OF ok])
    (use reply_order_copy(1) [OF ok] in
      \<open>auto simp: query_refund_order_def refund_phase_ok_def split: option.splits provider_lookup.splits\<close>)

lemma finalize_plan_ok:
  assumes "order_copy db ord" shows "plan_ok db (refund_finalize_plan sv ord)"
  using assms by (auto simp: plan_ok_def refund_finalize_plan_def Let_def order_copy_def refund_bound_def)

lemma after_query_ok: "plan_ok db plan \<Longrightarrow> refund_phase_ok db (after_query plan succeeded)"
  and after_query_idle [simp]: "owes (after_query plan succeeded) = None"
  by (simp_all add: after_query_def refund_phase_ok_def)

lemma query_gateway_contract:
  assumes ok: "refund_orders_ok db" and ph: "refund_phase_ok db (Query_gateway ord detail)"
  shows "refund_contract db (Query_gateway ord detail) (db, query_gateway sv en ord detail)"
proof (rule contract_read [OF ok])
  let ?p = "refund_finalize_plan sv ord"
  have c: "order_copy db ord" using ph by (simp add: refund_phase_ok_def)
  have p: "plan_ok db ?p" by (rule finalize_plan_ok [OF c])
  then have p0: "plan_ok db (?p\<lparr>rp_balance := 0, rp_days := 0\<rparr>)" by (simp add: plan_ok_def)
  have "refund_phase_ok db (Finalize_locate ?p s)" if "po_order_type ord = Subscription_order" for s
    using p that by (simp add: refund_phase_ok_def refund_finalize_plan_def Let_def)
  with c after_query_ok [OF p] after_query_ok [OF p0] show "refund_phase_ok db (query_gateway sv en ord detail)"
    by (auto simp: query_gateway_def Let_def refund_phase_ok_def [of db "Finalize_failed ord"] split: option.split)
qed (auto simp: query_gateway_def Let_def split: option.split)

lemma finalize_locate_contract:
  assumes ok: "refund_orders_ok db" and ph: "refund_phase_ok db (Finalize_locate plan succeeded)"
  shows "refund_contract db (Finalize_locate plan succeeded) (db, finalize_locate en db plan succeeded)"
  by (rule contract_read [OF ok])
    (use ph prep_deduct_plan(1) after_query_ok in
      \<open>auto simp: finalize_locate_def refund_phase_ok_def [of db "Finalize_locate plan succeeded"] split: option.split\<close>)

lemma final_deduction_effect:
  assumes "apply_refund_final_deduction now plan db = Some (q, db')" "plan_ok db0 plan"
  shows "db_orders db' = db_orders db" "db_balances db u \<noteq> None \<Longrightarrow> db_balances db' u \<noteq> None"
    "\<exists>x. 0 \<le> x \<and> x \<le> refund_bound (rp_order plan) \<and>
      (\<forall>o'. taken_back o' db' = taken_back o' db + (if o' = po_id (rp_order plan) then x else 0))"
    "rp_order q = rp_order plan" "rp_refund_amount q = rp_refund_amount plan"
proof -
  have b: "0 \<le> rp_balance plan" "rp_balance plan \<le> refund_bound (rp_order plan)" "0 \<le> refund_bound (rp_order plan)"
    using assms(2) by (auto simp: plan_ok_def)
  have q: "quiet db d \<Longrightarrow> db_orders d = db_orders db \<and> db_balances d = db_balances db \<and> taken_back o' d = taken_back o' db" for d o'
    by (simp add: quiet_def taken_back_def)
  consider (money) taken where "take_balance (po_id (rp_order plan)) (po_user_id (rp_order plan)) (rp_balance plan) db = Some (taken, db')"
      "q = plan\<lparr>rp_balance := taken\<rparr>"
    | (quiet) "quiet db db'" "q = plan"
  proof (cases "deducts_balance plan")
    case True
    with assms(1) that(1) show ?thesis
      by (auto simp: apply_refund_final_deduction_def Let_def split: option.splits)
  next
    case False
    show ?thesis
    proof (rule that(2))
      show "quiet db db'" "q = plan"
        using False assms(1)
        by (auto simp: apply_refund_final_deduction_def Let_def intro: extend_fields revoke_fields
            split: if_splits sum.splits extend_error.splits)
    qed
  qed
  then have *: "db_orders db' = db_orders db \<and> (db_balances db u \<noteq> None \<longrightarrow> db_balances db' u \<noteq> None) \<and>
    (\<exists>x. 0 \<le> x \<and> x \<le> refund_bound (rp_order plan) \<and>
      (\<forall>o'. taken_back o' db' = taken_back o' db + (if o' = po_id (rp_order plan) then x else 0))) \<and>
    rp_order q = rp_order plan \<and> rp_refund_amount q = rp_refund_amount plan"
  proof cases
    case money
    note t = take_balance_some [OF money(1)]
    show ?thesis using t(1,2,3,5,6) b(2) money(2) by (auto intro: order_trans)
  next
    case quiet
    then show ?thesis using q [OF quiet(1)] b(3) by (auto intro!: exI [of _ 0])
  qed
  show "db_orders db' = db_orders db" "db_balances db u \<noteq> None \<Longrightarrow> db_balances db' u \<noteq> None"
    "\<exists>x. 0 \<le> x \<and> x \<le> refund_bound (rp_order plan) \<and>
      (\<forall>o'. taken_back o' db' = taken_back o' db + (if o' = po_id (rp_order plan) then x else 0))"
    "rp_order q = rp_order plan" "rp_refund_amount q = rp_refund_amount plan"
    using * by simp_all
qed


lemma refund_keeps_order:
  assumes "refund_keeps db db'" "db_orders db oid = Some r"
  obtains r' where "db_orders db' oid = Some r'" "same_order r r'"
  using assms by (meson refund_keeps_def)

lemma finalize_pending_refund_contract:
  assumes ok: "refund_orders_ok db" and ph: "refund_phase_ok db (Finalizing plan)"
    and free: "order_refundable db (po_id (rp_order plan)) \<Longrightarrow> taken_back (po_id (rp_order plan)) db = 0"
  shows "refund_contract db (Finalizing plan) (finalize_pending_refund en db plan)"
proof -
  let ?s = "po_id (rp_order plan)" and ?now = "re_now en"
  let ?f = "\<lambda>r. r\<lparr>po_status := Status_refunding\<rparr>"
  have p: "plan_ok db plan" using ph by (simp add: refund_phase_ok_def)
  have read: "refund_contract db (Finalizing plan) (db, Refunded res)" for res
    by (rule contract_read [OF ok]) simp_all
  obtain m db1 where u: "update_order ?now ?s (\<lambda>r. po_status r = Status_refund_pending) ?f db = (m, db1)" by fastforce
  have same: "\<And>r. same_order r (?f r)" by (simp add: same_order_def)
  have amt: "\<forall>r. db_orders db ?s = Some r \<longrightarrow> po_status r = Status_refund_pending \<longrightarrow>
      0 \<le> po_refund_amount (?f r) \<and> po_refund_amount (?f r) \<le> refund_bound r"
    using orders_bound [OF ok] by simp
  note v = update_order_view [OF u ok same amt]
  show ?thesis
  proof (cases "m \<and> apply_refund_final_deduction ?now plan db1 \<noteq> None")
    case False
    then show ?thesis using read by (auto simp: finalize_pending_refund_def u Let_def split: option.split)
  next
    case True
    then obtain q db2 where d: "apply_refund_final_deduction ?now plan db1 = Some (q, db2)" by auto
    note e = final_deduction_effect [OF d p]
    obtain x where x: "0 \<le> x" "x \<le> refund_bound (rp_order plan)"
      "\<And>o'. taken_back o' db2 = taken_back o' db1 + (if o' = ?s then x else 0)" using e(3) by blast
    obtain r where r: "db_orders db ?s = Some r" "po_status r = Status_refund_pending"
      "db_orders db1 ?s = Some ((?f r)\<lparr>po_updated_at := ?now\<rparr>)" using v(6) True by blast
    have z: "taken_back ?s db = 0" using r free by (auto simp: order_refundable_def refundable_def)
    have bnd: "refund_bound r = refund_bound (rp_order plan)" by (rule copy_bounds(2) [OF plan_copy [OF p] r(1)])
    have ok2: "refund_orders_ok db2" using v(2) e(1) by (simp add: refund_orders_ok_def)
    obtain m3 db3 where u3: "update_order ?now ?s (\<lambda>_. True) (refunded_row ?now q) db2 = (m3, db3)" by fastforce
    have amt3: "\<forall>r. db_orders db2 ?s = Some r \<longrightarrow> True \<longrightarrow>
        0 \<le> po_refund_amount (refunded_row ?now q r) \<and> po_refund_amount (refunded_row ?now q r) \<le> refund_bound r"
      using p e(1,5) r(3) bnd by (auto simp: refunded_row_def plan_ok_def refund_bound_def)
    have same3: "\<And>r. same_order r (refunded_row ?now q r)" by (simp add: same_order_def refunded_row_def)
    note v3 = update_order_view [OF u3 ok2 same3 amt3]
    have m3: m3 using v3(8) e(1) r(3) by auto
    then have r3: "db_orders db3 ?s = Some ((refunded_row ?now q ((?f r)\<lparr>po_updated_at := ?now\<rparr>))\<lparr>po_updated_at := ?now\<rparr>)"
      using v3(6) e(1) r(3) by auto
    have t3: "taken_back o' db3 = taken_back o' db + (if o' = ?s then x else 0)" for o'
      using v3(5) [of o'] x(3) [of o'] v(5) [of o'] by simp
    have k: "refund_keeps db db3"
    proof -
      have "db_balances db u \<noteq> None \<Longrightarrow> db_balances db3 u \<noteq> None" for u
        using e(2) [of u] v(4) v3(4) by simp
      moreover have "\<exists>r'. db_orders db3 oid = Some r' \<and> same_order a r'" if a: "db_orders db oid = Some a" for oid a
      proof -
        obtain b where b: "db_orders db1 oid = Some b" "same_order a b" by (rule refund_keeps_order [OF v(1) a])
        obtain c where "db_orders db3 oid = Some c" "same_order b c"
          by (rule refund_keeps_order [OF v3(1)]) (use e(1) b(1) in simp_all)
        with b(2) show ?thesis by (auto simp: same_order_def)
      qed
      ultimately show ?thesis by (auto simp: refund_keeps_def)
    qed
    have view: "same_view db db3 o'" if "o' \<noteq> ?s" for o'
      using v(3) [OF that] v3(3) [OF that] e(1) t3 [of o'] that by (simp add: same_view_def)
    have "\<not> same_view db db3 ?s" using r r3 by (auto simp: same_view_def refunded_row_def)
    moreover have "free_ok db3 ?s"
      using r3 t3 [of ?s] z x(1,2) bnd by (auto simp: free_ok_def refunded_row_def refundable_def refund_bound_def)
    moreover have "order_refundable db ?s" using r by (auto simp: order_refundable_def refundable_def)
    ultimately have c3: "refund_contract db (Finalizing plan) (db3, Refunded res)" for res
      using k v3(2) view by (simp add: refund_contract_def hand_over_def)
    have c4: "refund_contract db (Finalizing plan) (db4, Refunded res)"
      if "insert_audit oid act dt db3 = Some db4" for oid act dt db4 res
      by (rule contract_quiet [OF c3]) (use that in \<open>auto simp: insert_audit_def quiet_def split: if_splits\<close>)
    show ?thesis
      using True d c4 read by (auto simp: finalize_pending_refund_def u u3 effect_def Let_def split: option.split)
  qed
qed

text \<open>All steps.\<close>

lemma refund_step_contract:
  assumes inv: "refund_inv (db, ws)" and i: "i < length ws" and ok: "refund_event_ok (db, ws) (Refund_work i en)"
  shows "refund_contract db (ws ! i) (refund_step sv en db (ws ! i))"
proof -
  have o: "refund_orders_ok db" using inv by (simp add: refund_inv_def)
  have ph: "refund_phase_ok db (ws ! i)" using inv i by (simp add: refund_inv_def)
  have own: "holds db (refund_subject (ws ! i)) x" if "owes (ws ! i) = Some x" for x
    using inv i that by (simp add: refund_inv_def)
  have free: "order_refundable db oid \<Longrightarrow> taken_back oid db = 0" for oid by (rule refund_inv_free [OF inv])
  show ?thesis
  proof (cases "ws ! i")
    case (Revoking plan)
    then show ?thesis using ph own by (simp add: revoke_contract [OF o] refund_phase_ok_def)
  next
    case (Marking_failed plan)
    then show ?thesis using own by (auto intro!: mark_refund_failed_contract [OF o])
  next
    case (Finalize_failed ord)
    moreover have "order_refundable db (po_id ord)"
      using ok i Finalize_failed by (auto simp: order_refundable_def refundable_def)
    ultimately show ?thesis using ok i free by (auto intro!: mark_refund_failed_contract [OF o])
  next
    case (Query_waiting oid)
    then show ?thesis by (auto intro!: contract_audit contract_read [OF o])
  next
    case (Query_detail ord)
    with ph show ?thesis by (auto intro!: contract_read [OF o] simp: refund_phase_ok_def)
  qed (use o ph own free ok i in \<open>simp_all add: validate_refund_request_contract request_balance_contract request_update_contract
      prepare_refund_contract prepare_deduction_contract lock_refund_contract check_rollback_contract deduct_contract
      ask_gateway_contract rollback_contract restore_status_contract mark_refund_ok_contract mark_refund_pending_contract
      query_refund_order_contract query_gateway_contract finalize_locate_contract finalize_pending_refund_contract
      contract_read\<close>)
qed

section \<open>Runs\<close>

lemma refund_system_step_inv:
  assumes inv: "refund_inv (db, ws)" and ok: "refund_event_ok (db, ws) e"
  shows "refund_inv (refund_system_step sv (db, ws) e)"
proof (cases e)
  case (Start_refund ph)
  with ok have "refund_phase_ok db ph" "owes ph = None"
    by (cases ph; simp add: refund_phase_ok_def)+
  with inv show ?thesis
    by (auto simp: Start_refund refund_inv_def nth_append less_Suc_eq split: if_splits)
next
  case (Refund_work i en)
  obtain db' ph where st: "refund_step sv en db (ws ! i) = (db', ph)" by fastforce
  from ok have i: "i < length ws" by (simp add: Refund_work)
  from refund_step_contract [OF inv i, of en sv] ok st have "refund_contract db (ws ! i) (db', ph)"
    by (simp add: Refund_work)
  with refund_step_inv [OF inv i] st show ?thesis by (simp add: Refund_work)
next
  case (Other_movement uid x)
  show ?thesis
  proof (cases "update_balance uid x db")
    case None with inv show ?thesis by (simp add: Other_movement)
  next
    case (Some db')
    then obtain b where db': "db' = db\<lparr>db_balances := (db_balances db)(uid \<mapsto> b)\<rparr>"
      by (auto simp: update_balance_def split: option.splits)
    have eq: "taken_back oid db' = taken_back oid db" "db_orders db' = db_orders db" for oid
      by (simp_all add: db' taken_back_def)
    have k: "refund_keeps db db'" by (auto simp: refund_keeps_def db' same_order_def)
    have h: "refund_orders_ok db' = refund_orders_ok db" "holds db' oid x = holds db oid x" for oid x
      by (simp_all add: refund_orders_ok_def holds_def eq)
    have "free_ok db' oid = free_ok db oid" for oid
      by (cases "db_orders db oid") (simp_all add: free_ok_def eq)
    with h inv refund_keeps_phase [OF k] Some show ?thesis by (auto simp: Other_movement refund_inv_def)
  qed
qed

interpretation refund: invariant_machine refund_event_ok "refund_system_step sv" refund_inv for sv
  by unfold_locales (metis refund_system_step_inv surj_pair)

lemma start_refund_inv:
  assumes "refund_orders_ok db" "db_refunds db = []"
  shows "refund_inv (db, [])"
  using assms orders_bound(1) [OF assms(1)]
  by (auto simp: refund_inv_def free_ok_def taken_back_def split: option.split)

end
