(* ===== verification/RefundProperties.thy ===== *)
theory RefundProperties
  imports RefundInvariant PaymentProperties
begin

text \<open>
  What the refund handlers guarantee, and the run that shows where a guarantee ends: a rollback that
  fails during a second pending attempt is forgotten, and the balance is taken twice.
\<close>

lemma owes_bounds:
  assumes "refund_phase_ok db ph" "owes ph = Some x" "db_orders db (refund_subject ph) = Some r"
  shows "0 \<le> x \<and> x \<le> refund_bound r"
proof -
  obtain plan where plan: "phase_plan ph = Some plan" "refund_subject ph = po_id (rp_order plan)" "x = 0 \<or> x = owed plan"
    using assms(2) by (cases ph) auto
  then have p: "plan_ok db plan" using assms(1) by (simp add: refund_phase_ok_def)
  have "refund_bound r = refund_bound (rp_order plan)"
    using copy_bounds(2) [OF plan_copy [OF p]] assms(3) plan(2) by simp
  with plan(3) owed_bounds [OF p] show ?thesis by auto
qed

text \<open>
  C9: In every interleaving of refund attempts, users' requests and queries of pending refunds that \<open>refund_event_ok\<close>
  admits, the refunds of an order never take back more than its amount and the tolerance of 0.01, and an
  order in a status from which it can be refunded has nothing taken back. Admitted is any failure and any
  lost reply of a call but three: a deduction whose reply is lost, a rollback that fails or whose
  reply is lost (the end of this theory shows such a run), and the write of a query that ends as failed (\<open>finalizeRefundFailed\<close>, which has no
  condition on the status) at a moment when the order is not REFUND_PENDING, because another handler has
  taken it since. A lost reply of a deduction, a
  failed rollback and that unguarded write each break the statement.
\<close>

theorem refunds_take_back_once:
  assumes "refund_orders_ok db0" "db_refunds db0 = []"
    and "admissible refund_event_ok (refund_system_step sv) (db0, []) es"
    and "run_steps (refund_system_step sv) (db0, []) es = (db, ws)"
    and r: "db_orders db oid = Some r"
  shows "0 \<le> taken_back oid db \<and> taken_back oid db \<le> po_amount r + 10 ^ 6 \<and>
    (refundable (po_status r) \<longrightarrow> taken_back oid db = 0)"
proof -
  have inv: "refund_inv (db, ws)"
    using refund.inv_run [OF start_refund_inv [OF assms(1,2)] assms(3)] assms(4) by simp
  show ?thesis
  proof (cases "\<exists>i<length ws. owes (ws ! i) \<noteq> None \<and> refund_subject (ws ! i) = oid")
    case True
    then obtain i x where i: "i < length ws" "owes (ws ! i) = Some x" "refund_subject (ws ! i) = oid" by blast
    with inv have h: "holds db oid x" "refund_phase_ok db (ws ! i)" by (auto simp: refund_inv_def)
    have "\<not> refundable (po_status r)" using h(1) r by (simp add: holds_def refundable_def)
    with owes_bounds [OF h(2) i(2)] i(3) r h(1) show ?thesis by (simp add: holds_def refund_bound_def)
  next
    case False
    then have "\<forall>ph\<in>set ws. owes ph \<noteq> None \<longrightarrow> refund_subject ph \<noteq> oid" by (metis in_set_conv_nth)
    with inv have "free_ok db oid" by (simp add: refund_inv_def)
    moreover have "0 \<le> refund_bound r" using orders_bound [of db oid r] inv r by (simp add: refund_inv_def)
    ultimately show ?thesis using r by (auto simp: free_ok_def refund_bound_def split: if_splits)
  qed
qed

text \<open>
  C25: In the same runs, with the same events excluded (no lost reply of a deduction, no failed rollback, no failed
  query that writes while the order is not REFUND_PENDING), an order has at most one handler between its lock and its
  last write, and the order has the status REFUNDING for as long.
\<close>

theorem refund_has_one_owner:
  assumes "refund_orders_ok db0" "db_refunds db0 = []"
    and "admissible refund_event_ok (refund_system_step sv) (db0, []) es"
    and "run_steps (refund_system_step sv) (db0, []) es = (db, ws)"
    and "i < length ws" "j < length ws" "owes (ws ! i) \<noteq> None" "owes (ws ! j) \<noteq> None"
    and "refund_subject (ws ! i) = refund_subject (ws ! j)"
  shows "i = j \<and> map_option po_status (db_orders db (refund_subject (ws ! i))) = Some Status_refunding"
proof -
  have inv: "refund_inv (db, ws)"
    using refund.inv_run [OF start_refund_inv [OF assms(1,2)] assms(3)] assms(4) by simp
  with assms(5-9) have "i = j" by (auto simp: refund_inv_def)
  moreover have "holds db (refund_subject (ws ! i)) (the (owes (ws ! i)))" using inv assms(5,7) by (auto simp: refund_inv_def)
  ultimately show ?thesis by (simp add: holds_def)
qed


text \<open>
  The example runs: an order of 10.00, completed and paid, whose user has a balance of 25.00; the provider's
  reply differs from call to call.
\<close>

definition paid_order :: pay_order where
  "paid_order = example_order\<lparr>po_status := Status_completed, po_payment_trade_no := ''T1''\<rparr>"

definition paid_db :: pay_db where
  "paid_db = (empty_pay_db [3 \<mapsto> 2500000000])\<lparr>db_orders := [7 \<mapsto> paid_order]\<rparr>"

definition refund_reply :: "instant \<Rightarrow> string \<Rightarrow> refund_env" where
  "refund_reply t st =
     \<lparr>re_call = healthy_at t, re_provider = Lookup_found \<lparr>pi_refund_enabled = True, pi_allow_user_refund = True,
        pi_usable = True, pi_metadata_ok = True, pi_can_query = True\<rparr>,
      re_gateway_error = False, re_gateway_response = Some \<lparr>rr_refund_id = ''R1'', rr_status = st\<rparr>\<rparr>"

definition refund_attempt :: refund_phase where
  "refund_attempt = Preparing 7 (Finite 0) ''not needed'' False True"

lemmas refund_evals = prepare_refund_def prepare_deduction_def prep_deduct_def lock_refund_def check_rollback_def
  deduct_def take_balance_def deduct_available_balance_def ask_gateway_def gw_refund_def rollback_def
  after_rollback_def restore_status_def mark_refund_failed_def mark_refund_ok_def mark_refund_pending_def
  refunded_row_def refundable_def deducts_balance_def deducts_days_def refund_reason_def
  validate_refund_response_def calculate_gateway_refund_amount_def query_refund_order_def
  latest_refund_pending_detail_def refund_finalize_plan_def after_query_def query_gateway_def
  apply_refund_final_deduction_def finalize_pending_refund_def Let_def

lemmas refund_example_defs = paid_order_def paid_db_def refund_reply_def refund_attempt_def

lemma refund_trims: "trim_space ''success'' = ''success''" "trim_space ''pending'' = ''pending''"
  "trim_space ''failed'' = ''failed''" "trim_space ''not needed'' = ''not needed''" "trim_space ''R1'' = ''R1''"
  by (simp_all add: trim_space_def strip_left.simps strip_one_def utf8_spaces_code)


definition refund_works :: "(instant \<times> string) list \<Rightarrow> nat \<Rightarrow> refund_event list" where
  "refund_works rs i = map (\<lambda>(t, st). Refund_work i (refund_reply t st)) rs"


definition refunds_in_turn :: "refund_event list" where
  "refunds_in_turn =
     Start_refund refund_attempt # refund_works (map (\<lambda>t. (t, ''pending'')) [1, 2, 3, 4, 5, 6, 7, 8]) 0 @
     Start_refund (Querying 7) # refund_works (map (\<lambda>t. (t, ''failed'')) [9, 10, 11, 12]) 1 @
     [Start_refund refund_attempt, Start_refund refund_attempt, Other_movement 3 5] @
     refund_works (map (\<lambda>t. (t, ''success'')) [13, 14, 15, 16, 17, 18]) 2"

lemma refunds_in_turn_admissible:
  "refund_orders_ok paid_db" "db_refunds paid_db = []"
  "admissible refund_event_ok (refund_system_step example_services) (paid_db, []) refunds_in_turn"
  by (simp_all add: refunds_in_turn_def refund_works_def refund_example_defs refund_evals pay_evals example_defs
      refund_trims refund_orders_ok_def refund_bound_def)

lemma refunds_in_turn_outcome:
  "\<exists>db ws r. run_steps (refund_system_step example_services) (paid_db, []) refunds_in_turn = (db, ws) \<and>
     db_orders db 7 = Some r \<and> po_amount r = 1000000000 \<and> po_status r = Status_refunding \<and>
     taken_back 7 db = 1000000000 \<and> length ws = 4 \<and> owes (ws ! 2) = Some 1000000000 \<and> refund_subject (ws ! 2) = 7"
  by (simp add: refunds_in_turn_def refund_works_def refund_example_defs refund_evals pay_evals example_defs
      refund_trims taken_back_def owed_def)

theorem refunds_take_back_once_witness:
  "\<exists>db. fst (run_steps (refund_system_step example_services) (paid_db, []) refunds_in_turn) = db \<and>
     0 \<le> taken_back 7 db \<and> taken_back 7 db \<le> 1001000000"
proof -
  obtain db ws r where run: "run_steps (refund_system_step example_services) (paid_db, []) refunds_in_turn = (db, ws)"
    and r: "db_orders db 7 = Some r" "po_amount r = 1000000000"
    using refunds_in_turn_outcome by blast
  show ?thesis using refunds_take_back_once [OF refunds_in_turn_admissible run r(1)] run r(2) by simp
qed

theorem refund_has_one_owner_witness:
  "\<exists>db ws. run_steps (refund_system_step example_services) (paid_db, []) refunds_in_turn = (db, ws) \<and>
     map_option po_status (db_orders db 7) = Some Status_refunding"
proof -
  obtain db ws where run: "run_steps (refund_system_step example_services) (paid_db, []) refunds_in_turn = (db, ws)"
    and w: "length ws = 4" "owes (ws ! 2) = Some 1000000000" "refund_subject (ws ! 2) = 7"
    using refunds_in_turn_outcome by blast
  show ?thesis using refund_has_one_owner [OF refunds_in_turn_admissible run, of 2 2] run w by simp
qed

section \<open>A rollback that is forgotten\<close>

text \<open>
  A run outside the assumptions: a first pending attempt, given back, ends as failed; the rollback of a
  second one fails, and its audit entry is refused by the unique index, so the final query
  reads the entry of the first attempt and deducts what was never given back. A handler that runs alone is described by
  what its order looks like before and after it.
\<close>

definition refund_alone :: "pay_services \<Rightarrow> pay_db \<times> refund_phase \<Rightarrow> refund_env list \<Rightarrow> pay_db \<times> refund_phase" where
  "refund_alone sv = run_steps (\<lambda>(db, ph) en. refund_step sv en db ph)"

lemma refund_alone_simps [simp]:
  "refund_alone sv x [] = x" "refund_alone sv (db, ph) (en # ens) = refund_alone sv (refund_step sv en db ph) ens"
  by (simp_all add: refund_alone_def)

lemma run_refund_alone:
  "i < length ws \<Longrightarrow> run_steps (refund_system_step sv) (db, ws) (map (Refund_work i) ens) =
     (case refund_alone sv (db, ws ! i) ens of (db', ph) \<Rightarrow> (db', ws[i := ph]))"
proof (induction ens arbitrary: db ws)
  case Nil then show ?case by simp
next
  case (Cons en ens)
  obtain d ph where d: "refund_step sv en db (ws ! i) = (d, ph)" by fastforce
  with Cons.IH [of "ws[i := ph]" d] Cons.prems show ?case by (simp split: prod.split)
qed

text \<open>What an order looks like between two handlers: its row, the balance of its user, what was taken back, its audit entries.\<close>

definition audit_detail_of :: "int \<Rightarrow> string \<Rightarrow> pay_db \<Rightarrow> audit_detail option" where
  "audit_detail_of oid a db = map_option au_detail (find (\<lambda>x. au_order x = oid \<and> au_action x = a) (db_audits db))"

definition at_rest :: "pay_db \<Rightarrow> pay_order \<Rightarrow> order_status \<Rightarrow> amount \<Rightarrow> amount \<Rightarrow> bool" where
  "at_rest db r st b x \<longleftrightarrow>
     (\<exists>r'. db_orders db (po_id r) = Some r' \<and> po_id r' = po_id r \<and> po_order_type r' = Balance_order \<and> po_status r' = st \<and>
        po_amount r' = po_amount r \<and> po_user_id r' = po_user_id r \<and> po_payment_trade_no r' = po_payment_trade_no r \<and>
        (st = Status_refund_pending \<longrightarrow> po_refund_amount r' = po_amount r)) \<and>
     db_balances db (po_user_id r) = Some b \<and> taken_back (po_id r) db = x"

lemma find_snoc: "find P (xs @ [x]) = (case find P xs of None \<Rightarrow> if P x then Some x else None | Some y \<Rightarrow> Some y)"
  by (induction xs) auto

lemma has_audit_detail: "has_audit oid a db \<longleftrightarrow> audit_detail_of oid a db \<noteq> None"
  unfolding has_audit_def audit_detail_of_def option.map_disc_iff find_None_iff by blast

lemma audit_detail_write:
  "audit_detail_of oid a (write_audit_detail oid' a' d db) =
     (if oid' = oid \<and> a' = a \<and> audit_detail_of oid a db = None then Some d else audit_detail_of oid a db)"
proof (cases "has_audit oid' a' db")
  case True
  then show ?thesis using has_audit_detail [of oid' a' db] by (auto simp: write_audit_detail_def insert_audit_def)
next
  case False
  then have "write_audit_detail oid' a' d db = db\<lparr>db_audits := db_audits db @ [\<lparr>au_order = oid', au_action = a', au_detail = d\<rparr>]\<rparr>"
    by (simp add: write_audit_detail_def insert_audit_def)
  then show ?thesis using False has_audit_detail [of oid' a' db] by (auto simp: audit_detail_of_def find_snoc split: option.split)
qed

lemma write_audit_detail_rest:
  "db_orders (write_audit_detail oid a d db) = db_orders db" "db_balances (write_audit_detail oid a d db) = db_balances db"
  "db_refunds (write_audit_detail oid a d db) = db_refunds db"
  by (simp_all add: write_audit_detail_def insert_audit_def)

lemma audit_detail_cong:
  "audit_detail_of oid a (db\<lparr>db_orders := f\<rparr>) = audit_detail_of oid a db"
  "audit_detail_of oid a (db\<lparr>db_balances := g\<rparr>) = audit_detail_of oid a db"
  "audit_detail_of oid a (db\<lparr>db_refunds := h\<rparr>) = audit_detail_of oid a db"
  by (simp_all add: audit_detail_of_def)

definition failing :: "refund_env \<Rightarrow> refund_env" where
  "failing en = en\<lparr>re_call := (re_call en)\<lparr>en_outcome := Call_failed\<rparr>\<rparr>"

text \<open>The calls of a handler, all answered; the provider says \<open>st\<close>. In an attempt the seventh call is the rollback.\<close>

definition calls :: "(nat \<Rightarrow> instant) \<Rightarrow> nat \<Rightarrow> string \<Rightarrow> refund_env list" where
  "calls t n st = map (\<lambda>k. refund_reply (t k) st) [0..<n]"

definition attempt_calls :: "(nat \<Rightarrow> instant) \<Rightarrow> bool \<Rightarrow> refund_env list" where
  "attempt_calls t ok = (if ok then calls t 8 ''pending'' else (calls t 8 ''pending'')[6 := failing (refund_reply (t 6) ''pending'')])"

lemmas refund_call_evals = refund_reply_def healthy_at_def reply_order_def answered_def effect_def audit_def
  update_order_def update_order_at_def update_balance_def write_audit_def upt_rec

lemma tolerance_nonneg: "\<not> amount_tolerance n < 0"
  by (auto simp: amount_tolerance_def zero_less_power)

lemma attempt_pending:
  assumes r: "at_rest db r st b x" "refundable st" "0 < po_amount r" "po_payment_trade_no r \<noteq> []" "po_amount r \<le> b"
    and free: "\<not> has_audit (po_id r) ''REFUND_ROLLBACK_FAILED'' db"
  shows "\<exists>db'. refund_alone sv (db, Preparing (po_id r) (Finite 0) reason force True) (attempt_calls t ok) =
      (db', Refunded (Refund_waiting ok)) \<and>
    at_rest db' r Status_refund_pending (if ok then b else b - po_amount r) (if ok then x else x + po_amount r) \<and>
    audit_detail_of (po_id r) ''REFUND_PENDING'' db' =
      (case audit_detail_of (po_id r) ''REFUND_PENDING'' db of
         None \<Rightarrow> Some \<lparr>ad_refund_id = ''R1'', ad_rollback_ok = Some ok\<rparr> | Some d \<Rightarrow> Some d) \<and>
    (has_audit (po_id r) ''REFUND_ROLLBACK_FAILED'' db' \<longleftrightarrow> \<not> ok) \<and>
    has_audit (po_id r) ''REFUND_SUCCESS'' db' = has_audit (po_id r) ''REFUND_SUCCESS'' db"
proof -
  obtain r' where r': "db_orders db (po_id r) = Some r'" "po_id r' = po_id r" "po_order_type r' = Balance_order" "po_status r' = st"
    "po_amount r' = po_amount r" "po_user_id r' = po_user_id r" "po_payment_trade_no r' = po_payment_trade_no r"
    using r(1) by (auto simp: at_rest_def)
  show ?thesis
    using assms r' unfolding at_rest_def
    by (cases ok) (simp_all add: attempt_calls_def failing_def calls_def refund_call_evals tolerance_nonneg refund_trims
        prepare_refund_def prepare_deduction_def prep_deduct_def lock_refund_def check_rollback_def
        deduct_def take_balance_def deduct_available_balance_def ask_gateway_def gw_refund_def rollback_def
        after_rollback_def mark_refund_pending_def Let_def validate_refund_response_def deducts_balance_def
        deducts_days_def has_audit_detail audit_detail_write audit_detail_cong taken_back_def write_audit_detail_rest
        split: option.split)
qed

lemma query_failed:
  assumes r: "at_rest db r Status_refund_pending b x"
  shows "\<exists>db'. refund_alone sv (db, Querying (po_id r)) (calls t 4 ''failed'') = (db', Refunded Refund_failure) \<and>
    at_rest db' r Status_refund_failed b x \<and>
    audit_detail_of (po_id r) ''REFUND_PENDING'' db' = audit_detail_of (po_id r) ''REFUND_PENDING'' db \<and>
    has_audit (po_id r) ''REFUND_ROLLBACK_FAILED'' db' = has_audit (po_id r) ''REFUND_ROLLBACK_FAILED'' db \<and>
    has_audit (po_id r) ''REFUND_SUCCESS'' db' = has_audit (po_id r) ''REFUND_SUCCESS'' db"
  using assms unfolding at_rest_def
  by (auto simp: calls_def refund_call_evals refund_trims query_refund_order_def query_gateway_def
        mark_refund_failed_def Let_def validate_refund_response_def has_audit_detail audit_detail_write audit_detail_cong
        taken_back_def write_audit_detail_rest)

lemma query_succeeded:
  assumes r: "at_rest db r Status_refund_pending b x" "po_amount r \<le> b" "0 < po_amount r"
    and audits: "audit_detail_of (po_id r) ''REFUND_PENDING'' db = Some d" "ad_rollback_ok d = Some True"
      "\<not> has_audit (po_id r) ''REFUND_SUCCESS'' db"
  shows "\<exists>db'. refund_alone sv (db, Querying (po_id r)) (calls t 4 ''success'') =
      (db', Refunded (Refund_success (po_amount r) 0)) \<and>
    at_rest db' r Status_refunded (b - po_amount r) (x + po_amount r)"
proof -
  have d: "ad_rollback_ok (latest_refund_pending_detail (refund_reply s ''success'') db (po_id r)) = Some True" for s
    using audits by (auto simp: latest_refund_pending_detail_def audit_detail_of_def refund_call_evals)
  obtain r' where r': "db_orders db (po_id r) = Some r'" "po_id r' = po_id r" "po_order_type r' = Balance_order"
    "po_status r' = Status_refund_pending" "po_refund_amount r' = po_amount r"
    "po_amount r' = po_amount r" "po_user_id r' = po_user_id r" "po_payment_trade_no r' = po_payment_trade_no r"
    using r(1) by (auto simp: at_rest_def)
  have eq: "refund_alone sv (db, Querying (po_id r)) (calls t 4 ''success'') =
      finalize_pending_refund (refund_reply (t 3) ''success'') db (refund_finalize_plan sv r')"
    using d [of "t 1"] r' by (simp add: calls_def upt_rec eval_nat_numeral query_refund_order_def query_gateway_def after_query_def Let_def
        validate_refund_response_def refund_trims reply_order_def answered_def refund_reply_def healthy_at_def)
  have "\<exists>db'. finalize_pending_refund (refund_reply (t 3) ''success'') db (refund_finalize_plan sv r') =
      (db', Refunded (Refund_success (po_amount r) 0)) \<and>
      at_rest db' r Status_refunded (b - po_amount r) (x + po_amount r)"
    using r r' audits(3) unfolding at_rest_def
    by (simp add: finalize_pending_refund_def refund_finalize_plan_def apply_refund_final_deduction_def deducts_balance_def
        take_balance_def deduct_available_balance_def refunded_row_def refund_call_evals insert_audit_def Let_def
        has_audit_def taken_back_def)
  then show ?thesis unfolding eq .
qed

definition forgotten_rollback :: "int \<Rightarrow> string \<Rightarrow> bool \<Rightarrow> (nat \<Rightarrow> nat \<Rightarrow> instant) \<Rightarrow> refund_event list" where
  "forgotten_rollback oid reason force t =
     Start_refund (Preparing oid (Finite 0) reason force True) # map (Refund_work 0) (attempt_calls (t 0) True) @
     Start_refund (Querying oid) # map (Refund_work 1) (calls (t 1) 4 ''failed'') @
     Start_refund (Preparing oid (Finite 0) reason force True) # map (Refund_work 2) (attempt_calls (t 2) False) @
     Start_refund (Querying oid) # map (Refund_work 3) (calls (t 3) 4 ''success'')"

lemma started:
  assumes "refund_alone sv (db, ph) ens = (db', ph')"
  shows "run_steps (refund_system_step sv) (db, ws) (Start_refund ph # map (Refund_work (length ws)) ens @ es) =
    run_steps (refund_system_step sv) (db', ws @ [ph']) es"
  using assms run_refund_alone [of "length ws" "ws @ [ph]" sv db ens] by (simp add: run_steps_append)

text \<open>
  C28: When the rollback of a second pending attempt fails, the query of its success takes the whole
  amount a second time. For every completed balance order that was paid through a provider, without
  refund entries in its audit log, and a balance of at least twice its amount: a first pending attempt that is given
  back and ends as failed, then a second one whose rollback fails, then the query that finds it refunded
  leave the order REFUNDED, report one deduction of its amount, and have taken twice its amount from the user.
\<close>

theorem second_pending_refund_deducts_twice:
  assumes r: "db_orders db (po_id r) = Some r" "po_order_type r = Balance_order" "po_status r = Status_completed"
      "0 < po_amount r" "po_payment_trade_no r \<noteq> []"
    and b: "db_balances db (po_user_id r) = Some b" "2 * po_amount r \<le> b"
    and audits: "\<not> has_audit (po_id r) ''REFUND_PENDING'' db" "\<not> has_audit (po_id r) ''REFUND_ROLLBACK_FAILED'' db"
      "\<not> has_audit (po_id r) ''REFUND_SUCCESS'' db"
  shows "\<exists>db' ws. run_steps (refund_system_step sv) (db, []) (forgotten_rollback (po_id r) reason force t) = (db', ws) \<and>
    taken_back (po_id r) db' = taken_back (po_id r) db + 2 * po_amount r \<and>
    db_balances db' (po_user_id r) = Some (b - 2 * po_amount r) \<and>
    map_option po_status (db_orders db' (po_id r)) = Some Status_refunded \<and>
    ws ! 3 = Refunded (Refund_success (po_amount r) 0)"
proof -
  let ?oid = "po_id r" and ?a = "po_amount r" and ?x = "taken_back (po_id r) db"
  let ?attempt = "Preparing (po_id r) (Finite 0) reason force True"
  let ?first = "\<lparr>ad_refund_id = ''R1'', ad_rollback_ok = Some True\<rparr>"
  have "at_rest db r Status_completed b ?x" using r b by (simp add: at_rest_def)
  from attempt_pending [OF this _ r(4,5) _ audits(2), of sv reason force "t 0" True] b r(4)
  obtain d1 where d1: "refund_alone sv (db, ?attempt) (attempt_calls (t 0) True) = (d1, Refunded (Refund_waiting True))"
    "at_rest d1 r Status_refund_pending b ?x" "audit_detail_of ?oid ''REFUND_PENDING'' d1 = Some ?first"
    "\<not> has_audit ?oid ''REFUND_ROLLBACK_FAILED'' d1" "\<not> has_audit ?oid ''REFUND_SUCCESS'' d1"
    using audits by (auto simp: refundable_def has_audit_detail)
  from query_failed [OF d1(2), of sv "t 1"] d1
  obtain d2 where d2: "refund_alone sv (d1, Querying ?oid) (calls (t 1) 4 ''failed'') = (d2, Refunded Refund_failure)"
    "at_rest d2 r Status_refund_failed b ?x" "audit_detail_of ?oid ''REFUND_PENDING'' d2 = Some ?first"
    "\<not> has_audit ?oid ''REFUND_ROLLBACK_FAILED'' d2" "\<not> has_audit ?oid ''REFUND_SUCCESS'' d2"
    by auto
  from attempt_pending [OF d2(2) _ r(4,5) _ d2(4), of sv reason force "t 2" False] b r(4) d2
  obtain d3 where d3: "refund_alone sv (d2, ?attempt) (attempt_calls (t 2) False) = (d3, Refunded (Refund_waiting False))"
    "at_rest d3 r Status_refund_pending (b - ?a) (?x + ?a)" "audit_detail_of ?oid ''REFUND_PENDING'' d3 = Some ?first"
    "\<not> has_audit ?oid ''REFUND_SUCCESS'' d3"
    by (auto simp: refundable_def)
  from query_succeeded [OF d3(2) _ r(4) d3(3) _ d3(4), of sv "t 3"] b
  obtain d4 where d4: "refund_alone sv (d3, Querying ?oid) (calls (t 3) 4 ''success'') = (d4, Refunded (Refund_success ?a 0))"
    "at_rest d4 r Status_refunded (b - ?a - ?a) (?x + ?a + ?a)"
    by auto
  let ?ws = "[Refunded (Refund_waiting True), Refunded Refund_failure, Refunded (Refund_waiting False),
      Refunded (Refund_success ?a 0)]"
  have "run_steps (refund_system_step sv) (db, []) (forgotten_rollback ?oid reason force t) = (d4, ?ws)"
    using started [OF d1(1), of "[]"] started [OF d2(1), of "[Refunded (Refund_waiting True)]"]
      started [OF d3(1), of "[Refunded (Refund_waiting True), Refunded Refund_failure]"]
      started [OF d4(1), of "[Refunded (Refund_waiting True), Refunded Refund_failure, Refunded (Refund_waiting False)]" "[]"]
    unfolding forgotten_rollback_def by (simp add: numeral_eq_Suc del: run_steps.simps(2))
  with d4(2) show ?thesis by (auto simp: at_rest_def)
qed

theorem second_pending_refund_deducts_twice_witness:
  "\<exists>db ws. run_steps (refund_system_step example_services) (paid_db, [])
       (forgotten_rollback 7 ''not needed'' False (\<lambda>i k. int (8 * i + k))) = (db, ws) \<and>
     taken_back 7 db = 2000000000 \<and> db_balances db 3 = Some 500000000"
proof -
  have "db_orders paid_db 7 = Some paid_order" "db_audits paid_db = []" "db_refunds paid_db = []"
    "db_balances paid_db 3 = Some 2500000000"
    by (simp_all add: paid_db_def empty_pay_db_def)
  moreover have "po_id paid_order = 7" "po_order_type paid_order = Balance_order" "po_status paid_order = Status_completed"
    "po_amount paid_order = 1000000000" "po_payment_trade_no paid_order = ''T1''" "po_user_id paid_order = 3"
    by (simp_all add: paid_order_def example_order_def)
  ultimately show ?thesis
    using second_pending_refund_deducts_twice [of paid_db paid_order 2500000000 example_services "''not needed''" False
        "\<lambda>i k. int (8 * i + k)"]
    by (auto simp: has_audit_def taken_back_def)
qed

end
