(* ===== verification/Calendar.thy ===== *)
theory Calendar
  imports Prelude
begin

text \<open>
  The civil calendar of Go's package time, in UTC: days are counted from 0001-01-01, the day of Go's zero
  time and a Monday. \<open>year_of\<close> and \<open>month_of\<close> are \<open>Time.Date\<close>, \<open>month_start\<close> the day of \<open>time.Date(y, m, 1)\<close>.
\<close>

abbreviation day :: duration where "day \<equiv> 86400000000000"

definition day_of :: "instant \<Rightarrow> int" where
  "day_of t = t div day"

definition weekday :: "int \<Rightarrow> int" where
  "weekday d = (d + 1) mod 7"

definition leap :: "int \<Rightarrow> bool" where
  "leap y \<longleftrightarrow> y mod 4 = 0 \<and> (y mod 100 \<noteq> 0 \<or> y mod 400 = 0)"

definition year_start :: "int \<Rightarrow> int" where
  "year_start y = 365 * (y - 1) + (y - 1) div 4 - (y - 1) div 100 + (y - 1) div 400"

definition month_offset :: "bool \<Rightarrow> int \<Rightarrow> int" where
  "month_offset lp m =
     [0, 31, 59, 90, 120, 151, 181, 212, 243, 273, 304, 334, 365] ! nat (m - 1) + (if lp \<and> 2 < m then 1 else 0)"

text \<open>The month may be the thirteenth, which \<open>time.Date\<close> takes for January of the year after.\<close>

definition month_start :: "int \<Rightarrow> int \<Rightarrow> int" where
  "month_start y m = year_start y + month_offset (leap y) m"

definition year_of :: "int \<Rightarrow> int" where
  "year_of d =
     (let y = 400 * d div 146097 + 1
      in if d < year_start y then y - 1 else if year_start (y + 1) \<le> d then y + 1 else y)"

definition month_of :: "int \<Rightarrow> int" where
  "month_of d =
     (let y = year_of d; f = month_start y
      in if d < f 2 then 1 else if d < f 3 then 2 else if d < f 4 then 3 else if d < f 5 then 4
         else if d < f 6 then 5 else if d < f 7 then 6 else if d < f 8 then 7 else if d < f 9 then 8
         else if d < f 10 then 9 else if d < f 11 then 10 else if d < f 12 then 11 else 12)"

lemma div_bounds: "0 < k \<Longrightarrow> k * (n div k) \<le> n \<and> n < k * (n div k) + (k :: int)"
  using mult_div_mod_eq [of k n] pos_mod_bound [of k n] pos_mod_sign [of k n] by linarith

lemma div_step:
  assumes "0 < k"
  shows "y div k = (y - 1) div k + (if y mod k = 0 then 1 else (0 :: int))"
proof (cases "y mod k = 0")
  case True
  then have y: "y = k * (y div k)" using mult_div_mod_eq [of k y] by simp
  have "y - 1 = k * (y div k - 1) + (k - 1)" by (subst (1) y) (simp add: right_diff_distrib)
  from int_div_pos_eq [OF this] have "(y - 1) div k = y div k - 1" using assms by linarith
  with True show ?thesis by simp
next
  case False
  have "y - 1 = k * (y div k) + (y mod k - 1)" using mult_div_mod_eq [of k y] by linarith
  moreover have "0 < y mod k" "y mod k < k" using False pos_mod_sign [of k y] pos_mod_bound [of k y] assms by (simp_all add: less_le)
  ultimately have "(y - 1) div k = y div k" by (intro int_div_pos_eq [of _ _ _ "y mod k - 1"]) auto
  with False show ?thesis by simp
qed

lemma sum_steps: "a = a' + i \<Longrightarrow> b = b' + j \<Longrightarrow> c = c' + k \<Longrightarrow> a - b + c = a' - b' + c' + (i - j + k :: int)"
  by simp

lemma year_length: "year_start (y + 1) = year_start y + (if leap y then 366 else 365)"
proof -
  have "(4 :: int) dvd 100" "(100 :: int) dvd 400" by simp_all
  then have "y mod 100 = 0 \<Longrightarrow> y mod 4 = 0" "y mod 400 = 0 \<Longrightarrow> y mod 100 = 0"
    by (metis dvd_eq_mod_eq_0 dvd_trans)+
  then have extra: "(if y mod 4 = 0 then 1 else 0) - (if y mod 100 = 0 then 1 else 0) + (if y mod 400 = 0 then 1 else 0) =
      (if leap y then 1 else (0 :: int))"
    by (cases "y mod 4 = 0"; cases "y mod 100 = 0"; cases "y mod 400 = 0") (simp_all add: leap_def)
  have "year_start (y + 1) = 365 * y + y div 4 - y div 100 + y div 400" by (simp add: year_start_def)
  moreover have "y div 4 - y div 100 + y div 400 =
      (y - 1) div 4 - (y - 1) div 100 + (y - 1) div 400 + (if leap y then 1 else 0)"
    unfolding extra [symmetric] by (rule sum_steps) (rule div_step, simp)+
  ultimately have "year_start (y + 1) =
      365 * y + ((y - 1) div 4 - (y - 1) div 100 + (y - 1) div 400 + (if leap y then 1 else 0))"
    by (metis add_diff_eq add.assoc)
  then show ?thesis by (simp add: year_start_def)
qed

lemma year_start_close: "146097 * (y - 1) - 800 \<le> 400 * year_start y" "400 * year_start y \<le> 146097 * (y - 1) + 800"
proof -
  define n a b c where "n = y - 1" and "a = n div 4" and "b = n div 100" and "c = n div 400"
  have b: "4 * a \<le> n" "n < 4 * a + 4" "100 * b \<le> n" "n < 100 * b + 100" "400 * c \<le> n" "n < 400 * c + 400"
    using div_bounds [of 4 n] div_bounds [of 100 n] div_bounds [of 400 n] by (simp_all add: a_def b_def c_def)
  have "year_start y = 365 * n + a - b + c" by (simp add: year_start_def n_def a_def b_def c_def)
  with b show "146097 * (y - 1) - 800 \<le> 400 * year_start y" "400 * year_start y \<le> 146097 * (y - 1) + 800"
    unfolding n_def [symmetric] by linarith+
qed

lemma year_of_bounds: "year_start (year_of d) \<le> d \<and> d < year_start (year_of d + 1)"
proof -
  define y where "y = 400 * d div 146097 + 1"
  have a: "146097 * (y - 1) \<le> 400 * d" "400 * d < 146097 * (y - 1) + 146097"
    using div_bounds [of 146097 "400 * d"] by (simp_all add: y_def)
  have "400 * year_start (y - 1) \<le> 400 * d" using year_start_close(2) [of "y - 1"] a(1) by (simp add: algebra_simps)
  then have "year_start (y - 1) \<le> d" by simp
  moreover have "400 * d < 400 * year_start (y + 2)" using year_start_close(1) [of "y + 2"] a(2) by (simp add: algebra_simps)
  then have "d < year_start (y + 2)" by simp
  ultimately show ?thesis by (auto simp: year_of_def y_def [symmetric] Let_def add.assoc)
qed

lemma month_offset_less:
  "1 \<le> m \<Longrightarrow> m < 13 \<Longrightarrow> month_offset lp m < month_offset lp (m + 1)"
proof -
  assume "1 \<le> m" "m < 13"
  then have "m = 1 \<or> m = 2 \<or> m = 3 \<or> m = 4 \<or> m = 5 \<or> m = 6 \<or> m = 7 \<or> m = 8 \<or> m = 9 \<or> m = 10 \<or> m = 11 \<or> m = 12"
    by arith
  then show ?thesis by (elim disjE) (simp_all add: month_offset_def)
qed

lemma month_of_bounds:
  "1 \<le> month_of d \<and> month_of d \<le> 12 \<and> month_start (year_of d) (month_of d) \<le> d \<and>
   d < month_start (year_of d) (month_of d + 1)"
proof -
  have 13: "month_start y 13 = year_start (y + 1)" for y by (simp add: month_start_def month_offset_def year_length)
  have 1: "month_start y 1 = year_start y" for y by (simp add: month_start_def month_offset_def)
  show ?thesis
    using year_of_bounds [of d] 13 [of "year_of d"] 1 [of "year_of d"] by (simp add: month_of_def Let_def)
qed


lemma year_start_mono: "y \<le> y' \<Longrightarrow> year_start y \<le> year_start y'"
proof (induction y' rule: int_ge_induct)
  case (step i)
  then show ?case using year_length [of i] by (simp split: if_splits)
qed simp

lemma year_of_eq:
  assumes "year_start y \<le> d" "d < year_start (y + 1)"
  shows "year_of d = y"
proof -
  have "\<not> year_of d < y" using year_start_mono [of "year_of d + 1" y] year_of_bounds [of d] assms by linarith
  moreover have "\<not> y < year_of d" using year_start_mono [of "y + 1" "year_of d"] year_of_bounds [of d] assms by linarith
  ultimately show ?thesis by simp
qed

lemma month_start_13: "month_start y 13 = year_start (y + 1)"
  by (simp add: month_start_def month_offset_def year_length)

lemma month_start_1 [simp]: "month_start y 1 = year_start y"
  by (simp add: month_start_def month_offset_def)

lemma month_start_mono:
  assumes "1 \<le> m" "m \<le> m'" "m' \<le> 13"
  shows "month_start y m \<le> month_start y m'"
  using assms(2,1,3)
proof (induction m' rule: int_ge_induct)
  case (step i)
  then show ?case using month_offset_less [of i "leap y"] by (simp add: month_start_def)
qed simp

lemma date_eq:
  assumes "1 \<le> m" "m \<le> 12" "month_start y m \<le> d" "d < month_start y (m + 1)"
  shows "year_of d = y \<and> month_of d = m"
proof -
  have y: "year_of d = y"
    using assms month_start_mono [of 1 m y] month_start_mono [of "m + 1" 13 y] month_start_13 [of y]
    by (intro year_of_eq) auto
  have "\<not> month_of d < m" using month_start_mono [of "month_of d + 1" m y] month_of_bounds [of d] y assms by auto
  moreover have "\<not> m < month_of d" using month_start_mono [of "m + 1" "month_of d" y] month_of_bounds [of d] y assms by auto
  ultimately show ?thesis using y by simp
qed

end
