(* ===== verification/SubscriptionWindow.thy ===== *)
theory SubscriptionWindow
  imports Calendar
begin

text \<open>
  Subscriptions and their quota windows (service/user_subscription.go, service/subscription_window.go). A
  subscription is a wallet of a user: a limit, an expiry, and the usage of the current window, which starts
  again at midnight, on Monday or on the first of the month (UTC), or never. Amounts are numbers of 10^-10 USD, the
  scale of the columns. A window start of 0 is the unset one.
\<close>

type_synonym usd = int

datatype sub_status = Sub_active | Sub_expired | Sub_suspended | Sub_revoked

record subscription =
  us_id :: int
  us_user_id :: int
  us_plan_id :: "int option"
  us_starts_at :: instant
  us_expires_at :: instant
  us_status :: sub_status
  us_total_limit :: "usd option"
  us_total_usage :: usd
  us_reset_period :: string
  us_window_start :: instant
  us_assigned_by :: "int option"
  us_assigned_at :: instant
  us_notes :: string
  us_created_at :: instant
  us_deleted :: bool

section \<open>Windows\<close>

definition normalize_reset_period :: "string \<Rightarrow> string" where
  "normalize_reset_period raw = (if raw \<in> {''daily'', ''weekly'', ''monthly''} then raw else ''none'')"

definition is_recurring_period :: "string \<Rightarrow> bool" where
  "is_recurring_period period \<longleftrightarrow> normalize_reset_period period \<noteq> ''none''"

definition window_start :: "string \<Rightarrow> instant \<Rightarrow> instant" where
  "window_start period now =
     (let p = normalize_reset_period period; d = day_of now
      in if p = ''daily'' then d * day
         else if p = ''weekly'' then (let offset = (weekday d + 6) mod 7 in (d - offset) * day)
         else if p = ''monthly'' then month_start (year_of d) (month_of d) * day
         else 0)"

text \<open>\<open>AddDate\<close> on a window's start: one day, seven days, or the first of the next month.\<close>

definition next_window_start :: "string \<Rightarrow> instant \<Rightarrow> instant \<Rightarrow> instant" where
  "next_window_start period current now =
     (let p = normalize_reset_period period;
          base = (if is_zero_time current then window_start p now else current);
          start = window_start p base; d = day_of start
      in if p = ''daily'' then start + day
         else if p = ''weekly'' then start + 7 * day
         else if p = ''monthly'' then month_start (year_of d) (month_of d + 1) * day
         else 0)"

definition window_expired :: "string \<Rightarrow> instant \<Rightarrow> instant \<Rightarrow> bool" where
  "window_expired period start now \<longleftrightarrow>
     is_recurring_period period \<and> (is_zero_time start \<or> start < window_start period now)"

definition effective_usage :: "string \<Rightarrow> instant \<Rightarrow> usd \<Rightarrow> instant \<Rightarrow> usd" where
  "effective_usage period start usage now = (if window_expired period start now then 0 else usage)"

definition effective_window_usage :: "subscription \<Rightarrow> instant \<Rightarrow> usd" where
  "effective_window_usage s now = effective_usage (us_reset_period s) (us_window_start s) (us_total_usage s) now"

text \<open>\<open>NormalizeUsageWindow\<close>: the subscription as of now, and whether it has to be written back.\<close>

definition normalize_usage_window :: "instant \<Rightarrow> subscription \<Rightarrow> subscription \<times> bool" where
  "normalize_usage_window now s =
     (if \<not> is_recurring_period (us_reset_period s) then (s, False)
      else if is_zero_time (us_window_start s)
      then (s\<lparr>us_window_start := window_start (us_reset_period s) now\<rparr>, True)
      else if \<not> window_expired (us_reset_period s) (us_window_start s) now then (s, False)
      else (s\<lparr>us_total_usage := 0, us_window_start := window_start (us_reset_period s) now\<rparr>, True))"

definition window_resets_at :: "subscription \<Rightarrow> instant \<Rightarrow> instant option" where
  "window_resets_at s now =
     (if \<not> is_recurring_period (us_reset_period s) \<or> \<not> now < us_expires_at s then None
      else let current = (if window_expired (us_reset_period s) (us_window_start s) now
                          then window_start (us_reset_period s) now else us_window_start s);
               n = next_window_start (us_reset_period s) current now
           in if is_zero_time n \<or> us_expires_at s < n then None else Some n)"

section \<open>Windows partition time\<close>

lemma normalize_reset_period_idem [simp]:
  "normalize_reset_period (normalize_reset_period p) = normalize_reset_period p"
  by (simp add: normalize_reset_period_def)

lemma window_start_normalized [simp]: "window_start (normalize_reset_period p) = window_start p"
  by (simp add: fun_eq_iff window_start_def)

text \<open>The window of a day, as days: its first and the first of the next window.\<close>

definition first_day :: "string \<Rightarrow> int \<Rightarrow> int" where
  "first_day p d =
     (if p = ''daily'' then d else if p = ''weekly'' then d - d mod 7 else month_start (year_of d) (month_of d))"

definition end_day :: "string \<Rightarrow> int \<Rightarrow> int" where
  "end_day p d =
     (if p = ''daily'' then d + 1 else if p = ''weekly'' then d - d mod 7 + 7
      else month_start (year_of d) (month_of d + 1))"

lemma first_day_bounds: "first_day p d \<le> d \<and> d < end_day p d"
  using month_of_bounds [of d] pos_mod_bound [of 7 d] pos_mod_sign [of 7 d] by (auto simp: first_day_def end_day_def)

lemma first_day_same:
  assumes "first_day p d \<le> e" "e < end_day p d"
  shows "first_day p e = first_day p d \<and> end_day p e = end_day p d"
proof -
  have "e - e mod 7 = d - d mod 7" if "d - d mod 7 \<le> e" "e < d - d mod 7 + 7"
  proof -
    have "d - d mod 7 = 7 * (d div 7)" "e - e mod 7 = 7 * (e div 7)" by (simp_all add: minus_mod_eq_mult_div)
    moreover have "e div 7 = d div 7" using that calculation(1) by (intro int_div_pos_eq [of _ _ _ "e - 7 * (d div 7)"]) auto
    ultimately show ?thesis by simp
  qed
  moreover have "year_of e = year_of d \<and> month_of e = month_of d"
    if "month_start (year_of d) (month_of d) \<le> e" "e < month_start (year_of d) (month_of d + 1)"
    using date_eq [OF _ _ that] month_of_bounds [of d] by simp
  ultimately show ?thesis using assms by (auto simp: first_day_def end_day_def split: if_splits)
qed

lemma recurring_cases:
  assumes "is_recurring_period p"
  obtains "p = ''daily''" | "p = ''weekly''" | "p = ''monthly''"
  using assms by (auto simp: is_recurring_period_def normalize_reset_period_def split: if_splits)

lemma window_start_first:
  assumes "is_recurring_period p"
  shows "window_start p t = first_day p (day_of t) * day"
proof -
  have week: "((d + 1) mod 7 + 6) mod 7 = d mod 7" for d :: int by (simp add: mod_add_left_eq)
  from assms show ?thesis
    by (elim recurring_cases) (simp_all add: window_start_def first_day_def weekday_def normalize_reset_period_def week Let_def)
qed

lemma day_of_days [simp]: "day_of (d * day) = d"
  by (simp add: day_of_def)

lemma first_day_first: "first_day p (first_day p d) = first_day p d" "end_day p (first_day p d) = end_day p d"
  using first_day_same [of p d "first_day p d"] first_day_bounds [of p d] by auto

lemma next_window_start_end:
  assumes "is_recurring_period p" "window_start p t \<noteq> 0"
  shows "next_window_start p (window_start p t) u = end_day p (day_of t) * day"
proof -
  define f where "f = first_day p (day_of t)"
  have w: "window_start p t = f * day" "window_start p (f * day) = f * day"
    using window_start_first [OF assms(1)] first_day_first(1) [of p "day_of t"] by (simp_all add: f_def)
  have e: "end_day p f = end_day p (day_of t)" using first_day_first(2) by (simp add: f_def)
  have "first_day p f = f" using first_day_first(1) by (simp add: f_def)
  then have "p = ''weekly'' \<Longrightarrow> f mod 7 = 0" by (simp add: first_day_def)
  with assms w show ?thesis unfolding e [symmetric]
    by (elim recurring_cases)
      (simp_all add: next_window_start_def normalize_reset_period_def end_day_def algebra_simps Let_def)
qed

lemma day_bounds: "day_of t * day \<le> t" "t < (day_of t + 1) * day"
  using div_bounds [of day t] by (simp_all add: day_of_def algebra_simps)

lemma day_of_le: "d * day \<le> t \<longleftrightarrow> d \<le> day_of t"
  using div_bounds [of day t] by (auto simp: day_of_def) 

lemma window_later: "31 * day \<le> t \<Longrightarrow> is_recurring_period p \<Longrightarrow> 0 < window_start p t"
proof -
  assume t: "31 * day \<le> t" and p: "is_recurring_period p"
  have "end_day p 0 \<le> 31"
    by (simp add: end_day_def year_of_def month_of_def month_start_def year_start_def month_offset_def leap_def Let_def)
  moreover have "31 \<le> day_of t" using t by (simp add: day_of_le [symmetric])
  ultimately have "0 < first_day p (day_of t)"
    using first_day_same [of p "day_of t" 0] first_day_bounds [of p "day_of t"] by (cases "first_day p (day_of t) \<le> 0") auto
  with p show ?thesis by (simp add: window_start_first)
qed

lemma first_day_end: "first_day p (end_day p d) = end_day p d"
proof (rule ccontr)
  let ?e = "end_day p d"
  assume "first_day p ?e \<noteq> ?e"
  then have "first_day p ?e \<le> ?e - 1" using first_day_bounds [of p ?e] by simp
  then have "end_day p (?e - 1) = end_day p ?e" using first_day_same [of p ?e "?e - 1"] first_day_bounds [of p ?e] by simp
  moreover have "end_day p (?e - 1) = ?e" using first_day_same [of p d "?e - 1"] first_day_bounds [of p d] by simp
  ultimately show False using first_day_bounds [of p ?e] by simp
qed

text \<open>
  C39: The windows of a recurring period partition time: a moment lies between the start of its window and
  the start that is computed as the next one, exactly the moments between them have the same
  window, and the computed next start begins its own window. (From February of the year 1 on: before, the
  first window starts at Go's zero time, which stands for an unset start.)
\<close>

theorem windows_partition_time:
  assumes "is_recurring_period p" "31 * day \<le> now"
  shows "window_start p now \<le> now \<and> now < next_window_start p (window_start p now) later \<and>
    (\<forall>t. window_start p t = window_start p now \<longleftrightarrow>
      window_start p now \<le> t \<and> t < next_window_start p (window_start p now) later) \<and>
    window_start p (next_window_start p (window_start p now) later) = next_window_start p (window_start p now) later"
proof -
  define d where "d = day_of now"
  have w: "window_start p t = first_day p (day_of t) * day" for t by (rule window_start_first [OF assms(1)])
  have e: "next_window_start p (window_start p now) later = end_day p d * day"
    using window_later [OF assms(2,1)] by (simp add: next_window_start_end [OF assms(1)] d_def)
  have inside: "first_day p d * day \<le> t \<and> t < end_day p d * day \<longleftrightarrow> first_day p d \<le> day_of t \<and> day_of t < end_day p d" for t
    using day_of_le [of "first_day p d" t] day_of_le [of "end_day p d" t] by auto
  have "first_day p (day_of t) = first_day p d \<longleftrightarrow> first_day p d \<le> day_of t \<and> day_of t < end_day p d" for t
    using first_day_same [of p d "day_of t"] first_day_bounds [of p "day_of t"] first_day_first(2) by metis
  then have same: "window_start p t = window_start p now \<longleftrightarrow> first_day p d * day \<le> t \<and> t < end_day p d * day" for t
    using inside [of t] by (simp add: w d_def)
  have n: "window_start p now = first_day p d * day" by (simp add: w d_def)
  have "first_day p d * day \<le> now" "now < end_day p d * day" using same by blast+
  moreover have "window_start p (end_day p d * day) = end_day p d * day" by (simp add: w first_day_end)
  ultimately show ?thesis unfolding e unfolding n by (intro conjI allI) (assumption | rule same [unfolded n])+
qed

text \<open>The fifteenth of March 2026, 12:00: the month has begun on the first and ends before the first of April.\<close>

theorem windows_partition_time_witness:
  "window_start ''monthly'' (739689 * day + 12 * hour) = 739675 * day \<and>
   next_window_start ''monthly'' (739675 * day) 0 = 739706 * day \<and>
   window_start ''monthly'' (739705 * day) = window_start ''monthly'' (739689 * day + 12 * hour)"
proof -
  let ?now = "739689 * day + 12 * hour"
  have w: "window_start ''monthly'' ?now = 739675 * day" "next_window_start ''monthly'' (739675 * day) 0 = 739706 * day"
    by (simp_all add: window_start_def next_window_start_def normalize_reset_period_def day_of_def year_of_def month_of_def
        month_start_def year_start_def month_offset_def leap_def Let_def)
  moreover have "window_start ''monthly'' (739705 * day) = window_start ''monthly'' ?now"
  proof -
    have "is_recurring_period ''monthly''" "31 * day \<le> ?now"
      by (simp_all add: is_recurring_period_def normalize_reset_period_def)
    from windows_partition_time [OF this, of 0] show ?thesis unfolding w by simp
  qed
  ultimately show ?thesis by simp
qed

section \<open>Normalisation\<close>

text \<open>
  C40: \<open>NormalizeUsageWindow\<close> agrees with \<open>EffectiveWindowUsageUSD\<close> except for a window that was never set: a second
  normalisation at any moment of the same window changes nothing, the usage after it is the effective one, and nothing
  but the usage and the window changes. For an unset window the two disagree: the normalisation keeps the stored
  usage, while the effective usage is nothing.
\<close>

theorem normalization_agrees:
  assumes "31 * day \<le> now" "normalize_usage_window now s = (s', dirty)"
  shows "(window_start (us_reset_period s) later = window_start (us_reset_period s) now \<longrightarrow>
      normalize_usage_window later s' = (s', False) \<and> effective_window_usage s' later = us_total_usage s') \<and>
    s' = s\<lparr>us_total_usage := us_total_usage s', us_window_start := us_window_start s'\<rparr> \<and>
    (if is_recurring_period (us_reset_period s) \<and> us_window_start s = 0
     then us_total_usage s' = us_total_usage s \<and> effective_window_usage s now = 0
     else us_total_usage s' = effective_window_usage s now)"
proof (cases "is_recurring_period (us_reset_period s)")
  case True
  with assms window_later [OF assms(1) True] show ?thesis
    by (auto simp: normalize_usage_window_def effective_window_usage_def effective_usage_def window_expired_def split: if_splits)
next
  case False
  with assms(2) show ?thesis
    by (auto simp: normalize_usage_window_def effective_window_usage_def effective_usage_def window_expired_def)
qed

definition example_wallet :: subscription where
  "example_wallet =
     \<lparr>us_id = 1, us_user_id = 3, us_plan_id = None, us_starts_at = 739600 * day, us_expires_at = 739800 * day,
      us_status = Sub_active, us_total_limit = Some 10000000000, us_total_usage = 10000000000,
      us_reset_period = ''daily'', us_window_start = 739688 * day, us_assigned_by = None,
      us_assigned_at = 739600 * day, us_notes = [], us_created_at = 739600 * day, us_deleted = False\<rparr>"

theorem normalization_agrees_witness:
  "effective_window_usage (fst (normalize_usage_window (739689 * day) example_wallet)) (739689 * day + hour) = 0"
proof -
  have "normalize_usage_window (739689 * day) example_wallet =
      (example_wallet\<lparr>us_total_usage := 0, us_window_start := 739689 * day\<rparr>, True)"
    by (simp add: normalize_usage_window_def example_wallet_def is_recurring_period_def normalize_reset_period_def
        window_expired_def window_start_def day_of_def Let_def)
  from normalization_agrees [OF _ this, of "739689 * day + hour"] this show ?thesis
    by (simp add: example_wallet_def window_start_def day_of_def normalize_reset_period_def Let_def)
qed

end
