(* ===== verification/SubscriptionWallets.thy ===== *)
theory SubscriptionWallets
  imports SubscriptionWindow PaymentStore
begin

text \<open>
  Which wallets pay (service/user_subscription.go): a cost is taken from the active wallets with a limit, those that
  expire first before the others, then from one wallet without a limit; what does not fit is the remainder. The entries
  of the Go slices are taken as not nil (nil entries are skipped by every function), and \<open>clock\<close> is the reading of the
  clock in \<open>IsActive\<close>. Sums are exact, where the code adds float64 values.
\<close>

definition allocation_epsilon :: usd where
  "allocation_epsilon = 10"

type_synonym allocation = "int \<times> usd"

section \<open>A wallet\<close>

definition is_active :: "instant \<Rightarrow> subscription \<Rightarrow> bool" where
  "is_active now s \<longleftrightarrow> us_status s = Sub_active \<and> now < us_expires_at s"

definition is_expired :: "instant \<Rightarrow> subscription \<Rightarrow> bool" where
  "is_expired now s \<longleftrightarrow> us_expires_at s < now"

definition days_remaining_at :: "subscription \<Rightarrow> instant \<Rightarrow> int" where
  "days_remaining_at s now =
     (let remaining = time_sub (us_expires_at s) now
      in if remaining \<le> 0 then 0 else remaining div day + (if remaining mod day \<noteq> 0 then 1 else 0))"

definition effective_total_limit :: "subscription \<Rightarrow> usd option" where
  "effective_total_limit s = normalize_sub_limit (us_total_limit s)"

definition has_effective_limit :: "subscription \<Rightarrow> bool" where
  "has_effective_limit s \<longleftrightarrow> effective_total_limit s \<noteq> None"

definition remaining_usd_at :: "subscription \<Rightarrow> instant \<Rightarrow> usd option" where
  "remaining_usd_at s now =
     (case effective_total_limit s of None \<Rightarrow> None | Some l \<Rightarrow> Some (max 0 (l - effective_window_usage s now)))"

definition check_limit_at :: "subscription \<Rightarrow> usd \<Rightarrow> instant \<Rightarrow> bool" where
  "check_limit_at s additional now \<longleftrightarrow>
     (case effective_total_limit s of None \<Rightarrow> True | Some l \<Rightarrow> effective_window_usage s now + additional \<le> l)"

text \<open>What a limited wallet can still take; the callers read the limit only where there is one.\<close>

definition available :: "instant \<Rightarrow> subscription \<Rightarrow> usd" where
  "available now s = (case effective_total_limit s of None \<Rightarrow> 0 | Some l \<Rightarrow> l) - effective_window_usage s now"

section \<open>The order of consumption\<close>

text \<open>
  The insertion sort: the inner loop moves an element back along the sorted part, here from its end,
  past the later expiries.
\<close>

fun sift_back :: "subscription \<Rightarrow> subscription list \<Rightarrow> subscription list" where
  "sift_back s [] = [s]"
| "sift_back s (p # ps) = (if us_expires_at s < us_expires_at p then p # sift_back s ps else s # p # ps)"

definition by_expiry :: "subscription list \<Rightarrow> subscription list" where
  "by_expiry ss = rev (fold sift_back ss [])"

section \<open>Allocation\<close>

fun allocate_limited :: "instant \<Rightarrow> subscription list \<Rightarrow> usd \<Rightarrow> allocation list \<times> usd" where
  "allocate_limited now [] remaining = ([], remaining)"
| "allocate_limited now (s # ss) remaining =
     (if remaining \<le> allocation_epsilon then ([], remaining)
      else let avail = available now s
           in if avail \<le> allocation_epsilon then allocate_limited now ss remaining
              else let taken = (if avail < remaining then avail else remaining)
                   in case allocate_limited now ss (remaining - taken) of
                        (as, r) \<Rightarrow> ((us_id s, taken) # as, r))"

text \<open>\<open>AllocateSubscriptionUsageAt\<close>: \<open>None\<close> when the cost does not fit.\<close>

definition allocate_usage_at :: "instant \<Rightarrow> subscription list \<Rightarrow> usd \<Rightarrow> instant \<Rightarrow> allocation list option" where
  "allocate_usage_at clock subs cost now =
     (if cost \<le> 0 then Some []
      else let active = filter (is_active clock) subs;
               limited = by_expiry (filter has_effective_limit active);
               unlimited = by_expiry (filter (\<lambda>s. \<not> has_effective_limit s) active)
           in case allocate_limited now limited cost of
                (as, remaining) \<Rightarrow>
                  if allocation_epsilon < remaining
                  then (case unlimited of [] \<Rightarrow> None | u # us \<Rightarrow> Some (as @ [(us_id u, remaining)]))
                  else Some as)"

text \<open>\<open>SplitSubscriptionUsageAt\<close>: the second pass counts what is filled.\<close>

fun split_filled :: "instant \<Rightarrow> subscription list \<Rightarrow> usd \<Rightarrow> usd \<Rightarrow> allocation list \<times> usd" where
  "split_filled now [] cost filled = ([], filled)"
| "split_filled now (s # ss) cost filled =
     (if cost - allocation_epsilon \<le> filled then ([], filled)
      else let avail = available now s
           in if avail \<le> allocation_epsilon then split_filled now ss cost filled
              else let taken = (if avail < cost - filled then avail else cost - filled)
                   in case split_filled now ss cost (filled + taken) of
                        (as, f) \<Rightarrow> ((us_id s, taken) # as, f))"

definition sorted_limited :: "instant \<Rightarrow> subscription list \<Rightarrow> subscription list" where
  "sorted_limited clock subs = by_expiry (filter (\<lambda>s. is_active clock s \<and> has_effective_limit s) subs)"

definition split_usage_at :: "instant \<Rightarrow> subscription list \<Rightarrow> usd \<Rightarrow> instant \<Rightarrow> allocation list \<times> usd" where
  "split_usage_at clock subs cost now =
     (if cost \<le> 0 then ([], 0)
      else case allocate_usage_at clock subs cost now of
        Some as \<Rightarrow> (as, 0)
      | None \<Rightarrow>
          (case split_filled now (sorted_limited clock subs) cost 0 of
             (partial, filled) \<Rightarrow>
               (partial, if cost - filled < allocation_epsilon then 0 else cost - filled)))"

text \<open>\<open>FirstBillableSubscription\<close>: the earliest expiry among three ever wider choices.\<close>

definition pick_billable :: "(subscription \<Rightarrow> bool) \<Rightarrow> subscription list \<Rightarrow> subscription option" where
  "pick_billable wanted subs =
     foldl (\<lambda>best s. if \<not> wanted s then best
        else case best of None \<Rightarrow> Some s | Some b \<Rightarrow> if us_expires_at s < us_expires_at b then Some s else best) None subs"

definition first_billable :: "instant \<Rightarrow> subscription list \<Rightarrow> subscription option" where
  "first_billable clock subs =
     (case pick_billable (\<lambda>s. is_active clock s \<and> has_effective_limit s) subs of
        Some s \<Rightarrow> Some s
      | None \<Rightarrow>
          (case pick_billable (is_active clock) subs of
             Some s \<Rightarrow> Some s
           | None \<Rightarrow> pick_billable (\<lambda>s. True) subs))"

definition allocate_recordings_at :: "instant \<Rightarrow> subscription list \<Rightarrow> usd \<Rightarrow> instant \<Rightarrow> allocation list" where
  "allocate_recordings_at clock subs cost now =
     (if cost \<le> 0 then []
      else case allocate_usage_at clock subs cost now of
        Some as \<Rightarrow> as
      | None \<Rightarrow> (case first_billable clock subs of None \<Rightarrow> [] | Some s \<Rightarrow> [(us_id s, cost)]))"

section \<open>Lemmas\<close>

lemma set_sift_back [simp]: "set (sift_back s ps) = insert s (set ps)"
  by (induction ps) auto

lemma mset_sift_back [simp]: "mset (sift_back s ps) = add_mset s (mset ps)"
  by (induction ps) auto

lemma sift_back_sorted:
  "sorted (map us_expires_at (rev ps)) \<Longrightarrow> sorted (map us_expires_at (rev (sift_back s ps)))"
  by (induction ps) (auto simp: sorted_append)

lemma fold_sift_back:
  "mset (fold sift_back ss ps) = mset ss + mset ps"
  "sorted (map us_expires_at (rev ps)) \<Longrightarrow> sorted (map us_expires_at (rev (fold sift_back ss ps)))"
  by (induction ss arbitrary: ps) (auto intro: sift_back_sorted)

lemma by_expiry_mset [simp]: "mset (by_expiry ss) = mset ss"
  by (simp add: by_expiry_def fold_sift_back)

lemma by_expiry_set [simp]: "set (by_expiry ss) = set ss"
  using by_expiry_mset mset_eq_setD by blast

lemma by_expiry_sorted: "sorted (map us_expires_at (by_expiry ss))"
  by (simp add: by_expiry_def fold_sift_back)

lemma split_filled_allocate:
  "split_filled now ss cost filled =
     (case allocate_limited now ss (cost - filled) of (as, r) \<Rightarrow> (as, cost - r))"
  by (induction now ss cost filled rule: split_filled.induct)
    (auto simp: Let_def algebra_simps split: prod.splits)


definition share :: "int \<Rightarrow> allocation list \<Rightarrow> usd" where
  "share i as = sum_list (map snd (filter (\<lambda>a. fst a = i) as))"

lemma share_Nil [simp]: "share i [] = 0"
  by (simp add: share_def)

lemma share_Cons [simp]: "share i (a # as) = (if fst a = i then snd a else 0) + share i as"
  by (simp add: share_def)

lemma share_append [simp]: "share i (as @ bs) = share i as + share i bs"
  by (simp add: share_def)

lemma share_none: "i \<notin> fst ` set as \<Longrightarrow> share i as = 0"
  by (induction as) auto

lemma allocate_limited_ids: "allocate_limited now ss rem = (as, r) \<Longrightarrow> fst ` set as \<subseteq> us_id ` set ss"
  by (induction now ss rem arbitrary: as r rule: allocate_limited.induct) (fastforce simp: Let_def split: if_splits prod.splits)+

lemma allocate_limited_sum:
  "allocate_limited now ss rem = (as, r) \<Longrightarrow> sum_list (map snd as) + r = rem"
  by (induction now ss rem arbitrary: as r rule: allocate_limited.induct) (fastforce simp: Let_def split: if_splits prod.splits)+

lemma allocate_limited_rest:
  "allocate_limited now ss rem = (as, r) \<Longrightarrow> 0 \<le> rem \<Longrightarrow> 0 \<le> r \<and> r \<le> rem"
  by (induction now ss rem arbitrary: as r rule: allocate_limited.induct)
    (fastforce simp: Let_def allocation_epsilon_def split: if_splits prod.splits)+

lemma allocate_limited_taken:
  "allocate_limited now ss rem = (as, r) \<Longrightarrow> (i, x) \<in> set as \<Longrightarrow>
     allocation_epsilon < x \<and> (\<exists>s\<in>set ss. us_id s = i \<and> x \<le> available now s)"
  by (induction now ss rem arbitrary: as r rule: allocate_limited.induct)
    (fastforce simp: Let_def split: if_splits prod.splits)+

lemma allocate_limited_exact:
  "allocate_limited now ss rem = (as, r) \<Longrightarrow> \<forall>s\<in>set ss. 100 dvd available now s \<Longrightarrow> 100 dvd rem \<Longrightarrow> 100 dvd r"
  by (induction now ss rem arbitrary: as r rule: allocate_limited.induct)
    (fastforce simp: Let_def split: if_splits prod.splits)+

lemma distinct_ids: "distinct (map us_id (w # ws)) \<Longrightarrow> s \<in> set ws \<Longrightarrow> us_id s \<noteq> us_id w"
  by (auto simp: image_iff)

text \<open>What a wallet has left once the allocation is booked.\<close>

definition left_over :: "instant \<Rightarrow> allocation list \<Rightarrow> subscription \<Rightarrow> usd" where
  "left_over now as s = available now s - share (us_id s) as"

lemma allocate_limited_exhausts:
  "allocate_limited now ss rem = (as, r) \<Longrightarrow> distinct (map us_id ss) \<Longrightarrow> allocation_epsilon < r \<Longrightarrow> s \<in> set ss \<Longrightarrow>
     left_over now as s \<le> allocation_epsilon"
proof (induction now ss rem arbitrary: as r rule: allocate_limited.induct)
  case (2 now w ws rem)
  show ?case
  proof (cases "rem \<le> allocation_epsilon \<or> available now w \<le> allocation_epsilon")
    case True
    with 2 show ?thesis
    proof (cases "s = w")
      case True': True
      have "us_id w \<notin> fst ` set as"
        using 2(3,4) True allocate_limited_ids [of now ws rem as r] 2(5) by (auto split: if_splits)
      with True True' 2(3,5) show ?thesis by (auto simp: left_over_def share_none split: if_splits)
    qed (auto split: if_splits)
  next
    case False
    define taken where "taken = (if available now w < rem then available now w else rem)"
    obtain as' where as: "allocate_limited now ws (rem - taken) = (as', r)" "as = (us_id w, taken) # as'"
      using 2(3) False by (auto simp: taken_def [symmetric] Let_def split: prod.splits)
    have r: "rem - taken \<noteq> 0"
    proof
      assume "rem - taken = 0"
      with as(1) 2(5) show False by (cases ws) (auto simp: allocation_epsilon_def)
    qed
    have fresh: "share (us_id w) as' = 0"
      using allocate_limited_ids [OF as(1)] 2(4) by (intro share_none) auto
    show ?thesis
    proof (cases "s = w")
      case True
      with fresh as(2) r show ?thesis by (auto simp: left_over_def taken_def allocation_epsilon_def split: if_splits)
    next
      case s: False
      then have "s \<in> set ws" using 2(6) by simp
      then have "us_id s \<noteq> us_id w" by (rule distinct_ids [OF 2(4)])
      with \<open>s \<in> set ws\<close> 2(2) [OF _ refl _ taken_def as(1)] False 2(4,5) as(2) show ?thesis by (auto simp: left_over_def)
    qed
  qed
qed simp

lemma allocate_limited_order:
  assumes "allocate_limited now (xs @ s # ys) rem = (as, r)" "distinct (map us_id (xs @ s # ys))" "t \<in> set ys"
    "us_id t \<in> fst ` set as"
  shows "left_over now as s \<le> allocation_epsilon"
  using assms
proof (induction xs arbitrary: rem as)
  case Nil
  show ?case
  proof (cases "rem \<le> allocation_epsilon \<or> available now s \<le> allocation_epsilon")
    case True
    have "share (us_id s) as = 0" if "\<not> rem \<le> allocation_epsilon"
      using Nil(1,2) True that allocate_limited_ids [of now ys rem as r] by (intro share_none) auto
    with Nil(1,4) True show ?thesis by (auto simp: left_over_def split: if_splits)
  next
    case False
    define taken where "taken = (if available now s < rem then available now s else rem)"
    obtain as' where as: "allocate_limited now ys (rem - taken) = (as', r)" "as = (us_id s, taken) # as'"
      using Nil(1) False by (auto simp: taken_def [symmetric] Let_def split: prod.splits)
    have "us_id t \<noteq> us_id s" using distinct_ids [of s ys t] Nil(2,3) by simp
    with Nil(4) as(2) have "as' \<noteq> []" by auto
    with as(1) have "rem - taken \<noteq> 0" by (cases ys) (auto simp: allocation_epsilon_def)
    moreover have "share (us_id s) as' = 0" using allocate_limited_ids [OF as(1)] Nil(2) by (intro share_none) auto
    ultimately show ?thesis using as(2) by (auto simp: left_over_def taken_def allocation_epsilon_def split: if_splits)
  qed
next
  case (Cons w xs)
  have ids: "us_id s \<noteq> us_id w" "us_id t \<noteq> us_id w" "distinct (map us_id (xs @ s # ys))"
    using Cons(3,4) by (auto simp: image_iff)
  show ?case
  proof (cases "rem \<le> allocation_epsilon \<or> available now w \<le> allocation_epsilon")
    case True
    with Cons.prems ids Cons.IH [of rem as] show ?thesis by (auto split: if_splits)
  next
    case False
    define taken where "taken = (if available now w < rem then available now w else rem)"
    obtain as' where as: "allocate_limited now (xs @ s # ys) (rem - taken) = (as', r)" "as = (us_id w, taken) # as'"
      using Cons.prems(1) False by (auto simp: taken_def [symmetric] Let_def split: prod.splits)
    with Cons.prems(3,4) ids Cons.IH [OF as(1) ids(3)] show ?thesis by (auto simp: left_over_def)
  qed
qed

section \<open>Properties\<close>

lemma split_usage_cases:
  assumes "0 < cost" "split_usage_at clock subs cost now = (as, r)"
  obtains as0 r0 where "allocate_limited now (sorted_limited clock subs) cost = (as0, r0)"
    and "(r0 \<le> allocation_epsilon \<and> as = as0 \<and> r = 0) \<or>
      (allocation_epsilon < r0 \<and> as = as0 \<and> r = r0 \<and> (\<forall>u\<in>set subs. is_active clock u \<longrightarrow> has_effective_limit u)) \<or>
      (allocation_epsilon < r0 \<and> (\<exists>u\<in>set subs. is_active clock u \<and> \<not> has_effective_limit u \<and>
        as = as0 @ [(us_id u, r0)] \<and> r = 0))"
proof -
  define un where "un = by_expiry (filter (\<lambda>s. \<not> has_effective_limit s) (filter (is_active clock) subs))"
  obtain as0 r0 where a: "allocate_limited now (sorted_limited clock subs) cost = (as0, r0)" by fastforce
  have un: "set un = {u \<in> set subs. is_active clock u \<and> \<not> has_effective_limit u}" by (auto simp: un_def)
  have alloc: "allocate_usage_at clock subs cost now =
      (if allocation_epsilon < r0 then (case un of [] \<Rightarrow> None | u # us \<Rightarrow> Some (as0 @ [(us_id u, r0)])) else Some as0)"
    using assms(1) a by (simp add: allocate_usage_at_def sorted_limited_def un_def Let_def)
  show ?thesis
  proof (rule that [OF a])
    have small: "as = as0 \<and> r = 0" if "r0 \<le> allocation_epsilon"
      using that alloc assms by (simp add: split_usage_at_def)
    have none: "as = as0 \<and> r = r0 \<and> (\<forall>u\<in>set subs. is_active clock u \<longrightarrow> has_effective_limit u)"
      if "allocation_epsilon < r0" "un = []"
      using that alloc assms a un by (auto simp: split_usage_at_def split_filled_allocate)
    have one: "us_id u = us_id u \<and> as = as0 @ [(us_id u, r0)] \<and> r = 0" if "allocation_epsilon < r0" "un = u # us" for u us
      using that alloc assms by (simp add: split_usage_at_def)
    show "(r0 \<le> allocation_epsilon \<and> as = as0 \<and> r = 0) \<or>
      (allocation_epsilon < r0 \<and> as = as0 \<and> r = r0 \<and> (\<forall>u\<in>set subs. is_active clock u \<longrightarrow> has_effective_limit u)) \<or>
      (allocation_epsilon < r0 \<and> (\<exists>u\<in>set subs. is_active clock u \<and> \<not> has_effective_limit u \<and>
        as = as0 @ [(us_id u, r0)] \<and> r = 0))"
    proof (cases un)
      case Nil
      with small none show ?thesis by (cases "r0 \<le> allocation_epsilon") auto
    next
      case (Cons u us)
      with un have "u \<in> {u \<in> set subs. is_active clock u \<and> \<not> has_effective_limit u}" by auto
      with Cons small one [of u us] show ?thesis by (cases "r0 \<le> allocation_epsilon") auto
    qed
  qed
qed

lemma sorted_limited_set: "set (sorted_limited clock subs) = {s \<in> set subs. is_active clock s \<and> has_effective_limit s}"
  by (auto simp: sorted_limited_def)

lemma sorted_limited_distinct: "distinct (map us_id subs) \<Longrightarrow> distinct (map us_id (sorted_limited clock subs))"
proof -
  have "mset (map us_id (by_expiry ss)) = mset (map us_id ss)" for ss by simp
  then have "distinct (map us_id (by_expiry ss)) = distinct (map us_id ss)" for ss
    by (rule mset_eq_imp_distinct_iff)
  then show "distinct (map us_id subs) \<Longrightarrow> distinct (map us_id (sorted_limited clock subs))"
    by (simp add: sorted_limited_def distinct_map_filter)
qed

text \<open>
  A cost is split without loss: the parts and the remainder add up to the cost, up to the tolerance of 10^-9 (and
  exactly, when cost and balances have eight digits); every part is positive, goes to an active wallet of the user, and
  is no more than the wallet has left if it has a limit.
\<close>

theorem split_conserves_cost:
  assumes "0 < cost" "split_usage_at clock subs cost now = (as, r)"
  shows "sum_list (map snd as) + r \<le> cost \<and> cost - allocation_epsilon \<le> sum_list (map snd as) + r \<and> 0 \<le> r \<and>
    (\<forall>i x. (i, x) \<in> set as \<longrightarrow> 0 < x \<and>
      (\<exists>s\<in>set subs. us_id s = i \<and> is_active clock s \<and> (has_effective_limit s \<longrightarrow> x \<le> available now s))) \<and>
    (100 dvd cost \<longrightarrow> (\<forall>s\<in>set subs. 100 dvd available now s) \<longrightarrow> sum_list (map snd as) + r = cost)"
proof -
  obtain as0 r0 where a: "allocate_limited now (sorted_limited clock subs) cost = (as0, r0)"
    and out: "(r0 \<le> allocation_epsilon \<and> as = as0 \<and> r = 0) \<or>
      (allocation_epsilon < r0 \<and> as = as0 \<and> r = r0 \<and> (\<forall>u\<in>set subs. is_active clock u \<longrightarrow> has_effective_limit u)) \<or>
      (allocation_epsilon < r0 \<and> (\<exists>u\<in>set subs. is_active clock u \<and> \<not> has_effective_limit u \<and>
        as = as0 @ [(us_id u, r0)] \<and> r = 0))"
    by (rule split_usage_cases [OF assms])
  have sum: "sum_list (map snd as0) + r0 = cost" by (rule allocate_limited_sum [OF a])
  have r0: "0 \<le> r0" using allocate_limited_rest [OF a] assms(1) by simp
  have part: "0 < x \<and> (\<exists>s\<in>set subs. us_id s = i \<and> is_active clock s \<and> (has_effective_limit s \<longrightarrow> x \<le> available now s))"
    if "(i, x) \<in> set as0" for i x
    using allocate_limited_taken [OF a that] by (auto simp: sorted_limited_set allocation_epsilon_def)
  have exact: "100 dvd r0" if "100 dvd cost" "\<forall>s\<in>set subs. 100 dvd available now s"
    using allocate_limited_exact [OF a] that by (simp add: sorted_limited_set)
  have zero: "r0 = 0" if "100 dvd cost" "\<forall>s\<in>set subs. 100 dvd available now s" "r0 \<le> allocation_epsilon"
    using exact [OF that(1,2)] r0 that(3) zdvd_not_zless [of r0 100] by (cases "r0 = 0") (auto simp: allocation_epsilon_def)
  show ?thesis using out
  proof (elim disjE)
    assume "r0 \<le> allocation_epsilon \<and> as = as0 \<and> r = 0"
    with sum r0 part zero show ?thesis by auto
  next
    assume "allocation_epsilon < r0 \<and> as = as0 \<and> r = r0 \<and> (\<forall>u\<in>set subs. is_active clock u \<longrightarrow> has_effective_limit u)"
    with sum r0 part show ?thesis by (auto simp: allocation_epsilon_def)
  next
    assume "allocation_epsilon < r0 \<and> (\<exists>u\<in>set subs. is_active clock u \<and> \<not> has_effective_limit u \<and>
      as = as0 @ [(us_id u, r0)] \<and> r = 0)"
    with sum r0 part show ?thesis by (auto simp: allocation_epsilon_def)
  qed
qed

text \<open>
  C31: The wallets that expire first pay first: a wallet with a limit is used up (to the tolerance) before any
  later wallet, any wallet without a limit, or the remainder is charged, and a remainder is left only when the user has
  no wallet without a limit.
\<close>

theorem earliest_expiry_pays_first:
  assumes "0 < cost" "split_usage_at clock subs cost now = (as, r)" "distinct (map us_id subs)"
    and "s \<in> set subs" "is_active clock s" "has_effective_limit s"
  shows "(r \<noteq> 0 \<or> (\<exists>t\<in>set subs. is_active clock t \<and> share (us_id t) as \<noteq> 0 \<and>
        (\<not> has_effective_limit t \<or> us_expires_at s < us_expires_at t)) \<longrightarrow>
      left_over now as s \<le> allocation_epsilon) \<and>
    (r \<noteq> 0 \<longrightarrow> (\<forall>u\<in>set subs. is_active clock u \<longrightarrow> has_effective_limit u))"
proof -
  let ?ws = "sorted_limited clock subs"
  obtain as0 r0 where a: "allocate_limited now ?ws cost = (as0, r0)"
    and out: "(r0 \<le> allocation_epsilon \<and> as = as0 \<and> r = 0) \<or>
      (allocation_epsilon < r0 \<and> as = as0 \<and> r = r0 \<and> (\<forall>u\<in>set subs. is_active clock u \<longrightarrow> has_effective_limit u)) \<or>
      (allocation_epsilon < r0 \<and> (\<exists>u\<in>set subs. is_active clock u \<and> \<not> has_effective_limit u \<and>
        as = as0 @ [(us_id u, r0)] \<and> r = 0))"
    by (rule split_usage_cases [OF assms(1,2)])
  have ids: "distinct (map us_id ?ws)" by (rule sorted_limited_distinct [OF assms(3)])
  have s: "s \<in> set ?ws" using assms(4-6) by (simp add: sorted_limited_set)
  have same: "t = u" if "t \<in> set subs" "u \<in> set subs" "us_id t = us_id u" for t u
    using assms(3) that by (simp add: distinct_map inj_on_def)
  have later: "left_over now as0 s \<le> allocation_epsilon"
    if t: "t \<in> set subs" "us_id t \<in> fst ` set as0" "us_expires_at s < us_expires_at t" for t
  proof -
    obtain t' where t': "t' \<in> set ?ws" "us_id t' = us_id t" using allocate_limited_ids [OF a] t(2) by auto
    then have "t \<in> set ?ws" using same [of t' t] t(1) by (simp add: sorted_limited_set)
    obtain xs ys where ws: "?ws = xs @ s # ys" using s by (auto simp: in_set_conv_decomp)
    have "sorted (map us_expires_at ?ws)" by (simp add: sorted_limited_def by_expiry_sorted)
    then have "t \<in> set ys" using \<open>t \<in> set ?ws\<close> t(3) unfolding ws by (fastforce simp: sorted_append)
    with allocate_limited_order [OF a [unfolded ws] _ _ t(2)] ids ws show ?thesis by simp
  qed
  have drained: "left_over now as0 s \<le> allocation_epsilon" if "allocation_epsilon < r0"
    by (rule allocate_limited_exhausts [OF a ids that s])
  have hit: "us_id t \<in> fst ` set as" if "share (us_id t) as \<noteq> 0" for t
    using that share_none by blast
  show ?thesis using out
  proof (elim disjE)
    assume e: "r0 \<le> allocation_epsilon \<and> as = as0 \<and> r = 0"
    have "has_effective_limit t" if tt: "t \<in> set subs" "share (us_id t) as \<noteq> 0" for t
    proof -
      obtain t' where "t' \<in> set ?ws" "us_id t' = us_id t" using allocate_limited_ids [OF a] hit [OF tt(2)] e by auto
      with same [of t' t] tt(1) show ?thesis by (simp add: sorted_limited_set)
    qed
    with e later hit show ?thesis by blast
  next
    assume "allocation_epsilon < r0 \<and> as = as0 \<and> r = r0 \<and> (\<forall>u\<in>set subs. is_active clock u \<longrightarrow> has_effective_limit u)"
    with drained show ?thesis by blast
  next
    assume "allocation_epsilon < r0 \<and> (\<exists>u\<in>set subs. is_active clock u \<and> \<not> has_effective_limit u \<and>
      as = as0 @ [(us_id u, r0)] \<and> r = 0)"
    then obtain u where u: "u \<in> set subs" "\<not> has_effective_limit u" "as = as0 @ [(us_id u, r0)]" "r = 0" "allocation_epsilon < r0"
      by blast
    then have "us_id u \<noteq> us_id s" using same [of u s] assms(4,6) by auto
    with u drained show ?thesis by (auto simp: left_over_def)
  qed
qed

text \<open>Two wallets of 1.00 a day and of 2.00, with 0.40 and 1.50 left, and a cost of 3.00.\<close>

definition example_wallets :: "subscription list" where
  "example_wallets =
     [example_wallet\<lparr>us_id := 2, us_expires_at := 739900 * day, us_total_limit := Some 20000000000,
        us_total_usage := 5000000000, us_reset_period := ''none''\<rparr>,
      example_wallet\<lparr>us_total_usage := 6000000000, us_window_start := 739689 * day\<rparr>]"

lemmas wallet_evals = split_usage_at_def allocate_usage_at_def split_filled_allocate sorted_limited_def by_expiry_def
  is_active_def has_effective_limit_def effective_total_limit_def normalize_sub_limit_def available_def
  effective_window_usage_def effective_usage_def window_expired_def is_recurring_period_def
  normalize_reset_period_def window_start_def day_of_def example_wallet_def allocation_epsilon_def Let_def

lemma example_split:
  "split_usage_at (739689 * day) example_wallets 30000000000 (739689 * day) =
     ([(1, 4000000000), (2, 15000000000)], 11000000000)"
  by (simp add: wallet_evals example_wallets_def)

theorem split_conserves_cost_witness:
  "(4000000000 :: usd) + 15000000000 + 11000000000 = 30000000000 \<and>
   (\<exists>s\<in>set example_wallets. us_id s = 1 \<and> is_active (739689 * day) s)"
proof -
  have "\<exists>s\<in>set example_wallets. us_id s = 1 \<and> is_active (739689 * day) s \<and>
      (has_effective_limit s \<longrightarrow> 4000000000 \<le> available (739689 * day) s)"
    using split_conserves_cost [OF zero_less_numeral example_split, THEN conjunct2, THEN conjunct2, THEN conjunct2,
        THEN conjunct1, THEN spec, THEN spec, of 1 4000000000] by (simp only: list.set insertI1 simp_thms)
  then show ?thesis by auto
qed

theorem earliest_expiry_pays_first_witness:
  "left_over (739689 * day) [(1, 4000000000), (2, 15000000000)] (example_wallets ! 1) \<le> allocation_epsilon"
  using earliest_expiry_pays_first [OF _ example_split, of "example_wallets ! 1"]
  by (simp add: wallet_evals example_wallets_def left_over_def)

end
