(* ===== verification/UsageBilling.thy ===== *)
theory UsageBilling
  imports SubscriptionWallets
begin

text \<open>
  The bookkeeping of a request (service/usage_billing.go, repository/usage_billing_repo.go). One transaction claims the
  request, takes the cost from the subscriptions and the balance of the user, and counts it against the key and the account;
  three more hold, capture and release the balance of a batch of images. A transaction that fails leaves the tables
  alone; one whose commit is not answered may have changed them. Amounts are numbers of 10^-10 USD; columns of
  balances keep eight digits. SHA-256, the next reset of a quota in the time zone of its account, and the failures of
  the database are arguments or part of the environment.
\<close>

section \<open>Tables\<close>

record bill_user =
  bu_balance :: usd
  bu_frozen :: usd

datatype key_status = Key_active | Key_quota_exhausted | Key_other_status

record bill_key =
  bk_quota :: usd
  bk_quota_used :: usd
  bk_status :: key_status
  bk_usage_5h :: usd
  bk_usage_1d :: usd
  bk_usage_7d :: usd
  bk_window_5h :: instant
  bk_window_1d :: instant
  bk_window_7d :: instant

record quota_period =
  qp_limit :: usd
  qp_used :: usd
  qp_fixed :: bool
  qp_start :: instant
  qp_reset_at :: instant

record bill_account =
  ba_used :: usd
  ba_limit :: usd
  ba_daily :: quota_period
  ba_weekly :: quota_period

record billing_db =
  bd_subs :: "subscription list"
  bd_users :: "int \<Rightarrow> bill_user option"
  bd_keys :: "int \<Rightarrow> bill_key option"
  bd_accounts :: "int \<Rightarrow> bill_account option"
  bd_dedup :: "string \<times> int \<Rightarrow> string option"
  bd_archive :: "string \<times> int \<Rightarrow> string option"
  bd_outbox :: "int list"
  bd_ledger :: "((string \<times> int) \<times> int \<times> usd) list"

text \<open>
  \<open>bd_ledger\<close> is not a table: it records what a request or a batch took for good from the money of a
  user, for the statements about it.
\<close>

datatype tx_fate = Tx_committed | Tx_failed | Tx_reply_lost

record bill_env =
  be_db_now :: instant
  be_lock_now :: instant
  be_split_now :: instant
  be_next_daily :: "instant \<Rightarrow> instant"
  be_next_weekly :: "instant \<Rightarrow> instant"
  be_fate :: tx_fate

datatype bill_error =
    Request_id_required | Request_conflict | Billing_store_error | Billing_user_not_found | Key_not_found
  | Account_not_found | Insufficient_balance | Cost_exceeds_hold | Frozen_insufficient

section \<open>Commands\<close>

record usage_command =
  uc_request_id :: string
  uc_api_key_id :: int
  uc_fingerprint :: string
  uc_payload_hash :: string
  uc_user_id :: int
  uc_account_id :: int
  uc_subscription_id :: "int option"
  uc_account_type :: string
  uc_model :: string
  uc_service_tier :: string
  uc_reasoning_effort :: string
  uc_billing_type :: int
  uc_input_tokens :: int
  uc_output_tokens :: int
  uc_cache_creation_tokens :: int
  uc_cache_read_tokens :: int
  uc_image_count :: int
  uc_media_type :: string
  uc_balance_cost :: usd
  uc_subscription_cost :: usd
  uc_key_quota_cost :: usd
  uc_key_rate_cost :: usd
  uc_account_quota_cost :: usd

text \<open>Rounding to eight digits, halves away from zero, as \<open>Decimal.Round\<close> and as a column of the database does.\<close>

definition round8 :: "usd \<Rightarrow> usd" where
  "round8 v = sgn v * ((\<bar>v\<bar> + 50) div 100 * 100)"

definition quantize_usage_billing_amount :: "usd \<Rightarrow> usd" where
  "quantize_usage_billing_amount v = (if v = 0 then v else round8 v)"

definition int_text :: "int \<Rightarrow> string" where
  "int_text n = (if n < 0 then ''-'' else []) @ decimal (nat \<bar>n\<bar>)"

text \<open>\<open>%0.10f\<close> of an amount.\<close>

definition usd_text :: "usd \<Rightarrow> string" where
  "usd_text v =
     (let digits = decimal (nat (\<bar>v\<bar> mod 10 ^ 10))
      in (if v < 0 then ''-'' else []) @ decimal (nat (\<bar>v\<bar> div 10 ^ 10)) @ ''.'' @
         replicate (10 - length digits) (CHR ''0'') @ digits)"

fun joined :: "string list \<Rightarrow> string" where
  "joined [] = []"
| "joined [s] = s"
| "joined (s # t # ss) = s @ ''|'' @ joined (t # ss)"

definition build_usage_billing_fingerprint :: "(string \<Rightarrow> string) \<Rightarrow> usage_command \<Rightarrow> string" where
  "build_usage_billing_fingerprint sha c =
     (let raw = joined
        [int_text (uc_user_id c), int_text (uc_account_id c), int_text (uc_api_key_id c),
         trim_space (uc_account_type c), trim_space (uc_model c), trim_space (uc_service_tier c),
         trim_space (uc_reasoning_effort c), int_text (uc_billing_type c), int_text (uc_input_tokens c),
         int_text (uc_output_tokens c), int_text (uc_cache_creation_tokens c), int_text (uc_cache_read_tokens c),
         int_text (uc_image_count c), trim_space (uc_media_type c),
         int_text (case uc_subscription_id c of None \<Rightarrow> 0 | Some i \<Rightarrow> i), usd_text (uc_balance_cost c),
         usd_text (uc_subscription_cost c), usd_text (uc_key_quota_cost c), usd_text (uc_key_rate_cost c),
         usd_text (uc_account_quota_cost c)];
       payload_hash = trim_space (uc_payload_hash c)
      in sha (if payload_hash = [] then raw else raw @ ''|'' @ payload_hash))"

definition quantize_monetary_fields :: "usage_command \<Rightarrow> usage_command" where
  "quantize_monetary_fields c =
     c\<lparr>uc_balance_cost := quantize_usage_billing_amount (uc_balance_cost c),
       uc_subscription_cost := quantize_usage_billing_amount (uc_subscription_cost c),
       uc_key_quota_cost := quantize_usage_billing_amount (uc_key_quota_cost c),
       uc_key_rate_cost := quantize_usage_billing_amount (uc_key_rate_cost c),
       uc_account_quota_cost := quantize_usage_billing_amount (uc_account_quota_cost c)\<rparr>"

definition normalize_command :: "(string \<Rightarrow> string) \<Rightarrow> usage_command \<Rightarrow> usage_command" where
  "normalize_command sha c =
     (let c1 = c\<lparr>uc_request_id := trim_space (uc_request_id c)\<rparr>;
          c2 = (if trim_space (uc_fingerprint c1) = []
                then c1\<lparr>uc_fingerprint := build_usage_billing_fingerprint sha c1\<rparr> else c1)
      in quantize_monetary_fields c2)"

text \<open>\<open>strings.EqualFold\<close> with an ASCII text: the Kelvin sign and the long s fold to letters.\<close>

fun fold_text :: "string \<Rightarrow> string" where
  "fold_text (a # b # c # s) =
     (if code a = 226 \<and> code b = 132 \<and> code c = 170 then CHR ''k'' # fold_text s
      else if code a = 197 \<and> code b = 191 then CHR ''s'' # fold_text (c # s)
      else ascii_lower_char a # fold_text (b # c # s))"
| "fold_text [a, b] =
     (if code a = 197 \<and> code b = 191 then ''s'' else [ascii_lower_char a, ascii_lower_char b])"
| "fold_text s = map ascii_lower_char s"

section \<open>Claiming a request\<close>

text \<open>\<open>False\<close>: the request is known; the transaction is rolled back.\<close>

definition claim_request :: "string \<times> int \<Rightarrow> string \<Rightarrow> billing_db \<Rightarrow> bill_error + (bool \<times> billing_db)" where
  "claim_request key fp db =
     (case bd_dedup db key of
        Some f \<Rightarrow> if trim_space f \<noteq> trim_space fp then Inl Request_conflict else Inr (False, db)
      | None \<Rightarrow>
          (case bd_archive db key of
             Some f \<Rightarrow> if trim_space f \<noteq> trim_space fp then Inl Request_conflict else Inr (False, db)
           | None \<Rightarrow> Inr (True, db\<lparr>bd_dedup := (bd_dedup db)(key \<mapsto> fp)\<rparr>)))"

section \<open>Subscriptions\<close>

definition update_sub :: "int \<Rightarrow> (subscription \<Rightarrow> subscription) \<Rightarrow> billing_db \<Rightarrow> billing_db" where
  "update_sub i f db = db\<lparr>bd_subs := map (\<lambda>s. if us_id s = i then f s else s) (bd_subs db)\<rparr>"

text \<open>
  The locked rows, in the order of expiry, and the windows that are reset. The usage of a row is read after its
  window has been set to the current one.
\<close>

definition locked_row :: "instant \<Rightarrow> subscription \<Rightarrow> subscription" where
  "locked_row now s =
     (if is_recurring_period (us_reset_period s)
      then let s1 = s\<lparr>us_window_start := window_start (us_reset_period s) now\<rparr>
           in s1\<lparr>us_total_usage := effective_window_usage s1 now\<rparr>
      else s)"

definition dirty_window :: "instant \<Rightarrow> subscription \<Rightarrow> bool" where
  "dirty_window now s \<longleftrightarrow> window_expired (us_reset_period s) (us_window_start s) now"

definition wallet_rows :: "instant \<Rightarrow> int \<Rightarrow> billing_db \<Rightarrow> subscription list" where
  "wallet_rows db_now uid db =
     sort_key us_expires_at
       (filter (\<lambda>s. us_user_id s = uid \<and> \<not> us_deleted s \<and> us_status s = Sub_active \<and> db_now < us_expires_at s) (bd_subs db))"

definition lock_wallets :: "bill_env \<Rightarrow> int \<Rightarrow> billing_db \<Rightarrow> subscription list \<times> billing_db" where
  "lock_wallets en uid db =
     (let now = be_lock_now en; rows = wallet_rows (be_db_now en) uid db
      in (map (locked_row now) rows,
          fold (\<lambda>s. update_sub (us_id s)
                  (\<lambda>r. r\<lparr>us_total_usage := 0, us_window_start := window_start (us_reset_period s) now\<rparr>))
               (filter (dirty_window now) rows) db))"

definition increment_subscription :: "int \<Rightarrow> usd \<Rightarrow> billing_db \<Rightarrow> billing_db option" where
  "increment_subscription i x db =
     (if \<exists>s\<in>set (bd_subs db). us_id s = i \<and> \<not> us_deleted s
      then Some (db\<lparr>bd_subs := map (\<lambda>s. if us_id s = i \<and> \<not> us_deleted s
                                      then s\<lparr>us_total_usage := us_total_usage s + x\<rparr> else s) (bd_subs db)\<rparr>)
      else None)"

fun record_allocations :: "allocation list \<Rightarrow> usd \<Rightarrow> billing_db \<Rightarrow> usd \<times> billing_db" where
  "record_allocations [] remainder db = (remainder, db)"
| "record_allocations ((i, x) # as) remainder db =
     (case increment_subscription i x db of
        None \<Rightarrow> record_allocations as (remainder + x) db
      | Some db' \<Rightarrow> record_allocations as remainder db')"

text \<open>\<open>applySubscriptionCost\<close>: what is left for the balance.\<close>

definition apply_subscription_cost :: "bill_env \<Rightarrow> usage_command \<Rightarrow> billing_db \<Rightarrow> usd \<times> billing_db" where
  "apply_subscription_cost en c db =
     (let cost = uc_subscription_cost c
      in case lock_wallets en (uc_user_id c) db of
           (subs, db1) \<Rightarrow>
             (case split_usage_at (be_split_now en) subs cost (be_split_now en) of
                (as, remainder) \<Rightarrow>
                  if as = [] \<and> 0 < remainder \<and> subs = []
                  then (case (case uc_subscription_id c of None \<Rightarrow> None | Some i \<Rightarrow> increment_subscription i cost db1) of
                          Some db2 \<Rightarrow> (0, db2)
                        | None \<Rightarrow> (cost, db1))
                  else record_allocations as remainder db1))"

section \<open>Balances, keys, accounts\<close>

definition set_user :: "int \<Rightarrow> bill_user \<Rightarrow> billing_db \<Rightarrow> billing_db" where
  "set_user uid u db = db\<lparr>bd_users := (bd_users db)(uid \<mapsto> u)\<rparr>"

definition deduct_balance :: "int \<Rightarrow> usd \<Rightarrow> billing_db \<Rightarrow> (usd \<times> bool \<times> billing_db) option" where
  "deduct_balance uid x db =
     (case bd_users db uid of
        None \<Rightarrow> None
      | Some u \<Rightarrow>
          let b = round8 (bu_balance u - x)
          in Some (b, x \<le> bu_balance u, set_user uid (u\<lparr>bu_balance := b\<rparr>) db))"

definition increment_key_quota :: "int \<Rightarrow> usd \<Rightarrow> billing_db \<Rightarrow> (bool \<times> billing_db) option" where
  "increment_key_quota kid x db =
     (case bd_keys db kid of
        None \<Rightarrow> None
      | Some k \<Rightarrow>
          let used = bk_quota_used k + x;
              st = (if 0 < bk_quota k \<and> bk_status k = Key_active \<and> bk_quota_used k < bk_quota k \<and> bk_quota k \<le> used
                    then Key_quota_exhausted else bk_status k)
          in Some (0 < bk_quota k \<and> bk_quota k \<le> used \<and> used - x < bk_quota k,
                   db\<lparr>bd_keys := (bd_keys db)(kid \<mapsto> k\<lparr>bk_quota_used := used, bk_status := st\<rparr>)\<rparr>))"

definition rate_window_expired :: "instant \<Rightarrow> duration \<Rightarrow> instant \<Rightarrow> bool" where
  "rate_window_expired now len start \<longleftrightarrow> \<not> is_zero_time start \<and> start + len \<le> now"

definition increment_key_rate_limit :: "instant \<Rightarrow> int \<Rightarrow> usd \<Rightarrow> billing_db \<Rightarrow> billing_db option" where
  "increment_key_rate_limit now kid x db =
     (case bd_keys db kid of
        None \<Rightarrow> None
      | Some k \<Rightarrow>
          let usage = (\<lambda>len start u. if rate_window_expired now len start then x else u + x);
              win = (\<lambda>len start fresh. if is_zero_time start \<or> start + len \<le> now then fresh else start);
              today = day_of now * day
          in Some (db\<lparr>bd_keys := (bd_keys db)(kid \<mapsto>
               k\<lparr>bk_usage_5h := usage (5 * hour) (bk_window_5h k) (bk_usage_5h k),
                 bk_usage_1d := usage (24 * hour) (bk_window_1d k) (bk_usage_1d k),
                 bk_usage_7d := usage (7 * day) (bk_window_7d k) (bk_usage_7d k),
                 bk_window_5h := win (5 * hour) (bk_window_5h k) now,
                 bk_window_1d := win (24 * hour) (bk_window_1d k) today,
                 bk_window_7d := win (7 * day) (bk_window_7d k) today\<rparr>)\<rparr>))"

definition quota_period_expired :: "instant \<Rightarrow> duration \<Rightarrow> quota_period \<Rightarrow> bool" where
  "quota_period_expired now len p \<longleftrightarrow>
     (if qp_fixed p then is_zero_time (qp_reset_at p) \<or> qp_reset_at p \<le> now
      else is_zero_time (qp_start p) \<or> qp_start p + len \<le> now)"

definition increment_period :: "instant \<Rightarrow> duration \<Rightarrow> (instant \<Rightarrow> instant) \<Rightarrow> usd \<Rightarrow> quota_period \<Rightarrow> quota_period" where
  "increment_period now len next_reset x p =
     (if qp_limit p \<le> 0 then p
      else let expired = quota_period_expired now len p
           in p\<lparr>qp_used := (if expired then x else qp_used p + x),
                qp_start := (if expired \<or> is_zero_time (qp_start p) then now else qp_start p),
                qp_reset_at := (if expired \<and> qp_fixed p then next_reset now else qp_reset_at p)\<rparr>)"

definition crosses :: "usd \<Rightarrow> usd \<Rightarrow> usd \<Rightarrow> bool" where
  "crosses limit used x \<longleftrightarrow> 0 < limit \<and> limit \<le> used \<and> used - x < limit"

definition increment_account_quota :: "bill_env \<Rightarrow> int \<Rightarrow> usd \<Rightarrow> billing_db \<Rightarrow> (bill_account \<times> billing_db) option" where
  "increment_account_quota en aid x db =
     (case bd_accounts db aid of
        None \<Rightarrow> None
      | Some a \<Rightarrow>
          let now = be_db_now en;
              a' = a\<lparr>ba_used := ba_used a + x,
                     ba_daily := increment_period now (24 * hour) (be_next_daily en) x (ba_daily a),
                     ba_weekly := increment_period now (168 * hour) (be_next_weekly en) x (ba_weekly a)\<rparr>;
              crossed = crosses (ba_limit a') (ba_used a') x \<or>
                crosses (qp_limit (ba_daily a')) (qp_used (ba_daily a')) x \<or>
                crosses (qp_limit (ba_weekly a')) (qp_used (ba_weekly a')) x
          in Some (a', db\<lparr>bd_accounts := (bd_accounts db)(aid \<mapsto> a'),
                          bd_outbox := bd_outbox db @ (if crossed then [aid] else [])\<rparr>))"

section \<open>Applying a request\<close>

record apply_result =
  ar_applied :: bool
  ar_exhausted :: bool
  ar_new_balance :: "usd option"
  ar_overdrafted :: bool
  ar_quota_state :: "bill_account option"
  ar_fallback :: usd
  ar_deducted :: usd

definition empty_result :: "bool \<Rightarrow> apply_result" where
  "empty_result applied =
     \<lparr>ar_applied = applied, ar_exhausted = False, ar_new_balance = None, ar_overdrafted = False,
      ar_quota_state = None, ar_fallback = 0, ar_deducted = 0\<rparr>"

definition and_then :: "'e + 'a \<Rightarrow> ('a \<Rightarrow> 'e + 'b) \<Rightarrow> 'e + 'b" where
  "and_then x f = (case x of Inl e \<Rightarrow> Inl e | Inr a \<Rightarrow> f a)"

definition or_fail :: "'e \<Rightarrow> 'a option \<Rightarrow> 'e + 'a" where
  "or_fail e x = (case x of None \<Rightarrow> Inl e | Some a \<Rightarrow> Inr a)"

definition charge_wallets ::
    "bill_env \<Rightarrow> usage_command \<Rightarrow> apply_result \<times> billing_db \<Rightarrow> apply_result \<times> billing_db" where
  "charge_wallets en c = (\<lambda>(res, db).
     if 0 < uc_subscription_cost c
     then (case apply_subscription_cost en c db of
             (fallback, db') \<Rightarrow> (if 0 < fallback then res\<lparr>ar_fallback := fallback\<rparr> else res, db'))
     else (res, db))"

text \<open>The balance pays its own cost and what the wallets could not.\<close>

definition charge_balance ::
    "usage_command \<Rightarrow> apply_result \<times> billing_db \<Rightarrow> bill_error + (apply_result \<times> billing_db)" where
  "charge_balance c = (\<lambda>(res, db).
     let cost = uc_balance_cost c + ar_fallback res
     in if cost \<le> 0 then Inr (res, db)
        else and_then (or_fail Billing_user_not_found (deduct_balance (uc_user_id c) cost db)) (\<lambda>(b, sufficient, db').
          Inr (res\<lparr>ar_new_balance := Some b, ar_overdrafted := \<not> sufficient, ar_deducted := cost\<rparr>,
               db'\<lparr>bd_ledger := bd_ledger db' @ [((uc_request_id c, uc_api_key_id c), uc_user_id c, cost)]\<rparr>)))"

definition charge_key ::
    "bill_env \<Rightarrow> usage_command \<Rightarrow> apply_result \<times> billing_db \<Rightarrow> bill_error + (apply_result \<times> billing_db)" where
  "charge_key en c = (\<lambda>(res, db).
     and_then
       (if uc_key_quota_cost c \<le> 0 then Inr (res, db)
        else and_then (or_fail Key_not_found (increment_key_quota (uc_api_key_id c) (uc_key_quota_cost c) db))
          (\<lambda>(exhausted, db'). Inr (res\<lparr>ar_exhausted := exhausted\<rparr>, db')))
       (\<lambda>(res1, db1).
          if uc_key_rate_cost c \<le> 0 then Inr (res1, db1)
          else and_then (or_fail Key_not_found
                 (increment_key_rate_limit (be_db_now en) (uc_api_key_id c) (uc_key_rate_cost c) db1))
            (\<lambda>db2. Inr (res1, db2))))"

definition charge_account ::
    "bill_env \<Rightarrow> usage_command \<Rightarrow> apply_result \<times> billing_db \<Rightarrow> bill_error + (apply_result \<times> billing_db)" where
  "charge_account en c = (\<lambda>(res, db).
     if 0 < uc_account_quota_cost c \<and> fold_text (uc_account_type c) \<in> {''apikey'', ''bedrock''}
     then and_then (or_fail Account_not_found
            (increment_account_quota en (uc_account_id c) (uc_account_quota_cost c) db))
          (\<lambda>(a, db'). Inr (res\<lparr>ar_quota_state := Some a\<rparr>, db'))
     else Inr (res, db))"

definition apply_effects ::
    "bill_env \<Rightarrow> usage_command \<Rightarrow> billing_db \<Rightarrow> bill_error + (apply_result \<times> billing_db)" where
  "apply_effects en c db =
     and_then (charge_balance c (charge_wallets en c (empty_result True, db)))
       (\<lambda>x. and_then (charge_key en c x) (charge_account en c))"

text \<open>The end of a transaction: the change, or the error and the tables as they were.\<close>

definition finish_tx :: "tx_fate \<Rightarrow> billing_db \<Rightarrow> bill_error + ('r \<times> billing_db) \<Rightarrow> (bill_error + 'r) \<times> billing_db" where
  "finish_tx fate db out =
     (case fate of
        Tx_failed \<Rightarrow> (Inl Billing_store_error, db)
      | _ \<Rightarrow>
          (case out of
             Inl e \<Rightarrow> (Inl e, db)
           | Inr (r, db') \<Rightarrow> (if fate = Tx_reply_lost then Inl Billing_store_error else Inr r, db')))"

definition apply_usage_billing ::
    "(string \<Rightarrow> string) \<Rightarrow> bill_env \<Rightarrow> usage_command \<Rightarrow> billing_db \<Rightarrow> (bill_error + apply_result) \<times> billing_db" where
  "apply_usage_billing sha en cmd db =
     (let c = normalize_command sha cmd
      in if uc_request_id c = [] then (Inl Request_id_required, db)
         else finish_tx (be_fate en) db
           (and_then (claim_request (uc_request_id c, uc_api_key_id c) (uc_fingerprint c) db) (\<lambda>(fresh, db1).
              if fresh then apply_effects en c db1 else Inr (empty_result False, db))))"

section \<open>Holds for batches of images\<close>

record hold_command =
  hc_request_id :: string
  hc_api_key_id :: int
  hc_fingerprint :: string
  hc_payload_hash :: string
  hc_user_id :: int
  hc_batch_id :: string
  hc_hold_amount :: usd
  hc_actual_amount :: usd

definition build_hold_fingerprint :: "(string \<Rightarrow> string) \<Rightarrow> hold_command \<Rightarrow> string" where
  "build_hold_fingerprint sha c =
     (let raw = joined [int_text (hc_user_id c), int_text (hc_api_key_id c), trim_space (hc_batch_id c),
            usd_text (hc_hold_amount c), usd_text (hc_actual_amount c)];
          payload_hash = trim_space (hc_payload_hash c)
      in sha (if payload_hash = [] then raw else raw @ ''|'' @ payload_hash))"

definition normalize_hold :: "(string \<Rightarrow> string) \<Rightarrow> hold_command \<Rightarrow> hold_command" where
  "normalize_hold sha c =
     (let c1 = c\<lparr>hc_request_id := trim_space (hc_request_id c), hc_batch_id := trim_space (hc_batch_id c)\<rparr>
      in if trim_space (hc_fingerprint c1) = [] then c1\<lparr>hc_fingerprint := build_hold_fingerprint sha c1\<rparr> else c1)"

text \<open>The new balance and frozen balance, when the statement ran.\<close>

type_synonym hold_result = "(usd \<times> usd) option"

definition reserve_hold :: "hold_command \<Rightarrow> billing_db \<Rightarrow> bill_error + (hold_result \<times> billing_db)" where
  "reserve_hold c db =
     (let h = hc_hold_amount c
      in if h \<le> 0 then Inr (None, db)
         else case bd_users db (hc_user_id c) of
           None \<Rightarrow> Inl Billing_user_not_found
         | Some u \<Rightarrow>
             if bu_balance u < h then Inl Insufficient_balance
             else let b = round8 (bu_balance u - h); f = round8 (bu_frozen u + h)
                  in Inr (Some (b, f), set_user (hc_user_id c) \<lparr>bu_balance = b, bu_frozen = f\<rparr> db))"

definition capture_hold :: "hold_command \<Rightarrow> billing_db \<Rightarrow> bill_error + (hold_result \<times> billing_db)" where
  "capture_hold c db =
     (let h = hc_hold_amount c; a = hc_actual_amount c
      in if h \<le> 0 \<and> a \<le> 0 then Inr (None, db)
         else if 100 < a - h then Inl Cost_exceeds_hold
         else case bd_users db (hc_user_id c) of
           None \<Rightarrow> Inl Billing_user_not_found
         | Some u \<Rightarrow>
             if bu_frozen u < h then Inl Frozen_insufficient
             else let b = round8 (bu_balance u + (if a < h then h - a else 0) - (if h < a then a - h else 0));
                      f = round8 (bu_frozen u - h)
                  in Inr (Some (b, f),
                       (set_user (hc_user_id c) \<lparr>bu_balance = b, bu_frozen = f\<rparr> db)\<lparr>bd_ledger :=
                          bd_ledger db @ [((hc_request_id c, hc_api_key_id c), hc_user_id c, a)]\<rparr>))"

definition hold_prefix :: string where "hold_prefix = ''batch_image_hold:''"
definition capture_prefix :: string where "capture_prefix = ''batch_image_capture:''"
definition release_prefix :: string where "release_prefix = ''batch_image_release:''"

definition hold_request_id :: "string \<Rightarrow> string" where
  "hold_request_id batch = hold_prefix @ trim_space batch"

definition capture_request_id :: "string \<Rightarrow> string" where
  "capture_request_id batch = capture_prefix @ trim_space batch"

definition release_request_id :: "string \<Rightarrow> string" where
  "release_request_id batch = release_prefix @ trim_space batch"

definition claimed :: "billing_db \<Rightarrow> string \<times> int \<Rightarrow> bool" where
  "claimed db key \<longleftrightarrow> bd_dedup db key \<noteq> None \<or> bd_archive db key \<noteq> None"

definition release_hold :: "hold_command \<Rightarrow> billing_db \<Rightarrow> bill_error + (hold_result \<times> billing_db)" where
  "release_hold c db =
     (let h = hc_hold_amount c
      in if h \<le> 0 then Inr (None, db)
         else if \<not> claimed db (hold_request_id (hc_batch_id c), hc_api_key_id c) then Inr (None, db)
         else case bd_users db (hc_user_id c) of
           None \<Rightarrow> Inl Billing_user_not_found
         | Some u \<Rightarrow>
             if bu_frozen u < h then Inl Frozen_insufficient
             else let b = round8 (bu_balance u + h); f = round8 (bu_frozen u - h)
                  in Inr (Some (b, f), set_user (hc_user_id c) \<lparr>bu_balance = b, bu_frozen = f\<rparr> db))"

datatype hold_kind = Reserve | Capture | Release

fun hold_effect :: "hold_kind \<Rightarrow> hold_command \<Rightarrow> billing_db \<Rightarrow> bill_error + (hold_result \<times> billing_db)" where
  "hold_effect Reserve = reserve_hold"
| "hold_effect Capture = capture_hold"
| "hold_effect Release = release_hold"

text \<open>\<open>applyBatchImageBalanceHold\<close>; the result is \<open>None\<close> for a request that is known.\<close>

definition apply_hold ::
    "(string \<Rightarrow> string) \<Rightarrow> tx_fate \<Rightarrow> hold_kind \<Rightarrow> hold_command \<Rightarrow> billing_db \<Rightarrow> (bill_error + hold_result option) \<times> billing_db" where
  "apply_hold sha fate kind cmd db =
     (let c = normalize_hold sha cmd
      in if hc_request_id c = [] then (Inl Request_id_required, db)
         else finish_tx fate db
           (and_then (claim_request (hc_request_id c, hc_api_key_id c) (hc_fingerprint c) db) (\<lambda>(fresh, db1).
              if fresh then and_then (hold_effect kind c db1) (\<lambda>(r, db2). Inr (Some r, db2)) else Inr (None, db))))"

section \<open>The system\<close>

text \<open>Requests and batches in any order, with the archival of claims and other movements of money.\<close>

datatype billing_event =
    Bill_request bill_env usage_command
  | Bill_hold tx_fate hold_kind hold_command
  | Archive_claim "string \<times> int"
  | Top_up int usd

definition archive_claim :: "string \<times> int \<Rightarrow> billing_db \<Rightarrow> billing_db" where
  "archive_claim key db =
     (case bd_dedup db key of
        None \<Rightarrow> db
      | Some f \<Rightarrow> db\<lparr>bd_dedup := (bd_dedup db)(key := None),
                    bd_archive := (if bd_archive db key = None then (bd_archive db)(key \<mapsto> f) else bd_archive db)\<rparr>)"

fun billing_step :: "(string \<Rightarrow> string) \<Rightarrow> billing_db \<Rightarrow> billing_event \<Rightarrow> billing_db" where
  "billing_step sha db (Bill_request en c) = snd (apply_usage_billing sha en c db)"
| "billing_step sha db (Bill_hold fate kind c) = snd (apply_hold sha fate kind c db)"
| "billing_step sha db (Archive_claim key) = archive_claim key db"
| "billing_step sha db (Top_up uid x) =
     (case bd_users db uid of
        None \<Rightarrow> db
      | Some u \<Rightarrow> set_user uid (u\<lparr>bu_balance := round8 (bu_balance u + x)\<rparr>) db)"

end
