(* ===== verification/BatchImage.thy ===== *)
theory BatchImage
  imports UsageBilling "HOL-Library.Char_ord" "HOL-Library.List_Lexorder"
begin

text \<open>
  Batches of images (service/batch_image.go, batch_image_billing_hold.go, batch_image_settlement.go,
  batch_image_processor.go, batch_image_billing_recovery.go, Submit and Cancel of batch_image_public.go,
  repository/batch_image_repo.go): the state machine of a job, the statements on its row, and the handlers, cut at
  their calls. \<open>batch_call\<close> makes the next call of a handler. Validation, prices, providers and accounts are answers of
  the environment; the events, the texts of errors, the marks of deletion by the user and the dates are left out.
\<close>

section \<open>Jobs\<close>

datatype batch_status =
    Bat_created | Bat_uploading | Bat_submitted | Bat_running | Bat_indexing | Bat_settling
  | Bat_completed | Bat_failed | Bat_cancelled | Bat_output_deleted

definition is_terminal_batch :: "batch_status \<Rightarrow> bool" where
  "is_terminal_batch s \<longleftrightarrow> s \<in> {Bat_completed, Bat_failed, Bat_cancelled, Bat_output_deleted}"

definition can_transition :: "batch_status \<Rightarrow> batch_status \<Rightarrow> bool" where
  "can_transition src dst \<longleftrightarrow>
     (if is_terminal_batch src
      then dst = Bat_output_deleted \<and> src \<noteq> Bat_output_deleted \<and> src \<in> {Bat_completed, Bat_failed, Bat_cancelled}
      else dst = Bat_failed \<or>
        (case src of
           Bat_created \<Rightarrow> dst \<in> {Bat_uploading, Bat_submitted, Bat_cancelled}
         | Bat_uploading \<Rightarrow> dst \<in> {Bat_submitted, Bat_cancelled}
         | Bat_submitted \<Rightarrow> dst \<in> {Bat_running, Bat_indexing, Bat_failed, Bat_cancelled}
         | Bat_running \<Rightarrow> dst \<in> {Bat_running, Bat_indexing, Bat_failed, Bat_cancelled}
         | Bat_indexing \<Rightarrow> dst \<in> {Bat_settling, Bat_failed}
         | Bat_settling \<Rightarrow> dst = Bat_completed
         | _ \<Rightarrow> False))"

record batch_job =
  bj_id :: string
  bj_user :: int
  bj_key :: "int option"
  bj_account :: "int option"
  bj_provider :: string
  bj_model :: string
  bj_status :: batch_status
  bj_provider_job :: "string option"
  bj_output_ref :: "string option"
  bj_item_count :: int
  bj_success :: int
  bj_fail :: int
  bj_estimated :: usd
  bj_hold :: "usd option"
  bj_actual :: "usd option"
  bj_unit_price :: usd
  bj_snapshot_version :: int
  bj_request_hash :: "string option"
  bj_manifest :: "string option"
  bj_retry :: int
  bj_error_code :: "string option"
  bj_updated :: instant

text \<open>The jobs, the custom ids of their items, and the tables of the bookkeeping.\<close>

record batch_db =
  bt_jobs :: "batch_job list"
  bt_items :: "string \<Rightarrow> string list"
  bt_billing :: billing_db

definition get_job :: "string \<Rightarrow> batch_db \<Rightarrow> batch_job option" where
  "get_job b db = find (\<lambda>j. bj_id j = b) (bt_jobs db)"

definition update_job :: "string \<Rightarrow> (batch_job \<Rightarrow> batch_job) \<Rightarrow> batch_db \<Rightarrow> batch_db" where
  "update_job b f db = db\<lparr>bt_jobs := map (\<lambda>j. if bj_id j = b then f j else j) (bt_jobs db)\<rparr>"

datatype batch_error =
    Job_not_found | Job_exists | Invalid_transition | Index_conflict | Batch_store_error | Missing_key | Missing_account
  | Settle_invalid_status | Invalid_counts | Manifest_conflict | Pricing_missing | Cost_exceeds | Already_settled
  | Batch_insufficient | Hold_failed | Billing_failed | Duplicate_custom_id
  | Index_parse_failed | No_result_lines

section \<open>Statements\<close>

text \<open>A statement or a transaction on the jobs: it may fail, or commit with its reply lost.\<close>

definition statement :: "tx_fate \<Rightarrow> batch_db \<Rightarrow> batch_error + ('r \<times> batch_db) \<Rightarrow> (batch_error + 'r) \<times> batch_db" where
  "statement fate db out =
     (case fate of
        Tx_failed \<Rightarrow> (Inl Batch_store_error, db)
      | _ \<Rightarrow>
          (case out of
             Inl e \<Rightarrow> (Inl e, db)
           | Inr (r, db') \<Rightarrow> (if fate = Tx_reply_lost then Inl Batch_store_error else Inr r, db')))"

definition create_job :: "batch_job \<Rightarrow> batch_db \<Rightarrow> batch_error + (unit \<times> batch_db)" where
  "create_job j db =
     (if get_job (bj_id j) db \<noteq> None then Inl Job_exists else Inr ((), db\<lparr>bt_jobs := bt_jobs db @ [j]\<rparr>))"

definition create_items :: "string \<Rightarrow> string list \<Rightarrow> batch_db \<Rightarrow> batch_error + (unit \<times> batch_db)" where
  "create_items b ids db = Inr ((), db\<lparr>bt_items := (bt_items db)(b := bt_items db b @ ids)\<rparr>)"

definition transition ::
    "instant \<Rightarrow> string \<Rightarrow> batch_status \<Rightarrow> string option \<Rightarrow> batch_db \<Rightarrow> batch_error + (unit \<times> batch_db)" where
  "transition now b dst ec db =
     (case get_job b db of
        None \<Rightarrow> Inl Job_not_found
      | Some j \<Rightarrow>
          if \<not> can_transition (bj_status j) dst then Inl Invalid_transition
          else Inr ((), update_job b (\<lambda>j. j\<lparr>bj_status := dst, bj_updated := now,
                 bj_error_code := (if dst = Bat_failed then ec else bj_error_code j)\<rparr>) db))"

definition touch_submitting :: "instant \<Rightarrow> string \<Rightarrow> batch_db \<Rightarrow> batch_db" where
  "touch_submitting now b db =
     update_job b (\<lambda>j. if bj_status j \<in> {Bat_created, Bat_uploading} then j\<lparr>bj_updated := now\<rparr> else j) db"

definition fail_stale ::
    "instant \<Rightarrow> string \<Rightarrow> instant \<Rightarrow> string \<Rightarrow> batch_db \<Rightarrow> batch_error + (bool \<times> batch_db)" where
  "fail_stale now b cutoff ec db =
     (let stale = (\<lambda>j. bj_status j \<in> {Bat_created, Bat_uploading} \<and> bj_provider_job j = None \<and> bj_updated j \<le> cutoff)
      in case get_job b db of
           Some j \<Rightarrow>
             if stale j
             then Inr (True, update_job b (\<lambda>j. j\<lparr>bj_status := Bat_failed, bj_error_code := Some ec, bj_updated := now\<rparr>) db)
             else Inr (False, db)
         | None \<Rightarrow> Inr (False, db))"

definition update_provider_submit ::
    "instant \<Rightarrow> string \<Rightarrow> string \<Rightarrow> string \<Rightarrow> batch_db \<Rightarrow> batch_error + (unit \<times> batch_db)" where
  "update_provider_submit now b name ref db =
     (case get_job b db of
        None \<Rightarrow> Inl Job_not_found
      | Some j \<Rightarrow>
          if \<not> can_transition (bj_status j) Bat_submitted then Inl Invalid_transition
          else Inr ((), update_job b (\<lambda>j. j\<lparr>bj_status := Bat_submitted, bj_provider_job := Some name,
                 bj_output_ref := (if ref = [] then None else Some ref), bj_updated := now\<rparr>) db))"

definition update_output_ref :: "instant \<Rightarrow> string \<Rightarrow> string \<Rightarrow> batch_db \<Rightarrow> batch_error + (unit \<times> batch_db)" where
  "update_output_ref now b ref db =
     (if get_job b db = None then Inl Job_not_found
      else Inr ((), update_job b (\<lambda>j. j\<lparr>bj_output_ref := Some ref, bj_updated := now\<rparr>) db))"

text \<open>The status is overwritten without a guard when the job is to be failed.\<close>

definition record_submit_failure :: "instant \<Rightarrow> string \<Rightarrow> string \<Rightarrow> bool \<Rightarrow> batch_db \<Rightarrow> batch_error + (unit \<times> batch_db)" where
  "record_submit_failure now b ec mark_failed db =
     Inr ((), update_job b (\<lambda>j. j\<lparr>bj_status := (if mark_failed then Bat_failed else bj_status j),
            bj_error_code := Some ec, bj_updated := now\<rparr>) db)"

definition mark_settled ::
    "instant \<Rightarrow> string \<Rightarrow> usd \<Rightarrow> string \<Rightarrow> batch_db \<Rightarrow> batch_error + (unit \<times> batch_db)" where
  "mark_settled now b cost hash db =
     (case get_job b db of
        None \<Rightarrow> Inl Job_not_found
      | Some j \<Rightarrow>
          if bj_status j = Bat_settling \<and> (bj_manifest j = None \<or> bj_manifest j \<in> {Some [], Some hash})
          then Inr ((), update_job b (\<lambda>j. j\<lparr>bj_status := Bat_completed, bj_actual := Some cost,
                 bj_manifest := Some hash, bj_updated := now\<rparr>) db)
          else if bj_status j = Bat_completed then Inl Already_settled
          else if bj_status j \<noteq> Bat_settling then Inl Settle_invalid_status
          else Inl Manifest_conflict)"

definition set_settlement_failed :: "instant \<Rightarrow> string \<Rightarrow> string \<Rightarrow> batch_db \<Rightarrow> batch_error + (int \<times> batch_db)" where
  "set_settlement_failed now b ec db =
     (case get_job b db of
        None \<Rightarrow> Inl Job_not_found
      | Some j \<Rightarrow> Inr (bj_retry j + 1,
          update_job b (\<lambda>j. j\<lparr>bj_error_code := Some ec, bj_retry := bj_retry j + 1, bj_updated := now\<rparr>) db))"

definition replace_items ::
    "instant \<Rightarrow> string \<Rightarrow> string list \<Rightarrow> int \<Rightarrow> int \<Rightarrow> batch_db \<Rightarrow> batch_error + (unit \<times> batch_db)" where
  "replace_items now b ids succ fail db =
     (case get_job b db of
        None \<Rightarrow> Inl Job_not_found
      | Some j \<Rightarrow>
          if bj_status j \<noteq> Bat_indexing then Inl Index_conflict
          else Inr ((), (update_job b (\<lambda>j. j\<lparr>bj_success := succ, bj_fail := fail, bj_updated := now\<rparr>) db)
                 \<lparr>bt_items := (bt_items db)(b := ids)\<rparr>))"

definition mark_output_deleted :: "instant \<Rightarrow> string \<Rightarrow> batch_db \<Rightarrow> batch_db" where
  "mark_output_deleted now b db =
     update_job b (\<lambda>j. j\<lparr>bj_status := (if bj_status j = Bat_completed then Bat_output_deleted else bj_status j),
       bj_updated := now\<rparr>) db"

section \<open>Holds\<close>

definition deref_string :: "string option \<Rightarrow> string" where
  "deref_string v = (case v of None \<Rightarrow> [] | Some s \<Rightarrow> trim_space s)"

definition batch_hold_amount :: "batch_job \<Rightarrow> usd" where
  "batch_hold_amount j = (case bj_hold j of None \<Rightarrow> bj_estimated j | Some h \<Rightarrow> h)"

definition build_hold_command :: "batch_job \<Rightarrow> string \<Rightarrow> usd \<Rightarrow> string \<Rightarrow> hold_command option" where
  "build_hold_command j rid actual payload_hash =
     (case bj_key j of
        None \<Rightarrow> None
      | Some k \<Rightarrow>
          if k \<le> 0 then None
          else Some \<lparr>hc_request_id = rid, hc_api_key_id = k, hc_fingerprint = [], hc_payload_hash = trim_space payload_hash,
                     hc_user_id = bj_user j, hc_batch_id = bj_id j, hc_hold_amount = max 0 (batch_hold_amount j),
                     hc_actual_amount = max 0 actual\<rparr>)"

text \<open>The calls of a service on a hold: the error, if any, and the tables.\<close>

definition reserve_balance_hold ::
    "(string \<Rightarrow> string) \<Rightarrow> tx_fate \<Rightarrow> batch_job \<Rightarrow> string \<Rightarrow> billing_db \<Rightarrow> batch_error option \<times> billing_db" where
  "reserve_balance_hold sha fate j hash bd =
     (case build_hold_command j (hold_request_id (bj_id j)) 0 hash of
        None \<Rightarrow> (Some Missing_key, bd)
      | Some c \<Rightarrow>
          if hc_hold_amount c \<le> 0 then (None, bd)
          else (case apply_hold sha fate Reserve c bd of
                  (Inr _, bd') \<Rightarrow> (None, bd')
                | (Inl e, bd') \<Rightarrow> (Some (if e = Insufficient_balance then Batch_insufficient else Hold_failed), bd')))"

definition capture_balance_hold ::
    "(string \<Rightarrow> string) \<Rightarrow> tx_fate \<Rightarrow> batch_job \<Rightarrow> usd \<Rightarrow> string \<Rightarrow> billing_db \<Rightarrow> batch_error option \<times> billing_db" where
  "capture_balance_hold sha fate j actual hash bd =
     (case build_hold_command j (capture_request_id (bj_id j)) actual hash of
        None \<Rightarrow> (Some Missing_key, bd)
      | Some c \<Rightarrow>
          (case apply_hold sha fate Capture c bd of
             (Inr _, bd') \<Rightarrow> (None, bd')
           | (Inl e, bd') \<Rightarrow> (Some Billing_failed, bd')))"

definition release_balance_hold ::
    "(string \<Rightarrow> string) \<Rightarrow> tx_fate \<Rightarrow> batch_job \<Rightarrow> string \<Rightarrow> billing_db \<Rightarrow> batch_error option \<times> billing_db" where
  "release_balance_hold sha fate j hash bd =
     (case build_hold_command j (release_request_id (bj_id j)) 0 hash of
        None \<Rightarrow> (Some Missing_key, bd)
      | Some c \<Rightarrow>
          if hc_hold_amount c \<le> 0 then (None, bd)
          else (case apply_hold sha fate Release c bd of
                  (Inr _, bd') \<Rightarrow> (None, bd')
                | (Inl e, bd') \<Rightarrow> (if e = Request_conflict then None else Some Hold_failed, bd')))"

section \<open>Settlement\<close>

definition settlement_max_retries :: int where "settlement_max_retries = 5"
definition cost_epsilon :: usd where "cost_epsilon = 100"

fun join_with :: "string \<Rightarrow> string list \<Rightarrow> string" where
  "join_with sep [] = []"
| "join_with sep [s] = s"
| "join_with sep (s # t # ss) = s @ sep @ join_with sep (t # ss)"

definition manifest_hash_of :: "(string \<Rightarrow> string) \<Rightarrow> batch_job \<Rightarrow> string" where
  "manifest_hash_of sha j =
     sha (join_with [CHR 0x00]
       [trim_space (bj_id j), trim_space (bj_provider j), trim_space (bj_model j), deref_string (bj_provider_job j),
        deref_string (bj_output_ref j), int_text (bj_success j), int_text (bj_fail j), int_text (bj_item_count j)])"

definition has_prefix :: "string \<Rightarrow> string \<Rightarrow> bool" where
  "has_prefix p s \<longleftrightarrow> take (length p) s = p"

definition settlement_retry_exhausted :: "batch_job \<Rightarrow> bool" where
  "settlement_retry_exhausted j \<longleftrightarrow>
     bj_status j = Bat_settling \<and> settlement_max_retries \<le> bj_retry j \<and> has_prefix ''SETTLEMENT_'' (deref_string (bj_error_code j))"

definition settlement_unit_price :: "usd option \<Rightarrow> batch_job \<Rightarrow> usd option" where
  "settlement_unit_price price j =
     (if 1 \<le> bj_snapshot_version j then (if bj_unit_price j < 0 then None else Some (bj_unit_price j)) else price)"

text \<open>What \<open>Settle\<close> decides from the job it has read and the price it is told.\<close>

datatype settle_plan =
    Settle_refuse batch_error
  | Settle_done
  | Settle_exhausted
  | Settle_failure string batch_error
  | Settle_capture usd

definition settle_decision :: "(string \<Rightarrow> string) \<Rightarrow> usd option \<Rightarrow> batch_job \<Rightarrow> settle_plan" where
  "settle_decision sha price j =
     (if bj_status j = Bat_completed then Settle_done
      else if bj_status j \<noteq> Bat_settling then Settle_refuse Settle_invalid_status
      else if (case bj_key j of None \<Rightarrow> True | Some k \<Rightarrow> k \<le> 0) then Settle_refuse Missing_key
      else if (case bj_account j of None \<Rightarrow> True | Some a \<Rightarrow> a \<le> 0) then Settle_refuse Missing_account
      else if settlement_retry_exhausted j then Settle_exhausted
      else if bj_success j < 0 \<or> bj_fail j < 0 \<or> bj_item_count j < 0 \<or> bj_item_count j < bj_success j + bj_fail j
      then Settle_failure ''SETTLEMENT_INVALID_COUNTS'' Invalid_counts
      else if deref_string (bj_manifest j) \<noteq> [] \<and> deref_string (bj_manifest j) \<noteq> manifest_hash_of sha j
      then Settle_failure ''SETTLEMENT_MANIFEST_CONFLICT'' Manifest_conflict
      else case settlement_unit_price price j of
             None \<Rightarrow> Settle_failure ''SETTLEMENT_PRICING_MISSING'' Pricing_missing
           | Some p \<Rightarrow>
               if p < 0 then Settle_failure ''SETTLEMENT_PRICING_MISSING'' Pricing_missing
               else if cost_epsilon < bj_success j * p - batch_hold_amount j
               then Settle_failure ''SETTLEMENT_COST_EXCEEDS_HOLD'' Cost_exceeds
               else Settle_capture (bj_success j * p))"


section \<open>The output of a provider\<close>

text \<open>
  The lines of the output, parsed: a custom id and whether it holds images, or nothing when a line cannot be read.
  Unknown ids are skipped, a repeated one is an error, and items without a line fail.
\<close>

type_synonym output_line = "(string \<times> bool) option"

fun index_lines ::
    "string list \<Rightarrow> output_line list \<Rightarrow> string list \<times> int \<times> int \<Rightarrow> batch_error + (string list \<times> int \<times> int)" where
  "index_lines expected [] acc = Inr acc"
| "index_lines expected (None # ls) acc = Inl Index_parse_failed"
| "index_lines expected (Some (c, good) # ls) (seen, succ, fail) =
     (if expected \<noteq> [] \<and> c \<notin> set expected then index_lines expected ls (seen, succ, fail)
      else if c \<in> set seen then Inl Duplicate_custom_id
      else if good then index_lines expected ls (seen @ [c], succ + 1, fail)
      else index_lines expected ls (seen @ [c], succ, fail + 1))"

definition index_result :: "string list \<Rightarrow> output_line list \<Rightarrow> batch_error + (string list \<times> int \<times> int)" where
  "index_result expected ls =
     (case index_lines expected ls ([], 0, 0) of
        Inl e \<Rightarrow> Inl e
      | Inr (seen, succ, fail) \<Rightarrow>
          let missing = sort (remdups (filter (\<lambda>c. c \<notin> set seen) expected));
              ids = seen @ missing
          in if ids = [] then Inl No_result_lines else Inr (ids, succ, fail + int (length missing)))"

section \<open>Handlers\<close>

datatype provider_state = Pv_queued | Pv_running | Pv_succeeded | Pv_failed | Pv_expired | Pv_cancelled | Pv_other

record provider_status =
  ps_state :: provider_state
  ps_error_code :: string
  ps_output_ref :: string

text \<open>The answer to a call: what happens to a statement, the clock, and what services outside the database say.\<close>

record batch_answer =
  an_fate :: tx_fate
  an_now :: instant
  an_ok :: bool
  an_price :: "usd option"
  an_provider_job :: "(string \<times> string) option"
  an_status :: "provider_status option"
  an_output :: "output_line list option"

text \<open>The next call of a handler, with what it has read.\<close>

datatype submit_phase =
    Sub_create batch_job "string list"
  | Sub_reserve batch_job "string list"
  | Sub_items batch_job "string list"
  | Sub_uploading batch_job
  | Sub_provider batch_job
  | Sub_update batch_job string string
  | Sub_enqueue batch_job
  | Sub_queue_failed batch_job
  | Sub_release batch_job "string option"
  | Sub_record batch_job string

datatype other_phase =
    Again_read string
  | Again_enqueue batch_job
  | Again_failed batch_job
  | Can_read string
  | Can_provider batch_job
  | Can_transition batch_job
  | Can_release batch_job
  | Rec_fail batch_job instant
  | Rec_release batch_job

datatype settle_phase =
    Settle_read string
  | Settle_call batch_job usd
  | Settle_mark batch_job usd
  | Settle_record batch_job string
  | Settle_release batch_job
  | Settle_record_release batch_job
  | Settle_fail batch_job

datatype work_phase =
    Work_read string
  | Work_process string
  | Work_get batch_job
  | Work_ref batch_job provider_status
  | Work_state batch_job provider_status
  | Work_index batch_job
  | Work_replace batch_job "string list" int int
  | Work_index_failed batch_job string
  | Work_settling batch_job
  | Work_release batch_job
  | Work_settle settle_phase

definition on_billing :: "(billing_db \<Rightarrow> 'r \<times> billing_db) \<Rightarrow> batch_db \<Rightarrow> 'r \<times> batch_db" where
  "on_billing f db = (case f (bt_billing db) of (r, bd) \<Rightarrow> (r, db\<lparr>bt_billing := bd\<rparr>))"

text \<open>A call on the hold of a job, and what follows it when it fails or not.\<close>

definition release_then :: "(string \<Rightarrow> string) \<Rightarrow> batch_answer \<Rightarrow> batch_job \<Rightarrow> 'p \<Rightarrow> 'p \<Rightarrow> batch_db \<Rightarrow> 'p \<times> batch_db" where
  "release_then sha an j good bad db =
     (case on_billing (release_balance_hold sha (an_fate an) j (deref_string (bj_request_hash j))) db of
        (None, db') \<Rightarrow> (good, db')
      | (Some _, db') \<Rightarrow> (bad, db'))"

definition move_then ::
    "batch_answer \<Rightarrow> batch_job \<Rightarrow> batch_status \<Rightarrow> string option \<Rightarrow> (batch_error option \<Rightarrow> 'p) \<Rightarrow> batch_db \<Rightarrow> 'p \<times> batch_db" where
  "move_then an j dst ec after db =
     (case statement (an_fate an) db (transition (an_now an) (bj_id j) dst ec db) of
        (Inr _, db') \<Rightarrow> (after None, db')
      | (Inl e, db') \<Rightarrow> (after (Some e), db'))"

text \<open>Submit.\<close>

fun submit_call ::
    "(string \<Rightarrow> string) \<Rightarrow> batch_answer \<Rightarrow> submit_phase \<Rightarrow> batch_db \<Rightarrow> submit_phase option \<times> batch_db" where
  "submit_call sha an (Sub_create j ids) db =
     (case statement (an_fate an) db (create_job j db) of
        (Inr _, db') \<Rightarrow> (Some (Sub_reserve j ids), db')
      | (Inl _, db') \<Rightarrow> (None, db'))"
| "submit_call sha an (Sub_reserve j ids) db =
     (case on_billing (reserve_balance_hold sha (an_fate an) j (deref_string (bj_request_hash j))) db of
        (None, db') \<Rightarrow> (Some (Sub_items j ids), db')
      | (Some e, db') \<Rightarrow>
          (Some (Sub_record j (if e = Batch_insufficient then ''INSUFFICIENT_BALANCE'' else ''BILLING_HOLD_FAILED'')), db'))"
| "submit_call sha an (Sub_items j ids) db =
     (case statement (an_fate an) db (create_items (bj_id j) ids db) of
        (Inr _, db') \<Rightarrow> (Some (Sub_uploading j), db')
      | (Inl _, db') \<Rightarrow> (Some (Sub_release j (Some ''ITEM_CREATE_FAILED'')), db'))"
| "submit_call sha an (Sub_uploading j) db =
     move_then an j Bat_uploading None
       (\<lambda>e. Some (case e of
              None \<Rightarrow> Sub_provider (j\<lparr>bj_status := Bat_uploading\<rparr>)
            | Some e \<Rightarrow> Sub_release j (if e = Invalid_transition then None else Some ''UPLOAD_TRANSITION_FAILED''))) db"
| "submit_call sha an (Sub_provider j) db =
     (case an_provider_job an of
        None \<Rightarrow> (Some (Sub_release j (Some ''PROVIDER_SUBMIT_FAILED'')), db)
      | Some (name, ref) \<Rightarrow>
          (Some (if trim_space name = [] then Sub_release j (Some ''PROVIDER_SUBMIT_FAILED'') else Sub_update j name ref), db))"
| "submit_call sha an (Sub_update j name ref) db =
     (case statement (an_fate an) db (update_provider_submit (an_now an) (bj_id j) name ref db) of
        (Inr _, db') \<Rightarrow> (Some (Sub_enqueue j), db')
      | (Inl _, db') \<Rightarrow> (None, db'))"
| "submit_call sha an (Sub_enqueue j) db = (if an_ok an then None else Some (Sub_queue_failed j), db)"
| "submit_call sha an (Sub_queue_failed j) db =
     (None, snd (statement (an_fate an) db (record_submit_failure (an_now an) (bj_id j) ''QUEUE_FAILED'' False db)))"
| "submit_call sha an (Sub_release j ec) db =
     release_then sha an j (map_option (Sub_record j) ec) (Some (Sub_record j ''BILLING_RELEASE_FAILED'')) db"
| "submit_call sha an (Sub_record j ec) db =
     (None, snd (statement (an_fate an) db (record_submit_failure (an_now an) (bj_id j) ec True db)))"

definition done_status :: "batch_status \<Rightarrow> bool" where
  "done_status s \<longleftrightarrow> s = Bat_settling \<or> is_terminal_batch s"

text \<open>A repeated Submit, Cancel, and the recovery of jobs that were never submitted.\<close>

fun other_call ::
    "(string \<Rightarrow> string) \<Rightarrow> batch_answer \<Rightarrow> other_phase \<Rightarrow> batch_db \<Rightarrow> other_phase option \<times> batch_db" where
  "other_call sha an (Again_read b) db =
     (case get_job b db of
        None \<Rightarrow> (None, db)
      | Some j \<Rightarrow> (if bj_status j = Bat_submitted then Some (Again_enqueue j) else None, db))"
| "other_call sha an (Again_enqueue j) db = (if an_ok an then None else Some (Again_failed j), db)"
| "other_call sha an (Again_failed j) db =
     (None, snd (statement (an_fate an) db (record_submit_failure (an_now an) (bj_id j) ''QUEUE_FAILED'' False db)))"
| "other_call sha an (Can_read b) db =
     (case get_job b db of
        None \<Rightarrow> (None, db)
      | Some j \<Rightarrow>
          (if done_status (bj_status j)
           then if bj_status j \<in> {Bat_failed, Bat_cancelled} then Some (Can_release j) else None
           else Some (if deref_string (bj_provider_job j) \<noteq> [] then Can_provider j else Can_transition j), db))"
| "other_call sha an (Can_provider j) db = (None, db)"
| "other_call sha an (Can_transition j) db =
     move_then an j Bat_cancelled None (\<lambda>e. case e of None \<Rightarrow> Some (Can_release j) | Some _ \<Rightarrow> None) db"
| "other_call sha an (Can_release j) db = release_then sha an j None None db"
| "other_call sha an (Rec_fail j cutoff) db =
     (case statement (an_fate an) db (fail_stale (an_now an) (bj_id j) cutoff ''SUBMIT_STALE_BEFORE_PROVIDER'' db) of
        (Inr applied, db') \<Rightarrow> (if applied then Some (Rec_release (j\<lparr>bj_status := Bat_failed\<rparr>)) else None, db')
      | (Inl _, db') \<Rightarrow> (None, db'))"
| "other_call sha an (Rec_release j) db = release_then sha an j None None db"

text \<open>The settlement.\<close>

fun settle_call ::
    "(string \<Rightarrow> string) \<Rightarrow> batch_answer \<Rightarrow> settle_phase \<Rightarrow> batch_db \<Rightarrow> settle_phase option \<times> batch_db" where
  "settle_call sha an (Settle_read b) db =
     (case get_job b db of
        None \<Rightarrow> (None, db)
      | Some j \<Rightarrow>
          (case settle_decision sha (an_price an) j of
             Settle_exhausted \<Rightarrow> Some (Settle_release j)
           | Settle_failure ec e \<Rightarrow> Some (Settle_record j ec)
           | Settle_capture cost \<Rightarrow> Some (Settle_call j cost)
           | _ \<Rightarrow> None, db))"
| "settle_call sha an (Settle_call j cost) db =
     (case on_billing (capture_balance_hold sha (an_fate an) j cost (manifest_hash_of sha j)) db of
        (None, db') \<Rightarrow> (Some (Settle_mark j cost), db')
      | (Some _, db') \<Rightarrow> (Some (Settle_record j ''SETTLEMENT_BILLING_FAILED''), db'))"
| "settle_call sha an (Settle_mark j cost) db =
     (None, snd (statement (an_fate an) db (mark_settled (an_now an) (bj_id j) cost (manifest_hash_of sha j) db)))"
| "settle_call sha an (Settle_record j ec) db =
     (case statement (an_fate an) db (set_settlement_failed (an_now an) (bj_id j) ec db) of
        (Inr n, db') \<Rightarrow>
          (if settlement_max_retries \<le> n then Some (Settle_release (j\<lparr>bj_retry := n, bj_error_code := Some ec\<rparr>)) else None,
           db')
      | (Inl _, db') \<Rightarrow> (None, db'))"
| "settle_call sha an (Settle_release j) db =
     release_then sha an j (Some (Settle_fail j)) (Some (Settle_record_release j)) db"
| "settle_call sha an (Settle_record_release j) db =
     (None, snd (statement (an_fate an) db
        (set_settlement_failed (an_now an) (bj_id j) ''SETTLEMENT_RELEASE_FAILED'' db)))"
| "settle_call sha an (Settle_fail j) db =
     move_then an j Bat_failed (Some ''SETTLEMENT_BILLING_RETRY_EXHAUSTED'') (\<lambda>e. None) db"

text \<open>What a state of the provider makes of the job.\<close>

definition process_state ::
    "batch_answer \<Rightarrow> batch_job \<Rightarrow> provider_status \<Rightarrow> batch_db \<Rightarrow> work_phase option \<times> batch_db" where
  "process_state an j st db =
     (let moved = (\<lambda>p e. case e of None \<Rightarrow> p | Some _ \<Rightarrow> None);
          fail_with = (\<lambda>fallback.
            let given = trim_space (ps_error_code st)
            in move_then an j Bat_failed (Some (if given = [] then fallback else given))
                 (moved (Some (Work_release (j\<lparr>bj_status := Bat_failed\<rparr>)))) db)
      in case ps_state st of
           Pv_queued \<Rightarrow> (None, db)
         | Pv_running \<Rightarrow>
             if bj_status j = Bat_running then (None, db) else move_then an j Bat_running None (moved None) db
         | Pv_succeeded \<Rightarrow>
             if bj_status j = Bat_indexing then (Some (Work_index j), db)
             else move_then an j Bat_indexing None (moved (Some (Work_index (j\<lparr>bj_status := Bat_indexing\<rparr>)))) db
         | Pv_failed \<Rightarrow> fail_with ''PROVIDER_BATCH_FAILED''
         | Pv_expired \<Rightarrow> fail_with ''PROVIDER_BATCH_EXPIRED''
         | Pv_cancelled \<Rightarrow>
             move_then an j Bat_cancelled None (moved (Some (Work_release (j\<lparr>bj_status := Bat_cancelled\<rparr>)))) db
         | Pv_other \<Rightarrow> (None, db))"

text \<open>The worker.\<close>

fun work_call ::
    "(string \<Rightarrow> string) \<Rightarrow> batch_answer \<Rightarrow> work_phase \<Rightarrow> batch_db \<Rightarrow> work_phase option \<times> batch_db" where
  "work_call sha an (Work_read b) db =
     (case get_job b db of
        None \<Rightarrow> (None, db)
      | Some j \<Rightarrow>
          (Some (if bj_status j = Bat_settling then Work_settle (Settle_read b) else Work_process b), db))"
| "work_call sha an (Work_process b) db =
     (case get_job b db of
        None \<Rightarrow> (None, db)
      | Some j \<Rightarrow>
          (if done_status (bj_status j)
           then if bj_status j \<in> {Bat_failed, Bat_cancelled} then Some (Work_release j) else None
           else if \<not> an_ok an \<or> (case bj_account j of None \<Rightarrow> True | Some a \<Rightarrow> a \<le> 0) then None
           else if deref_string (bj_provider_job j) = [] then None
           else Some (if bj_status j = Bat_indexing then Work_index j else Work_get j), db))"
| "work_call sha an (Work_get j) db =
     (case an_status an of
        None \<Rightarrow> (None, db)
      | Some st \<Rightarrow>
          (Some (if trim_space (ps_output_ref st) = [] \<or> deref_string (bj_output_ref j) = trim_space (ps_output_ref st)
                 then Work_state j st else Work_ref j st), db))"
| "work_call sha an (Work_ref j st) db =
     (case statement (an_fate an) db (update_output_ref (an_now an) (bj_id j) (trim_space (ps_output_ref st)) db) of
        (Inr _, db') \<Rightarrow> (Some (Work_state (j\<lparr>bj_output_ref := Some (trim_space (ps_output_ref st))\<rparr>) st), db')
      | (Inl _, db') \<Rightarrow> (None, db'))"
| "work_call sha an (Work_state j st) db = process_state an j st db"
| "work_call sha an (Work_index j) db =
     (if an_fate an \<noteq> Tx_committed then (Some (Work_index_failed j ''INDEX_PARSE_FAILED''), db)
      else case an_output an of
        None \<Rightarrow> (None, db)
      | Some ls \<Rightarrow>
          (Some (case index_result (bt_items db (bj_id j)) ls of
             Inl e \<Rightarrow> Work_index_failed j
               (if e = Duplicate_custom_id then ''DUPLICATE_CUSTOM_ID_IN_OUTPUT'' else ''INDEX_PARSE_FAILED'')
           | Inr (ids, succ, fail) \<Rightarrow> Work_replace j ids succ fail), db))"
| "work_call sha an (Work_replace j ids succ fail) db =
     (case statement (an_fate an) db (replace_items (an_now an) (bj_id j) ids succ fail db) of
        (Inr _, db') \<Rightarrow> (Some (Work_settling j), db')
      | (Inl e, db') \<Rightarrow> (if e = Index_conflict then None else Some (Work_index_failed j ''INDEX_PARSE_FAILED''), db'))"
| "work_call sha an (Work_index_failed j ec) db =
     move_then an j Bat_failed (Some ec)
       (\<lambda>e. case e of None \<Rightarrow> Some (Work_release (j\<lparr>bj_status := Bat_failed\<rparr>)) | Some _ \<Rightarrow> None) db"
| "work_call sha an (Work_settling j) db = move_then an j Bat_settling None (\<lambda>e. None) db"
| "work_call sha an (Work_release j) db = release_then sha an j None None db"
| "work_call sha an (Work_settle p) db = (case settle_call sha an p db of (q, db') \<Rightarrow> (map_option Work_settle q, db'))"

section \<open>The system\<close>

text \<open>
  One Submit for a job, one worker at a time under the lock of the job, and any number of other handlers, with
  everything else that writes the tables. A handler whose process dies is not stepped again, or dropped.
\<close>

record batch_system =
  by_db :: batch_db
  by_submit :: "string \<Rightarrow> submit_phase option"
  by_work :: "string \<Rightarrow> work_phase option"
  by_other :: "nat \<Rightarrow> other_phase option"

datatype batch_event =
    Ev_submit batch_job "string list"
  | Ev_submit_step string batch_answer
  | Ev_work string
  | Ev_work_step string batch_answer
  | Ev_work_dies string
  | Ev_other nat other_phase
  | Ev_other_step nat batch_answer
  | Ev_touch instant string
  | Ev_output_deleted instant string
  | Ev_billing billing_event

text \<open>How the other handlers begin.\<close>

fun other_start :: "batch_db \<Rightarrow> other_phase \<Rightarrow> bool" where
  "other_start db (Again_read b) = True"
| "other_start db (Can_read b) = True"
| "other_start db (Rec_fail j cutoff) = (j \<in> set (bt_jobs db))"
| "other_start db _ = False"

fun batch_step :: "(string \<Rightarrow> string) \<Rightarrow> batch_system \<Rightarrow> batch_event \<Rightarrow> batch_system" where
  "batch_step sha s (Ev_submit j ids) =
     (if by_submit s (bj_id j) = None then s\<lparr>by_submit := (by_submit s)(bj_id j \<mapsto> Sub_create j ids)\<rparr> else s)"
| "batch_step sha s (Ev_submit_step b an) =
     (case by_submit s b of
        None \<Rightarrow> s
      | Some p \<Rightarrow> (case submit_call sha an p (by_db s) of (q, db) \<Rightarrow> s\<lparr>by_db := db, by_submit := (by_submit s)(b := q)\<rparr>))"
| "batch_step sha s (Ev_work b) =
     (if by_work s b = None then s\<lparr>by_work := (by_work s)(b \<mapsto> Work_read b)\<rparr> else s)"
| "batch_step sha s (Ev_work_step b an) =
     (case by_work s b of
        None \<Rightarrow> s
      | Some p \<Rightarrow> (case work_call sha an p (by_db s) of (q, db) \<Rightarrow> s\<lparr>by_db := db, by_work := (by_work s)(b := q)\<rparr>))"
| "batch_step sha s (Ev_work_dies b) = s\<lparr>by_work := (by_work s)(b := None)\<rparr>"
| "batch_step sha s (Ev_other n p) =
     (if by_other s n = None \<and> other_start (by_db s) p then s\<lparr>by_other := (by_other s)(n \<mapsto> p)\<rparr> else s)"
| "batch_step sha s (Ev_other_step n an) =
     (case by_other s n of
        None \<Rightarrow> s
      | Some p \<Rightarrow> (case other_call sha an p (by_db s) of (q, db) \<Rightarrow> s\<lparr>by_db := db, by_other := (by_other s)(n := q)\<rparr>))"
| "batch_step sha s (Ev_touch now b) = s\<lparr>by_db := touch_submitting now b (by_db s)\<rparr>"
| "batch_step sha s (Ev_output_deleted now b) = s\<lparr>by_db := mark_output_deleted now b (by_db s)\<rparr>"
| "batch_step sha s (Ev_billing e) =
     s\<lparr>by_db := (by_db s)\<lparr>bt_billing := billing_step sha (bt_billing (by_db s)) e\<rparr>\<rparr>"

end
