(* ===== verification/UsageBillingProperties.thy ===== *)
theory UsageBillingProperties
  imports UsageBilling
begin

text \<open>
  What the bookkeeping guarantees: a request is charged once, no money appears or disappears, and a cost is covered by the
  wallets and the balance together. The last runs show where the code departs from what its comments promise.
\<close>

section \<open>Exact amounts\<close>

definition exact_sub :: "subscription \<Rightarrow> bool" where
  "exact_sub s \<longleftrightarrow> 100 dvd us_total_usage s \<and> (case us_total_limit s of None \<Rightarrow> True | Some l \<Rightarrow> 100 dvd l)"

definition exact_db :: "billing_db \<Rightarrow> bool" where
  "exact_db db \<longleftrightarrow>
     (\<forall>s\<in>set (bd_subs db). exact_sub s) \<and>
     (\<forall>uid u. bd_users db uid = Some u \<longrightarrow> 100 dvd bu_balance u \<and> 100 dvd bu_frozen u)"

lemma round8_exact [simp]: "100 dvd round8 v"
  by (simp add: round8_def)

lemma round8_id: "100 dvd v \<Longrightarrow> round8 v = v"
proof -
  assume "100 dvd v"
  then obtain k where v: "v = 100 * k" by (elim dvdE)
  have "(100 * \<bar>k\<bar> + 50) div 100 = \<bar>k\<bar>" by simp
  with v show ?thesis by (simp add: round8_def abs_mult sgn_mult algebra_simps abs_mult_sgn)
qed

lemma quantize_exact [simp]: "100 dvd quantize_usage_billing_amount v"
  by (simp add: quantize_usage_billing_amount_def)

lemma exact_available: "exact_sub s \<Longrightarrow> 100 dvd available now s"
  by (auto simp: exact_sub_def available_def effective_total_limit_def normalize_sub_limit_def effective_window_usage_def
      effective_usage_def split: option.splits if_splits)

lemma exact_locked: "exact_sub s \<Longrightarrow> exact_sub (locked_row now s)"
  by (auto simp: locked_row_def exact_sub_def effective_window_usage_def effective_usage_def Let_def)

section \<open>What the effects leave alone\<close>

definition same_money :: "billing_db \<Rightarrow> billing_db \<Rightarrow> bool" where
  "same_money db db' \<longleftrightarrow>
     bd_dedup db' = bd_dedup db \<and> bd_archive db' = bd_archive db \<and> bd_ledger db' = bd_ledger db \<and> bd_users db' = bd_users db"

lemma same_money_refl [simp]: "same_money db db"
  by (simp add: same_money_def)

lemma same_money_trans: "same_money a b \<Longrightarrow> same_money b c \<Longrightarrow> same_money a c"
  by (simp add: same_money_def)

lemma update_sub_money [simp]: "same_money db (update_sub i f db)"
  by (simp add: same_money_def update_sub_def)

lemma fold_update_sub_money: "same_money db (fold (\<lambda>s. update_sub (us_id s) (f s)) rows db)"
  by (induction rows arbitrary: db) (auto intro: same_money_trans [OF update_sub_money])

lemma increment_subscription_money: "increment_subscription i x db = Some db' \<Longrightarrow> same_money db db'"
  by (auto simp: increment_subscription_def same_money_def split: if_splits)

lemma record_allocations_money: "record_allocations as r db = (r', db') \<Longrightarrow> same_money db db'"
  by (induction as r db rule: record_allocations.induct)
    (auto split: option.splits intro: same_money_trans increment_subscription_money)

lemma apply_subscription_cost_cases:
  assumes "apply_subscription_cost en c db = (r, db')"
  obtains subs db1 as rem where "lock_wallets en (uc_user_id c) db = (subs, db1)"
    and "split_usage_at (be_split_now en) subs (uc_subscription_cost c) (be_split_now en) = (as, rem)"
    and "(\<exists>i. subs = [] \<and> increment_subscription i (uc_subscription_cost c) db1 = Some db' \<and> r = 0) \<or>
      (subs = [] \<and> r = uc_subscription_cost c \<and> db' = db1) \<or> record_allocations as rem db1 = (r, db')"
proof -
  obtain subs db1 where l: "lock_wallets en (uc_user_id c) db = (subs, db1)" by fastforce
  obtain as rem where s: "split_usage_at (be_split_now en) subs (uc_subscription_cost c) (be_split_now en) = (as, rem)"
    by fastforce
  show ?thesis
  proof (cases "as = [] \<and> 0 < rem \<and> subs = []")
    case False
    with assms l s have "record_allocations as rem db1 = (r, db')" by (auto simp: apply_subscription_cost_def Let_def)
    with l s that show ?thesis by blast
  next
    case True
    show ?thesis
    proof (cases "uc_subscription_id c")
      case None
      with True assms l s that show ?thesis by (auto simp: apply_subscription_cost_def Let_def)
    next
      case (Some i)
      with True assms l s that show ?thesis
        by (cases "increment_subscription i (uc_subscription_cost c) db1") (auto simp: apply_subscription_cost_def Let_def)
    qed
  qed
qed

lemma apply_subscription_cost_money:
  assumes "apply_subscription_cost en c db = (r, db')"
  shows "same_money db db'"
  using assms
proof (rule apply_subscription_cost_cases)
  fix subs db1 as rem
  assume l: "lock_wallets en (uc_user_id c) db = (subs, db1)"
    and out: "(\<exists>i. subs = [] \<and> increment_subscription i (uc_subscription_cost c) db1 = Some db' \<and> r = 0) \<or>
      (subs = [] \<and> r = uc_subscription_cost c \<and> db' = db1) \<or> record_allocations as rem db1 = (r, db')"
  have "same_money db db1" using l fold_update_sub_money by (auto simp: lock_wallets_def Let_def)
  moreover have "same_money db1 db'"
    using out by (auto intro: increment_subscription_money record_allocations_money)
  ultimately show ?thesis by (rule same_money_trans)
qed

lemma charge_wallets_money: "charge_wallets en c (res, db) = (res', db') \<Longrightarrow> same_money db db'"
  by (auto simp: charge_wallets_def split: if_splits prod.splits intro: apply_subscription_cost_money)

lemma and_then_Inr [simp]: "and_then x f = Inr y \<longleftrightarrow> (\<exists>a. x = Inr a \<and> f a = Inr y)"
  by (cases x) (auto simp: and_then_def)

lemma or_fail_Inr [simp]: "or_fail e x = Inr a \<longleftrightarrow> x = Some a"
  by (cases x) (auto simp: or_fail_def)

definition same_subs :: "billing_db \<Rightarrow> billing_db \<Rightarrow> bool" where
  "same_subs db db' \<longleftrightarrow> same_money db db' \<and> bd_subs db' = bd_subs db"

lemma same_subs_refl [simp]: "same_subs db db"
  by (simp add: same_subs_def)

lemma same_subs_trans: "same_subs a b \<Longrightarrow> same_subs b c \<Longrightarrow> same_subs a c"
  by (auto simp: same_subs_def intro: same_money_trans)

lemma increment_key_quota_money: "increment_key_quota kid x db = Some (b, db') \<Longrightarrow> same_subs db db'"
  by (auto simp: increment_key_quota_def same_subs_def same_money_def Let_def split: option.splits)

lemma increment_key_rate_money: "increment_key_rate_limit now kid x db = Some db' \<Longrightarrow> same_subs db db'"
  by (auto simp: increment_key_rate_limit_def same_subs_def same_money_def Let_def split: option.splits)

lemma increment_account_money: "increment_account_quota en aid x db = Some (a, db') \<Longrightarrow> same_subs db db'"
  by (auto simp: increment_account_quota_def same_subs_def same_money_def Let_def split: option.splits)

lemma charge_key_money:
  assumes "charge_key en c (res, db) = Inr (res', db')"
  shows "same_subs db db'"
proof -
  let ?first = "if uc_key_quota_cost c \<le> 0 then Inr (res, db)
        else and_then (or_fail Key_not_found (increment_key_quota (uc_api_key_id c) (uc_key_quota_cost c) db))
          (\<lambda>(exhausted, db'). Inr (res\<lparr>ar_exhausted := exhausted\<rparr>, db'))"
  obtain res1 db1 where one: "?first = Inr (res1, db1)"
    and two: "(if uc_key_rate_cost c \<le> 0 then Inr (res1, db1)
          else and_then (or_fail Key_not_found
                 (increment_key_rate_limit (be_db_now en) (uc_api_key_id c) (uc_key_rate_cost c) db1))
            (\<lambda>db2. Inr (res1, db2))) = (Inr (res', db') :: bill_error + apply_result \<times> billing_db)"
    using assms by (auto simp only: charge_key_def prod.case and_then_Inr split_paired_Ex)
  have "same_subs db db1" using one by (auto split: if_splits intro: increment_key_quota_money)
  moreover have "same_subs db1 db'" using two by (auto split: if_splits intro: increment_key_rate_money)
  ultimately show ?thesis by (rule same_subs_trans)
qed

lemma charge_account_money:
  "charge_account en c (res, db) = Inr (res', db') \<Longrightarrow> same_subs db db'"
  by (auto simp: charge_account_def split: if_splits intro: increment_account_money)

section \<open>Exactness is kept\<close>

definition exact_subs :: "billing_db \<Rightarrow> bool" where
  "exact_subs db \<longleftrightarrow> (\<forall>s\<in>set (bd_subs db). exact_sub s)"

lemma update_sub_exact: "exact_subs db \<Longrightarrow> (\<And>s. exact_sub s \<Longrightarrow> exact_sub (f s)) \<Longrightarrow> exact_subs (update_sub i f db)"
  by (auto simp: exact_subs_def update_sub_def)

lemma fold_update_sub_exact:
  "exact_subs db \<Longrightarrow> (\<And>r s. exact_sub s \<Longrightarrow> exact_sub (f r s)) \<Longrightarrow> exact_subs (fold (\<lambda>r. update_sub (us_id r) (f r)) rows db)"
  by (induction rows arbitrary: db) (auto intro: update_sub_exact)

lemma increment_subscription_exact:
  "increment_subscription i x db = Some db' \<Longrightarrow> 100 dvd x \<Longrightarrow> exact_subs db \<Longrightarrow> exact_subs db'"
  by (auto simp: increment_subscription_def exact_subs_def exact_sub_def split: if_splits)

lemma record_allocations_exact:
  "record_allocations as r db = (r', db') \<Longrightarrow> \<forall>a\<in>set as. 100 dvd snd a \<Longrightarrow> 100 dvd r \<Longrightarrow> exact_subs db \<Longrightarrow>
     100 dvd r' \<and> exact_subs db'"
proof (induction as r db rule: record_allocations.induct)
  case (2 i x as r db)
  show ?case
  proof (cases "increment_subscription i x db")
    case None
    with 2 show ?thesis by simp
  next
    case (Some d)
    with 2 increment_subscription_exact [OF Some] show ?thesis by simp
  qed
qed simp

lemma allocate_limited_exact_parts:
  "allocate_limited now ss rem = (as, r) \<Longrightarrow> \<forall>s\<in>set ss. 100 dvd available now s \<Longrightarrow> 100 dvd rem \<Longrightarrow>
     \<forall>a\<in>set as. 100 dvd snd a"
  by (induction now ss rem arbitrary: as r rule: allocate_limited.induct)
    (fastforce simp: Let_def split: if_splits prod.splits)+

lemma split_usage_exact:
  assumes "0 < cost" "split_usage_at clock subs cost now = (as, r)" "100 dvd cost" "\<forall>s\<in>set subs. 100 dvd available now s"
  shows "(\<forall>a\<in>set as. 100 dvd snd a) \<and> 100 dvd r"
proof -
  obtain as0 r0 where a: "allocate_limited now (sorted_limited clock subs) cost = (as0, r0)"
    and out: "(r0 \<le> allocation_epsilon \<and> as = as0 \<and> r = 0) \<or>
      (allocation_epsilon < r0 \<and> as = as0 \<and> r = r0 \<and> (\<forall>u\<in>set subs. is_active clock u \<longrightarrow> has_effective_limit u)) \<or>
      (allocation_epsilon < r0 \<and> (\<exists>u\<in>set subs. is_active clock u \<and> \<not> has_effective_limit u \<and>
        as = as0 @ [(us_id u, r0)] \<and> r = 0))"
    by (rule split_usage_cases [OF assms(1,2)])
  have "\<forall>s\<in>set (sorted_limited clock subs). 100 dvd available now s" using assms(4) by (simp add: sorted_limited_set)
  with allocate_limited_exact_parts [OF a] allocate_limited_exact [OF a] assms(3) out show ?thesis by auto
qed

lemma wallet_rows_set: "s \<in> set (wallet_rows now uid db) \<Longrightarrow> s \<in> set (bd_subs db)"
  by (auto simp: wallet_rows_def)

lemma apply_subscription_cost_exact:
  assumes "apply_subscription_cost en c db = (r, db')" "exact_subs db" "100 dvd uc_subscription_cost c" "0 < uc_subscription_cost c"
  shows "100 dvd r \<and> exact_subs db'"
  using assms(1)
proof (rule apply_subscription_cost_cases)
  fix subs db1 as rem
  assume l: "lock_wallets en (uc_user_id c) db = (subs, db1)"
    and s: "split_usage_at (be_split_now en) subs (uc_subscription_cost c) (be_split_now en) = (as, rem)"
    and out: "(\<exists>i. subs = [] \<and> increment_subscription i (uc_subscription_cost c) db1 = Some db' \<and> r = 0) \<or>
      (subs = [] \<and> r = uc_subscription_cost c \<and> db' = db1) \<or> record_allocations as rem db1 = (r, db')"
  have db1: "exact_subs db1"
    using l assms(2) by (auto simp: lock_wallets_def Let_def exact_sub_def intro!: fold_update_sub_exact)
  have "100 dvd available (be_split_now en) s" if "s \<in> set subs" for s
    using that l assms(2) wallet_rows_set
    by (fastforce simp: lock_wallets_def Let_def exact_subs_def intro!: exact_available exact_locked)
  then have "\<forall>s\<in>set subs. 100 dvd available (be_split_now en) s" by blast
  from split_usage_exact [OF assms(4) s assms(3) this] db1 assms(3) out show ?thesis
    by (auto dest: increment_subscription_exact record_allocations_exact)
qed

lemma charge_wallets_exact:
  assumes "charge_wallets en c (res, db) = (res', db')" "exact_subs db" "100 dvd uc_subscription_cost c" "100 dvd ar_fallback res"
  shows "100 dvd ar_fallback res' \<and> exact_subs db'"
  using assms apply_subscription_cost_exact [of en c db]
  by (auto simp: charge_wallets_def split: if_splits prod.splits)

section \<open>Money is conserved\<close>

definition charged :: "int \<Rightarrow> billing_db \<Rightarrow> usd" where
  "charged uid db = sum_list (map (\<lambda>(k, u, x). if u = uid then x else 0) (bd_ledger db))"

definition wealth :: "int \<Rightarrow> billing_db \<Rightarrow> usd option" where
  "wealth uid db = map_option (\<lambda>u. bu_balance u + bu_frozen u + charged uid db) (bd_users db uid)"

text \<open>Two amounts that differ by rounding only, and what an event charges up to \<open>d\<close>.\<close>

definition near :: "usd \<Rightarrow> usd option \<Rightarrow> usd option \<Rightarrow> bool" where
  "near d = rel_option (\<lambda>a b. \<bar>a - b\<bar> \<le> d)"

lemma near_0 [simp]: "near 0 x y \<longleftrightarrow> x = y"
  by (cases x; cases y) (auto simp: near_def)

lemma near_refl: "0 \<le> d \<Longrightarrow> near d x x"
  by (cases x) (simp_all add: near_def)

lemma near_trans: "near d x y \<Longrightarrow> near e y z \<Longrightarrow> near (d + e) x z"
  by (cases x; cases y; cases z) (auto simp: near_def)

lemma near_plus: "near d x y \<Longrightarrow> near d (map_option (\<lambda>w. w + a) x) (map_option (\<lambda>w. w + a) y)"
  by (cases x; cases y) (auto simp: near_def)

definition charges :: "usd \<Rightarrow> string \<times> int \<Rightarrow> billing_db \<Rightarrow> billing_db \<Rightarrow> bool" where
  "charges d key db db' \<longleftrightarrow>
     bd_dedup db' = bd_dedup db \<and> bd_archive db' = bd_archive db \<and> exact_db db' \<and>
     (bd_ledger db' = bd_ledger db \<or> (\<exists>uid x. bd_ledger db' = bd_ledger db @ [(key, uid, x)])) \<and>
     (\<forall>uid. near d (wealth uid db') (wealth uid db))"

lemma exact_db_subs: "exact_db db \<longleftrightarrow>
  exact_subs db \<and> (\<forall>uid u. bd_users db uid = Some u \<longrightarrow> 100 dvd bu_balance u \<and> 100 dvd bu_frozen u)"
  by (simp add: exact_db_def exact_subs_def)

lemma same_subs_charges: "same_subs db db' \<Longrightarrow> exact_db db \<Longrightarrow> charges 0 key db db'"
  by (simp add: charges_def same_subs_def same_money_def exact_db_def wealth_def charged_def)

lemma same_money_charges: "same_money db db' \<Longrightarrow> exact_subs db' \<Longrightarrow> exact_db db \<Longrightarrow> charges 0 key db db'"
  by (simp add: charges_def same_money_def exact_db_subs wealth_def charged_def)

lemma charges_quiet: "charges d key a b \<Longrightarrow> same_subs b c \<Longrightarrow> charges d key a c"
  by (simp add: charges_def same_subs_def same_money_def exact_db_def wealth_def charged_def)

lemma quiet_charges: "same_money a b \<Longrightarrow> charges d key b c \<Longrightarrow> charges d key a c"
  by (simp add: charges_def same_money_def wealth_def charged_def)

lemma charge_balance_charges:
  assumes "charge_balance c (res, db) = Inr (res', db')" "exact_db db" "100 dvd uc_balance_cost c" "100 dvd ar_fallback res"
  shows "charges 0 (uc_request_id c, uc_api_key_id c) db db'"
proof (cases "uc_balance_cost c + ar_fallback res \<le> 0")
  case True
  with assms show ?thesis by (simp add: charge_balance_def charges_def)
next
  case False
  let ?x = "uc_balance_cost c + ar_fallback res"
  obtain u where u: "bd_users db (uc_user_id c) = Some u"
    using assms(1) False by (auto simp: charge_balance_def deduct_balance_def Let_def split: option.splits)
  with assms(2) have "100 dvd bu_balance u" "100 dvd bu_frozen u" by (simp_all add: exact_db_def)
  then have "round8 (bu_balance u - ?x) = bu_balance u - ?x" using assms(3,4) by (intro round8_id) auto
  then have db': "db' = (set_user (uc_user_id c) (u\<lparr>bu_balance := bu_balance u - ?x\<rparr>) db)\<lparr>bd_ledger :=
      bd_ledger db @ [((uc_request_id c, uc_api_key_id c), uc_user_id c, ?x)]\<rparr>"
    using assms(1) False u by (auto simp: charge_balance_def deduct_balance_def set_user_def Let_def)
  have "100 dvd bu_balance u - ?x" using \<open>100 dvd bu_balance u\<close> assms(3,4) by auto
  with db' u assms(2) show ?thesis
    by (auto simp: charges_def set_user_def exact_db_def wealth_def charged_def)
qed

lemma apply_effects_charges:
  assumes "apply_effects en c db = Inr (res, db')" "exact_db db" "c = normalize_command sha cmd"
  shows "charges 0 (uc_request_id c, uc_api_key_id c) db db'"
proof -
  obtain res1 db1 where one: "charge_wallets en c (empty_result True, db) = (res1, db1)" by fastforce
  obtain res2 db2 res3 db3 where rest: "charge_balance c (res1, db1) = Inr (res2, db2)"
    "charge_key en c (res2, db2) = Inr (res3, db3)" "charge_account en c (res3, db3) = Inr (res, db')"
    using assms(1) one by (auto simp: apply_effects_def)
  have q: "100 dvd uc_subscription_cost c" "100 dvd uc_balance_cost c"
    by (simp_all add: assms(3) normalize_command_def quantize_monetary_fields_def Let_def)
  have ex: "exact_subs db" using assms(2) by (simp add: exact_db_subs)
  have w: "100 dvd ar_fallback res1 \<and> exact_subs db1"
    using charge_wallets_exact [OF one ex q(1)] by (simp add: empty_result_def)
  have m: "same_money db db1" by (rule charge_wallets_money [OF one])
  have "exact_db db1" using m w assms(2) by (simp add: exact_db_subs same_money_def)
  from charge_balance_charges [OF rest(1) this q(2)] w have "charges 0 (uc_request_id c, uc_api_key_id c) db1 db2" by simp
  from charges_quiet [OF charges_quiet [OF this charge_key_money [OF rest(2)]] charge_account_money [OF rest(3)]]
  show ?thesis by (rule quiet_charges [OF m])
qed

definition exact_hold :: "hold_command \<Rightarrow> bool" where
  "exact_hold c \<longleftrightarrow> 100 dvd hc_hold_amount c \<and> 100 dvd hc_actual_amount c"

lemma charges_refl: "exact_db db \<Longrightarrow> 0 \<le> d \<Longrightarrow> charges d key db db"
  by (simp add: charges_def near_refl)

text \<open>A rounding moves an amount by at most half of the last digit of a column.\<close>

lemma round8_near: "\<bar>round8 v - v\<bar> \<le> 50"
proof -
  have digit: "\<bar>(w + 50) div 100 * 100 - w\<bar> \<le> 50" for w :: int by presburger
  show ?thesis using digit [of v] digit [of "- v"] by (auto simp: round8_def sgn_if)
qed

lemma set_user_charges:
  assumes "exact_db db" "bd_users db uid = Some u" "100 dvd bu_balance v" "100 dvd bu_frozen v"
    and "\<bar>bu_balance v + bu_frozen v - (bu_balance u + bu_frozen u)\<bar> \<le> d"
  shows "charges d key db (set_user uid v db)"
proof -
  have "0 \<le> d" using assms(5) by linarith
  with assms show ?thesis
    by (auto simp: charges_def set_user_def exact_db_def wealth_def charged_def near_def option.rel_refl)
qed

lemma hold_effect_charges:
  assumes "hold_effect kind c db = Inr (r, db')" "exact_db db" "exact_hold c"
  shows "charges 0 (hc_request_id c, hc_api_key_id c) db db'"
proof (cases "db' = db")
  case True
  with assms(2) show ?thesis by (simp add: charges_refl)
next
  case False
  obtain u where u: "bd_users db (hc_user_id c) = Some u"
    using assms(1) False
    by (cases kind) (auto simp: reserve_hold_def capture_hold_def release_hold_def Let_def split: if_splits option.splits)
  have e: "100 dvd bu_balance u" "100 dvd bu_frozen u" "100 dvd hc_hold_amount c" "100 dvd hc_actual_amount c"
    using assms(2,3) u by (simp_all add: exact_db_def exact_hold_def)
  have r: "round8 (bu_balance u - hc_hold_amount c) = bu_balance u - hc_hold_amount c"
    "round8 (bu_frozen u + hc_hold_amount c) = bu_frozen u + hc_hold_amount c"
    "round8 (bu_balance u + hc_hold_amount c) = bu_balance u + hc_hold_amount c"
    "round8 (bu_frozen u - hc_hold_amount c) = bu_frozen u - hc_hold_amount c"
    "round8 (bu_balance u + hc_hold_amount c - hc_actual_amount c) = bu_balance u + hc_hold_amount c - hc_actual_amount c"
    using e by (simp_all add: round8_id)
  show ?thesis
  proof (cases kind)
    case Capture
    have "round8 (bu_balance u + (if hc_actual_amount c < hc_hold_amount c then hc_hold_amount c - hc_actual_amount c else 0) -
        (if hc_hold_amount c < hc_actual_amount c then hc_actual_amount c - hc_hold_amount c else 0)) =
        bu_balance u + hc_hold_amount c - hc_actual_amount c"
      using r(5) by (auto simp: algebra_simps)
    with Capture assms(1) u r False have "db' = (set_user (hc_user_id c)
        \<lparr>bu_balance = bu_balance u + hc_hold_amount c - hc_actual_amount c, bu_frozen = bu_frozen u - hc_hold_amount c\<rparr> db)
        \<lparr>bd_ledger := bd_ledger db @ [((hc_request_id c, hc_api_key_id c), hc_user_id c, hc_actual_amount c)]\<rparr>"
      by (auto simp: capture_hold_def Let_def split: if_splits)
    with u e assms(2) show ?thesis
      by (auto simp: charges_def set_user_def exact_db_def wealth_def charged_def)
  next
    case Reserve
    with assms(1) u r False e show ?thesis
      by (auto simp: reserve_hold_def Let_def split: if_splits intro!: set_user_charges [OF assms(2) u])
  next
    case Release
    with assms(1) u r False e show ?thesis
      by (auto simp: release_hold_def Let_def split: if_splits intro!: set_user_charges [OF assms(2) u])
  qed
qed

text \<open>A hold of a finer amount: balance and frozen balance are rounded apart.\<close>

lemma hold_effect_near:
  assumes "hold_effect kind c db = Inr (r, db')" "exact_db db"
  shows "charges 100 (hc_request_id c, hc_api_key_id c) db db'"
proof (cases "db' = db")
  case True
  with assms(2) show ?thesis by (simp add: charges_refl)
next
  case False
  obtain u where u: "bd_users db (hc_user_id c) = Some u"
    using assms(1) False
    by (cases kind) (auto simp: reserve_hold_def capture_hold_def release_hold_def Let_def split: if_splits option.splits)
  let ?h = "hc_hold_amount c"
  note near = set_user_charges [OF assms(2) u, where d = 100]
  have sum: "\<bar>round8 x + round8 y - z\<bar> \<le> 100" if "x + y = z" for x y z
    using round8_near [of x] round8_near [of y] that by linarith
  show ?thesis
  proof (cases kind)
    case Reserve
    with assms(1) u False show ?thesis
      by (auto simp: reserve_hold_def Let_def split: if_splits intro!: near sum)
  next
    case Release
    with assms(1) u False show ?thesis
      by (auto simp: release_hold_def Let_def split: if_splits intro!: near sum)
  next
    case Capture
    let ?a = "hc_actual_amount c"
    define b where "b = bu_balance u + (if ?a < ?h then ?h - ?a else 0) - (if ?h < ?a then ?a - ?h else 0)"
    have b: "b + (bu_frozen u - ?h) = bu_balance u + bu_frozen u - ?a" by (simp add: b_def)
    have db': "db' = (set_user (hc_user_id c) \<lparr>bu_balance = round8 b, bu_frozen = round8 (bu_frozen u - ?h)\<rparr> db)\<lparr>bd_ledger :=
        bd_ledger db @ [((hc_request_id c, hc_api_key_id c), hc_user_id c, ?a)]\<rparr>"
      using Capture assms(1) u False by (simp add: capture_hold_def Let_def b_def split: if_splits)
    have "near 100 (wealth uid db') (wealth uid db)" for uid
      using sum [OF b] u by (cases "bd_users db uid") (auto simp: db' set_user_def wealth_def charged_def near_def)
    with assms(2) show ?thesis by (auto simp: charges_def db' set_user_def exact_db_def)
  qed
qed

definition hold_drift :: "hold_command \<Rightarrow> usd" where
  "hold_drift c = (if exact_hold c then 0 else 100)"

lemma hold_effect_drift:
  "hold_effect kind c db = Inr (r, db') \<Longrightarrow> exact_db db \<Longrightarrow> charges (hold_drift c) (hc_request_id c, hc_api_key_id c) db db'"
  using hold_effect_charges hold_effect_near by (simp add: hold_drift_def)

section \<open>The invariant of the system\<close>

definition billing_inv :: "billing_db \<Rightarrow> bool" where
  "billing_inv db \<longleftrightarrow>
     exact_db db \<and> distinct (map fst (bd_ledger db)) \<and> (\<forall>e\<in>set (bd_ledger db). claimed db (fst e))"

definition claims :: "usd \<Rightarrow> string \<times> int \<Rightarrow> billing_db \<Rightarrow> billing_db \<Rightarrow> bool" where
  "claims d key db db' \<longleftrightarrow>
     \<not> claimed db key \<and> (\<exists>fp. charges d key (db\<lparr>bd_dedup := (bd_dedup db)(key \<mapsto> fp)\<rparr>) db')"

lemma claims_inv:
  assumes "billing_inv db" "claims d key db db'"
  shows "billing_inv db' \<and> (\<forall>uid. near d (wealth uid db') (wealth uid db))"
proof -
  obtain fp where ch: "charges d key (db\<lparr>bd_dedup := (bd_dedup db)(key \<mapsto> fp)\<rparr>) db'" and fresh: "\<not> claimed db key"
    using assms(2) by (auto simp: claims_def)
  have c: "claimed db' k \<longleftrightarrow> claimed db k \<or> k = key" for k using ch by (simp add: charges_def claimed_def)
  have "key \<notin> fst ` set (bd_ledger db)" using assms(1) fresh by (auto simp: billing_inv_def)
  with assms(1) ch have "billing_inv db'" by (auto simp: billing_inv_def charges_def c)
  moreover have "near d (wealth uid db') (wealth uid db)" for uid
    using ch by (simp add: charges_def wealth_def charged_def)
  ultimately show ?thesis by blast
qed

lemma claim_request_cases:
  "claim_request key fp db = Inr (fresh, db1) \<Longrightarrow>
     (if fresh then \<not> claimed db key \<and> db1 = db\<lparr>bd_dedup := (bd_dedup db)(key \<mapsto> fp)\<rparr> else claimed db key \<and> db1 = db)"
  by (auto simp: claim_request_def claimed_def split: option.splits if_splits)

lemma finish_tx_cases:
  "snd (finish_tx fate db out) = db \<or> (\<exists>r. out = Inr (r, snd (finish_tx fate db out)))"
  by (cases fate; cases out) (auto simp: finish_tx_def)

lemma exact_dedup [simp]: "exact_db (db\<lparr>bd_dedup := d\<rparr>) = exact_db db"
  by (simp add: exact_db_def)

lemma apply_usage_billing_fresh:
  fixes sha cmd
  defines "c \<equiv> normalize_command sha cmd"
  shows "snd (apply_usage_billing sha en cmd db) = db \<or>
    (\<not> claimed db (uc_request_id c, uc_api_key_id c) \<and>
     (\<exists>r. apply_effects en c (db\<lparr>bd_dedup := (bd_dedup db)((uc_request_id c, uc_api_key_id c) \<mapsto> uc_fingerprint c)\<rparr>) =
        Inr (r, snd (apply_usage_billing sha en cmd db))))"
proof -
  let ?key = "(uc_request_id c, uc_api_key_id c)"
  define out where "out = and_then (claim_request ?key (uc_fingerprint c) db) (\<lambda>(fresh, db1).
    if fresh then apply_effects en c db1 else Inr (empty_result False, db))"
  let ?db' = "snd (finish_tx (be_fate en) db out)"
  have a: "apply_usage_billing sha en cmd db =
      (if uc_request_id c = [] then (Inl Request_id_required, db) else finish_tx (be_fate en) db out)"
    by (simp add: apply_usage_billing_def c_def [symmetric] out_def Let_def)
  have "\<not> claimed db ?key \<and> apply_effects en c (db\<lparr>bd_dedup := (bd_dedup db)(?key \<mapsto> uc_fingerprint c)\<rparr>) = Inr (r, ?db')"
    if r: "out = Inr (r, ?db')" "?db' \<noteq> db" for r
  proof -
    obtain fresh db1 where cl: "claim_request ?key (uc_fingerprint c) db = Inr (fresh, db1)"
      and eff: "(if fresh then apply_effects en c db1 else Inr (empty_result False, db)) = Inr (r, ?db')"
      using r(1) by (auto simp: out_def split_paired_Ex)
    from eff r(2) have fresh: fresh by (auto split: if_splits)
    with claim_request_cases [OF cl] eff show ?thesis by auto
  qed
  with finish_tx_cases [of "be_fate en" db out] a show ?thesis by auto
qed

lemma apply_usage_billing_claims:
  assumes "exact_db db"
  shows "snd (apply_usage_billing sha en cmd db) = db \<or>
    claims 0 (uc_request_id (normalize_command sha cmd), uc_api_key_id (normalize_command sha cmd)) db
      (snd (apply_usage_billing sha en cmd db))"
  using apply_usage_billing_fresh [of sha en cmd db] assms by (auto simp: claims_def dest!: apply_effects_charges)

lemma apply_hold_fresh:
  fixes sha cmd
  defines "c \<equiv> normalize_hold sha cmd"
  shows "snd (apply_hold sha fate kind cmd db) = db \<or>
    (\<not> claimed db (hc_request_id c, hc_api_key_id c) \<and>
     (\<exists>r. hold_effect kind c (db\<lparr>bd_dedup := (bd_dedup db)((hc_request_id c, hc_api_key_id c) \<mapsto> hc_fingerprint c)\<rparr>) =
        Inr (r, snd (apply_hold sha fate kind cmd db))))"
proof -
  let ?key = "(hc_request_id c, hc_api_key_id c)"
  define out where "out = and_then (claim_request ?key (hc_fingerprint c) db) (\<lambda>(fresh, db1).
    if fresh then and_then (hold_effect kind c db1) (\<lambda>(r, db2). Inr (Some r, db2)) else Inr (None, db))"
  let ?db' = "snd (finish_tx fate db out)"
  have a: "apply_hold sha fate kind cmd db =
      (if hc_request_id c = [] then (Inl Request_id_required, db) else finish_tx fate db out)"
    by (simp add: apply_hold_def c_def [symmetric] out_def Let_def)
  have "\<not> claimed db ?key \<and>
      (\<exists>r'. hold_effect kind c (db\<lparr>bd_dedup := (bd_dedup db)(?key \<mapsto> hc_fingerprint c)\<rparr>) = Inr (r', ?db'))"
    if r: "out = Inr (r, ?db')" "?db' \<noteq> db" for r
  proof -
    obtain fresh db1 where cl: "claim_request ?key (hc_fingerprint c) db = Inr (fresh, db1)"
      and eff: "(if fresh then and_then (hold_effect kind c db1) (\<lambda>(r, db2). Inr (Some r, db2)) else Inr (None, db)) =
        (Inr (r, ?db') :: bill_error + hold_result option \<times> billing_db)"
      using r(1) by (auto simp: out_def split_paired_Ex)
    from eff r(2) have fresh: fresh by (auto split: if_splits)
    with eff obtain r' where "hold_effect kind c db1 = Inr (r', ?db')" by auto
    with fresh claim_request_cases [OF cl] show ?thesis by auto
  qed
  with finish_tx_cases [of fate db out] a show ?thesis by auto
qed

lemma normalize_hold_exact [simp]: "hold_drift (normalize_hold sha c) = hold_drift c"
  by (simp add: normalize_hold_def hold_drift_def exact_hold_def Let_def)

lemma apply_hold_claims:
  assumes "exact_db db"
  shows "snd (apply_hold sha fate kind cmd db) = db \<or>
    claims (hold_drift cmd) (hc_request_id (normalize_hold sha cmd), hc_api_key_id (normalize_hold sha cmd)) db
      (snd (apply_hold sha fate kind cmd db))"
  using apply_hold_fresh [of sha fate kind cmd db] assms by (auto simp: claims_def dest!: hold_effect_drift)

text \<open>
  How far an event may move the money of a user by rounding: not at all when its amounts have eight digits, as those of a
  request always have after they are quantized, and otherwise by one unit of the last digit of a column.
\<close>

fun drift :: "billing_event \<Rightarrow> usd" where
  "drift (Bill_request en c) = 0"
| "drift (Bill_hold fate kind c) = hold_drift c"
| "drift (Archive_claim key) = 0"
| "drift (Top_up uid x) = (if 100 dvd x then 0 else 100)"

fun topped_up :: "int \<Rightarrow> billing_event \<Rightarrow> usd" where
  "topped_up uid (Top_up u x) = (if u = uid then x else 0)"
| "topped_up uid _ = 0"

lemma drift_nonneg: "0 \<le> drift e"
  by (cases e) (simp_all add: hold_drift_def)

lemma archive_claim_inv:
  "billing_inv db \<Longrightarrow> billing_inv (archive_claim key db) \<and> wealth uid (archive_claim key db) = wealth uid db"
  by (auto simp: archive_claim_def billing_inv_def claimed_def exact_db_def wealth_def charged_def split: option.splits)

lemma top_up_inv:
  assumes "billing_inv db" "bd_users db u = Some b"
  shows "billing_inv (set_user u (b\<lparr>bu_balance := round8 (bu_balance b + x)\<rparr>) db) \<and>
    near (drift (Top_up u x)) (wealth uid (set_user u (b\<lparr>bu_balance := round8 (bu_balance b + x)\<rparr>) db))
      (map_option (\<lambda>w. w + topped_up uid (Top_up u x)) (wealth uid db))"
proof -
  have b: "100 dvd bu_balance b" "100 dvd bu_frozen b" using assms by (simp_all add: billing_inv_def exact_db_def)
  have "\<bar>round8 (bu_balance b + x) - (bu_balance b + x)\<bar> \<le> drift (Top_up u x)"
    using round8_near [of "bu_balance b + x"] b by (simp add: round8_id)
  with assms b drift_nonneg [of "Top_up u x"] show ?thesis
    by (cases "bd_users db uid")
      (auto simp: billing_inv_def exact_db_def claimed_def wealth_def charged_def set_user_def near_def)
qed

lemma billing_step_inv:
  assumes "billing_inv db"
  shows "billing_inv (billing_step sha db e) \<and>
    near (drift e) (wealth uid (billing_step sha db e)) (map_option (\<lambda>w. w + topped_up uid e) (wealth uid db))"
proof -
  from assms have ex: "exact_db db" by (simp add: billing_inv_def)
  have kept: "billing_inv db' \<and> near d (wealth uid db') (map_option (\<lambda>w. w + 0) (wealth uid db))"
    if "db' = db \<or> claims d key db db'" "0 \<le> d" for d key db'
  proof (cases "db' = db")
    case True
    with assms that(2) show ?thesis by (simp add: option.map_ident near_refl)
  next
    case False
    with that(1) have "claims d key db db'" by blast
    from claims_inv [OF assms this] show ?thesis by (simp add: option.map_ident)
  qed
  show ?thesis
  proof (cases e)
    case (Bill_request en c)
    with kept [OF apply_usage_billing_claims [OF ex]] show ?thesis by simp
  next
    case (Bill_hold fate kind c)
    with kept [OF apply_hold_claims [OF ex]] drift_nonneg [of e] show ?thesis by simp
  next
    case (Archive_claim key)
    with archive_claim_inv [OF assms] show ?thesis by (auto simp: option.map_ident)
  next
    case (Top_up u x)
    show ?thesis
    proof (cases "bd_users db u")
      case None
      with assms Top_up drift_nonneg [of e] show ?thesis
        by (cases "u = uid") (auto simp: option.map_ident wealth_def near_refl)
    next
      case (Some b)
      with Top_up top_up_inv [OF assms Some] show ?thesis by simp
    qed
  qed
qed

interpretation billing: invariant_machine "\<lambda>_ _. True" "billing_step sha" billing_inv for sha
  by unfold_locales (simp add: billing_step_inv)

lemma run_wealth:
  "billing_inv db \<Longrightarrow>
     near (sum_list (map drift es)) (wealth uid (run_steps (billing_step sha) db es))
       (map_option (\<lambda>w. w + sum_list (map (topped_up uid) es)) (wealth uid db))"
proof (induction es arbitrary: db)
  case (Cons e es)
  let ?db = "billing_step sha db e" and ?rest = "sum_list (map (topped_up uid) es)"
  note step = billing_step_inv [OF Cons.prems, of sha e uid]
  have "near (sum_list (map drift es)) (wealth uid (run_steps (billing_step sha) ?db es))
      (map_option (\<lambda>w. w + ?rest) (wealth uid ?db))" using Cons.IH step by blast
  moreover have "near (drift e) (map_option (\<lambda>w. w + ?rest) (wealth uid ?db))
      (map_option (\<lambda>w. w + ?rest) (map_option (\<lambda>w. w + topped_up uid e) (wealth uid db)))"
    using step near_plus by blast
  ultimately show ?case by (auto dest: near_trans simp: option.map_comp o_def algebra_simps)
qed (simp add: option.map_ident)


section \<open>Claims\<close>

text \<open>The request is recorded with the fingerprint, among the claims or the archived ones.\<close>

definition recorded :: "billing_db \<Rightarrow> string \<times> int \<Rightarrow> string \<Rightarrow> bool" where
  "recorded db key fp \<longleftrightarrow>
     (if bd_dedup db key = None then bd_archive db key = Some fp
      else bd_dedup db key = Some fp \<and> bd_archive db key \<in> {None, Some fp})"

definition same_claims :: "billing_db \<Rightarrow> billing_db \<Rightarrow> bool" where
  "same_claims db db' \<longleftrightarrow> bd_dedup db' = bd_dedup db \<and> bd_archive db' = bd_archive db"

lemma same_claims_trans: "same_claims a b \<Longrightarrow> same_claims b c \<Longrightarrow> same_claims a c"
  by (simp add: same_claims_def)

lemma same_money_claims: "same_money db db' \<Longrightarrow> same_claims db db'"
  by (simp add: same_money_def same_claims_def)

lemma same_subs_claims: "same_subs db db' \<Longrightarrow> same_claims db db'"
  by (simp add: same_subs_def same_money_claims)

lemma charge_balance_claims: "charge_balance c (res, db) = Inr (res', db') \<Longrightarrow> same_claims db db'"
  by (auto simp: charge_balance_def same_claims_def deduct_balance_def set_user_def Let_def split: if_splits option.splits)

lemma apply_effects_steps:
  assumes "apply_effects en c db = Inr (res, db')"
  obtains res1 db1 res2 db2 res3 db3 where "charge_wallets en c (empty_result True, db) = (res1, db1)"
    and "charge_balance c (res1, db1) = Inr (res2, db2)" "charge_key en c (res2, db2) = Inr (res3, db3)"
    and "charge_account en c (res3, db3) = Inr (res, db')"
proof -
  obtain res1 db1 where one: "charge_wallets en c (empty_result True, db) = (res1, db1)" by fastforce
  with assms that show ?thesis by (auto simp: apply_effects_def)
qed

lemma apply_effects_same_claims: "apply_effects en c db = Inr (res, db') \<Longrightarrow> same_claims db db'"
  by (erule apply_effects_steps)
    (meson charge_account_money charge_balance_claims charge_key_money charge_wallets_money same_claims_trans
      same_money_claims same_subs_claims)

lemma hold_effect_same_claims: "hold_effect kind c db = Inr (r, db') \<Longrightarrow> same_claims db db'"
  by (cases kind) (auto simp: same_claims_def reserve_hold_def capture_hold_def release_hold_def set_user_def Let_def
      split: if_splits option.splits)

lemma recorded_claimed: "recorded db key fp \<Longrightarrow> claimed db key"
  by (auto simp: claimed_def recorded_def split: if_splits)

lemma same_claims_recorded:
  "same_claims (db\<lparr>bd_dedup := (bd_dedup db)(key' \<mapsto> fp')\<rparr>) db' \<Longrightarrow> \<not> claimed db key' \<Longrightarrow>
     recorded db' key fp \<longleftrightarrow> (if key = key' then fp = fp' else recorded db key fp)"
  by (auto simp: same_claims_def recorded_def claimed_def)

lemma archive_recorded: "recorded db key' fp \<Longrightarrow> recorded (archive_claim key db) key' fp"
  by (auto simp: archive_claim_def recorded_def split: option.splits if_splits)

lemma billing_step_recorded:
  assumes "recorded db key fp"
  shows "recorded (billing_step sha db e) key fp"
proof (cases e)
  case (Bill_request en c)
  let ?c = "normalize_command sha c" and ?db' = "snd (apply_usage_billing sha en c db)"
  consider "?db' = db" | r where "\<not> claimed db (uc_request_id ?c, uc_api_key_id ?c)"
    "apply_effects en ?c (db\<lparr>bd_dedup := (bd_dedup db)((uc_request_id ?c, uc_api_key_id ?c) \<mapsto> uc_fingerprint ?c)\<rparr>) = Inr (r, ?db')"
    using apply_usage_billing_fresh [of sha en c db] by blast
  then show ?thesis
  proof cases
    case 2
    from same_claims_recorded [OF apply_effects_same_claims [OF 2(2)] 2(1), of key fp] 2(1) assms Bill_request
    show ?thesis by (auto dest: recorded_claimed)
  qed (simp add: Bill_request assms)
next
  case (Bill_hold fate kind c)
  let ?c = "normalize_hold sha c" and ?db' = "snd (apply_hold sha fate kind c db)"
  consider "?db' = db" | r where "\<not> claimed db (hc_request_id ?c, hc_api_key_id ?c)"
    "hold_effect kind ?c (db\<lparr>bd_dedup := (bd_dedup db)((hc_request_id ?c, hc_api_key_id ?c) \<mapsto> hc_fingerprint ?c)\<rparr>) = Inr (r, ?db')"
    using apply_hold_fresh [of sha fate kind c db] by blast
  then show ?thesis
  proof cases
    case 2
    from same_claims_recorded [OF hold_effect_same_claims [OF 2(2)] 2(1), of key fp] 2(1) assms Bill_hold
    show ?thesis by (auto dest: recorded_claimed)
  qed (simp add: Bill_hold assms)
next
  case (Top_up u x)
  with assms show ?thesis by (auto simp: recorded_def set_user_def split: option.splits)
qed (simp add: assms archive_recorded)

interpretation claims: invariant_machine "\<lambda>db e. True" "billing_step sha" "\<lambda>db. recorded db key fp" for sha key fp
  by unfold_locales (rule billing_step_recorded)

lemma run_recorded: "recorded db key fp \<Longrightarrow> recorded (run_steps (billing_step sha) db es) key fp"
  by (rule claims.inv_run) simp_all

lemma claim_recorded:
  "recorded db key f \<Longrightarrow>
     claim_request key fp db = (if trim_space f \<noteq> trim_space fp then Inl Request_conflict else Inr (False, db))"
  by (auto simp: recorded_def claim_request_def split: option.splits if_splits)

lemma applied_effects:
  fixes sha cmd
  defines "c \<equiv> normalize_command sha cmd"
  assumes "apply_usage_billing sha en cmd db = (Inr r, db')" "ar_applied r"
  shows "\<not> claimed db (uc_request_id c, uc_api_key_id c) \<and>
    apply_effects en c (db\<lparr>bd_dedup := (bd_dedup db)((uc_request_id c, uc_api_key_id c) \<mapsto> uc_fingerprint c)\<rparr>) = Inr (r, db')"
proof -
  let ?key = "(uc_request_id c, uc_api_key_id c)"
  define out where "out = and_then (claim_request ?key (uc_fingerprint c) db) (\<lambda>(fresh, db1).
    if fresh then apply_effects en c db1 else Inr (empty_result False, db))"
  have "finish_tx (be_fate en) db out = (Inr r, db')"
    using assms(2) by (simp add: apply_usage_billing_def c_def [symmetric] out_def Let_def split: if_splits)
  then have "out = Inr (r, db')" by (cases "be_fate en"; cases out) (auto simp: finish_tx_def)
  then obtain fresh db1 where cl: "claim_request ?key (uc_fingerprint c) db = Inr (fresh, db1)"
    and eff: "(if fresh then apply_effects en c db1 else Inr (empty_result False, db)) = Inr (r, db')"
    by (auto simp: out_def split_paired_Ex)
  from eff assms(3) have fresh: fresh by (auto simp: empty_result_def split: if_splits)
  with eff claim_request_cases [OF cl] show ?thesis by auto
qed

lemma applied_recorded:
  assumes "apply_usage_billing sha en cmd db = (Inr r, db')" "ar_applied r"
  shows "recorded db' (uc_request_id (normalize_command sha cmd), uc_api_key_id (normalize_command sha cmd))
    (uc_fingerprint (normalize_command sha cmd))"
  using applied_effects [OF assms]
  by (auto dest!: apply_effects_same_claims simp: same_claims_recorded)

text \<open>
  C12: Whatever requests, holds, captures, releases, archivals and top-ups are run, in whatever order, with whatever
  failures and lost replies: no request is charged twice, and what a user owns, on the balance and frozen, is what the
  user owned before, plus the top-ups, minus the charges, exactly when the amounts of holds and top-ups have eight digits. Each
  hold or top-up of a finer amount may move the sum by rounding, by at most 10^-8 USD (\<open>drift\<close>).
\<close>

theorem requests_charged_once:
  assumes "exact_db db" "bd_ledger db = []" "bd_users db uid = Some u"
  shows "distinct (map fst (bd_ledger (run_steps (billing_step sha) db es))) \<and>
    (\<exists>v. bd_users (run_steps (billing_step sha) db es) uid = Some v \<and>
       \<bar>bu_balance v + bu_frozen v - (bu_balance u + bu_frozen u + sum_list (map (topped_up uid) es) -
         charged uid (run_steps (billing_step sha) db es))\<bar> \<le> sum_list (map drift es))"
proof -
  let ?final = "run_steps (billing_step sha) db es"
  have inv: "billing_inv db" using assms(1,2) by (simp add: billing_inv_def)
  have all: "admissible (\<lambda>_ _. True) (billing_step sha) db es" by (induction es arbitrary: db) auto
  have "billing_inv ?final" by (rule billing.inv_run [OF inv all])
  moreover have "near (sum_list (map drift es)) (wealth uid ?final)
      (Some (bu_balance u + bu_frozen u + sum_list (map (topped_up uid) es)))"
    using run_wealth [OF inv, of es uid sha] assms(2,3) by (simp add: wealth_def charged_def)
  ultimately show ?thesis
    by (cases "bd_users ?final uid") (auto simp: billing_inv_def wealth_def near_def algebra_simps)
qed

text \<open>
  A request that was applied is never applied again: after any further events, another request with its id and key
  changes nothing, and is answered as known if it has the same fingerprint, with a conflict if not.
\<close>

theorem applied_request_is_remembered:
  assumes "apply_usage_billing sha en cmd db = (Inr r, db1)" "ar_applied r"
    and "trim_space (uc_request_id cmd') = trim_space (uc_request_id cmd)" "uc_api_key_id cmd' = uc_api_key_id cmd"
  shows "snd (apply_usage_billing sha en' cmd' (run_steps (billing_step sha) db1 es)) = run_steps (billing_step sha) db1 es \<and>
    (be_fate en' = Tx_committed \<longrightarrow>
       fst (apply_usage_billing sha en' cmd' (run_steps (billing_step sha) db1 es)) =
         (if trim_space (uc_fingerprint (normalize_command sha cmd)) = trim_space (uc_fingerprint (normalize_command sha cmd'))
          then Inr (empty_result False) else Inl Request_conflict))"
proof -
  let ?c = "normalize_command sha cmd" and ?c' = "normalize_command sha cmd'"
  have k: "uc_request_id ?c' = uc_request_id ?c" "uc_api_key_id ?c' = uc_api_key_id ?c"
    using assms(3,4) by (simp_all add: normalize_command_def quantize_monetary_fields_def Let_def)
  have ne: "uc_request_id ?c \<noteq> []" using assms(1) by (auto simp: apply_usage_billing_def Let_def)
  have "claim_request (uc_request_id ?c', uc_api_key_id ?c') (uc_fingerprint ?c') (run_steps (billing_step sha) db1 es) =
      (if trim_space (uc_fingerprint ?c) \<noteq> trim_space (uc_fingerprint ?c') then Inl Request_conflict
       else Inr (False, run_steps (billing_step sha) db1 es))"
    unfolding k by (rule claim_recorded [OF run_recorded [OF applied_recorded [OF assms(1,2)]]])
  with ne k show ?thesis
    by (cases "be_fate en'") (simp_all add: apply_usage_billing_def and_then_def finish_tx_def Let_def)
qed

end
