(* ===== verification/BatchInvariant.thy ===== *)
theory BatchInvariant
  imports BatchImage UsageBillingProperties
begin

text \<open>
  The invariant of the batches of images: what the row of a job, the claims on its hold and the handlers at work on it
  have to do with each other, and that the frozen balance of a user is the sum of the open holds.
\<close>

section \<open>Holds as claims\<close>

definition job_key :: "batch_job \<Rightarrow> int" where
  "job_key j = (case bj_key j of None \<Rightarrow> 0 | Some k \<Rightarrow> k)"

definition reserved :: "billing_db \<Rightarrow> batch_job \<Rightarrow> bool" where
  "reserved bd j \<longleftrightarrow> claimed bd (hold_request_id (bj_id j), job_key j)"

definition captured :: "billing_db \<Rightarrow> batch_job \<Rightarrow> bool" where
  "captured bd j \<longleftrightarrow> claimed bd (capture_request_id (bj_id j), job_key j)"

definition released :: "billing_db \<Rightarrow> batch_job \<Rightarrow> bool" where
  "released bd j \<longleftrightarrow> claimed bd (release_request_id (bj_id j), job_key j)"

definition same_terms :: "batch_job \<Rightarrow> batch_job \<Rightarrow> bool" where
  "same_terms j k \<longleftrightarrow>
     bj_id j = bj_id k \<and> bj_user j = bj_user k \<and> bj_key j = bj_key k \<and> batch_hold_amount j = batch_hold_amount k"

text \<open>Ids without spaces at their ends, as random hexadecimal ones are, and amounts of eight digits.\<close>

definition id_ok :: "string \<Rightarrow> bool" where
  "id_ok b \<longleftrightarrow>
     trim_space b = b \<and> trim_space (hold_request_id b) = hold_request_id b \<and>
     trim_space (capture_request_id b) = capture_request_id b \<and> trim_space (release_request_id b) = release_request_id b"

definition terms_ok :: "batch_job \<Rightarrow> bool" where
  "terms_ok j \<longleftrightarrow> id_ok (bj_id j) \<and> (\<exists>k. bj_key j = Some k \<and> 0 < k) \<and> 100 dvd batch_hold_amount j"

lemma same_terms_refl [simp]: "same_terms j j"
  by (simp add: same_terms_def)

lemma same_terms_trans: "same_terms i j \<Longrightarrow> same_terms j k \<Longrightarrow> same_terms i k"
  by (simp add: same_terms_def)

lemma same_terms_sym: "same_terms i j \<Longrightarrow> same_terms j i"
  by (simp add: same_terms_def)

lemma same_terms_id: "same_terms j k \<Longrightarrow> bj_id j = bj_id k"
  by (simp add: same_terms_def)

lemma same_terms_flags:
  "same_terms j k \<Longrightarrow> reserved bd j = reserved bd k"
  "same_terms j k \<Longrightarrow> captured bd j = captured bd k"
  "same_terms j k \<Longrightarrow> released bd j = released bd k"
  by (simp_all add: same_terms_def reserved_def captured_def released_def job_key_def)

text \<open>The frozen balance moves by an amount; balances keep eight digits.\<close>

definition exact_users :: "billing_db \<Rightarrow> bool" where
  "exact_users bd \<longleftrightarrow> (\<forall>uid u. bd_users bd uid = Some u \<longrightarrow> 100 dvd bu_balance u \<and> 100 dvd bu_frozen u)"

definition frozen_of :: "billing_db \<Rightarrow> int \<Rightarrow> usd option" where
  "frozen_of bd uid = map_option bu_frozen (bd_users bd uid)"

definition frozen_moves :: "int \<Rightarrow> usd \<Rightarrow> billing_db \<Rightarrow> billing_db \<Rightarrow> bool" where
  "frozen_moves uid d bd bd' \<longleftrightarrow>
     exact_users bd' \<and> (\<forall>v. frozen_of bd' v = (if v = uid then map_option (\<lambda>x. x + d) (frozen_of bd v) else frozen_of bd v))"

lemma frozen_moves_refl: "exact_users bd \<Longrightarrow> frozen_moves uid 0 bd bd"
  by (simp add: frozen_moves_def option.map_ident split: option.splits)

text \<open>A hold was booked under its key, or nothing happened.\<close>

definition books :: "string \<times> int \<Rightarrow> int \<Rightarrow> usd \<Rightarrow> billing_db \<Rightarrow> billing_db \<Rightarrow> bool" where
  "books key uid d bd bd' \<longleftrightarrow>
     \<not> claimed bd key \<and> (\<forall>k. claimed bd' k \<longleftrightarrow> claimed bd k \<or> k = key) \<and> frozen_moves uid d bd bd'"

lemma set_user_moves:
  assumes "exact_users bd" "bd_users bd uid = Some u" "100 dvd bu_balance v" "100 dvd bu_frozen v" "bu_frozen v = bu_frozen u + d"
  shows "frozen_moves uid d bd (set_user uid v bd)"
  using assms by (auto simp: frozen_moves_def exact_users_def frozen_of_def set_user_def split: option.splits)

lemma frozen_moves_tables:
  "bd_users bd2 = bd_users bd1 \<Longrightarrow> frozen_moves uid d bd bd1 \<Longrightarrow> frozen_moves uid d bd bd2"
  "bd_users bd2 = bd_users bd1 \<Longrightarrow> frozen_moves uid d bd2 bd' \<Longrightarrow> frozen_moves uid d bd1 bd'"
  by (simp_all add: frozen_moves_def exact_users_def frozen_of_def)

lemma hold_effect_moves:
  assumes "hold_effect kind c bd = Inr (r, bd')" "exact_users bd" "100 dvd hc_hold_amount c" "0 \<le> hc_hold_amount c"
  shows "frozen_moves (hc_user_id c)
    (case kind of Reserve \<Rightarrow> hc_hold_amount c
     | Capture \<Rightarrow> - hc_hold_amount c
     | Release \<Rightarrow> if claimed bd (hold_request_id (hc_batch_id c), hc_api_key_id c) then - hc_hold_amount c else 0) bd bd'"
proof -
  let ?h = "hc_hold_amount c" and ?uid = "hc_user_id c"
  have exact: "100 dvd bu_frozen u" "round8 (bu_frozen u + ?h) = bu_frozen u + ?h" "round8 (bu_frozen u - ?h) = bu_frozen u - ?h"
    if "bd_users bd ?uid = Some u" for u
    using that assms(2,3) by (simp_all add: exact_users_def round8_id)
  have moves: "frozen_moves ?uid d bd (set_user ?uid \<lparr>bu_balance = round8 x, bu_frozen = f\<rparr> bd)"
    if "bd_users bd ?uid = Some u" "f = bu_frozen u + d" "100 dvd d" for u x f d
    using exact(1) [OF that(1)] that by (intro set_user_moves [OF assms(2) that(1)]) auto
  show ?thesis
  proof (cases kind)
    case Reserve
    with assms(1,2,4) show ?thesis
      by (auto simp: reserve_hold_def exact frozen_moves_refl Let_def split: if_splits option.splits intro!: moves assms(3))
  next
    case Capture
    have "(?h \<le> 0 \<and> bd' = bd) \<or> (\<exists>u x l. bd_users bd ?uid = Some u \<and>
        bd' = (set_user ?uid \<lparr>bu_balance = round8 x, bu_frozen = round8 (bu_frozen u - ?h)\<rparr> bd)\<lparr>bd_ledger := l\<rparr>)"
      using assms(1) Capture by (simp add: capture_hold_def Let_def split: if_splits option.splits) blast+
    then show ?thesis
    proof
      assume "?h \<le> 0 \<and> bd' = bd"
      with Capture assms(2,4) show ?thesis by (simp add: frozen_moves_refl)
    next
      assume "\<exists>u x l. bd_users bd ?uid = Some u \<and>
        bd' = (set_user ?uid \<lparr>bu_balance = round8 x, bu_frozen = round8 (bu_frozen u - ?h)\<rparr> bd)\<lparr>bd_ledger := l\<rparr>"
      then obtain u x l where u: "bd_users bd ?uid = Some u"
        and bd': "bd' = (set_user ?uid \<lparr>bu_balance = round8 x, bu_frozen = bu_frozen u - ?h\<rparr> bd)\<lparr>bd_ledger := l\<rparr>"
        by (auto simp: exact)
      have "frozen_moves ?uid (- ?h) bd (set_user ?uid \<lparr>bu_balance = round8 x, bu_frozen = bu_frozen u - ?h\<rparr> bd)"
        using assms(3) by (intro moves [OF u]) auto
      from frozen_moves_tables(1) [OF _ this, of bd'] Capture show ?thesis by (simp add: bd')
    qed
  next
    case Release
    with assms(1,2,4) show ?thesis
      by (auto simp: release_hold_def exact frozen_moves_refl Let_def split: if_splits option.splits intro!: moves assms(3))
  qed
qed


definition hold_shift :: "hold_kind \<Rightarrow> hold_command \<Rightarrow> billing_db \<Rightarrow> usd" where
  "hold_shift kind c bd =
     (case kind of Reserve \<Rightarrow> hc_hold_amount c
      | Capture \<Rightarrow> - hc_hold_amount c
      | Release \<Rightarrow> if claimed bd (hold_request_id (hc_batch_id c), hc_api_key_id c) then - hc_hold_amount c else 0)"

lemma normalize_hold_fields [simp]:
  "hc_request_id (normalize_hold sha c) = trim_space (hc_request_id c)"
  "hc_batch_id (normalize_hold sha c) = trim_space (hc_batch_id c)"
  "hc_api_key_id (normalize_hold sha c) = hc_api_key_id c"
  "hc_user_id (normalize_hold sha c) = hc_user_id c"
  "hc_hold_amount (normalize_hold sha c) = hc_hold_amount c"
  by (simp_all add: normalize_hold_def Let_def)

lemma prefixes_differ [simp]:
  "hold_request_id a \<noteq> capture_request_id b" "capture_request_id a \<noteq> hold_request_id b"
  "hold_request_id a \<noteq> release_request_id b" "release_request_id a \<noteq> hold_request_id b"
  "capture_request_id a \<noteq> release_request_id b" "release_request_id a \<noteq> capture_request_id b"
  by (simp_all add: hold_request_id_def capture_request_id_def release_request_id_def hold_prefix_def capture_prefix_def
      release_prefix_def)

lemma apply_hold_books:
  assumes "exact_users bd" "100 dvd hc_hold_amount cmd" "0 \<le> hc_hold_amount cmd"
    and "trim_space (hc_request_id cmd) = hc_request_id cmd" "trim_space (hc_batch_id cmd) = hc_batch_id cmd"
    and "kind = Release \<Longrightarrow> hc_request_id cmd \<noteq> hold_request_id (hc_batch_id cmd)"
  shows "snd (apply_hold sha fate kind cmd bd) = bd \<or>
    books (hc_request_id cmd, hc_api_key_id cmd) (hc_user_id cmd) (hold_shift kind cmd bd) bd (snd (apply_hold sha fate kind cmd bd))"
proof (cases "snd (apply_hold sha fate kind cmd bd) = bd")
  case False
  let ?bd' = "snd (apply_hold sha fate kind cmd bd)" and ?c = "normalize_hold sha cmd" and ?key = "(hc_request_id cmd, hc_api_key_id cmd)"
  let ?bd1 = "bd\<lparr>bd_dedup := (bd_dedup bd)(?key \<mapsto> hc_fingerprint ?c)\<rparr>"
  from False apply_hold_fresh [of sha fate kind cmd bd] assms(4) obtain r where fresh: "\<not> claimed bd ?key"
    and eff: "hold_effect kind ?c ?bd1 = Inr (r, ?bd')"
    by auto
  have c: "claimed ?bd1 k \<longleftrightarrow> claimed bd k \<or> k = ?key" for k by (simp add: claimed_def)
  have "claimed ?bd' k \<longleftrightarrow> claimed ?bd1 k" for k
    using hold_effect_same_claims [OF eff] by (simp add: same_claims_def claimed_def)
  moreover have "exact_users ?bd1" using assms(1) by (simp add: exact_users_def)
  from hold_effect_moves [OF eff this] assms(2,3,5,6) c
  have "frozen_moves (hc_user_id cmd) (hold_shift kind cmd bd) ?bd1 ?bd'"
    by (cases kind) (auto simp: hold_shift_def)
  then have "frozen_moves (hc_user_id cmd) (hold_shift kind cmd bd) bd ?bd'"
    by (rule frozen_moves_tables(2) [rotated]) simp
  ultimately have "books ?key (hc_user_id cmd) (hold_shift kind cmd bd) bd ?bd'"
    using fresh c by (simp add: books_def)
  then show ?thesis ..
qed simp

lemma apply_hold_reply:
  assumes "apply_hold sha fate kind cmd bd = (res, bd')"
  shows "(res = Inr x \<longrightarrow> claimed bd' (trim_space (hc_request_id cmd), hc_api_key_id cmd)) \<and>
    (res = Inl e \<and> fate \<noteq> Tx_reply_lost \<longrightarrow> bd' = bd)"
proof -
  define c where "c = normalize_hold sha cmd"
  let ?key = "(hc_request_id c, hc_api_key_id c)"
  define out where "out = and_then (claim_request ?key (hc_fingerprint c) bd) (\<lambda>(fresh, bd1).
    if fresh then and_then (hold_effect kind c bd1) (\<lambda>(r, bd2). Inr (Some r, bd2)) else Inr (None, bd))"
  have a: "(if hc_request_id c = [] then (Inl Request_id_required, bd) else finish_tx fate bd out) = (res, bd')"
    using assms by (simp only: apply_hold_def c_def [symmetric] out_def Let_def)
  have "claimed bd2 ?key" if o: "out = Inr (y, bd2)" for y bd2
  proof -
    obtain fresh bd1 where cl: "claim_request ?key (hc_fingerprint c) bd = Inr (fresh, bd1)"
      and eff: "(if fresh then and_then (hold_effect kind c bd1) (\<lambda>(r, bd2). Inr (Some r, bd2)) else Inr (None, bd)) =
        (Inr (y, bd2) :: bill_error + hold_result option \<times> billing_db)"
      using o unfolding out_def
      by (cases "claim_request ?key (hc_fingerprint c) bd") (auto simp only: and_then_def sum.case prod.case split_paired_all sum.distinct)
    show ?thesis
    proof (cases fresh)
      case True
      with eff obtain r where "hold_effect kind c bd1 = Inr (r, bd2)" by auto
      from hold_effect_same_claims [OF this] claim_request_cases [OF cl] True
      show ?thesis by (simp add: same_claims_def claimed_def)
    next
      case False
      with eff claim_request_cases [OF cl] show ?thesis by auto
    qed
  qed
  with a show ?thesis
    by (cases fate; cases out) (auto simp: finish_tx_def c_def split: if_splits)
qed

lemma terms_command:
  assumes "terms_ok j"
  obtains c where "build_hold_command j rid actual hash = Some c" "hc_request_id c = rid" "hc_api_key_id c = job_key j"
    "hc_user_id c = bj_user j" "hc_batch_id c = bj_id j" "hc_hold_amount c = max 0 (batch_hold_amount j)"
  using assms that by (auto simp: terms_ok_def build_hold_command_def job_key_def)

text \<open>What the three calls do to the claims on a job and to the frozen balance of its user.\<close>

lemma reserve_books:
  assumes "reserve_balance_hold sha fate j hash bd = (e, bd')" "terms_ok j" "exact_users bd"
  shows "(bd' = bd \<or> (0 < batch_hold_amount j \<and>
      books (hold_request_id (bj_id j), job_key j) (bj_user j) (batch_hold_amount j) bd bd')) \<and>
    (e = None \<and> 0 < batch_hold_amount j \<longrightarrow> reserved bd' j)"
proof -
  obtain c where c: "build_hold_command j (hold_request_id (bj_id j)) 0 hash = Some c" "hc_request_id c = hold_request_id (bj_id j)"
    "hc_api_key_id c = job_key j" "hc_user_id c = bj_user j" "hc_batch_id c = bj_id j" "hc_hold_amount c = max 0 (batch_hold_amount j)"
    by (rule terms_command [OF assms(2)])
  have t: "trim_space (hold_request_id (bj_id j)) = hold_request_id (bj_id j)" "trim_space (bj_id j) = bj_id j"
    "100 dvd batch_hold_amount j"
    using assms(2) by (simp_all add: terms_ok_def id_ok_def)
  show ?thesis
  proof (cases "batch_hold_amount j \<le> 0")
    case True
    with assms(1) c show ?thesis by (simp add: reserve_balance_hold_def)
  next
    case False
    obtain res where a: "apply_hold sha fate Reserve c bd = (res, bd')" "e = None \<longrightarrow> (\<exists>x. res = Inr x)"
      using assms(1) c False by (auto simp: reserve_balance_hold_def split: prod.splits sum.splits)
    from apply_hold_books [OF assms(3), of c Reserve sha fate] a(1) c t False
    have "bd' = bd \<or> books (hold_request_id (bj_id j), job_key j) (bj_user j) (batch_hold_amount j) bd bd'"
      by (auto simp: hold_shift_def)
    moreover have "e = None \<longrightarrow> reserved bd' j"
      using apply_hold_reply [OF a(1)] a(2) c t by (auto simp: reserved_def)
    ultimately show ?thesis using False by auto
  qed
qed

lemma capture_books:
  assumes "capture_balance_hold sha fate j cost hash bd = (e, bd')" "terms_ok j" "exact_users bd"
  shows "(bd' = bd \<or>
      books (capture_request_id (bj_id j), job_key j) (bj_user j) (- max 0 (batch_hold_amount j)) bd bd') \<and>
    (e = None \<longrightarrow> captured bd' j) \<and> (e \<noteq> None \<and> fate \<noteq> Tx_reply_lost \<longrightarrow> bd' = bd)"
proof -
  obtain c where c: "build_hold_command j (capture_request_id (bj_id j)) cost hash = Some c" "hc_request_id c = capture_request_id (bj_id j)"
    "hc_api_key_id c = job_key j" "hc_user_id c = bj_user j" "hc_batch_id c = bj_id j" "hc_hold_amount c = max 0 (batch_hold_amount j)"
    by (rule terms_command [OF assms(2)])
  have t: "trim_space (capture_request_id (bj_id j)) = capture_request_id (bj_id j)" "trim_space (bj_id j) = bj_id j"
    "100 dvd batch_hold_amount j"
    using assms(2) by (simp_all add: terms_ok_def id_ok_def)
  obtain res where a: "apply_hold sha fate Capture c bd = (res, bd')" "e = None \<longleftrightarrow> (\<exists>x. res = Inr x)"
    using assms(1) c by (auto simp: capture_balance_hold_def split: prod.splits sum.splits)
  from apply_hold_books [OF assms(3), of c Capture sha fate] a(1) c t
  have "bd' = bd \<or> books (capture_request_id (bj_id j), job_key j) (bj_user j) (- max 0 (batch_hold_amount j)) bd bd'"
    by (auto simp: hold_shift_def max_def)
  moreover have "e = None \<longrightarrow> captured bd' j"
    using apply_hold_reply [OF a(1)] a(2) c t by (auto simp: captured_def)
  moreover have "e \<noteq> None \<and> fate \<noteq> Tx_reply_lost \<longrightarrow> bd' = bd"
    using apply_hold_reply [OF a(1)] a(2) by (cases res) auto
  ultimately show ?thesis by auto
qed

lemma release_books:
  assumes "release_balance_hold sha fate j hash bd = (e, bd')" "terms_ok j" "exact_users bd"
  shows "bd' = bd \<or> (0 < batch_hold_amount j \<and>
      books (release_request_id (bj_id j), job_key j) (bj_user j) (if reserved bd j then - batch_hold_amount j else 0) bd bd')"
proof -
  obtain c where c: "build_hold_command j (release_request_id (bj_id j)) 0 hash = Some c" "hc_request_id c = release_request_id (bj_id j)"
    "hc_api_key_id c = job_key j" "hc_user_id c = bj_user j" "hc_batch_id c = bj_id j" "hc_hold_amount c = max 0 (batch_hold_amount j)"
    by (rule terms_command [OF assms(2)])
  have t: "trim_space (release_request_id (bj_id j)) = release_request_id (bj_id j)" "trim_space (bj_id j) = bj_id j"
    "100 dvd batch_hold_amount j"
    using assms(2) by (simp_all add: terms_ok_def id_ok_def)
  show ?thesis
  proof (cases "batch_hold_amount j \<le> 0")
    case True
    with assms(1) c show ?thesis by (simp add: release_balance_hold_def)
  next
    case False
    obtain res where a: "apply_hold sha fate Release c bd = (res, bd')"
      using assms(1) c False by (auto simp: release_balance_hold_def split: prod.splits sum.splits)
    from apply_hold_books [OF assms(3), of c Release sha fate] a c t False show ?thesis
      by (auto simp: hold_shift_def reserved_def)
  qed
qed

end
