(* ===== verification/BatchLocal.thy ===== *)
theory BatchLocal
  imports BatchInvariant
begin

text \<open>
  The invariant of one job: its row, the three claims on its hold, the Submit and the worker that are at work on it;
  and that every call of a handler changes one row and books at most one claim of it, and keeps the invariant.
\<close>

section \<open>The invariant of a job\<close>

definition closed_status :: "batch_status \<Rightarrow> bool" where
  "closed_status s \<longleftrightarrow> s \<in> {Bat_failed, Bat_cancelled}"

definition paid_status :: "batch_status \<Rightarrow> bool" where
  "paid_status s \<longleftrightarrow> s \<in> {Bat_completed, Bat_output_deleted}"

definition opening_status :: "batch_status \<Rightarrow> bool" where
  "opening_status s \<longleftrightarrow> s \<in> {Bat_created, Bat_uploading}"

definition advanced_status :: "batch_status \<Rightarrow> bool" where
  "advanced_status s \<longleftrightarrow> \<not> closed_status s \<and> \<not> opening_status s"

lemmas status_defs = closed_status_def paid_status_def opening_status_def advanced_status_def

fun live :: "submit_phase option \<Rightarrow> bool" where
  "live (Some (Sub_reserve _ _)) = True"
| "live (Some (Sub_items _ _)) = True"
| "live (Some (Sub_uploading _)) = True"
| "live (Some (Sub_provider _)) = True"
| "live (Some (Sub_update _ _ _)) = True"
| "live _ = False"

fun marking :: "work_phase option \<Rightarrow> bool" where
  "marking (Some (Work_settle (Settle_mark _ _))) = True"
| "marking _ = False"

text \<open>\<open>r\<close>, \<open>c\<close>, \<open>l\<close>: the hold of the job was reserved, captured, released.\<close>

definition row_ok :: "bool \<Rightarrow> bool \<Rightarrow> bool \<Rightarrow> batch_job \<Rightarrow> submit_phase option \<Rightarrow> work_phase option \<Rightarrow> bool" where
  "row_ok r c l j sp wp \<longleftrightarrow>
     (advanced_status (bj_status j) \<and> 0 < batch_hold_amount j \<longrightarrow> r) \<and>
     (c \<longleftrightarrow> paid_status (bj_status j) \<or> (bj_status j = Bat_settling \<and> marking wp)) \<and>
     (l \<longrightarrow> closed_status (bj_status j) \<or> settlement_retry_exhausted j \<or> (opening_status (bj_status j) \<and> \<not> live sp)) \<and>
     (\<not> paid_status (bj_status j) \<longrightarrow> bj_manifest j = None)"

fun submit_ok :: "bool \<Rightarrow> bool \<Rightarrow> batch_job \<Rightarrow> submit_phase \<Rightarrow> bool" where
  "submit_ok r l j (Sub_create k ids) = False"
| "submit_ok r l j (Sub_reserve k ids) = (same_terms k j \<and> \<not> advanced_status (bj_status j) \<and> \<not> r \<and> \<not> l)"
| "submit_ok r l j (Sub_items k ids) = (same_terms k j \<and> \<not> advanced_status (bj_status j) \<and> (0 < batch_hold_amount j \<longrightarrow> r))"
| "submit_ok r l j (Sub_uploading k) = (same_terms k j \<and> \<not> advanced_status (bj_status j) \<and> (0 < batch_hold_amount j \<longrightarrow> r))"
| "submit_ok r l j (Sub_provider k) = (same_terms k j \<and> \<not> advanced_status (bj_status j) \<and> (0 < batch_hold_amount j \<longrightarrow> r))"
| "submit_ok r l j (Sub_update k name ref) =
     (same_terms k j \<and> \<not> advanced_status (bj_status j) \<and> (0 < batch_hold_amount j \<longrightarrow> r))"
| "submit_ok r l j (Sub_enqueue k) = same_terms k j"
| "submit_ok r l j (Sub_queue_failed k) = same_terms k j"
| "submit_ok r l j (Sub_release k ec) = (same_terms k j \<and> \<not> advanced_status (bj_status j))"
| "submit_ok r l j (Sub_record k ec) = (same_terms k j \<and> \<not> advanced_status (bj_status j))"

fun settle_ok :: "bool \<Rightarrow> batch_job \<Rightarrow> settle_phase \<Rightarrow> bool" where
  "settle_ok l j (Settle_read b) = (b = bj_id j)"
| "settle_ok l j (Settle_call k cost) = (same_terms k j \<and> bj_status j = Bat_settling \<and> \<not> l)"
| "settle_ok l j (Settle_mark k cost) = (same_terms k j \<and> bj_status j = Bat_settling \<and> \<not> l)"
| "settle_ok l j (Settle_record k ec) =
     (same_terms k j \<and> bj_status j = Bat_settling \<and> has_prefix ''SETTLEMENT_'' (trim_space ec))"
| "settle_ok l j (Settle_release k) = (same_terms k j \<and> settlement_retry_exhausted j)"
| "settle_ok l j (Settle_record_release k) = (same_terms k j \<and> settlement_retry_exhausted j)"
| "settle_ok l j (Settle_fail k) = (same_terms k j \<and> bj_status j = Bat_settling)"

definition before_settling :: "batch_status \<Rightarrow> bool" where
  "before_settling s \<longleftrightarrow> s \<noteq> Bat_settling \<and> \<not> paid_status s"

fun work_ok :: "bool \<Rightarrow> batch_job \<Rightarrow> work_phase \<Rightarrow> bool" where
  "work_ok l j (Work_read b) = (b = bj_id j)"
| "work_ok l j (Work_process b) = (b = bj_id j)"
| "work_ok l j (Work_get k) = (same_terms k j \<and> before_settling (bj_status j))"
| "work_ok l j (Work_ref k st) = (same_terms k j \<and> before_settling (bj_status j))"
| "work_ok l j (Work_state k st) = (same_terms k j \<and> before_settling (bj_status j))"
| "work_ok l j (Work_index k) = (same_terms k j \<and> before_settling (bj_status j))"
| "work_ok l j (Work_replace k ids s f) = (same_terms k j \<and> before_settling (bj_status j))"
| "work_ok l j (Work_index_failed k ec) = (same_terms k j \<and> before_settling (bj_status j))"
| "work_ok l j (Work_settling k) = (same_terms k j \<and> before_settling (bj_status j))"
| "work_ok l j (Work_release k) = (same_terms k j \<and> closed_status (bj_status j))"
| "work_ok l j (Work_settle p) = settle_ok l j p"

definition job_ok :: "billing_db \<Rightarrow> batch_job \<Rightarrow> submit_phase option \<Rightarrow> work_phase option \<Rightarrow> bool" where
  "job_ok bd j sp wp \<longleftrightarrow>
     row_ok (reserved bd j) (captured bd j) (released bd j) j sp wp \<and>
     (case sp of None \<Rightarrow> True | Some p \<Rightarrow> submit_ok (reserved bd j) (released bd j) j p) \<and>
     (case wp of None \<Rightarrow> True | Some p \<Rightarrow> work_ok (released bd j) j p)"

section \<open>Changes of one job\<close>

text \<open>What a job holds of the frozen balance of its user.\<close>

definition held :: "billing_db \<Rightarrow> batch_job \<Rightarrow> usd" where
  "held bd j = (if reserved bd j \<and> \<not> captured bd j \<and> \<not> released bd j then max 0 (batch_hold_amount j) else 0)"

definition job_claims :: "batch_job \<Rightarrow> (string \<times> int) set" where
  "job_claims j =
     {(hold_request_id (bj_id j), job_key j), (capture_request_id (bj_id j), job_key j), (release_request_id (bj_id j), job_key j)}"

definition local_change :: "batch_job \<Rightarrow> batch_job \<Rightarrow> batch_db \<Rightarrow> batch_db \<Rightarrow> bool" where
  "local_change j j' db db' \<longleftrightarrow>
     bt_jobs db' = map (\<lambda>k. if bj_id k = bj_id j then j' else k) (bt_jobs db) \<and> same_terms j j' \<and>
     (closed_status (bj_status j) \<longrightarrow> closed_status (bj_status j')) \<and>
     (bt_billing db' = bt_billing db \<or>
      (\<exists>key\<in>job_claims j. books key (bj_user j) (held (bt_billing db') j' - held (bt_billing db) j) (bt_billing db) (bt_billing db')))"

text \<open>The tables in which a job is looked up.\<close>

definition tables_ok :: "batch_db \<Rightarrow> bool" where
  "tables_ok db \<longleftrightarrow> distinct (map bj_id (bt_jobs db)) \<and> (\<forall>j\<in>set (bt_jobs db). terms_ok j) \<and> exact_users (bt_billing db)"

definition row_of :: "batch_job \<Rightarrow> batch_db \<Rightarrow> bool" where
  "row_of j db \<longleftrightarrow> tables_ok db \<and> j \<in> set (bt_jobs db)"

lemma same_id: "distinct (map f xs) \<Longrightarrow> x \<in> set xs \<Longrightarrow> y \<in> set xs \<Longrightarrow> f x = f y \<Longrightarrow> x = y"
  by (auto simp: distinct_map inj_on_def)

lemma get_job_row:
  assumes "row_of j db"
  shows "get_job (bj_id j) db = Some j"
proof -
  obtain k where k: "get_job (bj_id j) db = Some k"
    using assms by (cases "get_job (bj_id j) db") (auto simp: get_job_def row_of_def find_None_iff)
  then have "k \<in> set (bt_jobs db)" "bj_id k = bj_id j"
    by (auto simp: get_job_def find_Some_iff)
  with assms have "k = j" by (auto simp: row_of_def tables_ok_def intro: same_id)
  with k show ?thesis by simp
qed

lemma local_refl: "row_of j db \<Longrightarrow> local_change j j db db"
  by (auto simp: local_change_def row_of_def tables_ok_def intro!: map_idI [THEN sym] intro: same_id)

lemma local_row:
  assumes "row_of j db" "b = bj_id j" "same_terms j (f j)" "closed_status (bj_status j) \<Longrightarrow> closed_status (bj_status (f j))"
  shows "local_change j (f j) db (update_job b f db)"
  using assms
  by (auto simp: local_change_def update_job_def row_of_def tables_ok_def dest: same_id)

lemma local_billing:
  assumes "row_of j db" "bd' = bt_billing db \<or>
    (\<exists>key\<in>job_claims j. books key (bj_user j) (held bd' j - held (bt_billing db) j) (bt_billing db) bd')"
  shows "local_change j j db (db\<lparr>bt_billing := bd'\<rparr>)"
  using local_refl [OF assms(1)] assms(2) by (simp add: local_change_def)

lemma local_items: "local_change j j' db db' \<Longrightarrow> local_change j j' db (db'\<lparr>bt_items := x\<rparr>)"
  by (simp add: local_change_def)

text \<open>The ends of statements.\<close>

lemma statement_cases:
  assumes "statement fate db out = (res, db')"
  obtains (kept) e where "res = Inl e" "db' = db"
    | (ran) r where "out = Inr (r, db')" "res = Inr r \<or> res = Inl Batch_store_error \<and> fate = Tx_reply_lost"
  using assms by (cases fate; cases out) (auto simp: statement_def)

definition moved_row :: "instant \<Rightarrow> batch_status \<Rightarrow> string option \<Rightarrow> batch_job \<Rightarrow> batch_job" where
  "moved_row now dst ec j =
     j\<lparr>bj_status := dst, bj_updated := now, bj_error_code := (if dst = Bat_failed then ec else bj_error_code j)\<rparr>"

lemma moved_row_fields [simp]:
  "bj_id (moved_row now dst ec j) = bj_id j" "bj_status (moved_row now dst ec j) = dst"
  "bj_manifest (moved_row now dst ec j) = bj_manifest j"
  "batch_hold_amount (moved_row now dst ec j) = batch_hold_amount j" "same_terms j (moved_row now dst ec j)"
  "same_terms k (moved_row now dst ec j) = same_terms k j"
  by (simp_all add: moved_row_def batch_hold_amount_def same_terms_def split: option.split)

lemma move_then_cases:
  assumes "move_then an k dst ec after db = (x, db')" "row_of j db" "bj_id k = bj_id j"
  obtains (kept) e where "x = after (Some e)" "db' = db"
    | (ran) e where "can_transition (bj_status j) dst" "db' = update_job (bj_id j) (moved_row (an_now an) dst ec) db" "x = after e"
proof -
  let ?out = "transition (an_now an) (bj_id k) dst ec db"
  obtain res where st: "statement (an_fate an) db ?out = (res, db')"
    and x: "x = (case res of Inr _ \<Rightarrow> after None | Inl e \<Rightarrow> after (Some e))"
    using assms(1) by (auto simp: move_then_def split: prod.splits sum.splits)
  have out: "?out = Inr (r, d) \<Longrightarrow> can_transition (bj_status j) dst \<and> d = update_job (bj_id j) (moved_row (an_now an) dst ec) db" for r d
    using get_job_row [OF assms(2)] assms(3) by (auto simp: transition_def moved_row_def [abs_def] split: if_splits)
  from st show thesis
    by (cases rule: statement_cases) (use out x that in auto)
qed

section \<open>Calls on the hold\<close>

lemma same_terms_ok: "same_terms k j \<Longrightarrow> terms_ok j \<Longrightarrow> terms_ok k"
  by (simp add: same_terms_def terms_ok_def)

lemma books_flags:
  "books key uid d bd bd' \<Longrightarrow> reserved bd' j \<longleftrightarrow> reserved bd j \<or> (hold_request_id (bj_id j), job_key j) = key"
  "books key uid d bd bd' \<Longrightarrow> captured bd' j \<longleftrightarrow> captured bd j \<or> (capture_request_id (bj_id j), job_key j) = key"
  "books key uid d bd bd' \<Longrightarrow> released bd' j \<longleftrightarrow> released bd j \<or> (release_request_id (bj_id j), job_key j) = key"
  by (auto simp: books_def reserved_def captured_def released_def)

lemma row_facts:
  assumes "row_of j db" "same_terms k j"
  shows "terms_ok k" "exact_users (bt_billing db)" "bj_id k = bj_id j" "bj_user k = bj_user j" "job_key k = job_key j"
    "batch_hold_amount k = batch_hold_amount j" "deref_string None = []"
  using assms by (auto simp: row_of_def tables_ok_def same_terms_def job_key_def deref_string_def intro: same_terms_ok)

lemma reserve_local:
  assumes "on_billing (reserve_balance_hold sha fate k hash) db = (e, db')" "row_of j db" "same_terms k j"
    and "\<not> captured (bt_billing db) j" "\<not> released (bt_billing db) j"
  shows "local_change j j db db' \<and> \<not> captured (bt_billing db') j \<and> \<not> released (bt_billing db') j \<and>
    (reserved (bt_billing db) j \<longrightarrow> reserved (bt_billing db') j) \<and> (e = None \<and> 0 < batch_hold_amount j \<longrightarrow> reserved (bt_billing db') j)"
proof -
  obtain bd' where call: "reserve_balance_hold sha fate k hash (bt_billing db) = (e, bd')" and db': "db' = db\<lparr>bt_billing := bd'\<rparr>"
    using assms(1) by (auto simp: on_billing_def split: prod.splits)
  note f = row_facts [OF assms(2,3)]
  let ?key = "(hold_request_id (bj_id j), job_key j)"
  from reserve_books [OF call f(1,2)] f(3-6) have
    b: "bd' = bt_billing db \<or> (0 < batch_hold_amount j \<and> books ?key (bj_user j) (batch_hold_amount j) (bt_billing db) bd')"
    and e: "e = None \<and> 0 < batch_hold_amount j \<longrightarrow> reserved bd' j"
    by (auto simp: reserved_def)
  have "books ?key (bj_user j) (held bd' j - held (bt_billing db) j) (bt_billing db) bd'" if "bd' \<noteq> bt_billing db"
  proof -
    from that b have h: "0 < batch_hold_amount j" "books ?key (bj_user j) (batch_hold_amount j) (bt_billing db) bd'" by auto
    moreover have "\<not> reserved (bt_billing db) j" using h(2) by (simp add: books_def reserved_def)
    ultimately show ?thesis using books_flags [OF h(2), of j] assms(4,5) by (simp add: held_def)
  qed
  then have "local_change j j db db'"
    unfolding db' by (intro local_billing [OF assms(2)]) (auto simp: job_claims_def)
  with b e assms(4,5) show ?thesis by (auto simp: db' books_flags)
qed

lemma capture_local:
  assumes "on_billing (capture_balance_hold sha fate k cost hash) db = (e, db')" "row_of j db" "same_terms k j"
    and "0 < batch_hold_amount j \<Longrightarrow> reserved (bt_billing db) j" "\<not> released (bt_billing db) j" "\<not> captured (bt_billing db) j"
  shows "local_change j j db db' \<and> \<not> released (bt_billing db') j \<and> (reserved (bt_billing db') j \<longleftrightarrow> reserved (bt_billing db) j) \<and>
    (e = None \<longrightarrow> captured (bt_billing db') j) \<and> (e \<noteq> None \<and> fate \<noteq> Tx_reply_lost \<longrightarrow> db' = db)"
proof -
  obtain bd' where call: "capture_balance_hold sha fate k cost hash (bt_billing db) = (e, bd')" and db': "db' = db\<lparr>bt_billing := bd'\<rparr>"
    using assms(1) by (auto simp: on_billing_def split: prod.splits)
  note f = row_facts [OF assms(2,3)]
  let ?key = "(capture_request_id (bj_id j), job_key j)"
  from capture_books [OF call f(1,2)] f(3-6) have
    b: "bd' = bt_billing db \<or> books ?key (bj_user j) (- max 0 (batch_hold_amount j)) (bt_billing db) bd'"
    and e: "(e = None \<longrightarrow> captured bd' j) \<and> (e \<noteq> None \<and> fate \<noteq> Tx_reply_lost \<longrightarrow> bd' = bt_billing db)"
    by (auto simp: captured_def)
  have "books ?key (bj_user j) (held bd' j - held (bt_billing db) j) (bt_billing db) bd'" if "bd' \<noteq> bt_billing db"
  proof -
    from that b have h: "books ?key (bj_user j) (- max 0 (batch_hold_amount j)) (bt_billing db) bd'" by auto
    moreover have "held bd' j - held (bt_billing db) j = - max 0 (batch_hold_amount j)"
      using books_flags [OF h, of j] assms(4-6) by (cases "0 < batch_hold_amount j") (auto simp: held_def max_def)
    ultimately show ?thesis by simp
  qed
  then have "local_change j j db db'"
    unfolding db' by (intro local_billing [OF assms(2)]) (auto simp: job_claims_def)
  with b e assms(5) show ?thesis by (auto simp: db' books_flags)
qed

lemma release_local:
  assumes "on_billing (release_balance_hold sha fate k hash) db = (e, db')" "row_of j db" "same_terms k j" "\<not> captured (bt_billing db) j"
  shows "local_change j j db db' \<and> \<not> captured (bt_billing db') j \<and> (reserved (bt_billing db') j \<longleftrightarrow> reserved (bt_billing db) j)"
proof -
  obtain bd' where call: "release_balance_hold sha fate k hash (bt_billing db) = (e, bd')" and db': "db' = db\<lparr>bt_billing := bd'\<rparr>"
    using assms(1) by (auto simp: on_billing_def split: prod.splits)
  note f = row_facts [OF assms(2,3)]
  let ?key = "(release_request_id (bj_id j), job_key j)" and ?d = "if reserved (bt_billing db) j then - batch_hold_amount j else 0"
  from release_books [OF call f(1,2)] f(3-6) same_terms_flags(1) [OF assms(3)]
  have b: "bd' = bt_billing db \<or> (0 < batch_hold_amount j \<and> books ?key (bj_user j) ?d (bt_billing db) bd')"
    by auto
  have "books ?key (bj_user j) (held bd' j - held (bt_billing db) j) (bt_billing db) bd'" if "bd' \<noteq> bt_billing db"
  proof -
    from that b have h: "0 < batch_hold_amount j" "books ?key (bj_user j) ?d (bt_billing db) bd'" by auto
    moreover have "\<not> released (bt_billing db) j" using h(2) by (simp add: books_def released_def)
    moreover have "held bd' j - held (bt_billing db) j = ?d"
      using books_flags [OF h(2), of j] h(1) assms(4) calculation by (auto simp: held_def)
    ultimately show ?thesis by simp
  qed
  then have "local_change j j db db'"
    unfolding db' by (intro local_billing [OF assms(2)]) (auto simp: job_claims_def)
  with b assms(4) show ?thesis by (auto simp: db' books_flags)
qed


section \<open>Submit\<close>

fun submit_call_ok :: "batch_status \<Rightarrow> submit_phase \<Rightarrow> bool" where
  "submit_call_ok st (Sub_queue_failed k) = (st \<noteq> Bat_settling)"
| "submit_call_ok st p = True"

lemma quiet_change:
  "row_of j db \<Longrightarrow> job_ok (bt_billing db) j sp wp \<Longrightarrow> \<exists>j'. local_change j j' db db \<and> job_ok (bt_billing db) j' sp wp"
  using local_refl by blast

lemma row_change:
  assumes "row_of j db" "same_terms j (f j)" "closed_status (bj_status j) \<Longrightarrow> closed_status (bj_status (f j))"
    and "b = bj_id j" "job_ok (bt_billing db) (f j) sp wp"
  shows "\<exists>j'. local_change j j' db (update_job b f db) \<and> job_ok (bt_billing (update_job b f db)) j' sp wp"
  using local_row [of j db b f, OF assms(1,4,2,3)] assms(5) by (auto simp: update_job_def)

lemma job_ok_row:
  "same_terms j j' \<Longrightarrow> job_ok bd j' sp wp \<longleftrightarrow>
     row_ok (reserved bd j) (captured bd j) (released bd j) j' sp wp \<and>
     (case sp of None \<Rightarrow> True | Some p \<Rightarrow> submit_ok (reserved bd j) (released bd j) j' p) \<and>
     (case wp of None \<Rightarrow> True | Some p \<Rightarrow> work_ok (released bd j) j' p)"
  by (simp add: job_ok_def same_terms_flags [of j j'] split: option.split)

definition failed_row :: "instant \<Rightarrow> string \<Rightarrow> bool \<Rightarrow> batch_job \<Rightarrow> batch_job" where
  "failed_row now ec mark_failed j =
     j\<lparr>bj_status := (if mark_failed then Bat_failed else bj_status j), bj_error_code := Some ec, bj_updated := now\<rparr>"

lemma failed_row_fields [simp]:
  "bj_id (failed_row now ec m j) = bj_id j" "bj_status (failed_row now ec m j) = (if m then Bat_failed else bj_status j)"
  "bj_manifest (failed_row now ec m j) = bj_manifest j"
  "batch_hold_amount (failed_row now ec m j) = batch_hold_amount j" "same_terms j (failed_row now ec m j)"
  "same_terms k (failed_row now ec m j) = same_terms k j"
  by (simp_all add: failed_row_def batch_hold_amount_def same_terms_def split: option.split)

lemma record_cases:
  assumes "(None, snd (statement fate db (record_submit_failure now b ec m db))) = (q, db')"
  shows "q = None \<and> (db' = db \<or> db' = update_job b (failed_row now ec m) db)"
  using assms by (cases fate) (auto simp: statement_def record_submit_failure_def failed_row_def [abs_def])

text \<open>A move of a row to a status, and the phases that stay good for it.\<close>

lemma unexhausted: "bj_status j \<noteq> Bat_settling \<Longrightarrow> \<not> settlement_retry_exhausted j"
  by (simp add: settlement_retry_exhausted_def)

lemma work_ok_closed:
  "work_ok l j p \<Longrightarrow> bj_status j \<noteq> Bat_settling \<Longrightarrow> same_terms j j' \<Longrightarrow> closed_status (bj_status j') \<Longrightarrow> work_ok l' j' p"
  by (cases "(l, j, p)" rule: work_ok.cases; cases "(l, j, case p of Work_settle q \<Rightarrow> q | _ \<Rightarrow> Settle_read [])" rule: settle_ok.cases)
    (auto simp: before_settling_def status_defs same_terms_def settlement_retry_exhausted_def)


lemma work_ok_flag: "bj_status j \<noteq> Bat_settling \<Longrightarrow> work_ok l j p = work_ok l' j p"
  by (cases "(l, j, p)" rule: work_ok.cases; cases "(l, j, case p of Work_settle q \<Rightarrow> q | _ \<Rightarrow> Settle_read [])" rule: settle_ok.cases)
    auto

definition at_work :: "batch_job \<Rightarrow> work_phase option \<Rightarrow> bool" where
  "at_work j wp \<longleftrightarrow> (case wp of None \<Rightarrow> True | Some p \<Rightarrow> work_ok True j p)"

definition at_submit :: "billing_db \<Rightarrow> batch_job \<Rightarrow> submit_phase option \<Rightarrow> bool" where
  "at_submit bd j sp \<longleftrightarrow> (case sp of None \<Rightarrow> True | Some p \<Rightarrow> submit_ok (reserved bd j) (released bd j) j p)"

lemma at_submit_None [simp]: "at_submit bd j None"
  by (simp add: at_submit_def)

lemma at_submit_Some [simp]: "at_submit bd j (Some p) = submit_ok (reserved bd j) (released bd j) j p"
  by (simp add: at_submit_def)

lemma unsettled_iff:
  assumes "before_settling (bj_status j)"
  shows "job_ok bd j sp wp \<longleftrightarrow> (advanced_status (bj_status j) \<and> 0 < batch_hold_amount j \<longrightarrow> reserved bd j) \<and>
    \<not> captured bd j \<and> bj_manifest j = None \<and>
    (released bd j \<longrightarrow> closed_status (bj_status j) \<or> (opening_status (bj_status j) \<and> \<not> live sp)) \<and> at_submit bd j sp \<and> at_work j wp"
proof -
  have s: "bj_status j \<noteq> Bat_settling" "\<not> paid_status (bj_status j)"
    using assms by (auto simp: before_settling_def)
  have "(case wp of None \<Rightarrow> True | Some p \<Rightarrow> work_ok (released bd j) j p) = at_work j wp"
    using work_ok_flag [OF s(1)] by (auto simp: at_work_def split: option.split)
  with s show ?thesis by (auto simp: job_ok_def row_ok_def unexhausted at_submit_def)
qed

lemma unsubmitted_before [simp]: "\<not> advanced_status s \<Longrightarrow> before_settling s"
  by (cases s) (auto simp: before_settling_def status_defs)

lemma unsubmitted_iff:
  assumes "\<not> advanced_status (bj_status j)"
  shows "job_ok bd j sp wp \<longleftrightarrow> \<not> captured bd j \<and> bj_manifest j = None \<and>
    (released bd j \<longrightarrow> closed_status (bj_status j) \<or> \<not> live sp) \<and> at_submit bd j sp \<and> at_work j wp"
  using assms by (auto simp: unsettled_iff [OF unsubmitted_before] advanced_status_def)

lemma at_work_move:
  "at_work j wp \<Longrightarrow> before_settling (bj_status j) \<Longrightarrow> same_terms j j' \<Longrightarrow> before_settling (bj_status j') \<Longrightarrow>
   (closed_status (bj_status j) \<Longrightarrow> closed_status (bj_status j')) \<Longrightarrow> at_work j' wp"
  unfolding at_work_def
  by (cases wp; cases "(True, j, the wp)" rule: work_ok.cases;
      cases "(True, j, case the wp of Work_settle q \<Rightarrow> q | _ \<Rightarrow> Settle_read [])" rule: settle_ok.cases)
    (auto simp: before_settling_def same_terms_def settlement_retry_exhausted_def)

text \<open>Rows that differ in other columns have the same claims.\<close>

lemma row_flags [simp]:
  "reserved bd (moved_row now dst ec j) = reserved bd j" "captured bd (moved_row now dst ec j) = captured bd j"
  "released bd (moved_row now dst ec j) = released bd j" "reserved bd (failed_row now c m j) = reserved bd j"
  "captured bd (failed_row now c m j) = captured bd j" "released bd (failed_row now c m j) = released bd j"
  by (simp_all add: reserved_def captured_def released_def job_key_def moved_row_def failed_row_def)

text \<open>Other columns of a row, and the next phase of a handler.\<close>

definition same_row :: "batch_job \<Rightarrow> batch_job \<Rightarrow> bool" where
  "same_row j j' \<longleftrightarrow> same_terms j j' \<and> bj_status j' = bj_status j \<and> bj_manifest j' = bj_manifest j \<and>
     (settlement_retry_exhausted j \<longrightarrow> settlement_retry_exhausted j')"

lemma same_row_amount: "same_row j j' \<Longrightarrow> batch_hold_amount j' = batch_hold_amount j"
  by (simp add: same_row_def same_terms_def)

lemma same_row_terms: "same_row j j' \<Longrightarrow> same_terms k j' = same_terms k j"
  by (auto simp: same_row_def same_terms_def)

lemma same_row_submit: "same_row j j' \<Longrightarrow> submit_ok r l j p \<Longrightarrow> submit_ok r l j' p"
  by (cases p) (auto simp: same_row_terms same_row_amount, auto simp: same_row_def)

lemma same_row_work: "same_row j j' \<Longrightarrow> work_ok l j p \<Longrightarrow> work_ok l j' p"
  by (cases "(l, j, p)" rule: work_ok.cases; cases "(l, j, case p of Work_settle q \<Rightarrow> q | _ \<Rightarrow> Settle_read [])" rule: settle_ok.cases)
    (auto simp: same_row_terms, auto simp: same_row_def same_terms_def)

lemma same_row_job:
  assumes "same_row j j'" "job_ok bd j sp wp"
  shows "job_ok bd j' sp wp"
proof -
  have "same_terms j j'" using assms(1) by (simp add: same_row_def)
  from job_ok_row [OF this, of bd sp wp] assms same_row_submit [OF assms(1)] same_row_work [OF assms(1)] same_row_amount [OF assms(1)]
  show ?thesis by (auto simp: job_ok_def row_ok_def same_row_def split: option.splits)
qed

lemma submit_phase_change:
  "job_ok bd j sp wp \<Longrightarrow> (live sp' \<Longrightarrow> live sp) \<Longrightarrow> at_submit bd j sp' \<Longrightarrow> job_ok bd j sp' wp"
  by (auto simp: job_ok_def row_ok_def at_submit_def)

lemma work_phase_change:
  "job_ok bd j sp wp \<Longrightarrow> marking wp' = marking wp \<Longrightarrow> (\<And>p. wp' = Some p \<Longrightarrow> work_ok (released bd j) j p) \<Longrightarrow> job_ok bd j sp wp'"
  by (auto simp: job_ok_def row_ok_def split: option.splits)

lemma queue_failed_row: "bj_status j \<noteq> Bat_settling \<Longrightarrow> same_row j (failed_row now ec False j)"
  by (simp add: same_row_def unexhausted)

lemma release_then_local:
  assumes "release_then sha an k good bad db = (q, db')"
  shows "row_of j db \<Longrightarrow> same_terms k j \<Longrightarrow> \<not> captured (bt_billing db) j \<Longrightarrow> local_change j j db db' \<and>
      \<not> captured (bt_billing db') j \<and> (reserved (bt_billing db') j \<longleftrightarrow> reserved (bt_billing db) j)"
    and "q = good \<or> q = bad"
  using assms release_local by (fastforce simp: release_then_def split: prod.splits option.splits)+

lemma submit_call_local:
  assumes "submit_call sha an p db = (q, db')" "row_of j db" "job_ok (bt_billing db) j (Some p) wp" "submit_call_ok (bj_status j) p"
  shows "\<exists>j'. local_change j j' db db' \<and> job_ok (bt_billing db') j' q wp"
proof -
  consider (unsubmitted) "\<not> advanced_status (bj_status j)" "\<forall>k. p \<noteq> Sub_enqueue k \<and> p \<noteq> Sub_queue_failed k" | (enqueue) k where "p = Sub_enqueue k \<or> p = Sub_queue_failed k"
    using assms(3) by (cases p) (auto simp: job_ok_def)
  then show ?thesis
  proof cases
    case u: unsubmitted
    note unsubmitted = u(1) and ok = assms(3) [unfolded unsubmitted_iff [OF u(1)]]
    show ?thesis
    proof (cases p)
      case (Sub_create k ids)
      with ok show ?thesis by simp
    next
      case (Sub_reserve k ids)
      obtain e where call: "on_billing (reserve_balance_hold sha (an_fate an) k (deref_string (bj_request_hash k))) db = (e, db')"
        and q: "q = Some (case e of None \<Rightarrow> Sub_items k ids | Some e \<Rightarrow>
          Sub_record k (if e = Batch_insufficient then ''INSUFFICIENT_BALANCE'' else ''BILLING_HOLD_FAILED''))"
        using assms(1) Sub_reserve by (auto split: prod.splits option.splits)
      have "same_terms k j" "\<not> captured (bt_billing db) j" "\<not> released (bt_billing db) j" using ok Sub_reserve by auto
      from reserve_local [OF call assms(2) this] unsubmitted ok Sub_reserve
      have "local_change j j db db'" "job_ok (bt_billing db') j q wp"
        by (auto simp: unsubmitted_iff q split: option.split)
      then show ?thesis by blast
    next
      case (Sub_items k ids)
      from assms(1) Sub_items have "(\<exists>x. db' = db\<lparr>bt_items := x\<rparr> \<and> q = Some (Sub_uploading k)) \<or>
         (\<exists>x ec. (db' = db \<or> db' = db\<lparr>bt_items := x\<rparr>) \<and> q = Some (Sub_release k ec))"
        by (cases "an_fate an") (auto simp: statement_def create_items_def)
      then have "local_change j j db db' \<and> job_ok (bt_billing db') j q wp"
        using Sub_items local_refl [OF assms(2)] unsubmitted ok
        by (elim disjE exE conjE) (simp_all add: unsubmitted_iff local_items)
      then show ?thesis by blast
    next
      case (Sub_uploading k)
      from assms(1) Sub_uploading have mv: "move_then an k Bat_uploading None (\<lambda>e. Some (case e of
              None \<Rightarrow> Sub_provider (k\<lparr>bj_status := Bat_uploading\<rparr>)
            | Some e \<Rightarrow> Sub_release k (if e = Invalid_transition then None else Some ''UPLOAD_TRANSITION_FAILED''))) db = (q, db')"
        by simp
      have id: "bj_id k = bj_id j" using ok Sub_uploading by (simp add: same_terms_id)
      have upl: "same_terms (k\<lparr>bj_status := Bat_uploading\<rparr>) j = same_terms k j"
        by (simp add: same_terms_def batch_hold_amount_def split: option.split)
      from mv assms(2) id show ?thesis
      proof (cases rule: move_then_cases)
        case (kept e)
        with ok Sub_uploading unsubmitted local_refl [OF assms(2)] show ?thesis by (auto simp: unsubmitted_iff)
      next
        case (ran e)
        then have s: "bj_status j = Bat_created" by (cases "bj_status j") (auto simp: can_transition_def is_terminal_batch_def)
        let ?f = "moved_row (an_now an) Bat_uploading None"
        have "at_work (?f j) wp"
          using ok s by (intro at_work_move [of j wp "?f j"]) (auto simp: before_settling_def status_defs)
        with ran ok Sub_uploading s have "job_ok (bt_billing db) (?f j) q wp"
          by (cases e) (simp_all add: unsubmitted_iff status_defs upl)
        with ran row_change [OF assms(2), of ?f] s show ?thesis by (simp add: status_defs)
      qed
    next
      case (Sub_provider k)
      with assms(1) have "db' = db" "\<exists>n r ec. q = Some (Sub_release k ec) \<or> q = Some (Sub_update k n r)"
        by (auto split: option.splits if_splits)
      with Sub_provider unsubmitted ok have "job_ok (bt_billing db') j q wp"
        by (auto simp: unsubmitted_iff)
      with local_refl [OF assms(2)] \<open>db' = db\<close> show ?thesis by blast
    next
      case (Sub_update k name ref)
      let ?f = "\<lambda>j. j\<lparr>bj_status := Bat_submitted, bj_provider_job := Some name,
                 bj_output_ref := (if ref = [] then None else Some ref), bj_updated := an_now an\<rparr>"
      have id: "bj_id k = bj_id j" using ok Sub_update by (simp add: same_terms_id)
      obtain res where st: "statement (an_fate an) db (update_provider_submit (an_now an) (bj_id k) name ref db) = (res, db')"
        and q: "q = None \<or> q = Some (Sub_enqueue k)"
        using assms(1) Sub_update by (auto split: prod.splits sum.splits)
      have out: "can_transition (bj_status j) Bat_submitted \<and> d = update_job (bj_id j) ?f db"
        if "update_provider_submit (an_now an) (bj_id k) name ref db = Inr (r, d)" for r d
        using that get_job_row [OF assms(2)] id by (auto simp: update_provider_submit_def split: if_splits)
      have t: "same_terms j (?f j)" by (simp add: same_terms_def batch_hold_amount_def split: option.split)
      from st show ?thesis
      proof (cases rule: statement_cases)
        case (kept e)
        with assms(1) Sub_update have "q = None" by (auto simp: st split: sum.splits)
        with kept ok unsubmitted local_refl [OF assms(2)] show ?thesis by (auto simp: unsubmitted_iff)
      next
        case (ran r)
        note out [OF ran(1)]
        then have s: "opening_status (bj_status j)" and db': "db' = update_job (bj_id j) ?f db"
          by (cases "bj_status j"; auto simp: can_transition_def is_terminal_batch_def status_defs)+
        have w: "at_work (?f j) wp"
          using ok s t by (intro at_work_move [of j wp "?f j"]) (auto simp: before_settling_def status_defs)
        have r: "\<not> released (bt_billing db) j" "0 < batch_hold_amount j \<longrightarrow> reserved (bt_billing db) j"
          using ok Sub_update s by (auto simp: status_defs)
        have a: "batch_hold_amount (?f j) = batch_hold_amount j" using t by (simp add: same_terms_def)
        have k: "same_terms k (?f j)" using ok Sub_update t by (auto intro: same_terms_trans)
        have "job_ok (bt_billing db) (?f j) q wp"
          using ok r w q k a by (auto simp: unsettled_iff before_settling_def status_defs same_terms_flags [OF t, symmetric])
        moreover have "\<not> closed_status (bj_status j)" using s by (auto simp: status_defs)
        ultimately show ?thesis
          unfolding db' using row_change [where f = ?f, OF assms(2) t _ refl] by blast
      qed
    next
      case (Sub_release k ec)
      have q: "q = None \<or> (\<exists>ec. q = Some (Sub_record k ec))"
        using assms(1) Sub_release release_then_local(2) [of sha an k _ _ db q db'] by (cases ec) auto
      have "same_terms k j" "\<not> captured (bt_billing db) j" using ok Sub_release by auto
      with release_then_local(1) [of sha an k _ _ db q db' j] assms(1,2) Sub_release
      have "local_change j j db db' \<and> \<not> captured (bt_billing db') j \<and> (reserved (bt_billing db') j \<longleftrightarrow> reserved (bt_billing db) j)"
        by simp
      with unsubmitted ok q Sub_release
      have "local_change j j db db' \<and> job_ok (bt_billing db') j q wp"
        by (auto simp: unsubmitted_iff)
      then show ?thesis by blast
    next
      case (Sub_record k ec)
      have id: "bj_id k = bj_id j" using ok Sub_record by (simp add: same_terms_id)
      let ?f = "failed_row (an_now an) ec True"
      have "at_work (?f j) wp"
        using ok unsubmitted by (intro at_work_move [of j wp "?f j"]) (auto simp: before_settling_def status_defs)
      with ok have "job_ok (bt_billing db) (?f j) None wp" "job_ok (bt_billing db) j None wp"
        using unsubmitted by (auto simp: unsubmitted_iff status_defs)
      with record_cases [of "an_fate an" db "an_now an" "bj_id k" ec True q db'] assms(1) Sub_record id
        quiet_change [OF assms(2)] row_change [OF assms(2), of ?f]
      show ?thesis by (auto simp: status_defs)
    qed (use u(2) in auto)
  next
    case (enqueue k)
    have none: "job_ok (bt_billing db) j None wp" using assms(3) by (rule submit_phase_change) simp_all
    from enqueue show ?thesis
    proof
      assume p: "p = Sub_enqueue k"
      with assms(1) have "db' = db" "q = None \<or> q = Some (Sub_queue_failed k)" by (auto split: if_splits)
      moreover have "job_ok (bt_billing db) j (Some (Sub_queue_failed k)) wp"
        using assms(3) p by (intro submit_phase_change [OF assms(3)]) (simp_all add: job_ok_def)
      ultimately show ?thesis using none quiet_change [OF assms(2)] by auto
    next
      assume p: "p = Sub_queue_failed k"
      let ?f = "failed_row (an_now an) ''QUEUE_FAILED'' False"
      have id: "bj_id k = bj_id j" using assms(3) p by (simp add: job_ok_def same_terms_id)
      have "job_ok (bt_billing db) (?f j) None wp"
        using assms(4) p by (intro same_row_job [OF queue_failed_row none]) simp
      with record_cases [of "an_fate an" db "an_now an" "bj_id k" "''QUEUE_FAILED''" False q db'] assms(1) p id none
        quiet_change [OF assms(2)] row_change [OF assms(2), of ?f]
      show ?thesis by auto
    qed
  qed
qed


section \<open>Settlement\<close>

fun settle_call_ok :: "tx_fate \<Rightarrow> settle_phase \<Rightarrow> bool" where
  "settle_call_ok fate (Settle_call k cost) = (fate \<noteq> Tx_reply_lost)"
| "settle_call_ok fate (Settle_mark k cost) = (fate = Tx_committed)"
| "settle_call_ok fate p = True"

lemma advanced_submit:
  assumes "at_submit bd j sp" "advanced_status (bj_status j)"
  shows "\<not> live sp" "same_terms j j' \<Longrightarrow> at_submit bd' j' sp"
  using assms by (cases sp; cases "the sp"; auto simp: same_terms_def)+

definition at_settle :: "billing_db \<Rightarrow> batch_job \<Rightarrow> work_phase option \<Rightarrow> bool" where
  "at_settle bd j wp \<longleftrightarrow> (case wp of None \<Rightarrow> True | Some p \<Rightarrow> work_ok (released bd j) j p)"

lemma at_settle_simps [simp]:
  "at_settle bd j None" "at_settle bd j (Some p) = work_ok (released bd j) j p"
  by (simp_all add: at_settle_def)

lemma settling_iff:
  assumes "bj_status j = Bat_settling"
  shows "job_ok bd j sp wp \<longleftrightarrow>
    (0 < batch_hold_amount j \<longrightarrow> reserved bd j) \<and> (captured bd j \<longleftrightarrow> marking wp) \<and>
    (released bd j \<longrightarrow> settlement_retry_exhausted j) \<and> bj_manifest j = None \<and> at_submit bd j sp \<and> at_settle bd j wp"
  using assms by (auto simp: job_ok_def row_ok_def status_defs at_submit_def at_settle_def split: option.splits)

lemma paid_iff:
  assumes "paid_status (bj_status j)"
  shows "job_ok bd j sp None \<longleftrightarrow> (0 < batch_hold_amount j \<longrightarrow> reserved bd j) \<and> captured bd j \<and> \<not> released bd j \<and> at_submit bd j sp"
proof -
  have "bj_status j \<noteq> Bat_settling" "\<not> closed_status (bj_status j)" "\<not> opening_status (bj_status j)" "advanced_status (bj_status j)"
    using assms by (auto simp: status_defs)
  with assms show ?thesis by (auto simp: job_ok_def row_ok_def at_submit_def unexhausted)
qed

lemma settlement_codes [simp]:
  "has_prefix ''SETTLEMENT_'' (trim_space ''SETTLEMENT_INVALID_COUNTS'')"
  "has_prefix ''SETTLEMENT_'' (trim_space ''SETTLEMENT_MANIFEST_CONFLICT'')"
  "has_prefix ''SETTLEMENT_'' (trim_space ''SETTLEMENT_PRICING_MISSING'')"
  "has_prefix ''SETTLEMENT_'' (trim_space ''SETTLEMENT_COST_EXCEEDS_HOLD'')"
  "has_prefix ''SETTLEMENT_'' (trim_space ''SETTLEMENT_BILLING_FAILED'')"
  "has_prefix ''SETTLEMENT_'' (trim_space ''SETTLEMENT_RELEASE_FAILED'')"
  by (simp_all add: trim_space_def strip_left.simps strip_one_def utf8_spaces_code has_prefix_def)

lemma settle_decision_cases:
  "settle_decision sha price j = Settle_exhausted \<Longrightarrow> settlement_retry_exhausted j"
  "settle_decision sha price j = Settle_failure ec e \<Longrightarrow> bj_status j = Bat_settling \<and> has_prefix ''SETTLEMENT_'' (trim_space ec)"
  "settle_decision sha price j = Settle_capture cost \<Longrightarrow> bj_status j = Bat_settling \<and> \<not> settlement_retry_exhausted j"
  by (auto simp: settle_decision_def split: if_splits option.splits)

definition retried_row :: "instant \<Rightarrow> string \<Rightarrow> batch_job \<Rightarrow> batch_job" where
  "retried_row now ec j = j\<lparr>bj_error_code := Some ec, bj_retry := bj_retry j + 1, bj_updated := now\<rparr>"

lemma retried_row_fields [simp]:
  "bj_id (retried_row now ec j) = bj_id j" "bj_status (retried_row now ec j) = bj_status j" "same_terms j (retried_row now ec j)"
  by (simp_all add: retried_row_def same_terms_def batch_hold_amount_def split: option.split)

lemma retried_row_same:
  "has_prefix ''SETTLEMENT_'' (trim_space ec) \<Longrightarrow> same_row j (retried_row now ec j)"
  "has_prefix ''SETTLEMENT_'' (trim_space ec) \<Longrightarrow> bj_status j = Bat_settling \<Longrightarrow> settlement_max_retries \<le> bj_retry j + 1 \<Longrightarrow>
     settlement_retry_exhausted (retried_row now ec j)"
  by (auto simp: same_row_def settlement_retry_exhausted_def deref_string_def)
    (auto simp: retried_row_def same_terms_def batch_hold_amount_def split: option.split)

lemma retry_cases:
  assumes "statement fate db (set_settlement_failed now b ec db) = (res, db')" "row_of j db" "b = bj_id j"
  obtains (kept) e where "res = Inl e" "db' = db"
    | (ran) "db' = update_job (bj_id j) (retried_row now ec) db" "res = Inr (bj_retry j + 1) \<or> (\<exists>e. res = Inl e)"
  using assms(1)
proof (cases rule: statement_cases)
  case (ran r)
  with that(2) get_job_row [OF assms(2)] assms(3) show thesis
    by (auto simp: set_settlement_failed_def retried_row_def [abs_def])
qed (rule that(1))

lemma settle_call_local:
  assumes "settle_call sha an p db = (q, db')" "row_of j db" "job_ok (bt_billing db) j sp (Some (Work_settle p))"
    and "settle_call_ok (an_fate an) p"
  shows "\<exists>j'. local_change j j' db db' \<and> job_ok (bt_billing db') j' sp (map_option Work_settle q)"
proof (cases "\<exists>b. p = Settle_read b")
  case True
  then obtain b where p: "p = Settle_read b" by blast
  with assms(3) have "b = bj_id j" by (simp add: job_ok_def)
  with assms(1) p get_job_row [OF assms(2)] have db': "db' = db" and q: "q = (case settle_decision sha (an_price an) j of
             Settle_exhausted \<Rightarrow> Some (Settle_release j)
           | Settle_failure ec e \<Rightarrow> Some (Settle_record j ec)
           | Settle_capture cost \<Rightarrow> Some (Settle_call j cost)
           | _ \<Rightarrow> None)"
    by auto
  have l: "bj_status j = Bat_settling \<Longrightarrow> \<not> settlement_retry_exhausted j \<Longrightarrow> \<not> released (bt_billing db) j"
    using assms(3) by (auto simp: job_ok_def row_ok_def status_defs)
  have "job_ok (bt_billing db) j sp (map_option Work_settle q)"
    using settle_decision_cases [of sha "an_price an" j] l p q
    by (intro work_phase_change [OF assms(3)]) (auto split: settle_plan.splits)
  with db' quiet_change [OF assms(2)] show ?thesis by simp
next
  case False
  then have st: "bj_status j = Bat_settling"
    using assms(3) by (cases p) (auto simp: job_ok_def settlement_retry_exhausted_def)
  note ok = assms(3) [unfolded settling_iff [OF st]]
  show ?thesis
  proof (cases p)
    case (Settle_read b)
    with False show ?thesis by blast
  next
    case (Settle_call k cost)
    obtain e where call: "on_billing (capture_balance_hold sha (an_fate an) k cost (manifest_hash_of sha k)) db = (e, db')"
      and q: "q = Some (case e of None \<Rightarrow> Settle_mark k cost | Some e \<Rightarrow> Settle_record k ''SETTLEMENT_BILLING_FAILED'')"
      using assms(1) Settle_call by (auto split: prod.splits option.splits)
    have l: "local_change j j db db' \<and> \<not> released (bt_billing db') j \<and> (reserved (bt_billing db') j \<longleftrightarrow> reserved (bt_billing db) j) \<and>
      (e = None \<longrightarrow> captured (bt_billing db') j) \<and> (e \<noteq> None \<longrightarrow> db' = db)"
      using capture_local [OF call assms(2)] ok Settle_call assms(4) by auto
    moreover have "at_submit (bt_billing db') j sp"
      by (rule advanced_submit(2) [of "bt_billing db" j]) (use ok st in \<open>simp_all add: status_defs\<close>)
    ultimately have "job_ok (bt_billing db') j sp (map_option Work_settle q)"
      using ok q Settle_call st by (cases e) (auto simp: settling_iff [OF st])
    with l show ?thesis by blast
  next
    case (Settle_mark k cost)
    let ?f = "\<lambda>j. j\<lparr>bj_status := Bat_completed, bj_actual := Some cost,
                 bj_manifest := Some (manifest_hash_of sha k), bj_updated := an_now an\<rparr>"
    have id: "bj_id k = bj_id j" using ok Settle_mark by (simp add: same_terms_id)
    have db': "db' = update_job (bj_id j) ?f db" and q: "q = None"
      using assms(1,4) Settle_mark ok st get_job_row [OF assms(2)] id by (auto simp: statement_def mark_settled_def)
    have t: "same_terms j (?f j)" by (simp add: same_terms_def batch_hold_amount_def split: option.split)
    then have a: "batch_hold_amount (?f j) = batch_hold_amount j" by (simp add: same_terms_def)
    have "at_submit (bt_billing db) (?f j) sp" "\<not> live sp"
      using advanced_submit(1) [of "bt_billing db" j sp] advanced_submit(2) [of "bt_billing db" j sp "?f j" "bt_billing db"] t ok st by (auto simp: status_defs)
    moreover have "reserved (bt_billing db) (?f j) = reserved (bt_billing db) j" "captured (bt_billing db) (?f j) = captured (bt_billing db) j"
      "released (bt_billing db) (?f j) = released (bt_billing db) j"
      using same_terms_flags [OF t, of "bt_billing db"] by simp_all
    ultimately have "job_ok (bt_billing db) (?f j) sp None"
      using ok Settle_mark a by (subst paid_iff) (simp_all add: status_defs)
    with q row_change [where f = ?f, OF assms(2) t _ refl] st show ?thesis by (simp add: db' status_defs)
  next
    case (Settle_record k ec)
    let ?f = "retried_row (an_now an) ec"
    have id: "bj_id k = bj_id j" and pre: "has_prefix ''SETTLEMENT_'' (trim_space ec)"
      using ok Settle_record by (simp_all add: same_terms_id)
    obtain res where st': "statement (an_fate an) db (set_settlement_failed (an_now an) (bj_id k) ec db) = (res, db')"
      and q: "q = (case res of Inl e \<Rightarrow> None | Inr n \<Rightarrow>
        if settlement_max_retries \<le> n then Some (Settle_release (k\<lparr>bj_retry := n, bj_error_code := Some ec\<rparr>)) else None)"
      using assms(1) Settle_record by (auto split: prod.splits sum.splits)
    have none: "job_ok (bt_billing db) j sp None" using assms(3) Settle_record by (intro work_phase_change [OF assms(3)]) auto
    from st' assms(2) id show ?thesis
    proof (cases rule: retry_cases)
      case (kept e)
      with q none quiet_change [OF assms(2)] show ?thesis by simp
    next
      case ran
      let ?k = "k\<lparr>bj_retry := bj_retry j + 1, bj_error_code := Some ec\<rparr>"
      have t: "same_terms ?k (?f j) = same_terms k j"
        by (simp add: same_terms_def batch_hold_amount_def retried_row_def split: option.split)
      have r: "job_ok (bt_billing db) (?f j) sp None"
        by (rule same_row_job [OF retried_row_same(1) none]) (rule pre)
      have "q = None \<or> (settlement_max_retries \<le> bj_retry j + 1 \<and> q = Some (Settle_release ?k))"
        using ran(2) q by (auto split: if_splits)
      then have "job_ok (bt_billing db) (?f j) sp (map_option Work_settle q)"
      proof (elim disjE conjE)
        assume "settlement_max_retries \<le> bj_retry j + 1" "q = Some (Settle_release ?k)"
        with retried_row_same(2) [OF pre st, of "an_now an"] t ok Settle_record show ?thesis
          by (intro work_phase_change [OF r]) auto
      qed (simp add: r)
      with row_change [where f = ?f, OF assms(2) _ _ refl] show ?thesis by (simp add: ran(1))
    qed
  next
    case (Settle_release k)
    have "same_terms k j" "\<not> captured (bt_billing db) j" using ok Settle_release by auto
    with release_then_local(1) [of sha an k _ _ db q db' j] assms(1,2) Settle_release
    have l: "local_change j j db db' \<and> \<not> captured (bt_billing db') j \<and> (reserved (bt_billing db') j \<longleftrightarrow> reserved (bt_billing db) j)"
      by simp
    have q: "q = Some (Settle_fail k) \<or> q = Some (Settle_record_release k)"
      using assms(1) Settle_release release_then_local(2) [of sha an k _ _ db q db'] by auto
    have "at_submit (bt_billing db') j sp"
      by (rule advanced_submit(2) [of "bt_billing db" j]) (use ok st in \<open>simp_all add: status_defs\<close>)
    with l q ok Settle_release st have "job_ok (bt_billing db') j sp (map_option Work_settle q)"
      by (auto simp: settling_iff [OF st])
    with l show ?thesis by blast
  next
    case (Settle_record_release k)
    let ?f = "retried_row (an_now an) ''SETTLEMENT_RELEASE_FAILED''"
    have id: "bj_id k = bj_id j" using ok Settle_record_release by (simp add: same_terms_id)
    obtain res where st': "statement (an_fate an) db (set_settlement_failed (an_now an) (bj_id k) ''SETTLEMENT_RELEASE_FAILED'' db) = (res, db')"
      by (cases "statement (an_fate an) db (set_settlement_failed (an_now an) (bj_id k) ''SETTLEMENT_RELEASE_FAILED'' db)")
        (use assms(1) Settle_record_release in auto)
    have q: "q = None" using assms(1) Settle_record_release by simp
    have none: "job_ok (bt_billing db) j sp None" using assms(3) Settle_record_release by (intro work_phase_change [OF assms(3)]) auto
    have "job_ok (bt_billing db) (?f j) sp None"
      by (rule same_row_job [OF retried_row_same(1) none]) simp
    note moved = row_change [where f = ?f, OF assms(2) _ _ refl this, simplified]
    from st' assms(2) id show ?thesis
      by (cases rule: retry_cases) (simp_all add: q moved quiet_change [OF assms(2) none])
  next
    case (Settle_fail k)
    let ?f = "moved_row (an_now an) Bat_failed (Some ''SETTLEMENT_BILLING_RETRY_EXHAUSTED'')"
    have id: "bj_id k = bj_id j" using ok Settle_fail by (simp add: same_terms_id)
    from assms(1) Settle_fail have mv: "move_then an k Bat_failed (Some ''SETTLEMENT_BILLING_RETRY_EXHAUSTED'') (\<lambda>e. None) db = (q, db')"
      by simp
    have none: "job_ok (bt_billing db) j sp None" using assms(3) Settle_fail by (intro work_phase_change [OF assms(3)]) auto
    have "at_submit (bt_billing db) (?f j) sp" "\<not> live sp"
      using advanced_submit(1) [of "bt_billing db" j sp] advanced_submit(2) [of "bt_billing db" j sp "?f j" "bt_billing db"] ok st by (auto simp: status_defs)
    then have "job_ok (bt_billing db) (?f j) sp None"
      using ok Settle_fail by (simp add: unsettled_iff before_settling_def status_defs at_work_def)
    note moved = row_change [where f = ?f, OF assms(2) _ _ refl this, simplified status_defs, simplified]
    from mv assms(2) id show ?thesis
      by (cases rule: move_then_cases) (simp_all add: moved quiet_change [OF assms(2) none])
  qed
qed


section \<open>The worker\<close>

fun reserving :: "submit_phase option \<Rightarrow> bool" where
  "reserving (Some (Sub_reserve _ _)) = True"
| "reserving _ = False"

fun work_call_ok :: "tx_fate \<Rightarrow> submit_phase option \<Rightarrow> work_phase \<Rightarrow> bool" where
  "work_call_ok fate sp (Work_release k) = (\<not> reserving sp)"
| "work_call_ok fate sp (Work_settle p) = settle_call_ok fate p"
| "work_call_ok fate sp p = True"

lemma submit_move:
  assumes "at_submit bd j sp" "same_terms j j'" "advanced_status (bj_status j') \<Longrightarrow> advanced_status (bj_status j)"
    and "reserved bd' j' = reserved bd j" "released bd' j' = released bd j \<or> \<not> reserving sp"
  shows "at_submit bd' j' sp"
  using assms by (cases sp; cases "the sp") (auto simp: same_terms_def)

lemma move_statuses:
  assumes "can_transition s dst" "dst \<in> {Bat_running, Bat_indexing, Bat_failed, Bat_cancelled}"
  shows "\<not> closed_status s" "\<not> paid_status s" "advanced_status dst \<Longrightarrow> advanced_status s"
    and "dst = Bat_failed \<or> before_settling s" "\<not> closed_status dst \<Longrightarrow> advanced_status dst"
  using assms by (cases s; cases dst; simp add: can_transition_def is_terminal_batch_def status_defs before_settling_def)+

lemma job_moved:
  assumes "job_ok bd j sp wp" "before_settling (bj_status j)" "can_transition (bj_status j) dst"
    and "dst \<in> {Bat_running, Bat_indexing, Bat_failed, Bat_cancelled}"
  shows "job_ok bd (moved_row now dst ec j) sp wp"
proof -
  note m = move_statuses [OF assms(3,4)] and ok = assms(1) [unfolded unsettled_iff [OF assms(2)]]
  have b: "before_settling dst" using assms(4) by (auto simp: before_settling_def status_defs)
  have "at_submit bd (moved_row now dst ec j) sp" by (rule submit_move [of bd j sp]) (use ok m in auto)
  moreover have "at_work (moved_row now dst ec j) wp" by (rule at_work_move [of j wp]) (use ok m(1) assms(2) b in auto)
  ultimately show ?thesis using ok m assms(4) b by (auto simp: unsettled_iff advanced_status_def)
qed

lemma job_settling:
  assumes "job_ok bd j sp wp" "before_settling (bj_status j)" "can_transition (bj_status j) Bat_settling"
  shows "job_ok bd (moved_row now Bat_settling ec j) sp None"
proof -
  note ok = assms(1) [unfolded unsettled_iff [OF assms(2)]]
  have s: "bj_status j = Bat_indexing"
    using assms(3) by (cases "bj_status j") (auto simp: can_transition_def is_terminal_batch_def)
  have "at_submit bd (moved_row now Bat_settling ec j) sp" 
    by (rule submit_move [of bd j sp]) (use ok s in \<open>auto simp: status_defs\<close>)
  with ok s show ?thesis by (auto simp: settling_iff status_defs)
qed

text \<open>A move made by the worker, and its next phase.\<close>

lemma worker_moves:
  assumes "move_then an k dst ec (\<lambda>e. case e of None \<Rightarrow> next_phase | Some _ \<Rightarrow> None) db = (q, db')" "row_of j db" "bj_id k = bj_id j" "before_settling (bj_status j)"
    and "dst \<in> {Bat_running, Bat_indexing, Bat_failed, Bat_cancelled}" "job_ok (bt_billing db) j sp None"
    and "\<And>p. next_phase = Some p \<Longrightarrow> work_ok (released (bt_billing db) j) (moved_row (an_now an) dst ec j) p" "\<not> marking next_phase"
  shows "\<exists>j'. local_change j j' db db' \<and> job_ok (bt_billing db') j' sp q"
  using assms(1-3)
proof (cases rule: move_then_cases)
  case (kept e)
  with quiet_change [OF assms(2,6)] show ?thesis by simp
next
  case (ran e)
  let ?f = "moved_row (an_now an) dst ec"
  have j: "job_ok (bt_billing db) (?f j) sp None" by (rule job_moved [OF assms(6,4) ran(1) assms(5)])
  have "job_ok (bt_billing db) (?f j) sp q"
    using ran(3) assms(7,8) by (cases e) (auto intro!: work_phase_change [OF j] simp: j)
  with row_change [where f = ?f, OF assms(2) _ _ refl] move_statuses(1) [OF ran(1) assms(5)] show ?thesis by (simp add: ran(2))
qed

lemma before_failed: "before_settling s \<Longrightarrow> s \<noteq> Bat_settling \<and> \<not> paid_status s"
  by (simp add: before_settling_def)

lemma same_terms_status [simp]: "same_terms (k\<lparr>bj_status := s\<rparr>) j = same_terms k j"
  "same_terms (k\<lparr>bj_output_ref := r\<rparr>) j = same_terms k j"
  by (simp_all add: same_terms_def batch_hold_amount_def split: option.split)

lemma process_state_local:
  assumes "process_state an k st db = (q, db')" "row_of j db" "same_terms k j" "before_settling (bj_status j)"
    and "job_ok (bt_billing db) j sp None"
  shows "\<exists>j'. local_change j j' db db' \<and> job_ok (bt_billing db') j' sp q"
proof -
  note id = same_terms_id [OF assms(3)]
  let ?mv = "\<lambda>dst ec nx. move_then an k dst ec (\<lambda>e. case e of None \<Rightarrow> nx | Some _ \<Rightarrow> None) db = (q, db')"
  have idx: "job_ok (bt_billing db) j sp (Some (Work_index k))"
    using assms(3,4) by (intro work_phase_change [OF assms(5)]) auto
  consider "db' = db" "q = None \<or> q = Some (Work_index k)"
    | "?mv Bat_running None None"
    | "?mv Bat_indexing None (Some (Work_index (k\<lparr>bj_status := Bat_indexing\<rparr>)))"
    | ec where "?mv Bat_failed ec (Some (Work_release (k\<lparr>bj_status := Bat_failed\<rparr>)))"
    | "?mv Bat_cancelled None (Some (Work_release (k\<lparr>bj_status := Bat_cancelled\<rparr>)))"
    using assms(1) by (simp add: process_state_def Let_def split: provider_state.splits if_splits)
  then show ?thesis
  proof cases
    case 1
    with quiet_change [OF assms(2,5)] quiet_change [OF assms(2) idx] show ?thesis by auto
  next
    case 2
    then show ?thesis by (rule worker_moves [OF _ assms(2) id assms(4) _ assms(5)]) auto
  next
    case 3
    then show ?thesis
      by (rule worker_moves [OF _ assms(2) id assms(4) _ assms(5)]) (auto simp: assms(3) before_settling_def status_defs)
  next
    case 4
    then show ?thesis
      by (rule worker_moves [OF _ assms(2) id assms(4) _ assms(5)]) (auto simp: assms(3) status_defs)
  next
    case 5
    then show ?thesis
      by (rule worker_moves [OF _ assms(2) id assms(4) _ assms(5)]) (auto simp: assms(3) status_defs)
  qed
qed


lemma same_row_change:
  assumes "row_of j db" "same_row j (f j)" "b = bj_id j" "job_ok (bt_billing db) j sp wp"
  shows "\<exists>j'. local_change j j' db (update_job b f db) \<and> job_ok (bt_billing (update_job b f db)) j' sp wp"
  by (rule row_change [where f = f, OF assms(1) _ _ assms(3) same_row_job [OF assms(2,4)]]) (use assms(2) in \<open>auto simp: same_row_def\<close>)

lemma items_change:
  "\<exists>j'. local_change j j' db db' \<and> job_ok (bt_billing db') j' sp wp \<Longrightarrow>
   \<exists>j'. local_change j j' db (db'\<lparr>bt_items := x\<rparr>) \<and> job_ok (bt_billing (db'\<lparr>bt_items := x\<rparr>)) j' sp wp"
  by (auto intro: local_items)

lemma other_columns:
  "same_row j (j\<lparr>bj_output_ref := r, bj_updated := now\<rparr>)"
  "same_row j (j\<lparr>bj_success := s, bj_fail := f, bj_updated := now\<rparr>)"
  by (simp_all add: same_row_def same_terms_def batch_hold_amount_def settlement_retry_exhausted_def split: option.split)

lemma release_job:
  assumes "job_ok (bt_billing db) j sp wp" "closed_status (bj_status j)" "\<not> reserving sp" "row_of j db" "same_terms k j"
    and "release_then sha an k good bad db = (q, db')" "\<And>p. wp' = Some p \<Longrightarrow> work_ok True j p" 
  shows "local_change j j db db' \<and> job_ok (bt_billing db') j sp wp'"
proof -
  have na: "\<not> advanced_status (bj_status j)" using assms(2) by (simp add: advanced_status_def)
  note ok = assms(1) [unfolded unsubmitted_iff [OF na]]
  have l: "local_change j j db db'" "\<not> captured (bt_billing db') j" "reserved (bt_billing db') j \<longleftrightarrow> reserved (bt_billing db) j"
    using release_then_local(1) [OF assms(6,4,5)] ok by simp_all
  moreover have "at_submit (bt_billing db') j sp"
    by (rule submit_move [of "bt_billing db" j]) (use ok l assms(3) in auto)
  ultimately show ?thesis
    using ok assms(2,7) by (auto simp: unsubmitted_iff [OF na] at_work_def split: option.split)
qed

lemma work_call_local:
  assumes "work_call sha an p db = (q, db')" "row_of j db" "job_ok (bt_billing db) j sp (Some p)"
    and "work_call_ok (an_fate an) sp p"
  shows "\<exists>j'. local_change j j' db db' \<and> job_ok (bt_billing db') j' sp q"
proof -
  have ok: "work_ok (released (bt_billing db) j) j p" using assms(3) by (simp add: job_ok_def)
  have quiet: "\<exists>j'. local_change j j' db db \<and> job_ok (bt_billing db) j' sp wp'"
    if "\<And>p'. wp' = Some p' \<Longrightarrow> work_ok (released (bt_billing db) j) j p'" "marking wp' = marking (Some p)" for wp'
    by (rule quiet_change [OF assms(2) work_phase_change [OF assms(3)]]) (use that in auto)
  have none: "job_ok (bt_billing db) j sp None" if "\<not> marking (Some p)"
    by (rule work_phase_change [OF assms(3)]) (use that in simp_all)
  note row = get_job_row [OF assms(2)]
  show ?thesis
  proof (cases p)
    case (Work_read b)
    with ok row assms(1) have "db' = db \<and> (q = Some (Work_settle (Settle_read b)) \<or> q = Some (Work_process b))" by (auto split: if_splits)
    with ok Work_read show ?thesis by (elim conjE) (simp, rule quiet, auto)
  next
    case (Work_process b)
    with ok row assms(1) have "db' = db" and q: "q = None \<or> (q = Some (Work_release j) \<and> closed_status (bj_status j)) \<or>
        ((q = Some (Work_index j) \<or> q = Some (Work_get j)) \<and> \<not> done_status (bj_status j))"
      by (auto simp: closed_status_def split: if_splits)
    moreover have "before_settling (bj_status j)" if "\<not> done_status (bj_status j)"
      using that by (auto simp: done_status_def is_terminal_batch_def before_settling_def status_defs)
    ultimately show ?thesis using Work_process by (simp, intro quiet) auto
  next
    case (Work_get k)
    with ok assms(1) have "db' = db" "q = None \<or> (\<exists>st. q = Some (Work_state k st) \<or> q = Some (Work_ref k st))"
      by (auto split: option.splits if_splits)
    with ok Work_get show ?thesis by (simp, intro quiet) auto
  next
    case (Work_ref k st)
    let ?f = "\<lambda>j. j\<lparr>bj_output_ref := Some (trim_space (ps_output_ref st)), bj_updated := an_now an\<rparr>"
    let ?q = "Some (Work_state (k\<lparr>bj_output_ref := Some (trim_space (ps_output_ref st))\<rparr>) st)"
    obtain res where s: "statement (an_fate an) db (update_output_ref (an_now an) (bj_id k) (trim_space (ps_output_ref st)) db) = (res, db')"
      and q: "q = None \<or> q = ?q"
      using assms(1) Work_ref by (auto split: prod.splits sum.splits)
    have id: "bj_id k = bj_id j" using ok Work_ref by (simp add: same_terms_id)
    have qok: "job_ok (bt_billing db) j sp q"
      by (rule work_phase_change [OF assms(3)]) (use q ok Work_ref in auto)
    from s show ?thesis
    proof (cases rule: statement_cases)
      case (kept e)
      with quiet_change [OF assms(2) qok] show ?thesis by simp
    next
      case (ran r)
      then have "db' = update_job (bj_id j) ?f db" using row id by (auto simp: update_output_ref_def split: if_splits)
      with same_row_change [where f = ?f, OF assms(2) other_columns(1) refl qok] show ?thesis by simp
    qed
  next
    case (Work_state k st)
    with assms(1) ok none show ?thesis by (intro process_state_local [of an k st db q db' j sp] assms(2)) auto
  next
    case (Work_index k)
    with assms(1) have "db' = db" "q = None \<or> (\<exists>ec. q = Some (Work_index_failed k ec)) \<or> (\<exists>ids s f. q = Some (Work_replace k ids s f))"
      by (auto split: if_splits option.splits sum.splits)
    with ok Work_index show ?thesis by (simp, intro quiet) auto
  next
    case (Work_replace k ids s f)
    let ?f = "\<lambda>j. j\<lparr>bj_success := s, bj_fail := f, bj_updated := an_now an\<rparr>"
    obtain res where st: "statement (an_fate an) db (replace_items (an_now an) (bj_id k) ids s f db) = (res, db')"
      and q: "q = None \<or> q = Some (Work_settling k) \<or> (\<exists>ec. q = Some (Work_index_failed k ec))"
      using assms(1) Work_replace by (auto split: prod.splits sum.splits if_splits)
    have id: "bj_id k = bj_id j" using ok Work_replace by (simp add: same_terms_id)
    have qok: "job_ok (bt_billing db) j sp q"
      by (rule work_phase_change [OF assms(3)]) (use q ok Work_replace in auto)
    from st show ?thesis
    proof (cases rule: statement_cases)
      case (kept e)
      with quiet_change [OF assms(2) qok] show ?thesis by simp
    next
      case (ran r)
      then have "\<exists>x. db' = (update_job (bj_id j) ?f db)\<lparr>bt_items := x\<rparr>" using row id by (auto simp: replace_items_def split: if_splits)
      with items_change [OF same_row_change [where f = ?f, OF assms(2) other_columns(2) refl qok]] show ?thesis by auto
    qed
  next
    case (Work_index_failed k ec)
    have "move_then an k Bat_failed (Some ec) (\<lambda>e. case e of None \<Rightarrow> Some (Work_release (k\<lparr>bj_status := Bat_failed\<rparr>)) | Some _ \<Rightarrow> None) db = (q, db')"
      using assms(1) Work_index_failed by simp
    then show ?thesis
      by (rule worker_moves [OF _ assms(2) _ _ _ none]) (use ok Work_index_failed in \<open>auto simp: same_terms_id status_defs\<close>)
  next
    case (Work_settling k)
    have mv: "move_then an k Bat_settling None (\<lambda>e. None) db = (q, db')" using assms(1) Work_settling by simp
    have n: "job_ok (bt_billing db) j sp None" and b: "before_settling (bj_status j)" and id: "bj_id k = bj_id j"
      using ok Work_settling none by (simp_all add: same_terms_id)
    from mv assms(2) id show ?thesis
    proof (cases rule: move_then_cases)
      case (kept e)
      with quiet_change [OF assms(2) n] show ?thesis by simp
    next
      case (ran e)
      let ?f = "moved_row (an_now an) Bat_settling None"
      have "\<not> closed_status (bj_status j)"
        using ran(1) by (cases "bj_status j") (auto simp: can_transition_def is_terminal_batch_def status_defs)
      with row_change [where f = ?f, OF assms(2) _ _ refl job_settling [OF n b ran(1)]] ran show ?thesis by simp
    qed
  next
    case (Work_release k)
    then have "release_then sha an k None None db = (q, db')" "q = None"
      using assms(1) release_then_local(2) [of sha an k None None db q db'] by auto
    with release_job [OF assms(3) _ _ assms(2), of k sha an None None q db' None] ok assms(4) Work_release show ?thesis by auto
  next
    case (Work_settle p')
    obtain q' where "settle_call sha an p' db = (q', db')" "q = map_option Work_settle q'"
      using assms(1) Work_settle by (auto split: prod.splits)
    with settle_call_local [OF this(1) assms(2), of sp] assms(3,4) Work_settle show ?thesis by simp
  qed
qed


section \<open>The other handlers\<close>

fun other_call_ok :: "batch_status \<Rightarrow> submit_phase option \<Rightarrow> other_phase \<Rightarrow> bool" where
  "other_call_ok st sp (Again_failed k) = (st \<noteq> Bat_settling)"
| "other_call_ok st sp (Can_release k) = (\<not> reserving sp)"
| "other_call_ok st sp (Rec_release k) = (\<not> reserving sp)"
| "other_call_ok st sp p = True"

fun other_ok :: "batch_job \<Rightarrow> other_phase \<Rightarrow> bool" where
  "other_ok j (Again_read b) = (b = bj_id j)"
| "other_ok j (Again_enqueue k) = same_terms k j"
| "other_ok j (Again_failed k) = same_terms k j"
| "other_ok j (Can_read b) = (b = bj_id j)"
| "other_ok j (Can_provider k) = same_terms k j"
| "other_ok j (Can_transition k) = same_terms k j"
| "other_ok j (Can_release k) = (same_terms k j \<and> closed_status (bj_status j))"
| "other_ok j (Rec_fail k cutoff) = same_terms k j"
| "other_ok j (Rec_release k) = (same_terms k j \<and> closed_status (bj_status j))"

lemma other_ok_change: "other_ok j p \<Longrightarrow> local_change j j' db db' \<Longrightarrow> other_ok j' p"
  by (cases p) (auto simp: local_change_def same_terms_def)

lemma cancel_before: "can_transition s Bat_cancelled \<Longrightarrow> before_settling s \<and> \<not> closed_status s"
  by (cases s) (auto simp: can_transition_def is_terminal_batch_def before_settling_def status_defs)

lemma fail_stale_cases:
  assumes "statement fate db (fail_stale now b cutoff ec db) = (res, db')" "row_of j db" "b = bj_id j"
  obtains (kept) "db' = db" "res \<noteq> Inr True"
    | (ran) "opening_status (bj_status j)" "db' = update_job (bj_id j) (moved_row now Bat_failed (Some ec)) db"
  using assms(1)
proof (cases rule: statement_cases)
  case (kept e)
  then show thesis by (intro that(1)) simp_all
next
  case (ran r)
  have f: "moved_row now Bat_failed (Some ec) = (\<lambda>j. j\<lparr>bj_status := Bat_failed, bj_error_code := Some ec, bj_updated := now\<rparr>)"
    by (simp add: fun_eq_iff moved_row_def)
  from ran get_job_row [OF assms(2)] assms(3) show thesis
    by (cases "bj_status j \<in> {Bat_created, Bat_uploading} \<and> bj_provider_job j = None \<and> bj_updated j \<le> cutoff")
      (auto simp: fail_stale_def Let_def opening_status_def f intro: that)
qed

lemma other_call_local:
  assumes "other_call sha an p db = (q, db')" "row_of j db" "job_ok (bt_billing db) j sp wp" "other_ok j p"
    and "other_call_ok (bj_status j) sp p"
  shows "\<exists>j'. local_change j j' db db' \<and> job_ok (bt_billing db') j' sp wp \<and> (\<forall>p'. q = Some p' \<longrightarrow> other_ok j' p')"
proof -
  note row = get_job_row [OF assms(2)]
  have quiet: ?thesis if "db' = db" "\<And>p'. q = Some p' \<Longrightarrow> other_ok j p'"
    using that local_refl [OF assms(2)] assms(3) by blast
  have moved: ?thesis if "db' = update_job (bj_id j) f db" "same_terms j (f j)" "closed_status (bj_status j) \<Longrightarrow> closed_status (bj_status (f j))"
    "job_ok (bt_billing db) (f j) sp wp" "\<And>p'. q = Some p' \<Longrightarrow> other_ok (f j) p'" for f
    using local_row [of j db "bj_id j" f] assms(2) that by (auto simp: update_job_def)
  have release: ?thesis if "release_then sha an k None None db = (q, db')" "same_terms k j" "closed_status (bj_status j)" "\<not> reserving sp" for k
  proof -
    have "q = None" using release_then_local(2) [OF that(1)] by simp
    moreover have "local_change j j db db' \<and> job_ok (bt_billing db') j sp wp"
    proof (rule release_job [OF assms(3) that(3,4) assms(2) that(2,1)])
      fix p assume "wp = Some p"
      with assms(3) that(3) show "work_ok True j p"
        using work_ok_flag [of j True p "released (bt_billing db) j"] by (auto simp: job_ok_def status_defs)
    qed
    ultimately show ?thesis by auto
  qed
  show ?thesis
  proof (cases p)
    case (Again_read b)
    with assms(1,4) row show ?thesis by (intro quiet) (auto split: if_splits)
  next
    case (Again_enqueue k)
    with assms(1,4) show ?thesis by (intro quiet) (auto split: if_splits)
  next
    case (Again_failed k)
    let ?f = "failed_row (an_now an) ''QUEUE_FAILED'' False"
    have s: "same_row j (?f j)" using assms(5) Again_failed by (intro queue_failed_row) simp
    have id: "bj_id k = bj_id j" using assms(4) Again_failed by (simp add: same_terms_id)
    from record_cases [of "an_fate an" db "an_now an" "bj_id k" "''QUEUE_FAILED''" False q db'] assms(1) Again_failed id
    have "q = None \<and> (db' = db \<or> db' = update_job (bj_id j) ?f db)" by simp
    then show ?thesis
    proof (elim conjE disjE)
      assume "q = None" "db' = update_job (bj_id j) ?f db"
      then show ?thesis by (intro moved [of ?f] same_row_job [OF s assms(3)]) auto
    qed (rule quiet, simp_all)
  next
    case (Can_read b)
    with assms(1,4) row show ?thesis by (intro quiet) (auto simp: closed_status_def split: if_splits)
  next
    case (Can_provider k)
    with assms(1) show ?thesis by (intro quiet) auto
  next
    case (Can_transition k)
    have mv: "move_then an k Bat_cancelled None (\<lambda>e. case e of None \<Rightarrow> Some (Can_release k) | Some _ \<Rightarrow> None) db = (q, db')"
      and k: "same_terms k j" "bj_id k = bj_id j"
      using assms(1,4) Can_transition by (simp_all add: same_terms_id)
    from mv assms(2) k(2) show ?thesis
    proof (cases rule: move_then_cases)
      case (kept e)
      then show ?thesis by (intro quiet) auto
    next
      case (ran e)
      let ?f = "moved_row (an_now an) Bat_cancelled None"
      note c = cancel_before [OF ran(1)]
      have "job_ok (bt_billing db) (?f j) sp wp" by (rule job_moved [OF assms(3)]) (use c ran(1) in auto)
      with ran k c show ?thesis by (intro moved [of ?f]) (auto simp: status_defs split: option.splits)
    qed
  next
    case (Can_release k)
    with assms(1,4,5) show ?thesis by (intro release [of k]) auto
  next
    case (Rec_fail k cutoff)
    obtain res where st: "statement (an_fate an) db (fail_stale (an_now an) (bj_id k) cutoff ''SUBMIT_STALE_BEFORE_PROVIDER'' db) = (res, db')"
      and q: "q = (case res of Inr True \<Rightarrow> Some (Rec_release (k\<lparr>bj_status := Bat_failed\<rparr>)) | _ \<Rightarrow> None)"
      using assms(1) Rec_fail by (auto split: prod.splits sum.splits)
    have k: "same_terms k j" "bj_id k = bj_id j" using assms(4) Rec_fail by (simp_all add: same_terms_id)
    from st assms(2) k(2) show ?thesis
    proof (cases rule: fail_stale_cases)
      case kept
      with q show ?thesis by (intro quiet) (auto split: sum.splits bool.splits)
    next
      case ran
      let ?f = "moved_row (an_now an) Bat_failed (Some ''SUBMIT_STALE_BEFORE_PROVIDER'')"
      have "job_ok (bt_billing db) (?f j) sp wp"
        by (rule job_moved [OF assms(3)]) (use ran(1) in \<open>auto simp: status_defs before_settling_def can_transition_def is_terminal_batch_def\<close>)
      with ran k q show ?thesis
        by (intro moved [of ?f]) (auto simp: status_defs split: sum.splits bool.splits)
    qed
  next
    case (Rec_release k)
    with assms(1,4,5) show ?thesis by (intro release [of k]) auto
  qed
qed

end
