(* ===== verification/BatchRuns.thy ===== *)
theory BatchRuns
  imports BatchLocal
begin

text \<open>
  The invariant of one job lifted to the system of all of them: a step changes one job, or none, and leaves the
  invariant of the others and the sum of the open holds of a user in order.
\<close>

section \<open>The invariant of the system\<close>

definition frozen_sum :: "batch_db \<Rightarrow> int \<Rightarrow> usd" where
  "frozen_sum db uid = sum_list (map (held (bt_billing db)) (filter (\<lambda>j. bj_user j = uid) (bt_jobs db)))"

definition fresh_job :: "billing_db \<Rightarrow> batch_job \<Rightarrow> bool" where
  "fresh_job bd j \<longleftrightarrow> terms_ok j \<and> bj_status j = Bat_created \<and> bj_manifest j = None \<and>
     \<not> reserved bd j \<and> \<not> captured bd j \<and> \<not> released bd j"

definition has_row :: "batch_db \<Rightarrow> string \<Rightarrow> bool" where
  "has_row db b \<longleftrightarrow> b \<in> bj_id ` set (bt_jobs db)"

text \<open>The phases of handlers for a job that has no row yet.\<close>

fun starting :: "billing_db \<Rightarrow> string \<Rightarrow> submit_phase option \<Rightarrow> bool" where
  "starting bd b None = True"
| "starting bd b (Some (Sub_create k ids)) = (bj_id k = b \<and> fresh_job bd k)"
| "starting bd b (Some _) = False"

fun idle :: "string \<Rightarrow> work_phase option \<Rightarrow> bool" where
  "idle b None = True"
| "idle b (Some (Work_read c)) = (c = b)"
| "idle b (Some (Work_process c)) = (c = b)"
| "idle b (Some (Work_settle (Settle_read c))) = (c = b)"
| "idle b (Some _) = False"

fun looking :: "other_phase \<Rightarrow> bool" where
  "looking (Again_read b) = True"
| "looking (Can_read b) = True"
| "looking _ = False"

definition other_well :: "batch_db \<Rightarrow> other_phase \<Rightarrow> bool" where
  "other_well db p \<longleftrightarrow> looking p \<or> (\<exists>j\<in>set (bt_jobs db). other_ok j p)"

definition batch_inv :: "batch_system \<Rightarrow> bool" where
  "batch_inv s \<longleftrightarrow>
     tables_ok (by_db s) \<and>
     (\<forall>j\<in>set (bt_jobs (by_db s)). job_ok (bt_billing (by_db s)) j (by_submit s (bj_id j)) (by_work s (bj_id j))) \<and>
     (\<forall>b. \<not> has_row (by_db s) b \<longrightarrow> starting (bt_billing (by_db s)) b (by_submit s b) \<and> idle b (by_work s b)) \<and>
     (\<forall>n p. by_other s n = Some p \<longrightarrow> other_well (by_db s) p) \<and>
     (\<forall>uid f. frozen_of (bt_billing (by_db s)) uid = Some f \<longrightarrow> f = frozen_sum (by_db s) uid)"

section \<open>A local change keeps it\<close>

lemma other_claims:
  assumes "terms_ok j" "terms_ok k" "bj_id k \<noteq> bj_id j" "books key uid d bd bd'" "key \<in> job_claims j"
  shows "reserved bd' k = reserved bd k" "captured bd' k = captured bd k" "released bd' k = released bd k"
proof -
  have "trim_space (bj_id k) \<noteq> trim_space (bj_id j)" using assms(1-3) by (simp add: terms_ok_def id_ok_def)
  then show "reserved bd' k = reserved bd k" "captured bd' k = captured bd k" "released bd' k = released bd k"
    using books_flags [OF assms(4), of k] assms(5)
    by (auto simp: job_claims_def) (auto simp: hold_request_id_def capture_request_id_def release_request_id_def)
qed

lemma change_flags:
  assumes "local_change j j' db db'" "terms_ok j" "terms_ok k" "bj_id k \<noteq> bj_id j"
  shows "reserved (bt_billing db') k = reserved (bt_billing db) k" "captured (bt_billing db') k = captured (bt_billing db) k"
    "released (bt_billing db') k = released (bt_billing db) k"
  using assms(1) other_claims [OF assms(2-4)] by (auto simp: local_change_def)

lemma job_ok_flags:
  "reserved bd' k = reserved bd k \<Longrightarrow> captured bd' k = captured bd k \<Longrightarrow> released bd' k = released bd k \<Longrightarrow>
   job_ok bd' k sp wp = job_ok bd k sp wp"
  by (simp add: job_ok_def split: option.split)

lemma sum_one_change:
  fixes h h' :: "batch_job \<Rightarrow> int"
  assumes "distinct (map bj_id xs)" "j \<in> set xs" "bj_user j' = bj_user j" "\<And>k. k \<in> set xs \<Longrightarrow> bj_id k \<noteq> bj_id j \<Longrightarrow> h' k = h k"
  shows "sum_list (map h' (filter (\<lambda>k. bj_user k = uid) (map (\<lambda>k. if bj_id k = bj_id j then j' else k) xs))) =
    sum_list (map h (filter (\<lambda>k. bj_user k = uid) xs)) + (if bj_user j = uid then h' j' - h j else 0)"
proof -
  obtain as bs where xs: "xs = as @ j # bs" using split_list [OF assms(2)] by blast
  have out: "bj_id j \<notin> bj_id ` set as" "bj_id j \<notin> bj_id ` set bs" using assms(1) by (simp_all add: xs)
  have n: "bj_id k \<noteq> bj_id j" if "k \<in> set as \<union> set bs" for k
    using that
  proof
    assume "k \<in> set as"
    then have "bj_id k \<in> bj_id ` set as" by (rule imageI)
    with out(1) show ?thesis by metis
  next
    assume "k \<in> set bs"
    then have "bj_id k \<in> bj_id ` set bs" by (rule imageI)
    with out(2) show ?thesis by metis
  qed
  have kept: "map (\<lambda>k. if bj_id k = bj_id j then j' else k) ys = ys" if "set ys \<subseteq> set as \<union> set bs" for ys
    by (rule map_idI) (use that n in auto)
  have same: "map h' (filter P ys) = map h (filter P ys)" if "set ys \<subseteq> set as \<union> set bs" for ys P
  proof (rule map_cong [OF refl])
    fix k assume "k \<in> set (filter P ys)"
    with that n xs show "h' k = h k" by (intro assms(4)) auto
  qed
  show ?thesis using assms(3) by (simp add: xs kept same)
qed

lemma change_tables:
  assumes "local_change j j' db db'" "row_of j db"
  shows "tables_ok db'" "set (bt_jobs db') = insert j' (set (bt_jobs db) - {j})" "bj_id j' = bj_id j"
    "has_row db' b = has_row db b"
proof -
  have jobs: "bt_jobs db' = map (\<lambda>k. if bj_id k = bj_id j then j' else k) (bt_jobs db)" and t: "same_terms j j'"
    using assms(1) by (simp_all add: local_change_def)
  from t show id: "bj_id j' = bj_id j" by (simp add: same_terms_def)
  have d: "distinct (map bj_id (bt_jobs db))" and j: "j \<in> set (bt_jobs db)" and terms: "\<forall>k\<in>set (bt_jobs db). terms_ok k"
    using assms(2) by (simp_all add: row_of_def tables_ok_def)
  then show set: "set (bt_jobs db') = insert j' (set (bt_jobs db) - {j})"
    by (auto simp: jobs dest: same_id)
  have ids: "map bj_id (bt_jobs db') = map bj_id (bt_jobs db)" using id by (simp add: jobs)
  have "terms_ok j'" using same_terms_ok [of j' j] t terms j by (simp add: same_terms_sym)
  moreover have "exact_users (bt_billing db')"
    using assms by (auto simp: local_change_def row_of_def tables_ok_def books_def frozen_moves_def)
  ultimately show "tables_ok db'" using d terms by (simp add: tables_ok_def ids set)
  show "has_row db' b = has_row db b"
    unfolding has_row_def using ids by (metis set_map)
qed

lemma lift_change:
  assumes "batch_inv s" "j \<in> set (bt_jobs (by_db s))" "local_change j j' (by_db s) (by_db s')"
    and "job_ok (bt_billing (by_db s')) j' (by_submit s' (bj_id j)) (by_work s' (bj_id j))"
    and "\<And>b. b \<noteq> bj_id j \<Longrightarrow> by_submit s' b = by_submit s b \<and> by_work s' b = by_work s b"
    and "\<And>n p. by_other s' n = Some p \<Longrightarrow> by_other s n = Some p \<or> other_ok j' p"
  shows "batch_inv s'"
proof -
  let ?db = "by_db s" and ?db' = "by_db s'"
  have row: "row_of j ?db" using assms(1,2) by (simp add: batch_inv_def row_of_def)
  note t = change_tables [OF assms(3) row]
  have terms: "terms_ok k" if "k \<in> set (bt_jobs ?db)" for k using that row by (simp add: row_of_def tables_ok_def)
  note flags = change_flags [OF assms(3) terms [OF assms(2)]]
  have jobs: "\<forall>k\<in>set (bt_jobs ?db'). job_ok (bt_billing ?db') k (by_submit s' (bj_id k)) (by_work s' (bj_id k))"
  proof
    fix k assume "k \<in> set (bt_jobs ?db')"
    then consider "k = j'" | "k \<in> set (bt_jobs ?db)" "k \<noteq> j" using t(2) by blast
    then show "job_ok (bt_billing ?db') k (by_submit s' (bj_id k)) (by_work s' (bj_id k))"
    proof cases
      case 1
      with assms(4) t(3) show ?thesis by simp
    next
      case 2
      then have id: "bj_id k \<noteq> bj_id j" using row assms(2) by (auto simp: row_of_def tables_ok_def dest: same_id)
      with assms(1) 2 have "job_ok (bt_billing ?db) k (by_submit s (bj_id k)) (by_work s (bj_id k))" by (simp add: batch_inv_def)
      with assms(5) [OF id] job_ok_flags [OF flags [OF terms [OF 2(1)] id]] show ?thesis by simp
    qed
  qed
  have free: "starting (bt_billing ?db') b (by_submit s' b) \<and> idle b (by_work s' b)" if "\<not> has_row ?db' b" for b
  proof -
    have n: "\<not> has_row ?db b" "b \<noteq> bj_id j" using that t(4) assms(2) by (auto simp: has_row_def)
    with assms(1) have "starting (bt_billing ?db) b (by_submit s b)" "idle b (by_work s b)" by (simp_all add: batch_inv_def)
    moreover have "starting (bt_billing ?db') b sp" if "starting (bt_billing ?db) b sp" for sp
      using that flags n(2) by (cases "(bt_billing ?db, b, sp)" rule: starting.cases) (auto simp: fresh_job_def)
    ultimately show ?thesis using assms(5) [OF n(2)] by simp
  qed
  have others: "other_well ?db' p" if "by_other s' n = Some p" for n p
    using assms(6) [OF that]
  proof
    assume "by_other s n = Some p"
    with assms(1) have "other_well ?db p" by (simp add: batch_inv_def)
    then consider "looking p" | k where "k \<in> set (bt_jobs ?db)" "other_ok k p" by (auto simp: other_well_def)
    then show ?thesis
    proof cases
      case 2
      show ?thesis
      proof (cases "k = j")
        case True
        with 2 other_ok_change [OF _ assms(3)] t(2) show ?thesis by (auto simp: other_well_def)
      next
        case False
        with 2 t(2) show ?thesis by (auto simp: other_well_def)
      qed
    qed (simp add: other_well_def)
  next
    assume "other_ok j' p"
    with t(2) show ?thesis by (auto simp: other_well_def)
  qed
  have frozen: "f = frozen_sum ?db' uid" if f: "frozen_of (bt_billing ?db') uid = Some f" for uid f
  proof -
    let ?d = "held (bt_billing ?db') j' - held (bt_billing ?db) j"
    have user: "bj_user j' = bj_user j" using assms(3) by (simp add: local_change_def same_terms_def)
    have same: "bt_billing ?db' = bt_billing ?db \<Longrightarrow> ?d = 0"
      using assms(3) by (auto simp: local_change_def held_def same_terms_flags [of j j'] same_terms_def)
    have sum: "frozen_sum ?db' uid = frozen_sum ?db uid + (if bj_user j = uid then ?d else 0)"
      using sum_one_change [of "bt_jobs ?db" j j' "held (bt_billing ?db')" "held (bt_billing ?db)" uid] row user flags terms assms(3)
      by (auto simp: frozen_sum_def local_change_def row_of_def tables_ok_def held_def)
    have "map_option (\<lambda>x. x + (if uid = bj_user j then ?d else 0)) (frozen_of (bt_billing ?db) uid) = Some f"
      using assms(3) f same by (auto simp: local_change_def books_def frozen_moves_def option.map_ident split: if_splits)
    then obtain g where g: "frozen_of (bt_billing ?db) uid = Some g" "f = g + (if uid = bj_user j then ?d else 0)" by auto
    have "g = frozen_sum ?db uid" using g(1) assms(1) by (simp add: batch_inv_def)
    with g(2) sum show ?thesis by auto
  qed
  show ?thesis unfolding batch_inv_def using t(1) jobs free others frozen by blast
qed


section \<open>Steps\<close>

lemma get_job_Some: "get_job b db = Some j \<Longrightarrow> j \<in> set (bt_jobs db) \<and> bj_id j = b"
  by (auto simp: get_job_def find_Some_iff)

lemma get_job_None: "get_job b db = None \<longleftrightarrow> \<not> has_row db b"
  by (auto simp: get_job_def has_row_def find_None_iff)

lemma inv_row: "batch_inv s \<Longrightarrow> j \<in> set (bt_jobs (by_db s)) \<Longrightarrow>
  row_of j (by_db s) \<and> job_ok (bt_billing (by_db s)) j (by_submit s (bj_id j)) (by_work s (bj_id j))"
  by (simp add: batch_inv_def row_of_def)

lemma inv_free: "batch_inv s \<Longrightarrow> \<not> has_row (by_db s) b \<Longrightarrow>
  starting (bt_billing (by_db s)) b (by_submit s b) \<and> idle b (by_work s b)"
  by (simp add: batch_inv_def)

text \<open>Steps that leave the tables alone.\<close>

lemma lift_handlers:
  assumes "batch_inv s" "by_db s' = by_db s"
    and "\<And>j. j \<in> set (bt_jobs (by_db s)) \<Longrightarrow> job_ok (bt_billing (by_db s)) j (by_submit s' (bj_id j)) (by_work s' (bj_id j))"
    and "\<And>b. \<not> has_row (by_db s) b \<Longrightarrow> starting (bt_billing (by_db s)) b (by_submit s' b) \<and> idle b (by_work s' b)"
    and "\<And>n p. by_other s' n = Some p \<Longrightarrow> by_other s n = Some p \<or> other_well (by_db s) p"
  shows "batch_inv s'"
  using assms unfolding batch_inv_def by (auto dest!: assms(5))

lemma no_row_frame:
  assumes "\<not> has_row (by_db s) b" "j \<in> set (bt_jobs (by_db s))"
  shows "bj_id j \<noteq> b"
  using assms by (auto simp: has_row_def)

text \<open>A Submit.\<close>

definition can_submit :: "batch_db \<Rightarrow> batch_job \<Rightarrow> bool" where
  "can_submit db j \<longleftrightarrow> \<not> has_row db (bj_id j) \<and> fresh_job (bt_billing db) j"

lemma submit_start_inv:
  assumes "batch_inv s" "can_submit (by_db s) j"
  shows "batch_inv (batch_step sha s (Ev_submit j ids))"
proof (cases "by_submit s (bj_id j)")
  case None
  show ?thesis
  proof (rule lift_handlers [OF assms(1)])
    fix k assume k: "k \<in> set (bt_jobs (by_db s))"
    have "bj_id k \<noteq> bj_id j" using no_row_frame [OF _ k] assms(2) by (simp add: can_submit_def)
    with inv_row [OF assms(1) k] None
    show "job_ok (bt_billing (by_db s)) k (by_submit (batch_step sha s (Ev_submit j ids)) (bj_id k))
      (by_work (batch_step sha s (Ev_submit j ids)) (bj_id k))"
      by simp
  next
    fix b assume "\<not> has_row (by_db s) b"
    from inv_free [OF assms(1) this] assms(2) None
    show "starting (bt_billing (by_db s)) b (by_submit (batch_step sha s (Ev_submit j ids)) b) \<and>
      idle b (by_work (batch_step sha s (Ev_submit j ids)) b)"
      by (simp add: can_submit_def)
  qed (use None in simp_all)
qed (use assms(1) in simp)

lemma new_row_ok:
  assumes "fresh_job bd j" "idle (bj_id j) wp" "sp = None \<or> (\<exists>ids. sp = Some (Sub_reserve j ids))"
  shows "job_ok bd j sp wp"
proof -
  have "at_work j wp"
    using assms(2) by (cases "(bj_id j, wp)" rule: idle.cases) (auto simp: at_work_def)
  with assms show ?thesis by (auto simp: unsubmitted_iff fresh_job_def status_defs)
qed

lemma frozen_new:
  assumes "fresh_job (bt_billing db) j"
  shows "frozen_sum (db\<lparr>bt_jobs := bt_jobs db @ [j]\<rparr>) uid = frozen_sum db uid"
  using assms by (simp add: frozen_sum_def fresh_job_def held_def)

lemma create_inv:
  assumes "batch_inv s" "by_submit s b = Some (Sub_create j ids)" "\<not> has_row (by_db s) b"
    and "sp = None \<or> sp = Some (Sub_reserve j ids)"
    and "s' = s\<lparr>by_db := (by_db s)\<lparr>bt_jobs := bt_jobs (by_db s) @ [j]\<rparr>, by_submit := (by_submit s)(b := sp)\<rparr>"
  shows "batch_inv s'"
proof -
  let ?db = "by_db s" and ?db' = "by_db s'"
  have start: "bj_id j = b" "fresh_job (bt_billing ?db) j" "idle b (by_work s b)"
    using inv_free [OF assms(1,3)] assms(2) by simp_all
  have db': "bt_billing ?db' = bt_billing ?db" "set (bt_jobs ?db') = insert j (set (bt_jobs ?db))"
    "\<And>c. has_row ?db' c \<longleftrightarrow> has_row ?db c \<or> c = b"
    using start(1) by (auto simp: assms(5) has_row_def)
  have "tables_ok ?db'"
    using assms(1,3) start by (auto simp: batch_inv_def tables_ok_def assms(5) fresh_job_def has_row_def)
  moreover have "job_ok (bt_billing ?db') k (by_submit s' (bj_id k)) (by_work s' (bj_id k))" if "k \<in> set (bt_jobs ?db')" for k
  proof (cases "k = j")
    case True
    with new_row_ok [of "bt_billing ?db" j "by_work s b" sp] start assms(4,5) show ?thesis by auto
  next
    case False
    with that db' have k: "k \<in> set (bt_jobs ?db)" by simp
    with inv_row [OF assms(1) k] no_row_frame [OF assms(3) k] show ?thesis by (simp add: assms(5))
  qed
  moreover have "starting (bt_billing ?db') c (by_submit s' c) \<and> idle c (by_work s' c)" if "\<not> has_row ?db' c" for c
    using that inv_free [OF assms(1), of c] db' by (simp add: assms(5))
  moreover have "other_well ?db' p" if "by_other s' n = Some p" for n p
    using that assms(1) by (auto simp: batch_inv_def other_well_def assms(5))
  moreover have "f = frozen_sum ?db' uid" if "frozen_of (bt_billing ?db') uid = Some f" for uid f
    using that assms(1) frozen_new [OF start(2)] by (simp add: batch_inv_def assms(5))
  ultimately show ?thesis by (simp add: batch_inv_def)
qed

lemma submit_step_inv:
  assumes "batch_inv s" "by_submit s b = Some p"
    and "\<And>j. get_job b (by_db s) = Some j \<Longrightarrow> submit_call_ok (bj_status j) p"
  shows "batch_inv (batch_step sha s (Ev_submit_step b an))"
proof -
  obtain q db where call: "submit_call sha an p (by_db s) = (q, db)" by fastforce
  let ?s' = "s\<lparr>by_db := db, by_submit := (by_submit s)(b := q)\<rparr>"
  have step: "batch_step sha s (Ev_submit_step b an) = ?s'" using assms(2) call by simp
  show ?thesis
  proof (cases "get_job b (by_db s)")
    case (Some j)
    from get_job_Some [OF this] have j: "j \<in> set (bt_jobs (by_db s))" "bj_id j = b" by auto
    from submit_call_local [OF call, of j] inv_row [OF assms(1) j(1)] assms(2) assms(3) [OF Some] j(2)
    obtain j' where "local_change j j' (by_db s) db" "job_ok (bt_billing db) j' q (by_work s b)" by auto
    with j show ?thesis unfolding step by (intro lift_change [OF assms(1) j(1), of j']) auto
  next
    case None
    then have n: "\<not> has_row (by_db s) b" by (simp add: get_job_None)
    with inv_free [OF assms(1)] assms(2) obtain j ids where p: "p = Sub_create j ids" "bj_id j = b"
      by (cases p) fastforce+
    consider "db = by_db s" "q = None"
      | "db = (by_db s)\<lparr>bt_jobs := bt_jobs (by_db s) @ [j]\<rparr>" "q = None \<or> q = Some (Sub_reserve j ids)"
      using call p None by (cases "an_fate an") (auto simp: statement_def create_job_def)
    then show ?thesis
    proof cases
      case 1
      have "batch_inv (s\<lparr>by_submit := (by_submit s)(b := None)\<rparr>)"
        by (rule lift_handlers [OF assms(1)])
          (use inv_row [OF assms(1)] inv_free [OF assms(1)] no_row_frame [OF n] in auto)
      with 1 show ?thesis unfolding step by simp
    next
      case 2
      have "by_submit s b = Some (Sub_create j ids)" using assms(2) p(1) by simp
      from create_inv [OF assms(1) this n 2(2) refl] show ?thesis unfolding step 2(1) .
    qed
  qed
qed

text \<open>The worker.\<close>

lemma work_start_inv:
  assumes "batch_inv s"
  shows "batch_inv (batch_step sha s (Ev_work b))"
proof (cases "by_work s b")
  case None
  have "job_ok (bt_billing (by_db s)) j (by_submit s b) (Some (Work_read b))" if "j \<in> set (bt_jobs (by_db s))" "bj_id j = b" for j
    using inv_row [OF assms that(1)] that None by (auto intro: work_phase_change [of _ _ _ None])
  then have "batch_inv (s\<lparr>by_work := (by_work s)(b \<mapsto> Work_read b)\<rparr>)"
    by (intro lift_handlers [OF assms]) (use inv_row [OF assms] inv_free [OF assms] in auto)
  with None show ?thesis by simp
qed (use assms in simp)

lemma work_dies_inv:
  assumes "batch_inv s" "\<not> marking (by_work s b)"
  shows "batch_inv (batch_step sha s (Ev_work_dies b))"
proof -
  have "job_ok (bt_billing (by_db s)) j (by_submit s b) None" if "j \<in> set (bt_jobs (by_db s))" "bj_id j = b" for j
    using inv_row [OF assms(1) that(1)] that assms(2) by (auto intro: work_phase_change [of _ _ _ "by_work s b"])
  then have "batch_inv (s\<lparr>by_work := (by_work s)(b := None)\<rparr>)"
    by (intro lift_handlers [OF assms(1)]) (use inv_row [OF assms(1)] inv_free [OF assms(1)] in auto)
  then show ?thesis by simp
qed

lemma idle_call:
  assumes "work_call sha an p db = (q, db')" "idle b (Some p)" "\<not> has_row db b"
  shows "db' = db \<and> q = None"
proof -
  have "get_job b db = None" using assms(3) by (simp add: get_job_None)
  with assms(1,2) show ?thesis by (cases "(b, Some p)" rule: idle.cases) auto
qed

lemma work_step_inv:
  assumes "batch_inv s" "by_work s b = Some p" "work_call_ok (an_fate an) (by_submit s b) p"
  shows "batch_inv (batch_step sha s (Ev_work_step b an))"
proof -
  obtain q db where call: "work_call sha an p (by_db s) = (q, db)" by fastforce
  let ?s' = "s\<lparr>by_db := db, by_work := (by_work s)(b := q)\<rparr>"
  have step: "batch_step sha s (Ev_work_step b an) = ?s'" using assms(2) call by simp
  show ?thesis
  proof (cases "get_job b (by_db s)")
    case (Some j)
    from get_job_Some [OF this] have j: "j \<in> set (bt_jobs (by_db s))" "bj_id j = b" by auto
    from work_call_local [OF call, of j "by_submit s b"] inv_row [OF assms(1) j(1)] assms(2,3) j(2)
    obtain j' where "local_change j j' (by_db s) db" "job_ok (bt_billing db) j' (by_submit s b) q" by auto
    with j show ?thesis unfolding step by (intro lift_change [OF assms(1) j(1), of j']) auto
  next
    case None
    then have n: "\<not> has_row (by_db s) b" by (simp add: get_job_None)
    with inv_free [OF assms(1) n] assms(2) idle_call [OF call, of b] have "db = by_db s" "q = None" by simp_all
    moreover have "batch_inv (s\<lparr>by_work := (by_work s)(b := None)\<rparr>)"
      by (rule lift_handlers [OF assms(1)])
        (use inv_row [OF assms(1)] inv_free [OF assms(1)] no_row_frame [OF n] in auto)
    ultimately show ?thesis unfolding step by simp
  qed
qed

text \<open>The other handlers.\<close>

fun other_job :: "other_phase \<Rightarrow> string" where
  "other_job (Again_read b) = b"
| "other_job (Again_enqueue k) = bj_id k"
| "other_job (Again_failed k) = bj_id k"
| "other_job (Can_read b) = b"
| "other_job (Can_provider k) = bj_id k"
| "other_job (Can_transition k) = bj_id k"
| "other_job (Can_release k) = bj_id k"
| "other_job (Rec_fail k cutoff) = bj_id k"
| "other_job (Rec_release k) = bj_id k"

lemma other_ok_id: "other_ok j p \<Longrightarrow> bj_id j = other_job p"
  by (cases p) (auto simp: same_terms_def)

lemma other_start_inv:
  assumes "batch_inv s"
  shows "batch_inv (batch_step sha s (Ev_other n p))"
proof (cases "by_other s n = None \<and> other_start (by_db s) p")
  case True
  then have "other_well (by_db s) p" by (cases p) (auto simp: other_well_def intro!: bexI)
  then have "batch_inv (s\<lparr>by_other := (by_other s)(n \<mapsto> p)\<rparr>)"
    by (intro lift_handlers [OF assms]) (use inv_row [OF assms] inv_free [OF assms] in \<open>auto split: if_splits\<close>)
  with True show ?thesis by simp
qed (use assms in auto)

lemma other_step_inv:
  assumes "batch_inv s" "by_other s n = Some p"
    and "\<And>j. get_job (other_job p) (by_db s) = Some j \<Longrightarrow> other_call_ok (bj_status j) (by_submit s (bj_id j)) p"
  shows "batch_inv (batch_step sha s (Ev_other_step n an))"
proof -
  obtain q db where call: "other_call sha an p (by_db s) = (q, db)" by fastforce
  let ?s' = "s\<lparr>by_db := db, by_other := (by_other s)(n := q)\<rparr>"
  have step: "batch_step sha s (Ev_other_step n an) = ?s'" using assms(2) call by simp
  have well: "other_well (by_db s) p" using assms(1,2) by (simp add: batch_inv_def)
  show ?thesis
  proof (cases "\<exists>j\<in>set (bt_jobs (by_db s)). other_ok j p")
    case True
    then obtain j where j: "j \<in> set (bt_jobs (by_db s))" "other_ok j p" by blast
    note row = inv_row [OF assms(1) j(1)]
    have "get_job (other_job p) (by_db s) = Some j" using get_job_row [of j "by_db s"] row other_ok_id [OF j(2)] by simp
    from other_call_local [OF call, of j] row j(2) assms(3) [OF this]
    obtain j' where "local_change j j' (by_db s) db" "job_ok (bt_billing db) j' (by_submit s (bj_id j)) (by_work s (bj_id j))"
      "\<forall>p'. q = Some p' \<longrightarrow> other_ok j' p'" by blast
    with j show ?thesis unfolding step by (intro lift_change [OF assms(1) j(1), of j']) (auto split: if_splits)
  next
    case False
    with well have "looking p" by (simp add: other_well_def)
    moreover have "get_job (other_job p) (by_db s) = None"
    proof (rule ccontr)
      assume "get_job (other_job p) (by_db s) \<noteq> None"
      then obtain j where "j \<in> set (bt_jobs (by_db s))" "bj_id j = other_job p" by (auto dest: get_job_Some)
      with False \<open>looking p\<close> show False by (cases p) auto
    qed
    ultimately have "db = by_db s" "q = None" using call by (cases p; auto)+
    moreover have "batch_inv (s\<lparr>by_other := (by_other s)(n := None)\<rparr>)"
      by (rule lift_handlers [OF assms(1)]) (use inv_row [OF assms(1)] inv_free [OF assms(1)] in \<open>auto split: if_splits\<close>)
    ultimately show ?thesis unfolding step by simp
  qed
qed

text \<open>Statements outside the handlers, and the rest of the bookkeeping.\<close>

lemma update_no_row: "\<not> has_row db b \<Longrightarrow> update_job b f db = db"
proof -
  assume "\<not> has_row db b"
  then have "map (\<lambda>j. if bj_id j = b then f j else j) (bt_jobs db) = bt_jobs db"
    by (intro map_idI) (auto simp: has_row_def)
  then show ?thesis by (simp add: update_job_def)
qed

lemma row_event_inv:
  assumes "batch_inv s" "by_db s' = update_job b f (by_db s)" "by_submit s' = by_submit s" "by_work s' = by_work s" "by_other s' = by_other s"
    and "\<And>j. same_terms j (f j)" "\<And>j. closed_status (bj_status j) \<Longrightarrow> closed_status (bj_status (f j))"
    and "\<And>bd j sp wp. job_ok bd j sp wp \<Longrightarrow> job_ok bd (f j) sp wp"
  shows "batch_inv s'"
proof (cases "has_row (by_db s) b")
  case True
  then obtain j where j: "j \<in> set (bt_jobs (by_db s))" "bj_id j = b" by (auto simp: has_row_def)
  note row = inv_row [OF assms(1) j(1)]
  have "local_change j (f j) (by_db s) (by_db s')"
    unfolding assms(2) by (rule local_row) (use row j assms(6,7) in auto)
  moreover have "job_ok (bt_billing (by_db s')) (f j) (by_submit s' (bj_id j)) (by_work s' (bj_id j))"
    using row assms(2-4,8) by (simp add: update_job_def)
  ultimately show ?thesis by (intro lift_change [OF assms(1) j(1)]) (use assms(3-5) in auto)
next
  case False
  with update_no_row have "by_db s' = by_db s" by (simp add: assms(2))
  with assms(1,3-5) show ?thesis by (simp add: batch_inv_def)
qed

lemma touch_inv:
  assumes "batch_inv s"
  shows "batch_inv (batch_step sha s (Ev_touch now b))"
proof (rule row_event_inv [OF assms])
  let ?f = "\<lambda>j. if bj_status j \<in> {Bat_created, Bat_uploading} then j\<lparr>bj_updated := now\<rparr> else j"
  show "by_db (batch_step sha s (Ev_touch now b)) = update_job b ?f (by_db s)" by (simp add: touch_submitting_def)
  have same: "same_row j (?f j)" for j
    by (simp add: same_row_def same_terms_def batch_hold_amount_def settlement_retry_exhausted_def split: option.split)
  then show "same_terms j (?f j)" for j unfolding same_row_def by blast
  show "job_ok bd j sp wp \<Longrightarrow> job_ok bd (?f j) sp wp" for bd j sp wp by (rule same_row_job [OF same])
qed simp_all

lemma deleted_job:
  assumes "job_ok bd j sp wp" "bj_status j = Bat_completed"
  shows "job_ok bd (j\<lparr>bj_status := Bat_output_deleted, bj_updated := now\<rparr>) sp wp"
proof -
  let ?j = "j\<lparr>bj_status := Bat_output_deleted, bj_updated := now\<rparr>"
  have t: "same_terms j ?j" by (simp add: same_terms_def batch_hold_amount_def split: option.split)
  then have a: "batch_hold_amount ?j = batch_hold_amount j" by (simp add: same_terms_def)
  have w: "\<not> marking wp" "\<And>p. wp = Some p \<Longrightarrow> idle (bj_id j) (Some p)"
  proof -
    show "idle (bj_id j) (Some p)" if "wp = Some p" for p
      using assms that
      by (cases "(released bd j, j, p)" rule: work_ok.cases;
          cases "(released bd j, j, case p of Work_settle q \<Rightarrow> q | _ \<Rightarrow> Settle_read [])" rule: settle_ok.cases)
        (auto simp: job_ok_def before_settling_def status_defs settlement_retry_exhausted_def)
    then show "\<not> marking wp" by (cases wp rule: marking.cases) auto
  qed
  have fl: "reserved bd ?j = reserved bd j" "captured bd ?j = captured bd j" "released bd ?j = released bd j"
    using same_terms_flags [OF t, of bd] by simp_all
  have none: "job_ok bd j sp None" by (rule work_phase_change [OF assms(1)]) (simp_all add: w(1))
  have "at_submit bd ?j sp"
    by (rule submit_move [of bd j]) (use none t fl assms(2) in \<open>auto simp: job_ok_def at_submit_def status_defs\<close>)
  then have "job_ok bd ?j sp None" using none assms(2) a fl by (simp add: paid_iff status_defs)
  then show ?thesis
  proof (rule work_phase_change)
    show "work_ok (released bd ?j) ?j p" if "wp = Some p" for p
      using w(2) [OF that] by (cases "(bj_id j, Some p)" rule: idle.cases) auto
  qed (simp add: w(1))
qed

lemma output_deleted_inv:
  assumes "batch_inv s"
  shows "batch_inv (batch_step sha s (Ev_output_deleted now b))"
proof (rule row_event_inv [OF assms])
  let ?f = "\<lambda>j. j\<lparr>bj_status := (if bj_status j = Bat_completed then Bat_output_deleted else bj_status j), bj_updated := now\<rparr>"
  show "by_db (batch_step sha s (Ev_output_deleted now b)) = update_job b ?f (by_db s)" by (simp add: mark_output_deleted_def)
  show "same_terms j (?f j)" for j by (simp add: same_terms_def batch_hold_amount_def split: option.split)
  show "closed_status (bj_status j) \<Longrightarrow> closed_status (bj_status (?f j))" for j by (auto simp: status_defs)
  show "job_ok bd (?f j) sp wp" if ok: "job_ok bd j sp wp" for bd j sp wp
  proof (cases "bj_status j = Bat_completed")
    case True
    with deleted_job [OF ok] show ?thesis by simp
  next
    case False
    then have "same_row j (?f j)"
      by (simp add: same_row_def same_terms_def batch_hold_amount_def settlement_retry_exhausted_def split: option.split)
    from same_row_job [OF this ok] show ?thesis .
  qed
qed simp_all

definition batch_prefixed :: "string \<Rightarrow> bool" where
  "batch_prefixed rid \<longleftrightarrow> has_prefix hold_prefix rid \<or> has_prefix capture_prefix rid \<or> has_prefix release_prefix rid"

lemma batch_ids_prefixed [simp]:
  "batch_prefixed (hold_request_id b)" "batch_prefixed (capture_request_id b)" "batch_prefixed (release_request_id b)"
  by (simp_all add: batch_prefixed_def has_prefix_def hold_request_id_def capture_request_id_def release_request_id_def)

fun outside_event :: "billing_event \<Rightarrow> bool" where
  "outside_event (Bill_request en c) = (\<not> batch_prefixed (trim_space (uc_request_id c)))"
| "outside_event (Bill_hold fate kind c) = False"
| "outside_event (Archive_claim key) = True"
| "outside_event (Top_up uid x) = True"

definition leaves_holds :: "billing_db \<Rightarrow> billing_db \<Rightarrow> bool" where
  "leaves_holds bd bd' \<longleftrightarrow> (exact_users bd \<longrightarrow> exact_users bd') \<and> (\<forall>uid. frozen_of bd' uid = frozen_of bd uid) \<and>
     (\<forall>key. batch_prefixed (fst key) \<longrightarrow> claimed bd' key = claimed bd key)"

lemma leaves_refl [simp]: "leaves_holds bd bd"
  by (simp add: leaves_holds_def)

lemma leaves_trans: "leaves_holds a b \<Longrightarrow> leaves_holds b c \<Longrightarrow> leaves_holds a c"
  by (auto simp: leaves_holds_def)

lemma same_money_leaves: "same_money a b \<Longrightarrow> leaves_holds a b"
  by (simp add: leaves_holds_def same_money_def exact_users_def frozen_of_def claimed_def)

lemma set_balance_leaves:
  assumes "bd_users bd uid = Some u"
  shows "leaves_holds bd (set_user uid (u\<lparr>bu_balance := round8 x\<rparr>) bd)"
proof -
  let ?bd' = "set_user uid (u\<lparr>bu_balance := round8 x\<rparr>) bd"
  have "exact_users ?bd'" if "exact_users bd"
  proof -
    have "100 dvd bu_frozen u" using that assms by (simp add: exact_users_def)
    with that show ?thesis by (simp add: exact_users_def set_user_def)
  qed
  moreover have "frozen_of ?bd' v = frozen_of bd v" for v using assms by (simp add: frozen_of_def set_user_def)
  moreover have "claimed ?bd' key = claimed bd key" for key by (simp add: claimed_def set_user_def)
  ultimately show ?thesis by (simp add: leaves_holds_def)
qed

lemma ledger_columns [simp]:
  "exact_users (bd\<lparr>bd_ledger := l\<rparr>) = exact_users bd" "frozen_of (bd\<lparr>bd_ledger := l\<rparr>) = frozen_of bd"
  "claimed (bd\<lparr>bd_ledger := l\<rparr>) = claimed bd"
  by (simp_all add: exact_users_def frozen_of_def claimed_def fun_eq_iff)

lemma leaves_ledger: "leaves_holds bd bd' \<Longrightarrow> leaves_holds bd (bd'\<lparr>bd_ledger := l\<rparr>)"
  by (simp add: leaves_holds_def)

lemma charge_balance_leaves:
  assumes "charge_balance c (res, bd) = Inr (res', bd')"
  shows "leaves_holds bd bd'"
proof (cases "uc_balance_cost c + ar_fallback res \<le> 0")
  case True
  with assms show ?thesis by (simp add: charge_balance_def)
next
  case False
  let ?x = "uc_balance_cost c + ar_fallback res"
  obtain u where u: "bd_users bd (uc_user_id c) = Some u"
    using assms False by (auto simp: charge_balance_def deduct_balance_def Let_def split: option.splits)
  then have "bd' = (set_user (uc_user_id c) (u\<lparr>bu_balance := round8 (bu_balance u - ?x)\<rparr>) bd)\<lparr>bd_ledger :=
      bd_ledger bd @ [((uc_request_id c, uc_api_key_id c), uc_user_id c, ?x)]\<rparr>"
    using assms False by (auto simp: charge_balance_def deduct_balance_def set_user_def Let_def)
  then show ?thesis using leaves_ledger [OF set_balance_leaves [OF u]] by simp
qed

lemma effects_leave:
  assumes "apply_effects en c bd = Inr (res, bd')"
  shows "leaves_holds bd bd'"
proof -
  obtain res1 bd1 res2 bd2 res3 bd3 where st: "charge_wallets en c (empty_result True, bd) = (res1, bd1)"
    "charge_balance c (res1, bd1) = Inr (res2, bd2)" "charge_key en c (res2, bd2) = Inr (res3, bd3)"
    "charge_account en c (res3, bd3) = Inr (res, bd')"
    by (rule apply_effects_steps [OF assms])
  have "leaves_holds bd bd1" by (rule same_money_leaves [OF charge_wallets_money [OF st(1)]])
  moreover have "leaves_holds bd1 bd2" by (rule charge_balance_leaves [OF st(2)])
  moreover have "leaves_holds bd2 bd3" using charge_key_money [OF st(3)] by (simp add: same_subs_def same_money_leaves)
  moreover have "leaves_holds bd3 bd'" using charge_account_money [OF st(4)] by (simp add: same_subs_def same_money_leaves)
  ultimately show ?thesis by (blast intro: leaves_trans)
qed

lemma outside_leaves:
  assumes "outside_event e"
  shows "leaves_holds bd (billing_step sha bd e)"
proof (cases e)
  case (Bill_request en c)
  let ?c = "normalize_command sha c" and ?bd' = "snd (apply_usage_billing sha en c bd)"
  let ?bd1 = "bd\<lparr>bd_dedup := (bd_dedup bd)((uc_request_id ?c, uc_api_key_id ?c) \<mapsto> uc_fingerprint ?c)\<rparr>"
  have rid: "uc_request_id ?c = trim_space (uc_request_id c)"
    by (simp add: normalize_command_def quantize_monetary_fields_def Let_def)
  consider "?bd' = bd" | r where "apply_effects en ?c ?bd1 = Inr (r, ?bd')"
    using apply_usage_billing_fresh [of sha en c bd] by blast
  then show ?thesis
  proof cases
    case 2
    have "leaves_holds bd ?bd1"
      using assms Bill_request rid by (auto simp: leaves_holds_def exact_users_def frozen_of_def claimed_def)
    with effects_leave [OF 2] Bill_request show ?thesis by (auto intro: leaves_trans)
  qed (simp add: Bill_request)
next
  case (Archive_claim key)
  then show ?thesis
    by (auto simp: archive_claim_def leaves_holds_def exact_users_def frozen_of_def claimed_def split: option.splits)
next
  case (Top_up uid x)
  then show ?thesis using set_balance_leaves by (auto split: option.split)
qed (use assms in simp)

lemma leaves_flags:
  assumes "leaves_holds bd bd'"
  shows "reserved bd' j = reserved bd j" "captured bd' j = captured bd j" "released bd' j = released bd j"
  using assms by (simp_all add: leaves_holds_def reserved_def captured_def released_def)

lemma billing_inv:
  assumes "batch_inv s" "outside_event e"
  shows "batch_inv (batch_step sha s (Ev_billing e))"
proof -
  let ?bd = "bt_billing (by_db s)" let ?bd' = "billing_step sha ?bd e"
  have l: "leaves_holds ?bd ?bd'" by (rule outside_leaves [OF assms(2)])
  note fl = leaves_flags [OF l]
  have "job_ok ?bd' j sp wp = job_ok ?bd j sp wp" for j sp wp by (rule job_ok_flags [OF fl])
  moreover have "starting ?bd' b sp = starting ?bd b sp" for b sp
    by (cases "(?bd, b, sp)" rule: starting.cases) (simp_all add: fresh_job_def fl)
  moreover have "held ?bd' = held ?bd" by (simp add: fun_eq_iff held_def fl)
  moreover have "exact_users ?bd \<Longrightarrow> exact_users ?bd'" "frozen_of ?bd' uid = frozen_of ?bd uid" for uid
    using l by (simp_all add: leaves_holds_def)
  ultimately show ?thesis
    using assms(1) by (simp add: batch_inv_def tables_ok_def has_row_def other_well_def frozen_sum_def)
qed

section \<open>Runs\<close>

text \<open>
  What the runs assume: a job is submitted once and under a new id; the capture of a settlement is answered, and when
  it took place the row is marked settled; nobody releases a hold that is being reserved; a failure to
  enqueue is not recorded while the job settles; requests use other ids than the holds do.
\<close>

fun batch_event_ok :: "batch_system \<Rightarrow> batch_event \<Rightarrow> bool" where
  "batch_event_ok s (Ev_submit j ids) = can_submit (by_db s) j"
| "batch_event_ok s (Ev_submit_step b an) =
     (case (by_submit s b, get_job b (by_db s)) of
        (Some p, Some j) \<Rightarrow> submit_call_ok (bj_status j) p
      | _ \<Rightarrow> True)"
| "batch_event_ok s (Ev_work_step b an) =
     (case by_work s b of None \<Rightarrow> True | Some p \<Rightarrow> work_call_ok (an_fate an) (by_submit s b) p)"
| "batch_event_ok s (Ev_work_dies b) = (\<not> marking (by_work s b))"
| "batch_event_ok s (Ev_other_step n an) =
     (case by_other s n of
        None \<Rightarrow> True
      | Some p \<Rightarrow>
          (case get_job (other_job p) (by_db s) of
             None \<Rightarrow> True
           | Some j \<Rightarrow> other_call_ok (bj_status j) (by_submit s (bj_id j)) p))"
| "batch_event_ok s (Ev_billing e) = outside_event e"
| "batch_event_ok s e = True"

lemma batch_step_inv:
  assumes "batch_inv s" "batch_event_ok s e"
  shows "batch_inv (batch_step sha s e)"
proof (cases e)
  case (Ev_submit_step b an)
  show ?thesis
  proof (cases "by_submit s b")
    case (Some p)
    show ?thesis
      unfolding Ev_submit_step
      by (rule submit_step_inv [OF assms(1) Some]) (use assms(2) Ev_submit_step Some in simp)
  qed (use Ev_submit_step assms(1) in simp)
next
  case (Ev_work_step b an)
  show ?thesis
  proof (cases "by_work s b")
    case (Some p)
    show ?thesis
      unfolding Ev_work_step
      by (rule work_step_inv [OF assms(1) Some]) (use assms(2) Ev_work_step Some in simp)
  qed (use Ev_work_step assms(1) in simp)
next
  case (Ev_other_step n an)
  show ?thesis
  proof (cases "by_other s n")
    case (Some p)
    show ?thesis
      unfolding Ev_other_step
      by (rule other_step_inv [OF assms(1) Some]) (use assms(2) Ev_other_step Some in simp)
  qed (use Ev_other_step assms(1) in simp)
next
  case (Ev_submit j ids)
  with assms(2) submit_start_inv [OF assms(1)] show ?thesis by simp
next
  case (Ev_work_dies b)
  with assms(2) work_dies_inv [OF assms(1), of b sha] show ?thesis by simp
next
  case (Ev_billing e)
  with assms(2) billing_inv [OF assms(1)] show ?thesis by simp
qed (simp_all only: work_start_inv [OF assms(1)] other_start_inv [OF assms(1)] touch_inv [OF assms(1)] output_deleted_inv [OF assms(1)])

interpretation batch: invariant_machine batch_event_ok "batch_step sha" batch_inv for sha
  by unfold_locales (rule batch_step_inv)

end
