(* ===== verification/BatchProperties.thy ===== *)
theory BatchProperties
  imports BatchRuns
begin

text \<open>
  What the batches of images do with the money of a user: within the assumptions of \<open>batch_event_ok\<close> every hold ends once,
  and two runs outside of them in which one does not.
\<close>

section \<open>Holds end once\<close>

definition empty_system :: "billing_db \<Rightarrow> batch_system" where
  "empty_system bd =
     \<lparr>by_db = \<lparr>bt_jobs = [], bt_items = (\<lambda>_. []), bt_billing = bd\<rparr>, by_submit = (\<lambda>_. None), by_work = (\<lambda>_. None),
      by_other = (\<lambda>_. None)\<rparr>"

definition nothing_frozen :: "billing_db \<Rightarrow> bool" where
  "nothing_frozen bd \<longleftrightarrow> exact_users bd \<and> (\<forall>uid u. bd_users bd uid = Some u \<longrightarrow> bu_frozen u = 0)"

lemma empty_system_inv: "nothing_frozen bd \<Longrightarrow> batch_inv (empty_system bd)"
  by (auto simp: batch_inv_def empty_system_def tables_ok_def nothing_frozen_def frozen_of_def frozen_sum_def has_row_def)

lemma job_ends_once:
  assumes "job_ok bd j sp wp"
  shows "\<not> (captured bd j \<and> released bd j)"
    and "paid_status (bj_status j) \<Longrightarrow> captured bd j \<and> (0 < batch_hold_amount j \<longrightarrow> reserved bd j)"
    and "captured bd j \<Longrightarrow> paid_status (bj_status j) \<or> bj_status j = Bat_settling"
proof -
  show "captured bd j \<Longrightarrow> paid_status (bj_status j) \<or> bj_status j = Bat_settling"
    and "paid_status (bj_status j) \<Longrightarrow> captured bd j \<and> (0 < batch_hold_amount j \<longrightarrow> reserved bd j)"
    using assms by (auto simp: job_ok_def row_ok_def status_defs)
  show "\<not> (captured bd j \<and> released bd j)"
  proof (cases "bj_status j = Bat_settling")
    case True
    then show ?thesis
      using assms by (cases wp rule: marking.cases) (auto simp: job_ok_def row_ok_def status_defs)
  next
    case False
    with assms show ?thesis by (auto simp: job_ok_def row_ok_def unexhausted status_defs)
  qed
qed

text \<open>
  C11: Holds of batches of images end once. Whatever Submits, workers, cancellations, recoveries, requests and failures
  are interleaved within \<open>batch_event_ok\<close>, from tables with no job: the hold of a job is never both captured and released;
  a job is completed only when its hold was captured, and captured only when it is
  completed or about to be; and the frozen balance of every user is the sum of what his open holds reserved,
  so no other batch pays for one that ended.
\<close>

theorem holds_end_once:
  assumes "nothing_frozen bd" "admissible batch_event_ok (batch_step sha) (empty_system bd) es"
    and "db = by_db (run_steps (batch_step sha) (empty_system bd) es)"
  shows "(\<forall>j\<in>set (bt_jobs db).
      \<not> (captured (bt_billing db) j \<and> released (bt_billing db) j) \<and>
      (bj_status j \<in> {Bat_completed, Bat_output_deleted} \<longrightarrow>
         captured (bt_billing db) j \<and> (0 < batch_hold_amount j \<longrightarrow> reserved (bt_billing db) j)) \<and>
      (captured (bt_billing db) j \<longrightarrow> bj_status j \<in> {Bat_settling, Bat_completed, Bat_output_deleted})) \<and>
    (\<forall>uid u. bd_users (bt_billing db) uid = Some u \<longrightarrow>
       bu_frozen u = (\<Sum>j\<leftarrow>filter (\<lambda>j. bj_user j = uid) (bt_jobs db).
         if reserved (bt_billing db) j \<and> \<not> captured (bt_billing db) j \<and> \<not> released (bt_billing db) j
         then max 0 (batch_hold_amount j) else 0))"
proof -
  let ?s = "run_steps (batch_step sha) (empty_system bd) es"
  have inv: "batch_inv ?s" by (rule batch.inv_run [OF empty_system_inv [OF assms(1)] assms(2)])
  have "\<forall>uid f. frozen_of (bt_billing db) uid = Some f \<longrightarrow> f = frozen_sum db uid"
    using inv by (simp add: batch_inv_def assms(3))
  then have "bu_frozen u = frozen_sum db uid" if "bd_users (bt_billing db) uid = Some u" for uid u
    using that by (simp add: frozen_of_def)
  then have "bu_frozen u = (\<Sum>j\<leftarrow>filter (\<lambda>j. bj_user j = uid) (bt_jobs db).
      if reserved (bt_billing db) j \<and> \<not> captured (bt_billing db) j \<and> \<not> released (bt_billing db) j
      then max 0 (batch_hold_amount j) else 0)" if "bd_users (bt_billing db) uid = Some u" for uid u
    using that by (simp add: frozen_sum_def held_def [abs_def])
  moreover have "\<not> (captured (bt_billing db) j \<and> released (bt_billing db) j) \<and>
      (bj_status j \<in> {Bat_completed, Bat_output_deleted} \<longrightarrow>
         captured (bt_billing db) j \<and> (0 < batch_hold_amount j \<longrightarrow> reserved (bt_billing db) j)) \<and>
      (captured (bt_billing db) j \<longrightarrow> bj_status j \<in> {Bat_settling, Bat_completed, Bat_output_deleted})"
    if "j \<in> set (bt_jobs db)" for j
  proof -
    have "job_ok (bt_billing db) j (by_submit ?s (bj_id j)) (by_work ?s (bj_id j))"
      using inv that by (simp add: batch_inv_def assms(3))
    from job_ends_once [OF this] show ?thesis by (auto simp: paid_status_def)
  qed
  ultimately show ?thesis by blast
qed

section \<open>Runs\<close>

definition example_job :: "string \<Rightarrow> batch_job" where
  "example_job b =
     \<lparr>bj_id = b, bj_user = 3, bj_key = Some 5, bj_account = Some 9, bj_provider = ''p'', bj_model = ''m'',
      bj_status = Bat_created, bj_provider_job = None, bj_output_ref = None, bj_item_count = 1, bj_success = 0, bj_fail = 0,
      bj_estimated = 100000000000, bj_hold = Some 100000000000, bj_actual = None, bj_unit_price = 40000000000,
      bj_snapshot_version = 1, bj_request_hash = None, bj_manifest = None, bj_retry = 0, bj_error_code = None, bj_updated = 0\<rparr>"

definition rich_user :: billing_db where
  "rich_user =
     \<lparr>bd_subs = [], bd_users = [3 \<mapsto> \<lparr>bu_balance = 1000000000000, bu_frozen = 0\<rparr>],
      bd_keys = (\<lambda>_. None), bd_accounts = (\<lambda>_. None), bd_dedup = (\<lambda>_. None), bd_archive = (\<lambda>_. None),
      bd_outbox = [], bd_ledger = []\<rparr>"

definition good_answer :: batch_answer where
  "good_answer =
     \<lparr>an_fate = Tx_committed, an_now = 1, an_ok = True, an_price = None, an_provider_job = Some (''n'', []),
      an_status = Some \<lparr>ps_state = Pv_succeeded, ps_error_code = [], ps_output_ref = []\<rparr>, an_output = Some [Some (''i'', True)]\<rparr>"

lemmas batch_evals = empty_system_def example_job_def rich_user_def good_answer_def statement_def create_job_def get_job_def
  on_billing_def reserve_balance_hold_def capture_balance_hold_def release_balance_hold_def build_hold_command_def batch_hold_amount_def
  deref_string_def apply_hold_def normalize_hold_def Let_def finish_tx_def claim_request_def and_then_def
  reserve_hold_def capture_hold_def release_hold_def claimed_def set_user_def round8_def
  create_items_def move_then_def transition_def update_job_def can_transition_def is_terminal_batch_def release_then_def
  update_provider_submit_def done_status_def

lemma trims: "trim_space ''a'' = ''a''" "trim_space ''b'' = ''b''" "trim_space [] = []"
  "trim_space (hold_request_id ''a'') = hold_request_id ''a''"
  "trim_space (capture_request_id ''a'') = capture_request_id ''a''"
  "trim_space (release_request_id ''a'') = release_request_id ''a''"
  "trim_space (hold_request_id ''b'') = hold_request_id ''b''"
  by (simp_all add: trim_space_def strip_left.simps strip_one_def utf8_spaces_code hold_request_id_def capture_request_id_def
    release_request_id_def hold_prefix_def capture_prefix_def release_prefix_def)

lemma request_ids [simp]:
  "hold_request_id b \<noteq> []" "capture_request_id b \<noteq> []" "release_request_id b \<noteq> []"
  by (simp_all add: hold_request_id_def capture_request_id_def release_request_id_def hold_prefix_def capture_prefix_def
    release_prefix_def)

lemma request_id_eq: "hold_request_id ''a'' \<noteq> hold_request_id ''b''" "hold_request_id ''b'' \<noteq> hold_request_id ''a''"
  by (simp_all add: hold_request_id_def trims)

lemma more_trims: "trim_space ''n'' = ''n''" "trim_space ''QUEUE_FAILED'' = ''QUEUE_FAILED''"
  "trim_space (release_request_id ''b'') = release_request_id ''b''"
  "trim_space (capture_request_id ''b'') = capture_request_id ''b''"
  by (simp_all add: trim_space_def strip_left.simps strip_one_def utf8_spaces_code capture_request_id_def
    release_request_id_def capture_prefix_def release_prefix_def)

lemmas work_evals = replace_items_def index_result_def process_state_def settle_decision_def settlement_unit_price_def
  settlement_retry_exhausted_def settlement_max_retries_def cost_epsilon_def set_settlement_failed_def





definition hold_fp :: "(string \<Rightarrow> string) \<Rightarrow> string \<Rightarrow> string" where
  "hold_fp sha b = build_hold_fingerprint sha
     \<lparr>hc_request_id = [], hc_api_key_id = 5, hc_fingerprint = [], hc_payload_hash = [], hc_user_id = 3, hc_batch_id = b,
      hc_hold_amount = 100000000000, hc_actual_amount = 0\<rparr>"






text \<open>Two jobs of one user: the worker is at the first one, the second one has its hold.\<close>

definition submitted_run :: "batch_event list" where
  "submitted_run =
     [Ev_submit (example_job ''a'') [''i''], Ev_submit_step ''a'' good_answer, Ev_submit_step ''a'' good_answer,
      Ev_submit_step ''a'' good_answer, Ev_submit_step ''a'' good_answer, Ev_submit_step ''a'' good_answer,
      Ev_submit_step ''a'' good_answer, Ev_submit_step ''a'' good_answer,
      Ev_submit (example_job ''b'') [''i''], Ev_submit_step ''b'' good_answer, Ev_submit_step ''b'' good_answer]"

definition job_a :: "batch_status \<Rightarrow> batch_job" where
  "job_a st = (example_job ''a'')
     \<lparr>bj_status := st, bj_provider_job := Some ''n'', bj_success := (if st = Bat_settling then 1 else 0), bj_updated := 1\<rparr>"

definition two_holds :: "(string \<Rightarrow> string) \<Rightarrow> billing_db" where
  "two_holds sha = rich_user
     \<lparr>bd_users := [3 \<mapsto> \<lparr>bu_balance = 800000000000, bu_frozen = 200000000000\<rparr>],
      bd_dedup := [(hold_request_id ''a'', 5) \<mapsto> hold_fp sha ''a'', (hold_request_id ''b'', 5) \<mapsto> hold_fp sha ''b'']\<rparr>"

definition at_a :: "billing_db \<Rightarrow> batch_job \<Rightarrow> work_phase option \<Rightarrow> batch_system" where
  "at_a bd j wp =
     \<lparr>by_db = \<lparr>bt_jobs = [j, example_job ''b''], bt_items = (\<lambda>_. [])(''a'' := [''i'']), bt_billing = bd\<rparr>,
      by_submit = [''b'' \<mapsto> Sub_items (example_job ''b'') [''i'']], by_work = (\<lambda>_. None)(''a'' := wp), by_other = (\<lambda>_. None)\<rparr>"

lemma submitted_run_end: "run_steps (batch_step sha) (empty_system rich_user) submitted_run = at_a (two_holds sha) (job_a Bat_submitted) None"
  by (simp add: submitted_run_def at_a_def two_holds_def job_a_def hold_fp_def build_hold_fingerprint_def batch_evals trims more_trims
    request_id_eq)

abbreviation work_a :: "batch_answer \<Rightarrow> batch_event" where
  "work_a \<equiv> Ev_work_step ''a''"

lemma job_a_id [simp]: "bj_id (job_a st) = ''a''" "bj_status (job_a st) = st"
  by (simp_all add: job_a_def example_job_def)

lemma at_a_step:
  assumes "work_call sha an p (by_db (at_a bd j (Some p))) = (q, by_db (at_a bd' j' q))"
  shows "batch_step sha (at_a bd j (Some p)) (work_a an) = at_a bd' j' q"
  using assms by (simp add: at_a_def)

lemma at_a_start: "batch_step sha (at_a bd j None) (Ev_work ''a'') = at_a bd j (Some (Work_read ''a''))"
  by (simp add: at_a_def)

lemma at_a_job: "bj_id j = ''a'' \<Longrightarrow> get_job ''a'' (by_db (at_a bd j wp)) = Some j"
  "bj_id j = ''a'' \<Longrightarrow> update_job ''a'' f (by_db (at_a bd j wp)) = by_db (at_a bd (f j) wp')"
  by (simp_all add: at_a_def get_job_def update_job_def example_job_def)

lemma at_a_read:
  "bj_id j = ''a'' \<Longrightarrow> batch_step sha (at_a bd j (Some (Work_read ''a''))) (work_a an) =
     at_a bd j (Some (if bj_status j = Bat_settling then Work_settle (Settle_read ''a'') else Work_process ''a''))"
  by (rule at_a_step) (simp add: at_a_job, simp add: at_a_def)

lemma job_a_row: "moved_row 1 st None (job_a st') = job_a st" if "st \<noteq> Bat_settling" "st' \<noteq> Bat_settling" "st \<noteq> Bat_failed"
  using that by (simp add: moved_row_def job_a_def example_job_def)

lemma worker_steps:
  "batch_step sha (at_a bd (job_a Bat_submitted) (Some (Work_process ''a''))) (work_a good_answer) =
     at_a bd (job_a Bat_submitted) (Some (Work_get (job_a Bat_submitted)))"
  "batch_step sha (at_a bd (job_a Bat_submitted) (Some (Work_get (job_a Bat_submitted)))) (work_a good_answer) =
     at_a bd (job_a Bat_submitted) (Some (Work_state (job_a Bat_submitted) \<lparr>ps_state = Pv_succeeded, ps_error_code = [], ps_output_ref = []\<rparr>))"
  "batch_step sha (at_a bd (job_a Bat_submitted) (Some (Work_state (job_a Bat_submitted) \<lparr>ps_state = Pv_succeeded, ps_error_code = [], ps_output_ref = []\<rparr>))) (work_a good_answer) =
     at_a bd (job_a Bat_indexing) (Some (Work_index (job_a Bat_indexing)))"
  "batch_step sha (at_a bd (job_a Bat_indexing) (Some (Work_index (job_a Bat_indexing)))) (work_a good_answer) =
     at_a bd (job_a Bat_indexing) (Some (Work_replace (job_a Bat_indexing) [''i''] 1 0))"
  by (rule at_a_step; simp add: at_a_def job_a_def batch_evals trims more_trims work_evals)+

lemma settling_steps:
  "batch_step sha (at_a bd (job_a Bat_indexing) (Some (Work_replace (job_a Bat_indexing) [''i''] 1 0))) (work_a good_answer) =
     at_a bd ((job_a Bat_indexing)\<lparr>bj_success := 1\<rparr>) (Some (Work_settling (job_a Bat_indexing)))"
  "batch_step sha (at_a bd ((job_a Bat_indexing)\<lparr>bj_success := 1\<rparr>) (Some (Work_settling (job_a Bat_indexing)))) (work_a good_answer) =
     at_a bd (job_a Bat_settling) None"
  by (rule at_a_step; simp add: at_a_def job_a_def batch_evals trims more_trims work_evals)+

definition worker_run :: "batch_event list" where
  "worker_run = [Ev_work ''a'', work_a good_answer, work_a good_answer, work_a good_answer, work_a good_answer, work_a good_answer,
     work_a good_answer, work_a good_answer]"

lemma worker_run_end: "run_steps (batch_step sha) (at_a bd (job_a Bat_submitted) None) worker_run = at_a bd (job_a Bat_settling) None"
  by (simp add: worker_run_def at_a_start at_a_read worker_steps settling_steps del: batch_step.simps)

text \<open>The settlement that succeeds.\<close>

definition paid_a :: "(string \<Rightarrow> string) \<Rightarrow> billing_db" where
  "paid_a sha = rich_user
     \<lparr>bd_users := [3 \<mapsto> \<lparr>bu_balance = 860000000000, bu_frozen = 100000000000\<rparr>],
      bd_dedup := [(hold_request_id ''a'', 5) \<mapsto> hold_fp sha ''a'', (hold_request_id ''b'', 5) \<mapsto> hold_fp sha ''b'',
        (capture_request_id ''a'', 5) \<mapsto> build_hold_fingerprint sha
           \<lparr>hc_request_id = [], hc_api_key_id = 5, hc_fingerprint = [], hc_payload_hash = trim_space (manifest_hash_of sha (job_a Bat_settling)),
            hc_user_id = 3, hc_batch_id = ''a'', hc_hold_amount = 100000000000, hc_actual_amount = 40000000000\<rparr>],
      bd_ledger := [((capture_request_id ''a'', 5), 3, 40000000000)]\<rparr>"

lemma settle_read_step:
  "batch_step sha (at_a bd (job_a Bat_settling) (Some (Work_settle (Settle_read ''a'')))) (work_a good_answer) =
     at_a bd (job_a Bat_settling) (Some (Work_settle (Settle_call (job_a Bat_settling) 40000000000)))"
  by (rule at_a_step) (simp add: at_a_def job_a_def batch_evals trims work_evals)

lemma settle_capture_step:
  "batch_step sha (at_a (two_holds sha) (job_a Bat_settling) (Some (Work_settle (Settle_call (job_a Bat_settling) 40000000000)))) (work_a good_answer) =
     at_a (paid_a sha) (job_a Bat_settling) (Some (Work_settle (Settle_mark (job_a Bat_settling) 40000000000)))"
  by (rule at_a_step) (simp add: at_a_def job_a_def two_holds_def paid_a_def hold_fp_def batch_evals trims build_hold_fingerprint_def request_id_eq)


lemma settle_mark_step:
  "batch_step sha (at_a bd (job_a Bat_settling) (Some (Work_settle (Settle_mark (job_a Bat_settling) 40000000000)))) (work_a good_answer) =
     at_a bd ((job_a Bat_settling)\<lparr>bj_status := Bat_completed, bj_actual := Some 40000000000,
       bj_manifest := Some (manifest_hash_of sha (job_a Bat_settling))\<rparr>) None"
  by (rule at_a_step) (simp add: at_a_def job_a_def batch_evals mark_settled_def)

text \<open>The settlement whose capture is not answered, and the retries.\<close>

definition retry_a :: "int \<Rightarrow> string \<Rightarrow> batch_job" where
  "retry_a n ec = (job_a Bat_settling)\<lparr>bj_retry := n, bj_error_code := Some ec\<rparr>"

lemma retry_a_fields [simp]: "bj_id (retry_a n ec) = ''a''" "bj_status (retry_a n ec) = Bat_settling"
  by (simp_all add: retry_a_def)













text \<open>The run that completes a job stays within the assumptions.\<close>

lemma at_a_ok: "batch_event_ok (at_a bd j (Some p)) (work_a an) = work_call_ok (an_fate an) None p"
  "batch_event_ok s (Ev_work b)"
  by (simp_all add: at_a_def)

lemma submitted_run_ok: "admissible batch_event_ok (batch_step sha) (empty_system rich_user) submitted_run"
  by (simp add: submitted_run_def can_submit_def has_row_def fresh_job_def terms_ok_def id_ok_def reserved_def captured_def released_def job_key_def
    batch_evals trims more_trims request_id_eq)

definition complete_run :: "batch_event list" where
  "complete_run = submitted_run @ worker_run @
     [Ev_work ''a'', work_a good_answer, work_a good_answer, work_a good_answer, work_a good_answer]"

lemma complete_run_ok: "admissible batch_event_ok (batch_step sha) (empty_system rich_user) complete_run"
proof -
  have "an_fate good_answer = Tx_committed" by (simp add: good_answer_def)
  then show ?thesis
    by (simp add: complete_run_def admissible_append submitted_run_ok submitted_run_end worker_run_end worker_run_def at_a_ok at_a_start at_a_read
      worker_steps settling_steps settle_read_step settle_capture_step del: batch_step.simps batch_event_ok.simps)
qed

lemma complete_run_end:
  "run_steps (batch_step sha) (empty_system rich_user) complete_run =
     at_a (paid_a sha) ((job_a Bat_settling)\<lparr>bj_status := Bat_completed, bj_actual := Some 40000000000,
       bj_manifest := Some (manifest_hash_of sha (job_a Bat_settling))\<rparr>) None"
  by (simp add: complete_run_def run_steps_append submitted_run_end worker_run_end at_a_start at_a_read settle_read_step settle_capture_step
    settle_mark_step del: batch_step.simps)

lemma rich_user_ok: "nothing_frozen rich_user"
  by (simp add: nothing_frozen_def exact_users_def rich_user_def)

theorem holds_end_once_witness:
  "let db = by_db (run_steps (batch_step (\<lambda>s. s)) (empty_system rich_user) complete_run); a = hd (bt_jobs db)
   in admissible batch_event_ok (batch_step (\<lambda>s. s)) (empty_system rich_user) complete_run \<and> bj_status a = Bat_completed \<and>
      captured (bt_billing db) a \<and> \<not> released (bt_billing db) a \<and> bd_users (bt_billing db) 3 = Some \<lparr>bu_balance = 860000000000, bu_frozen = 100000000000\<rparr>"
proof -
  let ?db = "by_db (run_steps (batch_step (\<lambda>s. s)) (empty_system rich_user) complete_run)"
  have a: "hd (bt_jobs ?db) \<in> set (bt_jobs ?db)" "bj_status (hd (bt_jobs ?db)) = Bat_completed"
    "bd_users (bt_billing ?db) 3 = Some \<lparr>bu_balance = 860000000000, bu_frozen = 100000000000\<rparr>"
    by (simp_all add: complete_run_end at_a_def paid_a_def)
  note holds_end_once [OF rich_user_ok complete_run_ok [of "\<lambda>s. s"] refl]
  with a have "captured (bt_billing ?db) (hd (bt_jobs ?db))" "\<not> released (bt_billing ?db) (hd (bt_jobs ?db))"
    by auto
  with a complete_run_ok show ?thesis by (simp add: Let_def)
qed

end
