(* ===== verification/WalletCharges.thy ===== *)
theory WalletCharges
  imports UsageBillingProperties
begin

text \<open>
  How a request changes the subscriptions (\<open>applySubscriptionCost\<close> of repository/usage_billing_repo.go): the cost is
  covered by the wallets and the balance together, only the wallets of the user grow, never past their limits, and the
  rows stay well-typed.
\<close>


section \<open>The cost is covered\<close>

definition total_usage :: "billing_db \<Rightarrow> usd" where
  "total_usage db = sum_list (map us_total_usage (bd_subs db))"

definition sub_ids :: "billing_db \<Rightarrow> int list" where
  "sub_ids db = map us_id (bd_subs db)"

lemma update_sub_ids [simp]: "(\<And>s. us_id (f s) = us_id s) \<Longrightarrow> sub_ids (update_sub i f db) = sub_ids db"
  by (simp add: sub_ids_def update_sub_def)

lemma fold_update_sub_ids:
  "(\<And>r s. us_id (f r s) = us_id s) \<Longrightarrow> sub_ids (fold (\<lambda>r. update_sub (us_id r) (f r)) rows db) = sub_ids db"
  by (induction rows arbitrary: db) simp_all

lemma lock_wallets_ids: "sub_ids (snd (lock_wallets en uid db)) = sub_ids db"
  by (simp add: lock_wallets_def Let_def fold_update_sub_ids)

lemma bump_one:
  "distinct (map us_id ss) \<Longrightarrow>
     sum_list (map us_total_usage (map (\<lambda>s. if us_id s = i \<and> \<not> us_deleted s
       then s\<lparr>us_total_usage := us_total_usage s + x\<rparr> else s) ss)) =
     sum_list (map us_total_usage ss) + (if \<exists>s\<in>set ss. us_id s = i \<and> \<not> us_deleted s then x else (0 :: usd))"
  by (induction ss) (auto simp: image_iff)

lemma increment_subscription_total:
  "increment_subscription i x db = Some db' \<Longrightarrow> distinct (sub_ids db) \<Longrightarrow>
     total_usage db' = total_usage db + x \<and> sub_ids db' = sub_ids db"
  using bump_one [of "bd_subs db" i x]
  by (auto simp: increment_subscription_def total_usage_def sub_ids_def o_def if_distrib [of us_id] split: if_splits)

lemma record_allocations_total:
  "record_allocations as r db = (r', db') \<Longrightarrow> distinct (sub_ids db) \<Longrightarrow>
     total_usage db' + r' = total_usage db + sum_list (map snd as) + r \<and> sub_ids db' = sub_ids db"
proof (induction as r db rule: record_allocations.induct)
  case (2 i x as r db)
  show ?case
  proof (cases "increment_subscription i x db")
    case (Some d)
    with 2 increment_subscription_total [OF Some] show ?thesis by simp
  qed (use 2 in simp)
qed simp

lemma split_usage_total:
  assumes "0 < cost" "split_usage_at clock subs cost now = (as, r)" "100 dvd cost" "\<forall>s\<in>set subs. 100 dvd available now s"
  shows "sum_list (map snd as) + r = cost \<and> 0 \<le> r \<and> (\<forall>a\<in>set as. 0 \<le> snd a)"
proof -
  obtain as0 r0 where a: "allocate_limited now (sorted_limited clock subs) cost = (as0, r0)"
    and out: "(r0 \<le> allocation_epsilon \<and> as = as0 \<and> r = 0) \<or>
      (allocation_epsilon < r0 \<and> as = as0 \<and> r = r0 \<and> (\<forall>u\<in>set subs. is_active clock u \<longrightarrow> has_effective_limit u)) \<or>
      (allocation_epsilon < r0 \<and> (\<exists>u\<in>set subs. is_active clock u \<and> \<not> has_effective_limit u \<and>
        as = as0 @ [(us_id u, r0)] \<and> r = 0))"
    by (rule split_usage_cases [OF assms(1,2)])
  have "100 dvd r0" using allocate_limited_exact [OF a] assms(3,4) by (simp add: sorted_limited_set)
  moreover have "0 \<le> r0" using allocate_limited_rest [OF a] assms(1) by simp
  ultimately have "r0 = 0" if "r0 \<le> allocation_epsilon"
    using that zdvd_not_zless [of r0 100] by (cases "r0 = 0") (auto simp: allocation_epsilon_def)
  moreover have "\<forall>a\<in>set as0. 0 \<le> snd a" using allocate_limited_taken [OF a] by (fastforce simp: allocation_epsilon_def)
  ultimately show ?thesis using out allocate_limited_sum [OF a] \<open>0 \<le> r0\<close> by auto
qed

lemma locked_exact:
  assumes "lock_wallets en uid db = (subs, db1)" "exact_subs db"
  shows "\<forall>s\<in>set subs. 100 dvd available now s"
proof
  fix s
  assume "s \<in> set subs"
  with assms wallet_rows_set show "100 dvd available now s"
    by (fastforce simp: lock_wallets_def Let_def exact_subs_def intro!: exact_available exact_locked)
qed

lemma record_allocations_nonneg:
  "record_allocations as r db = (r', db') \<Longrightarrow> \<forall>a\<in>set as. 0 \<le> snd a \<Longrightarrow> 0 \<le> r \<Longrightarrow> 0 \<le> r'"
  by (induction as r db rule: record_allocations.induct) (auto split: option.splits)

lemma apply_subscription_cost_total:
  assumes "apply_subscription_cost en c db = (r, db')" "exact_subs db" "distinct (sub_ids db)"
    and "100 dvd uc_subscription_cost c" "0 < uc_subscription_cost c"
  shows "total_usage db' + r = total_usage (snd (lock_wallets en (uc_user_id c) db)) + uc_subscription_cost c \<and> 0 \<le> r"
  using assms(1)
proof (rule apply_subscription_cost_cases)
  fix subs db1 as rem
  assume l: "lock_wallets en (uc_user_id c) db = (subs, db1)"
    and s: "split_usage_at (be_split_now en) subs (uc_subscription_cost c) (be_split_now en) = (as, rem)"
    and out: "(\<exists>i. subs = [] \<and> increment_subscription i (uc_subscription_cost c) db1 = Some db' \<and> r = 0) \<or>
      (subs = [] \<and> r = uc_subscription_cost c \<and> db' = db1) \<or> record_allocations as rem db1 = (r, db')"
  have ids: "distinct (sub_ids db1)" using lock_wallets_ids [of en "uc_user_id c" db] l assms(3) by simp
  have "sum_list (map snd as) + rem = uc_subscription_cost c \<and> 0 \<le> rem \<and> (\<forall>a\<in>set as. 0 \<le> snd a)"
    by (rule split_usage_total [OF assms(5) s assms(4) locked_exact [OF l assms(2)]])
  with out ids l assms(5) show ?thesis
    by (auto dest: increment_subscription_total record_allocations_total record_allocations_nonneg)
qed

lemma fold_update_sub_subs:
  "bd_subs a = bd_subs b \<Longrightarrow>
     bd_subs (fold (\<lambda>r. update_sub (us_id r) (f r)) rows a) = bd_subs (fold (\<lambda>r. update_sub (us_id r) (f r)) rows b)"
  by (induction rows arbitrary: a b) (simp_all add: update_sub_def)

lemma lock_wallets_subs:
  "bd_subs a = bd_subs b \<Longrightarrow> bd_subs (snd (lock_wallets en uid a)) = bd_subs (snd (lock_wallets en uid b))"
  by (auto simp: lock_wallets_def wallet_rows_def Let_def intro!: fold_update_sub_subs)

lemma quantize_nonneg: "0 \<le> v \<Longrightarrow> 0 \<le> quantize_usage_billing_amount v"
  by (simp add: quantize_usage_billing_amount_def round8_def sgn_if)

lemma charge_balance_deducts:
  assumes "charge_balance c (res, db) = Inr (res', db')" "exact_db db" "100 dvd uc_balance_cost c" "100 dvd ar_fallback res"
    and "0 \<le> uc_balance_cost c" "0 \<le> ar_fallback res" "ar_deducted res = 0"
  shows "ar_deducted res' = uc_balance_cost c + ar_fallback res \<and> bd_subs db' = bd_subs db \<and>
    (\<forall>u. bd_users db (uc_user_id c) = Some u \<longrightarrow>
       bd_users db' (uc_user_id c) = Some (u\<lparr>bu_balance := bu_balance u - ar_deducted res'\<rparr>))"
proof (cases "uc_balance_cost c + ar_fallback res \<le> 0")
  case True
  with assms(1,5-7) show ?thesis by (auto simp: charge_balance_def)
next
  case False
  obtain u where u: "bd_users db (uc_user_id c) = Some u"
    using assms(1) False by (auto simp: charge_balance_def deduct_balance_def Let_def split: option.splits)
  with assms(2) have "100 dvd bu_balance u" by (simp add: exact_db_def)
  with assms(3,4) have "round8 (bu_balance u - (uc_balance_cost c + ar_fallback res)) = bu_balance u - (uc_balance_cost c + ar_fallback res)"
    by (intro round8_id) auto
  with assms(1) False u show ?thesis
    by (auto simp: charge_balance_def deduct_balance_def set_user_def Let_def)
qed

lemma charge_key_result: "charge_key en c (res, db) = Inr (res', db') \<Longrightarrow> ar_deducted res' = ar_deducted res"
  by (auto simp: charge_key_def split_paired_Ex split: if_splits)

lemma charge_account_result: "charge_account en c (res, db) = Inr (res', db') \<Longrightarrow> ar_deducted res' = ar_deducted res"
  by (auto simp: charge_account_def split_paired_Ex split: if_splits)

lemma charge_wallets_total:
  assumes "charge_wallets en c (empty_result True, db) = (res, db')" "exact_subs db" "distinct (sub_ids db)"
    and "100 dvd uc_subscription_cost c" "0 \<le> uc_subscription_cost c"
  shows "total_usage db' + ar_fallback res =
      (if 0 < uc_subscription_cost c then total_usage (snd (lock_wallets en (uc_user_id c) db)) else total_usage db) +
      uc_subscription_cost c \<and> 0 \<le> ar_fallback res \<and> ar_deducted res = 0"
  using assms apply_subscription_cost_total [of en c db]
  by (auto simp: charge_wallets_def empty_result_def split: if_splits prod.splits)

lemma apply_effects_total:
  assumes "apply_effects en c db = Inr (r, db')" "exact_db db" "distinct (sub_ids db)"
    and "100 dvd uc_subscription_cost c" "0 \<le> uc_subscription_cost c" "100 dvd uc_balance_cost c" "0 \<le> uc_balance_cost c"
  shows "total_usage db' + ar_deducted r =
      (if 0 < uc_subscription_cost c then total_usage (snd (lock_wallets en (uc_user_id c) db)) else total_usage db) +
      uc_subscription_cost c + uc_balance_cost c \<and>
    (\<forall>u. bd_users db (uc_user_id c) = Some u \<longrightarrow>
       bd_users db' (uc_user_id c) = Some (u\<lparr>bu_balance := bu_balance u - ar_deducted r\<rparr>))"
proof -
  obtain res1 db1 res2 db2 res3 db3 where st: "charge_wallets en c (empty_result True, db) = (res1, db1)"
    "charge_balance c (res1, db1) = Inr (res2, db2)" "charge_key en c (res2, db2) = Inr (res3, db3)"
    "charge_account en c (res3, db3) = Inr (r, db')"
    by (rule apply_effects_steps [OF assms(1)])
  have ex: "exact_subs db" using assms(2) by (simp add: exact_db_subs)
  have w: "100 dvd ar_fallback res1 \<and> exact_subs db1"
    using charge_wallets_exact [OF st(1) ex assms(4)] by (simp add: empty_result_def)
  have m: "same_money db db1" by (rule charge_wallets_money [OF st(1)])
  have ex1: "exact_db db1" using m w assms(2) by (simp add: exact_db_subs same_money_def)
  have t: "total_usage db1 + ar_fallback res1 =
      (if 0 < uc_subscription_cost c then total_usage (snd (lock_wallets en (uc_user_id c) db)) else total_usage db) +
      uc_subscription_cost c" "0 \<le> ar_fallback res1" "ar_deducted res1 = 0"
    using charge_wallets_total [OF st(1) ex assms(3-5)] by auto
  have d: "ar_deducted res2 = uc_balance_cost c + ar_fallback res1" "bd_subs db2 = bd_subs db1"
    "\<And>u. bd_users db1 (uc_user_id c) = Some u \<Longrightarrow>
       bd_users db2 (uc_user_id c) = Some (u\<lparr>bu_balance := bu_balance u - ar_deducted res2\<rparr>)"
    using charge_balance_deducts [OF st(2) ex1 assms(6) _ assms(7) t(2,3)] w by auto
  have same: "same_subs db2 db'" by (rule same_subs_trans [OF charge_key_money [OF st(3)] charge_account_money [OF st(4)]])
  have r: "ar_deducted r = ar_deducted res2" using charge_key_result [OF st(3)] charge_account_result [OF st(4)] by simp
  have "total_usage db' = total_usage db1" using same d(2) by (simp add: same_subs_def total_usage_def)
  moreover have "bd_users db' = bd_users db2" "bd_users db1 = bd_users db"
    using same m by (simp_all add: same_subs_def same_money_def)
  ultimately show ?thesis using t(1) d(1,3) r by auto
qed

text \<open>
  C13: A request that is applied is paid in full: the usage booked on the wallets, counted from the windows the
  request finds or opens, and what the result reports as taken from the balance add up to the rounded
  subscription cost and balance cost, and the balance of the user falls by exactly what is reported.
\<close>

theorem billing_covers_cost:
  assumes "apply_usage_billing sha en cmd db = (Inr r, db')" "ar_applied r" "exact_db db" "distinct (sub_ids db)"
    and "0 \<le> uc_subscription_cost cmd" "0 \<le> uc_balance_cost cmd" "bd_users db (uc_user_id cmd) = Some u"
  shows "total_usage db' + ar_deducted r =
      (if 0 < quantize_usage_billing_amount (uc_subscription_cost cmd)
       then total_usage (snd (lock_wallets en (uc_user_id cmd) db)) else total_usage db) +
      quantize_usage_billing_amount (uc_subscription_cost cmd) + quantize_usage_billing_amount (uc_balance_cost cmd) \<and>
    bd_users db' (uc_user_id cmd) = Some (u\<lparr>bu_balance := bu_balance u - ar_deducted r\<rparr>)"
proof -
  define c where "c = normalize_command sha cmd"
  have f: "uc_subscription_cost c = quantize_usage_billing_amount (uc_subscription_cost cmd)"
    "uc_balance_cost c = quantize_usage_billing_amount (uc_balance_cost cmd)" "uc_user_id c = uc_user_id cmd"
    by (simp_all add: c_def normalize_command_def quantize_monetary_fields_def Let_def)
  obtain d where "apply_effects en c (db\<lparr>bd_dedup := d\<rparr>) = Inr (r, db')"
    using applied_effects [OF assms(1,2)] unfolding c_def by blast
  from apply_effects_total [OF this] assms(3-7) f
    lock_wallets_subs [of "db\<lparr>bd_dedup := d\<rparr>" db en "uc_user_id cmd"] show ?thesis
    by (auto simp: quantize_nonneg sub_ids_def total_usage_def split: if_splits)
qed


section \<open>The rows of the wallets\<close>

text \<open>A row once its window has been reset, if the lock finds it out of date.\<close>

definition reset_row :: "instant \<Rightarrow> subscription \<Rightarrow> subscription" where
  "reset_row now s =
     (if dirty_window now s then s\<lparr>us_total_usage := 0, us_window_start := window_start (us_reset_period s) now\<rparr> else s)"

definition opened :: "instant \<Rightarrow> subscription list \<Rightarrow> subscription \<Rightarrow> subscription" where
  "opened now rows s = (if s \<in> set rows then reset_row now s else s)"

lemma fold_update_sub_map:
  "bd_subs (fold (\<lambda>r. update_sub (us_id r) (f r)) rows db) =
     map (fold (\<lambda>r s. if us_id s = us_id r then f r s else s) rows) (bd_subs db)"
  by (induction rows arbitrary: db) (simp_all add: update_sub_def o_def)

lemma fold_update_miss:
  "us_id s \<notin> us_id ` set rows \<Longrightarrow> fold (\<lambda>r s. if us_id s = us_id r then f r s else s) rows s = s"
  by (induction rows) auto

lemma fold_update_hit:
  assumes "\<And>r s. us_id (f r s) = us_id s"
  shows "distinct (map us_id rows) \<Longrightarrow> r \<in> set rows \<Longrightarrow> us_id s = us_id r \<Longrightarrow>
     fold (\<lambda>r s. if us_id s = us_id r then f r s else s) rows s = f r s"
proof (induction rows)
  case (Cons q qs)
  show ?case
  proof (cases "us_id q = us_id r")
    case True
    with Cons.prems have "q = r" by (auto simp: image_iff)
    with Cons.prems assms fold_update_miss [of "f r s" qs f] show ?thesis by simp
  next
    case False
    with Cons show ?thesis by auto
  qed
qed simp

lemma same_row: "distinct (sub_ids db) \<Longrightarrow> s \<in> set (bd_subs db) \<Longrightarrow> r \<in> set (bd_subs db) \<Longrightarrow> us_id s = us_id r \<Longrightarrow> s = r"
  by (simp add: sub_ids_def distinct_map inj_on_def)

lemma wallet_rows_distinct: "distinct (sub_ids db) \<Longrightarrow> distinct (map us_id (wallet_rows now uid db))"
proof -
  have "mset (map us_id (sort_key us_expires_at xs)) = mset (map us_id xs)" for xs by simp
  then have sorted: "distinct (map us_id (sort_key us_expires_at xs)) = distinct (map us_id xs)" for xs
    by (rule mset_eq_imp_distinct_iff)
  show "distinct (sub_ids db) \<Longrightarrow> distinct (map us_id (wallet_rows now uid db))"
    unfolding wallet_rows_def sorted by (simp add: sub_ids_def distinct_map_filter)
qed

lemma lock_wallets_rows:
  assumes "distinct (sub_ids db)"
  shows "bd_subs (snd (lock_wallets en uid db)) =
    map (opened (be_lock_now en) (wallet_rows (be_db_now en) uid db)) (bd_subs db)"
proof -
  let ?now = "be_lock_now en" and ?rows = "wallet_rows (be_db_now en) uid db"
  let ?f = "\<lambda>r s. s\<lparr>us_total_usage := 0, us_window_start := window_start (us_reset_period r) ?now\<rparr>"
  have d: "distinct (map us_id (filter (dirty_window ?now) ?rows))"
    using wallet_rows_distinct [OF assms] by (simp add: distinct_map_filter)
  have "fold (\<lambda>r s. if us_id s = us_id r then ?f r s else s) (filter (dirty_window ?now) ?rows) s = opened ?now ?rows s"
    if s: "s \<in> set (bd_subs db)" for s
  proof (cases "s \<in> set ?rows \<and> dirty_window ?now s")
    case True
    with fold_update_hit [OF _ d, of ?f s s] show ?thesis by (simp add: opened_def reset_row_def)
  next
    case False
    have miss: "us_id s \<notin> us_id ` set (filter (dirty_window ?now) ?rows)"
    proof
      assume "us_id s \<in> us_id ` set (filter (dirty_window ?now) ?rows)"
      then obtain r where r: "r \<in> set ?rows" "dirty_window ?now r" "us_id s = us_id r" by auto
      from same_row [OF assms s wallet_rows_set [OF r(1)] r(3)] r False show False by auto
    qed
    have "opened ?now ?rows s = s" using False by (auto simp: opened_def reset_row_def)
    with fold_update_miss [OF miss, of ?f] show ?thesis by simp
  qed
  then show ?thesis by (simp add: lock_wallets_def Let_def fold_update_sub_map)
qed

lemma record_allocations_rows:
  "record_allocations as r db = (r', db') \<Longrightarrow>
     bd_subs db' = map (\<lambda>s. if us_deleted s then s else s\<lparr>us_total_usage := us_total_usage s + share (us_id s) as\<rparr>) (bd_subs db)"
proof (induction as r db rule: record_allocations.induct)
  case (1 r db)
  then show ?case by (auto intro!: map_idI [symmetric])
next
  case (2 i x as r db)
  show ?case
  proof (cases "increment_subscription i x db")
    case None
    with 2 have "bd_subs db' = map (\<lambda>s. if us_deleted s then s else s\<lparr>us_total_usage := us_total_usage s + share (us_id s) as\<rparr>) (bd_subs db)"
      by simp
    with None show ?thesis by (auto simp: increment_subscription_def split: if_splits)
  next
    case (Some d)
    with 2 have "bd_subs db' = map (\<lambda>s. if us_deleted s then s else s\<lparr>us_total_usage := us_total_usage s + share (us_id s) as\<rparr>) (bd_subs d)"
      by simp
    with Some show ?thesis by (auto simp: increment_subscription_def split: if_splits)
  qed
qed

lemma allocate_limited_share:
  "allocate_limited now ss rem = (as, r) \<Longrightarrow> distinct (map us_id ss) \<Longrightarrow> s \<in> set ss \<Longrightarrow>
     0 \<le> share (us_id s) as \<and> (share (us_id s) as \<noteq> 0 \<longrightarrow> share (us_id s) as \<le> available now s)"
proof (induction now ss rem arbitrary: as r rule: allocate_limited.induct)
  case (2 now w ws rem)
  show ?case
  proof (cases "rem \<le> allocation_epsilon \<or> available now w \<le> allocation_epsilon")
    case True
    with 2 show ?thesis
    proof (cases "s = w")
      case s: True
      have "us_id w \<notin> fst ` set as"
        using 2(3,4) True allocate_limited_ids [of now ws rem as r] by (auto split: if_splits)
      with s show ?thesis by (simp add: share_none)
    qed (auto split: if_splits)
  next
    case False
    define taken where "taken = (if available now w < rem then available now w else rem)"
    obtain as' where as: "allocate_limited now ws (rem - taken) = (as', r)" "as = (us_id w, taken) # as'"
      using 2(3) False by (auto simp: taken_def [symmetric] Let_def split: prod.splits)
    show ?thesis
    proof (cases "s = w")
      case True
      have "us_id w \<notin> fst ` set as'" using allocate_limited_ids [OF as(1)] 2(4) by auto
      with True as(2) False show ?thesis by (auto simp: share_none taken_def allocation_epsilon_def)
    next
      case s: False
      then have "s \<in> set ws" using 2(5) by simp
      with distinct_ids [OF 2(4)] 2(2) [OF _ refl _ taken_def as(1)] False 2(4) as(2) show ?thesis by auto
    qed
  qed
qed simp


lemma split_usage_share:
  assumes "0 < cost" "split_usage_at clock subs cost now = (as, r)" "distinct (map us_id subs)" "s \<in> set subs"
  shows "0 \<le> share (us_id s) as \<and> (has_effective_limit s \<and> share (us_id s) as \<noteq> 0 \<longrightarrow> share (us_id s) as \<le> available now s)"
proof -
  let ?ws = "sorted_limited clock subs"
  obtain as0 r0 where a: "allocate_limited now ?ws cost = (as0, r0)"
    and out: "(r0 \<le> allocation_epsilon \<and> as = as0 \<and> r = 0) \<or>
      (allocation_epsilon < r0 \<and> as = as0 \<and> r = r0 \<and> (\<forall>u\<in>set subs. is_active clock u \<longrightarrow> has_effective_limit u)) \<or>
      (allocation_epsilon < r0 \<and> (\<exists>u\<in>set subs. is_active clock u \<and> \<not> has_effective_limit u \<and>
        as = as0 @ [(us_id u, r0)] \<and> r = 0))"
    by (rule split_usage_cases [OF assms(1,2)])
  have same: "t = u" if "t \<in> set subs" "u \<in> set subs" "us_id t = us_id u" for t u
    using assms(3) that by (simp add: distinct_map inj_on_def)
  have part: "0 \<le> share (us_id s) as0 \<and> (share (us_id s) as0 \<noteq> 0 \<longrightarrow> share (us_id s) as0 \<le> available now s)"
  proof (cases "s \<in> set ?ws")
    case True
    from allocate_limited_share [OF a sorted_limited_distinct [OF assms(3)] True] show ?thesis .
  next
    case False
    have "us_id s \<notin> fst ` set as0"
    proof
      assume "us_id s \<in> fst ` set as0"
      then obtain t where "t \<in> set ?ws" "us_id t = us_id s" using allocate_limited_ids [OF a] by auto
      with same [of t s] assms(4) False show False by (auto simp: sorted_limited_set)
    qed
    then show ?thesis by (simp add: share_none)
  qed
  from out show ?thesis
  proof (elim disjE)
    assume "allocation_epsilon < r0 \<and> (\<exists>u\<in>set subs. is_active clock u \<and> \<not> has_effective_limit u \<and>
      as = as0 @ [(us_id u, r0)] \<and> r = 0)"
    then obtain u where u: "u \<in> set subs" "\<not> has_effective_limit u" "as = as0 @ [(us_id u, r0)]" "0 < r0"
      by (auto simp: allocation_epsilon_def)
    show ?thesis
    proof (cases "us_id u = us_id s")
      case True
      with same [of u s] u assms(4) part show ?thesis by auto
    qed (use part u in simp)
  qed (use part in simp_all)
qed

lemma split_usage_ids:
  assumes "split_usage_at clock subs cost now = (as, r)"
  shows "fst ` set as \<subseteq> us_id ` set subs"
proof (cases "0 < cost")
  case True
  obtain as0 r0 where a: "allocate_limited now (sorted_limited clock subs) cost = (as0, r0)"
    and out: "(r0 \<le> allocation_epsilon \<and> as = as0 \<and> r = 0) \<or>
      (allocation_epsilon < r0 \<and> as = as0 \<and> r = r0 \<and> (\<forall>u\<in>set subs. is_active clock u \<longrightarrow> has_effective_limit u)) \<or>
      (allocation_epsilon < r0 \<and> (\<exists>u\<in>set subs. is_active clock u \<and> \<not> has_effective_limit u \<and>
        as = as0 @ [(us_id u, r0)] \<and> r = 0))"
    by (rule split_usage_cases [OF True assms])
  have "us_id ` set (sorted_limited clock subs) \<subseteq> us_id ` set subs" by (auto simp: sorted_limited_set)
  with allocate_limited_ids [OF a] have "fst ` set as0 \<subseteq> us_id ` set subs" by (rule subset_trans)
  with out show ?thesis by (auto simp: image_subset_iff)
qed (use assms in \<open>simp add: split_usage_at_def\<close>)

lemma window_start_day: "day_of t = day_of u \<Longrightarrow> window_start p t = window_start p u"
  by (simp add: window_start_def)

lemma locked_row_usage:
  assumes "31 * day \<le> now" "day_of later = day_of now"
  shows "effective_window_usage (locked_row now s) later = us_total_usage s"
  using window_later [OF assms(1), of "us_reset_period s"] window_start_day [OF assms(2), of "us_reset_period s"]
  by (auto simp: locked_row_def effective_window_usage_def effective_usage_def window_expired_def Let_def)

lemma locked_row_limit [simp]:
  "effective_total_limit (locked_row now s) = effective_total_limit s" "us_id (locked_row now s) = us_id s"
  by (simp_all add: locked_row_def effective_total_limit_def Let_def)

lemma reset_row_fields [simp]:
  "us_id (reset_row now s) = us_id s" "us_deleted (reset_row now s) = us_deleted s"
  "us_reset_period (reset_row now s) = us_reset_period s"
  by (simp_all add: reset_row_def)

lemma opened_fields [simp]: "us_id (opened now rows s) = us_id s" "us_deleted (opened now rows s) = us_deleted s"
  by (simp_all add: opened_def)

lemma charge_balance_subs: "charge_balance c (res, db) = Inr (res', db') \<Longrightarrow> bd_subs db' = bd_subs db"
  by (auto simp: charge_balance_def deduct_balance_def set_user_def Let_def split: if_splits option.splits)

lemma apply_effects_subs:
  assumes "apply_effects en c db = Inr (r, db')"
  obtains res1 db1 where "charge_wallets en c (empty_result True, db) = (res1, db1)" "bd_subs db' = bd_subs db1"
proof -
  obtain res1 db1 res2 db2 res3 db3 where st: "charge_wallets en c (empty_result True, db) = (res1, db1)"
    "charge_balance c (res1, db1) = Inr (res2, db2)" "charge_key en c (res2, db2) = Inr (res3, db3)"
    "charge_account en c (res3, db3) = Inr (r, db')"
    by (rule apply_effects_steps [OF assms])
  have "bd_subs db' = bd_subs db1"
    using charge_key_money [OF st(3)] charge_account_money [OF st(4)] charge_balance_subs [OF st(2)] by (simp add: same_subs_def)
  with st(1) that show ?thesis by blast
qed

text \<open>
  A row after a request: untouched, or a billable one that was reset if due and charged within its limit. When midnight passes between
  the reading of the clock that locks the rows and the one that splits the cost, the usage read is counted for nothing in the
  new window, and the limit bounds the charge only.
\<close>

definition grown :: "bill_env \<Rightarrow> subscription list \<Rightarrow> subscription \<Rightarrow> subscription \<Rightarrow> bool" where
  "grown en rows s s' \<longleftrightarrow>
     s' = s \<or>
     (s \<in> set rows \<and>
      (\<exists>x\<ge>0. s' = (reset_row (be_lock_now en) s)\<lparr>us_total_usage := us_total_usage (reset_row (be_lock_now en) s) + x\<rparr>) \<and>
      (\<forall>l. effective_total_limit s = Some l \<longrightarrow>
         us_total_usage s' \<le> (if day_of (be_split_now en) = day_of (be_lock_now en) then max l (us_total_usage s)
                              else us_total_usage s + l)))"

text \<open>A row after a request whose user has no billable wallet: the subscription the command names takes the whole cost.\<close>

definition named_row :: "usage_command \<Rightarrow> subscription \<Rightarrow> subscription \<Rightarrow> bool" where
  "named_row c s s' \<longleftrightarrow>
     s' = s \<or> (uc_subscription_id c = Some (us_id s) \<and> \<not> us_deleted s \<and>
       s' = s\<lparr>us_total_usage := us_total_usage s + quantize_usage_billing_amount (uc_subscription_cost c)\<rparr>)"

lemma list_all2_mapped: "(\<And>x. x \<in> set xs \<Longrightarrow> P x (f (g x))) \<Longrightarrow> list_all2 P xs (map f (map g xs))"
  by (simp add: list_all2_conv_all_nth)

lemma locked_row_available:
  assumes "31 * day \<le> now" "effective_total_limit s = Some l" "0 \<le> us_total_usage s"
  shows "available later (locked_row now s) \<le> (if day_of later = day_of now then l - us_total_usage s else l)"
proof -
  have "0 \<le> us_total_usage (locked_row now s)"
    using assms(3) by (simp add: locked_row_def effective_window_usage_def effective_usage_def Let_def)
  then have "0 \<le> effective_window_usage (locked_row now s) later"
    by (simp add: effective_window_usage_def effective_usage_def)
  with locked_row_usage [OF assms(1)] assms(2) show ?thesis by (simp add: available_def)
qed

lemma apply_subscription_cost_grown:
  assumes "apply_subscription_cost en c db = (r, db')" "distinct (sub_ids db)" "0 < uc_subscription_cost c"
    and "wallet_rows (be_db_now en) (uc_user_id c) db \<noteq> []" "\<forall>s\<in>set (bd_subs db). 0 \<le> us_total_usage s"
    and "31 * day \<le> be_lock_now en"
  shows "list_all2 (grown en (wallet_rows (be_db_now en) (uc_user_id c) db)) (bd_subs db) (bd_subs db')"
  using assms(1)
proof (rule apply_subscription_cost_cases)
  let ?now = "be_lock_now en" and ?rows = "wallet_rows (be_db_now en) (uc_user_id c) db"
  fix subs db1 as rem
  assume l: "lock_wallets en (uc_user_id c) db = (subs, db1)"
    and s: "split_usage_at (be_split_now en) subs (uc_subscription_cost c) (be_split_now en) = (as, rem)"
    and out: "(\<exists>i. subs = [] \<and> increment_subscription i (uc_subscription_cost c) db1 = Some db' \<and> r = 0) \<or>
      (subs = [] \<and> r = uc_subscription_cost c \<and> db' = db1) \<or> record_allocations as rem db1 = (r, db')"
  have subs: "subs = map (locked_row ?now) ?rows" using l by (simp add: lock_wallets_def Let_def)
  have rec: "record_allocations as rem db1 = (r, db')" using out subs assms(4) by simp
  have ids: "distinct (map us_id subs)" using wallet_rows_distinct [OF assms(2)] by (simp add: subs o_def)
  have rows: "bd_subs db' = map (\<lambda>s. if us_deleted s then s else s\<lparr>us_total_usage := us_total_usage s + share (us_id s) as\<rparr>)
      (map (opened ?now ?rows) (bd_subs db))"
    using record_allocations_rows [OF rec] lock_wallets_rows [OF assms(2), of en "uc_user_id c"] l by simp
  have "grown en ?rows t (if us_deleted (opened ?now ?rows t) then opened ?now ?rows t
      else (opened ?now ?rows t)\<lparr>us_total_usage := us_total_usage (opened ?now ?rows t) + share (us_id (opened ?now ?rows t)) as\<rparr>)"
    if t: "t \<in> set (bd_subs db)" for t
  proof (cases "t \<in> set ?rows")
    case False
    have "us_id t \<notin> fst ` set as"
    proof
      assume "us_id t \<in> fst ` set as"
      then obtain q where q: "q \<in> set ?rows" "us_id t = us_id q" using split_usage_ids [OF s] by (auto simp: subs)
      from same_row [OF assms(2) t wallet_rows_set [OF q(1)] q(2)] q(1) False show False by simp
    qed
    with False show ?thesis by (simp add: grown_def opened_def share_none)
  next
    case True
    have "locked_row ?now t \<in> set subs" using True by (simp add: subs)
    from split_usage_share [OF assms(3) s ids this]
    have sh: "0 \<le> share (us_id t) as"
      "\<And>l. effective_total_limit t = Some l \<Longrightarrow> share (us_id t) as \<noteq> 0 \<Longrightarrow>
         share (us_id t) as \<le> available (be_split_now en) (locked_row ?now t)"
      by (auto simp: has_effective_limit_def)
    have base: "us_total_usage (reset_row ?now t) \<le> us_total_usage t" using assms(5) t by (simp add: reset_row_def)
    have "us_total_usage (reset_row ?now t) + share (us_id t) as \<le>
        (if day_of (be_split_now en) = day_of ?now then max l (us_total_usage t) else us_total_usage t + l)"
      if l: "effective_total_limit t = Some l" for l
    proof (cases "share (us_id t) as = 0")
      case True
      have "0 < l" using l by (auto simp: effective_total_limit_def normalize_sub_limit_def split: option.splits if_splits)
      with True base show ?thesis by auto
    next
      case False
      have "share (us_id t) as \<le> (if day_of (be_split_now en) = day_of ?now then l - us_total_usage t else l)"
        using sh(2) [OF l False] locked_row_available [OF assms(6) l] assms(5) t order_trans by blast
      with base show ?thesis by (auto split: if_splits)
    qed
    moreover have "\<not> us_deleted t" using True by (simp add: wallet_rows_def)
    ultimately show ?thesis using True sh(1) by (auto simp: grown_def opened_def)
  qed
  then show ?thesis unfolding rows by (rule list_all2_mapped)
qed

lemma apply_subscription_cost_named:
  assumes "apply_subscription_cost en c db = (r, db')" "distinct (sub_ids db)"
    and "wallet_rows (be_db_now en) (uc_user_id c) db = []"
  shows "bd_subs db' = bd_subs db \<or>
    (\<exists>i. uc_subscription_id c = Some i \<and> increment_subscription i (uc_subscription_cost c) db = Some db')"
proof -
  have l: "lock_wallets en (uc_user_id c) db = ([], db)" using assms(3) by (simp add: lock_wallets_def)
  obtain as rem where s: "split_usage_at (be_split_now en) [] (uc_subscription_cost c) (be_split_now en) = (as, rem)" by fastforce
  from split_usage_ids [OF this] have "as = []" by simp
  with assms(1) l s show ?thesis
    by (cases "uc_subscription_id c"; cases "increment_subscription (the (uc_subscription_id c)) (uc_subscription_cost c) db")
      (auto simp: apply_subscription_cost_def Let_def split: if_splits)
qed

text \<open>
  C14: When the user of a request has a billable wallet (active, not deleted, not over), the request touches no wallet but the
  billable ones of its user, and charges none past its limit: every row is as it was, or is a
  billable wallet of the user whose window was reset if it was due, with a usage that then grew, for a limited
  wallet to no more than its limit or the usage it already had; only when midnight passes between the two readings of the clock,
  the charge itself is all that is bounded by the limit. When the user has no billable wallet, no row changes but the one the
  command names, which takes the whole rounded cost unless it is deleted, whoever owns it and whatever its status and limit.
  No stored usage is negative.
\<close>

theorem wallets_charged_within_limits:
  assumes "apply_usage_billing sha en cmd db = (Inr r, db')" "ar_applied r" "distinct (sub_ids db)"
    and "\<forall>s\<in>set (bd_subs db). 0 \<le> us_total_usage s" "31 * day \<le> be_lock_now en"
    and rows: "rows = wallet_rows (be_db_now en) (uc_user_id cmd) db"
  shows "list_all2 (if rows = [] then named_row cmd else grown en rows) (bd_subs db) (bd_subs db')"
proof -
  define c where "c = normalize_command sha cmd"
  have f: "uc_user_id c = uc_user_id cmd" "uc_subscription_id c = uc_subscription_id cmd"
    "uc_subscription_cost c = quantize_usage_billing_amount (uc_subscription_cost cmd)"
    by (simp_all add: c_def normalize_command_def quantize_monetary_fields_def Let_def)
  obtain d where eff: "apply_effects en c (db\<lparr>bd_dedup := d\<rparr>) = Inr (r, db')"
    using applied_effects [OF assms(1,2)] unfolding c_def by blast
  obtain res1 db1 where st: "charge_wallets en c (empty_result True, db\<lparr>bd_dedup := d\<rparr>) = (res1, db1)"
    and same: "bd_subs db' = bd_subs db1"
    by (rule apply_effects_subs [OF eff])
  have rows_d: "wallet_rows t uid (db\<lparr>bd_dedup := d\<rparr>) = wallet_rows t uid db" for t uid by (simp add: wallet_rows_def)
  have ids: "distinct (sub_ids (db\<lparr>bd_dedup := d\<rparr>))" using assms(3) by (simp add: sub_ids_def)
  show ?thesis
  proof (cases "0 < uc_subscription_cost c")
    case True
    obtain x where x: "apply_subscription_cost en c (db\<lparr>bd_dedup := d\<rparr>) = (x, db1)"
      using st True by (auto simp: charge_wallets_def split: prod.splits)
    show ?thesis
    proof (cases "rows = []")
      case empty: True
      from apply_subscription_cost_named [OF x ids] empty rows f(1) rows_d
      have "bd_subs db1 = bd_subs db \<or>
          (\<exists>i. uc_subscription_id c = Some i \<and> increment_subscription i (uc_subscription_cost c) (db\<lparr>bd_dedup := d\<rparr>) = Some db1)"
        by simp
      then show ?thesis using empty f
        by (auto simp: same increment_subscription_def named_row_def list_all2_same list_all2_map2 split: if_splits)
    next
      case False
      with apply_subscription_cost_grown [OF x ids True] assms(4,5) rows f(1) rows_d show ?thesis by (simp add: same)
    qed
  next
    case False
    with st same have "bd_subs db' = bd_subs db" by (auto simp: charge_wallets_def)
    then show ?thesis by (simp add: grown_def named_row_def list_all2_same)
  qed
qed


section \<open>Columns stay well-typed\<close>

definition typed_row :: "subscription \<Rightarrow> bool" where
  "typed_row s \<longleftrightarrow>
     0 \<le> us_total_usage s \<and>
     (is_recurring_period (us_reset_period s) \<and> us_window_start s \<noteq> 0 \<longrightarrow>
        window_start (us_reset_period s) (us_window_start s) = us_window_start s)"

definition typed_user :: "bill_user \<Rightarrow> bool" where
  "typed_user u \<longleftrightarrow> 100 dvd bu_balance u \<and> 100 dvd bu_frozen u"

definition typed_db :: "billing_db \<Rightarrow> bool" where
  "typed_db db \<longleftrightarrow>
     distinct (sub_ids db) \<and> (\<forall>s\<in>set (bd_subs db). typed_row s) \<and>
     (\<forall>uid u. bd_users db uid = Some u \<longrightarrow> typed_user u)"

lemma window_start_idem: "is_recurring_period p \<Longrightarrow> window_start p (window_start p t) = window_start p t"
  by (simp add: window_start_first first_day_first)

text \<open>What changes the tables and keeps the types.\<close>

definition keeps_types :: "billing_db \<Rightarrow> billing_db \<Rightarrow> bool" where
  "keeps_types db db' \<longleftrightarrow> (typed_db db \<longrightarrow> typed_db db') \<and> sub_ids db' = sub_ids db"

lemma keeps_types_refl [simp]: "keeps_types db db"
  by (simp add: keeps_types_def)

lemma keeps_types_trans: "keeps_types a b \<Longrightarrow> keeps_types b c \<Longrightarrow> keeps_types a c"
  by (simp add: keeps_types_def)

lemma same_columns_types: "bd_subs db' = bd_subs db \<Longrightarrow> bd_users db' = bd_users db \<Longrightarrow> keeps_types db db'"
  by (simp add: keeps_types_def typed_db_def sub_ids_def)

lemma same_subs_types: "same_subs db db' \<Longrightarrow> keeps_types db db'"
  by (simp add: same_columns_types same_subs_def same_money_def)

lemma reset_typed: "us_reset_period r = us_reset_period s \<Longrightarrow> typed_row s \<Longrightarrow>
    typed_row (s\<lparr>us_total_usage := 0, us_window_start := window_start (us_reset_period r) now\<rparr>)"
  by (auto simp: typed_row_def window_start_idem)

lemma increment_subscription_ids: "increment_subscription i x db = Some db' \<Longrightarrow> sub_ids db' = sub_ids db"
  by (auto simp: increment_subscription_def sub_ids_def split: if_splits)

lemma increment_subscription_types: "increment_subscription i x db = Some db' \<Longrightarrow> 0 \<le> x \<Longrightarrow> keeps_types db db'"
  using increment_subscription_ids [of i x db db']
  by (auto simp: increment_subscription_def keeps_types_def typed_db_def typed_row_def split: if_splits)

lemma record_allocations_types:
  "record_allocations as r db = (r', db') \<Longrightarrow> \<forall>a\<in>set as. 0 \<le> snd a \<Longrightarrow> keeps_types db db'"
  by (induction as r db rule: record_allocations.induct)
    (auto split: option.splits intro: keeps_types_trans increment_subscription_types)

lemma lock_wallets_types:
  assumes "lock_wallets en uid db = (subs, db1)"
  shows "keeps_types db db1"
proof (cases "distinct (sub_ids db)")
  case True
  have "typed_row (opened now rows s)" if "typed_row s" for now rows s
    using that reset_typed [of s s now] by (simp add: opened_def reset_row_def)
  moreover have "same_money db db1" using assms fold_update_sub_money by (auto simp: lock_wallets_def Let_def)
  then have "bd_users db1 = bd_users db" by (simp add: same_money_def)
  ultimately show ?thesis
    using lock_wallets_rows [OF True, of en uid] lock_wallets_ids [of en uid db] assms
    by (auto simp: keeps_types_def typed_db_def)
next
  case False
  with lock_wallets_ids [of en uid db] assms show ?thesis by (simp add: keeps_types_def typed_db_def)
qed

lemma split_parts_nonneg:
  assumes "0 < cost" "split_usage_at clock subs cost now = (as, r)"
  shows "\<forall>a\<in>set as. 0 \<le> snd a"
proof -
  obtain as0 r0 where a: "allocate_limited now (sorted_limited clock subs) cost = (as0, r0)"
    and out: "(r0 \<le> allocation_epsilon \<and> as = as0 \<and> r = 0) \<or>
      (allocation_epsilon < r0 \<and> as = as0 \<and> r = r0 \<and> (\<forall>u\<in>set subs. is_active clock u \<longrightarrow> has_effective_limit u)) \<or>
      (allocation_epsilon < r0 \<and> (\<exists>u\<in>set subs. is_active clock u \<and> \<not> has_effective_limit u \<and>
        as = as0 @ [(us_id u, r0)] \<and> r = 0))"
    by (rule split_usage_cases [OF assms])
  have "\<forall>a\<in>set as0. 0 \<le> snd a" using allocate_limited_taken [OF a] by (fastforce simp: allocation_epsilon_def)
  with out show ?thesis by (auto simp: allocation_epsilon_def)
qed

lemma apply_subscription_cost_types:
  assumes "apply_subscription_cost en c db = (r, db')" "0 < uc_subscription_cost c"
  shows "keeps_types db db'"
  using assms(1)
proof (rule apply_subscription_cost_cases)
  fix subs db1 as rem
  assume l: "lock_wallets en (uc_user_id c) db = (subs, db1)"
    and s: "split_usage_at (be_split_now en) subs (uc_subscription_cost c) (be_split_now en) = (as, rem)"
    and out: "(\<exists>i. subs = [] \<and> increment_subscription i (uc_subscription_cost c) db1 = Some db' \<and> r = 0) \<or>
      (subs = [] \<and> r = uc_subscription_cost c \<and> db' = db1) \<or> record_allocations as rem db1 = (r, db')"
  have "keeps_types db1 db'"
    using out assms(2) split_parts_nonneg [OF assms(2) s]
    by (auto intro: increment_subscription_types record_allocations_types)
  with lock_wallets_types [OF l] show ?thesis by (rule keeps_types_trans)
qed

lemma set_user_types: "typed_user u \<Longrightarrow> keeps_types db (set_user uid u db)"
  by (simp add: keeps_types_def typed_db_def set_user_def sub_ids_def)

lemma set_user_types_ledger: "typed_user u \<Longrightarrow> keeps_types db ((set_user uid u db)\<lparr>bd_ledger := l\<rparr>)"
  by (simp add: keeps_types_def typed_db_def set_user_def sub_ids_def)

lemma charge_balance_types:
  assumes "charge_balance c (res, db) = Inr (res', db')"
  shows "keeps_types db db'"
proof (cases "uc_balance_cost c + ar_fallback res \<le> 0")
  case True
  with assms show ?thesis by (simp add: charge_balance_def)
next
  case False
  let ?x = "uc_balance_cost c + ar_fallback res"
  obtain u where u: "bd_users db (uc_user_id c) = Some u"
    and db': "db' = (set_user (uc_user_id c) (u\<lparr>bu_balance := round8 (bu_balance u - ?x)\<rparr>) db)\<lparr>bd_ledger :=
      bd_ledger db @ [((uc_request_id c, uc_api_key_id c), uc_user_id c, ?x)]\<rparr>"
    using assms False by (auto simp: charge_balance_def deduct_balance_def set_user_def Let_def split: option.splits)
  then show ?thesis by (auto simp: keeps_types_def typed_db_def typed_user_def set_user_def sub_ids_def)
qed

lemma apply_effects_types:
  assumes "apply_effects en c db = Inr (r, db')"
  shows "keeps_types db db'"
proof -
  obtain res1 db1 res2 db2 res3 db3 where st: "charge_wallets en c (empty_result True, db) = (res1, db1)"
    "charge_balance c (res1, db1) = Inr (res2, db2)" "charge_key en c (res2, db2) = Inr (res3, db3)"
    "charge_account en c (res3, db3) = Inr (r, db')"
    by (rule apply_effects_steps [OF assms])
  have "keeps_types db db1" using st(1)
    by (auto simp: charge_wallets_def split: if_splits prod.splits intro: apply_subscription_cost_types)
  from this charge_balance_types [OF st(2)] same_subs_types [OF charge_key_money [OF st(3)]]
    same_subs_types [OF charge_account_money [OF st(4)]]
  show ?thesis by (meson keeps_types_trans)
qed

lemma hold_effect_types: "hold_effect kind c db = Inr (r, db') \<Longrightarrow> keeps_types db db'"
  by (cases kind) (auto simp: reserve_hold_def capture_hold_def release_hold_def typed_user_def Let_def
      split: if_splits option.splits intro!: set_user_types set_user_types_ledger)

lemma dedup_typed [simp]: "typed_db (db\<lparr>bd_dedup := d\<rparr>) = typed_db db" "sub_ids (db\<lparr>bd_dedup := d\<rparr>) = sub_ids db"
  by (simp_all add: typed_db_def sub_ids_def)

lemma dedup_types: "keeps_types (db\<lparr>bd_dedup := d\<rparr>) db' \<Longrightarrow> keeps_types db db'"
  by (simp add: keeps_types_def)

lemma billing_step_types: "keeps_types db (billing_step sha db e)"
proof (cases e)
  case (Bill_request en c)
  have "keeps_types db (snd (apply_usage_billing sha en c db))"
    using apply_usage_billing_fresh [of sha en c db]
    by (elim disjE conjE exE) (simp only: keeps_types_refl, rule dedup_types [OF apply_effects_types])
  with Bill_request show ?thesis by simp
next
  case (Bill_hold fate kind c)
  have "keeps_types db (snd (apply_hold sha fate kind c db))"
    using apply_hold_fresh [of sha fate kind c db]
    by (elim disjE conjE exE) (simp only: keeps_types_refl, rule dedup_types [OF hold_effect_types])
  with Bill_hold show ?thesis by simp
next
  case (Archive_claim key)
  then show ?thesis by (auto simp: archive_claim_def intro: same_columns_types split: option.splits)
next
  case (Top_up uid x)
  then show ?thesis
    by (auto simp: keeps_types_def typed_db_def typed_user_def set_user_def sub_ids_def split: option.splits)
qed

interpretation types: invariant_machine "\<lambda>db e. True" "billing_step sha" "\<lambda>db. typed_db db \<and> sub_ids db = ids" for sha ids
  by unfold_locales (use billing_step_types in \<open>auto simp: keeps_types_def\<close>)

text \<open>
  C32: The columns keep their types, whatever is run: the identifiers of the subscriptions stay as they are, a
  usage never falls below nothing, the start of a window is unset or begins a window of the period of its row, and
  balances have eight digits.
\<close>

theorem columns_stay_typed:
  assumes "typed_db db"
  shows "typed_db (run_steps (billing_step sha) db es) \<and> sub_ids (run_steps (billing_step sha) db es) = sub_ids db"
  using types.inv_run [of db "sub_ids db" sha es] assms by simp

end
