(* ===== verification/BillingRuns.thy ===== *)
theory BillingRuns
  imports WalletCharges
begin

text \<open>
  The bookkeeping of usage on concrete tables: runs that show the properties of the other theories can be
  met, and the two runs where the code departs from what its comments promise.
\<close>


section \<open>A window that is over\<close>

lemma allocate_limited_none: "\<forall>s\<in>set ss. available now s \<le> allocation_epsilon \<Longrightarrow> allocate_limited now ss rem = ([], rem)"
  by (induction now ss rem rule: allocate_limited.induct) (simp_all add: Let_def)

lemma split_usage_none:
  assumes "allocation_epsilon < cost" "\<forall>s\<in>set subs. has_effective_limit s \<and> available now s \<le> allocation_epsilon"
  shows "split_usage_at clock subs cost now = ([], cost)"
proof -
  have "0 < cost" using assms(1) by (simp add: allocation_epsilon_def)
  moreover obtain as r where s: "split_usage_at clock subs cost now = (as, r)" by fastforce
  moreover have "allocate_limited now (sorted_limited clock subs) cost = ([], cost)"
    using assms(2) by (intro allocate_limited_none) (simp add: sorted_limited_set)
  ultimately show ?thesis using assms by (elim split_usage_cases) auto
qed

lemma exhausted_wallets_pay_nothing:
  assumes "31 * day \<le> be_lock_now en" "day_of (be_split_now en) = day_of (be_lock_now en)"
    and "wallet_rows (be_db_now en) (uc_user_id c) db \<noteq> []"
    and "\<forall>s\<in>set (wallet_rows (be_db_now en) (uc_user_id c) db). \<exists>l. effective_total_limit s = Some l \<and> l \<le> us_total_usage s"
    and "0 < uc_subscription_cost c" "100 dvd uc_subscription_cost c"
  shows "apply_subscription_cost en c db = (uc_subscription_cost c, snd (lock_wallets en (uc_user_id c) db))"
proof -
  obtain subs db1 where l: "lock_wallets en (uc_user_id c) db = (subs, db1)" by fastforce
  then have subs: "subs = map (locked_row (be_lock_now en)) (wallet_rows (be_db_now en) (uc_user_id c) db)"
    by (simp add: lock_wallets_def Let_def)
  have "allocation_epsilon < uc_subscription_cost c"
    using assms(5,6) zdvd_imp_le [of 100 "uc_subscription_cost c"] by (simp add: allocation_epsilon_def)
  moreover have "\<forall>s\<in>set subs. has_effective_limit s \<and> available (be_split_now en) s \<le> allocation_epsilon"
    using assms(4) by (auto simp: subs has_effective_limit_def available_def locked_row_usage [OF assms(1,2)] allocation_epsilon_def)
  ultimately have "split_usage_at (be_split_now en) subs (uc_subscription_cost c) (be_split_now en) = ([], uc_subscription_cost c)"
    by (rule split_usage_none)
  with l subs assms(3) show ?thesis by (simp add: apply_subscription_cost_def)
qed

text \<open>
  C33: A window that is over still counts once. \<open>lockUserSubscriptionWallets\<close> moves the window of a locked row to the current
  one before it asks for the usage in effect, so the usage of the old window is read as that of the new one: when every
  billable wallet was used up in its last window, the first request of a new window is charged to the balance
  in full, although the same transaction sets the usage of the wallets back to nothing.
\<close>

theorem ended_window_still_counts:
  assumes "apply_usage_billing sha en cmd db = (Inr r, db')" "ar_applied r" "exact_db db" "distinct (sub_ids db)"
    and "0 < quantize_usage_billing_amount (uc_subscription_cost cmd)" "0 \<le> uc_balance_cost cmd"
    and "31 * day \<le> be_lock_now en" "day_of (be_split_now en) = day_of (be_lock_now en)"
    and "wallet_rows (be_db_now en) (uc_user_id cmd) db \<noteq> []"
    and "\<forall>s\<in>set (wallet_rows (be_db_now en) (uc_user_id cmd) db). \<exists>l. effective_total_limit s = Some l \<and> l \<le> us_total_usage s"
  shows "ar_deducted r =
      quantize_usage_billing_amount (uc_subscription_cost cmd) + quantize_usage_billing_amount (uc_balance_cost cmd) \<and>
    (\<forall>s\<in>set (wallet_rows (be_db_now en) (uc_user_id cmd) db). dirty_window (be_lock_now en) s \<longrightarrow>
       s\<lparr>us_total_usage := 0, us_window_start := window_start (us_reset_period s) (be_lock_now en)\<rparr> \<in> set (bd_subs db'))"
proof -
  define c where "c = normalize_command sha cmd"
  have f: "uc_subscription_cost c = quantize_usage_billing_amount (uc_subscription_cost cmd)"
    "uc_balance_cost c = quantize_usage_billing_amount (uc_balance_cost cmd)" "uc_user_id c = uc_user_id cmd"
    by (simp_all add: c_def normalize_command_def quantize_monetary_fields_def Let_def)
  obtain d where eff: "apply_effects en c (db\<lparr>bd_dedup := d\<rparr>) = Inr (r, db')"
    using applied_effects [OF assms(1,2)] unfolding c_def by blast
  let ?db = "db\<lparr>bd_dedup := d\<rparr>"
  obtain res1 db1 where st: "charge_wallets en c (empty_result True, ?db) = (res1, db1)" and same: "bd_subs db' = bd_subs db1"
    by (rule apply_effects_subs [OF eff])
  have rows: "wallet_rows t uid ?db = wallet_rows t uid db" for t uid by (simp add: wallet_rows_def)
  have "apply_subscription_cost en c ?db = (uc_subscription_cost c, snd (lock_wallets en (uc_user_id c) ?db))"
    using assms(5,7-10) f by (intro exhausted_wallets_pay_nothing) (simp_all add: rows)
  with st assms(5) f have db1: "db1 = snd (lock_wallets en (uc_user_id c) ?db)" by (simp add: charge_wallets_def)
  with lock_wallets_subs [of ?db db en "uc_user_id c"] same
  have subs: "bd_subs db' = bd_subs (snd (lock_wallets en (uc_user_id cmd) db))" by (simp add: f)
  have "total_usage db' = total_usage (snd (lock_wallets en (uc_user_id c) ?db))" using same db1 by (simp add: total_usage_def)
  with apply_effects_total [OF eff] assms(3-6) f have "ar_deducted r = uc_subscription_cost c + uc_balance_cost c"
    by (simp add: quantize_nonneg sub_ids_def)
  moreover have "s\<lparr>us_total_usage := 0, us_window_start := window_start (us_reset_period s) (be_lock_now en)\<rparr> \<in> set (bd_subs db')"
    if s: "s \<in> set (wallet_rows (be_db_now en) (uc_user_id cmd) db)" "dirty_window (be_lock_now en) s" for s
    using s wallet_rows_set [OF s(1)] unfolding subs lock_wallets_rows [OF assms(4)]
    by (auto simp: opened_def reset_row_def intro!: image_eqI [of _ _ s])
  ultimately show ?thesis by (simp add: f)
qed

section \<open>An example\<close>

text \<open>
  User 3 owns 5.00 and a wallet of 1.00 a day, used up on 14 March 2026. On the 15th, at 01:00, a request that costs 0.40
  arrives.
\<close>

definition example_tables :: billing_db where
  "example_tables =
     \<lparr>bd_subs = [example_wallet], bd_users = [3 \<mapsto> \<lparr>bu_balance = 50000000000, bu_frozen = 0\<rparr>],
      bd_keys = (\<lambda>_. None), bd_accounts = (\<lambda>_. None), bd_dedup = (\<lambda>_. None), bd_archive = (\<lambda>_. None),
      bd_outbox = [], bd_ledger = []\<rparr>"

definition example_env :: bill_env where
  "example_env =
     \<lparr>be_db_now = 739689 * day + hour, be_lock_now = 739689 * day + hour, be_split_now = 739689 * day + hour,
      be_next_daily = (\<lambda>t. t + day), be_next_weekly = (\<lambda>t. t + 7 * day), be_fate = Tx_committed\<rparr>"

definition example_request :: "string \<Rightarrow> usage_command" where
  "example_request rid =
     \<lparr>uc_request_id = rid, uc_api_key_id = 5, uc_fingerprint = ''f'', uc_payload_hash = [], uc_user_id = 3,
      uc_account_id = 9, uc_subscription_id = Some 1, uc_account_type = ''oauth'', uc_model = ''m'',
      uc_service_tier = [], uc_reasoning_effort = [], uc_billing_type = 1, uc_input_tokens = 10,
      uc_output_tokens = 10, uc_cache_creation_tokens = 0, uc_cache_read_tokens = 0, uc_image_count = 0,
      uc_media_type = [], uc_balance_cost = 0, uc_subscription_cost = 4000000000, uc_key_quota_cost = 0,
      uc_key_rate_cost = 0, uc_account_quota_cost = 0\<rparr>"

lemma billing_trims: "trim_space ''f'' = ''f''" "trim_space ''r1'' = ''r1''" "trim_space ''r2'' = ''r2''"
  by (simp_all add: trim_space_def strip_left.simps strip_one_def utf8_spaces_code)

lemma example_lock:
  "lock_wallets example_env 3 (example_tables\<lparr>bd_dedup := d\<rparr>) =
     ([example_wallet\<lparr>us_window_start := 739689 * day\<rparr>],
      example_tables\<lparr>bd_dedup := d, bd_subs := [example_wallet\<lparr>us_total_usage := 0, us_window_start := 739689 * day\<rparr>]\<rparr>)"
  by (simp add: lock_wallets_def wallet_rows_def locked_row_def dirty_window_def update_sub_def wallet_evals
      example_tables_def example_env_def)

lemma example_split_none:
  "split_usage_at (739689 * day + hour) [example_wallet\<lparr>us_window_start := 739689 * day\<rparr>] 4000000000 (739689 * day + hour) =
     ([], 4000000000)"
  by (simp add: wallet_evals)


lemma example_cost:
  "apply_subscription_cost example_env (example_request rid) (example_tables\<lparr>bd_dedup := d\<rparr>) =
     (4000000000,
      example_tables\<lparr>bd_dedup := d, bd_subs := [example_wallet\<lparr>us_total_usage := 0, us_window_start := 739689 * day\<rparr>]\<rparr>)"
proof -
  have "uc_user_id (example_request rid) = 3" "uc_subscription_cost (example_request rid) = 4000000000"
    "be_split_now example_env = 739689 * day + hour"
    by (simp_all add: example_request_def example_env_def)
  then show ?thesis by (simp only: apply_subscription_cost_def Let_def example_lock example_split_none prod.case) simp
qed

text \<open>The tables after the request, which the balance paid.\<close>

definition example_after :: billing_db where
  "example_after =
     \<lparr>bd_subs = [example_wallet\<lparr>us_total_usage := 0, us_window_start := 739689 * day\<rparr>],
      bd_users = [3 \<mapsto> \<lparr>bu_balance = 46000000000, bu_frozen = 0\<rparr>],
      bd_keys = (\<lambda>_. None), bd_accounts = (\<lambda>_. None), bd_dedup = [(''r1'', 5) \<mapsto> ''f''], bd_archive = (\<lambda>_. None),
      bd_outbox = [], bd_ledger = [((''r1'', 5), 3, 4000000000)]\<rparr>"

definition example_result :: apply_result where
  "example_result =
     \<lparr>ar_applied = True, ar_exhausted = False, ar_new_balance = Some 46000000000, ar_overdrafted = False,
      ar_quota_state = None, ar_fallback = 4000000000, ar_deducted = 4000000000\<rparr>"

lemma example_normalized: "normalize_command sha (example_request ''r1'') = example_request ''r1''"
  by (simp add: normalize_command_def quantize_monetary_fields_def quantize_usage_billing_amount_def round8_def
      example_request_def billing_trims)

lemma example_effects:
  "apply_effects example_env (example_request ''r1'') (example_tables\<lparr>bd_dedup := [(''r1'', 5) \<mapsto> ''f'']\<rparr>) =
     Inr (example_result, example_after)"
proof -
  have w: "charge_wallets example_env (example_request ''r1'')
      (empty_result True, example_tables\<lparr>bd_dedup := [(''r1'', 5) \<mapsto> ''f'']\<rparr>) =
      ((empty_result True)\<lparr>ar_fallback := 4000000000\<rparr>, example_after\<lparr>bd_users := bd_users example_tables, bd_ledger := []\<rparr>)"
    by (simp add: charge_wallets_def example_cost) (simp add: example_request_def example_tables_def example_after_def)
  show ?thesis unfolding apply_effects_def w
    by (simp add: charge_balance_def deduct_balance_def charge_key_def charge_account_def and_then_def or_fail_def
        set_user_def round8_def example_request_def example_tables_def example_after_def example_result_def empty_result_def)
qed

lemma first_request:
  "apply_usage_billing sha example_env (example_request ''r1'') example_tables = (Inr example_result, example_after)"
proof -
  have "claim_request (''r1'', 5) ''f'' example_tables = Inr (True, example_tables\<lparr>bd_dedup := [(''r1'', 5) \<mapsto> ''f'']\<rparr>)"
    by (simp add: claim_request_def example_tables_def)
  moreover have "uc_request_id (example_request ''r1'') = ''r1''" "uc_api_key_id (example_request ''r1'') = 5"
    "uc_fingerprint (example_request ''r1'') = ''f''" "be_fate example_env = Tx_committed"
    by (simp_all add: example_request_def example_env_def)
  ultimately show ?thesis
    by (simp add: apply_usage_billing_def example_normalized example_effects finish_tx_def and_then_def)
qed

lemmas example_defs = example_tables_def example_env_def example_request_def example_result_def

lemma example_typed: "exact_db example_tables" "distinct (sub_ids example_tables)"
  by (simp_all add: exact_db_def exact_sub_def sub_ids_def example_tables_def example_wallet_def)

lemma example_rows: "wallet_rows (be_db_now example_env) (uc_user_id (example_request rid)) example_tables = [example_wallet]"
  by (simp add: wallet_rows_def example_defs example_wallet_def)

lemma example_clock: "31 * day \<le> be_lock_now example_env" "day_of (be_split_now example_env) = day_of (be_lock_now example_env)"
  by (simp_all add: example_env_def)

lemma example_amounts:
  "quantize_usage_billing_amount (uc_subscription_cost (example_request rid)) = 4000000000"
  "quantize_usage_billing_amount (uc_balance_cost (example_request rid)) = 0"
  by (simp_all add: example_request_def quantize_usage_billing_amount_def round8_def)

theorem ended_window_still_counts_witness:
  "ar_deducted example_result = 4000000000 \<and>
   example_wallet\<lparr>us_total_usage := 0, us_window_start := 739689 * day\<rparr> \<in> set (bd_subs example_after)"
proof -
  have "0 < quantize_usage_billing_amount (uc_subscription_cost (example_request ''r1''))"
    "0 \<le> uc_balance_cost (example_request ''r1'')" "ar_applied example_result"
    "wallet_rows (be_db_now example_env) (uc_user_id (example_request ''r1'')) example_tables \<noteq> []"
    "\<forall>s\<in>set (wallet_rows (be_db_now example_env) (uc_user_id (example_request ''r1'')) example_tables).
       \<exists>l. effective_total_limit s = Some l \<and> l \<le> us_total_usage s"
    by (simp_all add: example_amounts example_rows) (simp_all add: example_request_def example_result_def example_wallet_def
        effective_total_limit_def normalize_sub_limit_def)
  from ended_window_still_counts [OF first_request this(3) example_typed this(1,2) example_clock this(4,5)]
  show ?thesis unfolding example_rows example_amounts
    by (simp add: dirty_window_def window_expired_def is_recurring_period_def normalize_reset_period_def window_start_def
        day_of_def example_wallet_def example_env_def)
qed


theorem requests_charged_once_witness:
  "\<exists>v. bd_users (run_steps (billing_step (\<lambda>s. s)) example_tables
        [Bill_request example_env (example_request ''r1''), Bill_request example_env (example_request ''r1''), Top_up 3 100]) 3 =
      Some v \<and>
    bu_balance v + bu_frozen v = 46000000100"
proof -
  let ?es = "[Bill_request example_env (example_request ''r1''), Bill_request example_env (example_request ''r1''), Top_up 3 100]"
  let ?final = "run_steps (billing_step (\<lambda>s. s)) example_tables ?es"
  have again: "apply_usage_billing (\<lambda>s. s) example_env (example_request ''r1'') example_after = (Inr (empty_result False), example_after)"
    unfolding apply_usage_billing_def example_normalized
    by (simp add: claim_request_def finish_tx_def and_then_def example_defs example_after_def)
  have "charged 3 ?final = 4000000000"
    by (simp add: first_request again) (simp add: example_after_def set_user_def charged_def)
  moreover have "bd_ledger example_tables = []" "bd_users example_tables 3 = Some \<lparr>bu_balance = 50000000000, bu_frozen = 0\<rparr>"
    by (simp_all add: example_tables_def)
  from requests_charged_once [OF example_typed(1) this, of "\<lambda>s. s" ?es]
  have "\<exists>v. bd_users ?final 3 = Some v \<and> bu_balance v + bu_frozen v = 50000000000 + 100 - charged 3 ?final" by simp
  ultimately show ?thesis by simp
qed

theorem applied_request_is_remembered_witness:
  "apply_usage_billing (\<lambda>s. s) example_env ((example_request '' r1 '')\<lparr>uc_fingerprint := ''g''\<rparr>)
     (run_steps (billing_step (\<lambda>s. s)) example_after [Archive_claim (''r1'', 5)]) =
   (Inl Request_conflict, run_steps (billing_step (\<lambda>s. s)) example_after [Archive_claim (''r1'', 5)])"
proof -
  let ?c = "(example_request '' r1 '')\<lparr>uc_fingerprint := ''g''\<rparr>"
  have spaces: "trim_space '' r1 '' = ''r1''" "trim_space ''g'' = ''g''"
    by (simp_all add: trim_space_def strip_left.simps strip_one_def utf8_spaces_code)
  have "ar_applied example_result" "trim_space (uc_request_id ?c) = trim_space (uc_request_id (example_request ''r1''))"
    "uc_api_key_id ?c = uc_api_key_id (example_request ''r1'')"
    by (simp_all add: example_defs billing_trims spaces)
  moreover have "uc_fingerprint (normalize_command (\<lambda>s. s) ?c) = ''g''"
    by (simp add: normalize_command_def quantize_monetary_fields_def example_request_def spaces)
  moreover have "uc_fingerprint (normalize_command (\<lambda>s. s) (example_request ''r1'')) = ''f''" "be_fate example_env = Tx_committed"
    unfolding example_normalized by (simp_all add: example_defs)
  ultimately show ?thesis
    using applied_request_is_remembered [OF first_request, of ?c "\<lambda>s. s" example_env "[Archive_claim (''r1'', 5)]"]
    by (simp add: prod_eq_iff spaces billing_trims)
qed

theorem billing_covers_cost_witness:
  "total_usage example_after + 4000000000 = total_usage (snd (lock_wallets example_env 3 example_tables)) + 4000000000"
proof -
  have "ar_applied example_result" "0 \<le> uc_subscription_cost (example_request ''r1'')" "0 \<le> uc_balance_cost (example_request ''r1'')"
    "bd_users example_tables (uc_user_id (example_request ''r1'')) = Some \<lparr>bu_balance = 50000000000, bu_frozen = 0\<rparr>"
    by (simp_all add: example_defs)
  from billing_covers_cost [OF first_request this(1) example_typed this(2-4)]
  show ?thesis unfolding example_amounts by (simp add: example_defs)
qed

text \<open>A second request of the day is paid by the wallet.\<close>

lemma second_lock:
  "lock_wallets example_env 3 (example_after\<lparr>bd_dedup := d\<rparr>) =
     ([example_wallet\<lparr>us_total_usage := 0, us_window_start := 739689 * day\<rparr>], example_after\<lparr>bd_dedup := d\<rparr>)"
  by (simp add: lock_wallets_def wallet_rows_def locked_row_def dirty_window_def wallet_evals example_after_def example_env_def)

lemma second_split:
  "split_usage_at (739689 * day + hour) [example_wallet\<lparr>us_total_usage := 0, us_window_start := 739689 * day\<rparr>] 4000000000
     (739689 * day + hour) = ([(1, 4000000000)], 0)"
  by (simp add: wallet_evals)

lemma second_cost:
  "apply_subscription_cost example_env (example_request rid) (example_after\<lparr>bd_dedup := d\<rparr>) =
     (0, example_after\<lparr>bd_dedup := d, bd_subs := [example_wallet\<lparr>us_total_usage := 4000000000, us_window_start := 739689 * day\<rparr>]\<rparr>)"
proof -
  have "uc_user_id (example_request rid) = 3" "uc_subscription_cost (example_request rid) = 4000000000"
    "be_split_now example_env = 739689 * day + hour"
    by (simp_all add: example_request_def example_env_def)
  then show ?thesis
    by (simp only: apply_subscription_cost_def Let_def second_lock second_split prod.case)
      (simp add: increment_subscription_def example_after_def example_wallet_def)
qed

definition example_later :: billing_db where
  "example_later = example_after\<lparr>bd_dedup := [(''r1'', 5) \<mapsto> ''f'', (''r2'', 5) \<mapsto> ''f''],
     bd_subs := [example_wallet\<lparr>us_total_usage := 4000000000, us_window_start := 739689 * day\<rparr>]\<rparr>"

lemma second_normalized: "normalize_command sha (example_request ''r2'') = example_request ''r2''"
  by (simp add: normalize_command_def quantize_monetary_fields_def quantize_usage_billing_amount_def round8_def
      example_request_def billing_trims)

lemma second_effects:
  "apply_effects example_env (example_request ''r2'') (example_after\<lparr>bd_dedup := [(''r1'', 5) \<mapsto> ''f'', (''r2'', 5) \<mapsto> ''f'']\<rparr>) =
     Inr (empty_result True, example_later)"
proof -
  have w: "charge_wallets example_env (example_request ''r2'')
      (empty_result True, example_after\<lparr>bd_dedup := [(''r1'', 5) \<mapsto> ''f'', (''r2'', 5) \<mapsto> ''f'']\<rparr>) =
      (empty_result True, example_later)"
    by (simp add: charge_wallets_def second_cost) (simp add: example_request_def example_later_def)
  show ?thesis unfolding apply_effects_def w
    by (simp add: charge_balance_def charge_key_def charge_account_def and_then_def example_request_def empty_result_def)
qed

lemma second_request:
  "apply_usage_billing sha example_env (example_request ''r2'') example_after = (Inr (empty_result True), example_later)"
proof -
  have "claim_request (''r2'', 5) ''f'' example_after =
      Inr (True, example_after\<lparr>bd_dedup := [(''r1'', 5) \<mapsto> ''f'', (''r2'', 5) \<mapsto> ''f'']\<rparr>)"
    by (simp add: claim_request_def example_after_def)
  moreover have "uc_request_id (example_request ''r2'') = ''r2''" "uc_api_key_id (example_request ''r2'') = 5"
    "uc_fingerprint (example_request ''r2'') = ''f''" "be_fate example_env = Tx_committed"
    by (simp_all add: example_defs)
  ultimately show ?thesis
    by (simp add: apply_usage_billing_def second_normalized second_effects finish_tx_def and_then_def)
qed

theorem wallets_charged_within_limits_witness:
  "list_all2 (grown example_env [example_wallet\<lparr>us_total_usage := 0, us_window_start := 739689 * day\<rparr>])
     [example_wallet\<lparr>us_total_usage := 0, us_window_start := 739689 * day\<rparr>]
     [example_wallet\<lparr>us_total_usage := 4000000000, us_window_start := 739689 * day\<rparr>]"
proof -
  have rows: "wallet_rows (be_db_now example_env) (uc_user_id (example_request ''r2'')) example_after =
      [example_wallet\<lparr>us_total_usage := 0, us_window_start := 739689 * day\<rparr>]"
    by (simp add: wallet_rows_def example_after_def example_env_def example_request_def example_wallet_def)
  have "ar_applied (empty_result True)" "distinct (sub_ids example_after)" "\<forall>s\<in>set (bd_subs example_after). 0 \<le> us_total_usage s"
    by (simp_all add: empty_result_def sub_ids_def example_after_def)
  from wallets_charged_within_limits [OF second_request this example_clock(1) refl]
  show ?thesis unfolding rows by (simp add: example_later_def example_after_def)
qed

theorem columns_stay_typed_witness:
  "typed_db (run_steps (billing_step (\<lambda>s. s)) example_tables [Bill_request example_env (example_request ''r1'')])"
proof -
  have "typed_db example_tables"
    by (simp add: typed_db_def typed_row_def typed_user_def sub_ids_def window_start_def is_recurring_period_def
        normalize_reset_period_def day_of_def example_tables_def example_wallet_def)
  from columns_stay_typed [OF this] show ?thesis by blast
qed

end
