(* ===== verification/NamespaceTools.thy ===== *)
theory NamespaceTools
  imports GoJson "HOL-Library.Finite_Map"
begin

text \<open>
  The namespaces of tools (pkg/apicompat/responses_namespace.go, chatcompletions_responses_bridge.go,
  service/openai_responses_namespace.go). A client declares tools in namespaces and calls them by namespace and
  name; most upstreams only know functions at the top level. The gateway declares each tool under one flat
  name, rewrites the calls of the history, and restores namespace and name in the answer.

  A decoded JSON value is \<open>json\<close>: Go's \<open>map[string]any\<close> is a finite map, so that objects are equal when
  their members are, whatever the order. The assignments to a map in place are the value of the
  function; decoding gives a tree, in which no two maps are shared. Numbers keep their text. SHA-256 is the argument \<open>sha\<close>.
\<close>

section \<open>Values\<close>

datatype json =
    JNull
  | JBool bool
  | JNum string
  | JStr string
  | JArr "json list"
  | JObj "(string, json) fmap"

type_synonym json_object = "(string, json) fmap"

definition string_value :: "json option \<Rightarrow> string" where
  "string_value v = (case v of Some (JStr s) \<Rightarrow> s | _ \<Rightarrow> [])"

text \<open>The trimmed text of a member, which every comparison of the code reads.\<close>

definition field :: "string \<Rightarrow> json_object \<Rightarrow> string" where
  "field k m = trim_space (string_value (fmlookup m k))"

section \<open>Flat names\<close>

record namespaced_tool =
  nt_namespace :: string
  nt_name :: string

type_synonym tool_names = "(string, namespaced_tool) fmap"

definition hex_encode :: "string \<Rightarrow> string" where
  "hex_encode s = concat (map (\<lambda>c. [hex_digit (code c div 16), hex_digit (code c mod 16)]) s)"

text \<open>\<open>string(ch)\<close> for the first rune of a string; a byte that starts none reads as U+FFFD.\<close>

definition first_rune :: "string \<Rightarrow> string" where
  "first_rune s = (if utf8_len s = 0 then replacement_char else take (utf8_len s) s)"

function rune_prefix :: "nat \<Rightarrow> string \<Rightarrow> string \<Rightarrow> string" where
  "rune_prefix limit built s =
     (if s = [] then built
      else if limit < length built + length (first_rune s) then built
      else rune_prefix limit (built @ first_rune s) (drop (if utf8_len s = 0 then 1 else utf8_len s) s))"
  by pat_completeness auto
termination
  by (relation "measure (\<lambda>(_, _, s). length s)") auto

declare rune_prefix.simps [simp del]

definition chat_tool_name_max_len :: nat where
  "chat_tool_name_max_len = 64"

definition flatten_namespace_tool_name :: "(string \<Rightarrow> string) \<Rightarrow> string \<Rightarrow> string \<Rightarrow> string" where
  "flatten_namespace_tool_name sha namespace name =
     (let full = namespace @ ''__'' @ name
      in if length full \<le> chat_tool_name_max_len then full
         else let suffix = ''__'' @ hex_encode (take 4 (sha full))
              in rune_prefix (chat_tool_name_max_len - length suffix) [] full @ suffix)"

section \<open>The declarations of a request\<close>

datatype namespace_error =
    Clash_top_level string string string
  | Clash_namespaces namespaced_tool string string string

definition namespace_children :: "json_object \<Rightarrow> json list" where
  "namespace_children tool =
     (case fmlookup tool ''tools'' of
        Some (JArr (c # cs)) \<Rightarrow> c # cs
      | _ \<Rightarrow> (case fmlookup tool ''children'' of Some (JArr cs) \<Rightarrow> cs | _ \<Rightarrow> []))"

text \<open>A child that both loops take: an object of type function, with its name.\<close>

definition function_child :: "json \<Rightarrow> (string \<times> json_object) option" where
  "function_child raw =
     (case raw of JObj m \<Rightarrow> if field ''type'' m = ''function'' then Some (field ''name'' m, m) else None | _ \<Rightarrow> None)"

text \<open>The names of functions and custom tools at the top level.\<close>

fun top_level_names :: "json list \<Rightarrow> string list" where
  "top_level_names [] = []"
| "top_level_names (JObj m # tools) =
     (if (field ''type'' m = ''function'' \<or> field ''type'' m = ''custom'') \<and> field ''name'' m \<noteq> []
      then field ''name'' m # top_level_names tools else top_level_names tools)"
| "top_level_names (_ # tools) = top_level_names tools"

text \<open>The first loop: the flat name of every child, refused when it is not unambiguous.\<close>

fun collect_children :: "(string \<Rightarrow> string) \<Rightarrow> string list \<Rightarrow> string \<Rightarrow> json list \<Rightarrow> tool_names
  \<Rightarrow> namespace_error + tool_names" where
  "collect_children sha declared namespace [] names = Inr names"
| "collect_children sha declared namespace (raw # cs) names =
     (case function_child raw of
        None \<Rightarrow> collect_children sha declared namespace cs names
      | Some (name, _) \<Rightarrow>
          if name = [] then collect_children sha declared namespace cs names
          else
            let flat = flatten_namespace_tool_name sha namespace name;
                entry = \<lparr>nt_namespace = namespace, nt_name = name\<rparr>
            in if flat \<in> set declared then Inl (Clash_top_level namespace name flat)
               else case fmlookup names flat of
                   Some prev \<Rightarrow>
                     if prev \<noteq> entry then Inl (Clash_namespaces prev namespace name flat)
                     else collect_children sha declared namespace cs (fmupd flat entry names)
                 | None \<Rightarrow> collect_children sha declared namespace cs (fmupd flat entry names))"

fun collect_names :: "(string \<Rightarrow> string) \<Rightarrow> string list \<Rightarrow> string list \<Rightarrow> json list \<Rightarrow> tool_names
  \<Rightarrow> namespace_error + tool_names" where
  "collect_names sha preserved declared [] names = Inr names"
| "collect_names sha preserved declared (JObj tool # tools) names =
     (let namespace = field ''name'' tool
      in if field ''type'' tool \<noteq> ''namespace'' \<or> namespace = [] \<or> namespace \<in> set preserved
         then collect_names sha preserved declared tools names
         else case collect_children sha declared namespace (namespace_children tool) names of
             Inl e \<Rightarrow> Inl e
           | Inr names' \<Rightarrow> collect_names sha preserved declared tools names')"
| "collect_names sha preserved declared (_ # tools) names = collect_names sha preserved declared tools names"

text \<open>The second loop: the children take the place of their namespace, each flat name once.\<close>

fun flatten_children :: "(string \<Rightarrow> string) \<Rightarrow> string \<Rightarrow> json list \<Rightarrow> string list \<Rightarrow> json list \<times> string list" where
  "flatten_children sha namespace [] seen = ([], seen)"
| "flatten_children sha namespace (raw # cs) seen =
     (case function_child raw of
        None \<Rightarrow> flatten_children sha namespace cs seen
      | Some (name, child) \<Rightarrow>
          let flat = flatten_namespace_tool_name sha namespace name
          in if name = [] \<or> flat \<in> set seen then flatten_children sha namespace cs seen
             else case flatten_children sha namespace cs (flat # seen) of
                 (out, seen') \<Rightarrow> (JObj (fmupd ''name'' (JStr flat) child) # out, seen'))"

fun flatten_tools :: "(string \<Rightarrow> string) \<Rightarrow> string list \<Rightarrow> json list \<Rightarrow> string list \<Rightarrow> json list" where
  "flatten_tools sha preserved [] seen = []"
| "flatten_tools sha preserved (JObj tool # tools) seen =
     (let namespace = field ''name'' tool
      in if field ''type'' tool \<noteq> ''namespace'' \<or> namespace \<in> set preserved
         then JObj tool # flatten_tools sha preserved tools seen
         else case flatten_children sha namespace (namespace_children tool) seen of
             (out, seen') \<Rightarrow> out @ flatten_tools sha preserved tools seen')"
| "flatten_tools sha preserved (raw # tools) seen = raw # flatten_tools sha preserved tools seen"

section \<open>The calls\<close>

text \<open>
  \<open>rewriteNamespaceQualifiedCall\<close> and the body of \<open>restoreResponsesNamespaceValue\<close> on one object. The
  recursive functions map the members first: strings are mapped to themselves and nothing else to a string, so
  what the two functions read and write is the same before and after (\<open>rewrite_item_fmmap\<close>, \<open>restore_item_fmmap\<close>).
\<close>

definition rewrite_call :: "(string \<Rightarrow> string) \<Rightarrow> tool_names \<Rightarrow> json_object \<Rightarrow> json_object" where
  "rewrite_call sha names item =
     (let namespace = field ''namespace'' item; name = field ''name'' item;
          flat = flatten_namespace_tool_name sha namespace name
      in if namespace = [] \<or> name = [] then item
         else if fmlookup names flat = Some \<lparr>nt_namespace = namespace, nt_name = name\<rparr>
         then fmdrop ''namespace'' (fmupd ''name'' (JStr flat) item)
         else item)"

definition rewrite_item :: "(string \<Rightarrow> string) \<Rightarrow> tool_names \<Rightarrow> json_object \<Rightarrow> json_object" where
  "rewrite_item sha names item = (if field ''type'' item = ''function_call'' then rewrite_call sha names item else item)"

primrec rewrite_calls :: "(string \<Rightarrow> string) \<Rightarrow> tool_names \<Rightarrow> json \<Rightarrow> json" where
  "rewrite_calls sha names JNull = JNull"
| "rewrite_calls sha names (JBool b) = JBool b"
| "rewrite_calls sha names (JNum n) = JNum n"
| "rewrite_calls sha names (JStr s) = JStr s"
| "rewrite_calls sha names (JArr vs) = JArr (map (rewrite_calls sha names) vs)"
| "rewrite_calls sha names (JObj m) = JObj (rewrite_item sha names (fmmap (rewrite_calls sha names) m))"

definition is_flat_call :: "tool_names \<Rightarrow> json_object \<Rightarrow> bool" where
  "is_flat_call names item \<longleftrightarrow>
     field ''type'' item = ''function_call'' \<and> fmlookup names (field ''name'' item) \<noteq> None"

definition restore_item :: "tool_names \<Rightarrow> json_object \<Rightarrow> json_object" where
  "restore_item names item =
     (if field ''type'' item = ''function_call'' then
        case fmlookup names (field ''name'' item) of
          Some entry \<Rightarrow> fmupd ''namespace'' (JStr (nt_namespace entry)) (fmupd ''name'' (JStr (nt_name entry)) item)
        | None \<Rightarrow> item
      else item)"

primrec restore_value :: "tool_names \<Rightarrow> json \<Rightarrow> json" where
  "restore_value names JNull = JNull"
| "restore_value names (JBool b) = JBool b"
| "restore_value names (JNum n) = JNum n"
| "restore_value names (JStr s) = JStr s"
| "restore_value names (JArr vs) = JArr (map (restore_value names) vs)"
| "restore_value names (JObj m) = JObj (restore_item names (fmmap (restore_value names) m))"

text \<open>The result \<open>changed\<close> of \<open>restoreResponsesNamespaceValue\<close>.\<close>

primrec restore_changed :: "tool_names \<Rightarrow> json \<Rightarrow> bool" where
  "restore_changed names JNull = False"
| "restore_changed names (JBool b) = False"
| "restore_changed names (JNum n) = False"
| "restore_changed names (JStr s) = False"
| "restore_changed names (JArr vs) = list_ex id (map (restore_changed names) vs)"
| "restore_changed names (JObj m) =
     (is_flat_call names m \<or> \<not> fmpred (\<lambda>_. Not) (fmmap (restore_changed names) m))"

text \<open>\<open>RestoreResponsesNamespaceCalls\<close>: a payload without a flat call is handed on untouched.\<close>

definition restore_namespace_calls :: "tool_names \<Rightarrow> json \<Rightarrow> json \<times> bool" where
  "restore_namespace_calls names payload =
     (if names = fmempty \<or> \<not> restore_changed names payload then (payload, False)
      else (restore_value names payload, True))"

section \<open>The request\<close>

definition rewrite_tool_choice :: "(string \<Rightarrow> string) \<Rightarrow> string list \<Rightarrow> tool_names \<Rightarrow> json_object \<Rightarrow> json_object" where
  "rewrite_tool_choice sha preserved names req =
     (case fmlookup req ''tool_choice'' of
        Some (JObj choice) \<Rightarrow>
          if field ''type'' choice = ''namespace'' \<and> field ''name'' choice \<notin> set preserved
          then fmupd ''tool_choice'' (JStr ''auto'') req
          else fmupd ''tool_choice'' (JObj (rewrite_call sha names choice)) req
      | _ \<Rightarrow> req)"

text \<open>\<open>FlattenResponsesNamespacesExcept\<close>: the names of the flattened tools, whether the request has changed, the request.\<close>

definition flatten_namespaces :: "(string \<Rightarrow> string) \<Rightarrow> string list \<Rightarrow> json_object
  \<Rightarrow> namespace_error + tool_names \<times> bool \<times> json_object" where
  "flatten_namespaces sha preserved req =
     (case fmlookup req ''tools'' of
        Some (JArr tools) \<Rightarrow>
          (case collect_names sha preserved (top_level_names tools) tools fmempty of
             Inl e \<Rightarrow> Inl e
           | Inr names \<Rightarrow>
               if names = fmempty then Inr (fmempty, False, req)
               else
                 let req = fmupd ''tools'' (JArr (flatten_tools sha preserved tools [])) req;
                     req = (case fmlookup req ''input'' of
                              Some v \<Rightarrow> fmupd ''input'' (rewrite_calls sha names v) req | None \<Rightarrow> req)
                 in Inr (names, True, rewrite_tool_choice sha preserved names req))
      | _ \<Rightarrow> Inr (fmempty, False, req))"

section \<open>Trimmed names\<close>

text \<open>A string without white space at its ends, as the comparisons of the code produce them.\<close>

definition trimmed :: "string \<Rightarrow> bool" where
  "trimmed s \<longleftrightarrow> strip_one utf8_spaces s = None \<and> strip_one (map rev utf8_spaces) (rev s) = None"

lemma strip_one_None:
  "strip_one ws s = None \<longleftrightarrow> (\<forall>w \<in> set ws. w \<noteq> [] \<longrightarrow> take (length w) s \<noteq> w)"
  by (auto simp: strip_one_def find_None_iff)

lemma strip_one_strip_left: "strip_one ws (strip_left ws s) = None"
proof (induction ws s rule: strip_left.induct)
  case (1 ws s)
  then show ?case by (subst strip_left.simps) (auto split: option.split)
qed

lemma trim_space_trimmed: "trimmed s \<Longrightarrow> trim_space s = s"
  by (simp add: trimmed_def trim_space_def strip_left.simps [of utf8_spaces s]
      strip_left.simps [of "map rev utf8_spaces" "rev s"])

lemma strip_left_suffix: "\<exists>p. s = p @ strip_left ws s"
proof (induction ws s rule: strip_left.induct)
  case (1 ws s)
  show ?case
  proof (cases "strip_one ws s")
    case None
    then show ?thesis by (simp add: strip_left.simps [of ws s])
  next
    case (Some t)
    then obtain n where "t = drop n s" by (auto simp: strip_one_def)
    then have "s = take n s @ t" by simp
    with 1 [OF Some] Some show ?thesis
      by (metis append.assoc option.simps(5) strip_left.simps)
  qed
qed

lemma trimmed_trim_space [simp]: "trimmed (trim_space s)"
proof -
  define u where "u = strip_left utf8_spaces s"
  define r where "r = strip_left (map rev utf8_spaces) (rev u)"
  obtain p where "rev u = p @ r" using strip_left_suffix unfolding r_def by blast
  then have u: "u = rev r @ rev p" by (metis rev_append rev_rev_ident)
  have "take (length w) (rev r) \<noteq> w" if "w \<in> set utf8_spaces" "w \<noteq> []" for w
  proof
    assume *: "take (length w) (rev r) = w"
    then have "length w \<le> length (rev r)" by (metis nat_le_linear take_all)
    with * u have "take (length w) u = w" by simp
    with strip_one_strip_left [of utf8_spaces s] that show False by (auto simp: strip_one_None u_def)
  qed
  then have "strip_one utf8_spaces (rev r) = None" by (auto simp: strip_one_None)
  with strip_one_strip_left [of "map rev utf8_spaces" "rev u"] show ?thesis
    by (simp add: trimmed_def trim_space_def u_def r_def)
qed

lemma trimmed_Nil [simp]: "trimmed []"
  by (simp add: trimmed_def strip_one_None)

lemma trim_trim [simp]: "trim_space (trim_space s) = trim_space s"
  by (simp add: trim_space_trimmed)

lemma trimmed_field [simp]: "trimmed (field k m)" "trim_space (field k m) = field k m"
  by (simp_all add: field_def)

text \<open>The bytes of white space, and no white space begins with the encoding of another rune.\<close>

lemma space_bytes:
  "list_all (\<lambda>w. utf8_len w = length w \<and> list_all (\<lambda>c. c \<noteq> CHR ''_'' \<and> c \<notin> set ''0123456789abcdef'') w
             \<and> code (hd w) \<noteq> 239) utf8_spaces"
  by (simp add: utf8_spaces_code utf8_len_def continuation_def)

lemma spaceD:
  assumes "w \<in> set utf8_spaces"
  shows "utf8_len w = length w" "c \<in> set w \<Longrightarrow> c \<noteq> CHR ''_''" "c \<in> set w \<Longrightarrow> c \<notin> set ''0123456789abcdef''"
    "code (hd w) \<noteq> 239"
  using space_bytes assms by (auto simp: list_all_iff)

lemma utf8_len_append: "0 < utf8_len w \<Longrightarrow> utf8_len (w @ r) = utf8_len w"
  using utf8_len_take [of "w @ r" "length w"]
  by (cases w; cases "tl w"; cases "tl (tl w)"; cases "tl (tl (tl w))") (auto simp: utf8_len_def split: if_splits list.splits)

text \<open>What is joined by underscores stays trimmed.\<close>

lemma strip_one_join:
  assumes "strip_one ws s = None" "\<And>w. w \<in> set ws \<Longrightarrow> CHR ''_'' \<notin> set w" 
  shows "strip_one ws (s @ CHR ''_'' # t) = None"
proof -
  have "take (length w) (s @ CHR ''_'' # t) \<noteq> w" if w: "w \<in> set ws" "w \<noteq> []" for w
  proof (cases "length w \<le> length s")
    case True
    with assms(1) w show ?thesis by (auto simp: strip_one_None)
  next
    case False
    then obtain k where k: "length w - length s = Suc k" by (cases "length w - length s") auto
    have "CHR ''_'' \<in> set (take (length w) (s @ CHR ''_'' # t))" using False by (simp add: k)
    with assms(2) w show ?thesis by metis
  qed
  then show ?thesis by (auto simp: strip_one_None)
qed

lemma no_underscore: "w \<in> set utf8_spaces \<Longrightarrow> CHR ''_'' \<notin> set w" "w \<in> set (map rev utf8_spaces) \<Longrightarrow> CHR ''_'' \<notin> set w"
  using spaceD(2) [of _ "CHR ''_''"] by auto

lemma trimmed_join: "trimmed s \<Longrightarrow> trimmed t \<Longrightarrow> trimmed (s @ ''__'' @ t)"
  using strip_one_join [of utf8_spaces s "CHR ''_'' # t"] strip_one_join [of "map rev utf8_spaces" "rev t" "CHR ''_'' # rev s"]
  by (simp add: trimmed_def no_underscore)

lemma hex_digits_plain: "list_all (\<lambda>n. hex_digit n \<in> set ''0123456789abcdef'') [0 ..< 16]"
  by (simp add: hex_digit_def char_of_def bit_simps upt_rec)

lemma hex_encode_plain: "set (hex_encode s) \<subseteq> set ''0123456789abcdef''"
proof -
  define hexes where "hexes = set ''0123456789abcdef''"
  have "code c div 16 < 16" for c using nat_of_char_less_256 [of c] by (simp add: less_mult_imp_div_less del: nat_of_char_less_256)
  then have "hex_digit (code c div 16) \<in> hexes" "hex_digit (code c mod 16) \<in> hexes" for c
    using hex_digits_plain by (auto simp: list_all_iff hexes_def simp del: list.set)
  then have "set (hex_encode s) \<subseteq> hexes" by (auto simp: hex_encode_def)
  then show ?thesis by (simp add: hexes_def)
qed

lemma first_rune_head: "s \<noteq> [] \<Longrightarrow> first_rune s \<noteq> []" 
  by (auto simp: first_rune_def replacement_char_def)

lemma rune_prefix_extends: "\<exists>t. rune_prefix limit built s = built @ t"
proof (induction limit built s rule: rune_prefix.induct)
  case (1 limit built s)
  then show ?case by (subst rune_prefix.simps) (auto simp del: append_assoc simp: append_assoc)
qed

lemma rune_prefix_length: "length built \<le> limit \<Longrightarrow> length (rune_prefix limit built s) \<le> limit"
proof (induction limit built s rule: rune_prefix.induct)
  case (1 limit built s)
  then show ?case by (subst rune_prefix.simps) auto
qed

text \<open>The cut string starts with the same rune, so it starts with white space only when the string does.\<close>

lemma strip_rune_prefix:
  assumes "strip_one utf8_spaces s = None"
  shows "strip_one utf8_spaces (rune_prefix limit [] s @ CHR ''_'' # t) = None"
proof (rule strip_one_join [OF _ no_underscore(1)])
  show "strip_one utf8_spaces (rune_prefix limit [] s) = None"
  proof (cases "s = [] \<or> limit < length (first_rune s)")
    case True
    then show ?thesis by (subst rune_prefix.simps) (auto simp: strip_one_None)
  next
    case False
    then obtain r where p: "rune_prefix limit [] s = first_rune s @ r"
      using rune_prefix_extends [of limit "first_rune s"] by (simp add: rune_prefix.simps [of limit "[]" s]) blast
    have "take (length w) (first_rune s @ r) \<noteq> w" if w: "w \<in> set utf8_spaces" "w \<noteq> []" for w
    proof
      assume *: "take (length w) (first_rune s @ r) = w"
      then have w': "first_rune s @ r = w @ drop (length w) (first_rune s @ r)" by (metis append_take_drop_id)
      show False
      proof (cases "utf8_len s = 0")
        case True
        then have "hd w = hd replacement_char"
          using w' w by (cases w) (auto simp: first_rune_def replacement_char_def)
        with spaceD(4) [OF w(1)] show False by (simp add: replacement_char_def)
      next
        case False
        then have k: "utf8_len (first_rune s) = utf8_len s" "length (first_rune s) = utf8_len s"
          using utf8_len_take [of s "utf8_len s"] utf8_len_le(2) [of s] by (auto simp: first_rune_def)
        have "utf8_len (first_rune s @ r) = utf8_len s" using k False utf8_len_append [of "first_rune s" r] by simp
        moreover have "utf8_len (w @ drop (length w) (first_rune s @ r)) = length w"
          using spaceD(1) [OF w(1)] w(2) utf8_len_append by auto
        ultimately have "length w = utf8_len s" using w' by simp
        with * k False have "take (length w) s = w" by (simp add: first_rune_def)
        with assms w show False by (auto simp: strip_one_None)
      qed
    qed
    then show ?thesis by (auto simp: p strip_one_None)
  qed
qed

lemma trimmed_flat_name:
  assumes "trimmed namespace" "trimmed name"
  shows "trimmed (flatten_namespace_tool_name sha namespace name)"
proof (cases "length (namespace @ ''__'' @ name) \<le> chat_tool_name_max_len")
  case True
  with trimmed_join [OF assms] show ?thesis by (simp add: flatten_namespace_tool_name_def)
next
  case False
  define full where "full = namespace @ ''__'' @ name"
  define x where "x = hex_encode (take 4 (sha full))"
  define p where "p = rune_prefix (chat_tool_name_max_len - length (''__'' @ x)) [] full"
  have flat: "flatten_namespace_tool_name sha namespace name = p @ ''__'' @ x"
    using False by (simp add: flatten_namespace_tool_name_def Let_def p_def x_def full_def)
  have "strip_one utf8_spaces (p @ ''__'' @ x) = None"
    using trimmed_join [OF assms] strip_rune_prefix [of full] by (simp add: p_def full_def trimmed_def)
  moreover have "strip_one (map rev utf8_spaces) (rev x @ CHR ''_'' # CHR ''_'' # rev p) = None"
  proof (rule strip_one_join [OF _ no_underscore(2)])
    have "take (length w) (rev x) \<noteq> w" if "w \<in> set (map rev utf8_spaces)" "w \<noteq> []" for w
    proof
      assume "take (length w) (rev x) = w"
      then have "set w \<subseteq> set x" by (metis set_rev set_take_subset)
      with that hex_encode_plain [of "take 4 (sha full)"] have "hd w \<in> set ''0123456789abcdef''"
        unfolding x_def by (meson hd_in_set subsetD)
      moreover from that have "rev w \<in> set utf8_spaces" "hd w \<in> set (rev w)" by auto
      ultimately show False using spaceD(3) by blast
    qed
    then show "strip_one (map rev utf8_spaces) (rev x) = None" by (auto simp: strip_one_None)
  qed
  ultimately show ?thesis by (simp add: flat trimmed_def)
qed

lemma flat_name_length: "length (flatten_namespace_tool_name sha namespace name) \<le> chat_tool_name_max_len"
proof -
  define full where "full = namespace @ ''__'' @ name"
  define x where "x = ''__'' @ hex_encode (take 4 (sha full))"
  have "length (hex_encode s) = 2 * length s" for s by (induction s) (auto simp: hex_encode_def)
  then have "length x \<le> chat_tool_name_max_len" by (simp add: chat_tool_name_max_len_def x_def)
  with rune_prefix_length [of "[]" "chat_tool_name_max_len - length x" full]
  have "length (rune_prefix (chat_tool_name_max_len - length x) [] full @ x) \<le> chat_tool_name_max_len" by simp
  then show ?thesis unfolding flatten_namespace_tool_name_def Let_def full_def [symmetric] x_def [symmetric] by simp
qed


section \<open>What the names say\<close>

text \<open>Every entry of the names is the flat name of what it stands for.\<close>

definition names_ok :: "(string \<Rightarrow> string) \<Rightarrow> tool_names \<Rightarrow> bool" where
  "names_ok sha names \<longleftrightarrow>
     (\<forall>flat entry. fmlookup names flat = Some entry \<longrightarrow>
        nt_namespace entry \<noteq> [] \<and> nt_name entry \<noteq> [] \<and> trimmed (nt_namespace entry) \<and> trimmed (nt_name entry) \<and>
        flat = flatten_namespace_tool_name sha (nt_namespace entry) (nt_name entry))"

lemma names_okD:
  assumes "names_ok sha names" "fmlookup names flat = Some entry"
  shows "nt_namespace entry \<noteq> []" "nt_name entry \<noteq> []" "trim_space (nt_namespace entry) = nt_namespace entry"
    "trim_space (nt_name entry) = nt_name entry" "flatten_namespace_tool_name sha (nt_namespace entry) (nt_name entry) = flat"
    "trim_space flat = flat"
proof -
  from assms have *: "nt_namespace entry \<noteq> [] \<and> nt_name entry \<noteq> [] \<and> trimmed (nt_namespace entry) \<and> trimmed (nt_name entry) \<and>
      flat = flatten_namespace_tool_name sha (nt_namespace entry) (nt_name entry)" by (simp add: names_ok_def)
  then show "nt_namespace entry \<noteq> []" "nt_name entry \<noteq> []" "trim_space (nt_namespace entry) = nt_namespace entry"
    "trim_space (nt_name entry) = nt_name entry" "flatten_namespace_tool_name sha (nt_namespace entry) (nt_name entry) = flat"
    by (simp_all add: trim_space_trimmed)
  from * have "trimmed flat" by (metis trimmed_flat_name)
  then show "trim_space flat = flat" by (rule trim_space_trimmed)
qed

lemma function_childD:
  assumes "function_child raw = Some (name, m)"
  shows "raw = JObj m" "field ''type'' m = ''function''" "field ''name'' m = name"
  using assms by (auto simp: function_child_def split: json.splits if_splits)

lemma collect_children_ok:
  "collect_children sha declared namespace cs names = Inr names' \<Longrightarrow> names_ok sha names \<Longrightarrow>
   namespace \<noteq> [] \<Longrightarrow> trimmed namespace \<Longrightarrow> names_ok sha names'"
proof (induction sha declared namespace cs names rule: collect_children.induct)
  case (2 sha declared namespace raw cs names)
  show ?case
  proof (cases "function_child raw")
    case (Some p)
    obtain name m where p: "p = (name, m)" by force
    define flat where "flat = flatten_namespace_tool_name sha namespace name"
    define entry where "entry = \<lparr>nt_namespace = namespace, nt_name = name\<rparr>"
    have nm: "trimmed name" using function_childD(3) [OF Some [unfolded p]] by auto
    show ?thesis
    proof (cases "name = []")
      case True
      with 2 Some p show ?thesis by simp
    next
      case False
      with "2.prems"(1) Some p have c: "collect_children sha declared namespace cs (fmupd flat entry names) = Inr names'"
        by (auto simp: flat_def entry_def Let_def split: if_splits option.splits)
      have "names_ok sha (fmupd flat entry names)"
        using "2.prems"(2-4) False nm by (auto simp: names_ok_def flat_def entry_def)
      then show ?thesis
        using "2.IH"(3-4) [OF Some p [symmetric] False flat_def entry_def] "2.prems" c Some p False
        by (cases "fmlookup names flat") (auto simp: flat_def entry_def Let_def split: if_splits)
    qed
  qed (use 2 in simp)
qed simp

lemma collect_names_ok:
  "collect_names sha preserved declared tools names = Inr names' \<Longrightarrow> names_ok sha names \<Longrightarrow> names_ok sha names'"
  by (induction sha preserved declared tools names rule: collect_names.induct)
     (auto simp: Let_def split: if_splits sum.splits dest: collect_children_ok)

lemma names_ok_empty [simp]: "names_ok sha fmempty"
  by (simp add: names_ok_def)

lemma flatten_namespaces_ok:
  "flatten_namespaces sha preserved req = Inr (names, changed, req') \<Longrightarrow> names_ok sha names"
  by (auto simp: flatten_namespaces_def Let_def split: option.splits json.splits sum.splits if_splits
      dest: collect_names_ok)

section \<open>Rewriting and restoring calls\<close>

text \<open>A function on values that keeps strings and makes no new ones is not seen by the fields.\<close>

definition keeps_strings :: "(json \<Rightarrow> json) \<Rightarrow> bool" where
  "keeps_strings f \<longleftrightarrow> (\<forall>v. string_value (Some (f v)) = string_value (Some v)) \<and> (\<forall>s. f (JStr s) = JStr s)"

lemma field_fmmap: "keeps_strings f \<Longrightarrow> field k (fmmap f m) = field k m"
  by (cases "fmlookup m k") (auto simp: field_def keeps_strings_def)

lemma rewrite_item_fmmap:
  "keeps_strings f \<Longrightarrow> rewrite_item sha names (fmmap f m) = fmmap f (rewrite_item sha names m)"
  by (auto simp: rewrite_item_def rewrite_call_def field_fmmap Let_def fmmap_fmupd fmdrop_fmmap [symmetric] keeps_strings_def
      simp del: fmdrop_fmmap)

lemma restore_item_fmmap:
  "keeps_strings f \<Longrightarrow> restore_item names (fmmap f m) = fmmap f (restore_item names m)"
  by (cases "fmlookup names (field ''name'' m)")
     (auto simp: restore_item_def field_fmmap fmmap_fmupd keeps_strings_def)

lemma keeps_strings_calls:
  "keeps_strings (rewrite_calls sha names)" "keeps_strings (restore_value names)"
proof -
  have "string_value (Some (rewrite_calls sha names v)) = string_value (Some v)"
    "string_value (Some (restore_value names v)) = string_value (Some v)" for v
    by (cases v; simp add: string_value_def)+
  then show "keeps_strings (rewrite_calls sha names)" "keeps_strings (restore_value names)"
    by (simp_all add: keeps_strings_def)
qed

text \<open>
  A call as the client writes it: when its namespace and name are declared, both are
  written without white space; otherwise its name is not a flat one. And a call as the upstream writes it: without
  a namespace, a flat name without white space.
\<close>

definition qualified_call :: "(string \<Rightarrow> string) \<Rightarrow> tool_names \<Rightarrow> json_object \<Rightarrow> bool" where
  "qualified_call sha names m \<longleftrightarrow>
     (if fmlookup names (flatten_namespace_tool_name sha (field ''namespace'' m) (field ''name'' m))
         = Some \<lparr>nt_namespace = field ''namespace'' m, nt_name = field ''name'' m\<rparr>
      then fmlookup m ''namespace'' = Some (JStr (field ''namespace'' m)) \<and> fmlookup m ''name'' = Some (JStr (field ''name'' m))
      else fmlookup names (field ''name'' m) = None)"

definition flat_call :: "tool_names \<Rightarrow> json_object \<Rightarrow> bool" where
  "flat_call names m \<longleftrightarrow>
     fmlookup m ''namespace'' = None \<and>
     (fmlookup names (field ''name'' m) \<noteq> None \<longrightarrow> fmlookup m ''name'' = Some (JStr (field ''name'' m)))"

primrec all_calls :: "(json_object \<Rightarrow> bool) \<Rightarrow> json \<Rightarrow> bool" where
  "all_calls P JNull = True"
| "all_calls P (JBool b) = True"
| "all_calls P (JNum n) = True"
| "all_calls P (JStr s) = True"
| "all_calls P (JArr vs) = list_all id (map (all_calls P) vs)"
| "all_calls P (JObj m) = ((field ''type'' m = ''function_call'' \<longrightarrow> P m) \<and> fmpred (\<lambda>_. id) (fmmap (all_calls P) m))"

lemma field_upd:
  "field k (fmupd l v m) = (if k = l then trim_space (string_value (Some v)) else field k m)"
  "field k (fmdrop l m) = (if k = l then [] else field k m)"
  by (auto simp: field_def string_value_def trim_space_trimmed)

lemma restore_rewrite_item:
  assumes "names_ok sha names" "field ''type'' m = ''function_call'' \<longrightarrow> qualified_call sha names m"
  shows "restore_item names (rewrite_item sha names m) = m"
proof (cases "field ''type'' m = ''function_call''")
  case True
  let ?flat = "flatten_namespace_tool_name sha (field ''namespace'' m) (field ''name'' m)"
  show ?thesis
  proof (cases "fmlookup names ?flat = Some \<lparr>nt_namespace = field ''namespace'' m, nt_name = field ''name'' m\<rparr>")
    case yes: True
    from names_okD [OF assms(1) yes]
    have "rewrite_item sha names m = fmdrop ''namespace'' (fmupd ''name'' (JStr ?flat) m)" "trim_space ?flat = ?flat"
      using True yes by (auto simp: rewrite_item_def rewrite_call_def Let_def)
    moreover from assms(2) True yes have "fmlookup m ''namespace'' = Some (JStr (field ''namespace'' m))"
      "fmlookup m ''name'' = Some (JStr (field ''name'' m))" by (auto simp: qualified_call_def)
    ultimately show ?thesis
      using True yes by (intro fmap_ext) (auto simp: restore_item_def field_upd string_value_def)
  next
    case False
    with assms(2) True show ?thesis
      by (auto simp: rewrite_item_def rewrite_call_def restore_item_def qualified_call_def Let_def)
  qed
qed (simp add: rewrite_item_def restore_item_def)

lemma rewrite_restore_item:
  assumes "names_ok sha names" "field ''type'' m = ''function_call'' \<longrightarrow> flat_call names m"
  shows "rewrite_item sha names (restore_item names m) = m"
proof (cases "field ''type'' m = ''function_call'' \<and> fmlookup names (field ''name'' m) \<noteq> None")
  case True
  then obtain e where e: "fmlookup names (field ''name'' m) = Some e" by auto
  with True assms(2) have "restore_item names m = fmupd ''namespace'' (JStr (nt_namespace e)) (fmupd ''name'' (JStr (nt_name e)) m)"
    "fmlookup m ''namespace'' = None" "fmlookup m ''name'' = Some (JStr (field ''name'' m))"
    by (auto simp: restore_item_def flat_call_def)
  with e True names_okD [OF assms(1) e] show ?thesis
    by (intro fmap_ext) (auto simp: rewrite_item_def rewrite_call_def Let_def field_upd string_value_def)
next
  case False
  then have "restore_item names m = m" by (auto simp: restore_item_def)
  moreover have "field ''namespace'' m = []" if "flat_call names m"
    using that by (simp add: flat_call_def field_def string_value_def trim_space_trimmed)
  ultimately show ?thesis
    using False assms(2) by (auto simp: rewrite_item_def rewrite_call_def Let_def)
qed

lemma fmmap_inverse:
  assumes "\<And>v. v \<in> fmran' m \<Longrightarrow> g (f v) = v"
  shows "fmmap g (fmmap f m) = m"
  using assms by (intro fmap_ext) (auto simp: option.map_comp fmran'I split: option.split intro!: option.map_ident_strong)

lemma restore_rewrite:
  assumes "names_ok sha names"
  shows "all_calls (qualified_call sha names) v \<Longrightarrow> restore_value names (rewrite_calls sha names v) = v"
proof (induction v)
  case (JArr vs)
  then show ?case by (auto simp: list_all_iff intro: map_idI)
next
  case (JObj m)
  have "restore_value names (rewrite_calls sha names v) = v" if v: "v \<in> fmran' m" for v
  proof -
    obtain k where k: "fmlookup m k = Some v" using v by (rule fmran'E)
    with JObj.prems have "all_calls (qualified_call sha names) v" by (auto dest: fmpredD)
    with JObj.IH v show ?thesis by (simp add: fmlookup_ran'_iff fmran'_alt_def)
  qed
  then have "fmmap (restore_value names) (fmmap (rewrite_calls sha names) m) = m" by (rule fmmap_inverse)
  with JObj.prems show ?case
    by (simp add: rewrite_item_fmmap restore_item_fmmap keeps_strings_calls restore_rewrite_item [OF assms]
        flip: restore_item_fmmap rewrite_item_fmmap)
qed auto

lemma rewrite_restore:
  assumes "names_ok sha names"
  shows "all_calls (flat_call names) v \<Longrightarrow> rewrite_calls sha names (restore_value names v) = v"
proof (induction v)
  case (JArr vs)
  then show ?case by (auto simp: list_all_iff intro: map_idI)
next
  case (JObj m)
  have "rewrite_calls sha names (restore_value names v) = v" if v: "v \<in> fmran' m" for v
  proof -
    obtain k where k: "fmlookup m k = Some v" using v by (rule fmran'E)
    with JObj.prems have "all_calls (flat_call names) v" by (auto dest: fmpredD)
    with JObj.IH v show ?thesis by (simp add: fmlookup_ran'_iff fmran'_alt_def)
  qed
  then have "fmmap (rewrite_calls sha names) (fmmap (restore_value names) m) = m" by (rule fmmap_inverse)
  with JObj.prems show ?case
    by (simp add: rewrite_item_fmmap restore_item_fmmap keeps_strings_calls rewrite_restore_item [OF assms])
qed auto


section \<open>The declarations\<close>

text \<open>A tool the model can call by a name: a function or a custom tool at the top level.\<close>

definition tool_named :: "string \<Rightarrow> json \<Rightarrow> bool" where
  "tool_named name t =
     (case t of JObj m \<Rightarrow> (field ''type'' m = ''function'' \<or> field ''type'' m = ''custom'') \<and> field ''name'' m = name | _ \<Rightarrow> False)"

text \<open>The flat names of the children of a namespace, and of all the namespaces that are not preserved.\<close>

definition child_flats :: "(string \<Rightarrow> string) \<Rightarrow> string \<Rightarrow> json list \<Rightarrow> string set" where
  "child_flats sha namespace cs =
     {flatten_namespace_tool_name sha namespace name | name m raw. raw \<in> set cs \<and> function_child raw = Some (name, m) \<and> name \<noteq> []}"

definition declared_flats :: "(string \<Rightarrow> string) \<Rightarrow> string list \<Rightarrow> json list \<Rightarrow> string set" where
  "declared_flats sha preserved tools =
     (\<Union>m \<in> {m. JObj m \<in> set tools \<and> field ''type'' m = ''namespace'' \<and> field ''name'' m \<notin> set preserved}.
        child_flats sha (field ''name'' m) (namespace_children m))"

lemma child_flats_simps:
  "child_flats sha namespace [] = {}"
  "function_child raw = None \<Longrightarrow> child_flats sha namespace (raw # cs) = child_flats sha namespace cs"
  "function_child raw = Some (name, m) \<Longrightarrow> child_flats sha namespace (raw # cs) =
     (if name = [] then {} else {flatten_namespace_tool_name sha namespace name}) \<union> child_flats sha namespace cs"
  by (auto simp: child_flats_def)

lemma declared_flats_simps:
  "declared_flats sha preserved [] = {}"
  "declared_flats sha preserved (JObj m # tools) =
     (if field ''type'' m = ''namespace'' \<and> field ''name'' m \<notin> set preserved
      then child_flats sha (field ''name'' m) (namespace_children m) else {}) \<union> declared_flats sha preserved tools"
  "(\<And>m. raw \<noteq> JObj m) \<Longrightarrow> declared_flats sha preserved (raw # tools) = declared_flats sha preserved tools"
  by (auto simp: declared_flats_def)

lemma flatten_children_simps:
  "function_child raw = None \<Longrightarrow> flatten_children sha namespace (raw # cs) seen = flatten_children sha namespace cs seen"
  "function_child raw = Some (name, m) \<Longrightarrow> flat = flatten_namespace_tool_name sha namespace name \<Longrightarrow>
   flatten_children sha namespace (raw # cs) seen =
     (if name = [] \<or> flat \<in> set seen then flatten_children sha namespace cs seen
      else apfst ((#) (JObj (fmupd ''name'' (JStr flat) m))) (flatten_children sha namespace cs (flat # seen)))"
  by (auto simp: Let_def split: prod.splits)

declare flatten_children.simps (2) [simp del]

lemma flatten_children_seen:
  "set (snd (flatten_children sha namespace cs seen)) = set seen \<union> child_flats sha namespace cs"
proof (induction cs arbitrary: seen)
  case (Cons raw cs)
  show ?case
  proof (cases "function_child raw")
    case (Some p)
    obtain name m where p: "p = (name, m)" by force
    with Cons Some show ?thesis
      by (auto simp: flatten_children_simps(2) [OF Some [unfolded p] refl] child_flats_simps)
  qed (simp add: Cons flatten_children_simps child_flats_simps)
qed (simp add: child_flats_simps)

lemma tool_named_child:
  assumes "function_child raw = Some (name, m)" "trimmed namespace" "flat = flatten_namespace_tool_name sha namespace name"
  shows "tool_named x (JObj (fmupd ''name'' (JStr flat) m)) \<longleftrightarrow> x = flat"
  using function_childD [OF assms(1)] assms(2, 3)
  by (auto simp: tool_named_def field_upd string_value_def trim_space_trimmed trimmed_flat_name)

lemma flatten_children_named:
  "trimmed namespace \<Longrightarrow>
   length (filter (tool_named x) (fst (flatten_children sha namespace cs seen))) =
     (if x \<in> child_flats sha namespace cs - set seen then 1 else 0)"
proof (induction cs arbitrary: seen)
  case (Cons raw cs)
  show ?case
  proof (cases "function_child raw")
    case (Some p)
    obtain name m where p: "p = (name, m)" by force
    define flat where "flat = flatten_namespace_tool_name sha namespace name"
    note f = tool_named_child [OF Some [unfolded p] \<open>trimmed namespace\<close> flat_def]
      and step = flatten_children_simps(2) [OF Some [unfolded p] flat_def]
    from Cons.IH [OF Cons.prems, of seen] Cons.IH [OF Cons.prems, of "flat # seen"] Some p show ?thesis
      by (cases "name = [] \<or> flat \<in> set seen") (auto simp: step f child_flats_simps flat_def [symmetric])
  qed (use Cons in \<open>simp add: flatten_children_simps child_flats_simps\<close>)
qed (simp add: child_flats_simps)

lemma flatten_tools_named:
  assumes "x \<noteq> []"
  shows "x \<notin> set (top_level_names tools) \<Longrightarrow>
    length (filter (tool_named x) (flatten_tools sha preserved tools seen)) =
      (if x \<in> declared_flats sha preserved tools - set seen then 1 else 0)"
proof (induction sha preserved tools seen rule: flatten_tools.induct)
  case (2 sha preserved tool tools seen)
  define namespace where "namespace = field ''name'' tool"
  have top: "x \<notin> set (top_level_names tools)" using "2.prems" by (auto split: if_splits)
  have notop: "\<not> tool_named x (JObj tool)" using "2.prems" assms by (auto simp: tool_named_def split: if_splits)
  show ?case
  proof (cases "field ''type'' tool \<noteq> ''namespace'' \<or> namespace \<in> set preserved")
    case True
    with "2.IH"(1) [OF namespace_def True top] notop show ?thesis
      by (auto simp: declared_flats_simps namespace_def [symmetric] Let_def)
  next
    case False
    obtain out seen' where f: "flatten_children sha namespace (namespace_children tool) seen = (out, seen')" by force
    have "trimmed namespace" by (simp add: namespace_def)
    from flatten_children_named [OF this, of x sha "namespace_children tool" seen]
      flatten_children_seen [of sha namespace "namespace_children tool" seen] f
      "2.IH"(2) [OF namespace_def False f [symmetric] top]
    show ?thesis using False notop
      by (auto simp: declared_flats_simps namespace_def [symmetric] Let_def)
  qed
qed (auto simp: declared_flats_simps tool_named_def)

lemma collect_children_dom:
  "collect_children sha declared namespace cs names = Inr names' \<Longrightarrow>
   fmdom' names' = fmdom' names \<union> child_flats sha namespace cs \<and> child_flats sha namespace cs \<inter> set declared = {}"
  by (induction sha declared namespace cs names rule: collect_children.induct)
     (auto simp: child_flats_simps Let_def split: option.splits prod.splits if_splits)

lemma collect_names_dom:
  "collect_names sha preserved declared tools names = Inr names' \<Longrightarrow> fmdom' names \<inter> set declared = {} \<Longrightarrow>
   fmdom' names' \<subseteq> fmdom' names \<union> declared_flats sha preserved tools \<and> fmdom' names' \<inter> set declared = {}"
proof (induction sha preserved declared tools names rule: collect_names.induct)
  case (2 sha preserved declared tool tools names)
  show ?case
  proof (cases "collect_children sha declared (field ''name'' tool) (namespace_children tool) names")
    case (Inr n)
    note d = collect_children_dom [OF Inr]
    show ?thesis
    proof (cases "field ''type'' tool \<noteq> ''namespace'' \<or> field ''name'' tool = [] \<or> field ''name'' tool \<in> set preserved")
      case False
      with 2 Inr have "collect_names sha preserved declared tools n = Inr names'" by (simp add: Let_def)
      from "2.IH"(2) [OF refl False Inr this] d "2.prems"(2) False
      have "fmdom' names' \<subseteq> fmdom' n \<union> declared_flats sha preserved tools \<and> fmdom' names' \<inter> set declared = {}" by blast
      with d False show ?thesis by (auto simp: declared_flats_simps)
    qed (use 2 in \<open>auto simp: declared_flats_simps\<close>)
  qed (use 2 in \<open>auto simp: declared_flats_simps Let_def split: if_splits\<close>)
qed (auto simp: declared_flats_simps)


text \<open>Where a tool of the new request comes from.\<close>

definition child_declaration :: "(string \<Rightarrow> string) \<Rightarrow> string \<Rightarrow> json list \<Rightarrow> string \<Rightarrow> json \<Rightarrow> bool" where
  "child_declaration sha namespace cs name t \<longleftrightarrow>
     (\<exists>m. JObj m \<in> set cs \<and> function_child (JObj m) = Some (name, m) \<and> name \<noteq> [] \<and>
        t = JObj (fmupd ''name'' (JStr (flatten_namespace_tool_name sha namespace name)) m))"

definition namespace_declaration :: "(string \<Rightarrow> string) \<Rightarrow> string list \<Rightarrow> json list \<Rightarrow> string \<Rightarrow> string \<Rightarrow> json \<Rightarrow> bool" where
  "namespace_declaration sha preserved tools namespace name t \<longleftrightarrow>
     (\<exists>tool. JObj tool \<in> set tools \<and> field ''type'' tool = ''namespace'' \<and> field ''name'' tool = namespace \<and>
        namespace \<notin> set preserved \<and> child_declaration sha namespace (namespace_children tool) name t)"

lemma child_declaration_Cons: "child_declaration sha namespace cs name t \<Longrightarrow> child_declaration sha namespace (raw # cs) name t"
  by (auto simp: child_declaration_def)

lemma namespace_declaration_Cons:
  "namespace_declaration sha preserved tools namespace name t \<Longrightarrow> namespace_declaration sha preserved (raw # tools) namespace name t"
  by (auto simp: namespace_declaration_def)

lemma flatten_children_from:
  "t \<in> set (fst (flatten_children sha namespace cs seen)) \<Longrightarrow> \<exists>name. child_declaration sha namespace cs name t"
proof (induction cs arbitrary: seen)
  case (Cons raw cs)
  show ?case
  proof (cases "function_child raw")
    case (Some p)
    obtain name m where p: "p = (name, m)" by force
    with function_childD [of raw name m] Some have raw: "raw = JObj m" by auto
    have "child_declaration sha namespace (raw # cs) name
        (JObj (fmupd ''name'' (JStr (flatten_namespace_tool_name sha namespace name)) m))" if "name \<noteq> []"
      using Some p raw that by (auto simp: child_declaration_def)
    moreover have "\<exists>name. child_declaration sha namespace (raw # cs) name t"
      if "t \<in> set (fst (flatten_children sha namespace cs seen'))" for seen'
      using Cons.IH [OF that] child_declaration_Cons by blast
    ultimately show ?thesis using Cons.prems
      by (auto simp: flatten_children_simps(2) [OF Some [unfolded p] refl] split: if_splits)
  next
    case None
    with Cons.prems have "t \<in> set (fst (flatten_children sha namespace cs seen))" by (simp add: flatten_children_simps)
    from Cons.IH [OF this] show ?thesis by (auto dest: child_declaration_Cons)
  qed
qed simp

definition kept_tool :: "string list \<Rightarrow> json list \<Rightarrow> json \<Rightarrow> bool" where
  "kept_tool preserved tools t \<longleftrightarrow>
     t \<in> set tools \<and> (case t of JObj m \<Rightarrow> field ''type'' m = ''namespace'' \<longrightarrow> field ''name'' m \<in> set preserved | _ \<Rightarrow> True)"

lemma kept_tool_Cons: "kept_tool preserved tools t \<Longrightarrow> kept_tool preserved (raw # tools) t"
  by (simp add: kept_tool_def)

lemma flatten_tools_from:
  "t \<in> set (flatten_tools sha preserved tools seen) \<Longrightarrow>
   kept_tool preserved tools t \<or> (\<exists>namespace name. namespace_declaration sha preserved tools namespace name t)"
proof (induction sha preserved tools seen rule: flatten_tools.induct)
  case (2 sha preserved tool tools seen)
  define namespace where "namespace = field ''name'' tool"
  show ?case
  proof (cases "field ''type'' tool \<noteq> ''namespace'' \<or> namespace \<in> set preserved")
    case True
    then have "t = JObj tool \<or> t \<in> set (flatten_tools sha preserved tools seen)"
      using "2.prems" by (simp add: namespace_def [symmetric])
    moreover have "kept_tool preserved (JObj tool # tools) (JObj tool)"
      using True by (auto simp: kept_tool_def namespace_def)
    ultimately show ?thesis
      using "2.IH"(1) [OF namespace_def True] kept_tool_Cons namespace_declaration_Cons by metis
  next
    case False
    obtain out seen' where f: "flatten_children sha namespace (namespace_children tool) seen = (out, seen')" by force
    show ?thesis
    proof (cases "t \<in> set out")
      case True
      with flatten_children_from [of t sha namespace "namespace_children tool" seen] f
      obtain name where "child_declaration sha namespace (namespace_children tool) name t" by auto
      with False show ?thesis by (auto simp: namespace_def namespace_declaration_def)
    next
      case not_out: False
      with "2.prems" False f have "t \<in> set (flatten_tools sha preserved tools seen')" by (simp add: namespace_def [symmetric] Let_def)
      from "2.IH"(2) [OF namespace_def False f [symmetric] this] show ?thesis
        using kept_tool_Cons namespace_declaration_Cons by metis
    qed
  qed
qed (auto simp: kept_tool_def dest: namespace_declaration_Cons)

lemma collect_children_entries:
  "collect_children sha declared namespace cs names = Inr names' \<Longrightarrow>
   (\<forall>k e. fmlookup names k = Some e \<longrightarrow> fmlookup names' k = Some e) \<and>
   (\<forall>raw \<in> set cs. \<forall>name m. function_child raw = Some (name, m) \<longrightarrow> name \<noteq> [] \<longrightarrow>
      fmlookup names' (flatten_namespace_tool_name sha namespace name) = Some \<lparr>nt_namespace = namespace, nt_name = name\<rparr>)"
proof (induction cs arbitrary: names)
  case (Cons raw cs)
  show ?case
  proof (cases "\<exists>name m. function_child raw = Some (name, m) \<and> name \<noteq> []")
    case True
    then obtain name m where c: "function_child raw = Some (name, m)" "name \<noteq> []" by auto
    let ?flat = "flatten_namespace_tool_name sha namespace name" and ?entry = "\<lparr>nt_namespace = namespace, nt_name = name\<rparr>"
    from Cons.prems c have step: "collect_children sha declared namespace cs (fmupd ?flat ?entry names) = Inr names'"
      and old: "fmlookup names ?flat = None \<or> fmlookup names ?flat = Some ?entry"
      by (auto simp: Let_def split: if_splits option.splits)
    from Cons.IH [OF step] have k: "fmlookup names' k = Some e" if "fmlookup (fmupd ?flat ?entry names) k = Some e" for k e
      using that by blast
    from Cons.IH [OF step] k [of ?flat] c have "\<forall>raw' \<in> set (raw # cs). \<forall>name m. function_child raw' = Some (name, m) \<longrightarrow> name \<noteq> [] \<longrightarrow>
      fmlookup names' (flatten_namespace_tool_name sha namespace name) = Some \<lparr>nt_namespace = namespace, nt_name = name\<rparr>" by auto
    moreover have "fmlookup names' x = Some e" if x: "fmlookup names x = Some e" for x e
    proof (rule k)
      show "fmlookup (fmupd ?flat ?entry names) x = Some e" using old x by (cases "x = ?flat") auto
    qed
    ultimately show ?thesis by blast
  next
    case False
    with Cons.prems have "collect_children sha declared namespace cs names = Inr names'" by (auto split: option.splits)
    from Cons.IH [OF this] False show ?thesis by auto
  qed
qed simp

lemma collect_names_entries:
  "collect_names sha preserved declared tools names = Inr names' \<Longrightarrow>
   (\<forall>k e. fmlookup names k = Some e \<longrightarrow> fmlookup names' k = Some e) \<and>
   (\<forall>namespace name t. namespace_declaration sha preserved tools namespace name t \<longrightarrow> namespace \<noteq> [] \<longrightarrow>
      fmlookup names' (flatten_namespace_tool_name sha namespace name) = Some \<lparr>nt_namespace = namespace, nt_name = name\<rparr>)"
proof (induction sha preserved declared tools names rule: collect_names.induct)
  case (2 sha preserved declared tool tools names)
  define namespace where "namespace = field ''name'' tool"
  have split: "namespace_declaration sha preserved (JObj tool # tools) ns name t \<longleftrightarrow>
      namespace_declaration sha preserved tools ns name t \<or>
      (field ''type'' tool = ''namespace'' \<and> ns = namespace \<and> namespace \<notin> set preserved \<and>
       child_declaration sha namespace (namespace_children tool) name t)" for ns name t
    by (auto simp: namespace_declaration_def namespace_def)
  show ?case
  proof (cases "field ''type'' tool \<noteq> ''namespace'' \<or> namespace = [] \<or> namespace \<in> set preserved")
    case True
    with "2.prems" have "collect_names sha preserved declared tools names = Inr names'" by (simp add: namespace_def)
    from "2.IH"(1) [OF namespace_def True this] True show ?thesis unfolding split by blast
  next
    case False
    with "2.prems" obtain n where n: "collect_children sha declared namespace (namespace_children tool) names = Inr n"
      "collect_names sha preserved declared tools n = Inr names'"
      by (auto simp: namespace_def Let_def split: sum.splits)
    note ih = "2.IH"(2) [OF namespace_def False n]
    have "fmlookup names' (flatten_namespace_tool_name sha namespace name) = Some \<lparr>nt_namespace = namespace, nt_name = name\<rparr>"
      if "child_declaration sha namespace (namespace_children tool) name t" for name t
      using that collect_children_entries [OF n(1)] ih unfolding child_declaration_def by blast
    with ih collect_children_entries [OF n(1)] show ?thesis unfolding split by blast
  qed
qed (auto simp: namespace_declaration_def)

end
