(* ===== verification/NamespaceForwarding.thy ===== *)
theory NamespaceForwarding
  imports NamespaceTools
begin

text \<open>
  Where the flattening of namespaces happens when a request is forwarded to an account of OpenAI
  (service/openai_responses_namespace.go and its place in service/openai_gateway_forward.go), and the properties of the namespaces of tools. The
  body is the decoded object; \<open>mentions_namespace\<close> is the search of its text for the quoted word.
\<close>

section \<open>Comparison without case\<close>





section \<open>The account and the decisions\<close>


datatype openai_transport = Transport_any | Transport_http_sse | Transport_websocket | Transport_websocket_v2 | Transport_websocket_v2_ingress










section \<open>Stripping and forwarding\<close>







text \<open>\<open>restoreOpenAIResponsesNamespacePayload\<close> on a payload that is valid JSON.\<close>

definition restore_payload :: "tool_names \<Rightarrow> json \<Rightarrow> json" where
  "restore_payload names payload =
     (if names = fmempty then payload else fst (restore_namespace_calls names payload))"


section \<open>Round trip\<close>

lemma restore_unchanged: "\<not> restore_changed names v \<Longrightarrow> restore_value names v = v"
proof (induction v)
  case (JArr vs)
  then show ?case by (auto simp: list_ex_iff intro: map_idI)
next
  case (JObj m)
  have "restore_value names v = v" if v: "v \<in> fmran' m" for v
  proof -
    obtain k where k: "fmlookup m k = Some v" using v by (rule fmran'E)
    with JObj.prems have "\<not> restore_changed names v" by (auto dest: fmpredD)
    with JObj.IH v show ?thesis by (simp add: fmlookup_ran'_iff fmran'_alt_def)
  qed
  then have "fmmap (restore_value names) m = m"
    using fmmap_inverse [of m "restore_value names" id] by (simp add: fmap.map_id)
  with JObj.prems show ?case
    by (auto simp: restore_item_def is_flat_call_def split: option.splits)
qed auto

lemma restore_payload_value: "restore_payload names v = restore_value names v"
proof (cases "names = fmempty")
  case True
  have "\<not> restore_changed fmempty v"
  proof (induction v)
    case (JObj m)
    then show ?case by (auto simp: is_flat_call_def fmpred_iff fmlookup_ran'_iff fmran'_alt_def intro: fmranI)
  qed (auto simp: list_ex_iff)
  with True show ?thesis by (simp add: restore_payload_def restore_unchanged)
qed (auto simp: restore_payload_def restore_namespace_calls_def restore_unchanged)

text \<open>
  C15: After the flattening of a request, what the client has written is what the client reads: the calls of any value
  are rewritten to flat names and restored unchanged; and what the upstream has written is what the upstream
  reads: its flat calls are restored for the client and rewritten to themselves.
\<close>

theorem namespace_calls_roundtrip:
  assumes "flatten_namespaces sha preserved req = Inr (names, changed, req')"
    and "all_calls (qualified_call sha names) written" "all_calls (flat_call names) answered"
  shows "restore_payload names (rewrite_calls sha names written) = written \<and>
         rewrite_calls sha names (restore_payload names answered) = answered"
  using flatten_namespaces_ok [OF assms(1)] assms(2,3)
  by (simp add: restore_payload_value restore_rewrite rewrite_restore)

section \<open>Declarations\<close>

lemma flatten_namespacesD:
  assumes "flatten_namespaces sha preserved req = Inr (names, True, req')"
  obtains tools where "fmlookup req ''tools'' = Some (JArr tools)"
    "collect_names sha preserved (top_level_names tools) tools fmempty = Inr names"
    "fmlookup req' ''tools'' = Some (JArr (flatten_tools sha preserved tools []))"
  using assms
  by (auto simp: flatten_namespaces_def Let_def rewrite_tool_choice_def split: option.splits json.splits sum.splits if_splits)

lemma flat_name_nonempty: "flatten_namespace_tool_name sha namespace name \<noteq> []"
  by (simp add: flatten_namespace_tool_name_def Let_def)

lemma tool_named_top_level:
  "tool_named x t \<Longrightarrow> t \<in> set tools \<Longrightarrow> x \<noteq> [] \<Longrightarrow> x \<in> set (top_level_names tools)"
  by (induction tools rule: top_level_names.induct) (auto simp: tool_named_def)

lemma namespace_declaration_named:
  assumes "namespace_declaration sha preserved tools namespace name t"
  shows "tool_named x t \<Longrightarrow> flatten_namespace_tool_name sha namespace name = x"
proof -
  from assms obtain tool m where "field ''name'' tool = namespace" "function_child (JObj m) = Some (name, m)"
    and t: "t = JObj (fmupd ''name'' (JStr (flatten_namespace_tool_name sha namespace name)) m)"
    unfolding namespace_declaration_def child_declaration_def by blast
  then have "trimmed namespace" by auto
  from tool_named_child [OF \<open>function_child (JObj m) = Some (name, m)\<close> this refl]
  show "tool_named x t \<Longrightarrow> flatten_namespace_tool_name sha namespace name = x" by (simp add: t)
qed

lemma namespace_declaration_function:
  "namespace_declaration sha preserved tools namespace name (JObj m) \<Longrightarrow> field ''type'' m = ''function''"
  by (auto simp: namespace_declaration_def child_declaration_def function_child_def field_upd split: if_splits)

text \<open>
  C17: Every flat name is at most 64 bytes long and declared exactly once among the functions and custom tools of the new
  request. When all namespaces have a name, its declaration is that of the tool the name stands for,
  under the new name; and the namespaces that are left are the preserved ones.
\<close>

theorem flattened_tools_addressable:
  assumes "flatten_namespaces sha preserved req = Inr (names, True, req')"
    and "fmlookup req ''tools'' = Some (JArr tools)" "fmlookup names flat = Some entry"
  shows "\<exists>tools' t. fmlookup req' ''tools'' = Some (JArr tools') \<and> filter (tool_named flat) tools' = [t] \<and>
    length flat \<le> 64 \<and>
    ((\<forall>m. JObj m \<in> set tools \<longrightarrow> field ''type'' m = ''namespace'' \<longrightarrow> field ''name'' m \<noteq> []) \<longrightarrow>
      namespace_declaration sha preserved tools (nt_namespace entry) (nt_name entry) t) \<and>
    (\<forall>m. JObj m \<in> set tools' \<longrightarrow> field ''type'' m = ''namespace'' \<longrightarrow> field ''name'' m \<in> set preserved)"
proof -
  let ?top = "top_level_names tools" and ?new = "flatten_tools sha preserved tools []"
  from assms(1,2) have collect: "collect_names sha preserved ?top tools fmempty = Inr names"
    and new: "fmlookup req' ''tools'' = Some (JArr ?new)"
    by (auto elim: flatten_namespacesD)
  have flat: "flat \<in> fmdom' names" using assms(3) by (rule fmdom'I)
  from collect_names_dom [OF collect] have dom: "fmdom' names \<subseteq> declared_flats sha preserved tools" "fmdom' names \<inter> set ?top = {}"
    by auto
  have ok: "names_ok sha names" using flatten_namespaces_ok [OF assms(1)] .
  from names_okD [OF ok assms(3)] flat_name_length [of sha "nt_namespace entry" "nt_name entry"]
  have len: "length flat \<le> 64" by (simp add: chat_tool_name_max_len_def)
  have "flat \<noteq> []" by (metis names_okD(5) [OF ok assms(3)] flat_name_nonempty)
  moreover have "flat \<in> declared_flats sha preserved tools" "flat \<notin> set ?top" using dom flat by auto
  ultimately have "length (filter (tool_named flat) ?new) = 1" using flatten_tools_named [of flat tools sha preserved "[]"] by simp
  then obtain t where t: "filter (tool_named flat) ?new = [t]" by (auto simp: length_Suc_conv)
  then have tin: "t \<in> set ?new" "tool_named flat t" by (auto simp: filter_eq_Cons_iff)
  have no_top: "\<not> kept_tool preserved tools t"
    using tin(2) \<open>flat \<notin> set ?top\<close> \<open>flat \<noteq> []\<close> tool_named_top_level [of flat t tools] by (auto simp: kept_tool_def)
  have "namespace_declaration sha preserved tools (nt_namespace entry) (nt_name entry) t"
    if named: "\<forall>m. JObj m \<in> set tools \<longrightarrow> field ''type'' m = ''namespace'' \<longrightarrow> field ''name'' m \<noteq> []"
  proof -
    from flatten_tools_from [OF tin(1)] no_top obtain namespace name
      where d: "namespace_declaration sha preserved tools namespace name t" by auto
    then have "namespace \<noteq> []" using named by (auto simp: namespace_declaration_def)
    with collect_names_entries [OF collect] d
    have "fmlookup names (flatten_namespace_tool_name sha namespace name) = Some \<lparr>nt_namespace = namespace, nt_name = name\<rparr>" by blast
    moreover have "flatten_namespace_tool_name sha namespace name = flat"
      using namespace_declaration_named [OF d] tin(2) by blast
    ultimately show ?thesis using d assms(3) by auto
  qed
  moreover have "field ''name'' m \<in> set preserved" if "JObj m \<in> set ?new" "field ''type'' m = ''namespace''" for m
    using flatten_tools_from [OF that(1)] that(2)
    by (auto simp: kept_tool_def dest: namespace_declaration_function)
  ultimately show ?thesis using new t len by blast
qed


section \<open>The next turn\<close>









section \<open>A request\<close>

definition text_object :: "(string \<times> string) list \<Rightarrow> json_object" where
  "text_object kvs = fmap_of_list (map (apsnd JStr) kvs)"

definition namespace_tool :: "string \<Rightarrow> json list \<Rightarrow> json" where
  "namespace_tool name children = JObj (fmupd ''tools'' (JArr children) (text_object [(''type'', ''namespace''), (''name'', name)]))"

definition function_tool :: "string \<Rightarrow> string \<Rightarrow> json" where
  "function_tool name description = JObj (text_object [(''type'', ''function''), (''name'', name), (''description'', description)])"

definition function_call :: "string \<Rightarrow> string \<Rightarrow> json" where
  "function_call namespace name = JObj (text_object [(''type'', ''function_call''), (''namespace'', namespace), (''name'', name)])"

definition plain_call :: "string \<Rightarrow> json" where
  "plain_call name = JObj (text_object [(''type'', ''function_call''), (''name'', name)])"

definition demo_request :: json_object where
  "demo_request = fmap_of_list
     [(''tools'', JArr [function_tool ''run'' ''runs'', namespace_tool ''jobs'' [function_tool ''wait'' ''waits'']]),
      (''input'', JArr [function_call ''jobs'' ''wait'', plain_call ''run''])]"

definition demo_names :: tool_names where
  "demo_names = fmupd ''jobs__wait'' \<lparr>nt_namespace = ''jobs'', nt_name = ''wait''\<rparr> fmempty"

definition demo_flattened :: json_object where
  "demo_flattened = fmap_of_list
     [(''tools'', JArr [function_tool ''run'' ''runs'', function_tool ''jobs__wait'' ''waits'']),
      (''input'', JArr [plain_call ''jobs__wait'', plain_call ''run''])]"

lemma namespace_trims:
  "trim_space ''namespace'' = ''namespace''" "trim_space ''function'' = ''function''" "trim_space ''function_call'' = ''function_call''"
  "trim_space ''jobs'' = ''jobs''" "trim_space ''wait'' = ''wait''" "trim_space ''run'' = ''run''"
  "trim_space ''jobs__wait'' = ''jobs__wait''" "trim_space [] = []" "trim_space ''_'' = ''_''" "trim_space ''x'' = ''x''" "trim_space ''_x'' = ''_x''"
  "trim_space ''___x'' = ''___x''" "trim_space ''__x'' = ''__x''"
  by (simp_all add: trim_space_def strip_left.simps strip_one_def utf8_spaces_code)

lemmas demo_objects = text_object_def namespace_tool_def function_tool_def function_call_def plain_call_def field_def string_value_def namespace_trims

lemmas demo_steps = demo_objects flatten_namespaces_def flatten_namespace_tool_name_def function_child_def namespace_children_def
  chat_tool_name_max_len_def Let_def rewrite_item_def rewrite_call_def rewrite_tool_choice_def flatten_children.simps
  fmmap_fmupd fmupd_reorder_neq fmdrop_fmupd

lemma demo_flatten: "flatten_namespaces sha [''image_gen''] demo_request = Inr (demo_names, True, demo_flattened)"
  by (simp add: demo_request_def demo_names_def demo_flattened_def demo_steps)

lemma demo_calls:
  "all_calls (qualified_call sha demo_names) (JArr [function_call ''jobs'' ''wait'', plain_call ''run''])"
  "all_calls (flat_call demo_names) (plain_call ''jobs__wait'')"
  by (simp_all add: demo_names_def demo_objects qualified_call_def flat_call_def flatten_namespace_tool_name_def
      chat_tool_name_max_len_def fmpred_iff)

theorem namespace_calls_roundtrip_witness:
  "restore_payload demo_names (rewrite_calls (\<lambda>_. []) demo_names (JArr [function_call ''jobs'' ''wait'', plain_call ''run'']))
     = JArr [function_call ''jobs'' ''wait'', plain_call ''run''] \<and>
   rewrite_calls (\<lambda>_. []) demo_names (restore_payload demo_names (plain_call ''jobs__wait'')) = plain_call ''jobs__wait''"
  using namespace_calls_roundtrip [OF demo_flatten demo_calls] .

theorem flattened_tools_addressable_witness:
  "\<exists>tools' t. fmlookup demo_flattened ''tools'' = Some (JArr tools') \<and> filter (tool_named ''jobs__wait'') tools' = [t] \<and>
    namespace_declaration (\<lambda>_. []) [''image_gen''] [function_tool ''run'' ''runs'', namespace_tool ''jobs'' [function_tool ''wait'' ''waits'']]
      ''jobs'' ''wait'' t"
proof -
  have "fmlookup demo_request ''tools'' = Some (JArr [function_tool ''run'' ''runs'', namespace_tool ''jobs'' [function_tool ''wait'' ''waits'']])"
    "fmlookup demo_names ''jobs__wait'' = Some \<lparr>nt_namespace = ''jobs'', nt_name = ''wait''\<rparr>"
    by (simp_all add: demo_request_def demo_names_def)
  from flattened_tools_addressable [OF demo_flatten this, where sha = "\<lambda>_. []"] show ?thesis
    by (auto simp: demo_objects)
qed





section \<open>Namespaces without a name\<close>

lemma flatten_tools_append:
  "\<exists>seen'. set seen' = set seen \<union> declared_flats sha preserved pre \<and>
     flatten_tools sha preserved (pre @ post) seen = flatten_tools sha preserved pre seen @ flatten_tools sha preserved post seen'"
proof (induction sha preserved pre seen rule: flatten_tools.induct)
  case (2 sha preserved tool tools seen)
  define namespace where "namespace = field ''name'' tool"
  show ?case
  proof (cases "field ''type'' tool \<noteq> ''namespace'' \<or> namespace \<in> set preserved")
    case True
    from "2.IH"(1) [OF namespace_def True] True show ?thesis
      by (auto simp: declared_flats_simps namespace_def [symmetric] Let_def)
  next
    case False
    obtain out seen1 where f: "flatten_children sha namespace (namespace_children tool) seen = (out, seen1)" by force
    with flatten_children_seen [of sha namespace "namespace_children tool" seen]
    have "set seen1 = set seen \<union> child_flats sha namespace (namespace_children tool)" by simp
    with "2.IH"(2) [OF namespace_def False f [symmetric]] False f show ?thesis
      by (auto simp: declared_flats_simps namespace_def [symmetric] Let_def)
  qed
qed (auto simp: declared_flats_simps)

lemma flatten_tools_keeps:
  "t \<in> set tools \<Longrightarrow> tool_named x t \<Longrightarrow> t \<in> set (flatten_tools sha preserved tools seen)"
proof (induction sha preserved tools seen rule: flatten_tools.induct)
  case (2 sha preserved tool tools seen)
  obtain out seen' where "flatten_children sha (field ''name'' tool) (namespace_children tool) seen = (out, seen')" by force
  with 2 show ?case by (auto simp: tool_named_def Let_def)
qed auto

lemma top_level_tool:
  "x \<in> set (top_level_names tools) \<Longrightarrow> \<exists>t \<in> set tools. tool_named x t"
  by (induction tools rule: top_level_names.induct) (auto simp: tool_named_def split: if_splits)

text \<open>What the second loop makes of the children of a namespace that no earlier one has anticipated.\<close>

lemma flatten_tools_middle:
  assumes "field ''type'' ns = ''namespace''" "field ''name'' ns \<notin> set preserved"
    and "flat \<in> child_flats sha (field ''name'' ns) (namespace_children ns)" "flat \<notin> declared_flats sha preserved pre"
  shows "\<exists>front t rest name. flatten_tools sha preserved (pre @ JObj ns # post) [] = front @ t # rest \<and> tool_named flat t \<and>
    child_declaration sha (field ''name'' ns) (namespace_children ns) name t \<and>
    (\<forall>t'. t' \<in> set pre \<union> set post \<longrightarrow> tool_named flat t' \<longrightarrow> t' \<in> set (front @ rest))"
proof -
  let ?name = "field ''name'' ns" and ?cs = "namespace_children ns"
  obtain seen where seen: "set seen = declared_flats sha preserved pre"
    "flatten_tools sha preserved (pre @ JObj ns # post) [] =
       flatten_tools sha preserved pre [] @ flatten_tools sha preserved (JObj ns # post) seen"
    using flatten_tools_append [of "[]" sha preserved pre "JObj ns # post"] by auto
  obtain out seen' where f: "flatten_children sha ?name ?cs seen = (out, seen')" by force
  have "trimmed ?name" by simp
  from flatten_children_named [OF this, of flat sha ?cs seen] assms(3,4) seen(1) f
  have "length (filter (tool_named flat) out) = 1" by simp
  then obtain t where "filter (tool_named flat) out = [t]" by (auto simp: length_Suc_conv)
  then obtain us vs where out: "out = us @ t # vs" "tool_named flat t" by (auto simp: filter_eq_Cons_iff)
  with flatten_children_from [of t sha ?name ?cs seen] f
  obtain name where "child_declaration sha ?name ?cs name t" by auto
  moreover have "flatten_tools sha preserved (JObj ns # post) seen = out @ flatten_tools sha preserved post seen'"
    using assms(1,2) f by (simp add: Let_def)
  moreover have "t' \<in> set (flatten_tools sha preserved pre [] @ flatten_tools sha preserved post seen')"
    if "t' \<in> set pre \<union> set post" "tool_named flat t'" for t'
    using that flatten_tools_keeps by auto
  ultimately show ?thesis using seen(2) out
    by (intro exI [of _ "flatten_tools sha preserved pre [] @ us"] exI [of _ t]
        exI [of _ "vs @ flatten_tools sha preserved post seen'"] exI [of _ name]) auto
qed

text \<open>
  C30: The first loop skips a namespace without a name, the second does not. When a request is flattened, each child of
  such a namespace is declared under its flat name unless an earlier namespace has declared this name, and neither the map that
  restores calls nor a conflict check knows the declaration. If the map has the flat name, it belongs to a tool of a namespace
  with a name, and the only tool of the new request with this name is nevertheless the child of the unnamed namespace: the
  other tool has lost its declaration. If a function or custom tool of the top level has the flat name, two tools of the new request have it.
\<close>

theorem unnamed_namespace_clashes:
  assumes "flatten_namespaces sha preserved req = Inr (names, True, req')"
    and tools: "fmlookup req ''tools'' = Some (JArr (pre @ JObj ns # post))"
    and ns: "field ''type'' ns = ''namespace''" "field ''name'' ns = []" "[] \<notin> set preserved"
    and flat: "flat \<in> child_flats sha [] (namespace_children ns)" "flat \<notin> declared_flats sha preserved pre"
  shows "\<exists>tools' t name. fmlookup req' ''tools'' = Some (JArr tools') \<and> t \<in> set tools' \<and> tool_named flat t \<and>
    child_declaration sha [] (namespace_children ns) name t \<and>
    (\<forall>entry. fmlookup names flat = Some entry \<longrightarrow>
       nt_namespace entry \<noteq> [] \<and> filter (tool_named flat) tools' = [t]) \<and>
    (flat \<in> set (top_level_names (pre @ JObj ns # post)) \<longrightarrow> 2 \<le> length (filter (tool_named flat) tools'))"
proof -
  let ?tools = "pre @ JObj ns # post"
  let ?new = "flatten_tools sha preserved ?tools []"
  from assms(1) tools have collect: "collect_names sha preserved (top_level_names ?tools) ?tools fmempty = Inr names"
    and new: "fmlookup req' ''tools'' = Some (JArr ?new)"
    by (auto elim: flatten_namespacesD)
  obtain front t rest name where t: "?new = front @ t # rest" "tool_named flat t"
      "child_declaration sha [] (namespace_children ns) name t"
    and kept: "\<And>t'. t' \<in> set pre \<union> set post \<Longrightarrow> tool_named flat t' \<Longrightarrow> t' \<in> set (front @ rest)"
    using flatten_tools_middle [OF ns(1), of preserved flat sha pre post, unfolded ns(2), OF ns(3) flat] by blast
  have ne: "flat \<noteq> []" using flat(1) flat_name_nonempty by (auto simp: child_flats_def)
  have "nt_namespace entry \<noteq> [] \<and> filter (tool_named flat) ?new = [t]" if e: "fmlookup names flat = Some entry" for entry
  proof
    show "nt_namespace entry \<noteq> []" by (rule names_okD(1) [OF flatten_namespaces_ok [OF assms(1)] e])
    have "flat \<in> fmdom' names" using e by (rule fmdom'I)
    with collect_names_dom [OF collect] have "flat \<notin> set (top_level_names ?tools)" "flat \<in> declared_flats sha preserved ?tools"
      by auto
    with flatten_tools_named [OF ne, of ?tools sha preserved "[]"] t show "filter (tool_named flat) ?new = [t]"
      by (simp add: filter_empty_conv)
  qed
  moreover have "2 \<le> length (filter (tool_named flat) ?new)" if "flat \<in> set (top_level_names ?tools)"
  proof -
    from top_level_tool [OF that] obtain t' where "t' \<in> set ?tools" "tool_named flat t'" by blast
    moreover have "\<not> tool_named flat (JObj ns)" using ns(2) ne by (auto simp: tool_named_def)
    ultimately have "t' \<in> set (front @ rest)" "tool_named flat t'" using kept by auto
    then have "filter (tool_named flat) (front @ rest) \<noteq> []" by (auto simp: filter_empty_conv simp del: filter_append)
    then have "1 \<le> length (filter (tool_named flat) (front @ rest))" by (simp only: length_greater_0_conv Suc_le_eq One_nat_def simp_thms)
    with t show ?thesis by simp
  qed
  ultimately show ?thesis using new t by (intro exI [of _ ?new] exI [of _ t] exI [of _ name]) simp
qed

text \<open>A child \<open>_x\<close> takes the flat name of the tool \<open>x\<close> in the namespace \<open>_\<close>.\<close>

theorem unnamed_namespace_clashes_witness:
  "\<exists>tools' t. flatten_namespaces (\<lambda>_. []) [''image_gen''] (fmap_of_list [(''tools'', JArr
       [namespace_tool [] [function_tool ''_x'' ''mine''], namespace_tool ''_'' [function_tool ''x'' ''theirs'']])])
     = Inr (fmupd ''___x'' \<lparr>nt_namespace = ''_'', nt_name = ''x''\<rparr> fmempty, True, fmap_of_list [(''tools'', JArr tools')]) \<and>
   filter (tool_named ''___x'') tools' = [t] \<and> (\<exists>name. child_declaration (\<lambda>_. []) [] [function_tool ''_x'' ''mine''] name t)"
proof -
  let ?req = "fmap_of_list [(''tools'', JArr
       [namespace_tool [] [function_tool ''_x'' ''mine''], namespace_tool ''_'' [function_tool ''x'' ''theirs'']])]"
  let ?names = "fmupd ''___x'' \<lparr>nt_namespace = ''_'', nt_name = ''x''\<rparr> fmempty"
  let ?req' = "fmap_of_list [(''tools'', JArr [function_tool ''___x'' ''mine''])]"
  have run: "flatten_namespaces (\<lambda>_. []) [''image_gen''] ?req = Inr (?names, True, ?req')"
    by (simp add: demo_steps)
  obtain ns where ns: "namespace_tool [] [function_tool ''_x'' ''mine''] = JObj ns" "field ''type'' ns = ''namespace''"
    "field ''name'' ns = []" "namespace_children ns = [function_tool ''_x'' ''mine'']"
    by (simp add: demo_objects namespace_children_def)
  have "fmlookup ?req ''tools'' = Some (JArr ([] @ JObj ns # [namespace_tool ''_'' [function_tool ''x'' ''theirs'']]))"
    by (simp add: ns(1))
  moreover have "''___x'' \<in> child_flats (\<lambda>_. []) [] (namespace_children ns)"
  proof -
    obtain m where "function_child (function_tool ''_x'' ''mine'') = Some (''_x'', m)"
      by (simp add: demo_objects function_child_def)
    then show ?thesis
      by (simp add: ns(4) child_flats_simps flatten_namespace_tool_name_def chat_tool_name_max_len_def)
  qed
  moreover have "''___x'' \<notin> declared_flats (\<lambda>_. []) [''image_gen''] []" "[] \<notin> set [''image_gen'']"
    by (simp_all add: declared_flats_simps)
  ultimately show ?thesis
    using unnamed_namespace_clashes [OF run _ ns(2,3)] run ns(4) by fastforce
qed

end
