(* ===== verification/StreamCircuit.thy ===== *)
theory StreamCircuit
  imports Prelude "HOL-Library.Finite_Map"
begin

text \<open>
  Two circuit breakers of the OpenAI gateway that keep their observations in a bounded map in memory:
  the proxies whose streams break (service/openai_proxy_stream_circuit.go) and the pairs of account and model that
  fail (service/openai_account_model_transient.go). A map is a finite map; a loop over it visits its
  keys in an order that Go leaves open, which is the argument \<open>order\<close>. The mutex makes each method one step.
\<close>

section \<open>The circuit of the proxies\<close>

record circuit_settings =
  cs_disabled :: bool
  cs_threshold :: int
  cs_window :: duration
  cs_ttl :: duration
  cs_collapse :: duration
  cs_max_entries :: int

record circuit_entry =
  ce_count :: int
  ce_window_start :: instant
  ce_last_failure :: instant
  ce_blocked_until :: instant
  ce_touched :: instant

type_synonym circuit_entries = "(int, circuit_entry) fmap"

definition default_circuit_settings :: circuit_settings where
  "default_circuit_settings =
     \<lparr>cs_disabled = False, cs_threshold = 2, cs_window = minute, cs_ttl = 10 * minute, cs_collapse = 3 * second, cs_max_entries = 4096\<rparr>"

text \<open>The configuration: disabled, the threshold, and the two lengths in seconds; zero stands for the default.\<close>

definition resolve_circuit_settings :: "bool \<Rightarrow> int \<Rightarrow> int \<Rightarrow> int \<Rightarrow> circuit_settings" where
  "resolve_circuit_settings disabled threshold window_seconds ttl_seconds =
     (let d = default_circuit_settings in
      d\<lparr>cs_disabled := disabled,
        cs_threshold := if 0 < threshold then threshold else cs_threshold d,
        cs_window := if 0 < window_seconds then window_seconds * second else cs_window d,
        cs_ttl := if 0 < ttl_seconds then ttl_seconds * second else cs_ttl d\<rparr>)"

definition new_circuit_settings :: "circuit_settings \<Rightarrow> circuit_settings" where
  "new_circuit_settings s =
     (let d = default_circuit_settings in
      s\<lparr>cs_threshold := if cs_threshold s \<le> 0 then cs_threshold d else cs_threshold s,
        cs_window := if cs_window s \<le> 0 then cs_window d else cs_window s,
        cs_ttl := if cs_ttl s \<le> 0 then cs_ttl d else cs_ttl s,
        cs_max_entries := if cs_max_entries s \<le> 0 then cs_max_entries d else cs_max_entries s,
        cs_collapse := if cs_collapse s < 0 then 0 else cs_collapse s\<rparr>)"

definition fmsize :: "('k, 'v) fmap \<Rightarrow> int" where
  "fmsize m = int (fcard (fmdom m))"

text \<open>The search for the entry that was touched least recently; no proxy has the id 0.\<close>

definition oldest_proxy :: "int list \<Rightarrow> circuit_entries \<Rightarrow> int" where
  "oldest_proxy order entries =
     fst (foldl (\<lambda>(oldest_id, oldest) k.
            case fmlookup entries k of
              None \<Rightarrow> (oldest_id, oldest)
            | Some e \<Rightarrow> if oldest_id = 0 \<or> ce_touched e < oldest then (k, ce_touched e) else (oldest_id, oldest))
          (0, 0) order)"

definition ensure_capacity :: "circuit_settings \<Rightarrow> int list \<Rightarrow> instant \<Rightarrow> circuit_entries \<Rightarrow> circuit_entries" where
  "ensure_capacity st order now entries =
     (if fmsize entries < cs_max_entries st then entries
      else
        let entries = fmfilter (\<lambda>k. case fmlookup entries k of
              None \<Rightarrow> True
            | Some e \<Rightarrow>
                let stale_observation = is_zero_time (ce_blocked_until e) \<and> cs_window st < time_sub now (ce_touched e);
                    expired_quarantine = \<not> is_zero_time (ce_blocked_until e) \<and> \<not> now < ce_blocked_until e
                in \<not> (stale_observation \<or> expired_quarantine)) entries
        in if fmsize entries < cs_max_entries st then entries
           else let oldest = oldest_proxy order entries in if 0 < oldest then fmdrop oldest entries else entries)"

text \<open>\<open>recordFailure\<close> once the entry is at hand and not quarantined: whether it tripped, and until when.\<close>

definition count_failure :: "circuit_settings \<Rightarrow> int \<Rightarrow> instant \<Rightarrow> circuit_entry \<Rightarrow> circuit_entries
  \<Rightarrow> (bool \<times> instant) \<times> circuit_entries" where
  "count_failure st proxy now e entries =
     (let e = (if is_zero_time (ce_window_start e) \<or> now < ce_window_start e \<or> cs_window st < time_sub now (ce_window_start e)
               then e\<lparr>ce_count := 0, ce_window_start := now, ce_blocked_until := 0\<rparr> else e)
      in if 0 < cs_collapse st \<and> \<not> is_zero_time (ce_last_failure e)
            \<and> 0 \<le> time_sub now (ce_last_failure e) \<and> time_sub now (ce_last_failure e) < cs_collapse st
         then ((False, 0), fmupd proxy (e\<lparr>ce_touched := now\<rparr>) entries)
         else
           let e = e\<lparr>ce_count := ce_count e + 1, ce_last_failure := now, ce_touched := now\<rparr>;
               tripped = cs_threshold st \<le> ce_count e;
               e = (if tripped then e\<lparr>ce_blocked_until := now + cs_ttl st\<rparr> else e)
           in ((tripped, ce_blocked_until e), fmupd proxy e entries))"

definition record_failure :: "circuit_settings \<Rightarrow> int list \<Rightarrow> int \<Rightarrow> instant \<Rightarrow> circuit_entries
  \<Rightarrow> (bool \<times> instant) \<times> circuit_entries" where
  "record_failure st order proxy now entries =
     (if cs_disabled st \<or> proxy \<le> 0 then ((False, 0), entries)
      else case fmlookup entries proxy of
          Some e \<Rightarrow>
            if now < ce_blocked_until e
            then ((False, ce_blocked_until e), fmupd proxy (e\<lparr>ce_touched := now\<rparr>) entries)
            else count_failure st proxy now e entries
        | None \<Rightarrow>
            count_failure st proxy now
              \<lparr>ce_count = 0, ce_window_start = 0, ce_last_failure = 0, ce_blocked_until = 0, ce_touched = 0\<rparr>
              (ensure_capacity st order now entries))"

definition record_success :: "int \<Rightarrow> circuit_entries \<Rightarrow> bool \<times> circuit_entries" where
  "record_success proxy entries =
     (if proxy \<le> 0 then (False, entries)
      else case fmlookup entries proxy of None \<Rightarrow> (False, entries) | Some _ \<Rightarrow> (True, fmdrop proxy entries))"

definition is_blocked :: "circuit_settings \<Rightarrow> int \<Rightarrow> instant \<Rightarrow> circuit_entries \<Rightarrow> bool \<times> circuit_entries" where
  "is_blocked st proxy now entries =
     (if cs_disabled st \<or> proxy \<le> 0 then (False, entries)
      else case fmlookup entries proxy of
          None \<Rightarrow> (False, entries)
        | Some e \<Rightarrow>
            if is_zero_time (ce_blocked_until e) then (False, entries)
            else if \<not> now < ce_blocked_until e then (False, fmdrop proxy entries)
            else (True, entries))"

definition active_block_count :: "circuit_settings \<Rightarrow> int list \<Rightarrow> instant \<Rightarrow> circuit_entries \<Rightarrow> int" where
  "active_block_count st order now entries =
     (if cs_disabled st then 0
      else foldl (\<lambda>blocks k. case fmlookup entries k of
            Some e \<Rightarrow> if \<not> is_zero_time (ce_blocked_until e) \<and> now < ce_blocked_until e then blocks + 1 else blocks
          | None \<Rightarrow> blocks) 0 order)"

section \<open>The circuit at work\<close>

datatype circuit_event =
    Stream_failed int instant "int list"
  | Stream_succeeded int
  | Asked_blocked int instant

text \<open>The entries, the time of the last event, and what has happened, newest first.\<close>

record circuit_state =
  ci_entries :: circuit_entries
  ci_clock :: instant
  ci_log :: "circuit_event list"

definition initial_circuit :: circuit_state where
  "initial_circuit = \<lparr>ci_entries = fmempty, ci_clock = 0, ci_log = []\<rparr>"

fun circuit_step :: "circuit_settings \<Rightarrow> circuit_state \<Rightarrow> circuit_event \<Rightarrow> circuit_state" where
  "circuit_step st s (Stream_failed proxy now order) =
     \<lparr>ci_entries = snd (record_failure st order proxy now (ci_entries s)), ci_clock = now, ci_log = Stream_failed proxy now order # ci_log s\<rparr>"
| "circuit_step st s (Stream_succeeded proxy) =
     \<lparr>ci_entries = snd (record_success proxy (ci_entries s)), ci_clock = ci_clock s, ci_log = Stream_succeeded proxy # ci_log s\<rparr>"
| "circuit_step st s (Asked_blocked proxy now) =
     \<lparr>ci_entries = snd (is_blocked st proxy now (ci_entries s)), ci_clock = now, ci_log = Asked_blocked proxy now # ci_log s\<rparr>"

text \<open>The clock does not run backwards, and a loop over the map visits all its keys.\<close>

fun circuit_event_ok :: "circuit_state \<Rightarrow> circuit_event \<Rightarrow> bool" where
  "circuit_event_ok s (Stream_failed proxy now order) \<longleftrightarrow>
     0 < now \<and> ci_clock s \<le> now \<and> fset_of_list order = fmdom (ci_entries s)"
| "circuit_event_ok s (Stream_succeeded proxy) \<longleftrightarrow> True"
| "circuit_event_ok s (Asked_blocked proxy now) \<longleftrightarrow> 0 < now \<and> ci_clock s \<le> now"

text \<open>The failures of a proxy since its last success, newest first.\<close>

fun failures_since :: "int \<Rightarrow> circuit_event list \<Rightarrow> instant list" where
  "failures_since p [] = []"
| "failures_since p (Stream_failed q now _ # es) = (if q = p then now # failures_since p es else failures_since p es)"
| "failures_since p (Stream_succeeded q # es) = (if q = p then [] else failures_since p es)"
| "failures_since p (Asked_blocked _ _ # es) = failures_since p es"


section \<open>The invariant\<close>

text \<open>
  What an entry counts: separate failures since the last success, all within one window. An entry is quarantined only after
  as many as the threshold, and from the last of them on.
\<close>

definition spaced :: "duration \<Rightarrow> instant list \<Rightarrow> bool" where
  "spaced gap ts \<longleftrightarrow> sorted_wrt (\<lambda>a b. gap \<le> a - b) ts"

definition counted :: "circuit_settings \<Rightarrow> circuit_event list \<Rightarrow> int \<Rightarrow> circuit_entry \<Rightarrow> instant list \<Rightarrow> bool" where
  "counted st log p e ts \<longleftrightarrow>
     set ts \<subseteq> set (failures_since p log) \<and> int (length ts) = ce_count e \<and> spaced (cs_collapse st) ts \<and>
     (ts \<noteq> [] \<longrightarrow> hd ts = ce_last_failure e) \<and> (\<forall>t \<in> set ts. 0 < t \<and> ce_window_start e \<le> t \<and> t \<le> ce_window_start e + cs_window st) \<and>
     (ce_blocked_until e \<noteq> 0 \<longrightarrow> cs_threshold st \<le> ce_count e \<and> ce_blocked_until e = ce_last_failure e + cs_ttl st)"

definition settings_ok :: "circuit_settings \<Rightarrow> bool" where
  "settings_ok st \<longleftrightarrow>
     0 < cs_threshold st \<and> 0 < cs_window st \<and> cs_window st < max_duration \<and> 0 < cs_ttl st \<and>
     0 \<le> cs_collapse st \<and> cs_collapse st \<le> max_duration \<and> 0 < cs_max_entries st"

definition circuit_inv :: "circuit_settings \<Rightarrow> circuit_state \<Rightarrow> bool" where
  "circuit_inv st s \<longleftrightarrow>
     settings_ok st \<and> 0 \<le> ci_clock s \<and> fmsize (ci_entries s) \<le> cs_max_entries st \<and>
     (\<forall>p e. fmlookup (ci_entries s) p = Some e \<longrightarrow>
        0 < p \<and> 0 \<le> ce_last_failure e \<and> ce_last_failure e \<le> ci_clock s \<and> (\<exists>ts. counted st (ci_log s) p e ts))"

lemma fmsize_upd: "fmsize (fmupd p e m) = (if p \<in> fmdom' m then fmsize m else fmsize m + 1)"
  by (simp add: fmsize_def fcard_finsert_if fmdom'_alt_def)

lemma fmsize_drop: "fmsize (fmdrop p m) = (if p \<in> fmdom' m then fmsize m - 1 else fmsize m)"
proof (cases "p |\<in>| fmdom m")
  case True
  from fcard_Suc_fminus1 [OF this] True show ?thesis
    by (simp add: fmsize_def fmdom'_alt_def del: fcard_fminus_finsert)
qed (simp add: fmdrop_idle fmdom'_alt_def)

lemma fmsize_filter: "fmsize (fmfilter P m) \<le> fmsize m"
  by (auto simp: fmsize_def intro: fcard_mono)

lemma fmsize_empty: "fmsize fmempty = 0" "fmdom m = {||} \<Longrightarrow> fmsize m = 0"
  by (simp_all add: fmsize_def fcard_fempty)

lemma oldest_proxy_found:
  assumes "\<forall>p \<in> fmdom' m. 0 < p" "k \<in> set order" "k \<in> fmdom' m"
  shows "0 < oldest_proxy order m \<and> oldest_proxy order m \<in> fmdom' m"
proof -
  let ?f = "\<lambda>(oldest_id :: int, oldest) k.
            case fmlookup m k of
              None \<Rightarrow> (oldest_id, oldest)
            | Some e \<Rightarrow> if oldest_id = 0 \<or> ce_touched e < oldest then (k, ce_touched e) else (oldest_id, oldest)"
  have "fst (foldl ?f a order) \<noteq> 0 \<and> fst (foldl ?f a order) \<in> fmdom' m"
    if "fst a = 0 \<and> k \<in> set order \<or> fst a \<noteq> 0 \<and> fst a \<in> fmdom' m" for a
    using that
  proof (induction order arbitrary: a)
    case (Cons x order)
    have "fst (?f a x) = 0 \<and> k \<in> set order \<or> fst (?f a x) \<noteq> 0 \<and> fst (?f a x) \<in> fmdom' m"
      using Cons.prems assms(1,3) by (cases a) (auto simp: fmdom'_alt_def fmlookup_dom_iff split: option.splits)
    from Cons.IH [OF this] show ?case by simp
  qed auto
  from this [of "(0, 0)"] assms(1,2) show ?thesis by (auto simp: oldest_proxy_def)
qed

lemma ensure_capacity_room:
  assumes "fmsize m \<le> cs_max_entries st" "0 < cs_max_entries st" "\<forall>p \<in> fmdom' m. 0 < p" "fset_of_list order = fmdom m"
  shows "fmsize (ensure_capacity st order now m) < cs_max_entries st"
proof (cases "fmsize m < cs_max_entries st")
  case False
  define m' where "m' = fmfilter (\<lambda>k. case fmlookup m k of
              None \<Rightarrow> True
            | Some e \<Rightarrow>
                let stale_observation = is_zero_time (ce_blocked_until e) \<and> cs_window st < time_sub now (ce_touched e);
                    expired_quarantine = \<not> is_zero_time (ce_blocked_until e) \<and> \<not> now < ce_blocked_until e
                in \<not> (stale_observation \<or> expired_quarantine)) m"
  have e: "ensure_capacity st order now m = (if fmsize m' < cs_max_entries st then m'
      else if 0 < oldest_proxy order m' then fmdrop (oldest_proxy order m') m' else m')"
    using False by (simp add: ensure_capacity_def m'_def [symmetric] Let_def)
  have le: "fmsize m' \<le> fmsize m" unfolding m'_def by (rule fmsize_filter)
  show ?thesis
  proof (cases "fmsize m' < cs_max_entries st")
    case full: False
    have sub: "fmdom' m' \<subseteq> fmdom' m" by (auto simp: m'_def fmdom'_alt_def)
    from full assms(2) have "fmdom m' \<noteq> {||}" by (auto simp: fmsize_empty)
    then obtain k where k: "k \<in> fmdom' m'" by (auto simp: fmdom'_alt_def)
    moreover have "k \<in> set order"
      using k sub assms(4) by (auto simp: fmdom'_alt_def fset_of_list.rep_eq dest!: arg_cong [of _ _ fset])
    ultimately have "0 < oldest_proxy order m' \<and> oldest_proxy order m' \<in> fmdom' m'"
      using sub assms(3) by (intro oldest_proxy_found) auto
    with full le assms(1) e show ?thesis by (simp add: fmsize_drop)
  qed (simp add: e)
qed (simp add: ensure_capacity_def)

lemma ensure_capacity_sub: "fmlookup (ensure_capacity st order now m) p = Some e \<Longrightarrow> fmlookup m p = Some e"
  by (auto simp: ensure_capacity_def Let_def split: if_splits)

lemma count_failure_counts:
  assumes c: "counted st log p e ts" and st: "settings_ok st"
    and t: "0 < now" "0 \<le> ce_last_failure e" "ce_last_failure e \<le> now"
  shows "\<exists>e' ts'. snd (count_failure st p now e m) = fmupd p e' m \<and> counted st (Stream_failed p now order # log) p e' ts' \<and>
    0 \<le> ce_last_failure e' \<and> ce_last_failure e' \<le> now"
proof -
  define reset where "reset \<longleftrightarrow> is_zero_time (ce_window_start e) \<or> now < ce_window_start e \<or> cs_window st < time_sub now (ce_window_start e)"
  define e1 where "e1 = (if reset then e\<lparr>ce_count := 0, ce_window_start := now, ce_blocked_until := 0\<rparr> else e)"
  define ts1 where "ts1 = (if reset then [] else ts)"
  define merged where "merged \<longleftrightarrow> 0 < cs_collapse st \<and> \<not> is_zero_time (ce_last_failure e1)
            \<and> 0 \<le> time_sub now (ce_last_failure e1) \<and> time_sub now (ce_last_failure e1) < cs_collapse st"
  have last: "ce_last_failure e1 = ce_last_failure e" by (simp add: e1_def)
  have c1: "counted st (Stream_failed p now order # log) p e1 ts1"
    using c by (auto simp: counted_def e1_def ts1_def spaced_def)
  have win: "ce_window_start e1 \<le> now" "now \<le> ce_window_start e1 + cs_window st"
    using st by (auto simp: e1_def reset_def settings_ok_def time_sub_greater not_less)
  show ?thesis
  proof (cases merged)
    case True
    then have "snd (count_failure st p now e m) = fmupd p (e1\<lparr>ce_touched := now\<rparr>) m"
      by (simp add: count_failure_def Let_def reset_def [symmetric] e1_def [symmetric] merged_def [symmetric] del: time_sub_nonneg)
    moreover have "counted st (Stream_failed p now order # log) p (e1\<lparr>ce_touched := now\<rparr>) ts1"
      using c1 by (simp add: counted_def)
    ultimately show ?thesis using t last by force
  next
    case False
    define e2 where "e2 = e1\<lparr>ce_count := ce_count e1 + 1, ce_last_failure := now, ce_touched := now\<rparr>"
    define e3 where "e3 = (if cs_threshold st \<le> ce_count e2 then e2\<lparr>ce_blocked_until := now + cs_ttl st\<rparr> else e2)"
    have res: "snd (count_failure st p now e m) = fmupd p e3 m"
      using False by (simp add: count_failure_def Let_def reset_def [symmetric] e1_def [symmetric] merged_def [symmetric] e2_def [symmetric] e3_def
          del: time_sub_nonneg)
    have "cs_collapse st \<le> now - x" if x: "x \<in> set ts1" for x
    proof -
      have hd: "hd ts1 = ce_last_failure e1" "0 < hd ts1" using c1 x hd_in_set [of ts1] by (fastforce simp: counted_def)+
      have "x = hd ts1 \<or> cs_collapse st \<le> hd ts1 - x"
        using c1 x by (cases ts1) (auto simp: counted_def spaced_def)
      moreover have "cs_collapse st \<le> now - hd ts1"
        using False hd last t st time_sub_less [of "cs_collapse st" now "ce_last_failure e"]
        by (auto simp: merged_def settings_ok_def)
      ultimately show ?thesis using st by (auto simp: settings_ok_def)
    qed
    then have "spaced (cs_collapse st) (now # ts1)" using c1 by (auto simp: counted_def spaced_def)
    moreover have "ce_count e1 \<ge> 0" using c1 by (auto simp: counted_def)
    moreover have "ce_blocked_until e1 \<noteq> 0 \<longrightarrow> cs_threshold st \<le> ce_count e1" using c1 by (auto simp: counted_def)
    ultimately have "counted st (Stream_failed p now order # log) p e3 (now # ts1)"
      using c1 win t by (auto simp: counted_def e3_def e2_def)
    then show ?thesis using res t by (force simp: e3_def e2_def)
  qed
qed


lemma counted_log:
  assumes "counted st log p e ts" "set (failures_since p log) \<subseteq> set (failures_since p log')"
  shows "counted st log' p e ts"
  using assms by (auto simp: counted_def)

lemma counted_new: "counted st log p \<lparr>ce_count = 0, ce_window_start = 0, ce_last_failure = 0, ce_blocked_until = 0, ce_touched = 0\<rparr> []"
  by (simp add: counted_def spaced_def)

lemma circuit_inv_sub:
  assumes "circuit_inv st s" "ci_clock s \<le> c" "fmsize m \<le> fmsize (ci_entries s)"
    and "\<And>p e. fmlookup m p = Some e \<Longrightarrow> fmlookup (ci_entries s) p = Some e \<and> set (failures_since p (ci_log s)) \<subseteq> set (failures_since p log)"
  shows "circuit_inv st \<lparr>ci_entries = m, ci_clock = c, ci_log = log\<rparr>"
proof -
  have "0 < p \<and> 0 \<le> ce_last_failure e \<and> ce_last_failure e \<le> c \<and> (\<exists>ts. counted st log p e ts)" if "fmlookup m p = Some e" for p e
  proof -
    from assms(4) [OF that] have e: "fmlookup (ci_entries s) p = Some e" "set (failures_since p (ci_log s)) \<subseteq> set (failures_since p log)" by auto
    from assms(1) e(1) obtain ts where "counted st (ci_log s) p e ts" unfolding circuit_inv_def by blast
    from counted_log [OF this e(2)] e(1) assms(1,2) show ?thesis by (auto simp: circuit_inv_def intro: order_trans)
  qed
  with assms(1-3) show ?thesis by (auto simp: circuit_inv_def)
qed

lemma circuit_step_inv: "circuit_inv st s \<Longrightarrow> circuit_event_ok s e \<Longrightarrow> circuit_inv st (circuit_step st s e)"
proof (cases e)
  case (Stream_failed proxy now order)
  assume inv: "circuit_inv st s" and ok: "circuit_event_ok s e"
  let ?m = "ci_entries s" and ?log = "Stream_failed proxy now order # ci_log s"
  have others: "0 < p \<and> 0 \<le> ce_last_failure e \<and> ce_last_failure e \<le> now \<and> (\<exists>ts. counted st ?log p e ts)"
    if "fmlookup ?m p = Some e" for p e
    using that inv ok Stream_failed counted_log [of st "ci_log s" p e _ ?log] by (fastforce simp: circuit_inv_def)
  have inv_upd: "circuit_inv st \<lparr>ci_entries = fmupd proxy e' m', ci_clock = now, ci_log = ?log\<rparr>"
    if "\<And>p e. fmlookup m' p = Some e \<Longrightarrow> fmlookup ?m p = Some e" "fmsize (fmupd proxy e' m') \<le> cs_max_entries st"
      "counted st ?log proxy e' ts" "0 \<le> ce_last_failure e'" "ce_last_failure e' \<le> now" "0 < proxy" for m' e' ts
    using that others inv ok Stream_failed by (fastforce simp: circuit_inv_def)
  show ?thesis
  proof (cases "cs_disabled st \<or> proxy \<le> 0")
    case True
    with inv ok others Stream_failed show ?thesis by (auto simp: circuit_inv_def record_failure_def)
  next
    case False
    show ?thesis
    proof (cases "fmlookup ?m proxy")
      case None
      have st: "settings_ok st" using inv by (simp add: circuit_inv_def)
      define m' where "m' = ensure_capacity st order now ?m"
      have sub: "\<And>p e. fmlookup m' p = Some e \<Longrightarrow> fmlookup ?m p = Some e" by (auto simp: m'_def dest: ensure_capacity_sub)
      have "\<forall>p \<in> fmdom' ?m. 0 < p" using inv by (auto simp: circuit_inv_def fmdom'_alt_def fmlookup_dom_iff)
      then have "fmsize m' < cs_max_entries st"
        using inv ok Stream_failed st unfolding m'_def by (intro ensure_capacity_room) (auto simp: circuit_inv_def settings_ok_def)
      then have "fmsize (fmupd proxy e' m') \<le> cs_max_entries st" for e' by (auto simp: fmsize_upd)
      moreover obtain e' ts' where e': "snd (count_failure st proxy now
          \<lparr>ce_count = 0, ce_window_start = 0, ce_last_failure = 0, ce_blocked_until = 0, ce_touched = 0\<rparr> m') = fmupd proxy e' m'"
        "counted st ?log proxy e' ts'" "0 \<le> ce_last_failure e'" "ce_last_failure e' \<le> now"
        using count_failure_counts [OF counted_new [of st "ci_log s" proxy] st, of now m' order] ok Stream_failed by auto
      ultimately have "circuit_inv st \<lparr>ci_entries = fmupd proxy e' m', ci_clock = now, ci_log = ?log\<rparr>"
        using sub False by (intro inv_upd) auto
      with e' None False Stream_failed show ?thesis by (simp add: record_failure_def m'_def)
    next
      case (Some e0)
      have size: "fmsize (fmupd proxy e' ?m) \<le> cs_max_entries st" for e'
        using inv Some by (auto simp: circuit_inv_def fmsize_upd fmdom'_alt_def fmlookup_dom_iff)
      from inv Some obtain ts where e0: "counted st (ci_log s) proxy e0 ts" "0 \<le> ce_last_failure e0" "ce_last_failure e0 \<le> ci_clock s"
        and st: "settings_ok st" by (auto simp: circuit_inv_def)
      show ?thesis
      proof (cases "now < ce_blocked_until e0")
        case True
        have "counted st ?log proxy (e0\<lparr>ce_touched := now\<rparr>) ts" using e0(1) by (auto simp: counted_def)
        with e0 size ok Stream_failed False
        have "circuit_inv st \<lparr>ci_entries = fmupd proxy (e0\<lparr>ce_touched := now\<rparr>) ?m, ci_clock = now, ci_log = ?log\<rparr>"
          by (intro inv_upd) auto
        with True Some False Stream_failed show ?thesis by (simp add: record_failure_def)
      next
        case not_blocked: False
        obtain e' ts' where e': "snd (count_failure st proxy now e0 ?m) = fmupd proxy e' ?m"
          "counted st ?log proxy e' ts'" "0 \<le> ce_last_failure e'" "ce_last_failure e' \<le> now"
          using count_failure_counts [OF e0(1) st, of now ?m order] e0 ok Stream_failed by auto
        then have "circuit_inv st \<lparr>ci_entries = fmupd proxy e' ?m, ci_clock = now, ci_log = ?log\<rparr>"
          using size False by (intro inv_upd) auto
        with e' not_blocked Some False Stream_failed show ?thesis by (simp add: record_failure_def)
      qed
    qed
  qed
next
  case (Stream_succeeded proxy)
  assume inv: "circuit_inv st s" and ok: "circuit_event_ok s e"
  have pos: "0 < p" if "fmlookup (ci_entries s) p = Some e" for p e using that inv by (auto simp: circuit_inv_def)
  then show ?thesis unfolding Stream_succeeded circuit_step.simps
    by (intro circuit_inv_sub [OF inv]) (auto simp: record_success_def fmsize_drop split: option.splits if_splits dest: pos)
next
  case (Asked_blocked proxy now)
  assume inv: "circuit_inv st s" and ok: "circuit_event_ok s e"
  then show ?thesis using Asked_blocked unfolding Asked_blocked circuit_step.simps
    by (intro circuit_inv_sub [OF inv]) (auto simp: is_blocked_def fmsize_drop split: option.splits if_splits)
qed

interpretation circuit: invariant_machine circuit_event_ok "circuit_step st" "circuit_inv st" for st
  by unfold_locales (rule circuit_step_inv)


lemma initial_circuit_inv: "settings_ok st \<Longrightarrow> circuit_inv st initial_circuit"
  by (simp add: circuit_inv_def initial_circuit_def fmsize_empty) (simp add: settings_ok_def)

lemma circuit_log: "ci_log (run_steps (circuit_step st) s es) = rev es @ ci_log s"
  by (induction es arbitrary: s) (auto, case_tac a, auto)

text \<open>
  C20: In every run the table holds no more entries than configured, and a proxy is quarantined only after failures of
  its own: since its last success at least as many as the threshold, any two of them as far apart as the collapse interval, all within one
  window, the last of them less than the quarantine ago. A burst of disconnects at one moment counts once.
\<close>

theorem quarantine_needs_incidents:
  assumes "settings_ok st" "admissible circuit_event_ok (circuit_step st) initial_circuit es"
    and "s = run_steps (circuit_step st) initial_circuit es"
  shows "fmsize (ci_entries s) \<le> cs_max_entries st \<and>
    (fst (is_blocked st p now (ci_entries s)) \<longrightarrow>
      (\<exists>ts. set ts \<subseteq> set (failures_since p (rev es)) \<and> cs_threshold st \<le> int (length ts) \<and> spaced (cs_collapse st) ts \<and>
        hd ts - last ts \<le> cs_window st \<and> now < hd ts + cs_ttl st))"
proof -
  have inv: "circuit_inv st s"
    unfolding assms(3) using circuit.inv_run [OF initial_circuit_inv [OF assms(1)] assms(2)] .
  have log: "ci_log s = rev es" by (simp add: assms(3) circuit_log initial_circuit_def)
  have "\<exists>ts. set ts \<subseteq> set (failures_since p (rev es)) \<and> cs_threshold st \<le> int (length ts) \<and> spaced (cs_collapse st) ts \<and>
        hd ts - last ts \<le> cs_window st \<and> now < hd ts + cs_ttl st" if blocked: "fst (is_blocked st p now (ci_entries s))"
  proof -
    from blocked obtain e where e: "fmlookup (ci_entries s) p = Some e" "ce_blocked_until e \<noteq> 0" "now < ce_blocked_until e"
      by (auto simp: is_blocked_def split: if_splits option.splits)
    with inv log obtain ts where ts: "counted st (rev es) p e ts" unfolding circuit_inv_def by metis
    with e assms(1) have "ts \<noteq> []" by (auto simp: counted_def settings_ok_def)
    then have "hd ts \<in> set ts" "last ts \<in> set ts" by auto
    with ts have "ce_window_start e \<le> last ts" "hd ts \<le> ce_window_start e + cs_window st" unfolding counted_def by blast+
    moreover from ts e(2) have "cs_threshold st \<le> ce_count e" "ce_blocked_until e = ce_last_failure e + cs_ttl st" by (simp_all add: counted_def)
    moreover from ts \<open>ts \<noteq> []\<close> have "set ts \<subseteq> set (failures_since p (rev es))" "int (length ts) = ce_count e"
      "spaced (cs_collapse st) ts" "hd ts = ce_last_failure e" by (simp_all add: counted_def)
    ultimately show ?thesis using e(3) by (intro exI [of _ ts]) simp
  qed
  with inv show ?thesis by (simp add: circuit_inv_def)
qed

theorem quarantine_needs_incidents_witness:
  "\<exists>s. s = run_steps (circuit_step default_circuit_settings) initial_circuit [Stream_failed 7 (10 * second) [], Stream_failed 7 (20 * second) [7]] \<and>
     fst (is_blocked default_circuit_settings 7 (30 * second) (ci_entries s)) \<and>
     (\<exists>ts. set ts \<subseteq> {10 * second, 20 * second} \<and> 2 \<le> int (length ts) \<and> spaced (3 * second) ts)"
proof -
  let ?st = default_circuit_settings and ?es = "[Stream_failed 7 (10 * second) [], Stream_failed 7 (20 * second) [7]]"
  let ?s = "run_steps (circuit_step ?st) initial_circuit ?es"
  have ok: "settings_ok ?st" by (simp add: settings_ok_def default_circuit_settings_def max_duration_def)
  have first: "ci_entries (circuit_step ?st initial_circuit (Stream_failed 7 (10 * second) [])) =
      fmupd 7 \<lparr>ce_count = 1, ce_window_start = 10 * second, ce_last_failure = 10 * second, ce_blocked_until = 0, ce_touched = 10 * second\<rparr> fmempty"
    by (simp add: record_failure_def count_failure_def ensure_capacity_def default_circuit_settings_def initial_circuit_def fmsize_empty Let_def)
  have adm: "admissible circuit_event_ok (circuit_step ?st) initial_circuit ?es"
    using first by (simp add: initial_circuit_def fset_of_list.rep_eq del: circuit_step.simps) (simp add: first)
  have blocked: "fst (is_blocked ?st 7 (30 * second) (ci_entries ?s))"
    using first by (simp add: record_failure_def count_failure_def default_circuit_settings_def is_blocked_def time_sub_def max_duration_def Let_def)
  from quarantine_needs_incidents [OF ok adm refl, of 7 "30 * second"] blocked
  show ?thesis by (intro exI [of _ ?s]) (auto simp: default_circuit_settings_def)
qed

end
