(* ===== verification/ModelTransient.thy ===== *)
theory ModelTransient
  imports StreamCircuit
begin

text \<open>
  The breaker for pairs of an account and a model (service/openai_account_model_transient.go): how many failures in
  a row a pair has had, and how long it cools down. It is proved to implement a specification that looks at the
  whole history, as long as the bounded table has had room. \<open>strings.ToLower\<close> is the argument \<open>lower\<close>.
\<close>

section \<open>The table\<close>

record model_key =
  mk_account_id :: int
  mk_model :: string

record transient_entry =
  te_streak :: int
  te_last_failure :: instant
  te_block_until :: instant
  te_touched :: instant

type_synonym transient_entries = "(model_key, transient_entry) fmap"

definition streak_ttl :: duration where "streak_ttl = 30 * minute"
definition short_cooldown :: duration where "short_cooldown = 10 * second"
definition long_cooldown :: duration where "long_cooldown = 45 * second"
definition transient_default_max :: int where "transient_default_max = 4096"
definition transient_max_model_bytes :: nat where "transient_max_model_bytes = 512"

definition normalize_transient_model :: "(string \<Rightarrow> string) \<Rightarrow> string \<Rightarrow> string" where
  "normalize_transient_model lower model =
     (let model = trim_space model in if transient_max_model_bytes < length model then [] else lower model)"

definition transient_key :: "(string \<Rightarrow> string) \<Rightarrow> int \<Rightarrow> string \<Rightarrow> model_key option" where
  "transient_key lower account model =
     (let model = normalize_transient_model lower model
      in if account \<le> 0 \<or> model = [] then None else Some \<lparr>mk_account_id = account, mk_model = model\<rparr>)"

definition new_max_entries :: "int \<Rightarrow> int" where
  "new_max_entries n = (if n \<le> 0 then transient_default_max else n)"

definition oldest_key :: "model_key list \<Rightarrow> transient_entries \<Rightarrow> model_key option" where
  "oldest_key order entries =
     map_option fst (foldl (\<lambda>found k.
        case fmlookup entries k of
          None \<Rightarrow> found
        | Some e \<Rightarrow> (case found of
              None \<Rightarrow> Some (k, te_touched e)
            | Some (_, oldest) \<Rightarrow> if te_touched e < oldest then Some (k, te_touched e) else found)) None order)"

definition evict_oldest :: "int \<Rightarrow> model_key list \<Rightarrow> transient_entries \<Rightarrow> transient_entries" where
  "evict_oldest max_entries order entries =
     (if fmsize entries < max_entries then entries
      else case oldest_key order entries of None \<Rightarrow> entries | Some k \<Rightarrow> fmdrop k entries)"

definition cooldown_of :: "int \<Rightarrow> duration" where
  "cooldown_of streak = (if 3 \<le> streak then long_cooldown else if streak = 2 then short_cooldown else 0)"

text \<open>The decision: the streak, the cooldown and its end. \<open>time.Now\<close> stands in for a zero time.\<close>

definition transient_failure :: "(string \<Rightarrow> string) \<Rightarrow> int \<Rightarrow> model_key list \<Rightarrow> instant \<Rightarrow> int \<Rightarrow> string \<Rightarrow> instant
  \<Rightarrow> transient_entries \<Rightarrow> (int \<times> duration \<times> instant) \<times> transient_entries" where
  "transient_failure lower max_entries order wall account model now entries =
     (case transient_key lower account model of
        None \<Rightarrow> ((0, 0, 0), entries)
      | Some key \<Rightarrow>
          let now = (if is_zero_time now then wall else now);
              found = fmlookup entries key;
              entries = (if found = None then evict_oldest max_entries order entries else entries);
              e = (case found of Some e \<Rightarrow> e | None \<Rightarrow> \<lparr>te_streak = 0, te_last_failure = 0, te_block_until = 0, te_touched = 0\<rparr>);
              e = (if found = None \<or> is_zero_time (te_last_failure e) \<or> streak_ttl < time_sub now (te_last_failure e)
                      \<or> now < te_last_failure e
                   then e\<lparr>te_streak := 0, te_block_until := 0\<rparr> else e);
              e = e\<lparr>te_streak := te_streak e + 1, te_last_failure := now, te_touched := now\<rparr>;
              cooldown = cooldown_of (te_streak e);
              e = e\<lparr>te_block_until := if 0 < cooldown then now + cooldown else 0\<rparr>
          in ((te_streak e, cooldown, te_block_until e), fmupd key e entries))"

definition transient_success :: "(string \<Rightarrow> string) \<Rightarrow> int \<Rightarrow> string \<Rightarrow> transient_entries \<Rightarrow> transient_entries" where
  "transient_success lower account model entries =
     (case transient_key lower account model of None \<Rightarrow> entries | Some key \<Rightarrow> fmdrop key entries)"

definition transient_blocked :: "(string \<Rightarrow> string) \<Rightarrow> instant \<Rightarrow> int \<Rightarrow> string \<Rightarrow> instant \<Rightarrow> transient_entries
  \<Rightarrow> bool \<times> transient_entries" where
  "transient_blocked lower wall account model now entries =
     (case transient_key lower account model of
        None \<Rightarrow> (False, entries)
      | Some key \<Rightarrow>
          let now = (if is_zero_time now then wall else now)
          in case fmlookup entries key of
              None \<Rightarrow> (False, entries)
            | Some e \<Rightarrow>
                if \<not> is_zero_time (te_last_failure e) \<and> streak_ttl < time_sub now (te_last_failure e)
                then (False, fmdrop key entries)
                else (\<not> is_zero_time (te_block_until e) \<and> now < te_block_until e, fmupd key (e\<lparr>te_touched := now\<rparr>) entries))"

section \<open>The breaker at work\<close>

datatype transient_event =
    Model_failed int string instant "model_key list"
  | Model_succeeded int string
  | Model_asked int string instant

record transient_state =
  tr_entries :: transient_entries
  tr_clock :: instant
  tr_log :: "transient_event list"

definition initial_transient :: transient_state where
  "initial_transient = \<lparr>tr_entries = fmempty, tr_clock = 0, tr_log = []\<rparr>"

fun transient_step :: "(string \<Rightarrow> string) \<Rightarrow> int \<Rightarrow> transient_state \<Rightarrow> transient_event \<Rightarrow> transient_state" where
  "transient_step lower n s (Model_failed account model now order) =
     \<lparr>tr_entries = snd (transient_failure lower n order (tr_clock s) account model now (tr_entries s)), tr_clock = now,
      tr_log = Model_failed account model now order # tr_log s\<rparr>"
| "transient_step lower n s (Model_succeeded account model) =
     \<lparr>tr_entries = transient_success lower account model (tr_entries s), tr_clock = tr_clock s, tr_log = Model_succeeded account model # tr_log s\<rparr>"
| "transient_step lower n s (Model_asked account model now) =
     \<lparr>tr_entries = snd (transient_blocked lower (tr_clock s) account model now (tr_entries s)), tr_clock = now,
      tr_log = Model_asked account model now # tr_log s\<rparr>"

fun transient_event_ok :: "transient_state \<Rightarrow> transient_event \<Rightarrow> bool" where
  "transient_event_ok s (Model_failed account model now order) \<longleftrightarrow>
     0 < now \<and> tr_clock s \<le> now \<and> fset_of_list order = fmdom (tr_entries s)"
| "transient_event_ok s (Model_succeeded account model) \<longleftrightarrow> True"
| "transient_event_ok s (Model_asked account model now) \<longleftrightarrow> 0 < now \<and> tr_clock s \<le> now"

section \<open>The specification\<close>

text \<open>
  The failures of a pair since its last success, newest first; how many of them follow each other within the
  streak's time to live; and from these alone, whether the pair is cooling down.
\<close>

fun model_failures :: "(string \<Rightarrow> string) \<Rightarrow> model_key \<Rightarrow> transient_event list \<Rightarrow> instant list" where
  "model_failures lower k [] = []"
| "model_failures lower k (Model_failed account model now _ # es) =
     (if transient_key lower account model = Some k then now # model_failures lower k es else model_failures lower k es)"
| "model_failures lower k (Model_succeeded account model # es) =
     (if transient_key lower account model = Some k then [] else model_failures lower k es)"
| "model_failures lower k (Model_asked _ _ _ # es) = model_failures lower k es"

fun streak_of :: "instant list \<Rightarrow> int" where
  "streak_of [] = 0"
| "streak_of [t] = 1"
| "streak_of (t # u # ts) = (if t - u \<le> streak_ttl then streak_of (u # ts) + 1 else 1)"

definition cooling :: "instant list \<Rightarrow> instant \<Rightarrow> bool" where
  "cooling ts now \<longleftrightarrow> ts \<noteq> [] \<and> now < hd ts + cooldown_of (streak_of ts)"

fun failed_keys :: "(string \<Rightarrow> string) \<Rightarrow> transient_event list \<Rightarrow> model_key set" where
  "failed_keys lower [] = {}"
| "failed_keys lower (Model_failed account model _ _ # es) =
     (case transient_key lower account model of None \<Rightarrow> {} | Some k \<Rightarrow> {k}) \<union> failed_keys lower es"
| "failed_keys lower (_ # es) = failed_keys lower es"


section \<open>The breaker implements its specification\<close>

lemma cooldown_consts: "streak_ttl < max_duration" "0 < streak_ttl" "cooldown_of n < streak_ttl" "0 \<le> cooldown_of n"
  by (auto simp: streak_ttl_def max_duration_def cooldown_of_def long_cooldown_def short_cooldown_def)

lemma cooldown_mono: "a \<le> b \<Longrightarrow> cooldown_of a \<le> cooldown_of b"
  by (auto simp: cooldown_of_def long_cooldown_def short_cooldown_def)

lemma streak_of_pos: "ts \<noteq> [] \<Longrightarrow> 1 \<le> streak_of ts"
  by (induction ts rule: streak_of.induct) auto

lemma streak_of_Cons: "streak_of (t # ts) = (if ts \<noteq> [] \<and> t - hd ts \<le> streak_ttl then streak_of ts + 1 else 1)"
  by (cases ts) auto

lemma oldest_key_found:
  assumes "k \<in> set order" "k \<in> fmdom' m"
  shows "\<exists>k'. oldest_key order m = Some k' \<and> k' \<in> fmdom' m"
proof -
  let ?f = "\<lambda>found k.
        case fmlookup m k of
          None \<Rightarrow> found
        | Some e \<Rightarrow> (case found of
              None \<Rightarrow> Some (k, te_touched e)
            | Some (_, oldest) \<Rightarrow> if te_touched e < oldest then Some (k, te_touched e) else found)"
  have "\<exists>p. foldl ?f a order = Some p \<and> fst p \<in> fmdom' m"
    if "a = None \<and> k \<in> set order \<or> (\<exists>p. a = Some p \<and> fst p \<in> fmdom' m)" for a
    using that
  proof (induction order arbitrary: a)
    case (Cons y order)
    have "?f a y = None \<and> k \<in> set order \<or> (\<exists>p. ?f a y = Some p \<and> fst p \<in> fmdom' m)"
      using Cons.prems assms(2) by (auto simp: fmdom'_alt_def fmlookup_dom_iff split: option.splits)
    from Cons.IH [OF this] show ?case by simp
  qed auto
  from this [of None] assms(1) show ?thesis by (auto simp: oldest_key_def)
qed

lemma evict_room:
  assumes "fmsize m \<le> n" "0 < n" "fset_of_list order = fmdom m"
  shows "fmsize (evict_oldest n order m) < n"
proof (cases "fmsize m < n")
  case False
  with assms(2) have "fmdom m \<noteq> {||}" by (auto simp: fmsize_empty)
  then obtain k where k: "k \<in> fmdom' m" by (auto simp: fmdom'_alt_def)
  moreover have "k \<in> set order"
    using k assms(3) by (auto simp: fmdom'_alt_def fset_of_list.rep_eq dest!: arg_cong [of _ _ fset])
  ultimately obtain k' where "oldest_key order m = Some k'" "k' \<in> fmdom' m" using oldest_key_found by blast
  with False assms(1) show ?thesis by (simp add: evict_oldest_def fmsize_drop)
qed (simp add: evict_oldest_def)

lemma evict_sub: "fmlookup (evict_oldest n order m) k = Some e \<Longrightarrow> fmlookup m k = Some e"
  by (auto simp: evict_oldest_def split: if_splits option.splits)

text \<open>An entry counts failures in a row that the history has, and ends the cooldown of its count.\<close>

definition entry_of :: "instant list \<Rightarrow> transient_entry \<Rightarrow> bool" where
  "entry_of ts e \<longleftrightarrow>
     ts \<noteq> [] \<and> te_last_failure e = hd ts \<and> 1 \<le> te_streak e \<and> te_streak e \<le> streak_of ts \<and>
     te_block_until e = (if 0 < cooldown_of (te_streak e) then te_last_failure e + cooldown_of (te_streak e) else 0)"

definition transient_inv :: "(string \<Rightarrow> string) \<Rightarrow> int \<Rightarrow> transient_state \<Rightarrow> bool" where
  "transient_inv lower n s \<longleftrightarrow>
     0 < n \<and> 0 \<le> tr_clock s \<and> fmsize (tr_entries s) \<le> n \<and>
     (\<forall>k. let ts = model_failures lower k (tr_log s) in
        (ts \<noteq> [] \<longrightarrow> 0 < hd ts \<and> hd ts \<le> tr_clock s) \<and> (\<forall>e. fmlookup (tr_entries s) k = Some e \<longrightarrow> entry_of ts e)) \<and>
     (int (card (failed_keys lower (tr_log s))) \<le> n \<longrightarrow>
        fmdom' (tr_entries s) \<subseteq> failed_keys lower (tr_log s) \<and>
        (\<forall>k. let ts = model_failures lower k (tr_log s) in ts \<noteq> [] \<longrightarrow>
          (case fmlookup (tr_entries s) k of Some e \<Rightarrow> te_streak e = streak_of ts | None \<Rightarrow> streak_ttl < tr_clock s - hd ts)))"

lemma transient_invI:
  assumes "0 < n" "0 \<le> c" "fmsize m \<le> n"
    and "\<And>j. (model_failures lower j log \<noteq> [] \<longrightarrow> 0 < hd (model_failures lower j log) \<and> hd (model_failures lower j log) \<le> c) \<and>
      (\<forall>e. fmlookup m j = Some e \<longrightarrow> entry_of (model_failures lower j log) e)"
    and "int (card (failed_keys lower log)) \<le> n \<Longrightarrow> fmdom' m \<subseteq> failed_keys lower log"
    and "\<And>j. int (card (failed_keys lower log)) \<le> n \<Longrightarrow> model_failures lower j log \<noteq> [] \<Longrightarrow>
      (case fmlookup m j of Some e \<Rightarrow> te_streak e = streak_of (model_failures lower j log) | None \<Rightarrow> streak_ttl < c - hd (model_failures lower j log))"
  shows "transient_inv lower n \<lparr>tr_entries = m, tr_clock = c, tr_log = log\<rparr>"
  using assms by (simp add: transient_inv_def Let_def cong: option.case_cong)

lemma finite_failed_keys [simp]: "finite (failed_keys lower es)"
  by (induction es rule: failed_keys.induct) (auto split: option.splits)

text \<open>One failure, told by the entry it leaves.\<close>

definition next_entry :: "transient_entry option \<Rightarrow> instant \<Rightarrow> transient_entry" where
  "next_entry found now =
     (let n = (case found of Some e \<Rightarrow> if streak_ttl < now - te_last_failure e then 1 else te_streak e + 1 | None \<Rightarrow> 1)
      in \<lparr>te_streak = n, te_last_failure = now, te_block_until = if 0 < cooldown_of n then now + cooldown_of n else 0, te_touched = now\<rparr>)"

lemma transient_failure_entry:
  assumes "transient_key lower account model = Some k" "0 < now"
    and "\<And>e. fmlookup m k = Some e \<Longrightarrow> 0 < te_last_failure e \<and> te_last_failure e \<le> now"
  shows "snd (transient_failure lower n order wall account model now m) =
    fmupd k (next_entry (fmlookup m k) now) (if fmlookup m k = None then evict_oldest n order m else m)"
  using assms(1,2) assms(3)
  by (cases "fmlookup m k")
     (auto simp: transient_failure_def next_entry_def Let_def time_sub_greater cooldown_consts less_imp_le intro!: arg_cong [where f = "\<lambda>e. fmupd k e _"])

lemma next_entry_of:
  assumes "case found of Some e \<Rightarrow> entry_of ts e | None \<Rightarrow> True"
  shows "entry_of (now # ts) (next_entry found now)"
    "(case found of Some e \<Rightarrow> te_streak e = streak_of ts | None \<Rightarrow> ts \<noteq> [] \<longrightarrow> streak_ttl < now - hd ts) \<Longrightarrow>
     te_streak (next_entry found now) = streak_of (now # ts)"
  using assms streak_of_pos [of "now # ts"]
  by (auto simp: entry_of_def next_entry_def Let_def streak_of_Cons split: option.splits)


lemma evict_none: "fmsize m < n \<Longrightarrow> evict_oldest n order m = m"
  by (simp add: evict_oldest_def)

lemma transient_failed_inv:
  assumes inv: "transient_inv lower n s" and ok: "0 < now" "tr_clock s \<le> now" "fset_of_list order = fmdom (tr_entries s)"
    and key: "transient_key lower account model = Some k"
  shows "transient_inv lower n (transient_step lower n s (Model_failed account model now order))"
proof -
  let ?m = "tr_entries s" and ?log = "Model_failed account model now order # tr_log s" and ?fs = "\<lambda>j. model_failures lower j (tr_log s)"
  define found where "found = fmlookup ?m k"
  define room where "room = (if found = None then evict_oldest n order ?m else ?m)"
  define e where "e = next_entry found now"
  have entry: "entry_of (?fs j) x" "?fs j \<noteq> []" if "fmlookup ?m j = Some x" for j x
    using inv that by (auto simp: transient_inv_def Let_def entry_of_def)
  have times: "0 < hd (?fs j) \<and> hd (?fs j) \<le> tr_clock s" if "?fs j \<noteq> []" for j using inv that by (auto simp: transient_inv_def Let_def)
  have res: "snd (transient_failure lower n order (tr_clock s) account model now ?m) = fmupd k e room"
    unfolding e_def room_def found_def
  proof (rule transient_failure_entry [OF key ok(1)])
    show "0 < te_last_failure x \<and> te_last_failure x \<le> now" if "fmlookup ?m k = Some x" for x
      using entry [OF that] times [of k] ok(2) by (auto simp: entry_of_def)
  qed
  have sub: "fmlookup ?m j = Some x" if "fmlookup room j = Some x" for j x
    using that by (auto simp: room_def dest: evict_sub split: if_splits)
  have fs: "model_failures lower j ?log = (if j = k then now # ?fs k else ?fs j)" for j using key by auto
  have keys: "failed_keys lower ?log = insert k (failed_keys lower (tr_log s))" using key by simp
  have size: "fmsize ?m \<le> n" "0 < n" using inv by (auto simp: transient_inv_def)
  have size': "fmsize (fmupd k e room) \<le> n"
  proof (cases found)
    case None
    then show ?thesis using evict_room [OF size ok(3)] by (simp add: room_def fmsize_upd)
  next
    case (Some x)
    then have "k \<in> fmdom' ?m" by (auto simp: found_def intro: fmdom'I)
    with Some size show ?thesis by (simp add: room_def fmsize_upd)
  qed
  have "case found of Some x \<Rightarrow> entry_of (?fs k) x | None \<Rightarrow> True"
    using entry by (auto simp: found_def split: option.split)
  note new = next_entry_of [OF this, of now, folded e_def]
  have rows: "(model_failures lower j ?log \<noteq> [] \<longrightarrow> 0 < hd (model_failures lower j ?log) \<and> hd (model_failures lower j ?log) \<le> now) \<and>
      (\<forall>x. fmlookup (fmupd k e room) j = Some x \<longrightarrow> entry_of (model_failures lower j ?log) x)" for j
    unfolding fs using new(1) ok times [of j] entry(1) sub by (cases "j = k") fastforce+
  have exact: "fmdom' (fmupd k e room) \<subseteq> failed_keys lower ?log"
    "\<And>j. model_failures lower j ?log \<noteq> [] \<Longrightarrow> (case fmlookup (fmupd k e room) j of
        Some x \<Rightarrow> te_streak x = streak_of (model_failures lower j ?log) | None \<Rightarrow> streak_ttl < now - hd (model_failures lower j ?log))"
    if full: "int (card (failed_keys lower ?log)) \<le> n"
  proof -
    have "card (failed_keys lower (tr_log s)) \<le> card (failed_keys lower ?log)" unfolding keys by (rule card_mono) auto
    with full have "int (card (failed_keys lower (tr_log s))) \<le> n" by linarith
    with inv have dom: "fmdom' ?m \<subseteq> failed_keys lower (tr_log s)"
      and exact: "\<And>j. ?fs j \<noteq> [] \<Longrightarrow> (case fmlookup ?m j of Some x \<Rightarrow> te_streak x = streak_of (?fs j) | None \<Rightarrow> streak_ttl < tr_clock s - hd (?fs j))"
      by (auto simp: transient_inv_def Let_def)
    have "room = ?m"
    proof (cases found)
      case None
      then have "k \<notin> fmdom' ?m" by (auto simp: found_def fmdom'_alt_def fmlookup_dom_iff)
      then have "card (insert k (fmdom' ?m)) = Suc (card (fmdom' ?m))" by simp
      moreover have "card (insert k (fmdom' ?m)) \<le> card (failed_keys lower ?log)" unfolding keys using dom by (intro card_mono) auto
      moreover have "fmsize ?m = int (card (fmdom' ?m))" by (simp add: fmsize_def fmdom'_alt_def fcard.rep_eq)
      ultimately have "fmsize ?m < n" using full by simp
      then show ?thesis by (simp add: room_def evict_none)
    qed (simp add: room_def)
    moreover have "te_streak e = streak_of (now # ?fs k)"
    proof (rule new(2))
      show "case found of Some x \<Rightarrow> te_streak x = streak_of (?fs k) | None \<Rightarrow> ?fs k \<noteq> [] \<longrightarrow> streak_ttl < now - hd (?fs k)"
        using exact [of k] entry(2) [of k] ok(2) by (auto simp: found_def split: option.splits)
    qed
    moreover have "case fmlookup ?m j of Some x \<Rightarrow> te_streak x = streak_of (?fs j) | None \<Rightarrow> streak_ttl < now - hd (?fs j)"
      if "?fs j \<noteq> []" for j
      using exact [OF that] ok(2) by (auto split: option.splits)
    ultimately show "fmdom' (fmupd k e room) \<subseteq> failed_keys lower ?log"
      "\<And>j. model_failures lower j ?log \<noteq> [] \<Longrightarrow> (case fmlookup (fmupd k e room) j of
        Some x \<Rightarrow> te_streak x = streak_of (model_failures lower j ?log) | None \<Rightarrow> streak_ttl < now - hd (model_failures lower j ?log))"
      using dom unfolding keys fs by auto
  qed
  show ?thesis unfolding transient_step.simps res
    using ok(1) by (intro transient_invI [OF size(2) _ size' rows exact]) auto
qed

text \<open>Events that remove entries, or touch them, and add no failure.\<close>

lemma transient_quiet_inv:
  assumes inv: "transient_inv lower n s" and clock: "tr_clock s \<le> c"
    and size: "fmsize m \<le> fmsize (tr_entries s)" "fmdom' m \<subseteq> fmdom' (tr_entries s)"
    and keys: "failed_keys lower log = failed_keys lower (tr_log s)"
    and fs: "\<And>j. model_failures lower j log = model_failures lower j (tr_log s) \<or> model_failures lower j log = [] \<and> fmlookup m j = None"
    and kept: "\<And>j x. fmlookup m j = Some x \<Longrightarrow>
      \<exists>y. fmlookup (tr_entries s) j = Some y \<and> te_streak x = te_streak y \<and> te_last_failure x = te_last_failure y \<and> te_block_until x = te_block_until y"
    and gone: "\<And>j y. fmlookup m j = None \<Longrightarrow> fmlookup (tr_entries s) j = Some y \<Longrightarrow>
      streak_ttl < c - te_last_failure y \<or> model_failures lower j log = []"
  shows "transient_inv lower n \<lparr>tr_entries = m, tr_clock = c, tr_log = log\<rparr>"
proof -
  let ?fs = "\<lambda>j. model_failures lower j (tr_log s)"
  have "(model_failures lower j log \<noteq> [] \<longrightarrow> 0 < hd (model_failures lower j log) \<and> hd (model_failures lower j log) \<le> c) \<and>
      (\<forall>x. fmlookup m j = Some x \<longrightarrow> entry_of (model_failures lower j log) x)" for j
  proof -
    have old: "(?fs j \<noteq> [] \<longrightarrow> 0 < hd (?fs j) \<and> hd (?fs j) \<le> tr_clock s)" "\<And>y. fmlookup (tr_entries s) j = Some y \<Longrightarrow> entry_of (?fs j) y"
      using inv by (auto simp: transient_inv_def Let_def)
    have "entry_of (?fs j) x" if "fmlookup m j = Some x" for x
    proof -
      from kept [OF that] obtain y where "fmlookup (tr_entries s) j = Some y" "te_streak x = te_streak y"
        "te_last_failure x = te_last_failure y" "te_block_until x = te_block_until y" by blast
      with old(2) [of y] show ?thesis by (simp add: entry_of_def)
    qed
    with old(1) fs [of j] clock show ?thesis by auto
  qed
  moreover have "case fmlookup m j of Some x \<Rightarrow> te_streak x = streak_of (model_failures lower j log) | None \<Rightarrow> streak_ttl < c - hd (model_failures lower j log)"
    if full: "int (card (failed_keys lower (tr_log s))) \<le> n" and ne: "model_failures lower j log \<noteq> []" for j
  proof -
    have eq: "model_failures lower j log = ?fs j" using fs [of j] ne by auto
    from inv full ne eq have exact: "case fmlookup (tr_entries s) j of Some x \<Rightarrow> te_streak x = streak_of (?fs j) | None \<Rightarrow> streak_ttl < tr_clock s - hd (?fs j)"
      by (auto simp: transient_inv_def Let_def)
    have old: "\<And>y. fmlookup (tr_entries s) j = Some y \<Longrightarrow> te_last_failure y = hd (?fs j)"
      using inv by (auto simp: transient_inv_def Let_def entry_of_def)
    show ?thesis
    proof (cases "fmlookup m j")
      case None
      with gone [of j] exact old clock ne eq show ?thesis by (auto split: option.splits)
    next
      case (Some x)
      with kept [of j x] exact eq show ?thesis by auto
    qed
  qed
  ultimately show ?thesis using inv clock size keys by (intro transient_invI) (auto simp: transient_inv_def)
qed

lemma transient_step_inv: "transient_inv lower n s \<Longrightarrow> transient_event_ok s e \<Longrightarrow> transient_inv lower n (transient_step lower n s e)"
proof (cases e)
  case (Model_failed account model now order)
  assume inv: "transient_inv lower n s" and ok: "transient_event_ok s e"
  show ?thesis
  proof (cases "transient_key lower account model")
    case None
    with inv ok Model_failed show ?thesis unfolding Model_failed transient_step.simps
      by (intro transient_quiet_inv [OF inv]) (auto simp: transient_failure_def)
  next
    case (Some k)
    from ok Model_failed have "0 < now" "tr_clock s \<le> now" "fset_of_list order = fmdom (tr_entries s)" by simp_all
    from transient_failed_inv [OF inv this Some] Model_failed show ?thesis by simp
  qed
next
  case (Model_succeeded account model)
  assume inv: "transient_inv lower n s" and ok: "transient_event_ok s e"
  show ?thesis unfolding Model_succeeded transient_step.simps
    by (intro transient_quiet_inv [OF inv])
       (auto simp: transient_success_def fmsize_drop fmdom'_alt_def split: option.splits if_splits)
next
  case (Model_asked account model now)
  assume inv: "transient_inv lower n s" and ok: "transient_event_ok s e"
  then have now: "0 < now" "tr_clock s \<le> now" using Model_asked by auto
  show ?thesis unfolding Model_asked transient_step.simps
    by (intro transient_quiet_inv [OF inv])
       (use now in \<open>auto simp: transient_blocked_def fmsize_drop fmsize_upd fmdom'_alt_def fmlookup_dom_iff time_sub_greater cooldown_consts less_imp_le
          split: option.splits if_splits\<close>)
qed

interpretation transient: invariant_machine transient_event_ok "transient_step lower n" "transient_inv lower n" for lower n
  by unfold_locales (rule transient_step_inv)


lemma initial_transient_inv: "0 < n \<Longrightarrow> transient_inv lower n initial_transient"
  by (simp add: transient_inv_def initial_transient_def fmsize_empty)

lemma transient_log: "tr_log (run_steps (transient_step lower n) s es) = rev es @ tr_log s"
proof (induction es arbitrary: s)
  case (Cons e es)
  then show ?case by (cases e) auto
qed simp

lemma blocked_cooling:
  assumes inv: "transient_inv lower n s" and now: "0 < now" "tr_clock s \<le> now"
    and key: "transient_key lower account model = Some k"
  defines "ts \<equiv> model_failures lower k (tr_log s)"
  shows "fst (transient_blocked lower wall account model now (tr_entries s)) \<Longrightarrow> cooling ts now"
    "int (card (failed_keys lower (tr_log s))) \<le> n \<Longrightarrow> cooling ts now \<Longrightarrow>
     fst (transient_blocked lower wall account model now (tr_entries s))"
proof -
  have times: "ts \<noteq> [] \<Longrightarrow> 0 < hd ts \<and> hd ts \<le> tr_clock s" and entry: "\<And>e. fmlookup (tr_entries s) k = Some e \<Longrightarrow> entry_of ts e"
    using inv by (auto simp: transient_inv_def Let_def ts_def)
  show "cooling ts now" if "fst (transient_blocked lower wall account model now (tr_entries s))"
  proof -
    from that key now obtain e where e: "fmlookup (tr_entries s) k = Some e" "te_block_until e \<noteq> 0" "now < te_block_until e"
      by (auto simp: transient_blocked_def Let_def split: option.splits if_splits)
    with entry [OF e(1)] cooldown_mono [of "te_streak e" "streak_of ts"] show ?thesis
      by (auto simp: entry_of_def cooling_def split: if_splits)
  qed
  show "fst (transient_blocked lower wall account model now (tr_entries s))"
    if full: "int (card (failed_keys lower (tr_log s))) \<le> n" and cool: "cooling ts now"
  proof -
    from cool have ts: "ts \<noteq> []" "now < hd ts + cooldown_of (streak_of ts)" by (auto simp: cooling_def)
    then have recent: "now - hd ts \<le> streak_ttl" using cooldown_consts(3) [of "streak_of ts"] by linarith
    from inv full ts(1) have "case fmlookup (tr_entries s) k of Some e \<Rightarrow> te_streak e = streak_of ts | None \<Rightarrow> streak_ttl < tr_clock s - hd ts"
      unfolding ts_def by (simp add: transient_inv_def Let_def)
    with recent now obtain e where e: "fmlookup (tr_entries s) k = Some e" "te_streak e = streak_of ts"
      by (auto split: option.splits)
    from entry [OF e(1)] e(2) have "te_last_failure e = hd ts"
      "te_block_until e = (if 0 < cooldown_of (streak_of ts) then hd ts + cooldown_of (streak_of ts) else 0)" by (auto simp: entry_of_def)
    with e(1) ts recent times now key show ?thesis
      by (auto simp: transient_blocked_def time_sub_greater cooldown_consts less_imp_le)
  qed
qed

text \<open>
  C18: The breaker of accounts and models decides by a bounded table what the whole history of failures says: a pair is
  blocked only while it is cooling down after failures in a row since its last success, 10 seconds after two and 45 after three
  or more; and as long as no more pairs have failed than the table holds, a pair that is cooling down is blocked.
\<close>

theorem transient_breaker_refines:
  assumes "0 < n" "admissible transient_event_ok (transient_step lower n) initial_transient es"
    and "s = run_steps (transient_step lower n) initial_transient es" "0 < now" "tr_clock s \<le> now"
    and "transient_key lower account model = Some key"
  shows "fmsize (tr_entries s) \<le> n \<and>
    (fst (transient_blocked lower wall account model now (tr_entries s)) \<longrightarrow> cooling (model_failures lower key (rev es)) now) \<and>
    (int (card (failed_keys lower (rev es))) \<le> n \<longrightarrow>
      (fst (transient_blocked lower wall account model now (tr_entries s)) \<longleftrightarrow> cooling (model_failures lower key (rev es)) now))"
proof -
  have inv: "transient_inv lower n s"
    unfolding assms(3) using transient.inv_run [OF initial_transient_inv [OF assms(1)] assms(2)] .
  have "tr_log s = rev es" by (simp add: assms(3) transient_log initial_transient_def)
  with blocked_cooling [OF inv assms(4,5,6), of wall] inv show ?thesis by (auto simp: transient_inv_def)
qed

lemma trim_gpt: "trim_space ''gpt'' = ''gpt''"
  by (simp add: trim_space_def strip_left.simps strip_one_def utf8_spaces_code)

theorem transient_breaker_refines_witness:
  "\<exists>s. s = run_steps (transient_step id 1) initial_transient
      [Model_failed 7 ''gpt'' (10 * second) [], Model_failed 7 ''gpt'' (20 * second) [\<lparr>mk_account_id = 7, mk_model = ''gpt''\<rparr>]] \<and>
     fst (transient_blocked id 0 7 ''gpt'' (29 * second) (tr_entries s)) \<and> \<not> fst (transient_blocked id 0 7 ''gpt'' (30 * second) (tr_entries s))"
proof -
  let ?k = "\<lparr>mk_account_id = 7, mk_model = ''gpt''\<rparr>"
  let ?es = "[Model_failed 7 ''gpt'' (10 * second) [], Model_failed 7 ''gpt'' (20 * second) [?k]]"
  let ?s = "run_steps (transient_step id 1) initial_transient ?es"
  have key: "transient_key id 7 ''gpt'' = Some ?k"
    by (simp add: transient_key_def normalize_transient_model_def trim_gpt transient_max_model_bytes_def)
  have first: "tr_entries (transient_step id 1 initial_transient (Model_failed 7 ''gpt'' (10 * second) [])) =
      fmupd ?k \<lparr>te_streak = 1, te_last_failure = 10 * second, te_block_until = 0, te_touched = 10 * second\<rparr> fmempty"
    by (simp add: transient_failure_def key initial_transient_def evict_oldest_def fmsize_empty cooldown_of_def Let_def)
  have adm: "admissible transient_event_ok (transient_step id 1) initial_transient ?es"
    using first by (simp add: initial_transient_def fset_of_list.rep_eq del: transient_step.simps) (simp add: first)
  have fs: "model_failures id ?k (rev ?es) = [20 * second, 10 * second]" and keys: "failed_keys id (rev ?es) = {?k}"
    by (simp_all add: key)
  have cool: "cooling [20 * second, 10 * second] (29 * second)" "\<not> cooling [20 * second, 10 * second] (30 * second)"
    by (simp_all add: cooling_def streak_ttl_def cooldown_of_def short_cooldown_def)
  have "fst (transient_blocked id 0 7 ''gpt'' (29 * second) (tr_entries ?s))"
    using transient_breaker_refines [OF _ adm refl _ _ key, of "29 * second" 0] fs keys cool by simp
  moreover have "\<not> fst (transient_blocked id 0 7 ''gpt'' (30 * second) (tr_entries ?s))"
    using transient_breaker_refines [OF _ adm refl _ _ key, of "30 * second" 0] fs keys cool by simp
  ultimately show ?thesis by blast
qed

end
