(* ===== verification/AbuseLimiter.thy ===== *)
theory AbuseLimiter
  imports StreamCircuit "HOL-Library.Word" "HOL-Library.Multiset"
begin

text \<open>
  The limiter of clients that present invalid keys (service/invalid_auth_abuse_limiter.go). Clients are kept in 16
  shards with a lock each; a counter shared by all shards bounds how many are kept, and a common overflow entry
  counts the failures of those that find no room. A method is a sequence of sections, each under
  one lock or one atomic operation, in which the atomic counter and the shard change together; \<open>limiter_step\<close> runs one
  section, so every interleaving of calls is a list of sections. A call
  reads the clock once, so sections may come with times out of order.
\<close>

unbundle bit_operations_syntax

section \<open>State\<close>

record abuse_entry =
  ae_failures :: int
  ae_window_start :: instant
  ae_blocked_until :: instant

type_synonym abuse_shard = "(string, abuse_entry) fmap"

record abuse_limiter =
  al_shards :: "abuse_shard list"
  al_overflow :: abuse_entry
  al_tracked :: int
  al_cleanup_next :: instant
  al_cleanup_cursor :: "32 word"
  al_recorded :: "64 word"
  al_blocked :: "64 word"
  al_rejected :: "64 word"
  al_expired :: "64 word"
  al_overflowed :: "64 word"
  al_global_blocked :: "64 word"

record abuse_settings =
  as_threshold :: int
  as_window :: duration
  as_block :: duration
  as_capacity :: int



definition zero_abuse_entry :: abuse_entry where
  "zero_abuse_entry = \<lparr>ae_failures = 0, ae_window_start = 0, ae_blocked_until = 0\<rparr>"


text \<open>The shard of a client: FNV-1a over its bytes.\<close>

definition fnv_step :: "32 word \<Rightarrow> char \<Rightarrow> 32 word" where
  "fnv_step hash c = (hash XOR word_of_nat (code c)) * 16777619"

definition shard_index :: "string \<Rightarrow> nat" where
  "shard_index client = unat (foldl fnv_step 2166136261 client mod 16)"

definition entry_expired :: "abuse_settings \<Rightarrow> instant \<Rightarrow> abuse_entry \<Rightarrow> bool" where
  "entry_expired st now e \<longleftrightarrow>
     \<not> now < ae_blocked_until e \<and> \<not> now < ae_window_start e \<and> \<not> now < ae_window_start e + as_window st"

section \<open>Sections\<close>

text \<open>\<open>maybeCleanupAtCapacity\<close>: at most every 100 ms one shard is searched for expired entries.\<close>

definition cleanup_shard :: "abuse_settings \<Rightarrow> nat \<Rightarrow> instant \<Rightarrow> abuse_limiter \<Rightarrow> abuse_limiter" where
  "cleanup_shard st i now l =
     (let old = al_shards l ! i;
          kept = fmfilter (\<lambda>k. case fmlookup old k of Some e \<Rightarrow> \<not> entry_expired st now e | None \<Rightarrow> True) old;
          gone = fmsize old - fmsize kept
      in l\<lparr>al_shards := (al_shards l)[i := kept], al_tracked := al_tracked l - gone, al_expired := al_expired l + of_int gone\<rparr>)"

definition maybe_cleanup :: "abuse_settings \<Rightarrow> instant \<Rightarrow> abuse_limiter \<Rightarrow> abuse_limiter" where
  "maybe_cleanup st now l =
     (if al_tracked l < as_capacity st then l
      else if now < al_cleanup_next l then l
      else
        let index = al_cleanup_cursor l;
            l = l\<lparr>al_cleanup_next := now + 100 * millisecond, al_cleanup_cursor := al_cleanup_cursor l + 1\<rparr>
        in cleanup_shard st (unat (index mod 16)) now l)"

text \<open>What \<open>check\<close> and \<open>record\<close> begin with under the lock of the shard: an expired entry is removed.\<close>

definition drop_expired :: "abuse_settings \<Rightarrow> string \<Rightarrow> instant \<Rightarrow> abuse_limiter \<Rightarrow> abuse_limiter" where
  "drop_expired st client now l =
     (let i = shard_index client; shard = al_shards l ! i
      in case fmlookup shard client of
          Some e \<Rightarrow>
            if entry_expired st now e
            then l\<lparr>al_shards := (al_shards l)[i := fmdrop client shard], al_tracked := al_tracked l - 1, al_expired := al_expired l + 1\<rparr>
            else l
        | None \<Rightarrow> l)"

definition client_entry :: "string \<Rightarrow> abuse_limiter \<Rightarrow> abuse_entry option" where
  "client_entry client l = fmlookup (al_shards l ! shard_index client) client"

definition put_entry :: "string \<Rightarrow> abuse_entry \<Rightarrow> abuse_limiter \<Rightarrow> abuse_limiter" where
  "put_entry client e l =
     (let i = shard_index client in l\<lparr>al_shards := (al_shards l)[i := fmupd client e (al_shards l ! i)]\<rparr>)"




text \<open>A failure counted in an entry that is not blocked; the result says whether it blocks.\<close>

definition count_abuse :: "abuse_settings \<Rightarrow> instant \<Rightarrow> abuse_entry \<Rightarrow> bool \<times> abuse_entry" where
  "count_abuse st now e =
     (let e = e\<lparr>ae_failures := ae_failures e + 1\<rparr>
      in if as_threshold st \<le> ae_failures e
         then (True, \<lparr>ae_failures = 0, ae_window_start = now + as_block st, ae_blocked_until = now + as_block st\<rparr>)
         else (False, e))"

text \<open>One more failure of a client that has an entry: nothing while it is blocked, and a new window when the last one is over.\<close>

definition record_entry :: "abuse_settings \<Rightarrow> instant \<Rightarrow> abuse_entry \<Rightarrow> bool \<times> abuse_entry" where
  "record_entry st now e =
     (if now < ae_blocked_until e then (False, e)
      else count_abuse st now
        (if now < ae_window_start e \<or> \<not> now < ae_window_start e + as_window st
         then e\<lparr>ae_window_start := now, ae_failures := 0\<rparr> else e))"

text \<open>The section of \<open>record\<close> under the shard; false when there is no room for the client.\<close>

definition record_client :: "abuse_settings \<Rightarrow> string \<Rightarrow> instant \<Rightarrow> abuse_limiter \<Rightarrow> bool \<times> abuse_limiter" where
  "record_client st client now l =
     (let l = drop_expired st client now l;
          found = client_entry client l
      in if found = None \<and> as_capacity st \<le> al_tracked l then (False, l)
         else
           let l = (if found = None then l\<lparr>al_tracked := al_tracked l + 1\<rparr> else l);
               (blocks, e) = record_entry st now (case found of Some e \<Rightarrow> e | None \<Rightarrow> zero_abuse_entry\<lparr>ae_window_start := now\<rparr>)
           in (True, put_entry client e (if blocks then l\<lparr>al_blocked := al_blocked l + 1\<rparr> else l)))"

definition record_overflow :: "abuse_settings \<Rightarrow> instant \<Rightarrow> abuse_limiter \<Rightarrow> abuse_limiter" where
  "record_overflow st now l =
     (let l = l\<lparr>al_overflowed := al_overflowed l + 1\<rparr>; e = al_overflow l
      in if now < ae_blocked_until e then l
         else
           let e = (if is_zero_time (ae_window_start e) \<or> \<not> now < ae_window_start e + as_window st
                    then e\<lparr>ae_window_start := now, ae_failures := 0\<rparr> else e);
               (blocks, e) = count_abuse st now e
           in (if blocks then l\<lparr>al_blocked := al_blocked l + 1, al_overflow := e\<rparr> else l\<lparr>al_overflow := e\<rparr>))"

section \<open>The methods\<close>


definition abuse_record :: "abuse_settings \<Rightarrow> string \<Rightarrow> instant \<Rightarrow> abuse_limiter \<Rightarrow> abuse_limiter" where
  "abuse_record st client now l =
     (if client = [] then l
      else case record_client st client now (maybe_cleanup st now (l\<lparr>al_recorded := al_recorded l + 1\<rparr>)) of
          (True, l) \<Rightarrow> l
        | (False, l) \<Rightarrow> record_overflow st now l)"






section \<open>What a block rests on\<close>











lemma fmsize_nonneg: "0 \<le> fmsize m" by (simp add: fmsize_def)


























end
