(* ===== verification/Spec2Isabelle.thy ===== *)
theory Spec2Isabelle
  imports Prelude GoJson Failover AnthropicStream IdempotencyStore Idempotency SystemLock ConcurrencyCache KeywordMatcher PaymentProperties RefundProperties
    BatchProperties BillingRuns NamespaceForwarding ModelTransient AbuseLimiter
begin

text \<open>
  A verification development for Gourd API, a gateway in front of the APIs of model providers
  (Go, src/backend/internal). A request enters through a handler, takes a concurrency slot of its
  user, its key and an upstream account, is forwarded to the account, changes account when
  the account fails, and has its answer converted into the protocol the client speaks. Writes of
  the administration interface run under an idempotency key, system operations under a global lock.

  \<^bold>\<open>Theories\<close>

  \<^item> \<open>Prelude\<close>: instants and durations, 64-bit integers, Go's string operations, and the locales
    \<open>invariant_machine\<close> and \<open>draining_machine\<close>: a machine with an invariant, and one whose
    continuing steps decrease a potential.
  \<^item> \<open>GoJson\<close>: what the code uses of encoding/json: the validity scanner, decoding of an object
    into raw values, encoding, and the UTF-8 validity check of unicode/utf8.
  \<^item> \<open>Failover\<close> (handler/failover_loop.go, the loop of handler/gateway_handler_responses.go, the
    error type of service/gateway_service.go): \<open>failover_state\<close> is FailoverState;
    \<open>handle_failover_error\<close>, \<open>handle_selection_exhausted\<close> and \<open>record_profit_veto\<close> are its methods, and
    \<open>responses_iteration\<close> is one iteration of the loop with the answers of the services as input.
    The lemmas show that the loop ends, that account slots are released exactly once, which
    accounts stay excluded, how retries are spaced and when cache billing is forced.
  \<^item> \<open>AnthropicStream\<close> (pkg/apicompat/responses_to_anthropic.go and types.go): \<open>stream_state\<close> is
    ResponsesEventToAnthropicState, with one definition per handler; \<open>convert_event\<close> is the
    dispatcher and \<open>finalize_stream\<close> the end of a broken stream; \<open>responses_to_anthropic\<close> is the
    non-streaming converter. Two monitors read the emitted events: a weak one that holds for any input,
    and a strict one, the grammar of an Anthropic message, that holds for an upstream following its
    own protocol. Further lemmas show that no text of any part is lost, and where both converters agree.
  \<^item> \<open>IdempotencyStore\<close> (repository/idempotency_repo.go): the table as a list of rows, one operation per
    SQL statement, and the locale \<open>idempotency_repo\<close>: what its clients rely on. The interpretation
    \<open>table\<close> proves the contract for the operations.
  \<^item> \<open>Idempotency\<close> (service/idempotency.go): Execute cut at its repository calls into phases;
    \<open>advance\<close> consumes a reply, \<open>phase_call\<close> names the next call. A system of any number of
    requests and one table interleaves them, with failing calls and lost replies. The lemmas
    show single flight, finality of success, the outcome of a repeated request on every branch,
    and that a success whose response was truncated is never replayed.
  \<^item> \<open>SystemLock\<close> (service/system_operation_lock_service.go): a second client of the same locale:
    acquisition, renewal and release of the global lock, its outcomes, and how a lock is lost.
  \<^item> \<open>ConcurrencyCache\<close> (repository/concurrency_cache.go): the keys of Redis as a record of maps,
    each Lua script one function on it, and each Go method a composition of scripts.
    The lemmas show that no interleaving of calls exceeds a limit, and when a slot is granted.
  \<^item> \<open>KeywordMatcher\<close> (service/content_moderation_keyword_matcher.go): the Aho-Corasick automaton of the
    content moderation, from the trie through the failure links to the flat tables and the binary
    search. Its search is proved to return the first keyword of the list that occurs in the text.
  \<^item> \<open>PaymentStore\<close> (ent/schema, repository/user_repo.go, redeem_code_repo.go, the transaction of
    service/redeem_service.go): orders, redeem codes, balances, subscriptions and the audit log, with
    the statements on them.
  \<^item> \<open>PaymentFulfillment\<close> (service/payment_fulfillment.go): a worker cut at its calls, from the
    notification to the completed order; \<open>pay_step\<close> makes the next call and \<open>pay_system_step\<close>
    interleaves any number of workers with everything else that writes these tables.
  \<^item> \<open>PaymentInvariant\<close>, \<open>PaymentProperties\<close>: the invariant of that system and what follows: orders are
    granted exactly once, balances are what the redeemed codes say, and interrupted work of an order that can be
    fulfilled can be finished.
  \<^item> \<open>PaymentCurrency\<close> (payment/currency.go, service/payment_amounts.go): currencies, minor units, and the
    arithmetic of refunds in units of 10^-8; which amounts are refused.
  \<^item> \<open>PaymentRefund\<close> (service/payment_refund.go): a refund cut at its calls, from the request to the later query
    of a pending one; \<open>refund_step\<close> makes the next call, \<open>refund_system_step\<close> interleaves the handlers.
  \<^item> \<open>RefundInvariant\<close>, \<open>RefundProperties\<close>: one handler owns an order at a time and what it has taken is what
    the ledger says, so nothing is taken back twice; and, for any order, a run outside the assumptions that does.
  \<^item> \<open>Calendar\<close>, \<open>SubscriptionWindow\<close> (service/subscription_window.go): the UTC calendar of Go, and the quota windows
    of a subscription: their start and end, and the usage in effect.
  \<^item> \<open>SubscriptionWallets\<close> (service/user_subscription.go): the limit of a wallet, and which wallets pay
    which part of a cost.
  \<^item> \<open>UsageBilling\<close> (service/usage_billing.go, repository/usage_billing_repo.go): the transaction that charges a
    request to wallets, balance, key and account, those of the holds of a batch, and the claims that keep
    either from running twice; \<open>billing_step\<close> runs them in any order, each of which may fail or lose its reply.
  \<^item> \<open>UsageBillingProperties\<close>, \<open>WalletCharges\<close>, \<open>BillingRuns\<close>: a request is charged once and in full (holds and top-ups finer
    than eight digits round by at most 10^-8 each), within the limits of the billable wallets if there are any, and the
    columns keep their types; concrete runs, and where a window that is over still counts.
  \<^item> \<open>BatchImage\<close> (service/batch_image.go, batch_image_public.go, batch_image_processor.go, batch_image_settlement.go,
    batch_image_billing_hold.go, batch_image_billing_recovery.go, repository/batch_image_repo.go): batches of images, the
    client of the holds. \<open>submit_call\<close>, \<open>work_call\<close>, \<open>settle_call\<close> and \<open>other_call\<close> make the next call of a Submit, a worker, a
    settlement, and of Cancel, a repeated Submit or the recovery; \<open>batch_step\<close> interleaves them with the bookkeeping.
  \<^item> \<open>BatchInvariant\<close>, \<open>BatchLocal\<close>, \<open>BatchRuns\<close>, \<open>BatchProperties\<close>: what a call does to the claims on a hold, the invariant of one
    job and of all of them, and what follows: holds end once and the frozen balance is theirs; and two runs outside
    the assumptions in which a hold is lost or paid twice.
  \<^item> \<open>NamespaceTools\<close> (pkg/apicompat/responses_namespace.go and the flat names of chatcompletions_responses_bridge.go): decoded JSON values,
    the flattening of the tools of a request (\<open>flatten_namespaces\<close>) and the functions that rewrite and restore calls.
  \<^item> \<open>NamespaceForwarding\<close> (service/openai_responses_namespace.go): when a forwarded request is flattened or stripped, and the properties:
    the round trip of calls, one declaration for each flat name, a history that only grows from turn to turn, and what
    the children of a namespace without a name do to the declarations of others.
  \<^item> \<open>StreamCircuit\<close> (service/openai_proxy_stream_circuit.go), \<open>ModelTransient\<close> (service/openai_account_model_transient.go),
    \<open>AbuseLimiter\<close> (service/invalid_auth_abuse_limiter.go): three bounded tables of failures that block a proxy, an account with a model, or
    a client. The lemmas show that a block rests on failures of its own (or, for a client a full limiter has no room for, on those of
    the shared overflow entry), that the tables keep their bounds, and that the second implements a
    specification over the whole history while it has room.

  \<^bold>\<open>Bounds\<close>

  Execute makes at most five repository calls and Acquire at most four; \<open>serve\<close> runs a request
  alone with that many steps and is proved to end with them. The loops over bytes recurse
  over the string, or are given its length as fuel, which decreases with every byte consumed. The
  failover loop is bounded by 2 * maxSwitches + 10 + |accounts| * retryLimit iterations: each
  iteration that continues spends a switch, a backoff that a switch has to precede, one of ten
  vetoes, or one of the retries an account has. Go's int is unbounded here where it counts retries
  and slots, which stay far below 2^63, and wraps where durations are multiplied. A worker that runs alone
  with answering services completes an order within eleven calls.

  \<^bold>\<open>Assumptions\<close>

  A statement of the database and a script of Redis are atomic. Properties of the idempotency layer
  that speak of a live record assume that no record has expired meanwhile and that a lease
  is not taken over while its holder runs, which is what the renewal is for. SHA-256, the
  rendering of application data as JSON, and the redaction of logs are arguments. Amounts of money
  are multiples of 10^-8 without rounding in sums, and exact decimals before a conversion to float64, in the billing of requests multiples of 10^-10 that the columns of
  balances round to eight digits; the session of the database is in UTC, and rows that expire together come in
  the order of the table; the claim of a rebate is one statement, redeem codes are not deleted,
  \<open>refund_event_ok\<close> lists the events the refund properties exclude (a lost reply of a deduction, a failed rollback, the
  unguarded write of a failed query on an order that is no longer REFUND_PENDING), \<open>batch_event_ok\<close> those the properties of batches
  exclude: an unanswered capture, a worker that dies before it marks a captured job, a release during a reservation.
  The tables of failures assume a clock that does not run backwards (the limiter does not) and lengths below 2^63 nanoseconds; a loop over
  a Go map visits its keys in any order, which comes with the event.

  \<^bold>\<open>Not modelled, and the plan\<close>

  HTTP, SQL beyond the idempotency table, the generated ent client, OAuth, the
  administration services, monitoring statistics and the web frontend are left out as input and
  output around other systems. Planned next, in this order: the request direction of
  the protocol conversion, the lowering of custom tools beside the namespaces, the error passthrough rules, account scheduling, and pricing.
\<close>

end
